(* ===== verification/TH_Prelude.thy ===== *)
theory TH_Prelude
  imports Complex_Main
begin

text \<open>
  Shared prelude. A JavaScript string is a \<^typ>\<open>string\<close> whose characters are the Latin-1
  UTF-16 code units 0 to 255 (strings with larger code units are outside the model). This theory
  holds the parts of the JavaScript string library that the modelled code calls
  (\<open>String.prototype.trim\<close>, \<open>toLowerCase\<close>, \<open>split\<close>, \<open>join\<close>, decimal \<open>Number\<close> of a digit string and
  \<open>String\<close> of a natural number), the character classes of its regular expressions, and the generic
  lemmas on them and on lists that the component theories share.
\<close>

section \<open>Lemma collections and result types\<close>

named_theorems js_simps \<open>rewrite rules for the JavaScript string helpers\<close>
named_theorems invariant_intros \<open>preservation of component invariants by their operations\<close>

type_synonym ('e, 'a) result = "'e + 'a"

section \<open>Characters\<close>

abbreviation code_unit :: "char \<Rightarrow> nat" where
  "code_unit c \<equiv> of_char c"

abbreviation DQUOTE :: char where "DQUOTE \<equiv> CHR 0x22"
abbreviation BACKSLASH :: char where "BACKSLASH \<equiv> CHR 0x5C"
abbreviation SPACE :: char where "SPACE \<equiv> CHR 0x20"

text \<open>The whitespace of \<open>trim\<close> and of \<open>\s\<close>, restricted to Latin-1: TAB, LF, VT, FF, CR, SP, NBSP.\<close>

definition js_ws :: "char \<Rightarrow> bool" where
  "js_ws c \<longleftrightarrow> code_unit c \<in> {9, 10, 11, 12, 13, 32, 160}"

definition is_digit :: "char \<Rightarrow> bool" where
  "is_digit c \<longleftrightarrow> 48 \<le> code_unit c \<and> code_unit c \<le> 57"

definition is_upper :: "char \<Rightarrow> bool" where
  "is_upper c \<longleftrightarrow> 65 \<le> code_unit c \<and> code_unit c \<le> 90"

definition is_lower :: "char \<Rightarrow> bool" where
  "is_lower c \<longleftrightarrow> 97 \<le> code_unit c \<and> code_unit c \<le> 122"

definition is_alpha :: "char \<Rightarrow> bool" where
  "is_alpha c \<longleftrightarrow> is_upper c \<or> is_lower c"

definition is_word_char :: "char \<Rightarrow> bool" where
  "is_word_char c \<longleftrightarrow> is_alpha c \<or> is_digit c \<or> c = CHR ''_''"

text \<open>\<open>[0-9a-f]\<close> and the same class under the \<open>i\<close> flag.\<close>

definition is_hex_lower :: "char \<Rightarrow> bool" where
  "is_hex_lower c \<longleftrightarrow> is_digit c \<or> (97 \<le> code_unit c \<and> code_unit c \<le> 102)"

definition is_hex :: "char \<Rightarrow> bool" where
  "is_hex c \<longleftrightarrow> is_hex_lower c \<or> (65 \<le> code_unit c \<and> code_unit c \<le> 70)"

text \<open>\<open>toLowerCase\<close> on Latin-1: A-Z and the accented capitals 0xC0 to 0xDE except 0xD7.\<close>

definition is_capital :: "char \<Rightarrow> bool" where
  "is_capital c \<longleftrightarrow> is_upper c \<or> (192 \<le> code_unit c \<and> code_unit c \<le> 222 \<and> code_unit c \<noteq> 215)"

definition js_lower_char :: "char \<Rightarrow> char" where
  "js_lower_char c = (if is_capital c then char_of (code_unit c + 32) else c)"

definition js_lower :: "string \<Rightarrow> string" where
  "js_lower s = map js_lower_char s"

lemmas char_class_defs =
  js_ws_def is_digit_def is_upper_def is_lower_def is_alpha_def is_word_char_def
  is_hex_lower_def is_hex_def is_capital_def

lemma js_lower_char_idem [simp]: "js_lower_char (js_lower_char c) = js_lower_char c"
  using nat_of_char_less_256 [of c]
  by (auto simp: js_lower_char_def is_capital_def is_upper_def)

lemma code_unit_lower:
  "code_unit (js_lower_char c) = (if is_capital c then code_unit c + 32 else code_unit c)"
  using nat_of_char_less_256 [of c]
  by (auto simp: js_lower_char_def is_capital_def is_upper_def)

lemma js_ws_lower [simp]: "js_ws (js_lower_char c) = js_ws c"
  by (auto simp: js_ws_def code_unit_lower is_capital_def is_upper_def)

lemma is_digit_lower [simp]: "is_digit (js_lower_char c) = is_digit c"
  by (auto simp: is_digit_def code_unit_lower is_capital_def is_upper_def)

lemma js_lower_char_digit [simp]: "is_digit c \<Longrightarrow> js_lower_char c = c"
  by (auto simp: js_lower_char_def is_digit_def is_capital_def is_upper_def)

lemma js_lower_char_hex [simp]: "is_hex_lower c \<Longrightarrow> js_lower_char c = c"
  by (auto simp: js_lower_char_def is_hex_lower_def is_digit_def is_capital_def is_upper_def)

lemma is_digit_not_ws: "is_digit c \<Longrightarrow> \<not> js_ws c"
  by (auto simp: is_digit_def js_ws_def)

lemma is_hex_lower_not_ws: "is_hex_lower c \<Longrightarrow> \<not> js_ws c"
  by (auto simp: is_hex_lower_def is_digit_def js_ws_def)

lemma is_word_char_not_ws: "is_word_char c \<Longrightarrow> \<not> js_ws c"
  by (auto simp: char_class_defs)

lemma js_lower_Nil [simp, js_simps]: "js_lower [] = []"
  by (simp add: js_lower_def)

lemma js_lower_Cons [simp, js_simps]: "js_lower (c # cs) = js_lower_char c # js_lower cs"
  by (simp add: js_lower_def)

lemma js_lower_append [simp, js_simps]: "js_lower (xs @ ys) = js_lower xs @ js_lower ys"
  by (simp add: js_lower_def)

lemma js_lower_idem [simp, js_simps]: "js_lower (js_lower s) = js_lower s"
  by (induction s) auto

lemma length_js_lower [simp, js_simps]: "length (js_lower s) = length s"
  by (simp add: js_lower_def)

lemma js_lower_eq_Nil [simp, js_simps]: "js_lower s = [] \<longleftrightarrow> s = []"
  by (simp add: js_lower_def)

lemma js_lower_hex: "list_all is_hex_lower s \<Longrightarrow> js_lower s = s"
  by (induction s) auto

section \<open>Trimming\<close>

definition js_trim :: "string \<Rightarrow> string" where
  "js_trim s = rev (dropWhile js_ws (rev (dropWhile js_ws s)))"

text \<open>A string that \<open>trim\<close> leaves alone: no whitespace at either end.\<close>

definition trimmed :: "string \<Rightarrow> bool" where
  "trimmed s \<longleftrightarrow> s = [] \<or> (\<not> js_ws (hd s) \<and> \<not> js_ws (last s))"

lemma dropWhile_hd_id: "xs = [] \<or> \<not> P (hd xs) \<Longrightarrow> dropWhile P xs = xs"
  by (cases xs) auto

lemma last_dropWhile_nonempty: "dropWhile P xs \<noteq> [] \<Longrightarrow> last (dropWhile P xs) = last xs"
  by (metis last_appendR takeWhile_dropWhile_id)

lemma js_trim_trimmed [simp, js_simps]: "trimmed s \<Longrightarrow> js_trim s = s"
  by (auto simp: trimmed_def js_trim_def dropWhile_hd_id hd_rev)

lemma trimmed_js_trim [simp, js_simps]: "trimmed (js_trim s)"
proof -
  let ?l = "dropWhile js_ws s"
  let ?r = "dropWhile js_ws (rev ?l)"
  have hd_l: "?l = [] \<or> \<not> js_ws (hd ?l)" using hd_dropWhile by blast
  show ?thesis
  proof (cases "?r = []")
    case True
    then show ?thesis by (simp add: trimmed_def js_trim_def)
  next
    case False
    then have ne: "?l \<noteq> []" by force
    have "\<not> js_ws (hd ?r)" using False hd_dropWhile by blast
    moreover have "last ?r = hd ?l"
      using False by (simp add: last_dropWhile_nonempty last_rev)
    ultimately show ?thesis
      using False hd_l ne by (auto simp: trimmed_def js_trim_def hd_rev last_rev)
  qed
qed

lemma js_trim_idem [simp, js_simps]: "js_trim (js_trim s) = js_trim s"
  by simp

lemma js_trim_Nil [simp, js_simps]: "js_trim [] = []"
  by (simp add: js_trim_def)

lemma set_js_trim: "set (js_trim s) \<subseteq> set s"
  by (auto simp: js_trim_def dest!: set_dropWhileD)

lemma dropWhile_js_lower: "dropWhile js_ws (js_lower s) = js_lower (dropWhile js_ws s)"
  by (induction s) auto

lemma js_trim_js_lower [js_simps]: "js_trim (js_lower s) = js_lower (js_trim s)"
proof -
  have "rev (js_lower s) = js_lower (rev s)" for s by (simp add: js_lower_def rev_map)
  then show ?thesis by (simp add: js_trim_def dropWhile_js_lower)
qed

lemma trimmed_js_lower [simp, js_simps]: "trimmed (js_lower s) = trimmed s"
  by (auto simp: trimmed_def js_lower_def last_map hd_map)

lemma trimmed_no_ws: "list_all (\<lambda>c. \<not> js_ws c) s \<Longrightarrow> trimmed s"
  by (auto simp: trimmed_def list_all_iff)

section \<open>Splitting and joining\<close>

text \<open>\<open>s.split(c)\<close> for a one-character separator, and \<open>xs.join(sep)\<close>.\<close>

fun js_split :: "char \<Rightarrow> string \<Rightarrow> string list" where
  "js_split d [] = [[]]"
| "js_split d (c # cs) =
     (if c = d then [] # js_split d cs
      else (case js_split d cs of [] \<Rightarrow> [[c]] | p # ps \<Rightarrow> (c # p) # ps))"

fun js_join :: "string \<Rightarrow> string list \<Rightarrow> string" where
  "js_join sep [] = []"
| "js_join sep [x] = x"
| "js_join sep (x # y # xs) = x @ sep @ js_join sep (y # xs)"

lemma js_split_nonempty [simp]: "js_split d s \<noteq> []"
  by (induction s) (auto split: list.splits)

lemma js_split_no_sep: "d \<notin> set s \<Longrightarrow> js_split d s = [s]"
  by (induction s) auto

lemma js_split_append: "d \<notin> set s \<Longrightarrow> js_split d (s @ d # t) = s # js_split d t"
  by (induction s) auto

lemma js_split_join:
  "xs \<noteq> [] \<Longrightarrow> \<forall>x \<in> set xs. d \<notin> set x \<Longrightarrow> js_split d (js_join [d] xs) = xs"
  by (induction "[d]" xs rule: js_join.induct) (auto simp: js_split_no_sep js_split_append)

lemma js_join_split: "js_join [d] (js_split d s) = s"
proof (induction s)
  case (Cons c cs)
  obtain p ps where "js_split d cs = p # ps" by (metis js_split_nonempty list.exhaust)
  with Cons show ?case by (cases ps) auto
qed simp

lemma js_join_Cons: "xs \<noteq> [] \<Longrightarrow> js_join sep (x # xs) = x @ sep @ js_join sep xs"
  by (cases xs) auto

lemma js_join_append: "xs \<noteq> [] \<Longrightarrow> ys \<noteq> [] \<Longrightarrow> js_join sep (xs @ ys) = js_join sep xs @ sep @ js_join sep ys"
proof (induction xs)
  case (Cons x xs)
  then show ?case by (cases "xs = []") (simp_all add: js_join_Cons)
qed simp

lemma js_join_concat:
  "(\<forall>c \<in> set cs. g c \<noteq> []) \<Longrightarrow> js_join sep (map (\<lambda>c. js_join sep (g c)) cs) = js_join sep (concat (map g cs))"
proof (induction cs)
  case (Cons c cs)
  show ?case
  proof (cases "cs = []")
    case False
    with Cons.prems have "concat (map g cs) \<noteq> []" by (cases cs) auto
    then show ?thesis using Cons False by (simp add: js_join_Cons js_join_append)
  qed simp
qed simp

section \<open>Decimal numerals\<close>

definition digit_val :: "char \<Rightarrow> nat" where
  "digit_val c = code_unit c - 48"

text \<open>\<open>Number(s)\<close> for a string of decimal digits, and \<open>String(n)\<close> for a natural number.\<close>

definition digits_val :: "string \<Rightarrow> nat" where
  "digits_val s = foldl (\<lambda>n c. 10 * n + digit_val c) 0 s"

definition digit_char :: "nat \<Rightarrow> char" where
  "digit_char d = char_of (48 + d)"

fun show_nat :: "nat \<Rightarrow> string" where
  "show_nat n = (if n < 10 then [digit_char n] else show_nat (n div 10) @ [digit_char (n mod 10)])"

declare show_nat.simps [simp del]

lemma is_digit_digit_char [simp]: "d < 10 \<Longrightarrow> is_digit (digit_char d)"
  by (simp add: is_digit_def digit_char_def)

lemma digit_val_digit_char [simp]: "d < 10 \<Longrightarrow> digit_val (digit_char d) = d"
  by (simp add: digit_val_def digit_char_def)

lemma digits_val_snoc [simp]: "digits_val (s @ [c]) = 10 * digits_val s + digit_val c"
  by (simp add: digits_val_def)

lemma digits_val_Nil [simp]: "digits_val [] = 0"
  by (simp add: digits_val_def)

lemma digits_val_show_nat [simp, js_simps]: "digits_val (show_nat n) = n"
proof (induction n rule: show_nat.induct)
  case (1 n)
  show ?case
  proof (cases "n < 10")
    case True
    then show ?thesis
      using digits_val_snoc [of "[]" "digit_char n"] by (simp add: show_nat.simps [of n])
  next
    case False
    with 1 show ?thesis by (simp add: show_nat.simps [of n])
  qed
qed

lemma show_nat_digits [simp, js_simps]: "list_all is_digit (show_nat n)"
proof (induction n rule: show_nat.induct)
  case (1 n)
  then show ?case by (cases "n < 10") (simp_all add: show_nat.simps [of n])
qed

lemma show_nat_nonempty [simp, js_simps]: "show_nat n \<noteq> []"
  by (subst show_nat.simps) simp

lemma length_show_nat: "n < 10 ^ k \<Longrightarrow> 0 < k \<Longrightarrow> length (show_nat n) \<le> k"
proof (induction n arbitrary: k rule: show_nat.induct)
  case (1 n)
  show ?case
  proof (cases "n < 10")
    case True
    with 1 show ?thesis by (simp add: show_nat.simps [of n])
  next
    case False
    then obtain j where k: "k = Suc j" and j: "0 < j"
      using 1 by (metis One_nat_def not0_implies_Suc not_gr_zero power_one_right)
    then have "n div 10 < 10 ^ j" using 1(2) by simp
    then have "length (show_nat (n div 10)) \<le> j" using 1(1) False j by simp
    then show ?thesis using False k by (simp add: show_nat.simps [of n])
  qed
qed

lemma digit_val_le: "is_digit c \<Longrightarrow> digit_val c \<le> 9"
  by (auto simp: is_digit_def digit_val_def)

lemma digits_val_bound: "list_all is_digit s \<Longrightarrow> digits_val s < 10 ^ length s"
proof (induction s rule: rev_induct)
  case (snoc c s)
  then show ?case using digit_val_le [of c] by simp
qed simp

section \<open>Generic list lemmas\<close>

lemma length_filter_mono: "(\<And>x. x \<in> set xs \<Longrightarrow> P x \<Longrightarrow> Q x) \<Longrightarrow> length (filter P xs) \<le> length (filter Q xs)"
  by (induction xs) auto

lemma length_filter_map_le:
  "(\<And>x. x \<in> set xs \<Longrightarrow> P (f x) \<Longrightarrow> Q x) \<Longrightarrow> length (filter P (map f xs)) \<le> length (filter Q xs)"
  by (induction xs) auto

lemma takeWhile_dropWhile_all:
  "list_all P xs \<Longrightarrow> ys = [] \<or> \<not> P (hd ys) \<Longrightarrow> takeWhile P (xs @ ys) = xs \<and> dropWhile P (xs @ ys) = ys"
  by (induction xs) (auto simp: dropWhile_hd_id, cases ys, auto)

section \<open>Numbers\<close>

text \<open>Finite JavaScript numbers are rationals here (rounding of long fractions is not modelled). \<open>Math.trunc\<close> is towards zero,
  \<open>Math.round\<close> to the nearest integer with halves upwards.\<close>

definition js_trunc :: "rat \<Rightarrow> int" where
  "js_trunc r = (if 0 \<le> r then \<lfloor>r\<rfloor> else \<lceil>r\<rceil>)"

definition js_round :: "rat \<Rightarrow> int" where
  "js_round r = \<lfloor>r + 1 / 2\<rfloor>"

section \<open>Reading a plain object\<close>

text \<open>A computed key also finds the properties of \<open>Object.prototype\<close>.\<close>

definition OBJECT_PROTOTYPE_KEYS :: "string list" where
  "OBJECT_PROTOTYPE_KEYS =
     [''constructor'', ''toString'', ''valueOf'', ''hasOwnProperty'', ''isPrototypeOf'', ''propertyIsEnumerable'',
      ''toLocaleString'', ''__proto__'', ''__defineGetter__'', ''__defineSetter__'', ''__lookupGetter__'',
      ''__lookupSetter__'']"

datatype 'a js_lookup = Found 'a | ProtoMember | Absent

definition js_get :: "(string \<times> 'a) list \<Rightarrow> string \<Rightarrow> 'a js_lookup" where
  "js_get m k =
     (case map_of m k of
        Some v \<Rightarrow> Found v
      | None \<Rightarrow> if k \<in> set OBJECT_PROTOTYPE_KEYS then ProtoMember else Absent)"

section \<open>Transition systems\<close>

text \<open>Reachability over a step relation, and the contract that a component discharges to keep an invariant.\<close>

inductive reachable :: "('s \<Rightarrow> bool) \<Rightarrow> ('s \<Rightarrow> 's \<Rightarrow> bool) \<Rightarrow> 's \<Rightarrow> bool" for init step where
  start: "init s \<Longrightarrow> reachable init step s"
| more: "reachable init step s \<Longrightarrow> step s t \<Longrightarrow> reachable init step t"

locale invariant_system =
  fixes init :: "'s \<Rightarrow> bool" and step :: "'s \<Rightarrow> 's \<Rightarrow> bool" and inv :: "'s \<Rightarrow> bool"
  assumes init_inv: "init s \<Longrightarrow> inv s"
    and step_inv: "inv s \<Longrightarrow> step s t \<Longrightarrow> inv t"
begin

lemma reachable_inv: "reachable init step s \<Longrightarrow> inv s"
  by (induction rule: reachable.induct) (auto intro: init_inv step_inv)

lemma steps_inv: "step\<^sup>*\<^sup>* s t \<Longrightarrow> inv s \<Longrightarrow> inv t"
  by (induction rule: rtranclp_induct) (auto intro: step_inv)

end

end
