(* ===== verification/DslFields.thy ===== *)
theory DslFields
  imports TH_Prelude
begin

text \<open>
  The error value, the limits and the field registry of the IOC Search DSL
  (\<open>backend/lib/iocSearchDsl/errors.js\<close>, \<open>config.js\<close>, \<open>fields.js\<close>). A \<open>DslError\<close> is a value of the
  record \<open>dsl_error\<close>; its analyst-facing message text is not modelled, its machine-readable code, its
  position and its field are. The environment is a function from a variable name to the value
  \<open>Number(process.env[name])\<close> has when it is finite.
\<close>

section \<open>errors.js\<close>

record dsl_error =
  err_code :: string
  err_position :: "nat option"
  err_field :: "string option"

type_synonym 'a dsl = "(dsl_error, 'a) result"

definition dsl_fail :: "string \<Rightarrow> nat \<Rightarrow> 'a dsl" where
  "dsl_fail code pos = Inl \<lparr>err_code = code, err_position = Some pos, err_field = None\<rparr>"

definition dsl_fail_at :: "string \<Rightarrow> nat \<Rightarrow> string \<Rightarrow> 'a dsl" where
  "dsl_fail_at code pos fld = Inl \<lparr>err_code = code, err_position = Some pos, err_field = Some fld\<rparr>"

section \<open>config.js\<close>

type_synonym env = "string \<Rightarrow> rat option"

definition intFromEnv :: "env \<Rightarrow> string \<Rightarrow> int \<Rightarrow> int \<Rightarrow> int \<Rightarrow> int" where
  "intFromEnv env name fallback mn mx =
     (let value = (case env name of Some raw \<Rightarrow> js_trunc raw | None \<Rightarrow> fallback)
      in min (max value mn) mx)"

record search_limits =
  maxQueryLength :: nat
  maxConditions :: nat
  maxParenthesesDepth :: nat
  maxInItems :: nat

definition getSearchLimits :: "env \<Rightarrow> search_limits" where
  "getSearchLimits env =
     \<lparr>maxQueryLength = nat (intFromEnv env ''IOC_SEARCH_MAX_QUERY_LENGTH'' 4000 16 100000),
      maxConditions = nat (intFromEnv env ''IOC_SEARCH_MAX_CONDITIONS'' 30 1 500),
      maxParenthesesDepth = nat (intFromEnv env ''IOC_SEARCH_MAX_PARENTHESES_DEPTH'' 8 1 64),
      maxInItems = nat (intFromEnv env ''IOC_SEARCH_MAX_IN_ITEMS'' 100 1 1000)\<rparr>"

definition getPreviewLimit :: "env \<Rightarrow> int" where
  "getPreviewLimit env = intFromEnv env ''IOC_SEARCH_PREVIEW_LIMIT'' 2000 1 100000"

definition getQueryTimeoutMs :: "env \<Rightarrow> int" where
  "getQueryTimeoutMs env = intFromEnv env ''IOC_SEARCH_QUERY_TIMEOUT_MS'' 5000 100 120000"

record classifier_config =
  trigramMinLength :: nat
  maxOrBranches :: nat

definition getClassifierConfig :: "env \<Rightarrow> classifier_config" where
  "getClassifierConfig env =
     \<lparr>trigramMinLength = nat (intFromEnv env ''IOC_SEARCH_TRIGRAM_MIN_LENGTH'' 3 1 16),
      maxOrBranches = nat (intFromEnv env ''IOC_SEARCH_MAX_INTERACTIVE_OR_BRANCHES'' 4 1 64)\<rparr>"

section \<open>fields.js\<close>

datatype field_kind = KText | KEnum | KDate | KHash | KAttr

record field_spec =
  spec_kind :: field_kind
  spec_operators :: "string list"
  spec_allowedValues :: "string list option"
  spec_hashType :: "string option"
  spec_attrType :: "string option"

definition TEXT_OPERATORS :: "string list" where
  "TEXT_OPERATORS =
     [''contains'', ''equals'', ''not_equals'', ''starts_with'', ''ends_with'', ''not_contains'']"

definition LIST_OPERATORS :: "string list" where
  "LIST_OPERATORS = [''in'', ''not_in'']"

definition ENUM_OPERATORS :: "string list" where
  "ENUM_OPERATORS = [''equals'', ''not_equals'', ''in'', ''not_in'']"

definition DATE_OPERATORS :: "string list" where
  "DATE_OPERATORS = [''before'', ''after'', ''between'']"

definition HASH_OPERATORS :: "string list" where
  "HASH_OPERATORS = [''equals'']"

definition ATTR_OPERATORS :: "string list" where
  "ATTR_OPERATORS = [''equals'']"

definition text_spec :: "string list \<Rightarrow> field_spec" where
  "text_spec ops = \<lparr>spec_kind = KText, spec_operators = ops, spec_allowedValues = None,
     spec_hashType = None, spec_attrType = None\<rparr>"

definition enum_spec :: "string list option \<Rightarrow> field_spec" where
  "enum_spec allowed = \<lparr>spec_kind = KEnum, spec_operators = ENUM_OPERATORS,
     spec_allowedValues = allowed, spec_hashType = None, spec_attrType = None\<rparr>"

definition date_spec :: field_spec where
  "date_spec = \<lparr>spec_kind = KDate, spec_operators = DATE_OPERATORS, spec_allowedValues = None,
     spec_hashType = None, spec_attrType = None\<rparr>"

definition hash_spec :: "string \<Rightarrow> field_spec" where
  "hash_spec t = \<lparr>spec_kind = KHash, spec_operators = HASH_OPERATORS, spec_allowedValues = None,
     spec_hashType = Some t, spec_attrType = None\<rparr>"

definition attr_spec :: "string \<Rightarrow> field_spec" where
  "attr_spec t = \<lparr>spec_kind = KAttr, spec_operators = ATTR_OPERATORS, spec_allowedValues = None,
     spec_hashType = None, spec_attrType = Some t\<rparr>"

definition FIELD_REGISTRY :: "(string \<times> field_spec) list" where
  "FIELD_REGISTRY =
     [(''ioc'', text_spec TEXT_OPERATORS),
      (''tag'', text_spec (TEXT_OPERATORS @ LIST_OPERATORS)),
      (''source'', text_spec (TEXT_OPERATORS @ LIST_OPERATORS)),
      (''threat_actor'', text_spec (TEXT_OPERATORS @ LIST_OPERATORS)),
      (''classification'', enum_spec None),
      (''type'', enum_spec (Some [''ip'', ''ipv6'', ''domain'', ''url'', ''md5'', ''sha1'', ''sha256''])),
      (''known_hash_type'', enum_spec (Some [''md5'', ''sha1'', ''sha256''])),
      (''md5'', hash_spec ''md5''),
      (''sha1'', hash_spec ''sha1''),
      (''sha256'', hash_spec ''sha256''),
      (''imphash'', attr_spec ''imphash''),
      (''tlsh'', attr_spec ''tlsh''),
      (''ssdeep'', attr_spec ''ssdeep''),
      (''status'', enum_spec (Some [''active'', ''expired'', ''disabled'', ''suppressed''])),
      (''confidence'', enum_spec (Some [''low'', ''medium'', ''high''])),
      (''first_seen'', date_spec),
      (''last_seen'', date_spec),
      (''last_changed'', date_spec),
      (''created_at'', date_spec)]"

definition FIELD_NAMES :: "string list" where
  "FIELD_NAMES = map fst FIELD_REGISTRY"

definition FIELD_ALIASES :: "(string \<times> string) list" where
  "FIELD_ALIASES =
     [(''ioc_value'', ''ioc''), (''value'', ''ioc''), (''ioc_type'', ''type''),
      (''observable_type'', ''type''), (''observed_type'', ''known_hash_type''),
      (''threat_classification'', ''classification''), (''actor'', ''threat_actor''),
      (''imported_at'', ''created_at'')]"

definition canonicalFieldName :: "string \<Rightarrow> string option" where
  "canonicalFieldName raw =
     (let lower = js_lower (js_trim raw)
      in if map_of FIELD_REGISTRY lower \<noteq> None then Some lower
         else map_of FIELD_ALIASES lower)"

definition getFieldSpec :: "string \<Rightarrow> field_spec option" where
  "getFieldSpec name = map_of FIELD_REGISTRY name"

definition operatorSupported :: "string \<Rightarrow> string \<Rightarrow> bool" where
  "operatorSupported name op =
     (case getFieldSpec name of None \<Rightarrow> False | Some spec \<Rightarrow> op \<in> set (spec_operators spec))"

section \<open>Lemmas on the configuration and the registry\<close>

lemmas field_spec_defs = text_spec_def enum_spec_def date_spec_def hash_spec_def attr_spec_def
lemmas operator_list_defs = TEXT_OPERATORS_def LIST_OPERATORS_def ENUM_OPERATORS_def
  DATE_OPERATORS_def HASH_OPERATORS_def ATTR_OPERATORS_def

lemma intFromEnv_bounds:
  "mn \<le> mx \<Longrightarrow> mn \<le> intFromEnv env name fb mn mx \<and> intFromEnv env name fb mn mx \<le> mx"
  by (simp add: intFromEnv_def Let_def)

lemma getFieldSpec_in: "getFieldSpec f = Some spec \<Longrightarrow> (f, spec) \<in> set FIELD_REGISTRY"
  by (auto simp: getFieldSpec_def dest: map_of_SomeD)

definition plain_word :: "string \<Rightarrow> bool" where
  "plain_word w \<longleftrightarrow>
     w \<noteq> [] \<and> list_all (\<lambda>c. is_lower c \<or> is_digit c \<or> c = CHR ''_'') w \<and> \<not> is_digit (hd w) \<and>
     w \<notin> {''and'', ''or'', ''not''}"

lemma plain_char: "is_lower c \<or> is_digit c \<or> c = CHR ''_'' \<Longrightarrow> is_word_char c \<and> js_lower_char c = c"
  by (auto simp: char_class_defs js_lower_char_def)

lemma plain_word_chars: "plain_word w \<Longrightarrow> list_all is_word_char w \<and> js_lower w = w"
  by (auto simp: plain_word_def list_all_iff js_lower_def plain_char intro!: map_idI)

lemma plain_operators [simp]:
  "list_all plain_word TEXT_OPERATORS" "list_all plain_word LIST_OPERATORS"
  "list_all plain_word ENUM_OPERATORS" "list_all plain_word DATE_OPERATORS"
  "list_all plain_word HASH_OPERATORS" "list_all plain_word ATTR_OPERATORS"
  by (simp_all add: operator_list_defs plain_word_def is_lower_def is_digit_def)

lemma registry_plain:
  "list_all (\<lambda>(f, spec). plain_word f \<and> list_all plain_word (spec_operators spec)) FIELD_REGISTRY"
  by (simp add: FIELD_REGISTRY_def field_spec_defs plain_word_def [of "_ # _"] is_lower_def is_digit_def)

lemma registry_field_chars: "getFieldSpec f = Some spec \<Longrightarrow> plain_word f"
  using registry_plain by (auto simp: list_all_iff dest!: getFieldSpec_in)

lemma registry_operator_chars:
  "getFieldSpec f = Some spec \<Longrightarrow> op \<in> set (spec_operators spec) \<Longrightarrow> plain_word op"
  using registry_plain by (force simp: list_all_iff dest!: getFieldSpec_in)

lemma plain_word_trimmed: "plain_word w \<Longrightarrow> trimmed w"
  using plain_word_chars [of w] by (auto intro!: trimmed_no_ws simp: list_all_iff is_word_char_not_ws)

lemma canonicalFieldName_registry: "getFieldSpec f = Some spec \<Longrightarrow> canonicalFieldName f = Some f"
  using registry_field_chars [of f spec] plain_word_trimmed [of f] plain_word_chars [of f]
  by (simp add: canonicalFieldName_def getFieldSpec_def Let_def)

lemma aliases_registered: "map_of FIELD_ALIASES a = Some f \<Longrightarrow> getFieldSpec f \<noteq> None"
  by (drule map_of_SomeD)
    (auto simp: FIELD_ALIASES_def getFieldSpec_def FIELD_REGISTRY_def)

lemma canonicalFieldName_sound: "canonicalFieldName raw = Some f \<Longrightarrow> getFieldSpec f \<noteq> None"
  by (auto simp: canonicalFieldName_def Let_def getFieldSpec_def aliases_registered
      split: if_splits dest!: aliases_registered)

end
