(* ===== verification/DslLexer.thy ===== *)
theory DslLexer
  imports DslFields
begin

text \<open>
  The scanner of the IOC Search DSL (\<open>backend/lib/iocSearchDsl/tokenizer.js\<close>). The cursor \<open>i\<close> of the
  source is kept together with the suffix of the input that starts at it. The lemmas show that the
  result always ends in the one EOF token, that positions grow and stay inside the input, that a
  rejected input is rejected at a position inside it, and that the rendered pieces of a query (plain
  words, separators, quoted values) scan back to the tokens they came from.
\<close>

section \<open>Tokens\<close>

datatype token_type = IDENT | STRING | LPAREN | RPAREN | COMMA | EOF

record token =
  tok_type :: token_type
  tok_value :: string
  tok_position :: nat

definition mk_token :: "token_type \<Rightarrow> string \<Rightarrow> nat \<Rightarrow> token" where
  "mk_token ty v p = \<lparr>tok_type = ty, tok_value = v, tok_position = p\<rparr>"

section \<open>The scanner\<close>

definition IDENT_START :: "char \<Rightarrow> bool" where
  "IDENT_START c \<longleftrightarrow> is_alpha c \<or> c = CHR ''_''"

definition IDENT_CHAR :: "char \<Rightarrow> bool" where
  "IDENT_CHAR c \<longleftrightarrow> is_alpha c \<or> is_digit c \<or> c = CHR ''_''"

definition lex_ws :: "char \<Rightarrow> bool" where
  "lex_ws c \<longleftrightarrow> c \<in> {CHR '' '', CHR 0x09, CHR 0x0A, CHR 0x0D, CHR 0x0C, CHR 0x0B}"

text \<open>
  The inner loop of a quoted value: \<open>scan_string i value rest\<close> is the value, the cursor and the suffix
  after the closing quote, or \<open>None\<close> when the input ends first (the source's \<open>closed = false\<close>).
\<close>

fun scan_string :: "nat \<Rightarrow> string \<Rightarrow> string \<Rightarrow> (string \<times> nat \<times> string) option" where
  "scan_string i value [] = None"
| "scan_string i value (c # cs) =
     (if c = BACKSLASH then
        (case cs of
           nxt # cs' \<Rightarrow>
             if nxt = DQUOTE \<or> nxt = BACKSLASH then scan_string (i + 2) (value @ [nxt]) cs'
             else scan_string (i + 1) (value @ [c]) cs
         | [] \<Rightarrow> scan_string (i + 1) (value @ [c]) cs)
      else if c = DQUOTE then Some (value, i + 1, cs)
      else scan_string (i + 1) (value @ [c]) cs)"

fun scan_ident :: "nat \<Rightarrow> string \<Rightarrow> string \<Rightarrow> string \<times> nat \<times> string" where
  "scan_ident i value [] = (value, i, [])"
| "scan_ident i value (c # cs) =
     (if IDENT_CHAR c then scan_ident (i + 1) (value @ [c]) cs else (value, i, c # cs))"

definition push_token :: "token \<Rightarrow> token list dsl \<Rightarrow> token list dsl" where
  "push_token t r = (case r of Inl e \<Rightarrow> Inl e | Inr ts \<Rightarrow> Inr (t # ts))"

lemma scan_string_length:
  "scan_string i v s = Some (v', i', s') \<Longrightarrow> length s' < length s"
  by (induction i v s rule: scan_string.induct) (auto split: if_splits list.splits)

lemma scan_ident_eq:
  "scan_ident i v s =
     (v @ takeWhile IDENT_CHAR s, i + length (takeWhile IDENT_CHAR s), dropWhile IDENT_CHAR s)"
  by (induction s arbitrary: i v) auto

lemma IDENT_START_CHAR: "IDENT_START c \<Longrightarrow> IDENT_CHAR c"
  by (auto simp: IDENT_START_def IDENT_CHAR_def)

text \<open>The main loop from cursor \<open>i\<close> on.\<close>

function tokenize_from :: "nat \<Rightarrow> string \<Rightarrow> token list dsl" where
  "tokenize_from i [] = Inr [mk_token EOF [] i]"
| "tokenize_from i (ch # rest) =
     (if lex_ws ch then tokenize_from (i + 1) rest
      else if ch = CHR ''('' then push_token (mk_token LPAREN ''('' i) (tokenize_from (i + 1) rest)
      else if ch = CHR '')'' then push_token (mk_token RPAREN '')'' i) (tokenize_from (i + 1) rest)
      else if ch = CHR '','' then push_token (mk_token COMMA '','' i) (tokenize_from (i + 1) rest)
      else if ch = DQUOTE then
        (case scan_string (i + 1) [] rest of
           None \<Rightarrow> dsl_fail ''unclosed_quote'' i
         | Some (value, i', rest') \<Rightarrow> push_token (mk_token STRING value i) (tokenize_from i' rest'))
      else if IDENT_START ch then
        (case scan_ident i [] (ch # rest) of
           (value, i', rest') \<Rightarrow> push_token (mk_token IDENT value i) (tokenize_from i' rest'))
      else dsl_fail ''unexpected_character'' i)"
  by pat_completeness auto
termination
  by (relation "measure (\<lambda>(i, s). length s)")
    (auto simp del: scan_ident.simps simp: scan_ident_eq IDENT_START_CHAR length_dropWhile_le
      less_Suc_eq_le dest: scan_string_length)

declare tokenize_from.simps(2) [simp del]

definition tokenize :: "string \<Rightarrow> token list dsl" where
  "tokenize input = tokenize_from 0 input"

section \<open>The EOF token, positions, rejected inputs\<close>

lemma push_token_Inr [simp]: "push_token t r = Inr ts \<longleftrightarrow> (\<exists>us. r = Inr us \<and> ts = t # us)"
  by (auto simp: push_token_def split: sum.splits)

lemma push_token_Inl [simp]: "push_token t r = Inl e \<longleftrightarrow> r = Inl e"
  by (auto simp: push_token_def split: sum.splits)

lemma mk_token_sel [simp]:
  "tok_type (mk_token ty v p) = ty" "tok_value (mk_token ty v p) = v"
  "tok_position (mk_token ty v p) = p"
  by (simp_all add: mk_token_def)

lemma scan_string_cursor:
  "scan_string i v s = Some (v', i', s') \<Longrightarrow> i' + length s' = i + length s \<and> i < i'"
  by (induction i v s rule: scan_string.induct) (auto split: if_splits list.splits)

lemma scan_ident_cursor:
  "scan_ident i v s = (v', i', s') \<Longrightarrow> i' + length s' = i + length s"
  by (induction i v s rule: scan_ident.induct) (auto split: if_splits)

lemma scan_ident_advances:
  "scan_ident i v (c # s) = (v', i', s') \<Longrightarrow> IDENT_START c \<Longrightarrow> i < i'"
  by (auto simp: scan_ident_eq IDENT_START_CHAR simp del: scan_ident.simps)

text \<open>An EOF-terminated token list: what the parser relies on.\<close>

definition eof_terminated :: "token list \<Rightarrow> bool" where
  "eof_terminated ts \<longleftrightarrow>
     ts \<noteq> [] \<and> tok_type (last ts) = EOF \<and> list_all (\<lambda>t. tok_type t \<noteq> EOF) (butlast ts)"

lemma eof_terminated_Cons [simp]:
  "eof_terminated (t # ts) \<longleftrightarrow> (if ts = [] then tok_type t = EOF else tok_type t \<noteq> EOF \<and> eof_terminated ts)"
  by (auto simp: eof_terminated_def)

text \<open>One turn of the main loop: skip a blank, push a token, or reject at the cursor.\<close>

lemma tokenize_from_step:
  obtains (skip) "tokenize_from i (ch # rest) = tokenize_from (Suc i) rest"
  | (tok) t i' rest' where "tokenize_from i (ch # rest) = push_token t (tokenize_from i' rest')"
      "tok_type t \<noteq> EOF" "tok_position t = i" "i < i'" "i' + length rest' = Suc (i + length rest)"
  | (fail) code where "tokenize_from i (ch # rest) = dsl_fail code i"
      "code \<in> {''unclosed_quote'', ''unexpected_character''}"
proof -
  obtain v' i' s' where id: "scan_ident i [] (ch # rest) = (v', i', s')" by (metis prod_cases3)
  have cur: "i' + length s' = Suc (i + length rest)" using scan_ident_cursor [OF id] by simp
  note unfold = tokenize_from.simps(2) id
  consider (ws) "lex_ws ch" | (lp) "\<not> lex_ws ch" "ch = CHR ''(''" | (rp) "\<not> lex_ws ch" "ch = CHR '')''"
    | (co) "\<not> lex_ws ch" "ch = CHR '',''" | (dq) "\<not> lex_ws ch" "ch = DQUOTE"
    | (ident) "\<not> lex_ws ch" "ch \<notin> {CHR ''('', CHR '')'', CHR '','', DQUOTE}" "IDENT_START ch"
    | (bad) "\<not> lex_ws ch" "ch \<notin> {CHR ''('', CHR '')'', CHR '','', DQUOTE}" "\<not> IDENT_START ch"
    by blast
  then show thesis
  proof cases
    case ws
    then show thesis by (intro skip) (simp add: unfold)
  next
    case lp
    then show thesis by (intro tok [of "mk_token LPAREN ''('' i" "Suc i" rest]) (simp_all add: unfold)
  next
    case rp
    then show thesis by (intro tok [of "mk_token RPAREN '')'' i" "Suc i" rest]) (simp_all add: unfold)
  next
    case co
    then show thesis by (intro tok [of "mk_token COMMA '','' i" "Suc i" rest]) (simp_all add: unfold)
  next
    case dq
    show thesis
    proof (cases "scan_string (i + 1) [] rest")
      case None
      with dq show thesis by (intro fail [of "''unclosed_quote''"]) (simp_all add: unfold)
    next
      case (Some r)
      obtain w j u where r: "r = (w, j, u)" by (cases r) auto
      then have "j + length u = Suc (i + length rest)" "i < j"
        using scan_string_cursor [of "i + 1" "[]" rest w j u] Some by auto
      with dq Some r show thesis by (intro tok [of "mk_token STRING w i" j u]) (simp_all add: unfold)
    qed
  next
    case ident
    then have "i < i'" using scan_ident_advances [OF id] by simp
    with ident cur show thesis by (intro tok [of "mk_token IDENT v' i" i' s'])
        (simp_all add: tokenize_from.simps(2) [of i ch rest] id del: scan_ident.simps)
  next
    case bad
    then show thesis by (intro fail [of "''unexpected_character''"])
        (simp_all add: tokenize_from.simps(2) [of i ch rest])
  qed
qed

lemma tokenize_from_eof: "tokenize_from i s = Inr ts \<Longrightarrow> eof_terminated ts"
proof (induction s arbitrary: i ts rule: length_induct)
  case (1 s)
  show ?case
  proof (cases s)
    case Nil
    with "1.prems" show ?thesis by auto
  next
    case (Cons ch rest)
    show ?thesis
    proof (cases rule: tokenize_from_step [of i ch rest])
      case skip
      with 1 Cons show ?thesis by auto
    next
      case (tok t i' rest')
      then obtain us where us: "tokenize_from i' rest' = Inr us" "ts = t # us"
        using "1.prems" Cons by auto
      have "length rest' < length s" using tok Cons by simp
      with 1 us have "eof_terminated us" by blast
      then show ?thesis using us tok by (auto simp: eof_terminated_def)
    next
      case fail
      with "1.prems" Cons show ?thesis by (simp add: dsl_fail_def)
    qed
  qed
qed

lemma tokenize_from_positions:
  "tokenize_from i s = Inr ts \<Longrightarrow>
     sorted_wrt (<) (map tok_position ts) \<and>
     (\<forall>t \<in> set ts. i \<le> tok_position t \<and> tok_position t \<le> i + length s)"
proof (induction s arbitrary: i ts rule: length_induct)
  case (1 s)
  show ?case
  proof (cases s)
    case Nil
    with "1.prems" show ?thesis by auto
  next
    case (Cons ch rest)
    show ?thesis
    proof (cases rule: tokenize_from_step [of i ch rest])
      case skip
      with 1 Cons show ?thesis by fastforce
    next
      case (tok t i' rest')
      then obtain us where us: "tokenize_from i' rest' = Inr us" "ts = t # us"
        using "1.prems" Cons by auto
      have "length rest' < length s" using tok Cons by simp
      with 1 us have "sorted_wrt (<) (map tok_position us) \<and>
        (\<forall>t \<in> set us. i' \<le> tok_position t \<and> tok_position t \<le> i' + length rest')" by blast
      then show ?thesis using us tok Cons by fastforce
    next
      case fail
      with "1.prems" Cons show ?thesis by (simp add: dsl_fail_def)
    qed
  qed
qed

lemma tokenize_from_error:
  "tokenize_from i s = Inl e \<Longrightarrow>
     err_code e \<in> {''unclosed_quote'', ''unexpected_character''} \<and>
     (\<exists>p. err_position e = Some p \<and> i \<le> p \<and> p < i + length s)"
proof (induction s arbitrary: i rule: length_induct)
  case (1 s)
  show ?case
  proof (cases s)
    case Nil
    with "1.prems" show ?thesis by simp
  next
    case (Cons ch rest)
    show ?thesis
    proof (cases rule: tokenize_from_step [of i ch rest])
      case skip
      with "1.prems" Cons have "tokenize_from (Suc i) rest = Inl e" by simp
      with "1.IH" Cons show ?thesis by fastforce
    next
      case (tok t i' rest')
      then have "tokenize_from i' rest' = Inl e" "length rest' < length s"
        using "1.prems" Cons by auto
      with "1.IH" have "err_code e \<in> {''unclosed_quote'', ''unexpected_character''} \<and>
        (\<exists>p. err_position e = Some p \<and> i' \<le> p \<and> p < i' + length rest')" by blast
      with tok Cons show ?thesis by fastforce
    next
      case (fail code)
      with "1.prems" Cons show ?thesis by (auto simp: dsl_fail_def)
    qed
  qed
qed

section \<open>Scanning rendered text back\<close>

definition strip :: "token \<Rightarrow> token_type \<times> string" where
  "strip t = (tok_type t, tok_value t)"

definition push_tokens :: "token list \<Rightarrow> token list dsl \<Rightarrow> token list dsl" where
  "push_tokens ts r = foldr push_token ts r"

text \<open>
  \<open>lexes s ks\<close>: wherever the text \<open>s\<close> stands in an input, the scanner turns it into tokens with the
  kinds and values \<open>ks\<close> and goes on after it.
\<close>

definition lexes :: "string \<Rightarrow> (token_type \<times> string) list \<Rightarrow> bool" where
  "lexes s ks \<longleftrightarrow>
     (\<forall>i rest. \<exists>ts. map strip ts = ks \<and>
        tokenize_from i (s @ rest) = push_tokens ts (tokenize_from (i + length s) rest))"

lemma lexesI:
  assumes "\<And>i rest. tokenize_from i (s @ rest) = push_tokens (f i) (tokenize_from (i + length s) rest)"
    and "\<And>i. map strip (f i) = ks"
  shows "lexes s ks"
  using assms unfolding lexes_def by blast

lemma lexes_Nil [intro]: "lexes [] []"
  by (rule lexesI [where f = "\<lambda>_. []"]) (simp_all add: push_tokens_def)

lemma lexes_append [intro]:
  assumes "lexes s ks" and "lexes t ls"
  shows "lexes (s @ t) (ks @ ls)"
  unfolding lexes_def
proof (intro allI)
  fix i rest
  obtain ts where ts: "map strip ts = ks"
    "tokenize_from i (s @ t @ rest) = push_tokens ts (tokenize_from (i + length s) (t @ rest))"
    using assms(1) unfolding lexes_def by blast
  obtain us where us: "map strip us = ls"
    "tokenize_from (i + length s) (t @ rest) = push_tokens us (tokenize_from (i + length s + length t) rest)"
    using assms(2) unfolding lexes_def by blast
  have "tokenize_from i ((s @ t) @ rest) =
      push_tokens (ts @ us) (tokenize_from (i + length (s @ t)) rest)"
    using ts us by (simp add: push_tokens_def add.assoc)
  with ts us show "\<exists>vs. map strip vs = ks @ ls \<and>
      tokenize_from i ((s @ t) @ rest) = push_tokens vs (tokenize_from (i + length (s @ t)) rest)"
    by (metis map_append)
qed

lemma lexes_space [intro]: "lexes '' '' []"
  by (rule lexesI [where f = "\<lambda>_. []"]) (simp_all add: push_tokens_def tokenize_from.simps(2) lex_ws_def)

lemma lexes_lparen [intro]: "lexes ''('' [(LPAREN, ''('')]"
  by (rule lexesI [where f = "\<lambda>i. [mk_token LPAREN ''('' i]"])
    (simp_all add: push_tokens_def tokenize_from.simps(2) lex_ws_def strip_def)

lemma lexes_rparen [intro]: "lexes '')'' [(RPAREN, '')'')]"
  by (rule lexesI [where f = "\<lambda>i. [mk_token RPAREN '')'' i]"])
    (simp_all add: push_tokens_def tokenize_from.simps(2) lex_ws_def strip_def)

lemma lexes_comma [intro]: "lexes '','' [(COMMA, '','')]"
  by (rule lexesI [where f = "\<lambda>i. [mk_token COMMA '','' i]"])
    (simp_all add: push_tokens_def tokenize_from.simps(2) lex_ws_def strip_def)

text \<open>An identifier followed by a blank.\<close>

lemma ident_start_others:
  "IDENT_START c \<Longrightarrow> \<not> lex_ws c \<and> c \<noteq> CHR ''('' \<and> c \<noteq> CHR '')'' \<and> c \<noteq> CHR '','' \<and> c \<noteq> DQUOTE"
  by (auto simp: IDENT_START_def is_alpha_def is_upper_def is_lower_def lex_ws_def)

lemma lexes_ident [intro]:
  assumes "w \<noteq> []" "IDENT_START (hd w)" "list_all IDENT_CHAR w"
  shows "lexes (w @ '' '') [(IDENT, w)]"
proof (rule lexesI [where f = "\<lambda>i. [mk_token IDENT w i]"])
  fix i rest
  obtain c cs where w: "w = c # cs" using assms(1) by (cases w) auto
  have tw: "takeWhile IDENT_CHAR (w @ SPACE # rest) = w \<and> dropWhile IDENT_CHAR (w @ SPACE # rest) = SPACE # rest"
    using assms(3)
    by (intro takeWhile_dropWhile_all) (auto simp: IDENT_CHAR_def is_alpha_def is_upper_def is_lower_def is_digit_def)
  have "tokenize_from i (w @ SPACE # rest) =
      push_token (mk_token IDENT w i) (tokenize_from (i + length w) (SPACE # rest))"
    using tw assms(2) ident_start_others [of c] IDENT_START_CHAR [of c]
    by (simp add: w tokenize_from.simps(2) [of i c] scan_ident_eq del: scan_ident.simps)
  then show "tokenize_from i ((w @ '' '') @ rest) =
      push_tokens [mk_token IDENT w i] (tokenize_from (i + length (w @ '' '')) rest)"
    by (simp add: push_tokens_def tokenize_from.simps(2) lex_ws_def)
qed (simp add: strip_def)

text \<open>The escaping that the renderer applies to a quoted value, one character at a time.\<close>

definition escape_char :: "char \<Rightarrow> string" where
  "escape_char c = (if c = BACKSLASH \<or> c = DQUOTE then [BACKSLASH, c] else [c])"

lemma scan_string_escaped:
  "scan_string i v (concat (map escape_char s) @ DQUOTE # rest) =
     Some (v @ s, i + length (concat (map escape_char s)) + 1, rest)"
proof (induction s arbitrary: i v)
  case (Cons c s)
  have "scan_string i v (c # cs) = scan_string (Suc i) (v @ [c]) cs"
    if "c \<noteq> BACKSLASH" "c \<noteq> DQUOTE" for cs
    using that by (cases cs) auto
  then show ?case using Cons by (auto simp: escape_char_def)
qed simp

lemma lexes_quoted [intro]:
  "lexes (DQUOTE # concat (map escape_char v) @ [DQUOTE]) [(STRING, v)]"
  by (rule lexesI [where f = "\<lambda>i. [mk_token STRING v i]"])
    (simp_all add: push_tokens_def tokenize_from.simps(2) lex_ws_def strip_def IDENT_START_def
      is_alpha_def is_upper_def is_lower_def scan_string_escaped)

lemma push_tokens_Inr [simp]: "push_tokens ts (Inr us) = Inr (ts @ us)"
  by (induction ts) (auto simp: push_tokens_def push_token_def)

lemma tokenize_lexes:
  assumes "lexes s ks"
  obtains ts where "tokenize s = Inr ts" "map strip ts = ks @ [(EOF, [])]"
proof -
  obtain us where "map strip us = ks" "tokenize_from 0 (s @ []) = push_tokens us (tokenize_from (length s) [])"
    using assms unfolding lexes_def by (metis add_0)
  then show thesis by (intro that [of "us @ [mk_token EOF [] (length s)]"]) (auto simp: tokenize_def strip_def)
qed

section \<open>Properties\<close>

text \<open>The scanner never runs past its input. An accepted input gives a list with exactly one EOF
  token, the last one, and strictly growing token positions that all lie inside the input (the EOF
  token may stand just after it).\<close>

theorem tokenize_wellformed:
  assumes "tokenize s = Inr ts"
  shows "eof_terminated ts \<and> sorted_wrt (<) (map tok_position ts) \<and> tok_position (last ts) \<le> length s"
proof -
  have "eof_terminated ts" using assms tokenize_from_eof by (simp add: tokenize_def)
  moreover from this have "last ts \<in> set ts" by (simp add: eof_terminated_def)
  ultimately show ?thesis
    using assms tokenize_from_positions [of 0 s ts] by (auto simp: tokenize_def)
qed

theorem tokenize_wellformed_witness:
  "eof_terminated [mk_token IDENT ''ioc'' 0, mk_token EOF [] 3] \<and>
   sorted_wrt (<) (map tok_position [mk_token IDENT ''ioc'' 0, mk_token EOF [] 3]) \<and>
   tok_position (last [mk_token IDENT ''ioc'' 0, mk_token EOF [] 3]) \<le> length ''ioc''"
  by (rule tokenize_wellformed)
    (simp add: tokenize_def tokenize_from.simps lex_ws_def IDENT_START_def IDENT_CHAR_def char_class_defs
      push_token_def mk_token_def)

text \<open>A rejected input is rejected for one of the two reasons of the scanner, at a position inside
  the input.\<close>

theorem tokenize_error_position:
  assumes "tokenize s = Inl e"
  shows "err_code e \<in> {''unclosed_quote'', ''unexpected_character''} \<and>
    (\<exists>p < length s. err_position e = Some p)"
  using tokenize_from_error [of 0 s e] assms by (auto simp: tokenize_def)

theorem tokenize_error_position_witness:
  "err_code \<lparr>err_code = ''unexpected_character'', err_position = Some 1, err_field = None\<rparr>
      \<in> {''unclosed_quote'', ''unexpected_character''} \<and>
   (\<exists>p < length '' =''. err_position \<lparr>err_code = ''unexpected_character'', err_position = Some 1, err_field = None\<rparr> = Some p)"
  by (rule tokenize_error_position)
    (simp add: tokenize_def tokenize_from.simps lex_ws_def IDENT_START_def char_class_defs dsl_fail_def)

end
