(* ===== verification/FileHash.thy ===== *)
theory FileHash
  imports TH_Prelude
begin

text \<open>
  Exact file-hash identity helpers (\<open>backend/lib/fileArtifacts/hashNormalize.js\<close>): the one notion of
  a valid hash that the search DSL, the file artifacts and the importers share, the SHA256 > SHA1 > MD5
  choice of a primary hash, and the extraction of merge evidence from source notes. An argument that
  the source passes through \<open>String(value || '')\<close> is a string here (a missing one is the empty string).
\<close>

section \<open>Definitions\<close>

definition EXACT_HASH_TYPES :: "string list" where
  "EXACT_HASH_TYPES = [''md5'', ''sha1'', ''sha256'']"

definition PRIMARY_HASH_PRIORITY :: "string list" where
  "PRIMARY_HASH_PRIORITY = [''sha256'', ''sha1'', ''md5'']"

definition HASH_LENGTH_BY_TYPE :: "string \<Rightarrow> nat option" where
  "HASH_LENGTH_BY_TYPE = map_of [(''md5'', 32), (''sha1'', 40), (''sha256'', 64)]"

definition NON_IDENTITY_ATTR_TYPES :: "string list" where
  "NON_IDENTITY_ATTR_TYPES = [''imphash'', ''tlsh'', ''ssdeep'']"

definition HEX_RE :: "string \<Rightarrow> bool" where
  "HEX_RE s \<longleftrightarrow> s \<noteq> [] \<and> list_all is_hex_lower s"

definition normalizeHashValue :: "string \<Rightarrow> string" where
  "normalizeHashValue value = js_lower (js_trim value)"

definition normalizeHashType :: "string \<Rightarrow> string" where
  "normalizeHashType ty = js_lower (js_trim ty)"

definition inferExactHashType :: "string \<Rightarrow> string option" where
  "inferExactHashType nv =
     (let v = normalizeHashValue nv
      in if v = [] \<or> \<not> HEX_RE v then None
         else if length v = 32 then Some ''md5''
         else if length v = 40 then Some ''sha1''
         else if length v = 64 then Some ''sha256''
         else None)"

record exact_hash =
  hash_type :: string
  normalized_hash_value :: string

definition normalizeExactHash :: "string \<Rightarrow> string \<Rightarrow> exact_hash option" where
  "normalizeExactHash hashType hashValue =
     (let ty = normalizeHashType hashType; value = normalizeHashValue hashValue
      in if ty \<notin> set EXACT_HASH_TYPES then None
         else if value = [] \<or> Some (length value) \<noteq> HASH_LENGTH_BY_TYPE ty \<or> \<not> HEX_RE value then None
         else Some \<lparr>hash_type = ty, normalized_hash_value = value\<rparr>)"

definition isExactFileHashIocType :: "string \<Rightarrow> bool" where
  "isExactFileHashIocType ty \<longleftrightarrow> normalizeHashType ty \<in> set EXACT_HASH_TYPES"

text \<open>The first preferred type that some hash has, else the first hash of the list.\<close>

fun selectByPriority :: "string list \<Rightarrow> exact_hash list \<Rightarrow> exact_hash option" where
  "selectByPriority [] hs = (case hs of [] \<Rightarrow> None | h # _ \<Rightarrow> Some h)"
| "selectByPriority (preferred # ps) hs =
     (case find (\<lambda>h. normalizeHashType (hash_type h) = preferred) hs of
        Some hit \<Rightarrow> Some hit
      | None \<Rightarrow> selectByPriority ps hs)"

definition selectPrimaryHash :: "exact_hash list \<Rightarrow> exact_hash option" where
  "selectPrimaryHash hs = selectByPriority PRIMARY_HASH_PRIORITY hs"

fun hash_index_of :: "'a \<Rightarrow> 'a list \<Rightarrow> nat option" where
  "hash_index_of x [] = None"
| "hash_index_of x (y # ys) = (if x = y then Some 0 else map_option Suc (hash_index_of x ys))"

definition primaryPriorityRank :: "string \<Rightarrow> nat" where
  "primaryPriorityRank ty =
     (case hash_index_of (normalizeHashType ty) PRIMARY_HASH_PRIORITY of Some idx \<Rightarrow> idx | None \<Rightarrow> 99)"

text \<open>A missing (or empty) current type is \<open>None\<close> (or the empty string).\<close>

definition shouldPromotePrimary :: "string option \<Rightarrow> string \<Rightarrow> bool" where
  "shouldPromotePrimary current candidate =
     (case current of
        None \<Rightarrow> normalizeHashType candidate \<in> set EXACT_HASH_TYPES
      | Some cur \<Rightarrow>
          if cur = [] then normalizeHashType candidate \<in> set EXACT_HASH_TYPES
          else primaryPriorityRank candidate < primaryPriorityRank cur)"

text \<open>
  One \<open>key=value\<close> part of a note; \<open>None\<close> is the \<open>continue\<close> of the source. Writing the key
  \<open>__proto__\<close> of a plain object with a string value has no effect.
\<close>

definition note_part :: "string \<Rightarrow> (string \<times> string) option" where
  "note_part part =
     (let before = takeWhile (\<lambda>c. c \<noteq> CHR ''='') part; after = dropWhile (\<lambda>c. c \<noteq> CHR ''='') part
      in if after = [] \<or> before = [] then None
         else let key = js_lower (js_trim before); value = js_trim (tl after)
              in if key = [] \<or> value = [] then None else Some (key, value))"

definition set_own_property :: "(string \<rightharpoonup> string) \<Rightarrow> string \<Rightarrow> string \<Rightarrow> (string \<rightharpoonup> string)" where
  "set_own_property out key value = (if key = ''__proto__'' then out else out(key \<mapsto> value))"

fun note_parts :: "(string \<rightharpoonup> string) \<Rightarrow> string list \<Rightarrow> (string \<rightharpoonup> string)" where
  "note_parts out [] = out"
| "note_parts out (p # ps) =
     (case note_part p of
        None \<Rightarrow> note_parts out ps
      | Some (key, value) \<Rightarrow> note_parts (set_own_property out key value) ps)"

definition parseNoteKeyValues :: "string \<Rightarrow> (string \<rightharpoonup> string)" where
  "parseNoteKeyValues note =
     (let raw = js_trim note
      in if raw = [] then Map.empty
         else note_parts Map.empty (filter (\<lambda>p. p \<noteq> []) (map js_trim (js_split (CHR ''|'') raw))))"

text \<open>The insertion-ordered \<open>Map\<close> keyed by \<open>type:value\<close>: a hash already present keeps its place.\<close>

definition add_hash :: "exact_hash list \<Rightarrow> string \<Rightarrow> string \<Rightarrow> exact_hash list" where
  "add_hash found ty value =
     (case normalizeExactHash ty value of
        None \<Rightarrow> found
      | Some n \<Rightarrow> if n \<in> set found then found else found @ [n])"

definition extractExactHashesFromNote :: "string \<Rightarrow> string \<Rightarrow> string \<Rightarrow> exact_hash list" where
  "extractExactHashesFromNote observableType observable note =
     (let primaryType = normalizeHashType observableType;
          found0 = (if primaryType \<in> set EXACT_HASH_TYPES then add_hash [] primaryType observable else []);
          kv = parseNoteKeyValues note
      in fold (\<lambda>ty found. case kv ty of None \<Rightarrow> found | Some v \<Rightarrow> add_hash found ty v)
           EXACT_HASH_TYPES found0)"

text \<open>The attributes of a VirusTotal response: \<open>data.attributes\<close>, else \<open>attributes\<close>, else none.\<close>

definition extractExactHashesFromVtRaw ::
    "(string \<rightharpoonup> string) option \<Rightarrow> (string \<rightharpoonup> string) option \<Rightarrow> exact_hash list" where
  "extractExactHashesFromVtRaw dataAttributes attributes =
     (let attr = (case dataAttributes of Some a \<Rightarrow> a
                  | None \<Rightarrow> (case attributes of Some a \<Rightarrow> a | None \<Rightarrow> Map.empty))
      in fold (\<lambda>ty found. add_hash found ty (case attr ty of Some v \<Rightarrow> v | None \<Rightarrow> []))
           EXACT_HASH_TYPES [])"

definition extractNonIdentityAttrsFromNote :: "string \<Rightarrow> (string \<times> string) list" where
  "extractNonIdentityAttrsFromNote note =
     (let kv = parseNoteKeyValues note
      in List.map_filter
           (\<lambda>ty. let value = js_trim (case kv ty of Some v \<Rightarrow> v | None \<Rightarrow> [])
                 in if value = [] then None else Some (ty, value))
           NON_IDENTITY_ATTR_TYPES)"

definition isWeakMergeSignal :: "string \<Rightarrow> bool" where
  "isWeakMergeSignal field \<longleftrightarrow>
     js_lower (js_trim field) \<in> set
       [''file_name'', ''filename'', ''file_type'', ''mime'', ''mime_type'', ''size'', ''size_bytes'',
        ''malware_family'', ''signature'', ''family'', ''tags'', ''category'',
        ''imphash'', ''tlsh'', ''ssdeep'', ''timestamp'', ''first_seen'', ''last_seen'', ''note'',
        ''url'', ''reference'']"

section \<open>Lemmas\<close>

definition valid_exact_hash :: "exact_hash \<Rightarrow> bool" where
  "valid_exact_hash h \<longleftrightarrow>
     hash_type h \<in> set EXACT_HASH_TYPES \<and> HEX_RE (normalized_hash_value h) \<and>
     HASH_LENGTH_BY_TYPE (hash_type h) = Some (length (normalized_hash_value h))"

lemma HEX_RE_fixed: "HEX_RE s \<Longrightarrow> normalizeHashValue s = s"
  using trimmed_no_ws [of s] js_lower_hex [of s] is_hex_lower_not_ws
  by (auto simp: HEX_RE_def normalizeHashValue_def list_all_iff)

lemma hash_type_fixed: "t \<in> set EXACT_HASH_TYPES \<Longrightarrow> normalizeHashType t = t"
  by (auto simp: EXACT_HASH_TYPES_def normalizeHashType_def js_trim_def js_ws_def js_lower_char_def
      is_capital_def is_upper_def)

lemma normalizeExactHash_valid: "normalizeExactHash t v = Some h \<Longrightarrow> valid_exact_hash h"
  by (auto simp: normalizeExactHash_def Let_def valid_exact_hash_def split: if_splits)

lemma normalizeExactHash_fixed:
  "valid_exact_hash h \<Longrightarrow> normalizeExactHash (hash_type h) (normalized_hash_value h) = Some h"
  by (auto simp: normalizeExactHash_def Let_def valid_exact_hash_def hash_type_fixed HEX_RE_fixed HEX_RE_def)

lemma set_add_hash: "set (add_hash found t v) =
    set found \<union> (case normalizeExactHash t v of None \<Rightarrow> {} | Some n \<Rightarrow> {n})"
  by (auto simp: add_hash_def split: option.splits)

lemma distinct_add_hash: "distinct found \<Longrightarrow> distinct (add_hash found t v)"
  by (auto simp: add_hash_def split: option.splits)

lemma add_hash_valid: "list_all valid_exact_hash found \<Longrightarrow> list_all valid_exact_hash (add_hash found t v)"
  by (auto simp: add_hash_def normalizeExactHash_valid split: option.splits)

lemma fold_add_hash:
  assumes "distinct found" "list_all valid_exact_hash found"
    and "\<And>t fs. g t fs = fs \<or> (\<exists>v. g t fs = add_hash fs t v)"
  shows "distinct (fold g ts found) \<and> list_all valid_exact_hash (fold g ts found)"
  using assms(1,2)
proof (induction ts arbitrary: found)
  case (Cons t ts)
  have "distinct (g t found) \<and> list_all valid_exact_hash (g t found)"
    using Cons.prems assms(3) [of t found] distinct_add_hash add_hash_valid by metis
  then show ?case using Cons.IH by simp
qed simp

lemma extractExactHashesFromNote_ok:
  "distinct (extractExactHashesFromNote ot ov n) \<and> list_all valid_exact_hash (extractExactHashesFromNote ot ov n)"
  unfolding extractExactHashesFromNote_def Let_def
  by (rule fold_add_hash)
    (auto simp: distinct_add_hash add_hash_valid split: option.splits)

lemma extractExactHashesFromVtRaw_ok:
  "distinct (extractExactHashesFromVtRaw d a) \<and> list_all valid_exact_hash (extractExactHashesFromVtRaw d a)"
  unfolding extractExactHashesFromVtRaw_def Let_def by (rule fold_add_hash) auto

lemma selectByPriority_min:
  "selectByPriority ps hs = Some h \<Longrightarrow> h \<in> set hs \<and>
     (\<forall>g \<in> set hs. \<forall>i. hash_index_of (normalizeHashType (hash_type g)) ps = Some i \<longrightarrow>
        (\<exists>j \<le> i. hash_index_of (normalizeHashType (hash_type h)) ps = Some j))"
proof (induction ps)
  case Nil
  then show ?case by (auto split: list.splits)
next
  case (Cons p ps)
  show ?case
  proof (cases "find (\<lambda>h. normalizeHashType (hash_type h) = p) hs")
    case None
    with Cons show ?thesis by (fastforce simp: find_None_iff)
  next
    case (Some hit)
    with Cons.prems show ?thesis by (auto simp: find_Some_iff)
  qed
qed

lemma hash_index_of_length: "hash_index_of x ys = Some i \<Longrightarrow> i < length ys"
  by (induction ys arbitrary: i) (auto split: if_splits)

section \<open>Properties\<close>

text \<open>A hash the normalizer accepts has a type of the exact identity types, only lowercase
  hexadecimal digits and exactly the length of its type, and normalizing it again changes nothing.\<close>

theorem normalizeExactHash_canonical:
  assumes "normalizeExactHash ty v = Some h"
  shows "valid_exact_hash h \<and>
    normalizeExactHash (hash_type h) (normalized_hash_value h) = Some h"
  using normalizeExactHash_valid [OF assms] normalizeExactHash_fixed by blast

theorem normalizeExactHash_canonical_witness:
  "valid_exact_hash \<lparr>hash_type = ''md5'', normalized_hash_value = replicate 32 CHR ''a''\<rparr> \<and>
   normalizeExactHash (hash_type \<lparr>hash_type = ''md5'', normalized_hash_value = replicate 32 CHR ''a''\<rparr>)
      (normalized_hash_value \<lparr>hash_type = ''md5'', normalized_hash_value = replicate 32 CHR ''a''\<rparr>) =
    Some \<lparr>hash_type = ''md5'', normalized_hash_value = replicate 32 CHR ''a''\<rparr>"
proof -
  have "normalizeExactHash '' MD5'' (replicate 32 CHR ''A'') =
      Some \<lparr>hash_type = ''md5'', normalized_hash_value = replicate 32 CHR ''a''\<rparr>"
    by code_simp
  then show ?thesis by (rule normalizeExactHash_canonical)
qed

text \<open>length-based inference and typed validation agree: a value infers to a type exactly when it
  validates under that type, so a full-hash text search and a typed hash search see the same hashes.\<close>

theorem inferExactHashType_agrees:
  assumes "t \<in> set EXACT_HASH_TYPES"
  shows "inferExactHashType v = Some t \<longleftrightarrow> normalizeExactHash t v \<noteq> None"
  using assms
  by (auto simp: inferExactHashType_def normalizeExactHash_def Let_def hash_type_fixed
      HASH_LENGTH_BY_TYPE_def EXACT_HASH_TYPES_def)

theorem inferExactHashType_agrees_witness:
  "inferExactHashType (replicate 40 CHR ''B'') = Some ''sha1'' \<longleftrightarrow>
   normalizeExactHash ''sha1'' (replicate 40 CHR ''B'') \<noteq> None"
  by (rule inferExactHashType_agrees) (simp add: EXACT_HASH_TYPES_def)

text \<open>the evidence extracted from a note is a duplicate-free list of valid exact hashes, whatever
  the note holds.\<close>

theorem note_evidence_valid:
  "distinct (extractExactHashesFromNote ot ov n) \<and>
   list_all valid_exact_hash (extractExactHashesFromNote ot ov n)"
  by (rule extractExactHashesFromNote_ok)

text \<open>the primary hash is one of the artifact's hashes and none of them ranks before it in the
  order SHA256, SHA1, MD5, other.\<close>

theorem selectPrimaryHash_best:
  assumes "selectPrimaryHash hs = Some h"
  shows "h \<in> set hs \<and>
    (\<forall>g \<in> set hs. primaryPriorityRank (hash_type h) \<le> primaryPriorityRank (hash_type g))"
proof -
  note m = selectByPriority_min [OF assms [unfolded selectPrimaryHash_def]]
  have small: "i < 99" if "hash_index_of x PRIMARY_HASH_PRIORITY = Some i" for x i
    using hash_index_of_length [OF that] by (simp add: PRIMARY_HASH_PRIORITY_def)
  show ?thesis using m small
    by (fastforce simp: primaryPriorityRank_def less_imp_le split: option.splits)
qed

theorem selectPrimaryHash_best_witness:
  "\<lparr>hash_type = ''sha1'', normalized_hash_value = ''bb''\<rparr> \<in> set
      [\<lparr>hash_type = ''md5'', normalized_hash_value = ''aa''\<rparr>, \<lparr>hash_type = ''sha1'', normalized_hash_value = ''bb''\<rparr>] \<and>
   (\<forall>g \<in> set [\<lparr>hash_type = ''md5'', normalized_hash_value = ''aa''\<rparr>, \<lparr>hash_type = ''sha1'', normalized_hash_value = ''bb''\<rparr>].
     primaryPriorityRank (hash_type \<lparr>hash_type = ''sha1'', normalized_hash_value = ''bb''\<rparr>) \<le> primaryPriorityRank (hash_type g))
   = True"
proof -
  have "selectPrimaryHash [\<lparr>hash_type = ''md5'', normalized_hash_value = ''aa''\<rparr>,
      \<lparr>hash_type = ''sha1'', normalized_hash_value = ''bb''\<rparr>] =
    Some \<lparr>hash_type = ''sha1'', normalized_hash_value = ''bb''\<rparr>"
    by code_simp
  from selectPrimaryHash_best [OF this] show ?thesis by simp
qed

end
