(* ===== verification/DslNormalize.thy ===== *)
theory DslNormalize
  imports DslFields FileHash
begin

text \<open>
  Value validation and normalization of the IOC Search DSL
  (\<open>backend/lib/iocSearchDsl/normalize.js\<close>): text values and LIKE escaping, exact hashes, file-artifact
  attributes, IPv6 canonicalization, and date literals. \<open>Date\<close> parsing of a string is implementation
  defined outside the ISO format, so whether \<open>new Date(v)\<close> is a valid date is the parameter
  \<open>date_ok\<close> of the functions that ask it. The lemmas show that every validator is idempotent on what it
  accepts, which is what lets a rendered query be read back, and what a LIKE-escaped value matches.
\<close>

section \<open>Text values\<close>

definition wildcard_char :: "char \<Rightarrow> bool" where
  "wildcard_char c \<longleftrightarrow> c = CHR ''%'' \<or> c = CHR ''_'' \<or> c = CHR ''*'' \<or> js_ws c"

definition isMeaninglessTextValue :: "string \<Rightarrow> bool" where
  "isMeaninglessTextValue raw =
     (let v = js_trim raw in if length v = 0 then True else list_all wildcard_char v)"

definition assertUsableTextValue :: "string \<Rightarrow> string \<Rightarrow> nat \<Rightarrow> string dsl" where
  "assertUsableTextValue raw field position =
     (if isMeaninglessTextValue raw then dsl_fail_at ''empty_value'' position field
      else Inr (js_trim raw))"

definition likeEscape :: "string \<Rightarrow> string" where
  "likeEscape value =
     concat (map (\<lambda>c. if c = BACKSLASH \<or> c = CHR ''%'' \<or> c = CHR ''_'' then [BACKSLASH, c] else [c]) value)"

section \<open>Exact hashes and file-artifact attributes\<close>

definition assertHashValue :: "string \<Rightarrow> string \<Rightarrow> string \<Rightarrow> nat \<Rightarrow> string dsl" where
  "assertHashValue raw field hashType position =
     (case normalizeExactHash hashType raw of
        None \<Rightarrow> dsl_fail_at ''invalid_hash_value'' position field
      | Some normalized \<Rightarrow> Inr (normalized_hash_value normalized))"

datatype fold_mode = FoldLower | FoldNone

definition base64_char :: "char \<Rightarrow> bool" where
  "base64_char c \<longleftrightarrow> is_alpha c \<or> is_digit c \<or> c = CHR ''+'' \<or> c = CHR ''/''"

definition imphash_re :: "string \<Rightarrow> bool" where
  "imphash_re s \<longleftrightarrow> length s = 32 \<and> list_all is_hex_lower s"

definition tlsh_re :: "string \<Rightarrow> bool" where
  "tlsh_re s \<longleftrightarrow>
     (length s = 70 \<and> list_all is_hex_lower s) \<or>
     (take 2 s = ''t1'' \<and> length (drop 2 s) = 70 \<and> list_all is_hex_lower (drop 2 s))"

definition ssdeep_re :: "string \<Rightarrow> bool" where
  "ssdeep_re s \<longleftrightarrow>
     (case js_split (CHR '':'') s of
        [blocksize, chunk, chunk2] \<Rightarrow>
          blocksize \<noteq> [] \<and> list_all is_digit blocksize \<and> chunk \<noteq> [] \<and> list_all base64_char chunk \<and>
          chunk2 \<noteq> [] \<and> list_all base64_char chunk2
      | _ \<Rightarrow> False)"

definition ATTR_VALUE_SPECS :: "string \<Rightarrow> (fold_mode \<times> (string \<Rightarrow> bool)) option" where
  "ATTR_VALUE_SPECS t =
     (if t = ''imphash'' then Some (FoldLower, imphash_re)
      else if t = ''tlsh'' then Some (FoldLower, tlsh_re)
      else if t = ''ssdeep'' then Some (FoldNone, ssdeep_re)
      else None)"

definition assertAttrValue :: "string \<Rightarrow> string \<Rightarrow> string \<Rightarrow> nat \<Rightarrow> string dsl" where
  "assertAttrValue raw field attrType position =
     (case ATTR_VALUE_SPECS attrType of
        None \<Rightarrow> dsl_fail_at ''invalid_attr_value'' position field
      | Some (fm, re) \<Rightarrow>
          (let trimmed_raw = js_trim raw;
               candidate = (case fm of FoldLower \<Rightarrow> js_lower trimmed_raw | FoldNone \<Rightarrow> trimmed_raw)
           in if candidate = [] \<or> \<not> re candidate
              then dsl_fail_at ''invalid_attr_value'' position field
              else Inr candidate))"

section \<open>IPv6 canonicalization\<close>

text \<open>\<open>head.split('::')\<close>, \<open>parseInt(g, 16)\<close> and \<open>x.toString(16)\<close>.\<close>

fun split_dcolon :: "string \<Rightarrow> string list" where
  "split_dcolon [] = [[]]"
| "split_dcolon [c] = [[c]]"
| "split_dcolon (c # d # cs) =
     (if c = CHR '':'' \<and> d = CHR '':'' then [] # split_dcolon cs
      else (case split_dcolon (d # cs) of [] \<Rightarrow> [[c]] | p # ps \<Rightarrow> (c # p) # ps))"

definition hex_val :: "char \<Rightarrow> nat" where
  "hex_val c =
     (let n = code_unit c
      in if n \<le> 57 then n - 48 else if n \<le> 70 then n - 55 else n - 87)"

definition hex_digits_val :: "string \<Rightarrow> nat" where
  "hex_digits_val s = foldl (\<lambda>n c. 16 * n + hex_val c) 0 s"

definition hex_char :: "nat \<Rightarrow> char" where
  "hex_char d = (if d < 10 then char_of (48 + d) else char_of (87 + d))"

fun show_hex :: "nat \<Rightarrow> string" where
  "show_hex n = (if n < 16 then [hex_char n] else show_hex (n div 16) @ [hex_char (n mod 16)])"

declare show_hex.simps [simp del]

definition ipv6_expand :: "string \<Rightarrow> string list" where
  "ipv6_expand part = (if part = [] then [] else js_split (CHR '':'') part)"

definition ipv6_groups :: "string \<Rightarrow> string list option" where
  "ipv6_groups head =
     (case split_dcolon head of
        [l, r] \<Rightarrow>
          (let left = ipv6_expand l; right = ipv6_expand r; used = length left + length right
           in if 8 \<le> used then None else Some (left @ replicate (8 - used) ''0'' @ right))
      | [_] \<Rightarrow> Some (ipv6_expand head)
      | _ \<Rightarrow> None)"

definition ipv6_group_re :: "string \<Rightarrow> bool" where
  "ipv6_group_re g \<longleftrightarrow> 1 \<le> length g \<and> length g \<le> 4 \<and> list_all is_hex g"

text \<open>The scan for the longest run of zero groups, the first one among equals.\<close>

record zero_run =
  bestStart :: int
  bestLen :: int
  curStart :: int
  curLen :: int

definition zero_run_step :: "nat \<times> nat \<Rightarrow> zero_run \<Rightarrow> zero_run" where
  "zero_run_step ix z =
     (case ix of (i, num) \<Rightarrow>
        if num = 0 then
          (let cs = (if curStart z < 0 then int i else curStart z); cl = curLen z + 1
           in if cl > bestLen z then \<lparr>bestStart = cs, bestLen = cl, curStart = cs, curLen = cl\<rparr>
              else z\<lparr>curStart := cs, curLen := cl\<rparr>)
        else z\<lparr>curStart := -1, curLen := 0\<rparr>)"

definition longest_zero_run :: "nat list \<Rightarrow> zero_run" where
  "longest_zero_run nums =
     fold zero_run_step (enumerate 0 nums) \<lparr>bestStart = -1, bestLen = 0, curStart = -1, curLen = 0\<rparr>"

definition ipv6_render :: "nat list \<Rightarrow> string" where
  "ipv6_render nums =
     (let z = longest_zero_run nums; hex = map show_hex nums
      in if 2 \<le> bestLen z
         then js_join '':'' (take (nat (bestStart z)) hex) @ ''::'' @
              js_join '':'' (drop (nat (bestStart z + bestLen z)) hex)
         else js_join '':'' hex)"

definition canonicalizeIpv6 :: "string \<Rightarrow> string option" where
  "canonicalizeIpv6 value =
     (let raw = js_trim value
      in if CHR '':'' \<notin> set raw then None
         else
           let unbracketed =
                 (if hd raw = CHR ''['' \<and> last raw = CHR '']'' then butlast (tl raw) else raw);
               head = takeWhile (\<lambda>c. c \<noteq> CHR ''%'') unbracketed;
               zone = dropWhile (\<lambda>c. c \<noteq> CHR ''%'') unbracketed
           in case ipv6_groups head of
                None \<Rightarrow> None
              | Some groups \<Rightarrow>
                  if length groups \<noteq> 8 \<or> \<not> list_all ipv6_group_re groups then None
                  else Some (ipv6_render (map hex_digits_val groups) @ js_lower zone))"

definition normalizeIocValue :: "string \<Rightarrow> string" where
  "normalizeIocValue raw =
     (let t = js_trim raw
      in case canonicalizeIpv6 t of Some ipv6 \<Rightarrow> ipv6 | None \<Rightarrow> js_lower t)"

section \<open>Dates\<close>

definition all_digits :: "nat \<Rightarrow> string \<Rightarrow> bool" where
  "all_digits n s \<longleftrightarrow> length s = n \<and> list_all is_digit s"

definition RE_DATE :: "string \<Rightarrow> (string \<times> string \<times> string) option" where
  "RE_DATE v =
     (let y = take 4 v; mo = take 2 (drop 5 v); d = take 2 (drop 8 v)
      in if v = y @ ''-'' @ mo @ ''-'' @ d \<and> all_digits 4 y \<and> all_digits 2 mo \<and> all_digits 2 d
         then Some (y, mo, d) else None)"

definition RE_TIME :: "string \<Rightarrow> (string \<times> string \<times> string) option" where
  "RE_TIME v =
     (let h = take 2 v; mi = take 2 (drop 3 v); s = take 2 (drop 6 v)
      in if v = h @ '':'' @ mi @ '':'' @ s \<and> all_digits 2 h \<and> all_digits 2 mi \<and> all_digits 2 s
         then Some (h, mi, s) else None)"

definition tz_designator :: "string \<Rightarrow> bool" where
  "tz_designator z \<longleftrightarrow>
     z = ''Z'' \<or>
     (case z of
        [] \<Rightarrow> False
      | sg # r \<Rightarrow> (sg = CHR ''+'' \<or> sg = CHR ''-'') \<and>
          (all_digits 4 r \<or> (r = take 2 r @ '':'' @ drop 3 r \<and> all_digits 2 (take 2 r) \<and> all_digits 2 (drop 3 r))))"

text \<open>The optional fraction and the time zone after the seconds of \<open>RE_ISO_TZ\<close>.\<close>

definition iso_tail :: "string \<Rightarrow> bool" where
  "iso_tail t \<longleftrightarrow>
     (case t of
        c # r \<Rightarrow>
          if c = CHR ''.'' then takeWhile is_digit r \<noteq> [] \<and> tz_designator (dropWhile is_digit r)
          else tz_designator t
      | [] \<Rightarrow> False)"

definition RE_RELATIVE :: "string \<Rightarrow> (string \<times> char) option" where
  "RE_RELATIVE v =
     (let ds = takeWhile is_digit (drop 4 v)
      in case dropWhile is_digit (drop 4 v) of
           [u] \<Rightarrow> if take 4 v = ''now-'' \<and> 1 \<le> length ds \<and> length ds \<le> 5 \<and> u \<in> set ''mhdw''
                  then Some (ds, u) else None
         | _ \<Rightarrow> None)"

definition RELATIVE_DATE_UNITS :: "char \<Rightarrow> int option" where
  "RELATIVE_DATE_UNITS u =
     (if u = CHR ''m'' then Some (60 * 1000)
      else if u = CHR ''h'' then Some (60 * 60 * 1000)
      else if u = CHR ''d'' then Some (24 * 60 * 60 * 1000)
      else if u = CHR ''w'' then Some (7 * 24 * 60 * 60 * 1000)
      else None)"

text \<open>Epoch milliseconds; \<open>None\<close> is the thrown \<open>invalid relative literal\<close>.\<close>

definition resolveRelativeDate :: "nat \<Rightarrow> char \<Rightarrow> int \<Rightarrow> int option" where
  "resolveRelativeDate amount u nowMs =
     (case RELATIVE_DATE_UNITS u of
        None \<Rightarrow> None
      | Some ms \<Rightarrow> if amount < 1 then None else Some (nowMs - int amount * ms))"

text \<open>
  \<open>new Date(Date.UTC(year, month, 0)).getUTCDate()\<close>: the last day of the month in the proleptic
  Gregorian calendar, where \<open>Date.UTC\<close> reads a year from 0 to 99 as 1900 to 1999.
\<close>

definition leap_year :: "nat \<Rightarrow> bool" where
  "leap_year y \<longleftrightarrow> (4 dvd y \<and> \<not> 100 dvd y) \<or> 400 dvd y"

definition daysInMonth :: "nat \<Rightarrow> nat \<Rightarrow> nat" where
  "daysInMonth year month =
     (let y = (if year \<le> 99 then 1900 + year else year)
      in if month = 2 then (if leap_year y then 29 else 28)
         else if month \<in> {4, 6, 9, 11} then 30 else 31)"

definition validParts :: "nat \<Rightarrow> nat \<Rightarrow> nat \<Rightarrow> nat \<Rightarrow> nat \<Rightarrow> nat \<Rightarrow> bool" where
  "validParts y mo d h mi s \<longleftrightarrow>
     1 \<le> mo \<and> mo \<le> 12 \<and> 1 \<le> d \<and> d \<le> daysInMonth y mo \<and> h \<le> 23 \<and> mi \<le> 59 \<and> s \<le> 59"

datatype date_lit =
    AbsDate (date_value: string) (hasTimezone: bool) (abs_display: string)
  | RelDate (rel_amount: nat) (rel_unit: char)

text \<open>The \<open>display\<close> field: stored for an absolute literal, \<open>now-<amount><unit>\<close> for a relative one.\<close>

definition date_display :: "date_lit \<Rightarrow> string" where
  "date_display dl =
     (case dl of AbsDate _ _ disp \<Rightarrow> disp | RelDate amount u \<Rightarrow> ''now-'' @ show_nat amount @ [u])"

text \<open>
  The body of \<open>parseDateLiteral\<close> on the trimmed literal \<open>v\<close>; \<open>None\<close> is a call of its \<open>fail\<close> closure.
\<close>

definition parse_date :: "(string \<Rightarrow> bool) \<Rightarrow> string \<Rightarrow> date_lit option" where
  "parse_date date_ok v =
     (if v = [] then None
      else case RE_RELATIVE (js_lower v) of
        Some (ds, u) \<Rightarrow> if digits_val ds < 1 then None else Some (RelDate (digits_val ds) u)
      | None \<Rightarrow>
          case RE_DATE v of
            Some (y, mo, d) \<Rightarrow>
              if \<not> validParts (digits_val y) (digits_val mo) (digits_val d) 0 0 0 then None
              else Some (AbsDate (y @ ''-'' @ mo @ ''-'' @ d @ '' 00:00:00'') False (y @ ''-'' @ mo @ ''-'' @ d))
          | None \<Rightarrow>
              case (RE_DATE (take 10 v), RE_TIME (take 8 (drop 11 v))) of
                (Some (y, mo, d), Some (h, mi, s)) \<Rightarrow>
                  (let sep = take 1 (drop 10 v); rest = drop 19 v;
                       canonical = y @ ''-'' @ mo @ ''-'' @ d @ '' '' @ h @ '':'' @ mi @ '':'' @ s;
                       ok = validParts (digits_val y) (digits_val mo) (digits_val d)
                              (digits_val h) (digits_val mi) (digits_val s)
                   in if (sep = '' '' \<or> sep = ''T'') \<and> rest = [] then
                        (if \<not> ok then None else Some (AbsDate canonical False canonical))
                      else if sep = ''T'' \<and> iso_tail rest then
                        (if \<not> ok then None
                         else if \<not> date_ok v then None
                         else Some (AbsDate v True v))
                      else None)
              | _ \<Rightarrow> None)"

definition parseDateLiteral :: "(string \<Rightarrow> bool) \<Rightarrow> string \<Rightarrow> string \<Rightarrow> nat \<Rightarrow> date_lit dsl" where
  "parseDateLiteral date_ok raw field position =
     (case parse_date date_ok (js_trim raw) of
        None \<Rightarrow> dsl_fail_at ''invalid_date'' position field
      | Some dl \<Rightarrow> Inr dl)"

section \<open>Validators are idempotent on what they accept\<close>

lemma dsl_fail_Inr [simp]: "dsl_fail_at c p f \<noteq> Inr x" "dsl_fail c p \<noteq> Inr x"
  by (simp_all add: dsl_fail_def dsl_fail_at_def)

lemma assertUsableTextValue_idem:
  "assertUsableTextValue raw f p = Inr v \<Longrightarrow> assertUsableTextValue v f' p' = Inr v"
  by (auto simp: assertUsableTextValue_def isMeaninglessTextValue_def split: if_splits)

lemma assertHashValue_idem:
  assumes "assertHashValue raw f t p = Inr v" and "t \<in> set EXACT_HASH_TYPES"
  shows "assertHashValue v f' t p' = Inr v"
proof -
  obtain h where h: "normalizeExactHash t raw = Some h" "v = normalized_hash_value h"
    using assms(1) by (auto simp: assertHashValue_def split: option.splits)
  have "hash_type h = t"
    using h(1) hash_type_fixed [OF assms(2)] by (auto simp: normalizeExactHash_def Let_def split: if_splits)
  with normalizeExactHash_fixed [OF normalizeExactHash_valid [OF h(1)]] h(2)
  show ?thesis by (simp add: assertHashValue_def)
qed

lemma assertAttrValue_idem:
  "assertAttrValue raw f t p = Inr v \<Longrightarrow> assertAttrValue v f' t p' = Inr v"
  by (auto simp: assertAttrValue_def Let_def split: option.splits prod.splits if_splits fold_mode.splits)

lemma digits_not_ws: "list_all is_digit s \<Longrightarrow> c \<in> set s \<Longrightarrow> \<not> js_ws c"
  by (auto simp: list_all_iff is_digit_not_ws)

lemma take_digits_hd: "all_digits (Suc n) y \<Longrightarrow> y \<noteq> [] \<and> is_digit (hd y)"
  by (cases y) (auto simp: all_digits_def)

lemma all_digits_last: "all_digits (Suc n) y \<Longrightarrow> y \<noteq> [] \<and> is_digit (last y)"
  by (cases y rule: rev_cases) (auto simp: all_digits_def)

lemma RE_DATE_parts:
  "RE_DATE v = Some (y, mo, d) \<Longrightarrow>
     v = y @ ''-'' @ mo @ ''-'' @ d \<and> all_digits 4 y \<and> all_digits 2 mo \<and> all_digits 2 d"
  by (auto simp: RE_DATE_def Let_def split: if_splits)

lemma RE_DATE_build:
  "all_digits 4 y \<Longrightarrow> all_digits 2 mo \<Longrightarrow> all_digits 2 d \<Longrightarrow>
     RE_DATE (y @ ''-'' @ mo @ ''-'' @ d) = Some (y, mo, d)"
  by (auto simp: RE_DATE_def Let_def all_digits_def)

lemma RE_TIME_parts:
  "RE_TIME v = Some (h, mi, s) \<Longrightarrow>
     v = h @ '':'' @ mi @ '':'' @ s \<and> all_digits 2 h \<and> all_digits 2 mi \<and> all_digits 2 s"
  by (auto simp: RE_TIME_def Let_def split: if_splits)

lemma RE_TIME_build:
  "all_digits 2 h \<Longrightarrow> all_digits 2 mi \<Longrightarrow> all_digits 2 s \<Longrightarrow>
     RE_TIME (h @ '':'' @ mi @ '':'' @ s) = Some (h, mi, s)"
  by (auto simp: RE_TIME_def Let_def all_digits_def)

lemma RE_RELATIVE_digit_hd: "v \<noteq> [] \<Longrightarrow> is_digit (hd v) \<Longrightarrow> RE_RELATIVE (js_lower v) = None"
proof -
  assume a: "v \<noteq> []" "is_digit (hd v)"
  then have "take 4 (js_lower v) \<noteq> ''now-''"
    by (cases v) (auto simp: is_digit_def)
  then show ?thesis by (auto simp: RE_RELATIVE_def Let_def split: list.splits)
qed

lemma RE_RELATIVE_parts:
  "RE_RELATIVE v = Some (ds, u) \<Longrightarrow>
     list_all is_digit ds \<and> 1 \<le> length ds \<and> length ds \<le> 5 \<and> u \<in> set ''mhdw''"
  by (auto simp: RE_RELATIVE_def Let_def list_all_iff split: list.splits if_splits dest: set_takeWhileD)

lemma unit_chars: "u \<in> set ''mhdw'' \<Longrightarrow> \<not> is_digit u \<and> \<not> js_ws u \<and> js_lower_char u = u"
  by (auto simp: is_digit_def js_ws_def js_lower_char_def is_capital_def is_upper_def)

lemma RE_RELATIVE_build:
  assumes "list_all is_digit ds" "1 \<le> length ds" "length ds \<le> 5" "u \<in> set ''mhdw''"
  shows "RE_RELATIVE (''now-'' @ ds @ [u]) = Some (ds, u)"
  using assms unit_chars [OF assms(4)] takeWhile_dropWhile_all [of is_digit ds "[u]"]
  by (simp add: RE_RELATIVE_def)

lemma trimmed_ends: "s \<noteq> [] \<Longrightarrow> \<not> js_ws (hd s) \<Longrightarrow> \<not> js_ws (last s) \<Longrightarrow> js_trim s = s"
  by (simp add: trimmed_def)

lemma js_lower_digits: "list_all is_digit s \<Longrightarrow> js_lower s = s"
  by (induction s) auto

lemma parse_relative_display:
  assumes "list_all is_digit ds" "length ds \<le> 5" "1 \<le> digits_val ds" "u \<in> set ''mhdw''"
  defines "v \<equiv> ''now-'' @ show_nat (digits_val ds) @ [u]"
  shows "parse_date date_ok v = Some (RelDate (digits_val ds) u) \<and> trimmed v"
proof -
  let ?n = "digits_val ds"
  have "?n < 10 ^ length ds" by (rule digits_val_bound [OF assms(1)])
  also have "(10::nat) ^ length ds \<le> 10 ^ 5" using assms(2) by (intro power_increasing) auto
  finally have len: "length (show_nat ?n) \<le> 5" by (intro length_show_nat) auto
  have "1 \<le> length (show_nat ?n)" by (cases "show_nat ?n") auto
  then have rel: "RE_RELATIVE v = Some (show_nat ?n, u)"
    using len assms(4) unfolding v_def by (intro RE_RELATIVE_build) auto
  have "js_lower v = v"
    using unit_chars [OF assms(4)]
    by (simp add: v_def js_lower_digits js_lower_char_def is_capital_def is_upper_def)
  then have "parse_date date_ok v = Some (RelDate ?n u)"
    using rel assms(3) by (simp add: parse_date_def) (simp add: v_def)
  moreover have "trimmed v"
    using unit_chars [OF assms(4)] by (simp add: trimmed_def v_def js_ws_def)
  ultimately show ?thesis by simp
qed

lemma date_string_ends:
  "all_digits 4 y \<Longrightarrow> all_digits 2 d \<Longrightarrow> trimmed (y @ t @ d) \<and> y @ t @ d \<noteq> [] \<and> is_digit (hd (y @ t @ d))"
  using take_digits_hd [of 3 y] all_digits_last [of 1 d]
  by (auto simp: trimmed_def numeral_eq_Suc is_digit_not_ws)

lemma RE_DATE_length: "RE_DATE v = Some x \<Longrightarrow> length v = 10"
  by (cases x) (auto dest!: RE_DATE_parts simp: all_digits_def)

lemma parse_date_display:
  assumes "RE_DATE v = Some (y, mo, d)"
    and "validParts (digits_val y) (digits_val mo) (digits_val d) 0 0 0"
  shows "parse_date date_ok v = Some (AbsDate (v @ '' 00:00:00'') False v) \<and> trimmed v"
proof -
  note parts = RE_DATE_parts [OF assms(1)]
  have "trimmed v \<and> v \<noteq> [] \<and> is_digit (hd v)"
    using date_string_ends [of y d "''-'' @ mo @ ''-''"] parts by simp
  then show ?thesis using assms RE_RELATIVE_digit_hd [of v] parts by (simp add: parse_date_def)
qed

lemma parse_datetime_display:
  assumes "RE_DATE dt = Some (y, mo, d)" and "RE_TIME tm = Some (h, mi, s)"
    and "validParts (digits_val y) (digits_val mo) (digits_val d) (digits_val h) (digits_val mi) (digits_val s)"
  shows "parse_date date_ok (dt @ '' '' @ tm) =
    Some (AbsDate (dt @ '' '' @ tm) False (dt @ '' '' @ tm)) \<and> trimmed (dt @ '' '' @ tm)"
proof -
  note dp = RE_DATE_parts [OF assms(1)] and tp = RE_TIME_parts [OF assms(2)]
  let ?v = "dt @ '' '' @ tm"
  have len: "length dt = 10" "length tm = 8" using dp tp by (auto simp: all_digits_def)
  then have "RE_DATE ?v = None"
    by (cases "RE_DATE ?v") (auto dest: RE_DATE_length)
  moreover have "trimmed ?v \<and> ?v \<noteq> [] \<and> is_digit (hd ?v)"
    using date_string_ends [of y s "''-'' @ mo @ ''-'' @ d @ '' '' @ h @ '':'' @ mi @ '':''"] dp tp
    by simp
  moreover have "y @ ''-'' @ mo @ ''-'' @ d @ '' '' @ h @ '':'' @ mi @ '':'' @ s = ?v" using dp tp by simp
  ultimately show ?thesis
    using assms len RE_RELATIVE_digit_hd [of ?v] by (simp add: parse_date_def Let_def)
qed

lemma parse_date_idem:
  assumes "parse_date date_ok v = Some dl" and "trimmed v"
  shows "parse_date date_ok (date_display dl) = Some dl \<and> trimmed (date_display dl)"
proof (cases "RE_RELATIVE (js_lower v)")
  case (Some r)
  then obtain ds u where r: "RE_RELATIVE (js_lower v) = Some (ds, u)" by (cases r) auto
  with assms have "dl = RelDate (digits_val ds) u" "1 \<le> digits_val ds"
    by (auto simp: parse_date_def split: if_splits)
  with RE_RELATIVE_parts [OF r] show ?thesis
    using parse_relative_display [of ds u date_ok] by (simp add: date_display_def)
next
  case None
  note rel = this
  show ?thesis
  proof (cases "RE_DATE v")
    case (Some x)
    then obtain y mo d where x: "RE_DATE v = Some (y, mo, d)" by (cases x) auto
    with assms rel have "validParts (digits_val y) (digits_val mo) (digits_val d) 0 0 0"
      "dl = AbsDate (v @ '' 00:00:00'') False v"
      using RE_DATE_parts [OF x] by (auto simp: parse_date_def split: if_splits)
    with parse_date_display [OF x, of date_ok] show ?thesis by (simp add: date_display_def)
  next
    case None
    with assms rel obtain y mo d h mi s where
      dt: "RE_DATE (take 10 v) = Some (y, mo, d)" and tm: "RE_TIME (take 8 (drop 11 v)) = Some (h, mi, s)"
      and dl: "dl = AbsDate v True v \<or>
        (dl = AbsDate (take 10 v @ '' '' @ take 8 (drop 11 v)) False (take 10 v @ '' '' @ take 8 (drop 11 v)) \<and>
         validParts (digits_val y) (digits_val mo) (digits_val d) (digits_val h) (digits_val mi) (digits_val s))"
      by (auto simp: parse_date_def Let_def split: if_splits option.splits prod.splits
          dest!: RE_DATE_parts RE_TIME_parts)
    from dl show ?thesis
    proof (elim disjE conjE)
      assume "dl = AbsDate v True v"
      then show ?thesis using assms by (simp add: date_display_def)
    next
      assume "dl = AbsDate (take 10 v @ '' '' @ take 8 (drop 11 v)) False (take 10 v @ '' '' @ take 8 (drop 11 v))"
        and "validParts (digits_val y) (digits_val mo) (digits_val d) (digits_val h) (digits_val mi) (digits_val s)"
      then show ?thesis using parse_datetime_display [OF dt tm, of date_ok] by (simp add: date_display_def)
    qed
  qed
qed

lemma parseDateLiteral_idem:
  "parseDateLiteral date_ok raw f p = Inr dl \<Longrightarrow> parseDateLiteral date_ok (date_display dl) f' p' = Inr dl"
  using parse_date_idem [of date_ok "js_trim raw" dl]
  by (auto simp: parseDateLiteral_def split: option.splits)

end
