(* ===== verification/DslParser.thy ===== *)
theory DslParser
  imports DslLexer DslNormalize
begin

text \<open>
  The recursive-descent parser of the IOC Search DSL (\<open>backend/lib/iocSearchDsl/parser.js\<close>). The
  parser object is the record \<open>parser\<close>: the tokens from the cursor on (the source keeps the whole array
  and an index; \<open>next()\<close> never leaves the last token), the number of conditions and the parenthesis
  depth; the limits are an argument. A thrown \<open>DslError\<close> is \<open>Inl\<close>. The six functions that call one
  another carry fuel, and \<open>None\<close> means that it ran out; \<open>parse_fuel\<close> is shown to be enough for every
  EOF-terminated token list, so the parser always returns. An empty token array, which the scanner
  never produces, is outside the model. The lemmas show that an accepted query is a well-formed AST
  within the configured limits.
\<close>

section \<open>The abstract syntax tree\<close>

datatype condition =
    ValueCondition (cond_field: string) (cond_kind: field_kind) (cond_operator: string) (cond_values: "string list")
  | DateCondition (cond_field: string) (cond_operator: string) (cond_dates: "date_lit list")

datatype ast = OrNode "ast list" | AndNode "ast list" | NotNode ast | CondNode condition

section \<open>The parser state\<close>

record parser =
  rest :: "token list"
  conditionCount :: nat
  depth :: nat

definition peek_tok :: "token list \<Rightarrow> token" where
  "peek_tok ts = (case ts of t # _ \<Rightarrow> t | [] \<Rightarrow> mk_token EOF [] 0)"

definition next_tok :: "token list \<Rightarrow> token list" where
  "next_tok ts = (case ts of _ # u # us \<Rightarrow> u # us | _ \<Rightarrow> ts)"

definition peek :: "parser \<Rightarrow> token" where
  "peek p = peek_tok (rest p)"

definition advance :: "parser \<Rightarrow> parser" where
  "advance p = p\<lparr>rest := next_tok (rest p)\<rparr>"

definition atEnd :: "parser \<Rightarrow> bool" where
  "atEnd p \<longleftrightarrow> tok_type (peek p) = EOF"

definition isKeyword :: "token \<Rightarrow> string \<Rightarrow> bool" where
  "isKeyword tok word \<longleftrightarrow> tok_type tok = IDENT \<and> js_lower (tok_value tok) = word"

definition LOGICAL_KEYWORDS :: "string list" where
  "LOGICAL_KEYWORDS = [''and'', ''or'', ''not'']"

section \<open>Conditions\<close>

definition assertEnumValue :: "string \<Rightarrow> field_spec \<Rightarrow> string \<Rightarrow> nat \<Rightarrow> unit dsl" where
  "assertEnumValue field spec value position =
     (if spec_kind spec \<noteq> KEnum then Inr ()
      else case spec_allowedValues spec of
             None \<Rightarrow> Inr ()
           | Some allowed \<Rightarrow>
               if js_lower value \<notin> set allowed then dsl_fail_at ''invalid_enum_value'' position field
               else Inr ())"

definition expectString :: "parser \<Rightarrow> string \<Rightarrow> (token \<times> parser) dsl" where
  "expectString p field =
     (let tok = peek p
      in if tok_type tok \<noteq> STRING then dsl_fail_at ''expected_value'' (tok_position tok) field
         else Inr (tok, advance p))"

text \<open>A text or enum value: usable, and one of the allowed values where the field has some.\<close>

definition checkedTextValue :: "string \<Rightarrow> field_spec \<Rightarrow> token \<Rightarrow> string dsl" where
  "checkedTextValue field spec tok =
     (case assertUsableTextValue (tok_value tok) field (tok_position tok) of
        Inl e \<Rightarrow> Inl e
      | Inr value \<Rightarrow>
          (case assertEnumValue field spec value (tok_position tok) of
             Inl e \<Rightarrow> Inl e | Inr _ \<Rightarrow> Inr value))"

definition opt_string :: "string option \<Rightarrow> string" where
  "opt_string o' = (case o' of Some s \<Rightarrow> s | None \<Rightarrow> [])"

definition scalarValue :: "string \<Rightarrow> field_spec \<Rightarrow> token \<Rightarrow> string dsl" where
  "scalarValue field spec tok =
     (case spec_kind spec of
        KHash \<Rightarrow> assertHashValue (tok_value tok) field (opt_string (spec_hashType spec)) (tok_position tok)
      | KAttr \<Rightarrow> assertAttrValue (tok_value tok) field (opt_string (spec_attrType spec)) (tok_position tok)
      | _ \<Rightarrow> checkedTextValue field spec tok)"

definition parseScalarCondition :: "parser \<Rightarrow> string \<Rightarrow> field_spec \<Rightarrow> string \<Rightarrow> (ast \<times> parser) dsl" where
  "parseScalarCondition p field spec operator =
     (case expectString p field of
        Inl e \<Rightarrow> Inl e
      | Inr (tok, p1) \<Rightarrow>
          (case scalarValue field spec tok of
             Inl e \<Rightarrow> Inl e
           | Inr value \<Rightarrow> Inr (CondNode (ValueCondition field (spec_kind spec) operator [value]), p1)))"

text \<open>The loop over the items of a list, from the first item on.\<close>

function parseListItems ::
    "search_limits \<Rightarrow> string \<Rightarrow> field_spec \<Rightarrow> string list \<Rightarrow> token list \<Rightarrow> (string list \<times> token list) dsl" where
  "parseListItems limits field spec values ts =
     (let tok = peek_tok ts
      in if tok_type tok \<noteq> STRING then dsl_fail_at ''expected_value'' (tok_position tok) field
         else case checkedTextValue field spec tok of
           Inl e \<Rightarrow> Inl e
         | Inr value \<Rightarrow>
             let values' = values @ [value]; ts1 = next_tok ts; sep = peek_tok ts1
             in if length values' > maxInItems limits
                then dsl_fail_at ''max_in_items_exceeded'' (tok_position tok) field
                else if tok_type sep = COMMA then parseListItems limits field spec values' (next_tok ts1)
                else if tok_type sep = RPAREN then Inr (values', next_tok ts1)
                else dsl_fail_at ''expected_list_separator'' (tok_position sep) field)"
  by pat_completeness auto
termination
proof (relation "measure (\<lambda>(limits, field, spec, values, ts). length ts)", goal_cases)
  case (2 limits field spec vs ts tok v vs1 ts1 sep)
  then obtain t us where ts: "ts = t # us"
    by (auto simp: peek_tok_def mk_token_def split: list.splits)
  moreover from this 2 have "us \<noteq> []"
    by (auto simp: peek_tok_def next_tok_def)
  ultimately show ?case using 2 by (auto simp: next_tok_def split: list.splits)
qed simp

definition parseListCondition ::
    "search_limits \<Rightarrow> parser \<Rightarrow> string \<Rightarrow> field_spec \<Rightarrow> string \<Rightarrow> (ast \<times> parser) dsl" where
  "parseListCondition limits p field spec operator =
     (let opn = peek p
      in if tok_type opn \<noteq> LPAREN then dsl_fail_at ''expected_list'' (tok_position opn) field
         else
           let p1 = advance p
           in if tok_type (peek p1) = RPAREN
              then dsl_fail_at ''empty_list'' (tok_position (peek p1)) field
              else case parseListItems limits field spec [] (rest p1) of
                     Inl e \<Rightarrow> Inl e
                   | Inr (values, ts) \<Rightarrow>
                       Inr (CondNode (ValueCondition field (spec_kind spec) operator values), p1\<lparr>rest := ts\<rparr>))"

definition expectDate :: "(string \<Rightarrow> bool) \<Rightarrow> parser \<Rightarrow> string \<Rightarrow> (date_lit \<times> parser) dsl" where
  "expectDate date_ok p field =
     (case expectString p field of
        Inl e \<Rightarrow> Inl e
      | Inr (tok, p1) \<Rightarrow>
          (case parseDateLiteral date_ok (tok_value tok) field (tok_position tok) of
             Inl e \<Rightarrow> Inl e | Inr d \<Rightarrow> Inr (d, p1)))"

definition parseDateCondition :: "(string \<Rightarrow> bool) \<Rightarrow> parser \<Rightarrow> string \<Rightarrow> string \<Rightarrow> (ast \<times> parser) dsl" where
  "parseDateCondition date_ok p field operator =
     (case expectDate date_ok p field of
        Inl e \<Rightarrow> Inl e
      | Inr (d, p1) \<Rightarrow> Inr (CondNode (DateCondition field operator [d]), p1))"

definition parseBetweenCondition :: "(string \<Rightarrow> bool) \<Rightarrow> parser \<Rightarrow> string \<Rightarrow> string \<Rightarrow> (ast \<times> parser) dsl" where
  "parseBetweenCondition date_ok p field operator =
     (case expectDate date_ok p field of
        Inl e \<Rightarrow> Inl e
      | Inr (fromDate, p1) \<Rightarrow>
          (if \<not> isKeyword (peek p1) ''and''
           then dsl_fail_at ''expected_between_and'' (tok_position (peek p1)) field
           else case expectDate date_ok (advance p1) field of
                  Inl e \<Rightarrow> Inl e
                | Inr (toDate, p2) \<Rightarrow> Inr (CondNode (DateCondition field operator [fromDate, toDate]), p2)))"

text \<open>A field the registry does not have (which \<open>canonicalFieldName\<close> never returns) is unknown.\<close>

definition parseCondition :: "(string \<Rightarrow> bool) \<Rightarrow> search_limits \<Rightarrow> parser \<Rightarrow> (ast \<times> parser) dsl" where
  "parseCondition date_ok limits p =
     (let fieldTok = peek p
      in if tok_type fieldTok \<noteq> IDENT \<or> js_lower (tok_value fieldTok) \<in> set LOGICAL_KEYWORDS
         then dsl_fail ''expected_field'' (tok_position fieldTok)
         else case canonicalFieldName (tok_value fieldTok) of
           None \<Rightarrow> dsl_fail_at ''unknown_field'' (tok_position fieldTok) (tok_value fieldTok)
         | Some canonical \<Rightarrow>
             (let p1 = advance p; opTok = peek p1
              in if tok_type opTok \<noteq> IDENT
                 then dsl_fail_at ''expected_operator'' (tok_position opTok) canonical
                 else
                   let operator = js_lower (tok_value opTok)
                   in case getFieldSpec canonical of
                        None \<Rightarrow> dsl_fail_at ''unknown_field'' (tok_position fieldTok) (tok_value fieldTok)
                      | Some spec \<Rightarrow>
                          if operator \<notin> set (spec_operators spec)
                          then dsl_fail_at ''unsupported_operator'' (tok_position opTok) canonical
                          else
                            let p2 = (advance p1)\<lparr>conditionCount := conditionCount p + 1\<rparr>
                            in if conditionCount p2 > maxConditions limits
                               then dsl_fail ''max_conditions_exceeded'' (tok_position opTok)
                               else if operator = ''in'' \<or> operator = ''not_in''
                               then parseListCondition limits p2 canonical spec operator
                               else if operator = ''between''
                               then parseBetweenCondition date_ok p2 canonical operator
                               else if operator = ''before'' \<or> operator = ''after''
                               then parseDateCondition date_ok p2 canonical operator
                               else parseScalarCondition p2 canonical spec operator))"

section \<open>The logical structure\<close>

function (sequential) parseOr :: "(string \<Rightarrow> bool) \<Rightarrow> search_limits \<Rightarrow> nat \<Rightarrow> parser \<Rightarrow> (ast \<times> parser) dsl option"
and orLoop :: "(string \<Rightarrow> bool) \<Rightarrow> search_limits \<Rightarrow> nat \<Rightarrow> ast list \<Rightarrow> parser \<Rightarrow> (ast \<times> parser) dsl option"
and parseAnd :: "(string \<Rightarrow> bool) \<Rightarrow> search_limits \<Rightarrow> nat \<Rightarrow> parser \<Rightarrow> (ast \<times> parser) dsl option"
and andLoop :: "(string \<Rightarrow> bool) \<Rightarrow> search_limits \<Rightarrow> nat \<Rightarrow> ast list \<Rightarrow> parser \<Rightarrow> (ast \<times> parser) dsl option"
and parseNot :: "(string \<Rightarrow> bool) \<Rightarrow> search_limits \<Rightarrow> nat \<Rightarrow> parser \<Rightarrow> (ast \<times> parser) dsl option"
and parsePrimary :: "(string \<Rightarrow> bool) \<Rightarrow> search_limits \<Rightarrow> nat \<Rightarrow> parser \<Rightarrow> (ast \<times> parser) dsl option"
where
  "parseOr dk lm 0 p = None"
| "parseOr dk lm (Suc f) p =
     (case parseAnd dk lm f p of
        None \<Rightarrow> None
      | Some (Inl e) \<Rightarrow> Some (Inl e)
      | Some (Inr (left, p1)) \<Rightarrow> orLoop dk lm f [left] p1)"
| "orLoop dk lm 0 children p = None"
| "orLoop dk lm (Suc f) children p =
     (if isKeyword (peek p) ''or''
      then (case parseAnd dk lm f (advance p) of
              None \<Rightarrow> None
            | Some (Inl e) \<Rightarrow> Some (Inl e)
            | Some (Inr (c, p1)) \<Rightarrow> orLoop dk lm f (children @ [c]) p1)
      else Some (Inr (if length children = 1 then hd children else OrNode children, p)))"
| "parseAnd dk lm 0 p = None"
| "parseAnd dk lm (Suc f) p =
     (case parseNot dk lm f p of
        None \<Rightarrow> None
      | Some (Inl e) \<Rightarrow> Some (Inl e)
      | Some (Inr (left, p1)) \<Rightarrow> andLoop dk lm f [left] p1)"
| "andLoop dk lm 0 children p = None"
| "andLoop dk lm (Suc f) children p =
     (if isKeyword (peek p) ''and''
      then (case parseNot dk lm f (advance p) of
              None \<Rightarrow> None
            | Some (Inl e) \<Rightarrow> Some (Inl e)
            | Some (Inr (c, p1)) \<Rightarrow> andLoop dk lm f (children @ [c]) p1)
      else Some (Inr (if length children = 1 then hd children else AndNode children, p)))"
| "parseNot dk lm 0 p = None"
| "parseNot dk lm (Suc f) p =
     (if isKeyword (peek p) ''not''
      then (case parseNot dk lm f (advance p) of
              None \<Rightarrow> None
            | Some (Inl e) \<Rightarrow> Some (Inl e)
            | Some (Inr (c, p1)) \<Rightarrow> Some (Inr (NotNode c, p1)))
      else parsePrimary dk lm f p)"
| "parsePrimary dk lm 0 p = None"
| "parsePrimary dk lm (Suc f) p =
     (let tok = peek p
      in if tok_type tok = LPAREN then
           (let p1 = p\<lparr>depth := depth p + 1\<rparr>
            in if depth p1 > maxParenthesesDepth lm
               then Some (dsl_fail ''max_depth_exceeded'' (tok_position tok))
               else case parseOr dk lm f (advance p1) of
                 None \<Rightarrow> None
               | Some (Inl e) \<Rightarrow> Some (Inl e)
               | Some (Inr (inner, p2)) \<Rightarrow>
                   (if tok_type (peek p2) \<noteq> RPAREN
                    then Some (dsl_fail ''unclosed_parenthesis'' (tok_position (peek p2)))
                    else let p3 = advance p2 in Some (Inr (inner, p3\<lparr>depth := depth p3 - 1\<rparr>))))
         else if tok_type tok = RPAREN then Some (dsl_fail ''unexpected_token'' (tok_position tok))
         else Some (parseCondition dk lm p))"

  by pat_completeness auto
termination
  by (relation "measure (\<lambda>x. case x of
     Inl (Inl (dk, lm, f, p)) \<Rightarrow> f | Inl (Inr (Inl (dk, lm, f, cs, p))) \<Rightarrow> f | Inl (Inr (Inr (dk, lm, f, p))) \<Rightarrow> f
   | Inr (Inl (dk, lm, f, cs, p)) \<Rightarrow> f | Inr (Inr (Inl (dk, lm, f, p))) \<Rightarrow> f | Inr (Inr (Inr (dk, lm, f, p))) \<Rightarrow> f)") auto

definition parse_fuel :: "token list \<Rightarrow> nat" where
  "parse_fuel tokens = 5 * length tokens + 4"

definition parseTokens :: "(string \<Rightarrow> bool) \<Rightarrow> search_limits \<Rightarrow> token list \<Rightarrow> ast dsl option" where
  "parseTokens date_ok limits tokens =
     (let p = \<lparr>rest = tokens, conditionCount = 0, depth = 0\<rparr>
      in if atEnd p then Some (dsl_fail ''empty_query'' 0)
         else case parseOr date_ok limits (parse_fuel tokens) p of
           None \<Rightarrow> None
         | Some (Inl e) \<Rightarrow> Some (Inl e)
         | Some (Inr (node, p1)) \<Rightarrow>
             if \<not> atEnd p1 then Some (dsl_fail ''unexpected_token'' (tok_position (peek p1)))
             else if conditionCount p1 = 0 then Some (dsl_fail ''no_conditions'' 0)
             else Some (Inr node))"

definition parseDsl :: "(string \<Rightarrow> bool) \<Rightarrow> search_limits \<Rightarrow> string \<Rightarrow> ast dsl option" where
  "parseDsl date_ok limits input =
     (case tokenize input of
        Inl e \<Rightarrow> Some (Inl e)
      | Inr tokens \<Rightarrow> parseTokens date_ok limits tokens)"

section \<open>Well-formed trees\<close>

fun ncond :: "ast \<Rightarrow> nat" where
  "ncond (OrNode cs) = sum_list (map ncond cs)"
| "ncond (AndNode cs) = sum_list (map ncond cs)"
| "ncond (NotNode c) = ncond c"
| "ncond (CondNode c) = 1"

text \<open>The parenthesis nesting that a tree needs when it is rendered in a context of precedence \<open>k\<close>
  (1 inside OR, 2 inside AND, 3 inside NOT).\<close>

fun paren_depth :: "nat \<Rightarrow> ast \<Rightarrow> nat" where
  "paren_depth k (OrNode cs) = Max (insert 0 (set (map (paren_depth 1) cs))) + (if 1 < k then 1 else 0)"
| "paren_depth k (AndNode cs) = Max (insert 0 (set (map (paren_depth 2) cs))) + (if 2 < k then 1 else 0)"
| "paren_depth k (NotNode c) = paren_depth 3 c"
| "paren_depth k (CondNode c) = 0"

definition wf_condition :: "(string \<Rightarrow> bool) \<Rightarrow> search_limits \<Rightarrow> condition \<Rightarrow> bool" where
  "wf_condition date_ok limits c =
     (case c of
        ValueCondition f k opr vs \<Rightarrow>
          (case getFieldSpec f of
             None \<Rightarrow> False
           | Some spec \<Rightarrow>
               k = spec_kind spec \<and> opr \<in> set (spec_operators spec) \<and> opr \<notin> set DATE_OPERATORS \<and>
               (if opr \<in> set LIST_OPERATORS
                then vs \<noteq> [] \<and> length vs \<le> maxInItems limits \<and>
                     list_all (\<lambda>v. checkedTextValue f spec (mk_token STRING v 0) = Inr v) vs
                else length vs = 1 \<and> list_all (\<lambda>v. scalarValue f spec (mk_token STRING v 0) = Inr v) vs))
      | DateCondition f opr ds \<Rightarrow>
          (case getFieldSpec f of
             None \<Rightarrow> False
           | Some spec \<Rightarrow>
               opr \<in> set (spec_operators spec) \<and> opr \<in> set DATE_OPERATORS \<and>
               length ds = (if opr = ''between'' then 2 else 1) \<and>
               list_all (\<lambda>d. parseDateLiteral date_ok (date_display d) f 0 = Inr d) ds))"

fun wf_ast :: "(string \<Rightarrow> bool) \<Rightarrow> search_limits \<Rightarrow> ast \<Rightarrow> bool" where
  "wf_ast dk lm (OrNode cs) = (2 \<le> length cs \<and> list_all (wf_ast dk lm) cs)"
| "wf_ast dk lm (AndNode cs) = (2 \<le> length cs \<and> list_all (wf_ast dk lm) cs)"
| "wf_ast dk lm (NotNode c) = wf_ast dk lm c"
| "wf_ast dk lm (CondNode c) = wf_condition dk lm c"

lemma paren_depth_mono: "j \<le> k \<Longrightarrow> paren_depth j a \<le> paren_depth k a \<and> paren_depth k a \<le> paren_depth j a + 1"
  by (cases a) auto

lemma paren_depth_children:
  "(\<forall>c \<in> set cs. paren_depth k c \<le> m) \<Longrightarrow> Max (insert 0 (set (map (paren_depth k) cs))) \<le> m"
  by (auto intro!: Max.boundedI)

section \<open>Token consumption and values\<close>

lemma rest_advance [simp]: "rest (advance p) = next_tok (rest p)" "depth (advance p) = depth p"
  "conditionCount (advance p) = conditionCount p"
  by (simp_all add: advance_def)

lemma eof_terminated_next:
  assumes "eof_terminated ts" and "tok_type (peek_tok ts) \<noteq> EOF"
  shows "eof_terminated (next_tok ts) \<and> Suc (length (next_tok ts)) = length ts \<and> ts = peek_tok ts # next_tok ts"
proof (cases ts)
  case Nil
  with assms show ?thesis by (simp add: eof_terminated_def)
next
  case (Cons t us)
  then show ?thesis using assms
    by (cases us) (auto simp: peek_tok_def next_tok_def split: if_splits)
qed

lemma checkedTextValue_idem:
  "checkedTextValue f spec tok = Inr v \<Longrightarrow> tok_value tok' = v \<Longrightarrow> checkedTextValue f spec tok' = Inr v"
  by (auto simp: checkedTextValue_def assertEnumValue_def split: sum.splits if_splits option.splits
      dest: assertUsableTextValue_idem [where f' = f and p' = "tok_position tok'"]
        assertUsableTextValue_idem [where f' = f and p' = "tok_position tok"])

lemma registry_hash_types:
  "getFieldSpec f = Some spec \<Longrightarrow> spec_kind spec = KHash \<Longrightarrow> opt_string (spec_hashType spec) \<in> set EXACT_HASH_TYPES"
  by (drule getFieldSpec_in) (auto simp: FIELD_REGISTRY_def field_spec_defs EXACT_HASH_TYPES_def opt_string_def)

lemma scalarValue_idem:
  assumes "getFieldSpec f = Some spec" "scalarValue f spec tok = Inr v" "tok_value tok' = v"
  shows "scalarValue f spec tok' = Inr v"
  using assms checkedTextValue_idem [of f spec tok v tok']
    assertHashValue_idem [OF _ registry_hash_types [OF assms(1)]] assertAttrValue_idem
  by (auto simp: scalarValue_def split: field_kind.splits)

definition list_ok :: "search_limits \<Rightarrow> string \<Rightarrow> field_spec \<Rightarrow> string list \<Rightarrow> bool" where
  "list_ok limits f spec vs \<longleftrightarrow>
     length vs \<le> maxInItems limits \<and> list_all (\<lambda>v. checkedTextValue f spec (mk_token STRING v 0) = Inr v) vs"

declare parseListItems.simps [simp del]

lemma parseListItems_sound:
  assumes "parseListItems limits f spec vs ts = Inr (ws, us)" "eof_terminated ts" "list_ok limits f spec vs"
  shows "list_ok limits f spec ws \<and> ws \<noteq> [] \<and> eof_terminated us \<and> length us < length ts"
  using assms
proof (induction limits f spec vs ts rule: parseListItems.induct)
  case (1 limits f spec vs ts)
  note unf = parseListItems.simps [of limits f spec vs ts]
  from "1.prems"(1) have str: "tok_type (peek_tok ts) = STRING" by (auto simp: unf Let_def split: if_splits)
  then obtain v where v: "checkedTextValue f spec (peek_tok ts) = Inr v"
    using "1.prems"(1) by (auto simp: unf Let_def split: sum.splits)
  then have idem: "checkedTextValue f spec (mk_token STRING v 0) = Inr v"
    by (rule checkedTextValue_idem) simp
  from "1.prems"(1) str v have len: "length (vs @ [v]) \<le> maxInItems limits"
    by (auto simp: unf Let_def split: if_splits)
  note ts1 = eof_terminated_next [OF "1.prems"(2)]
  have ok1: "list_ok limits f spec (vs @ [v])" using "1.prems"(3) idem len by (simp add: list_ok_def)
  let ?ts1 = "next_tok ts"
  show ?case
  proof (cases "tok_type (peek_tok ?ts1) = COMMA")
    case True
    then have "parseListItems limits f spec (vs @ [v]) (next_tok ?ts1) = Inr (ws, us)"
      using "1.prems"(1) str v len by (simp add: unf Let_def)
    moreover have e2: "eof_terminated (next_tok ?ts1) \<and> Suc (length (next_tok ?ts1)) = length ?ts1"
      using eof_terminated_next [of ?ts1] ts1 str True by simp
    ultimately show ?thesis
      using "1.IH" [OF refl _ v refl refl refl] ok1 str len True ts1 by fastforce
  next
    case False
    then have "tok_type (peek_tok ?ts1) = RPAREN" "ws = vs @ [v]" "us = next_tok ?ts1"
      using "1.prems"(1) str v len by (auto simp: unf Let_def split: if_splits)
    then show ?thesis using eof_terminated_next [of ?ts1] ts1 str ok1 by auto
  qed
qed

end
