(* ===== verification/DslParserFacts.thy ===== *)
theory DslParserFacts
  imports DslParser
begin

text \<open>
  Totality and soundness of the parser of \<open>DslParser\<close>. \<open>parse_ok\<close> is the postcondition of a parsing
  function: it consumes at least one token, restores the parenthesis depth, counts each condition of the
  tree it returns, and returns a well-formed tree within the limits. One induction on the fuel shows
  that with five units of fuel per remaining token each function returns and meets it.
\<close>

section \<open>Postconditions\<close>

definition parse_ok :: "(string \<Rightarrow> bool) \<Rightarrow> search_limits \<Rightarrow> nat \<Rightarrow> parser \<Rightarrow> (ast \<times> parser) dsl \<Rightarrow> bool" where
  "parse_ok dk lm k p r =
     (case r of
        Inl e \<Rightarrow> True
      | Inr (a, p') \<Rightarrow>
          eof_terminated (rest p') \<and> length (rest p') < length (rest p) \<and> depth p' = depth p \<and>
          conditionCount p' = conditionCount p + ncond a \<and> 1 \<le> ncond a \<and> conditionCount p' \<le> maxConditions lm \<and>
          wf_ast dk lm a \<and> depth p + paren_depth k a \<le> maxParenthesesDepth lm)"

definition loop_ok ::
    "(string \<Rightarrow> bool) \<Rightarrow> search_limits \<Rightarrow> nat \<Rightarrow> ast list \<Rightarrow> parser \<Rightarrow> (ast \<times> parser) dsl \<Rightarrow> bool" where
  "loop_ok dk lm k cs p r =
     (case r of
        Inl e \<Rightarrow> True
      | Inr (a, p') \<Rightarrow>
          eof_terminated (rest p') \<and> length (rest p') \<le> length (rest p) \<and> depth p' = depth p \<and>
          conditionCount p' + sum_list (map ncond cs) = conditionCount p + ncond a \<and>
          sum_list (map ncond cs) \<le> ncond a \<and> conditionCount p' \<le> maxConditions lm \<and>
          wf_ast dk lm a \<and> depth p + paren_depth k a \<le> maxParenthesesDepth lm)"

definition children_ok :: "(string \<Rightarrow> bool) \<Rightarrow> search_limits \<Rightarrow> nat \<Rightarrow> nat \<Rightarrow> ast list \<Rightarrow> bool" where
  "children_ok dk lm k d cs \<longleftrightarrow>
     cs \<noteq> [] \<and> list_all (wf_ast dk lm) cs \<and>
     list_all (\<lambda>c. d + paren_depth k c \<le> maxParenthesesDepth lm) cs"

definition entry_ok :: "search_limits \<Rightarrow> parser \<Rightarrow> bool" where
  "entry_ok lm p \<longleftrightarrow> eof_terminated (rest p) \<and> depth p \<le> maxParenthesesDepth lm"

lemma parse_ok_Inl [simp]: "parse_ok dk lm k p (Inl e)" "loop_ok dk lm k cs p (Inl e)"
  by (simp_all add: parse_ok_def loop_ok_def)

lemma parse_ok_fail [simp]: "parse_ok dk lm k p (dsl_fail c i)" "parse_ok dk lm k p (dsl_fail_at c i f)"
  by (simp_all add: dsl_fail_def dsl_fail_at_def)

section \<open>Conditions\<close>

lemma keyword_next:
  assumes "isKeyword (peek p) w" "entry_ok lm p"
  shows "entry_ok lm (advance p) \<and> Suc (length (next_tok (rest p))) = length (rest p)"
  using assms eof_terminated_next [of "rest p"] by (simp add: isKeyword_def entry_ok_def peek_def)

lemma expectString_ok:
  "expectString p f = Inr (tok, p') \<Longrightarrow> eof_terminated (rest p) \<Longrightarrow>
   p' = advance p \<and> tok_type tok = STRING \<and> eof_terminated (rest p') \<and> length (rest p') < length (rest p)"
  using eof_terminated_next [of "rest p"]
  by (auto simp: expectString_def Let_def peek_def dsl_fail_at_def split: if_splits)

lemma expectDate_ok:
  assumes "expectDate dk p f = Inr (d, p')" "eof_terminated (rest p)"
  shows "parseDateLiteral dk (date_display d) f 0 = Inr d \<and> p' = advance p \<and>
    eof_terminated (rest p') \<and> length (rest p') < length (rest p)"
proof -
  obtain tok where "expectString p f = Inr (tok, p')"
      "parseDateLiteral dk (tok_value tok) f (tok_position tok) = Inr d"
    using assms(1) by (auto simp: expectDate_def split: sum.splits)
  then show ?thesis using expectString_ok [of p f tok p'] assms(2) parseDateLiteral_idem by blast
qed

text \<open>What the four condition forms promise, given the field, the operator and a counted state.\<close>

definition cond_ok :: "(string \<Rightarrow> bool) \<Rightarrow> search_limits \<Rightarrow> parser \<Rightarrow> (ast \<times> parser) dsl \<Rightarrow> bool" where
  "cond_ok dk lm p r =
     (case r of
        Inl e \<Rightarrow> True
      | Inr (a, p') \<Rightarrow> (\<exists>c. a = CondNode c \<and> wf_condition dk lm c) \<and> eof_terminated (rest p') \<and>
          length (rest p') < length (rest p) \<and> depth p' = depth p \<and> conditionCount p' = conditionCount p)"

lemma parseScalarCondition_ok:
  assumes "eof_terminated (rest p)" "getFieldSpec f = Some spec" "opr \<in> set (spec_operators spec)"
    "opr \<notin> set LIST_OPERATORS" "opr \<notin> set DATE_OPERATORS"
  shows "cond_ok dk lm p (parseScalarCondition p f spec opr)"
proof (cases "parseScalarCondition p f spec opr")
  case (Inr r)
  then obtain tok p1 v where tok: "expectString p f = Inr (tok, p1)" and v: "scalarValue f spec tok = Inr v"
    and r: "r = (CondNode (ValueCondition f (spec_kind spec) opr [v]), p1)"
    by (auto simp: parseScalarCondition_def split: sum.splits)
  from scalarValue_idem [OF assms(2) v, of "mk_token STRING v 0"]
  have "scalarValue f spec (mk_token STRING v 0) = Inr v" by simp
  then show ?thesis using Inr r expectString_ok [OF tok assms(1)] assms
    by (auto simp: cond_ok_def wf_condition_def)
qed (simp add: cond_ok_def)

lemma parseDateCondition_ok:
  assumes "eof_terminated (rest p)" "getFieldSpec f = Some spec" "opr \<in> set (spec_operators spec)"
    "opr = ''before'' \<or> opr = ''after''"
  shows "cond_ok dk lm p (parseDateCondition dk p f opr)"
proof (cases "expectDate dk p f")
  case (Inr r)
  then obtain d p' where "expectDate dk p f = Inr (d, p')" by (cases r) auto
  from expectDate_ok [OF this assms(1)] this show ?thesis using assms
    by (auto simp: parseDateCondition_def cond_ok_def wf_condition_def DATE_OPERATORS_def)
qed (simp add: cond_ok_def parseDateCondition_def)

lemma parseBetweenCondition_ok:
  assumes "eof_terminated (rest p)" "getFieldSpec f = Some spec" "''between'' \<in> set (spec_operators spec)"
  shows "cond_ok dk lm p (parseBetweenCondition dk p f ''between'')"
proof (cases "parseBetweenCondition dk p f ''between''")
  case (Inr r)
  then obtain d1 p1 d2 p2 where 1: "expectDate dk p f = Inr (d1, p1)" "isKeyword (peek p1) ''and''"
      "expectDate dk (advance p1) f = Inr (d2, p2)"
      and r: "r = (CondNode (DateCondition f ''between'' [d1, d2]), p2)"
    by (auto simp: parseBetweenCondition_def dsl_fail_at_def split: sum.splits if_splits)
  note a = expectDate_ok [OF 1(1) assms(1)]
  then have n: "eof_terminated (next_tok (rest p1)) \<and> length (next_tok (rest p1)) < length (rest p1)"
    using eof_terminated_next [of "rest p1"] 1(2) by (auto simp: isKeyword_def peek_def)
  then have "eof_terminated (rest (advance p1))" by simp
  from expectDate_ok [OF 1(3) this] a n Inr r show ?thesis using assms
    by (auto simp: cond_ok_def wf_condition_def DATE_OPERATORS_def)
qed (simp add: cond_ok_def)

lemma parseListCondition_ok:
  assumes "eof_terminated (rest p)" "getFieldSpec f = Some spec" "opr \<in> set (spec_operators spec)"
    "opr \<in> set LIST_OPERATORS"
  shows "cond_ok dk lm p (parseListCondition lm p f spec opr)"
proof (cases "parseListCondition lm p f spec opr")
  case (Inr r)
  then obtain vs ts where l: "tok_type (peek p) = LPAREN"
      "parseListItems lm f spec [] (rest (advance p)) = Inr (vs, ts)"
      and r: "r = (CondNode (ValueCondition f (spec_kind spec) opr vs), (advance p)\<lparr>rest := ts\<rparr>)"
    by (auto simp: parseListCondition_def dsl_fail_at_def Let_def split: sum.splits if_splits)
  have n: "eof_terminated (rest (advance p)) \<and> length (rest (advance p)) < length (rest p)"
    using eof_terminated_next [of "rest p"] l(1) assms(1) by (auto simp: peek_def)
  have "opr \<notin> set DATE_OPERATORS" using assms(4) by (auto simp: LIST_OPERATORS_def DATE_OPERATORS_def)
  with parseListItems_sound [OF l(2)] n Inr r show ?thesis using assms
    by (auto simp: cond_ok_def wf_condition_def list_ok_def)
qed (simp add: cond_ok_def)

lemma parse_ok_of_cond:
  assumes "cond_ok dk lm q r" "length (rest q) \<le> length (rest p)" "depth q = depth p"
    "conditionCount q = Suc (conditionCount p)" "conditionCount q \<le> maxConditions lm" "depth p \<le> maxParenthesesDepth lm"
  shows "parse_ok dk lm k p r"
  using assms by (auto simp: cond_ok_def parse_ok_def split: sum.splits)

lemma parseCondition_ok:
  assumes "entry_ok lm p"
  shows "parse_ok dk lm k p (parseCondition dk lm p)"
proof -
  let ?q = "(advance (advance p))\<lparr>conditionCount := conditionCount p + 1\<rparr>"
  let ?opr = "js_lower (tok_value (peek (advance p)))"
  show ?thesis
  proof (cases "tok_type (peek p) = IDENT \<and> js_lower (tok_value (peek p)) \<notin> set LOGICAL_KEYWORDS \<and>
      tok_type (peek (advance p)) = IDENT \<and> conditionCount p + 1 \<le> maxConditions lm")
    case False
    then show ?thesis by (auto simp: parseCondition_def Let_def split: option.splits)
  next
    case True
    have n1: "eof_terminated (rest (advance p))" "Suc (length (rest (advance p))) = length (rest p)"
      using True assms eof_terminated_next [of "rest p"] by (auto simp: entry_ok_def peek_def)
    then have q: "eof_terminated (rest ?q)" "length (rest ?q) \<le> length (rest p)"
      using True eof_terminated_next [of "rest (advance p)"] by (auto simp: peek_def)
    have step: "cond_ok dk lm ?q r \<Longrightarrow> parse_ok dk lm k p r" for r
      using parse_ok_of_cond [of dk lm ?q r p k] q(2) True assms by (simp add: entry_ok_def)
    show ?thesis
    proof (cases "\<exists>f spec. canonicalFieldName (tok_value (peek p)) = Some f \<and> getFieldSpec f = Some spec \<and>
        ?opr \<in> set (spec_operators spec)")
      case False
      then show ?thesis using True by (auto simp: parseCondition_def Let_def split: option.splits)
    next
      case ex: True
      then obtain f spec where f: "canonicalFieldName (tok_value (peek p)) = Some f" "getFieldSpec f = Some spec"
          "?opr \<in> set (spec_operators spec)" by blast
      have "cond_ok dk lm ?q (parseCondition dk lm p)"
        using True f q parseListCondition_ok [OF q(1) f(2,3)] parseDateCondition_ok [OF q(1) f(2,3)]
          parseBetweenCondition_ok [OF q(1) f(2)] parseScalarCondition_ok [OF q(1) f(2,3)]
        by (auto simp: parseCondition_def Let_def LIST_OPERATORS_def DATE_OPERATORS_def)
      then show ?thesis by (rule step)
    qed
  qed
qed

section \<open>The logical structure\<close>

lemma parse_okD:
  "parse_ok dk lm k p (Inr (a, p')) \<Longrightarrow> entry_ok lm p \<Longrightarrow>
   entry_ok lm p' \<and> length (rest p') < length (rest p) \<and> depth p' = depth p \<and> conditionCount p' \<le> maxConditions lm"
  by (auto simp: parse_ok_def entry_ok_def)

text \<open>The first operand opens a loop; each further operand extends it; the loop builds the node.\<close>

lemma loop_open:
  assumes "parse_ok dk lm (Suc k) p (Inr (a, p1))" "loop_ok dk lm k [a] p1 r"
  shows "parse_ok dk lm k p r"
  using assms by (auto simp: parse_ok_def loop_ok_def split: sum.splits)

lemma loop_extend:
  assumes "parse_ok dk lm j p (Inr (c, p1))" "loop_ok dk lm k (cs @ [c]) p1 r"
    "length (rest p) \<le> length (rest q)" "depth p = depth q" "conditionCount p = conditionCount q"
  shows "loop_ok dk lm k cs q r"
  using assms by (auto simp: parse_ok_def loop_ok_def split: sum.splits)

lemma children_ok_open:
  "parse_ok dk lm (Suc k) p (Inr (a, p1)) \<Longrightarrow> children_ok dk lm k (depth p) [a]"
  using paren_depth_mono [of k "Suc k" a] by (auto simp: parse_ok_def children_ok_def)

lemma children_ok_extend:
  "children_ok dk lm k (depth p) cs \<Longrightarrow> parse_ok dk lm (Suc k) p (Inr (c, p1)) \<Longrightarrow>
   children_ok dk lm k (depth p) (cs @ [c])"
  using children_ok_open [of dk lm k p c p1] by (auto simp: children_ok_def)

lemma children_Max:
  assumes "children_ok dk lm k d cs"
  shows "d + Max (insert 0 (set (map (paren_depth k) cs))) \<le> maxParenthesesDepth lm"
proof -
  from assms have all: "\<forall>c \<in> set cs. d + paren_depth k c \<le> maxParenthesesDepth lm"
    by (simp add: children_ok_def list_all_iff)
  with assms have d: "d \<le> maxParenthesesDepth lm" by (cases cs) (auto simp: children_ok_def)
  have "Max (insert 0 (set (map (paren_depth k) cs))) \<le> maxParenthesesDepth lm - d"
    using all by (intro paren_depth_children) force
  then show ?thesis using d by linarith
qed

text \<open>
  The two levels of binary operators have the same shape: an operand of the next level, then a loop
  that reads the keyword and one more operand. The contract is stated and discharged once.
\<close>

definition returns_ok ::
    "(string \<Rightarrow> bool) \<Rightarrow> search_limits \<Rightarrow> nat \<Rightarrow> nat \<Rightarrow> (nat \<Rightarrow> parser \<Rightarrow> (ast \<times> parser) dsl option) \<Rightarrow> nat \<Rightarrow> bool" where
  "returns_ok dk lm k c g f \<longleftrightarrow>
     (\<forall>p. entry_ok lm p \<longrightarrow> 5 * length (rest p) + c \<le> f \<longrightarrow> (\<exists>r. g f p = Some r \<and> parse_ok dk lm k p r))"

definition loop_returns_ok ::
    "(string \<Rightarrow> bool) \<Rightarrow> search_limits \<Rightarrow> nat \<Rightarrow> nat \<Rightarrow> (nat \<Rightarrow> ast list \<Rightarrow> parser \<Rightarrow> (ast \<times> parser) dsl option) \<Rightarrow> nat \<Rightarrow> bool"
  where
  "loop_returns_ok dk lm k c g f \<longleftrightarrow>
     (\<forall>p cs. entry_ok lm p \<longrightarrow> 5 * length (rest p) + c \<le> f \<longrightarrow> children_ok dk lm k (depth p) cs \<longrightarrow>
        conditionCount p \<le> maxConditions lm \<longrightarrow> (\<exists>r. g f cs p = Some r \<and> loop_ok dk lm k cs p r))"

lemma returns_okE:
  assumes "returns_ok dk lm k c g f" "entry_ok lm p" "5 * length (rest p) + c \<le> f"
  obtains r where "g f p = Some r" "parse_ok dk lm k p r"
  using assms by (auto simp: returns_ok_def)

lemma loop_returns_okE:
  assumes "loop_returns_ok dk lm k c g f" "entry_ok lm p" "5 * length (rest p) + c \<le> f"
    "children_ok dk lm k (depth p) cs" "conditionCount p \<le> maxConditions lm"
  obtains r where "g f cs p = Some r" "loop_ok dk lm k cs p r"
  using assms by (auto simp: loop_returns_ok_def)

locale binary_level =
  fixes dk :: "string \<Rightarrow> bool" and lm :: search_limits and k c :: nat and kw :: string
    and node :: "ast list \<Rightarrow> ast"
    and sub :: "nat \<Rightarrow> parser \<Rightarrow> (ast \<times> parser) dsl option"
    and loop :: "nat \<Rightarrow> ast list \<Rightarrow> parser \<Rightarrow> (ast \<times> parser) dsl option"
    and outer :: "nat \<Rightarrow> parser \<Rightarrow> (ast \<times> parser) dsl option"
  assumes outer_Suc: "outer (Suc f) p =
      (case sub f p of None \<Rightarrow> None | Some (Inl e) \<Rightarrow> Some (Inl e) | Some (Inr (left, p1)) \<Rightarrow> loop f [left] p1)"
    and loop_Suc: "loop (Suc f) cs p =
      (if isKeyword (peek p) kw
       then (case sub f (advance p) of
               None \<Rightarrow> None | Some (Inl e) \<Rightarrow> Some (Inl e) | Some (Inr (a, p1)) \<Rightarrow> loop f (cs @ [a]) p1)
       else Some (Inr (if length cs = 1 then hd cs else node cs, p)))"
    and node_ncond: "ncond (node cs) = sum_list (map ncond cs)"
    and node_wf: "wf_ast dk lm (node cs) \<longleftrightarrow> 2 \<le> length cs \<and> list_all (wf_ast dk lm) cs"
    and node_paren_depth: "paren_depth k (node cs) = Max (insert 0 (set (map (paren_depth k) cs)))"
begin

lemma loop_close:
  assumes "children_ok dk lm k (depth p) cs" "entry_ok lm p" "conditionCount p \<le> maxConditions lm"
  shows "loop_ok dk lm k cs p (Inr (if length cs = 1 then hd cs else node cs, p))"
proof (cases "length cs = 1")
  case True
  then obtain a where "cs = [a]" by (cases cs) auto
  then show ?thesis using assms by (auto simp: loop_ok_def children_ok_def entry_ok_def)
next
  case False
  then have "2 \<le> length cs" using assms(1) by (cases cs) (auto simp: children_ok_def Suc_le_eq)
  then show ?thesis using False assms children_Max [OF assms(1)]
    by (auto simp: loop_ok_def children_ok_def entry_ok_def node_ncond node_wf node_paren_depth)
qed

lemma outer_step:
  assumes sub: "returns_ok dk lm (Suc k) c sub f" and loop: "loop_returns_ok dk lm k (Suc c) loop f"
  shows "returns_ok dk lm k (Suc c) outer (Suc f)"
  unfolding returns_ok_def
proof (intro allI impI)
  fix p assume e: "entry_ok lm p" and fu: "5 * length (rest p) + Suc c \<le> Suc f"
  then obtain r where r: "sub f p = Some r" "parse_ok dk lm (Suc k) p r"
    using returns_okE [OF sub e] by auto
  show "\<exists>r. outer (Suc f) p = Some r \<and> parse_ok dk lm k p r"
  proof (cases r)
    case (Inr ap)
    then obtain a p1 where ap: "r = Inr (a, p1)" by (cases ap) auto
    with r have ok: "parse_ok dk lm (Suc k) p (Inr (a, p1))" by simp
    note d = parse_okD [OF ok e]
    have "children_ok dk lm k (depth p1) [a]" using children_ok_open [OF ok] d by simp
    with d fu obtain r' where "loop f [a] p1 = Some r'" "loop_ok dk lm k [a] p1 r'"
      using loop_returns_okE [OF loop, of p1 "[a]"] by auto
    then show ?thesis using r ap loop_open [OF ok] by (simp add: outer_Suc)
  qed (use r in \<open>simp add: outer_Suc\<close>)
qed

lemma loop_step:
  assumes sub: "returns_ok dk lm (Suc k) c sub f" and loop: "loop_returns_ok dk lm k (Suc c) loop f"
  shows "loop_returns_ok dk lm k (Suc c) loop (Suc f)"
  unfolding loop_returns_ok_def
proof (intro allI impI)
  fix p cs assume e: "entry_ok lm p" and fu: "5 * length (rest p) + Suc c \<le> Suc f"
    and cs: "children_ok dk lm k (depth p) cs" and cc: "conditionCount p \<le> maxConditions lm"
  show "\<exists>r. loop (Suc f) cs p = Some r \<and> loop_ok dk lm k cs p r"
  proof (cases "isKeyword (peek p) kw")
    case True
    note n = keyword_next [OF True e]
    with fu obtain r where r: "sub f (advance p) = Some r" "parse_ok dk lm (Suc k) (advance p) r"
      using returns_okE [OF sub, of "advance p"] by auto
    show ?thesis
    proof (cases r)
      case (Inr ap)
      then obtain a p1 where ap: "r = Inr (a, p1)" by (cases ap) auto
      with r have ok: "parse_ok dk lm (Suc k) (advance p) (Inr (a, p1))" by simp
      have d: "entry_ok lm p1" "length (rest p1) < length (rest p)" "depth p1 = depth p"
          "conditionCount p1 \<le> maxConditions lm"
        using parse_okD [OF ok] n by auto
      have "children_ok dk lm k (depth p1) (cs @ [a])"
        using children_ok_extend [OF _ ok, of cs] cs d by simp
      with d fu obtain r' where "loop f (cs @ [a]) p1 = Some r'" "loop_ok dk lm k (cs @ [a]) p1 r'"
        using loop_returns_okE [OF loop, of p1 "cs @ [a]"] by auto
      then show ?thesis using r ap True loop_extend [OF ok, of k cs r' p] n by (simp add: loop_Suc)
    qed (use r True in \<open>simp add: loop_Suc\<close>)
  next
    case False
    then show ?thesis using loop_close [OF cs e cc] by (simp add: loop_Suc)
  qed
qed

end

interpretation or_level: binary_level dk lm 1 3 "''or''" OrNode "parseAnd dk lm" "orLoop dk lm" "parseOr dk lm"
  for dk lm by unfold_locales (simp_all split: option.split sum.split prod.split)

interpretation and_level: binary_level dk lm 2 2 "''and''" AndNode "parseNot dk lm" "andLoop dk lm" "parseAnd dk lm"
  for dk lm by unfold_locales (simp_all split: option.split sum.split prod.split)

lemma not_step:
  assumes N: "returns_ok dk lm 3 2 (parseNot dk lm) f" and P: "returns_ok dk lm 3 1 (parsePrimary dk lm) f"
  shows "returns_ok dk lm 3 2 (parseNot dk lm) (Suc f)"
  unfolding returns_ok_def
proof (intro allI impI)
  fix p assume e: "entry_ok lm p" and fu: "5 * length (rest p) + 2 \<le> Suc f"
  show "\<exists>r. parseNot dk lm (Suc f) p = Some r \<and> parse_ok dk lm 3 p r"
  proof (cases "isKeyword (peek p) ''not''")
    case True
    note n = keyword_next [OF True e]
    with fu obtain r where "parseNot dk lm f (advance p) = Some r" "parse_ok dk lm 3 (advance p) r"
      using returns_okE [OF N, of "advance p"] by auto
    then show ?thesis using True n by (auto simp: parse_ok_def split: sum.splits)
  next
    case False
    then show ?thesis using returns_okE [OF P e] fu by auto
  qed
qed

lemma primary_step:
  assumes O: "returns_ok dk lm 1 4 (parseOr dk lm) f"
  shows "returns_ok dk lm 3 1 (parsePrimary dk lm) (Suc f)"
  unfolding returns_ok_def
proof (intro allI impI)
  fix p assume e: "entry_ok lm p" and fu: "5 * length (rest p) + 1 \<le> Suc f"
  show "\<exists>r. parsePrimary dk lm (Suc f) p = Some r \<and> parse_ok dk lm 3 p r"
  proof (cases "tok_type (peek p) = LPAREN \<and> depth p + 1 \<le> maxParenthesesDepth lm")
    case True
    let ?p1 = "advance (p\<lparr>depth := depth p + 1\<rparr>)"
    have n: "entry_ok lm ?p1" "Suc (length (rest ?p1)) = length (rest p)"
      using True e eof_terminated_next [of "rest p"] by (auto simp: entry_ok_def peek_def)
    with fu obtain r where r: "parseOr dk lm f ?p1 = Some r" "parse_ok dk lm 1 ?p1 r"
      using returns_okE [OF O n(1)] by auto
    show ?thesis
    proof (cases r)
      case (Inr ap)
      then obtain a p2 where ap: "r = Inr (a, p2)" by (cases ap) auto
      have e2: "eof_terminated (rest p2)" using r ap by (simp add: parse_ok_def)
      show ?thesis
      proof (cases "tok_type (peek p2) = RPAREN")
        case rp: True
        then have "eof_terminated (next_tok (rest p2)) \<and> length (next_tok (rest p2)) < length (rest p2)"
          using e2 eof_terminated_next [of "rest p2"] by (auto simp: peek_def)
        then show ?thesis using True r ap rp n paren_depth_mono [of 1 3 a]
          by (auto simp: parse_ok_def Let_def)
      qed (use True r ap in \<open>simp add: Let_def\<close>)
    qed (use True r in \<open>simp add: Let_def\<close>)
  next
    case False
    then show ?thesis using parseCondition_ok [OF e] by (auto simp: Let_def)
  qed
qed

text \<open>Five units of fuel per token, plus the height of the call chain down to a primary expression.\<close>

lemma parser_total:
  "returns_ok dk lm 1 4 (parseOr dk lm) f \<and> loop_returns_ok dk lm 1 4 (orLoop dk lm) f \<and>
   returns_ok dk lm 2 3 (parseAnd dk lm) f \<and> loop_returns_ok dk lm 2 3 (andLoop dk lm) f \<and>
   returns_ok dk lm 3 2 (parseNot dk lm) f \<and> returns_ok dk lm 3 1 (parsePrimary dk lm) f"
proof (induction f)
  case 0
  then show ?case by (simp add: returns_ok_def loop_returns_ok_def)
next
  case (Suc f)
  then show ?case
    using or_level.outer_step [of dk lm f] or_level.loop_step [of dk lm f]
      and_level.outer_step [of dk lm f] and_level.loop_step [of dk lm f] not_step primary_step
    by (simp add: numeral_2_eq_2 numeral_3_eq_3 eval_nat_numeral)
qed

lemma parseTokens_cases:
  assumes "eof_terminated ts"
  obtains (fail) e where "parseTokens dk lm ts = Some (Inl e)"
  | (tree) a where "parseTokens dk lm ts = Some (Inr a)" "wf_ast dk lm a" "1 \<le> ncond a"
      "ncond a \<le> maxConditions lm" "paren_depth 1 a \<le> maxParenthesesDepth lm"
proof -
  let ?p = "\<lparr>rest = ts, conditionCount = 0, depth = 0\<rparr>"
  have "entry_ok lm ?p" using assms by (simp add: entry_ok_def)
  moreover have "returns_ok dk lm 1 4 (parseOr dk lm) (parse_fuel ts)" using parser_total by blast
  ultimately obtain r where "parseOr dk lm (parse_fuel ts) ?p = Some r" "parse_ok dk lm 1 ?p r"
    by (elim returns_okE [of dk lm 1 4 "parseOr dk lm" _ ?p]) (auto simp: parse_fuel_def)
  then show thesis
    by (cases "\<exists>e. parseTokens dk lm ts = Some (Inl e)")
      (auto simp: parseTokens_def Let_def parse_ok_def dsl_fail_def intro: fail tree split: sum.splits if_splits)
qed

section \<open>The parser on query text\<close>

lemma parseDsl_accepted:
  assumes "parseDsl date_ok limits input = Some (Inr a)"
  shows "wf_ast date_ok limits a \<and> 1 \<le> ncond a \<and> ncond a \<le> maxConditions limits \<and>
    paren_depth 1 a \<le> maxParenthesesDepth limits"
proof -
  obtain ts where ts: "tokenize input = Inr ts" "parseTokens date_ok limits ts = Some (Inr a)"
    using assms by (auto simp: parseDsl_def split: sum.splits)
  then have "eof_terminated ts" using tokenize_from_eof by (simp add: tokenize_def)
  then show ?thesis using ts(2) by (cases rule: parseTokens_cases [of ts date_ok limits]) auto
qed

text \<open>C39: parsing always returns. On every input string the scanner and the parser end with an AST or
  with a DSL error; the fuel of the model never runs out, so the mutual recursion of
  \<open>parseOr/parseAnd/parseNot/parsePrimary\<close> terminates on every query.\<close>

theorem parseDsl_returns: "\<exists>r. parseDsl date_ok limits input = Some r"
proof (cases "tokenize input")
  case (Inr ts)
  then have "eof_terminated ts" using tokenize_from_eof by (simp add: tokenize_def)
  then show ?thesis using Inr by (cases rule: parseTokens_cases [of ts date_ok limits]) (auto simp: parseDsl_def)
qed (simp add: parseDsl_def)

text \<open>C30: an accepted query is a well-formed tree within the configured limits: every condition names a
  field of the registry with an operator that the field supports and values that passed that field's
  validation, AND and OR nodes have at least two operands, the number of conditions is between 1 and
  \<open>maxConditions\<close>, every list has at most \<open>maxInItems\<close> items, and the parenthesis nesting
  is at most \<open>maxParenthesesDepth\<close>.\<close>

theorem parseDsl_sound:
  assumes "parseDsl date_ok limits input = Some (Inr a)"
  shows "wf_ast date_ok limits a \<and> 1 \<le> ncond a \<and> ncond a \<le> maxConditions limits \<and>
    paren_depth 1 a \<le> maxParenthesesDepth limits"
  using assms by (rule parseDsl_accepted)

definition sample_limits :: search_limits where
  "sample_limits = \<lparr>maxQueryLength = 4000, maxConditions = 30, maxParenthesesDepth = 8, maxInItems = 100\<rparr>"

definition sample_query :: string where
  "sample_query = ''Tag in (\"a\", \"b\") or not (ioc contains \"evil\" and source equals \"x\")''"

definition sample_ast :: ast where
  "sample_ast =
     OrNode [CondNode (ValueCondition ''tag'' KText ''in'' [''a'', ''b'']),
       NotNode (AndNode [CondNode (ValueCondition ''ioc'' KText ''contains'' [''evil'']),
         CondNode (ValueCondition ''source'' KText ''equals'' [''x''])])]"

lemma parseDsl_sample: "parseDsl (\<lambda>_. True) sample_limits sample_query = Some (Inr sample_ast)"
  by code_simp

theorem parseDsl_sound_witness:
  "wf_ast (\<lambda>_. True) sample_limits sample_ast \<and> 1 \<le> ncond sample_ast \<and>
   ncond sample_ast \<le> maxConditions sample_limits \<and> paren_depth 1 sample_ast \<le> maxParenthesesDepth sample_limits"
  by (rule parseDsl_sound [OF parseDsl_sample])

end
