(* ===== verification/DslRender.thy ===== *)
theory DslRender
  imports DslParserFacts
begin

text \<open>
  The entry point of the IOC Search DSL (\<open>backend/lib/iocSearchDsl/index.js\<close>): the renderer that
  turns an AST into its canonical text, the relative-date test, the flat list of conditions for the
  user interface and \<open>parseSearchQuery\<close>. The main result is the round trip: the canonical text of an
  accepted query parses again, under the same limits, to the same tree up to the nesting of AND in
  AND and OR in OR, which the renderer writes without parentheses. The proof goes through the token list of a
  tree, \<open>node_toks\<close>: the text lexes to it, and each level of the parser reads it back.
\<close>

section \<open>Rendering\<close>

definition PREC_or :: nat where "PREC_or = 1"
definition PREC_and :: nat where "PREC_and = 2"
definition PREC_not :: nat where "PREC_not = 3"

lemmas prec_defs = PREC_or_def PREC_and_def PREC_not_def

text \<open>\<open>replace\<close> with a global one-character pattern.\<close>

definition replace_char :: "char \<Rightarrow> string \<Rightarrow> string \<Rightarrow> string" where
  "replace_char c r s = concat (map (\<lambda>x. if x = c then r else [x]) s)"

definition quote :: "string \<Rightarrow> string" where
  "quote v =
     [DQUOTE] @ replace_char DQUOTE [BACKSLASH, DQUOTE] (replace_char BACKSLASH [BACKSLASH, BACKSLASH] v) @ [DQUOTE]"

text \<open>A value or a date that the node does not have (\<open>undefined\<close> in the source) is the empty string
  here; well-formed conditions have them.\<close>

definition nth_or_empty :: "string list \<Rightarrow> nat \<Rightarrow> string" where
  "nth_or_empty xs i = (if i < length xs then xs ! i else [])"

fun renderCondition :: "condition \<Rightarrow> string" where
  "renderCondition (ValueCondition field kind operator vs) =
     (if operator = ''in'' \<or> operator = ''not_in''
      then field @ '' '' @ operator @ '' ('' @ js_join '', '' (map quote vs) @ '')''
      else field @ '' '' @ operator @ '' '' @ quote (nth_or_empty vs 0))"
| "renderCondition (DateCondition field operator dates) =
     (let shown = map date_display dates
      in if operator = ''between''
         then field @ '' between '' @ quote (nth_or_empty shown 0) @ '' AND '' @ quote (nth_or_empty shown 1)
         else field @ '' '' @ operator @ '' '' @ quote (nth_or_empty shown 0))"

definition parenthesize :: "bool \<Rightarrow> string \<Rightarrow> string" where
  "parenthesize b txt = (if b then ''('' @ txt @ '')'' else txt)"

fun renderNode :: "ast \<Rightarrow> nat \<Rightarrow> string" where
  "renderNode (CondNode c) parentPrec = renderCondition c"
| "renderNode (NotNode child) parentPrec =
     parenthesize (PREC_not < parentPrec) (''NOT '' @ renderNode child PREC_not)"
| "renderNode (AndNode children) parentPrec =
     parenthesize (PREC_and < parentPrec) (js_join '' AND '' (map (\<lambda>c. renderNode c PREC_and) children))"
| "renderNode (OrNode children) parentPrec =
     parenthesize (PREC_or < parentPrec) (js_join '' OR '' (map (\<lambda>c. renderNode c PREC_or) children))"

definition renderNormalizedQuery :: "ast \<Rightarrow> string" where
  "renderNormalizedQuery a = renderNode a 0"

section \<open>Relative dates and flat conditions\<close>

definition is_relative :: "date_lit \<Rightarrow> bool" where
  "is_relative d = (case d of RelDate _ _ \<Rightarrow> True | AbsDate _ _ _ \<Rightarrow> False)"

fun astHasRelativeDate :: "ast \<Rightarrow> bool" where
  "astHasRelativeDate (CondNode (ValueCondition f k opr vs)) = False"
| "astHasRelativeDate (CondNode (DateCondition f opr ds)) = list_ex is_relative ds"
| "astHasRelativeDate (NotNode c) = astHasRelativeDate c"
| "astHasRelativeDate (AndNode cs) = list_ex astHasRelativeDate cs"
| "astHasRelativeDate (OrNode cs) = list_ex astHasRelativeDate cs"

record flat_condition =
  fc_field :: string
  fc_operator :: string
  fc_values :: "string list option"
  fc_dates :: "string list option"

definition flat_of :: "condition \<Rightarrow> flat_condition" where
  "flat_of c =
     (case c of
        ValueCondition f k opr vs \<Rightarrow> \<lparr>fc_field = f, fc_operator = opr, fc_values = Some vs, fc_dates = None\<rparr>
      | DateCondition f opr ds \<Rightarrow>
          \<lparr>fc_field = f, fc_operator = opr, fc_values = None, fc_dates = Some (map date_display ds)\<rparr>)"

text \<open>The source pushes onto one accumulator; the model threads it.\<close>

fun flattenConditions :: "ast \<Rightarrow> flat_condition list \<Rightarrow> flat_condition list" where
  "flattenConditions (CondNode c) acc = acc @ [flat_of c]"
| "flattenConditions (NotNode c) acc = flattenConditions c acc"
| "flattenConditions (AndNode cs) acc = foldl (\<lambda>a c. flattenConditions c a) acc cs"
| "flattenConditions (OrNode cs) acc = foldl (\<lambda>a c. flattenConditions c a) acc cs"

section \<open>parseSearchQuery\<close>

record search_query =
  sq_ast :: ast
  normalizedQuery :: string
  conditions :: "flat_condition list"

definition parseSearchQuery :: "(string \<Rightarrow> bool) \<Rightarrow> search_limits \<Rightarrow> string \<Rightarrow> search_query dsl option" where
  "parseSearchQuery date_ok limits raw =
     (if js_trim raw = [] then Some (dsl_fail ''empty_query'' 0)
      else if length raw > maxQueryLength limits then Some (dsl_fail ''max_length_exceeded'' 0)
      else case parseDsl date_ok limits raw of
        None \<Rightarrow> None
      | Some (Inl e) \<Rightarrow> Some (Inl e)
      | Some (Inr a) \<Rightarrow>
          Some (Inr \<lparr>sq_ast = a, normalizedQuery = renderNormalizedQuery a, conditions = flattenConditions a []\<rparr>))"

definition queryHasRelativeDate :: "(string \<Rightarrow> bool) \<Rightarrow> search_limits \<Rightarrow> string \<Rightarrow> bool" where
  "queryHasRelativeDate date_ok limits raw =
     (case parseSearchQuery date_ok limits raw of Some (Inr q) \<Rightarrow> astHasRelativeDate (sq_ast q) | _ \<Rightarrow> False)"

section \<open>Flattening\<close>

fun and_ops :: "ast \<Rightarrow> ast list" where
  "and_ops (AndNode cs) = concat (map and_ops cs)"
| "and_ops a = [a]"

fun or_ops :: "ast \<Rightarrow> ast list" where
  "or_ops (OrNode cs) = concat (map or_ops cs)"
| "or_ops a = [a]"

definition and_parts :: "ast \<Rightarrow> ast list" where
  "and_parts a = (case a of AndNode cs \<Rightarrow> cs | _ \<Rightarrow> [a])"

definition or_parts :: "ast \<Rightarrow> ast list" where
  "or_parts a = (case a of OrNode cs \<Rightarrow> cs | _ \<Rightarrow> [a])"

text \<open>\<open>flat\<close> merges an AND operand of an AND, and an OR operand of an OR, into its parent.\<close>

fun flat :: "ast \<Rightarrow> ast" where
  "flat (CondNode c) = CondNode c"
| "flat (NotNode a) = NotNode (flat a)"
| "flat (AndNode cs) = AndNode (concat (map (\<lambda>c. and_parts (flat c)) cs))"
| "flat (OrNode cs) = OrNode (concat (map (\<lambda>c. or_parts (flat c)) cs))"

text \<open>The meaning of a tree under a truth value for each condition.\<close>

fun eval_ast :: "(condition \<Rightarrow> bool) \<Rightarrow> ast \<Rightarrow> bool" where
  "eval_ast v (CondNode c) = v c"
| "eval_ast v (NotNode a) = (\<not> eval_ast v a)"
| "eval_ast v (AndNode cs) = list_all (eval_ast v) cs"
| "eval_ast v (OrNode cs) = list_ex (eval_ast v) cs"

lemma eval_parts:
  "list_all (eval_ast v) (and_parts a) = eval_ast v a" "list_ex (eval_ast v) (or_parts a) = eval_ast v a"
  by (cases a; simp add: and_parts_def or_parts_def)+

lemma eval_flat: "eval_ast v (flat a) = eval_ast v a"
proof (induction a)
  case (OrNode cs)
  then show ?case by (induction cs) (auto simp: eval_parts list_ex_iff[of _ "_ @ _"])
next
  case (AndNode cs)
  then show ?case by (induction cs) (auto simp: eval_parts)
qed auto

lemma and_parts_flat: "and_parts (flat a) = map flat (and_ops a)"
  by (induction a) (simp_all add: and_parts_def map_concat o_def cong: map_cong)

lemma or_parts_flat: "or_parts (flat a) = map flat (or_ops a)"
  by (induction a) (simp_all add: or_parts_def map_concat o_def cong: map_cong)

lemma flat_And: "flat (AndNode cs) = AndNode (map flat (and_ops (AndNode cs)))"
  by (simp add: and_parts_flat map_concat o_def)

lemma flat_Or: "flat (OrNode cs) = OrNode (map flat (or_ops (OrNode cs)))"
  by (simp add: or_parts_flat map_concat o_def)

text \<open>Operands of a well-formed tree: well-formed, as many conditions, no deeper.\<close>

lemma wf_ast_children:
  "wf_ast dk lm (AndNode cs) \<Longrightarrow> cs \<noteq> [] \<and> (\<forall>c \<in> set cs. wf_ast dk lm c)"
  "wf_ast dk lm (OrNode cs) \<Longrightarrow> cs \<noteq> [] \<and> (\<forall>c \<in> set cs. wf_ast dk lm c)"
  by (auto simp: list_all_iff)

lemma ops_nonempty: "wf_ast dk lm a \<Longrightarrow> and_ops a \<noteq> []" "wf_ast dk lm a \<Longrightarrow> or_ops a \<noteq> []"
proof -
  show "wf_ast dk lm a \<Longrightarrow> and_ops a \<noteq> []"
  proof (induction a)
    case (AndNode cs)
    then show ?case using wf_ast_children(1) [of dk lm cs] by (cases cs) auto
  qed auto
  show "wf_ast dk lm a \<Longrightarrow> or_ops a \<noteq> []"
  proof (induction a)
    case (OrNode cs)
    then show ?case using wf_ast_children(2) [of dk lm cs] by (cases cs) auto
  qed auto
qed

lemma ops_wf:
  "wf_ast dk lm a \<Longrightarrow> x \<in> set (and_ops a) \<Longrightarrow> wf_ast dk lm x"
  "wf_ast dk lm a \<Longrightarrow> x \<in> set (or_ops a) \<Longrightarrow> wf_ast dk lm x"
  by (induction a) (auto simp: list_all_iff)

lemma sum_list_concat_map: "sum_list (map f (concat (map g xs))) = sum_list (map (\<lambda>x. sum_list (map f (g x))) xs)"
  by (induction xs) auto

lemma ops_ncond: "sum_list (map ncond (and_ops a)) = ncond a" "sum_list (map ncond (or_ops a)) = ncond a"
  by (induction a) (simp_all add: sum_list_concat_map cong: map_cong)

lemma length_concat_ge: "(\<forall>c \<in> set cs. f c \<noteq> []) \<Longrightarrow> length cs \<le> length (concat (map f cs))"
proof (induction cs)
  case (Cons c cs)
  then have "1 \<le> length (f c)" by (cases "f c") auto
  then show ?case using Cons by auto
qed simp

lemma ops_length:
  "wf_ast dk lm (AndNode cs) \<Longrightarrow> 2 \<le> length (and_ops (AndNode cs))"
  "wf_ast dk lm (OrNode cs) \<Longrightarrow> 2 \<le> length (or_ops (OrNode cs))"
proof -
  assume wf: "wf_ast dk lm (AndNode cs)"
  then have "\<forall>c \<in> set cs. and_ops c \<noteq> []" using ops_nonempty wf_ast_children(1) by blast
  from length_concat_ge [OF this] wf show "2 \<le> length (and_ops (AndNode cs))" by simp
next
  assume wf: "wf_ast dk lm (OrNode cs)"
  then have "\<forall>c \<in> set cs. or_ops c \<noteq> []" using ops_nonempty wf_ast_children(2) by blast
  from length_concat_ge [OF this] wf show "2 \<le> length (or_ops (OrNode cs))" by simp
qed

lemma and_ops_depth: "x \<in> set (and_ops a) \<Longrightarrow> paren_depth 3 x \<le> paren_depth 2 a"
proof (induction a)
  case (AndNode cs)
  then obtain c where c: "c \<in> set cs" "paren_depth 3 x \<le> paren_depth 2 c" by auto
  from c(1) have "paren_depth 2 c \<le> Max (insert 0 (set (map (paren_depth 2) cs)))"
    by (intro Max_ge) auto
  with c(2) have "paren_depth 3 x \<le> Max (insert 0 (set (map (paren_depth 2) cs)))" by (rule order_trans)
  then show ?case by simp
qed auto

lemma or_ops_depth: "x \<in> set (or_ops a) \<Longrightarrow> paren_depth 2 x \<le> paren_depth 1 a"
proof (induction a)
  case (OrNode cs)
  then obtain c where c: "c \<in> set cs" "paren_depth 2 x \<le> paren_depth 1 c" by auto
  from c(1) have "paren_depth 1 c \<le> Max (insert 0 (set (map (paren_depth 1) cs)))"
    by (intro Max_ge) auto
  with c(2) have "paren_depth 2 x \<le> Max (insert 0 (set (map (paren_depth 1) cs)))" by (rule order_trans)
  then show ?case by simp
qed auto

lemma ops_size:
  "x \<in> set (and_ops a) \<Longrightarrow> size x \<le> size a" "x \<in> set (or_ops a) \<Longrightarrow> size x \<le> size a"
proof -
  show "x \<in> set (and_ops a) \<Longrightarrow> size x \<le> size a"
  proof (induction a)
    case (AndNode cs)
    then obtain c where "c \<in> set cs" "size x \<le> size c" by auto
    then show ?case using size_list_estimation' [of c cs "size x" size] by simp
  qed auto
  show "x \<in> set (or_ops a) \<Longrightarrow> size x \<le> size a"
  proof (induction a)
    case (OrNode cs)
    then obtain c where "c \<in> set cs" "size x \<le> size c" by auto
    then show ?case using size_list_estimation' [of c cs "size x" size] by simp
  qed auto
qed

lemma ops_smaller:
  "x \<in> set (and_ops (AndNode cs)) \<Longrightarrow> size x < size (AndNode cs)"
  "x \<in> set (or_ops (OrNode cs)) \<Longrightarrow> size x < size (OrNode cs)"
proof -
  assume "x \<in> set (and_ops (AndNode cs))"
  then obtain c where "c \<in> set cs" "size x \<le> size c" using ops_size by auto
  then show "size x < size (AndNode cs)" using size_list_estimation' [of c cs "size x" size] by simp
next
  assume "x \<in> set (or_ops (OrNode cs))"
  then obtain c where "c \<in> set cs" "size x \<le> size c" using ops_size by auto
  then show "size x < size (OrNode cs)" using size_list_estimation' [of c cs "size x" size] by simp
qed

section \<open>Tokens of a tree\<close>

type_synonym tok = "token_type \<times> string"

fun join_toks :: "tok \<Rightarrow> tok list list \<Rightarrow> tok list" where
  "join_toks sep [] = []"
| "join_toks sep (x # xs) = x @ concat (map (\<lambda>y. sep # y) xs)"

fun cond_toks :: "condition \<Rightarrow> tok list" where
  "cond_toks (ValueCondition f k opr vs) =
     (if opr = ''in'' \<or> opr = ''not_in''
      then [(IDENT, f), (IDENT, opr), (LPAREN, ''('')] @ join_toks (COMMA, '','') (map (\<lambda>v. [(STRING, v)]) vs) @ [(RPAREN, '')'')]
      else [(IDENT, f), (IDENT, opr), (STRING, nth_or_empty vs 0)])"
| "cond_toks (DateCondition f opr ds) =
     (let shown = map date_display ds
      in if opr = ''between''
         then [(IDENT, f), (IDENT, ''between''), (STRING, nth_or_empty shown 0), (IDENT, ''AND''), (STRING, nth_or_empty shown 1)]
         else [(IDENT, f), (IDENT, opr), (STRING, nth_or_empty shown 0)])"

definition paren_toks :: "bool \<Rightarrow> tok list \<Rightarrow> tok list" where
  "paren_toks b ts = (if b then [(LPAREN, ''('')] @ ts @ [(RPAREN, '')'')] else ts)"

fun node_toks :: "ast \<Rightarrow> nat \<Rightarrow> tok list" where
  "node_toks (CondNode c) k = cond_toks c"
| "node_toks (NotNode a) k = paren_toks (3 < k) ((IDENT, ''NOT'') # node_toks a 3)"
| "node_toks (AndNode cs) k = paren_toks (2 < k) (join_toks (IDENT, ''AND'') (map (\<lambda>c. node_toks c 2) cs))"
| "node_toks (OrNode cs) k = paren_toks (1 < k) (join_toks (IDENT, ''OR'') (map (\<lambda>c. node_toks c 1) cs))"

lemma join_toks_append:
  "xs \<noteq> [] \<Longrightarrow> ys \<noteq> [] \<Longrightarrow> join_toks sep (xs @ ys) = join_toks sep xs @ sep # join_toks sep ys"
  by (cases xs; cases ys) auto

lemma join_toks_concat:
  "(\<forall>c \<in> set cs. g c \<noteq> []) \<Longrightarrow>
   join_toks sep (map (\<lambda>c. join_toks sep (g c)) cs) = join_toks sep (concat (map g cs))"
proof (induction cs)
  case (Cons c cs)
  show ?case
  proof (cases cs)
    case (Cons d ds)
    with \<open>\<forall>c \<in> set (c # cs). g c \<noteq> []\<close> have "g c \<noteq> []" "concat (map g cs) \<noteq> []" by auto
    then have "join_toks sep (concat (map g (c # cs))) = join_toks sep (g c) @ sep # join_toks sep (concat (map g cs))"
      by (simp add: join_toks_append)
    moreover have "join_toks sep (map (\<lambda>c. join_toks sep (g c)) (c # cs)) =
        join_toks sep (g c) @ sep # join_toks sep (map (\<lambda>c. join_toks sep (g c)) cs)"
      using Cons by simp
    ultimately show ?thesis using Cons.IH Cons.prems by simp
  qed simp
qed simp

lemma node_toks_and: "wf_ast dk lm a \<Longrightarrow> node_toks a 2 = join_toks (IDENT, ''AND'') (map (\<lambda>x. node_toks x 3) (and_ops a))"
proof (induction a)
  case (AndNode cs)
  have "node_toks (AndNode cs) 2 = join_toks (IDENT, ''AND'') (map (\<lambda>c. join_toks (IDENT, ''AND'') (map (\<lambda>x. node_toks x 3) (and_ops c))) cs)"
    using AndNode by (simp add: paren_toks_def list_all_iff cong: map_cong)
  also have "\<dots> = join_toks (IDENT, ''AND'') (concat (map (\<lambda>c. map (\<lambda>x. node_toks x 3) (and_ops c)) cs))"
    using AndNode.prems ops_nonempty by (intro join_toks_concat) (auto simp: list_all_iff)
  finally show ?case by (simp add: map_concat o_def)
qed (auto simp: paren_toks_def)

lemma node_toks_or: "wf_ast dk lm a \<Longrightarrow> node_toks a 1 = join_toks (IDENT, ''OR'') (map (\<lambda>x. node_toks x 2) (or_ops a))"
proof (induction a)
  case (OrNode cs)
  have "node_toks (OrNode cs) 1 = join_toks (IDENT, ''OR'') (map (\<lambda>c. join_toks (IDENT, ''OR'') (map (\<lambda>x. node_toks x 2) (or_ops c))) cs)"
    using OrNode by (simp add: paren_toks_def list_all_iff cong: map_cong)
  also have "\<dots> = join_toks (IDENT, ''OR'') (concat (map (\<lambda>c. map (\<lambda>x. node_toks x 2) (or_ops c)) cs))"
    using OrNode.prems ops_nonempty by (intro join_toks_concat) (auto simp: list_all_iff)
  finally show ?case by (simp add: map_concat o_def)
qed (auto simp: paren_toks_def)

section \<open>The text lexes to the tokens\<close>

lemma quote_escape: "quote v = DQUOTE # concat (map escape_char v) @ [DQUOTE]"
proof -
  have "replace_char DQUOTE [BACKSLASH, DQUOTE] (replace_char BACKSLASH [BACKSLASH, BACKSLASH] v) =
      concat (map escape_char v)"
    by (induction v) (auto simp: replace_char_def escape_char_def)
  then show ?thesis by (simp add: quote_def)
qed

lemma lexes_quote: "lexes (quote v) [(STRING, v)]"
  using lexes_quoted [of v] by (simp add: quote_escape)

lemma plain_word_ident: "plain_word w \<Longrightarrow> lexes (w @ '' '') [(IDENT, w)]"
  by (rule lexes_ident)
    (auto simp: plain_word_def list_all_iff IDENT_START_def IDENT_CHAR_def is_alpha_def split: list.splits)

lemma lexes_keyword:
  "lexes ''NOT '' [(IDENT, ''NOT'')]" "lexes ''AND '' [(IDENT, ''AND'')]" "lexes ''OR '' [(IDENT, ''OR'')]"
  using lexes_ident [of "''NOT''"] lexes_ident [of "''AND''"] lexes_ident [of "''OR''"]
  by (simp_all add: IDENT_START_def IDENT_CHAR_def is_alpha_def is_upper_def)

lemma lexes_join:
  assumes "lexes sep [st]" "list_all2 lexes xs ks"
  shows "lexes (js_join sep xs) (join_toks st ks)"
  using assms
proof (induction sep xs arbitrary: ks rule: js_join.induct)
  case (3 sep x y xs)
  then obtain k l ls where ks: "ks = k # l # ls" "lexes x k" "list_all2 lexes (y # xs) (l # ls)"
    by (auto simp: list_all2_Cons1)
  have "lexes (x @ sep @ js_join sep (y # xs)) (k @ [st] @ join_toks st (l # ls))"
    using 3(1) [OF 3(2) ks(3)] 3(2) ks(2) by (intro lexes_append)
  then show ?case using ks by simp
qed (auto simp: list_all2_Cons1)

lemma lexes_comma_space: "lexes '', '' [(COMMA, '','')]"
  using lexes_append [OF lexes_comma lexes_space] by simp

lemma lexes_infix:
  "lexes '' AND '' [(IDENT, ''AND'')]" "lexes '' OR '' [(IDENT, ''OR'')]"
  using lexes_append [OF lexes_space lexes_keyword(2)] lexes_append [OF lexes_space lexes_keyword(3)] by simp_all

lemma lexes_value_cond:
  assumes "plain_word f" "plain_word opr"
  shows "lexes (f @ '' '' @ opr @ '' '' @ quote v) [(IDENT, f), (IDENT, opr), (STRING, v)]"
  using lexes_append [OF plain_word_ident [OF assms(1)] lexes_append [OF plain_word_ident [OF assms(2)] lexes_quote]]
  by simp

lemma lexes_list_cond:
  assumes "plain_word f" "plain_word opr"
  shows "lexes (f @ '' '' @ opr @ '' ('' @ js_join '', '' (map quote vs) @ '')'')
    ([(IDENT, f), (IDENT, opr), (LPAREN, ''('')] @ join_toks (COMMA, '','') (map (\<lambda>v. [(STRING, v)]) vs) @ [(RPAREN, '')'')])"
proof -
  have "lexes (js_join '', '' (map quote vs)) (join_toks (COMMA, '','') (map (\<lambda>v. [(STRING, v)]) vs))"
    by (intro lexes_join lexes_comma_space) (simp add: list.rel_map list_all2_same lexes_quote)
  from lexes_append [OF plain_word_ident [OF assms(1)] lexes_append [OF plain_word_ident [OF assms(2)]
    lexes_append [OF lexes_lparen lexes_append [OF this lexes_rparen]]]]
  show ?thesis by simp
qed

lemma lexes_between_cond:
  assumes "plain_word f"
  shows "lexes (f @ '' between '' @ quote v @ '' AND '' @ quote w)
    [(IDENT, f), (IDENT, ''between''), (STRING, v), (IDENT, ''AND''), (STRING, w)]"
proof -
  have "plain_word ''between''" by (simp add: plain_word_def is_lower_def is_digit_def)
  from lexes_append [OF plain_word_ident [OF assms] lexes_append [OF plain_word_ident [OF this]
    lexes_append [OF lexes_quote [of v] lexes_append [OF lexes_infix(1) lexes_quote [of w]]]]]
  show ?thesis by simp
qed

lemma wf_condition_words:
  assumes "wf_condition dk lm c"
  shows "plain_word (cond_field c) \<and> plain_word (cond_operator c)"
  using assms registry_field_chars registry_operator_chars
  by (cases c) (fastforce simp: wf_condition_def split: option.splits)+

lemma lexes_condition: "wf_condition dk lm c \<Longrightarrow> lexes (renderCondition c) (cond_toks c)"
  using wf_condition_words [of dk lm c] lexes_value_cond lexes_list_cond lexes_between_cond
  by (cases c) (auto simp: Let_def)

lemma lexes_paren: "lexes s ks \<Longrightarrow> lexes (parenthesize b s) (paren_toks b ks)"
  using lexes_append [OF lexes_lparen lexes_append [OF _ lexes_rparen, of s ks]]
  by (simp add: parenthesize_def paren_toks_def)

lemma lexes_node: "wf_ast dk lm a \<Longrightarrow> lexes (renderNode a k) (node_toks a k)"
proof (induction a arbitrary: k)
  case (NotNode a)
  then show ?case using lexes_append [OF lexes_keyword(1), of "renderNode a 3" "node_toks a 3"]
    by (auto intro!: lexes_paren simp: prec_defs)
next
  case (AndNode cs)
  then have "list_all2 lexes (map (\<lambda>c. renderNode c 2) cs) (map (\<lambda>c. node_toks c 2) cs)"
    using wf_ast_children(1) [OF AndNode.prems] by (simp add: list.rel_map list_all2_same)
  then show ?case by (auto intro!: lexes_paren lexes_join lexes_infix simp: prec_defs)
next
  case (OrNode cs)
  then have "list_all2 lexes (map (\<lambda>c. renderNode c 1) cs) (map (\<lambda>c. node_toks c 1) cs)"
    using wf_ast_children(2) [OF OrNode.prems] by (simp add: list.rel_map list_all2_same)
  then show ?case by (auto intro!: lexes_paren lexes_join lexes_infix simp: prec_defs)
qed (simp add: lexes_condition)

section \<open>The parser reads the tokens back\<close>

text \<open>\<open>parses g c stop toks n d b\<close>: the parsing function \<open>g\<close>, with enough fuel and room in the limits
  for \<open>n\<close> conditions and \<open>d\<close> parentheses, reads the tokens \<open>toks\<close> as the tree \<open>b\<close> and stops
  before any token that is not one of the keywords \<open>stop\<close>.\<close>

definition reads :: "search_limits \<Rightarrow> string set \<Rightarrow> tok list \<Rightarrow> nat \<Rightarrow> nat \<Rightarrow> parser \<Rightarrow> token list \<Rightarrow> bool" where
  "reads lm stop toks n d p us \<longleftrightarrow>
     (\<exists>ts. rest p = ts @ us \<and> map strip ts = toks) \<and> us \<noteq> [] \<and> (\<forall>w \<in> stop. \<not> isKeyword (hd us) w) \<and>
     conditionCount p + n \<le> maxConditions lm \<and> depth p + d \<le> maxParenthesesDepth lm"

definition after :: "parser \<Rightarrow> nat \<Rightarrow> token list \<Rightarrow> parser" where
  "after p n us = p\<lparr>rest := us, conditionCount := conditionCount p + n\<rparr>"

definition parses ::
    "search_limits \<Rightarrow> (nat \<Rightarrow> parser \<Rightarrow> (ast \<times> parser) dsl option) \<Rightarrow> nat \<Rightarrow> string set \<Rightarrow> tok list \<Rightarrow> nat \<Rightarrow> nat \<Rightarrow> ast \<Rightarrow> bool"
  where
  "parses lm g c stop toks n d b \<longleftrightarrow>
     (\<forall>p us f. reads lm stop toks n d p us \<longrightarrow> 5 * length (rest p) + c \<le> f \<longrightarrow> g f p = Some (Inr (b, after p n us)))"

lemma after_simps [simp]:
  "rest (after p n us) = us" "depth (after p n us) = depth p" "conditionCount (after p n us) = conditionCount p + n"
  "after (after p n us) m vs = after p (n + m) vs" "rest p = us \<Longrightarrow> after p 0 us = p"
  by (simp_all add: after_def)

lemma map_strip_Cons: "map strip ts = k # ks \<longleftrightarrow> (\<exists>t us. ts = t # us \<and> strip t = k \<and> map strip us = ks)"
  by (cases ts) auto

context binary_level
begin

lemma loop_parses:
  assumes items: "\<And>x. x \<in> set xs \<Longrightarrow> parses lm sub c stop (tk x) (n x) d (b x)"
    and kw: "js_lower KW = kw" "kw \<notin> stop"
    and r: "reads lm (insert kw stop) (concat (map (\<lambda>x. (IDENT, KW) # tk x) xs)) (sum_list (map n xs)) d p us"
    and fu: "5 * length (rest p) + Suc c \<le> f"
  shows "loop f cs p =
    Some (Inr (if length (cs @ map b xs) = 1 then hd (cs @ map b xs) else node (cs @ map b xs),
      after p (sum_list (map n xs)) us))"
  using items r fu
proof (induction xs arbitrary: p cs f)
  case Nil
  then obtain f' where f: "f = Suc f'" by (cases f) auto
  have "rest p = us" "us \<noteq> []" "\<not> isKeyword (hd us) kw" using Nil.prems by (auto simp: reads_def)
  then show ?case by (cases us) (auto simp: f loop_Suc peek_def peek_tok_def)
next
  case (Cons x xs)
  obtain f' where f: "f = Suc f'" using Cons.prems(3) by (cases f) auto
  let ?tl = "concat (map (\<lambda>x. (IDENT, KW) # tk x) xs)"
  obtain t ts vs where p: "rest p = t # ts @ vs @ us" "strip t = (IDENT, KW)" "map strip ts = tk x"
      "map strip vs = ?tl" and us: "us \<noteq> []"
    using Cons.prems(2) by (auto simp: reads_def map_strip_Cons map_eq_append_conv)
  have key: "isKeyword (peek p) kw" using p kw by (simp add: isKeyword_def peek_def peek_tok_def strip_def)
  have adv: "rest (advance p) = ts @ vs @ us" using p us by (cases ts; cases vs; cases us) (auto simp: next_tok_def)
  have nokey: "\<forall>w \<in> stop. \<not> isKeyword (hd (vs @ us)) w"
  proof (cases xs)
    case Nil
    then show ?thesis using p(4) Cons.prems(2) by (simp add: reads_def)
  next
    case (Cons y ys)
    then obtain u vs' where "vs = u # vs'" "strip u = (IDENT, KW)" using p(4) by (auto simp: map_strip_Cons)
    then show ?thesis using kw by (auto simp: isKeyword_def strip_def)
  qed
  have "reads lm stop (tk x) (n x) d (advance p) (vs @ us)"
    using Cons.prems(2) p us adv nokey by (auto simp: reads_def)
  moreover have "5 * length (rest (advance p)) + c \<le> f'" using Cons.prems(3) p f adv by simp
  ultimately have sub: "sub f' (advance p) = Some (Inr (b x, after p (n x) (vs @ us)))"
    using Cons.prems(1) [of x] by (auto simp: parses_def after_def advance_def)
  have "reads lm (insert kw stop) ?tl (sum_list (map n xs)) d (after p (n x) (vs @ us)) us"
    using Cons.prems(2) p(4) by (auto simp: reads_def)
  from Cons.IH [OF Cons.prems(1) this, of f' "cs @ [b x]"] Cons.prems(3) p f
  show ?case by (simp add: loop_Suc key sub)
qed

lemma outer_parses:
  assumes "xs \<noteq> []" "\<And>x. x \<in> set xs \<Longrightarrow> parses lm sub c stop (tk x) (n x) d (b x)"
    and nonempty: "\<And>x. x \<in> set xs \<Longrightarrow> tk x \<noteq> []" and kw: "js_lower KW = kw" "kw \<notin> stop"
  shows "parses lm outer (Suc c) (insert kw stop) (join_toks (IDENT, KW) (map tk xs)) (sum_list (map n xs)) d
    (if length xs = 1 then b (hd xs) else node (map b xs))"
  unfolding parses_def
proof (intro allI impI)
  fix p us f
  assume r: "reads lm (insert kw stop) (join_toks (IDENT, KW) (map tk xs)) (sum_list (map n xs)) d p us"
    and fu: "5 * length (rest p) + Suc c \<le> f"
  obtain f' where f: "f = Suc f'" using fu by (cases f) auto
  obtain x ys where xs: "xs = x # ys" using assms(1) by (cases xs) auto
  let ?tl = "concat (map (\<lambda>x. (IDENT, KW) # tk x) ys)"
  obtain ts vs where p: "rest p = ts @ vs @ us" "map strip ts = tk x" "map strip vs = ?tl" and us: "us \<noteq> []"
    using r by (auto simp: reads_def xs map_eq_append_conv o_def)
  have nokey: "\<forall>w \<in> stop. \<not> isKeyword (hd (vs @ us)) w"
  proof (cases ys)
    case Nil
    then show ?thesis using p(3) r by (simp add: reads_def)
  next
    case (Cons y zs)
    then obtain u vs' where "vs = u # vs'" "strip u = (IDENT, KW)" using p(3) by (auto simp: map_strip_Cons)
    then show ?thesis using kw by (auto simp: isKeyword_def strip_def)
  qed
  have "reads lm stop (tk x) (n x) d p (vs @ us)" using r p us nokey by (auto simp: reads_def xs)
  then have sub: "sub f' p = Some (Inr (b x, after p (n x) (vs @ us)))"
    using assms(2) [of x] xs fu f by (auto simp: parses_def)
  have "reads lm (insert kw stop) ?tl (sum_list (map n ys)) d (after p (n x) (vs @ us)) us"
    using r p(3) by (auto simp: reads_def xs)
  moreover have "5 * length (rest (after p (n x) (vs @ us))) + Suc c \<le> f'"
    using fu f p(1,2) nonempty [of x] xs by (cases ts) auto
  ultimately have "loop f' [b x] (after p (n x) (vs @ us)) = Some (Inr (if length ([b x] @ map b ys) = 1 then hd ([b x] @ map b ys) else node ([b x] @ map b ys),
      after p (sum_list (map n xs)) us))"
    using loop_parses [of ys stop tk n d b KW "after p (n x) (vs @ us)" us f' "[b x]"] assms(2) kw by (simp add: xs)
  then show "outer f p = Some (Inr (if length xs = 1 then b (hd xs) else node (map b xs), after p (sum_list (map n xs)) us))"
    by (simp add: f outer_Suc sub xs)
qed

end

lemma next_tok_Cons: "us \<noteq> [] \<Longrightarrow> next_tok (t # us) = us"
  by (cases us) (auto simp: next_tok_def)

lemma advance_after [simp]: "us \<noteq> [] \<Longrightarrow> advance (after p n (t # us)) = after p n us"
  by (simp add: advance_def after_def next_tok_Cons)

lemma peek_tok_Cons [simp]: "peek_tok (t # ts) = t"
  by (simp add: peek_tok_def)

lemma strip_eq [simp]:
  "strip t = (k, v) \<longleftrightarrow> tok_type t = k \<and> tok_value t = v" "(k, v) = strip t \<longleftrightarrow> tok_type t = k \<and> tok_value t = v"
  by (auto simp: strip_def)

lemma parseListItems_reads:
  assumes "vs \<noteq> []" "list_all (\<lambda>v. checkedTextValue f spec (mk_token STRING v 0) = Inr v) vs"
    "map strip ts = join_toks (COMMA, '','') (map (\<lambda>v. [(STRING, v)]) vs) @ [(RPAREN, '')'')]"
    "us \<noteq> []" "length (acc @ vs) \<le> maxInItems lm"
  shows "parseListItems lm f spec acc (ts @ us) = Inr (acc @ vs, us)"
  using assms
proof (induction vs arbitrary: ts acc)
  case (Cons v vs)
  obtain t ts1 where t: "ts = t # ts1" "tok_type t = STRING" "tok_value t = v"
      "map strip ts1 = concat (map (\<lambda>v. [(COMMA, '',''), (STRING, v)]) vs) @ [(RPAREN, '')'')]"
    using Cons.prems(3) by (auto simp: map_strip_Cons o_def)
  have v: "checkedTextValue f spec t = Inr v"
    using Cons.prems(2) t(3) checkedTextValue_idem [of f spec "mk_token STRING v 0" v t] by simp
  have n1: "next_tok (t # ts1 @ us) = ts1 @ us" using Cons.prems(4) by (simp add: next_tok_Cons)
  show ?case
  proof (cases vs)
    case Nil
    then obtain r where "ts1 = [r]" "tok_type r = RPAREN" using t(4) by (auto simp: map_strip_Cons)
    then show ?thesis using t v Nil Cons.prems(4,5) n1
      by (subst parseListItems.simps) (simp add: Let_def next_tok_Cons)
  next
    case (Cons w ws)
    then obtain c ts2 where c: "ts1 = c # ts2" "tok_type c = COMMA"
        "map strip ts2 = join_toks (COMMA, '','') (map (\<lambda>v. [(STRING, v)]) vs) @ [(RPAREN, '')'')]"
      using t(4) by (auto simp: map_strip_Cons o_def)
    have "parseListItems lm f spec (acc @ [v]) (ts2 @ us) = Inr ((acc @ [v]) @ vs, us)"
      using Cons.IH [of ts2 "acc @ [v]"] Cons.prems c(3) Cons by simp
    then show ?thesis using t v c Cons.prems(4,5) n1
      by (subst parseListItems.simps) (simp add: Let_def next_tok_Cons)
  qed
qed simp

lemma expectDate_reads:
  assumes "parseDateLiteral dk (date_display d) f 0 = Inr d" "rest p = t # us" "tok_type t = STRING"
    "tok_value t = date_display d" "us \<noteq> []"
  shows "expectDate dk p f = Inr (d, p\<lparr>rest := us\<rparr>)"
  using assms parseDateLiteral_idem [OF assms(1), of f "tok_position t"]
  by (simp add: expectDate_def expectString_def Let_def peek_def advance_def next_tok_Cons)

lemma parseCondition_head:
  assumes "getFieldSpec f = Some spec" "opr \<in> set (spec_operators spec)" "rest p = t # u # us" "us \<noteq> []"
    "strip t = (IDENT, f)" "strip u = (IDENT, opr)" "Suc (conditionCount p) \<le> maxConditions lm"
  shows "parseCondition dk lm p =
    (if opr = ''in'' \<or> opr = ''not_in'' then parseListCondition lm (after p 1 us) f spec opr
     else if opr = ''between'' then parseBetweenCondition dk (after p 1 us) f opr
     else if opr = ''before'' \<or> opr = ''after'' then parseDateCondition dk (after p 1 us) f opr
     else parseScalarCondition (after p 1 us) f spec opr)"
proof -
  have f: "plain_word f" "js_lower f = f" "canonicalFieldName f = Some f" and opr: "js_lower opr = opr"
    using registry_field_chars [OF assms(1)] registry_operator_chars [OF assms(1,2)] plain_word_chars
      canonicalFieldName_registry [OF assms(1)] by auto
  then have "f \<notin> set LOGICAL_KEYWORDS" by (simp add: plain_word_def LOGICAL_KEYWORDS_def)
  moreover have q: "(advance (advance p))\<lparr>conditionCount := Suc (conditionCount p)\<rparr> = after p (Suc 0) us"
    using assms(3,4) by (simp add: advance_def after_def next_tok_Cons)
  ultimately show ?thesis using assms f opr
    by (simp add: parseCondition_def Let_def peek_def next_tok_Cons q)
qed

lemma parseCondition_value:
  assumes wf: "wf_condition dk lm (ValueCondition f k opr vs)"
    and r: "reads lm {} (cond_toks (ValueCondition f k opr vs)) 1 d p us"
  shows "parseCondition dk lm p = Inr (CondNode (ValueCondition f k opr vs), after p 1 us)"
proof -
  obtain spec where spec: "getFieldSpec f = Some spec" "k = spec_kind spec" "opr \<in> set (spec_operators spec)"
      "opr \<notin> set DATE_OPERATORS"
    and vs: "if opr \<in> set LIST_OPERATORS
       then vs \<noteq> [] \<and> length vs \<le> maxInItems lm \<and>
            list_all (\<lambda>v. checkedTextValue f spec (mk_token STRING v 0) = Inr v) vs
       else length vs = 1 \<and> list_all (\<lambda>v. scalarValue f spec (mk_token STRING v 0) = Inr v) vs"
    using wf by (auto simp: wf_condition_def split: option.splits)
  have us: "us \<noteq> []" and cnt: "Suc (conditionCount p) \<le> maxConditions lm" using r by (auto simp: reads_def)
  show ?thesis
  proof (cases "opr \<in> set LIST_OPERATORS")
    case True
    then obtain t u l ts where p: "rest p = t # u # l # ts @ us" "strip t = (IDENT, f)" "strip u = (IDENT, opr)"
        "tok_type l = LPAREN" "map strip ts = join_toks (COMMA, '','') (map (\<lambda>v. [(STRING, v)]) vs) @ [(RPAREN, '')'')]"
      using r by (auto simp: reads_def LIST_OPERATORS_def map_strip_Cons)
    have l: "parseListItems lm f spec [] (ts @ us) = Inr (vs, us)"
      using vs True parseListItems_reads [OF _ _ p(5) us, where acc = "[]" and f = f and spec = spec and lm = lm] by simp
    obtain t0 ts0 where "ts = t0 # ts0" "tok_type t0 = STRING"
      using p(5) vs True by (cases vs) (auto simp: map_strip_Cons)
    then show ?thesis
      using parseCondition_head [OF spec(1,3) p(1) _ p(2,3) cnt, where dk = dk] True us p(4) l spec(2)
      by (auto simp: parseListCondition_def Let_def peek_def next_tok_Cons after_def advance_def LIST_OPERATORS_def)
  next
    case False
    then obtain v where v: "vs = [v]" "scalarValue f spec (mk_token STRING v 0) = Inr v"
      using vs by (cases vs) auto
    obtain t u w where p: "rest p = t # u # w # us" "strip t = (IDENT, f)" "strip u = (IDENT, opr)" "strip w = (STRING, v)"
      using r False v by (auto simp: reads_def LIST_OPERATORS_def map_strip_Cons nth_or_empty_def)
    then have "scalarValue f spec w = Inr v" using scalarValue_idem [OF spec(1) v(2)] by simp
    then show ?thesis
      using parseCondition_head [OF spec(1,3) p(1) _ p(2,3) cnt, where dk = dk] False us p(4) spec(2,4) v(1)
      by (auto simp: parseScalarCondition_def expectString_def Let_def peek_def next_tok_Cons after_def advance_def
          LIST_OPERATORS_def DATE_OPERATORS_def)
  qed
qed

lemma parseCondition_date:
  assumes wf: "wf_condition dk lm (DateCondition f opr ds)"
    and r: "reads lm {} (cond_toks (DateCondition f opr ds)) 1 d p us"
  shows "parseCondition dk lm p = Inr (CondNode (DateCondition f opr ds), after p 1 us)"
proof -
  obtain spec where spec: "getFieldSpec f = Some spec" "opr \<in> set (spec_operators spec)" "opr \<in> set DATE_OPERATORS"
    and ds: "length ds = (if opr = ''between'' then 2 else 1)"
      "list_all (\<lambda>d. parseDateLiteral dk (date_display d) f 0 = Inr d) ds"
    using wf by (auto simp: wf_condition_def split: option.splits)
  have us: "us \<noteq> []" and cnt: "Suc (conditionCount p) \<le> maxConditions lm" using r by (auto simp: reads_def)
  show ?thesis
  proof (cases "opr = ''between''")
    case True
    then obtain d1 d2 where d: "ds = [d1, d2]" using ds(1) by (auto simp: numeral_2_eq_2 length_Suc_conv)
    obtain t u v a w where p: "rest p = t # u # v # a # w # us" "strip t = (IDENT, f)" "strip u = (IDENT, opr)"
        "strip v = (STRING, date_display d1)" "strip a = (IDENT, ''AND'')" "strip w = (STRING, date_display d2)"
      using r True d by (auto simp: reads_def map_strip_Cons nth_or_empty_def)
    have "js_lower ''AND'' = ''and''" by code_simp
    moreover have "expectDate dk (after p 1 (v # a # w # us)) f = Inr (d1, after p 1 (a # w # us))"
      using expectDate_reads [of dk d1 f "after p 1 (v # a # w # us)" v "a # w # us"] ds(2) d p by (simp add: after_def)
    moreover have "expectDate dk (after p 1 (w # us)) f = Inr (d2, after p 1 us)"
      using expectDate_reads [of dk d2 f "after p 1 (w # us)" w us] ds(2) d p us by (simp add: after_def)
    ultimately show ?thesis
      using parseCondition_head [OF spec(1,2) p(1) _ p(2,3) cnt, where dk = dk] True d p(5) us
      by (simp add: parseBetweenCondition_def isKeyword_def peek_def)
  next
    case False
    then obtain d1 where d: "ds = [d1]" using ds(1) by (auto simp: length_Suc_conv)
    obtain t u v where p: "rest p = t # u # v # us" "strip t = (IDENT, f)" "strip u = (IDENT, opr)"
        "strip v = (STRING, date_display d1)"
      using r False d by (auto simp: reads_def map_strip_Cons nth_or_empty_def)
    have "expectDate dk (after p 1 (v # us)) f = Inr (d1, after p 1 us)"
      using expectDate_reads [of dk d1 f "after p 1 (v # us)" v us] ds(2) d p us by (simp add: after_def)
    then show ?thesis
      using parseCondition_head [OF spec(1,2) p(1) _ p(2,3) cnt, where dk = dk] False d us spec(3)
      by (auto simp: parseDateCondition_def DATE_OPERATORS_def)
  qed
qed

lemma cond_toks_head: "\<exists>f ks. cond_toks c = (IDENT, f) # ks \<and> f = cond_field c"
  by (cases c) (auto simp: Let_def)

lemma node_toks_head: "wf_ast dk lm a \<Longrightarrow> \<exists>k v ks. node_toks a j = (k, v) # ks \<and> k \<noteq> EOF"
proof (induction a arbitrary: j)
  case (CondNode c)
  then show ?case using cond_toks_head [of c] by auto
next
  case (AndNode cs)
  then obtain c ds where "cs = c # ds" "\<exists>k v ks. node_toks c 2 = (k, v) # ks \<and> k \<noteq> EOF"
    using wf_ast_children(1) [OF AndNode.prems] by (cases cs) auto
  then show ?case by (auto simp: paren_toks_def)
next
  case (OrNode cs)
  then obtain c ds where "cs = c # ds" "\<exists>k v ks. node_toks c 1 = (k, v) # ks \<and> k \<noteq> EOF"
    using wf_ast_children(2) [OF OrNode.prems] by (cases cs) auto
  then show ?case by (auto simp: paren_toks_def)
qed (simp add: paren_toks_def)

lemma node_toks_nonempty: "wf_ast dk lm a \<Longrightarrow> node_toks a k \<noteq> []"
  by (auto dest: node_toks_head [where j = k])

lemma cond_parses:
  assumes "wf_condition dk lm c"
  shows "parses lm (parseNot dk lm) 2 {} (cond_toks c) 1 d (CondNode c)"
  unfolding parses_def
proof (intro allI impI)
  fix p us f assume r: "reads lm {} (cond_toks c) 1 d p us" and fu: "5 * length (rest p) + 2 \<le> f"
  obtain f' where f: "f = Suc (Suc f')" using fu by (metis add_2_eq_Suc' le_Suc_ex add_Suc)
  have "plain_word (cond_field c)" using wf_condition_words [OF assms] by simp
  then have lower: "js_lower (cond_field c) = cond_field c" "cond_field c \<noteq> ''not''"
    using plain_word_chars by (auto simp: plain_word_def)
  obtain ts where "rest p = ts @ us" "map strip ts = cond_toks c" using r by (auto simp: reads_def)
  then have tok: "tok_type (peek p) = IDENT" "tok_value (peek p) = cond_field c"
    using cond_toks_head [of c] by (auto simp: peek_def map_strip_Cons)
  have "parseCondition dk lm p = Inr (CondNode c, after p 1 us)"
    using parseCondition_value parseCondition_date assms r by (cases c) blast+
  then show "parseNot dk lm f p = Some (Inr (CondNode c, after p 1 us))"
    using tok lower by (simp add: f isKeyword_def Let_def)
qed

lemma not_parses:
  assumes "parses lm (parseNot dk lm) 2 {} toks n d b"
  shows "parses lm (parseNot dk lm) 2 {} ((IDENT, ''NOT'') # toks) n d (NotNode b)"
  unfolding parses_def
proof (intro allI impI)
  fix p us f assume r: "reads lm {} ((IDENT, ''NOT'') # toks) n d p us" and fu: "5 * length (rest p) + 2 \<le> f"
  obtain f' where f: "f = Suc f'" using fu by (cases f) auto
  obtain t ts where p: "rest p = t # ts @ us" "tok_type t = IDENT" "tok_value t = ''NOT''" "map strip ts = toks" "us \<noteq> []"
    using r by (auto simp: reads_def map_strip_Cons)
  have "js_lower ''NOT'' = ''not''" by code_simp
  then have key: "isKeyword (peek p) ''not''" using p by (simp add: isKeyword_def peek_def)
  have "reads lm {} toks n d (advance p) us" using r p by (auto simp: reads_def next_tok_Cons)
  then have "parseNot dk lm f' (advance p) = Some (Inr (b, after (advance p) n us))"
    using assms fu f p unfolding parses_def by (simp add: next_tok_Cons)
  then show "parseNot dk lm f p = Some (Inr (NotNode b, after p n us))"
    using key by (simp add: f advance_def after_def)
qed

lemma paren_parses:
  assumes "parses lm (parseOr dk lm) 4 {''and'', ''or''} toks n d b"
  shows "parses lm (parseNot dk lm) 2 {} ([(LPAREN, ''('')] @ toks @ [(RPAREN, '')'')]) n (Suc d) b"
  unfolding parses_def
proof (intro allI impI)
  fix p us f
  assume r: "reads lm {} ([(LPAREN, ''('')] @ toks @ [(RPAREN, '')'')]) n (Suc d) p us"
    and fu: "5 * length (rest p) + 2 \<le> f"
  obtain f' where f: "f = Suc (Suc f')" using fu by (metis add_2_eq_Suc' le_Suc_ex add_Suc)
  obtain t ts u where p: "rest p = t # ts @ u # us" "tok_type t = LPAREN" "map strip ts = toks" "tok_type u = RPAREN"
      and us: "us \<noteq> []"
    using r by (auto simp: reads_def map_strip_Cons map_eq_append_conv)
  let ?q = "advance (p\<lparr>depth := Suc (depth p)\<rparr>)"
  have q: "rest ?q = ts @ u # us" using p by (simp add: next_tok_Cons)
  have "reads lm {''and'', ''or''} toks n d ?q (u # us)"
    using r p q us unfolding reads_def by (auto simp: isKeyword_def)
  moreover have "5 * length (rest ?q) + 4 \<le> f'" using fu p q f by simp
  ultimately have "parseOr dk lm f' ?q = Some (Inr (b, after ?q n (u # us)))"
    using assms unfolding parses_def by blast
  moreover have "depth p < maxParenthesesDepth lm" using r by (simp add: reads_def)
  moreover have "(advance (after ?q n (u # us)))\<lparr>depth := depth p\<rparr> = after p n us"
    using us by (simp add: after_def advance_def next_tok_Cons)
  ultimately show "parseNot dk lm f p = Some (Inr (b, after p n us))"
    using p us by (simp add: f isKeyword_def Let_def peek_def)
qed

text \<open>A larger bound on the parenthesis depth, or more stop words, is no harder.\<close>

lemma parses_mono:
  assumes "parses lm g c stop toks n d b" "d \<le> d'" "stop \<subseteq> stop'"
  shows "parses lm g c stop' toks n d' b"
proof -
  have "reads lm stop' toks n d' p us \<Longrightarrow> reads lm stop toks n d p us" for p us
    using assms(2,3) by (auto simp: reads_def)
  then show ?thesis using assms(1) by (simp add: parses_def)
qed

lemma flat_of_ops:
  "wf_ast dk lm a \<Longrightarrow> (if length (and_ops a) = 1 then flat (hd (and_ops a)) else AndNode (map flat (and_ops a))) = flat a"
  "wf_ast dk lm a \<Longrightarrow> (if length (or_ops a) = 1 then flat (hd (or_ops a)) else OrNode (map flat (or_ops a))) = flat a"
  using ops_length flat_And flat_Or by (cases a; fastforce)+

lemma and_level_parses:
  assumes wf: "wf_ast dk lm a"
    and ops: "\<And>x. x \<in> set (and_ops a) \<Longrightarrow> parses lm (parseNot dk lm) 2 {} (node_toks x 3) (ncond x) (paren_depth 3 x) (flat x)"
  shows "parses lm (parseAnd dk lm) 3 {''and''} (node_toks a 2) (ncond a) (paren_depth 2 a) (flat a)"
proof -
  have "js_lower ''AND'' = ''and''" by code_simp
  moreover have "parses lm (parseNot dk lm) 2 {} (node_toks x 3) (ncond x) (paren_depth 2 a) (flat x)"
    if "x \<in> set (and_ops a)" for x using parses_mono [OF ops [OF that] and_ops_depth [OF that]] by simp
  moreover have "node_toks x 3 \<noteq> []" if "x \<in> set (and_ops a)" for x
    using ops_wf(1) [OF wf that] by (rule node_toks_nonempty)
  ultimately show ?thesis
    using and_level.outer_parses [of "and_ops a" lm dk "{}" "\<lambda>x. node_toks x 3" ncond "paren_depth 2 a" flat "''AND''"]
      ops_nonempty(1) [OF wf] flat_of_ops(1) [OF wf] ops_ncond(1) [of a]
      node_toks_and [OF wf]
    by (simp add: numeral_3_eq_3 numeral_2_eq_2)
qed

lemma or_level_parses:
  assumes wf: "wf_ast dk lm a"
    and ops: "\<And>x. x \<in> set (or_ops a) \<Longrightarrow> parses lm (parseAnd dk lm) 3 {''and''} (node_toks x 2) (ncond x) (paren_depth 2 x) (flat x)"
  shows "parses lm (parseOr dk lm) 4 {''and'', ''or''} (node_toks a 1) (ncond a) (paren_depth 1 a) (flat a)"
proof -
  have "js_lower ''OR'' = ''or''" by code_simp
  moreover have "parses lm (parseAnd dk lm) 3 {''and''} (node_toks x 2) (ncond x) (paren_depth 1 a) (flat x)"
    if "x \<in> set (or_ops a)" for x using parses_mono [OF ops [OF that] or_ops_depth [OF that]] by simp
  moreover have "node_toks x 2 \<noteq> []" if "x \<in> set (or_ops a)" for x
    using ops_wf(2) [OF wf that] by (rule node_toks_nonempty)
  ultimately show ?thesis
    using or_level.outer_parses [of "or_ops a" lm dk "{''and''}" "\<lambda>x. node_toks x 2" ncond "paren_depth 1 a" flat "''OR''"]
      ops_nonempty(2) [OF wf] flat_of_ops(2) [OF wf] ops_ncond(2) [of a]
      node_toks_or [OF wf]
    by (simp add: eval_nat_numeral insert_commute)
qed

lemma parse_back:
  "wf_ast dk lm a \<Longrightarrow>
   parses lm (parseNot dk lm) 2 {} (node_toks a 3) (ncond a) (paren_depth 3 a) (flat a) \<and>
   parses lm (parseAnd dk lm) 3 {''and''} (node_toks a 2) (ncond a) (paren_depth 2 a) (flat a) \<and>
   parses lm (parseOr dk lm) 4 {''and'', ''or''} (node_toks a 1) (ncond a) (paren_depth 1 a) (flat a)"
proof (induction a rule: measure_induct_rule [where f = size])
  case (less a)
  let ?P3 = "parses lm (parseNot dk lm) 2 {} (node_toks a 3) (ncond a) (paren_depth 3 a) (flat a)"
  let ?P2 = "parses lm (parseAnd dk lm) 3 {''and''} (node_toks a 2) (ncond a) (paren_depth 2 a) (flat a)"
  let ?P1 = "parses lm (parseOr dk lm) 4 {''and'', ''or''} (node_toks a 1) (ncond a) (paren_depth 1 a) (flat a)"
  have leaf: "?P3 \<Longrightarrow> and_ops a = [a] \<Longrightarrow> ?P2" "?P2 \<Longrightarrow> or_ops a = [a] \<Longrightarrow> ?P1"
    using and_level_parses [OF less.prems] or_level_parses [OF less.prems] by simp_all
  show ?case
  proof (cases a)
    case (CondNode c)
    then have ?P3 using cond_parses less.prems by simp
    then show ?thesis using leaf CondNode by simp
  next
    case (NotNode b)
    then have ?P3 using not_parses less.IH [of b] less.prems by (simp add: paren_toks_def)
    then show ?thesis using leaf NotNode by simp
  next
    case (AndNode cs)
    have ?P2 using less.IH ops_smaller(1) ops_wf(1) [OF less.prems] AndNode
      by (intro and_level_parses [OF less.prems]) blast
    moreover from this have ?P1 using leaf(2) AndNode by simp
    moreover have "node_toks a 3 = [(LPAREN, ''('')] @ node_toks a 1 @ [(RPAREN, '')'')]"
        "paren_depth 3 a = Suc (paren_depth 1 a)"
      by (simp_all add: AndNode paren_toks_def)
    ultimately show ?thesis using paren_parses by metis
  next
    case (OrNode cs)
    have ?P1 using less.IH ops_smaller(2) ops_wf(2) [OF less.prems] OrNode
      by (intro or_level_parses [OF less.prems]) blast
    moreover have "node_toks a 3 = [(LPAREN, ''('')] @ node_toks a 1 @ [(RPAREN, '')'')]"
        "paren_depth 3 a = Suc (paren_depth 1 a)"
      by (simp_all add: OrNode paren_toks_def)
    ultimately have ?P3 using paren_parses by metis
    then show ?thesis using leaf OrNode \<open>?P1\<close> by simp
  qed
qed

lemma node_toks_top: "node_toks a 0 = node_toks a 1"
  by (cases a) (simp_all add: paren_toks_def)

lemma ncond_pos: "wf_ast dk lm a \<Longrightarrow> 1 \<le> ncond a"
proof (induction a)
  case (AndNode cs)
  then show ?case using wf_ast_children(1) [OF AndNode.prems] by (cases cs) (auto intro: trans_le_add1)
next
  case (OrNode cs)
  then show ?case using wf_ast_children(2) [OF OrNode.prems] by (cases cs) (auto intro: trans_le_add1)
qed auto

lemma parseTokens_reads:
  assumes "wf_ast dk lm a" "ncond a \<le> maxConditions lm" "paren_depth 1 a \<le> maxParenthesesDepth lm"
    "map strip ts = node_toks a 0 @ [(EOF, [])]"
  shows "parseTokens dk lm ts = Some (Inr (flat a))"
proof -
  let ?p = "\<lparr>rest = ts, conditionCount = 0, depth = 0\<rparr>"
  obtain us e where ts: "ts = us @ [e]" "map strip us = node_toks a 1" "tok_type e = EOF" "tok_value e = []"
    using assms(4) by (auto simp: node_toks_top map_eq_append_conv)
  have "reads lm {''and'', ''or''} (node_toks a 1) (ncond a) (paren_depth 1 a) ?p [e]"
    using assms ts by (auto simp: reads_def isKeyword_def)
  then have "parseOr dk lm (parse_fuel ts) ?p = Some (Inr (flat a, after ?p (ncond a) [e]))"
    using parse_back [OF assms(1)] unfolding parses_def by (simp add: parse_fuel_def)
  moreover have "\<not> atEnd ?p"
    using ts node_toks_head [OF assms(1), of 1] by (auto simp: atEnd_def peek_def map_strip_Cons)
  ultimately show ?thesis using ts(3) ncond_pos [OF assms(1)]
    by (simp add: parseTokens_def Let_def atEnd_def peek_def)
qed

section \<open>Rendering and flattening\<close>

lemma render_ops:
  "wf_ast dk lm a \<Longrightarrow> renderNode a 2 = js_join '' AND '' (map (\<lambda>x. renderNode x 2) (and_ops a))"
  "wf_ast dk lm a \<Longrightarrow> renderNode a 1 = js_join '' OR '' (map (\<lambda>x. renderNode x 1) (or_ops a))"
proof (induction a)
  case (AndNode cs)
  {
    case 1
    then have "renderNode (AndNode cs) 2 =
        js_join '' AND '' (map (\<lambda>c. js_join '' AND '' (map (\<lambda>x. renderNode x 2) (and_ops c))) cs)"
      using AndNode wf_ast_children(1) [OF 1] by (simp add: prec_defs parenthesize_def cong: map_cong)
    also have "\<dots> = js_join '' AND '' (concat (map (\<lambda>c. map (\<lambda>x. renderNode x 2) (and_ops c)) cs))"
      using wf_ast_children(1) [OF 1] ops_nonempty(1) by (intro js_join_concat) auto
    finally show ?case by (simp add: map_concat o_def)
  next
    case 2
    then show ?case by simp
  }
next
  case (OrNode cs)
  {
    case 1
    then show ?case by simp
  next
    case 2
    then have "renderNode (OrNode cs) 1 =
        js_join '' OR '' (map (\<lambda>c. js_join '' OR '' (map (\<lambda>x. renderNode x 1) (or_ops c))) cs)"
      using OrNode wf_ast_children(2) [OF 2] by (simp add: prec_defs parenthesize_def cong: map_cong)
    also have "\<dots> = js_join '' OR '' (concat (map (\<lambda>c. map (\<lambda>x. renderNode x 1) (or_ops c)) cs))"
      using wf_ast_children(2) [OF 2] ops_nonempty(2) by (intro js_join_concat) auto
    finally show ?case by (simp add: map_concat o_def)
  }
qed simp_all

lemma render_flat: "wf_ast dk lm a \<Longrightarrow> renderNode (flat a) k = renderNode a k"
proof (induction a arbitrary: k rule: measure_induct_rule [where f = size])
  case (less a)
  show ?case
  proof (cases a)
    case (AndNode cs)
    have "map (\<lambda>x. renderNode (flat x) 2) (and_ops a) = map (\<lambda>x. renderNode x 2) (and_ops a)"
      using less.IH ops_smaller(1) ops_wf(1) [OF less.prems] AndNode by (intro map_cong) auto
    moreover have "renderNode a k = parenthesize (2 < k) (renderNode a 2)"
      by (simp add: AndNode prec_defs parenthesize_def)
    ultimately show ?thesis using render_ops(1) [OF less.prems] flat_And [of cs] AndNode
      by (simp add: prec_defs o_def del: flat.simps and_ops.simps cong: map_cong)
  next
    case (OrNode cs)
    have "map (\<lambda>x. renderNode (flat x) 1) (or_ops a) = map (\<lambda>x. renderNode x 1) (or_ops a)"
      using less.IH ops_smaller(2) ops_wf(2) [OF less.prems] OrNode by (intro map_cong) auto
    moreover have "renderNode a k = parenthesize (1 < k) (renderNode a 1)"
      by (simp add: OrNode prec_defs parenthesize_def)
    ultimately show ?thesis using render_ops(2) [OF less.prems] flat_Or [of cs] OrNode
      by (simp add: prec_defs o_def del: flat.simps or_ops.simps cong: map_cong)
  qed (use less in auto)
qed

fun conds :: "ast \<Rightarrow> condition list" where
  "conds (CondNode c) = [c]"
| "conds (NotNode a) = conds a"
| "conds (AndNode cs) = concat (map conds cs)"
| "conds (OrNode cs) = concat (map conds cs)"

lemma foldl_append_acc: "(\<forall>c \<in> set cs. \<forall>a. g c a = a @ h c) \<Longrightarrow> foldl (\<lambda>a c. g c a) acc cs = acc @ concat (map h cs)"
  by (induction cs arbitrary: acc) auto

lemma flattenConditions_eq: "flattenConditions a acc = acc @ map flat_of (conds a)"
proof (induction a arbitrary: acc)
  case (AndNode cs)
  then show ?case using foldl_append_acc [of cs flattenConditions "\<lambda>c. map flat_of (conds c)" acc]
    by (simp add: map_concat o_def)
next
  case (OrNode cs)
  then show ?case using foldl_append_acc [of cs flattenConditions "\<lambda>c. map flat_of (conds c)" acc]
    by (simp add: map_concat o_def)
qed auto

lemma conds_parts: "concat (map conds (and_parts a)) = conds a" "concat (map conds (or_parts a)) = conds a"
  by (cases a; simp add: and_parts_def or_parts_def)+

lemma concat_map_concat: "concat (map f (concat (map g xs))) = concat (map (\<lambda>x. concat (map f (g x))) xs)"
  by (induction xs) auto

lemma conds_flat: "conds (flat a) = conds a"
  by (induction a) (simp_all add: concat_map_concat conds_parts cong: map_cong)

lemma relative_conds: "astHasRelativeDate a = list_ex (\<lambda>c. astHasRelativeDate (CondNode c)) (conds a)"
  by (induction a) (auto simp: list_ex_iff)

lemma render_starts_visible: "wf_ast dk lm a \<Longrightarrow> \<exists>c cs. renderNode a k = c # cs \<and> \<not> js_ws c"
proof (induction a arbitrary: k)
  case (CondNode c)
  then obtain x xs where "cond_field c = x # xs" "\<not> js_ws x"
    using wf_condition_words [of dk lm c] plain_word_chars is_word_char_not_ws
    by (cases "cond_field c") (fastforce simp: plain_word_def)+
  then show ?case by (cases c) (auto simp: Let_def)
next
  case (AndNode cs)
  then obtain d ds where "cs = d # ds" "\<exists>c cs. renderNode d 2 = c # cs \<and> \<not> js_ws c"
    using wf_ast_children(1) [OF AndNode.prems] by (cases cs) auto
  then show ?case by (cases ds) (auto simp: parenthesize_def prec_defs js_ws_def)
next
  case (OrNode cs)
  then obtain d ds where "cs = d # ds" "\<exists>c cs. renderNode d 1 = c # cs \<and> \<not> js_ws c"
    using wf_ast_children(2) [OF OrNode.prems] by (cases cs) auto
  then show ?case by (cases ds) (auto simp: parenthesize_def prec_defs js_ws_def)
qed (simp add: parenthesize_def prec_defs js_ws_def)

lemma js_trim_visible: "\<not> js_ws c \<Longrightarrow> js_trim (c # cs) \<noteq> []"
  by (simp add: js_trim_def)

lemma parseDsl_render:
  assumes "wf_ast dk lm a" "ncond a \<le> maxConditions lm" "paren_depth 1 a \<le> maxParenthesesDepth lm"
  shows "parseDsl dk lm (renderNormalizedQuery a) = Some (Inr (flat a))"
proof -
  obtain ts where "tokenize (renderNode a 0) = Inr ts" "map strip ts = node_toks a 0 @ [(EOF, [])]"
    using lexes_node [OF assms(1), of 0] by (rule tokenize_lexes)
  then show ?thesis using parseTokens_reads [OF assms] by (simp add: parseDsl_def renderNormalizedQuery_def)
qed

section \<open>Properties\<close>

text \<open>C1: the canonical text of an accepted query parses again under the same limits. The tree it
  gives is the accepted one with AND operands of AND and OR operands of OR merged into their parent; it
  has the same meaning for every assignment of truth values to conditions, and it renders to the same
  text, so normalising twice changes nothing.\<close>

theorem normalized_round_trip:
  assumes "parseDsl date_ok limits input = Some (Inr a)"
  shows "parseDsl date_ok limits (renderNormalizedQuery a) = Some (Inr (flat a)) \<and>
    (\<forall>v. eval_ast v (flat a) = eval_ast v a) \<and> renderNormalizedQuery (flat a) = renderNormalizedQuery a"
  using parseDsl_render [of date_ok limits a] parseDsl_accepted [OF assms] eval_flat
    render_flat [of date_ok limits a 0]
  by (simp add: renderNormalizedQuery_def)

theorem normalized_round_trip_witness:
  "parseDsl (\<lambda>_. True) sample_limits (renderNormalizedQuery sample_ast) = Some (Inr (flat sample_ast)) \<and>
   (\<forall>v. eval_ast v (flat sample_ast) = eval_ast v sample_ast) \<and>
   renderNormalizedQuery (flat sample_ast) = renderNormalizedQuery sample_ast"
  by (rule normalized_round_trip [OF parseDsl_sample])

text \<open>A stored normalised query is the same search. When the normalised text is not longer than the
  configured maximum, \<open>parseSearchQuery\<close> accepts it (a worker that re-parses stored text does not
  fail), returns the same normalised text and the same flat list of conditions, and agrees on
  whether the query has a relative date.\<close>

theorem parseSearchQuery_stable:
  assumes "parseSearchQuery date_ok limits raw = Some (Inr q)"
    and "length (normalizedQuery q) \<le> maxQueryLength limits"
  shows "parseSearchQuery date_ok limits (normalizedQuery q) =
      Some (Inr \<lparr>sq_ast = flat (sq_ast q), normalizedQuery = normalizedQuery q, conditions = conditions q\<rparr>) \<and>
    queryHasRelativeDate date_ok limits (normalizedQuery q) = queryHasRelativeDate date_ok limits raw"
proof -
  obtain a where a: "parseDsl date_ok limits raw = Some (Inr a)"
      "q = \<lparr>sq_ast = a, normalizedQuery = renderNormalizedQuery a, conditions = flattenConditions a []\<rparr>"
    using assms(1) by (auto simp: parseSearchQuery_def dsl_fail_def split: if_splits option.splits sum.splits)
  note wf = parseDsl_accepted [OF a(1)]
  obtain c cs where "renderNormalizedQuery a = c # cs" "\<not> js_ws c"
    using render_starts_visible [of date_ok limits a 0] wf by (auto simp: renderNormalizedQuery_def)
  then have "js_trim (renderNormalizedQuery a) \<noteq> []" using js_trim_visible by simp
  then have "parseSearchQuery date_ok limits (normalizedQuery q) =
      Some (Inr \<lparr>sq_ast = flat a, normalizedQuery = renderNormalizedQuery a, conditions = flattenConditions a []\<rparr>)"
    using assms(2) a(2) parseDsl_render [of date_ok limits a] wf render_flat [of date_ok limits a 0]
    by (simp add: parseSearchQuery_def flattenConditions_eq conds_flat renderNormalizedQuery_def)
  moreover from this have "queryHasRelativeDate date_ok limits (normalizedQuery q) = queryHasRelativeDate date_ok limits raw"
    using assms(1) a(2) relative_conds [of a] relative_conds [of "flat a"]
    by (simp add: queryHasRelativeDate_def conds_flat)
  ultimately show ?thesis using a(2) by simp
qed

definition sample_result :: search_query where
  "sample_result =
     \<lparr>sq_ast = sample_ast, normalizedQuery = renderNormalizedQuery sample_ast,
      conditions = flattenConditions sample_ast []\<rparr>"

lemma parseSearchQuery_sample: "parseSearchQuery (\<lambda>_. True) sample_limits sample_query = Some (Inr sample_result)"
  using parseDsl_sample
  by (simp add: parseSearchQuery_def sample_result_def sample_query_def js_trim_def js_ws_def sample_limits_def)

theorem parseSearchQuery_stable_witness:
  "parseSearchQuery (\<lambda>_. True) sample_limits (normalizedQuery sample_result) =
     Some (Inr \<lparr>sq_ast = flat (sq_ast sample_result), normalizedQuery = normalizedQuery sample_result,
       conditions = conditions sample_result\<rparr>) \<and>
   queryHasRelativeDate (\<lambda>_. True) sample_limits (normalizedQuery sample_result) =
     queryHasRelativeDate (\<lambda>_. True) sample_limits sample_query"
  by (rule parseSearchQuery_stable [OF parseSearchQuery_sample]) code_simp

end
