(* ===== verification/SqlFragments.thy ===== *)
theory SqlFragments
  imports DslRender
begin

text \<open>
  SQL text with bound parameters, shared by the query builder and the classification predicate. A piece
  of SQL is a list of fragments: literal text, or a positional placeholder \<open>$n\<close>. A builder takes the
  parameters bound so far and returns SQL and the extended parameters; \<open>None\<close> is a thrown error. The
  two disciplines that the builders keep are stated here with their composition lemmas:
  \<open>well_bound\<close> (a builder only appends parameters, and the placeholders in its SQL are exactly those of
  the parameters it appended) and \<open>same_text\<close> (two builders emit the same SQL text). The templates of
  the source are kept with their line breaks; the row alias \<open>i\<close> (\<open>IOC_ALIAS\<close>) is written out.
\<close>

section \<open>Fragments and binding\<close>

datatype frag = T string | Ph nat

type_synonym sql = "frag list"

text \<open>A bound value: text, an array of texts, or the ISO text of an instant in epoch milliseconds.\<close>

datatype param = PText string | PTexts "string list" | PInstant int

type_synonym builder = "param list \<Rightarrow> (sql \<times> param list) option"

abbreviation SQUOTE :: char where "SQUOTE \<equiv> CHR 0x27"

definition lit :: "string \<Rightarrow> sql" where
  "lit s = [T s]"

text \<open>The simplifier leaves the SQL texts alone.\<close>

lemma lit_cong [cong]: "lit s = lit s"
  by (rule refl)

definition bind_value :: "param \<Rightarrow> param list \<Rightarrow> sql \<times> param list" where
  "bind_value v ps = ([Ph (length ps + 1)], ps @ [v])"

definition sql_text :: "sql \<Rightarrow> string" where
  "sql_text s = concat (map (\<lambda>f. case f of T t \<Rightarrow> t | Ph n \<Rightarrow> ''$'' @ show_nat n) s)"

fun sql_join :: "string \<Rightarrow> sql list \<Rightarrow> sql" where
  "sql_join sep [] = []"
| "sql_join sep [x] = x"
| "sql_join sep (x # y # xs) = x @ lit sep @ sql_join sep (y # xs)"

text \<open>\<open>xs.map(build)\<close>: the builders run in order over the one parameter array.\<close>

fun build_all :: "builder list \<Rightarrow> param list \<Rightarrow> (sql list \<times> param list) option" where
  "build_all [] ps = Some ([], ps)"
| "build_all (f # fs) ps =
     (case f ps of
        None \<Rightarrow> None
      | Some (s, ps1) \<Rightarrow>
          (case build_all fs ps1 of None \<Rightarrow> None | Some (ss, ps2) \<Rightarrow> Some (s # ss, ps2)))"

text \<open>Wrapping the SQL of a builder: \<open>wrap a f z\<close> is the template \<open>a f z\<close>.\<close>

definition wrap :: "string \<Rightarrow> builder \<Rightarrow> string \<Rightarrow> builder" where
  "wrap a f z ps = (case f ps of None \<Rightarrow> None | Some (s, ps1) \<Rightarrow> Some (lit a @ s @ lit z, ps1))"

section \<open>The two disciplines\<close>

fun phs :: "sql \<Rightarrow> nat set" where
  "phs [] = {}"
| "phs (T t # s) = phs s"
| "phs (Ph n # s) = insert n (phs s)"

definition well_bound :: "builder \<Rightarrow> bool" where
  "well_bound f \<longleftrightarrow>
     (\<forall>ps s ps'. f ps = Some (s, ps') \<longrightarrow> (\<exists>vs. ps' = ps @ vs) \<and> phs s = {length ps<..length ps'})"

definition same_text :: "builder \<Rightarrow> builder \<Rightarrow> bool" where
  "same_text f g \<longleftrightarrow>
     (\<forall>ps qs. length ps = length qs \<longrightarrow>
        rel_option (\<lambda>(s, ps') (t, qs'). s = t \<and> length ps' = length qs') (f ps) (g qs))"

lemma phs_append [simp]: "phs (s @ t) = phs s \<union> phs t"
  by (induction s rule: phs.induct) auto

lemma phs_lit [simp]: "phs (lit t) = {}"
  by (simp add: lit_def)

lemma phs_join [simp]: "phs (sql_join sep ss) = \<Union> (phs ` set ss)"
  by (induction sep ss rule: sql_join.induct) auto

lemma Ioc_Suc [simp]:
  "{n<..Suc n} = {Suc n}" "{n<..Suc (Suc n)} = {Suc n, Suc (Suc n)}"
  "{n<..Suc (Suc (Suc n))} = {Suc n, Suc (Suc n), Suc (Suc (Suc n))}"
  "{n<..Suc (Suc (Suc (Suc n)))} = {Suc n, Suc (Suc n), Suc (Suc (Suc n)), Suc (Suc (Suc (Suc n)))}"
  by auto

lemma same_text_refl [simp]: "(\<And>ps qs. length ps = length qs \<Longrightarrow>
    rel_option (\<lambda>(s, ps') (t, qs'). s = t \<and> length ps' = length qs') (f ps) (f qs)) \<Longrightarrow> same_text f f"
  by (simp add: same_text_def)

lemma well_boundD:
  "well_bound f \<Longrightarrow> f ps = Some (s, ps') \<Longrightarrow> (\<exists>vs. ps' = ps @ vs) \<and> phs s = {length ps<..length ps'}"
  by (auto simp: well_bound_def)

lemma well_bound_wrap [intro]: "well_bound f \<Longrightarrow> well_bound (wrap a f z)"
  by (fastforce simp: well_bound_def wrap_def split: option.splits)

lemma same_textE:
  assumes "same_text f g" "length ps = length qs"
  obtains (none) "f ps = None" "g qs = None"
  | (some) s ps' qs' where "f ps = Some (s, ps')" "g qs = Some (s, qs')" "length ps' = length qs'"
  using assms by (cases "f ps"; cases "g qs") (force simp: same_text_def)+

lemma same_text_wrap [intro]: "same_text f g \<Longrightarrow> same_text (wrap a f z) (wrap a g z)"
  unfolding same_text_def [of "wrap a f z"]
  by (intro allI impI) (erule (1) same_textE; simp add: wrap_def)

lemma well_bound_all:
  assumes "\<And>f. f \<in> set fs \<Longrightarrow> well_bound f" "build_all fs ps = Some (ss, ps')"
  shows "(\<exists>vs. ps' = ps @ vs) \<and> \<Union> (phs ` set ss) = {length ps<..length ps'}"
  using assms
proof (induction fs arbitrary: ps ss ps')
  case (Cons f fs)
  obtain s ps1 ts where f: "f ps = Some (s, ps1)" "build_all fs ps1 = Some (ts, ps')" "ss = s # ts"
    using Cons.prems(2) by (auto split: option.splits)
  have a: "(\<exists>vs. ps1 = ps @ vs) \<and> phs s = {length ps<..length ps1}"
    using Cons.prems(1) f(1) well_boundD by (metis list.set_intros(1))
  have b: "(\<exists>vs. ps' = ps1 @ vs) \<and> \<Union> (phs ` set ts) = {length ps1<..length ps'}"
    using Cons.IH [OF _ f(2)] Cons.prems(1) by simp
  show ?case using a b f(3) by auto
qed auto

lemma same_text_all:
  assumes "list_all2 same_text fs gs" "length ps = length qs"
  shows "rel_option (\<lambda>(ss, ps') (ts, qs'). ss = ts \<and> length ps' = length qs') (build_all fs ps) (build_all gs qs)"
  using assms
proof (induction fs gs arbitrary: ps qs rule: list_all2_induct)
  case (Cons f fs g gs)
  from Cons(1) Cons.prems show ?case
  proof (cases rule: same_textE)
    case (some s ps' qs')
    have "rel_option (\<lambda>(ss, ps') (ts, qs'). ss = ts \<and> length ps' = length qs') (build_all fs ps') (build_all gs qs')"
      using Cons.IH some(3) by blast
    then show ?thesis using some by (cases "build_all fs ps'"; cases "build_all gs qs'") auto
  qed simp
qed simp

lemma build_all_total: "(\<And>f ps. f \<in> set fs \<Longrightarrow> f ps \<noteq> None) \<Longrightarrow> build_all fs ps \<noteq> None"
proof (induction fs arbitrary: ps)
  case (Cons f fs)
  obtain s ps1 where "f ps = Some (s, ps1)" using Cons.prems [of f ps] by auto
  moreover have "build_all fs ps1 \<noteq> None" using Cons by simp
  ultimately show ?case by auto
qed simp

end
