(* ===== verification/ThreatClassification.thy ===== *)
theory ThreatClassification
  imports TH_Prelude
begin

text \<open>
  Threat classification slugs (\<open>backend/lib/threatClassification.js\<close>): the normalizer with its map of
  legacy spellings, the registry cache of the process (a \<open>Map\<close> from slug to entry, kept here as an
  association list in insertion order, \<open>None\<close> while not loaded) with the operations that load, read
  and invalidate it, slug validation, and the stored spellings that SQL compares with. The rows of the
  registry query are an argument. The legacy input \<open>not selected\<close> between em dashes has code units
  above 255 and is outside the string model. Shown: the normalizer returns slugs and is idempotent, a
  validated slug is \<open>unknown\<close> or a registered active one, and which legacy aliases are dead.
\<close>

section \<open>The normalizer\<close>

definition UNKNOWN_THREAT_CLASSIFICATION :: string where
  "UNKNOWN_THREAT_CLASSIFICATION = ''unknown''"

definition LEGACY_NORMALIZE_MAP :: "(string \<times> string) list" where
  "LEGACY_NORMALIZE_MAP =
     [(''c2'', ''command_and_control''), (''cc'', ''command_and_control''), (''cnc'', ''command_and_control''),
      (''command_and_control'', ''command_and_control''), (''command and control'', ''command_and_control''),
      (''command-control'', ''command_and_control''), (''botnet_cc'', ''command_and_control''),
      (''scanner'', ''scanner_recon''), (''recon'', ''scanner_recon''), (''reconnaissance'', ''scanner_recon''),
      (''scanner_recon'', ''scanner_recon''), (''suspicious_infra'', ''suspicious_infrastructure''),
      (''suspicious_infrastructure'', ''suspicious_infrastructure''), (''malware_download'', ''dropper_downloader''),
      (''malware_delivery'', ''dropper_downloader''), (''downloader'', ''dropper_downloader''),
      (''dropper'', ''dropper_downloader''), (''phish'', ''phishing''), (''test'', ''benign_test''),
      (''benign_test'', ''benign_test''), (''exploit_explitation'', ''exploit''),
      (''exploit / explitation'', ''exploit''), (''exploit / exploitation'', ''exploit''),
      (''spam'', ''spam_abuse''), (''malspam'', ''spam_abuse'')]"

text \<open>\<open>/[\s-]+/g\<close> replaced by an underscore.\<close>

definition sep_char :: "char \<Rightarrow> bool" where
  "sep_char c \<longleftrightarrow> js_ws c \<or> c = CHR ''-''"

fun fold_seps :: "string \<Rightarrow> string" where
  "fold_seps [] = []"
| "fold_seps (c # cs) =
     (if sep_char c
      then (case cs of d # _ \<Rightarrow> if sep_char d then fold_seps cs else CHR ''_'' # fold_seps cs | [] \<Rightarrow> [CHR ''_''])
      else c # fold_seps cs)"

definition slug_char :: "char \<Rightarrow> bool" where
  "slug_char c \<longleftrightarrow> is_lower c \<or> is_digit c \<or> c = CHR ''_''"

definition slug_shaped :: "string \<Rightarrow> bool" where
  "slug_shaped s \<longleftrightarrow> s \<noteq> [] \<and> list_all slug_char s"

definition normalizeClassificationSlug :: "string option \<Rightarrow> string option \<Rightarrow> string option" where
  "normalizeClassificationSlug raw defaultValue =
     (case raw of
        None \<Rightarrow> defaultValue
      | Some r \<Rightarrow>
          if r = [] then defaultValue
          else
            let s = js_lower (js_trim r)
            in if s = ''not selected'' then Some UNKNOWN_THREAT_CLASSIFICATION
               else
                 let s' = fold_seps s
                 in case map_of LEGACY_NORMALIZE_MAP s' of
                      Some slug \<Rightarrow> Some slug
                    | None \<Rightarrow> if slug_shaped s' then Some s' else defaultValue)"

text \<open>With the default argument of the source.\<close>

definition normalizeThreatClassification :: "string option \<Rightarrow> string" where
  "normalizeThreatClassification raw =
     (case normalizeClassificationSlug raw (Some UNKNOWN_THREAT_CLASSIFICATION) of
        Some s \<Rightarrow> s | None \<Rightarrow> UNKNOWN_THREAT_CLASSIFICATION)"

text \<open>\<open>/[^a-z0-9_]+/g\<close> replaced by an underscore, and underscores trimmed at both ends.\<close>

fun fold_others :: "string \<Rightarrow> string" where
  "fold_others [] = []"
| "fold_others (c # cs) =
     (if \<not> slug_char c
      then (case cs of d # _ \<Rightarrow> if \<not> slug_char d then fold_others cs else CHR ''_'' # fold_others cs | [] \<Rightarrow> [CHR ''_''])
      else c # fold_others cs)"

definition trim_underscores :: "string \<Rightarrow> string" where
  "trim_underscores s =
     rev (dropWhile (\<lambda>c. c = CHR ''_'') (rev (dropWhile (\<lambda>c. c = CHR ''_'') s)))"

definition normalizeThreatClassificationSlugInput :: "string \<Rightarrow> string" where
  "normalizeThreatClassificationSlugInput raw =
     trim_underscores (fold_others (fold_seps (js_lower (js_trim raw))))"

section \<open>The registry cache\<close>

record registry_entry =
  re_slug :: string
  re_name :: string
  re_active :: bool
  re_system_default :: bool
  re_sort_order :: int

type_synonym registry = "(string \<times> registry_entry) list"

text \<open>\<open>Map.set\<close>: a known key keeps its place.\<close>

fun map_set :: "'k \<Rightarrow> 'v \<Rightarrow> ('k \<times> 'v) list \<Rightarrow> ('k \<times> 'v) list" where
  "map_set k v [] = [(k, v)]"
| "map_set k v ((k', v') # m) = (if k = k' then (k, v) # m else (k', v') # map_set k v m)"

definition invalidateThreatClassificationRegistry :: "registry option \<Rightarrow> registry option" where
  "invalidateThreatClassificationRegistry cache = None"

definition loadThreatClassificationRegistry :: "registry_entry list \<Rightarrow> registry option \<Rightarrow> registry \<times> registry option" where
  "loadThreatClassificationRegistry rows cache =
     (let m = foldl (\<lambda>m row. map_set (re_slug row) row m) [] rows in (m, Some m))"

definition ensureThreatClassificationRegistry :: "registry_entry list \<Rightarrow> registry option \<Rightarrow> registry \<times> registry option" where
  "ensureThreatClassificationRegistry rows cache =
     (case cache of Some m \<Rightarrow> (m, cache) | None \<Rightarrow> loadThreatClassificationRegistry rows cache)"

definition lookupThreatClassificationEntry :: "registry option \<Rightarrow> string \<Rightarrow> registry_entry option" where
  "lookupThreatClassificationEntry cache slug = (case cache of None \<Rightarrow> None | Some m \<Rightarrow> map_of m slug)"

definition listCachedThreatClassifications :: "registry option \<Rightarrow> registry_entry list option" where
  "listCachedThreatClassifications cache = map_option (map snd) cache"

datatype validation = Valid string | UnknownSlug | InactiveSlug string

definition validateThreatClassificationSlug ::
    "registry_entry list \<Rightarrow> bool \<Rightarrow> string option \<Rightarrow> registry option \<Rightarrow> validation \<times> registry option" where
  "validateThreatClassificationSlug rows requireActive raw cache =
     (let slug = normalizeThreatClassification raw
      in if slug = UNKNOWN_THREAT_CLASSIFICATION then (Valid slug, cache)
         else
           let (reg, cache') = ensureThreatClassificationRegistry rows cache
           in case map_of reg slug of
                None \<Rightarrow> (UnknownSlug, cache')
              | Some entry \<Rightarrow>
                  if requireActive \<and> \<not> re_active entry then (InactiveSlug slug, cache')
                  else (Valid slug, cache'))"

section \<open>Stored spellings\<close>

definition replace_underscores :: "char \<Rightarrow> string \<Rightarrow> string" where
  "replace_underscores r s = map (\<lambda>c. if c = CHR ''_'' then r else c) s"

definition spellings :: "string \<Rightarrow> string list" where
  "spellings raw = remdups [raw, replace_underscores SPACE raw, replace_underscores (CHR ''-'') raw]"

definition legacyClassificationSpellings :: "(string \<times> string) list" where
  "legacyClassificationSpellings =
     foldl (\<lambda>out (key, slug).
              let folded = fold_seps (js_lower (js_trim key))
              in if normalizeThreatClassification (Some folded) = slug
                 then foldl (\<lambda>m v. map_set v slug m) out (spellings folded) else out)
       [] LEGACY_NORMALIZE_MAP"

section \<open>Lemmas\<close>

lemma fold_seps_no_sep: "list_all (\<lambda>c. \<not> sep_char c) s \<Longrightarrow> fold_seps s = s"
  by (induction s) auto

lemma sep_char_others: "\<not> sep_char (CHR ''_'')"
  by (simp add: sep_char_def js_ws_def)

lemma fold_seps_chars: "list_all (\<lambda>c. \<not> sep_char c) (fold_seps s)"
  by (induction s rule: fold_seps.induct) (auto simp: sep_char_others split: list.splits if_splits)

lemma slug_char_plain: "slug_char c \<Longrightarrow> \<not> sep_char c \<and> \<not> js_ws c \<and> js_lower_char c = c"
  by (auto simp: slug_char_def sep_char_def js_lower_char_def char_class_defs)

lemma slug_shaped_fixed:
  assumes "slug_shaped s"
  shows "js_trim s = s \<and> js_lower s = s \<and> fold_seps s = s \<and> s \<noteq> ''not selected''"
proof -
  have all: "\<And>c. c \<in> set s \<Longrightarrow> \<not> sep_char c \<and> \<not> js_ws c \<and> js_lower_char c = c"
    using assms slug_char_plain by (auto simp: slug_shaped_def list_all_iff)
  have "trimmed s" using all by (intro trimmed_no_ws) (auto simp: list_all_iff)
  moreover have "js_lower s = s" using all by (auto simp: js_lower_def intro!: map_idI)
  moreover have "s \<noteq> ''not selected''" using all [of SPACE] by (auto simp: js_ws_def)
  ultimately show ?thesis using all by (simp add: fold_seps_no_sep list_all_iff)
qed

lemma legacy_values:
  "map_of LEGACY_NORMALIZE_MAP k = Some slug \<Longrightarrow>
     slug_shaped slug \<and> (map_of LEGACY_NORMALIZE_MAP slug = Some slug \<or> map_of LEGACY_NORMALIZE_MAP slug = None)"
proof -
  assume "map_of LEGACY_NORMALIZE_MAP k = Some slug"
  then have "slug \<in> snd ` set LEGACY_NORMALIZE_MAP" by (force dest: map_of_SomeD)
  then have "slug \<in> {''command_and_control'', ''scanner_recon'', ''suspicious_infrastructure'',
      ''dropper_downloader'', ''phishing'', ''benign_test'', ''exploit'', ''spam_abuse''}"
    by (simp add: LEGACY_NORMALIZE_MAP_def)
  then show ?thesis
    by (elim insertE emptyE) (simp_all add: slug_shaped_def slug_char_def is_lower_def is_digit_def LEGACY_NORMALIZE_MAP_def)
qed

lemma normalizeClassificationSlug_result:
  assumes "normalizeClassificationSlug raw None = Some s"
  shows "slug_shaped s \<and> normalizeClassificationSlug (Some s) d = Some s"
proof -
  obtain r where r: "raw = Some r" using assms by (cases raw) (auto simp: normalizeClassificationSlug_def)
  have unknown: "slug_shaped UNKNOWN_THREAT_CLASSIFICATION"
      "map_of LEGACY_NORMALIZE_MAP UNKNOWN_THREAT_CLASSIFICATION = None"
    by (simp_all add: UNKNOWN_THREAT_CLASSIFICATION_def slug_shaped_def slug_char_def is_lower_def LEGACY_NORMALIZE_MAP_def)
  have "slug_shaped s \<and> (map_of LEGACY_NORMALIZE_MAP s = Some s \<or> map_of LEGACY_NORMALIZE_MAP s = None)"
    using assms unknown legacy_values
    by (auto simp: normalizeClassificationSlug_def r Let_def split: if_splits option.splits)
  then show ?thesis
    using slug_shaped_fixed [of s]
    by (auto simp: normalizeClassificationSlug_def Let_def slug_shaped_def)
qed

lemma map_of_map_set: "map_of (map_set k v m) j = (if j = k then Some v else map_of m j)"
  by (induction m) auto

text \<open>The loaded map holds each slug's last row.\<close>

lemma load_registry_entry:
  "map_of (foldl (\<lambda>m row. map_set (re_slug row) row m) m0 rows) slug = Some e \<Longrightarrow>
     (e \<in> set rows \<and> re_slug e = slug) \<or> map_of m0 slug = Some e"
  by (induction rows arbitrary: m0) (force simp: map_of_map_set split: if_splits)+

lemma normalizeThreatClassification_shaped: "slug_shaped (normalizeThreatClassification raw)"
proof (cases "normalizeClassificationSlug raw None")
  case (Some s)
  then have "normalizeThreatClassification raw = s"
    by (auto simp: normalizeThreatClassification_def normalizeClassificationSlug_def Let_def
        split: option.splits if_splits)
  then show ?thesis using normalizeClassificationSlug_result [OF Some] by simp
next
  case None
  then have "normalizeThreatClassification raw = UNKNOWN_THREAT_CLASSIFICATION"
    by (auto simp: normalizeThreatClassification_def normalizeClassificationSlug_def Let_def
        split: option.splits if_splits)
  then show ?thesis by (simp add: UNKNOWN_THREAT_CLASSIFICATION_def slug_shaped_def slug_char_def is_lower_def)
qed

section \<open>Properties\<close>

text \<open>the classification normalizer returns slugs and is idempotent. Whatever it returns for an
  input consists of lower-case letters, digits and underscores, and normalizing that slug again, under any
  default, gives the same slug; in particular the values of the legacy map are not themselves remapped.\<close>

theorem normalizeClassificationSlug_idempotent:
  assumes "normalizeClassificationSlug raw None = Some s"
  shows "slug_shaped s \<and> normalizeClassificationSlug (Some s) d = Some s"
  using assms by (rule normalizeClassificationSlug_result)

theorem normalizeClassificationSlug_idempotent_witness:
  "slug_shaped ''command_and_control'' \<and>
   normalizeClassificationSlug (Some ''command_and_control'') (Some ''x'') = Some ''command_and_control''"
  by (rule normalizeClassificationSlug_idempotent [where raw = "Some ''C2 ''"]) code_simp

text \<open>Slug validation agrees with the registry. With a freshly loaded registry an input is accepted
  exactly when its slug is \<open>unknown\<close> or the registry has an entry for it which, when activity is
  required, is active; the cache is loaded at most once, and an already loaded one is not changed.\<close>

theorem validateThreatClassificationSlug_correct:
  "(fst (validateThreatClassificationSlug rows requireActive raw None) = Valid (normalizeThreatClassification raw) \<longleftrightarrow>
      normalizeThreatClassification raw = UNKNOWN_THREAT_CLASSIFICATION \<or>
      (\<exists>e. lookupThreatClassificationEntry (snd (loadThreatClassificationRegistry rows None))
              (normalizeThreatClassification raw) = Some e \<and>
           e \<in> set rows \<and> re_slug e = normalizeThreatClassification raw \<and>
           (if requireActive then re_active e else True))) \<and>
   snd (validateThreatClassificationSlug rows requireActive raw (Some m)) = Some m"
proof (cases "normalizeThreatClassification raw = UNKNOWN_THREAT_CLASSIFICATION")
  case True
  then show ?thesis by (simp add: validateThreatClassificationSlug_def Let_def)
next
  case False
  let ?m = "foldl (\<lambda>m row. map_set (re_slug row) row m) [] rows"
  let ?slug = "normalizeThreatClassification raw"
  have e: "map_of ?m ?slug = Some e \<Longrightarrow> e \<in> set rows \<and> re_slug e = ?slug" for e
    using load_registry_entry [of "[]" rows ?slug e] by auto
  show ?thesis
  proof (cases "map_of ?m ?slug")
    case None
    with False show ?thesis
      by (simp add: validateThreatClassificationSlug_def ensureThreatClassificationRegistry_def
          loadThreatClassificationRegistry_def lookupThreatClassificationEntry_def Let_def split: option.split)
  next
    case (Some x)
    with False e [OF Some] show ?thesis
      by (simp add: validateThreatClassificationSlug_def ensureThreatClassificationRegistry_def
          loadThreatClassificationRegistry_def lookupThreatClassificationEntry_def Let_def split: option.split)
  qed
qed

text \<open>Three keys of the legacy map can never be looked up, because blanks and hyphens are folded to
  underscores before the lookup: \<open>command-control\<close> keeps its own spelling and the two spellings
  with a slash fall back to the default.\<close>

theorem legacy_aliases_dead:
  "normalizeClassificationSlug (Some ''command-control'') None = Some ''command_control'' \<and>
   normalizeClassificationSlug (Some ''exploit / explitation'') None = None \<and>
   normalizeClassificationSlug (Some ''exploit / exploitation'') None = None"
  by code_simp

end
