(* ===== verification/ClassificationSql.thy ===== *)
theory ClassificationSql
  imports SqlFragments ThreatClassification
begin

text \<open>
  The \<open>classification\<close> predicate of the IOC Search DSL
  (\<open>backend/lib/iocSearchDsl/classificationPredicate.js\<close>): the resolution of the values to slugs, the
  stored spellings that the indexed column is compared with, and the SQL of the effective
  classification. The registry argument is the list of loaded classification entries, \<open>None\<close> when
  it is not loaded. A JavaScript \<open>Set\<close> is a list without duplicates in insertion order.
\<close>

section \<open>Targets and spellings\<close>

definition set_add :: "'a \<Rightarrow> 'a list \<Rightarrow> 'a list" where
  "set_add x xs = (if x \<in> set xs then xs else xs @ [x])"

definition SLUG_SHAPED :: "string \<Rightarrow> bool" where
  "SLUG_SHAPED s \<longleftrightarrow> s \<noteq> [] \<and> list_all (\<lambda>c. slug_char c \<or> c = SPACE \<or> c = CHR ''-'') s"

record legacy_spellings =
  ls_keys :: "string list"
  ls_slugs :: "string list"

definition legacySpellings :: legacy_spellings where
  "legacySpellings =
     \<lparr>ls_keys = map fst legacyClassificationSpellings, ls_slugs = map snd legacyClassificationSpellings\<rparr>"

text \<open>One turn of the loop over the values; the later of two entries with the same label wins.\<close>

definition resolve_value ::
    "registry_entry list option \<Rightarrow> string list \<times> string list \<Rightarrow> string \<Rightarrow> string list \<times> string list" where
  "resolve_value registry acc v =
     (let (slugs, unresolved) = acc;
          byLabel = map_of (rev (map (\<lambda>e. (js_lower (js_trim (re_name e)), re_slug e))
                      (case registry of Some r \<Rightarrow> r | None \<Rightarrow> [])));
          lower = js_lower (js_trim v)
      in if lower = [] then acc
         else
           let slugs1 = (if lower \<noteq> UNKNOWN_THREAT_CLASSIFICATION then set_add lower slugs else slugs);
               slugs2 = (case normalizeClassificationSlug (Some v) None of
                           Some s \<Rightarrow> if s \<noteq> UNKNOWN_THREAT_CLASSIFICATION then set_add s slugs1 else slugs1
                         | None \<Rightarrow> slugs1)
           in case byLabel lower of
                Some l \<Rightarrow>
                  if l \<noteq> [] \<and> l \<noteq> UNKNOWN_THREAT_CLASSIFICATION then (set_add l slugs2, unresolved)
                  else (slugs2, unresolved)
              | None \<Rightarrow>
                  if registry = None \<and> \<not> SLUG_SHAPED lower then (slugs2, unresolved @ [lower])
                  else (slugs2, unresolved))"

definition resolveClassificationTargets :: "registry_entry list option \<Rightarrow> string list \<Rightarrow> string list \<times> string list" where
  "resolveClassificationTargets registry values = foldl (resolve_value registry) ([], []) values"

definition storedClassificationSpellings :: "string list \<Rightarrow> string list" where
  "storedClassificationSpellings slugs =
     (let pairs = legacyClassificationSpellings;
          target = foldl (\<lambda>s x. set_add x s) [] slugs;
          out = foldl (\<lambda>s x. set_add x s) [] (map fst (filter (\<lambda>(raw, slug). slug \<in> set target) pairs))
      in foldl (\<lambda>out t.
           foldl (\<lambda>out v.
             (case map_of pairs v of
                Some mapped \<Rightarrow> if mapped = t then set_add v out else out
              | None \<Rightarrow> set_add v out))
             out [t, replace_underscores SPACE t, replace_underscores (CHR ''-'') t])
           out target)"

section \<open>The SQL\<close>

definition storedSlug :: "sql \<Rightarrow> sql \<Rightarrow> string \<Rightarrow> sql" where
  "storedSlug pLegK pLegS rawExpr =
     (let folded = lit ''regexp_replace(LOWER(btrim('' @ lit rawExpr @ lit '')), '[[:space:]-]+', '_', 'g')''
      in lit ''COALESCE((SELECT m.s FROM unnest('' @ pLegK @ lit ''::text[], '' @ pLegS @ lit ''::text[]) AS m(k, s) WHERE m.k = '' @ folded @ lit '' LIMIT 1), '' @ folded @ lit '')'')"

definition sameIdentity :: "bool \<Rightarrow> string \<Rightarrow> string \<Rightarrow> string \<Rightarrow> string \<Rightarrow> sql" where
  "sameIdentity fileArtifactsReadEnabled oId oType xId xType =
     (let artifact = (if fileArtifactsReadEnabled
            then lit ''
            OR EXISTS (SELECT 1 FROM file_artifact_ioc_links lo
                         JOIN file_artifact_ioc_links lx ON lx.artifact_id = lo.artifact_id
                        WHERE lo.ioc_item_id = '' @ lit oId @ lit '' AND lo.ioc_observable_type = '' @ lit oType @ lit ''
                          AND lx.ioc_item_id = '' @ lit xId @ lit '' AND lx.ioc_observable_type = '' @ lit xType @ lit '')''
            else [])
      in lit ''(('' @ lit oId @ lit '' = '' @ lit xId @ lit '' AND '' @ lit oType @ lit '' = '' @ lit xType @ lit '')
            OR EXISTS (SELECT 1 FROM ioc_items oi JOIN ioc_items xi
                          ON xi.observable_type = oi.observable_type AND xi.observable = oi.observable
                        WHERE oi.id = '' @ lit oId @ lit '' AND oi.observable_type = '' @ lit oType @ lit ''
                          AND xi.id = '' @ lit xId @ lit '' AND xi.observable_type = '' @ lit xType @ lit '')'' @ artifact @ lit '')'')"

definition suppressed :: "bool \<Rightarrow> string \<Rightarrow> string \<Rightarrow> sql \<Rightarrow> string \<Rightarrow> sql" where
  "suppressed fileArtifactsReadEnabled xId xType slugExpr sourceExpr =
     lit ''EXISTS (
        SELECT 1 FROM ioc_threat_classification_overrides o
         WHERE o.action = 'suppress' AND o.cleared_at IS NULL
           AND LOWER(btrim(o.classification_slug)) = '' @ slugExpr @ lit (''
           AND (COALESCE(btrim(o.source_name), '' @ [SQUOTE] @ [SQUOTE] @ '') = '' @ [SQUOTE] @ [SQUOTE] @ ''
                OR LOWER(btrim(o.source_name)) = LOWER(btrim('') @ lit sourceExpr @ lit '')))
           AND '' @ sameIdentity fileArtifactsReadEnabled ''o.ioc_id'' ''o.ioc_observable_type'' xId xType @ lit '')''"

definition evidenceSlugs :: sql where
  "evidenceSlugs = lit ''public.ioc_feed_evidence_classification_slugs(e.category, e.note)''"

definition membership :: "bool \<Rightarrow> sql \<Rightarrow> sql \<Rightarrow> sql \<Rightarrow> sql \<Rightarrow> sql" where
  "membership fileArtifactsReadEnabled pLegK pLegS tgt stored =
     lit ''
      SELECT itc.ioc_observable_type, itc.ioc_id
        FROM ioc_threat_classifications itc
       WHERE itc.classification_slug = ANY('' @ tgt @ lit '')
      UNION
      SELECT x.observable_type, x.id
        FROM ioc_items x
       WHERE x.threat_classification = ANY('' @ stored @ lit '')
         AND (
           (x.ioc_source_id IS NULL
             AND NOT '' @ suppressed fileArtifactsReadEnabled ''x.id'' ''x.observable_type'' (storedSlug pLegK pLegS ''x.threat_classification'') ''x.source_name'' @ lit '')
           OR (x.ioc_source_id IS NOT NULL
             AND NOT EXISTS (SELECT 1 FROM ioc_threat_classifications xj
                              WHERE xj.ioc_id = x.id AND xj.ioc_observable_type = x.observable_type))
         )
      UNION
      SELECT e.ioc_observable_type, e.ioc_item_id
        FROM ioc_feed_source_evidence e
        JOIN integration_feeds f ON f.integration_id = e.feed_id
        CROSS JOIN LATERAL unnest('' @ evidenceSlugs @ lit '') AS p(slug)
       WHERE '' @ evidenceSlugs @ lit '' && '' @ tgt @ lit ''
         AND '' @ evidenceSlugs @ lit '' <> ARRAY[]::text[]
         AND p.slug = ANY('' @ tgt @ lit '')
         AND NOT '' @ suppressed fileArtifactsReadEnabled ''e.ioc_item_id'' ''e.ioc_observable_type'' (lit ''p.slug'') ''e.source_name''"

definition closure :: "bool \<Rightarrow> sql \<Rightarrow> sql" where
  "closure fileArtifactsReadEnabled members =
     lit ''
      SELECT z.t, z.id
        FROM ('' @ members @ lit '') AS mm(t, id)
        CROSS JOIN LATERAL (
          SELECT mm.t, mm.id
          UNION
          SELECT s.observable_type, s.id
            FROM ioc_items mi
            JOIN ioc_items s ON s.observable_type = mi.observable_type AND s.observable = mi.observable
           WHERE mi.id = mm.id AND mi.observable_type = mm.t'' @ (if fileArtifactsReadEnabled then lit ''
          UNION
          SELECT l2.ioc_observable_type, l2.ioc_item_id
            FROM file_artifact_ioc_links l1
            JOIN file_artifact_ioc_links l2 ON l2.artifact_id = l1.artifact_id
           WHERE l1.ioc_item_id = mm.id AND l1.ioc_observable_type = mm.t'' else []) @ lit ''
        ) AS z(t, id)''"

text \<open>The target and stored-spelling arrays; when a label is unresolved, it is looked up in the catalog
  in SQL.\<close>

definition target_sql :: "bool \<Rightarrow> sql \<Rightarrow> sql \<Rightarrow> sql" where
  "target_sql unresolved p1 p2 =
     (if unresolved
      then lit ''ARRAY(SELECT tz.x FROM (
          SELECT unnest('' @ p1 @ lit ''::text[]) AS x
          UNION SELECT tc.slug FROM threat_classifications tc
                 WHERE LOWER(tc.name) = ANY('' @ p2 @ lit ''::text[])
        ) tz WHERE tz.x <> 'unknown')''
      else p1 @ lit ''::text[]'')"

definition stored_sql :: "bool \<Rightarrow> sql \<Rightarrow> sql \<Rightarrow> sql \<Rightarrow> sql \<Rightarrow> sql" where
  "stored_sql unresolved pLegK pLegS tgt p2 =
     (if unresolved
      then lit ''(ARRAY(SELECT m.k FROM unnest('' @ pLegK @ lit ''::text[], '' @ pLegS @ lit ''::text[]) AS m(k, s) WHERE m.s = ANY('' @ tgt @ lit ''))
        || ARRAY(SELECT sp.v FROM unnest('' @ tgt @ lit '') AS tg(x),
                  LATERAL (VALUES (tg.x), (replace(tg.x, '_', ' ')), (replace(tg.x, '_', '-'))) AS sp(v)
                 WHERE NOT (sp.v = ANY('' @ pLegK @ lit ''::text[]))))''
      else p2 @ lit ''::text[]'')"

definition positive_sql :: "bool \<Rightarrow> sql \<Rightarrow> sql \<Rightarrow> sql" where
  "positive_sql fileArtifactsReadEnabled members clos =
     (if fileArtifactsReadEnabled
      then lit ''(i.observable_type, i.id) IN ('' @ members @ lit ''
    )''
      else lit ''(i.observable_type, i.id) IN ('' @ clos @ lit ''
    )'')"

definition negative_sql :: "sql \<Rightarrow> sql" where
  "negative_sql clos = lit ''NOT EXISTS (
      SELECT 1 FROM ('' @ clos @ lit '') AS cx(t, id)
       WHERE cx.t = i.observable_type AND cx.id = i.id
    )''"

definition classification_sql :: "bool \<Rightarrow> string \<Rightarrow> bool \<Rightarrow> sql \<Rightarrow> sql \<Rightarrow> sql \<Rightarrow> sql \<Rightarrow> sql option" where
  "classification_sql fileArtifactsReadEnabled operator unresolved pLegK pLegS p1 p2 =
     (let tgt = target_sql unresolved p1 p2;
          stored = stored_sql unresolved pLegK pLegS tgt p2;
          members = membership fileArtifactsReadEnabled pLegK pLegS tgt stored;
          clos = closure fileArtifactsReadEnabled members
      in if operator = ''equals'' \<or> operator = ''in'' then Some (positive_sql fileArtifactsReadEnabled members clos)
         else if operator = ''not_equals'' \<or> operator = ''not_in'' then Some (negative_sql clos)
         else None)"

definition buildEffectiveClassificationPredicate ::
    "registry_entry list option \<Rightarrow> bool \<Rightarrow> string \<Rightarrow> string list \<Rightarrow> builder" where
  "buildEffectiveClassificationPredicate registry fileArtifactsReadEnabled operator values ps =
     (let resolved = resolveClassificationTargets registry values;
          slugs = fst resolved;
          unresolvedLabels = snd resolved;
          (pLegK, ps1) = bind_value (PTexts (ls_keys legacySpellings)) ps;
          (pLegS, ps2) = bind_value (PTexts (ls_slugs legacySpellings)) ps1;
          (p1, ps3) = bind_value (PTexts slugs) ps2;
          (p2, ps4) = bind_value (PTexts (if unresolvedLabels = [] then storedClassificationSpellings slugs
                                          else unresolvedLabels)) ps3
      in case classification_sql fileArtifactsReadEnabled operator (unresolvedLabels \<noteq> []) pLegK pLegS p1 p2 of
           None \<Rightarrow> None | Some s \<Rightarrow> Some (s, ps4))"

section \<open>Placeholder discipline\<close>

lemma phs_sameIdentity [simp]: "phs (sameIdentity fa a b c d) = {}"
  by (simp add: sameIdentity_def Let_def)

lemma phs_suppressed [simp]: "phs (suppressed fa a b s e) = phs s"
  by (simp add: suppressed_def)

lemma phs_storedSlug [simp]: "phs (storedSlug k s r) = phs k \<union> phs s"
  by (auto simp: storedSlug_def Let_def)

lemma phs_membership [simp]: "phs (membership fa k s t st) = phs k \<union> phs s \<union> phs t \<union> phs st"
  by (auto simp: membership_def evidenceSlugs_def)

lemma phs_closure [simp]: "phs (closure fa m) = phs m"
  by (simp add: closure_def)

lemma phs_class_parts [simp]:
  "phs (positive_sql fa m (closure fa m)) = phs m" "phs (negative_sql c) = phs c"
  by (simp_all add: positive_sql_def negative_sql_def)

lemma phs_target [simp]: "phs (target_sql u p1 p2) = phs p1 \<union> (if u then phs p2 else {})"
  by (simp add: target_sql_def)

lemma phs_stored [simp]: "phs (stored_sql u k s tg p2) = (if u then phs k \<union> phs s \<union> phs tg else phs p2)"
  by (auto simp: stored_sql_def)

lemma classification_sql_cases:
  assumes "classification_sql fa opr u k s p1 p2 = Some r"
  defines "m \<equiv> membership fa k s (target_sql u p1 p2) (stored_sql u k s (target_sql u p1 p2) p2)"
  shows "r = positive_sql fa m (closure fa m) \<or> r = negative_sql (closure fa m)"
  using assms(1) unfolding classification_sql_def Let_def m_def by (simp split: if_splits)

lemma phs_classification_sql:
  assumes "classification_sql fa opr u k s p1 p2 = Some r"
  shows "phs r = phs k \<union> phs s \<union> phs p1 \<union> phs p2"
proof -
  have "phs r = phs k \<union> phs s \<union> phs (target_sql u p1 p2) \<union> phs (stored_sql u k s (target_sql u p1 p2) p2)"
    using classification_sql_cases [OF assms]
    by (elim disjE) (simp_all only: phs_class_parts phs_closure phs_membership)
  then show ?thesis by (cases u) (simp_all add: Un_ac)
qed

lemma classification_binds:
  "buildEffectiveClassificationPredicate reg fa opr vs ps =
     (case classification_sql fa opr (snd (resolveClassificationTargets reg vs) \<noteq> [])
         [Ph (Suc (length ps))] [Ph (Suc (Suc (length ps)))] [Ph (Suc (Suc (Suc (length ps))))]
         [Ph (Suc (Suc (Suc (Suc (length ps)))))] of
        None \<Rightarrow> None
      | Some s \<Rightarrow> Some (s, ps @ [PTexts (ls_keys legacySpellings), PTexts (ls_slugs legacySpellings),
          PTexts (fst (resolveClassificationTargets reg vs)),
          PTexts (if snd (resolveClassificationTargets reg vs) = []
                  then storedClassificationSpellings (fst (resolveClassificationTargets reg vs))
                  else snd (resolveClassificationTargets reg vs))]))"
  by (simp add: buildEffectiveClassificationPredicate_def bind_value_def Let_def split: option.split)

lemma well_bound_classification: "well_bound (buildEffectiveClassificationPredicate reg fa opr vs)"
  unfolding well_bound_def classification_binds
  by (intro allI impI) (fastforce dest: phs_classification_sql split: option.splits)

lemma classification_total:
  "opr \<in> {''equals'', ''in'', ''not_equals'', ''not_in''} \<Longrightarrow>
     buildEffectiveClassificationPredicate reg fa opr vs ps \<noteq> None"
  by (elim insertE emptyE) (simp_all add: buildEffectiveClassificationPredicate_def classification_sql_def bind_value_def Let_def)

lemma same_text_classification:
  assumes "(snd (resolveClassificationTargets reg vs) = []) = (snd (resolveClassificationTargets reg ws) = [])"
  shows "same_text (buildEffectiveClassificationPredicate reg fa opr vs) (buildEffectiveClassificationPredicate reg fa opr ws)"
  unfolding same_text_def classification_binds using assms by (simp split: option.split)

end
