(* ===== verification/DslSql.thy ===== *)
theory DslSql
  imports ClassificationSql
begin

text \<open>
  The SQL builder of the IOC Search DSL (\<open>backend/lib/iocSearchDsl/queryBuilder.js\<close>), with the membership
  subqueries it takes from \<open>fileArtifacts/hashIdentitySql.js\<close> and
  \<open>threatLibrary/reportTagInheritance.js\<close> (called there with the aliases \<open>trc\<close>, \<open>trr\<close> and \<open>t\<close>, which are
  written out). The builder object is the record \<open>build_conf\<close> (time zone, file-artifact reads,
  evaluation instant, loaded classification registry) and the threaded parameter array. A thrown error is
  \<open>None\<close>. A condition without the value or date that its operator reads is outside the model (the
  parser never makes one).
\<close>

section \<open>Subqueries\<close>

record build_conf =
  tz :: string
  fileArtifactsReadEnabled :: bool
  nowMs :: int
  classRegistry :: "registry_entry list option"

definition artifactAliasIocMembershipSql :: "string \<Rightarrow> sql \<Rightarrow> sql" where
  "artifactAliasIocMembershipSql hashTypeSql hashValueSql =
     lit ''SELECT fal.ioc_observable_type, fal.ioc_item_id
        FROM file_artifact_hashes h
        JOIN file_artifacts hfa ON hfa.id = h.artifact_id
        JOIN file_artifact_ioc_links fal
          ON fal.artifact_id = COALESCE(
               CASE
                 WHEN hfa.status = 'merged' AND hfa.merged_into_artifact_id IS NOT NULL
                   THEN hfa.merged_into_artifact_id
                 ELSE hfa.id
               END,
               hfa.id
             )
       WHERE h.hash_type = '' @ lit hashTypeSql @ lit '' AND h.normalized_hash_value = '' @ hashValueSql"

definition reportTagInheritanceEligibleSql :: string where
  "reportTagInheritanceEligibleSql =
     ''trr.deleted_at IS NULL
       AND trr.import_status IN ('ready', 'imported', 'review_required')
       AND trc.matched_ioc_id IS NOT NULL
       AND trc.is_ioc IS NOT FALSE
       AND trc.review_status NOT IN ('ignored', 'context_only', 'rejected')
       AND trc.assessment NOT IN ('context_only', 'invalid')
       AND trc.match_state NOT IN ('context_only', 'invalid')''"

definition reportTagIocEvidenceSql :: string where
  "reportTagIocEvidenceSql =
     ''EXISTS (
         SELECT 1
           FROM (
             SELECT trc.evidence_text AS txt
             UNION ALL
             SELECT concat_ws(' ', occ->>'section_heading', occ->>'surrounding_text')
               FROM jsonb_array_elements(
                      CASE WHEN jsonb_typeof(trc.evidence->'occurrences') = 'array'
                           THEN trc.evidence->'occurrences' ELSE '[]'::jsonb END
                    ) AS occ
           ) ev
          WHERE ev.txt ~* ('(^|[^[:alnum:]])' || regexp_replace(regexp_replace(lower(t.name), '([.^$*+?()'' @ [BACKSLASH] @ ''['' @ [BACKSLASH] @ '']{}|'' @ [BACKSLASH] @ [BACKSLASH] @ ''])', '' @ [SQUOTE] @ [BACKSLASH] @ [BACKSLASH] @ [BACKSLASH] @ ''1', 'g'), '[[:space:]_-]+', '[[:space:]_-]+', 'g') || '($|[^[:alnum:]])')
       )''"

definition inheritedTagIocMembershipSql :: "sql \<Rightarrow> sql" where
  "inheritedTagIocMembershipSql tagCondSql =
     lit ''SELECT trc.matched_ioc_observable_type, trc.matched_ioc_id
        FROM threat_report_tags trt
        JOIN tags t ON t.id = trt.tag_id
        JOIN threat_reports trr ON trr.id = trt.report_id
        JOIN threat_report_candidates trc ON trc.report_id = trr.id
       WHERE '' @ tagCondSql @ lit ''
         AND '' @ lit reportTagInheritanceEligibleSql @ lit ''
         AND '' @ lit reportTagIocEvidenceSql"

text \<open>\<open>trim().replace(/\s+/g, ' ').toLowerCase()\<close>\<close>

fun fold_ws :: "string \<Rightarrow> string" where
  "fold_ws [] = []"
| "fold_ws (c # cs) =
     (if js_ws c
      then (case cs of d # _ \<Rightarrow> if js_ws d then fold_ws cs else SPACE # fold_ws cs | [] \<Rightarrow> [SPACE])
      else c # fold_ws cs)"

definition normalizeTagValue :: "string \<Rightarrow> string" where
  "normalizeTagValue v = js_lower (fold_ws (js_trim v))"

section \<open>Dates and text columns\<close>

definition bind_in :: "string \<Rightarrow> param \<Rightarrow> string \<Rightarrow> builder" where
  "bind_in a v z ps = (let (ph, ps1) = bind_value v ps in Some (lit a @ ph @ lit z, ps1))"

definition dateExpr :: "build_conf \<Rightarrow> date_lit \<Rightarrow> builder" where
  "dateExpr cf parsed ps =
     (case parsed of
        RelDate amount u \<Rightarrow>
          (case resolveRelativeDate amount u (nowMs cf) of
             None \<Rightarrow> None
           | Some ms \<Rightarrow> bind_in [] (PInstant ms) ''::timestamptz'' ps)
      | AbsDate v hasTz disp \<Rightarrow>
          (if hasTz then bind_in [] (PText v) ''::timestamptz'' ps
           else let (valuePh, ps1) = bind_value (PText v) ps;
                    (tzPh, ps2) = bind_value (PText (tz cf)) ps1
                in Some (lit ''('' @ valuePh @ lit ''::timestamp AT TIME ZONE '' @ tzPh @ lit '')'', ps2)))"

definition ESCAPE_BACKSLASH :: string where
  "ESCAPE_BACKSLASH = '' ESCAPE '' @ [SQUOTE, BACKSLASH, SQUOTE]"

definition ilike :: "string \<Rightarrow> string \<Rightarrow> builder" where
  "ilike col pat = bind_in (col @ '' ILIKE '') (PText pat) ESCAPE_BACKSLASH"

definition not_ilike :: "string \<Rightarrow> string \<Rightarrow> builder" where
  "not_ilike col pat = bind_in (col @ '' NOT ILIKE '') (PText pat) ESCAPE_BACKSLASH"

abbreviation PCT :: string where "PCT \<equiv> ''%''"

definition buildTextColumn :: "string \<Rightarrow> string list \<Rightarrow> string \<Rightarrow> builder" where
  "buildTextColumn operator vs col =
     (let v = nth_or_empty vs 0
      in if operator = ''contains'' then ilike col (PCT @ likeEscape v @ PCT)
         else if operator = ''not_contains'' then not_ilike col (PCT @ likeEscape v @ PCT)
         else if operator = ''starts_with'' then ilike col (likeEscape v @ PCT)
         else if operator = ''ends_with'' then ilike col (PCT @ likeEscape v)
         else if operator = ''equals'' then ilike col (likeEscape v)
         else if operator = ''not_equals'' then not_ilike col (likeEscape v)
         else if operator = ''in'' then bind_in (''LOWER('' @ col @ '') = ANY('') (PTexts (map js_lower vs)) ''::text[])''
         else if operator = ''not_in'' then bind_in (''LOWER('' @ col @ '') <> ALL('') (PTexts (map js_lower vs)) ''::text[])''
         else (\<lambda>ps. None))"

section \<open>One builder per field\<close>

definition buildExactHashIdentityMembership :: "string \<Rightarrow> string \<Rightarrow> builder" where
  "buildExactHashIdentityMembership hashType v ps =
     (let (valuePh, ps1) = bind_value (PText v) ps
      in Some (lit (''(i.observable_type, i.id) IN (
      SELECT d.observable_type, d.id
        FROM ioc_items d
       WHERE d.observable_type = '' @ [SQUOTE]) @ lit hashType @ lit ([SQUOTE] @ '' AND LOWER(d.observable) = '') @ valuePh @ lit ''
      UNION
      '' @ artifactAliasIocMembershipSql ([SQUOTE] @ hashType @ [SQUOTE]) valuePh @ lit ''
    )'', ps1))"

definition buildIoc :: "build_conf \<Rightarrow> string \<Rightarrow> string list \<Rightarrow> builder" where
  "buildIoc cf operator vs =
     (let norm = normalizeIocValue (nth_or_empty vs 0);
          col = ''i.observable'';
          hashType = (if fileArtifactsReadEnabled cf then inferExactHashType norm else None)
      in case (hashType, operator \<in> {''contains'', ''equals'', ''not_contains'', ''not_equals''}) of
           (Some ht, True) \<Rightarrow>
             (if operator = ''not_contains'' \<or> operator = ''not_equals''
              then wrap ''(NOT '' (buildExactHashIdentityMembership ht norm) '')''
              else buildExactHashIdentityMembership ht norm)
         | _ \<Rightarrow>
             (if operator = ''contains'' then ilike col (PCT @ likeEscape norm @ PCT)
              else if operator = ''not_contains'' then not_ilike col (PCT @ likeEscape norm @ PCT)
              else if operator = ''starts_with'' then ilike col (likeEscape norm @ PCT)
              else if operator = ''ends_with'' then ilike col (PCT @ likeEscape norm)
              else if operator = ''equals'' then ilike col (likeEscape norm)
              else if operator = ''not_equals'' then not_ilike col (likeEscape norm)
              else (\<lambda>ps. None)))"

definition source_sql :: "sql \<Rightarrow> sql \<Rightarrow> sql \<Rightarrow> sql" where
  "source_sql onSourceName onFeedName onManualName =
     (let viaFeedDisplay = lit ''EXISTS (
      SELECT 1
      FROM ioc_feed_memberships m
      JOIN integration_feeds f ON f.integration_id = m.feed_id
      WHERE m.ioc_item_id = i.id
        AND m.ioc_observable_type = i.observable_type
        AND ('' @ onFeedName @ lit '')
    )'';
          viaManualSource = lit ''EXISTS (
      SELECT 1
      FROM ioc_sources s
      WHERE s.id = i.ioc_source_id
        AND ('' @ onManualName @ lit '')
    )''
      in lit ''('' @ onSourceName @ lit '' OR '' @ viaFeedDisplay @ lit '' OR '' @ viaManualSource @ lit '')'')"

definition buildSourcePositive :: "string \<Rightarrow> string list \<Rightarrow> builder" where
  "buildSourcePositive operator vs ps =
     (case build_all [buildTextColumn operator vs ''i.source_name'', buildTextColumn operator vs ''f.name'',
                      buildTextColumn operator vs ''s.name''] ps of
        Some ([onSourceName, onFeedName, onManualName], ps1) \<Rightarrow>
          Some (source_sql onSourceName onFeedName onManualName, ps1)
      | _ \<Rightarrow> None)"

definition negativeToPositive :: "(string \<times> string) list" where
  "negativeToPositive = [(''not_contains'', ''contains''), (''not_equals'', ''equals''), (''not_in'', ''in'')]"

definition buildSource :: "string \<Rightarrow> string list \<Rightarrow> builder" where
  "buildSource operator vs =
     (case map_of negativeToPositive operator of
        Some positive \<Rightarrow> wrap ''(NOT '' (buildSourcePositive positive vs) '')''
      | None \<Rightarrow> buildSourcePositive operator vs)"

text \<open>The condition on one name and whether it is negated, shared in shape by tags and threat actors.\<close>

definition tag_base :: "sql \<Rightarrow> sql" where
  "tag_base cond =
     lit ''(i.observable_type, i.id) IN (
      SELECT it.ioc_observable_type, it.ioc_id
        FROM ioc_tags it
        JOIN tags t ON t.id = it.tag_id
       WHERE '' @ cond @ lit ''
      UNION
      '' @ inheritedTagIocMembershipSql cond @ lit ''
    )''"

definition actor_base :: "sql \<Rightarrow> sql" where
  "actor_base cond =
     lit ''EXISTS (SELECT 1 FROM ioc_threat_actors ita JOIN threat_actors ta ON ta.id = ita.threat_actor_id WHERE ita.ioc_id = i.id AND ita.ioc_observable_type = i.observable_type AND '' @ cond @ lit '')''"

definition with_base :: "(sql \<Rightarrow> sql) \<Rightarrow> builder \<Rightarrow> builder" where
  "with_base base f ps = (case f ps of None \<Rightarrow> None | Some (c, ps1) \<Rightarrow> Some (base c, ps1))"

definition buildTag :: "string \<Rightarrow> string list \<Rightarrow> builder" where
  "buildTag operator vs =
     (let v = normalizeTagValue (nth_or_empty vs 0); base = with_base tag_base; neg = (\<lambda>f. wrap ''NOT '' (with_base tag_base f) []);
          like = (\<lambda>pat. ilike ''t.name'' pat);
          eq = bind_in ''t.name = '' (PText v) [];
          any = bind_in ''t.name = ANY('' (PTexts (map normalizeTagValue vs)) ''::text[])''
      in if operator = ''contains'' then base (like (PCT @ likeEscape v @ PCT))
         else if operator = ''not_contains'' then neg (like (PCT @ likeEscape v @ PCT))
         else if operator = ''starts_with'' then base (like (likeEscape v @ PCT))
         else if operator = ''ends_with'' then base (like (PCT @ likeEscape v))
         else if operator = ''equals'' then base eq
         else if operator = ''not_equals'' then neg eq
         else if operator = ''in'' then base any
         else if operator = ''not_in'' then neg any
         else (\<lambda>ps. None))"

definition buildThreatActor :: "string \<Rightarrow> string list \<Rightarrow> builder" where
  "buildThreatActor operator vs =
     (let v = nth_or_empty vs 0; base = with_base actor_base; neg = (\<lambda>f. wrap ''NOT '' (with_base actor_base f) []);
          like = (\<lambda>pat. ilike ''ta.name'' pat);
          eq = bind_in ''LOWER(ta.name) = '' (PText (js_lower v)) [];
          any = bind_in ''LOWER(ta.name) = ANY('' (PTexts (map js_lower vs)) ''::text[])''
      in if operator = ''contains'' then base (like (PCT @ likeEscape v @ PCT))
         else if operator = ''not_contains'' then neg (like (PCT @ likeEscape v @ PCT))
         else if operator = ''starts_with'' then base (like (likeEscape v @ PCT))
         else if operator = ''ends_with'' then base (like (PCT @ likeEscape v))
         else if operator = ''equals'' then base eq
         else if operator = ''not_equals'' then neg eq
         else if operator = ''in'' then base any
         else if operator = ''not_in'' then neg any
         else (\<lambda>ps. None))"

definition buildClassification :: "build_conf \<Rightarrow> string \<Rightarrow> string list \<Rightarrow> builder" where
  "buildClassification cf operator vs =
     buildEffectiveClassificationPredicate (classRegistry cf) (fileArtifactsReadEnabled cf) operator vs"

text \<open>Both branches of the source's \<open>val\<close> lower the value; only the column expression depends on \<open>lower\<close>.\<close>

definition buildSimpleEnum :: "string \<Rightarrow> string list \<Rightarrow> string \<Rightarrow> bool \<Rightarrow> builder" where
  "buildSimpleEnum operator vs col lower =
     (let expr = (if lower then ''LOWER('' @ col @ '')'' else col); v = js_lower (nth_or_empty vs 0)
      in if operator = ''equals'' then bind_in (expr @ '' = '') (PText v) []
         else if operator = ''not_equals'' then bind_in (expr @ '' <> '') (PText v) []
         else if operator = ''in'' then bind_in (expr @ '' = ANY('') (PTexts (map js_lower vs)) ''::text[])''
         else if operator = ''not_in'' then bind_in (expr @ '' <> ALL('') (PTexts (map js_lower vs)) ''::text[])''
         else (\<lambda>ps. None))"

definition artifactHashMatch :: "bool \<Rightarrow> string" where
  "artifactHashMatch primaryOnly =
     (if primaryOnly then ''ph.is_primary = TRUE AND ph.hash_type = '' else ''h.hash_type = '')"

definition artifactHashJoin :: "bool \<Rightarrow> string" where
  "artifactHashJoin primaryOnly =
     (if primaryOnly
      then ''JOIN file_artifact_hashes ph
           ON ph.artifact_id = COALESCE(
  CASE
    WHEN fa.status = 'merged' AND fa.merged_into_artifact_id IS NOT NULL
      THEN fa.merged_into_artifact_id
    ELSE fa.id
  END,
  fa.id
)
          AND ph.is_primary = TRUE''
      else ''JOIN file_artifact_hashes h
           ON h.artifact_id = COALESCE(
  CASE
    WHEN fa.status = 'merged' AND fa.merged_into_artifact_id IS NOT NULL
      THEN fa.merged_into_artifact_id
    ELSE fa.id
  END,
  fa.id
)'')"

definition oneValue :: "bool \<Rightarrow> string \<Rightarrow> builder" where
  "oneValue primaryOnly typeValue ps =
     (let (ph, ps1) = bind_value (PText typeValue) ps
      in Some (lit ''(
        EXISTS (
          SELECT 1
          FROM file_artifact_ioc_links fal
          JOIN file_artifacts fa ON fa.id = fal.artifact_id
          '' @ lit (artifactHashJoin primaryOnly) @ lit ''
          WHERE fal.ioc_item_id = i.id
            AND fal.ioc_observable_type = i.observable_type
            AND '' @ lit (artifactHashMatch primaryOnly) @ ph @ lit ''
        )
        OR (
          NOT EXISTS (
            SELECT 1 FROM file_artifact_ioc_links fal2
            WHERE fal2.ioc_item_id = i.id
              AND fal2.ioc_observable_type = i.observable_type
          )
          AND i.observable_type = '' @ ph @ lit ''
        )
      )'', ps1))"

definition join_built :: "string \<Rightarrow> builder list \<Rightarrow> builder" where
  "join_built sep fs ps =
     (case build_all fs ps of None \<Rightarrow> None | Some (ss, ps1) \<Rightarrow> Some (lit ''('' @ sql_join sep ss @ lit '')'', ps1))"

definition buildArtifactHashTypeEnum :: "string \<Rightarrow> string list \<Rightarrow> bool \<Rightarrow> builder" where
  "buildArtifactHashTypeEnum operator vs primaryOnly =
     (let lowered = map js_lower vs; v = nth_or_empty lowered 0
      in if operator = ''equals'' then oneValue primaryOnly v
         else if operator = ''not_equals'' then wrap ''(NOT '' (oneValue primaryOnly v) '')''
         else if operator = ''in'' then join_built '' OR '' (map (oneValue primaryOnly) lowered)
         else if operator = ''not_in''
         then join_built '' AND '' (map (\<lambda>v. wrap ''(NOT '' (oneValue primaryOnly v) '')'') lowered)
         else (\<lambda>ps. None))"

definition buildType :: "build_conf \<Rightarrow> string \<Rightarrow> string list \<Rightarrow> builder" where
  "buildType cf operator vs =
     (if \<not> fileArtifactsReadEnabled cf then buildSimpleEnum operator vs ''i.observable_type'' False
      else buildArtifactHashTypeEnum operator vs True)"

definition buildKnownHashType :: "string \<Rightarrow> string list \<Rightarrow> builder" where
  "buildKnownHashType operator vs = buildArtifactHashTypeEnum operator vs False"

definition directHash :: "string \<Rightarrow> string \<Rightarrow> builder" where
  "directHash hashType v ps =
     (let (valuePh, ps1) = bind_value (PText v) ps
      in Some (lit (''(i.observable_type = '' @ [SQUOTE]) @ lit hashType @ lit ([SQUOTE] @ '' AND LOWER(i.observable) = '') @ valuePh @ lit '')'', ps1))"

definition buildFileHash :: "build_conf \<Rightarrow> string \<Rightarrow> string \<Rightarrow> string list \<Rightarrow> builder" where
  "buildFileHash cf field operator vs =
     (if field \<notin> {''md5'', ''sha1'', ''sha256''} \<or> operator \<noteq> ''equals'' then (\<lambda>ps. None)
      else
        let hashType = field; v = js_lower (js_trim (nth_or_empty vs 0))
        in if \<not> fileArtifactsReadEnabled cf then directHash hashType v
           else buildExactHashIdentityMembership hashType v)"

definition attr_sql :: "string \<Rightarrow> sql \<Rightarrow> sql" where
  "attr_sql attrType valuePred =
     lit (''(i.observable_type, i.id) IN (
      SELECT fal.ioc_observable_type, fal.ioc_item_id
        FROM file_artifact_non_identity_attrs na
        JOIN file_artifacts nfa ON nfa.id = na.artifact_id
        JOIN file_artifact_ioc_links fal
          ON fal.artifact_id = COALESCE(
               CASE
                 WHEN nfa.status = 'merged' AND nfa.merged_into_artifact_id IS NOT NULL
                   THEN nfa.merged_into_artifact_id
                 ELSE nfa.id
               END,
               nfa.id
             )
       WHERE na.attr_type = '' @ [SQUOTE]) @ lit attrType @ lit ([SQUOTE] @ '' AND '') @ valuePred @ lit ''
    )''"

definition buildNonIdentityAttr :: "string \<Rightarrow> string \<Rightarrow> string list \<Rightarrow> builder" where
  "buildNonIdentityAttr field operator vs =
     (if field \<notin> {''imphash'', ''tlsh'', ''ssdeep''} \<or> operator \<noteq> ''equals'' then (\<lambda>ps. None)
      else with_base (attr_sql field)
             (bind_in (if field = ''tlsh'' then ''LOWER(na.attr_value) = '' else ''na.attr_value = '')
                (PText (nth_or_empty vs 0)) []))"

section \<open>Date fields\<close>

definition date_compare :: "build_conf \<Rightarrow> string \<Rightarrow> string \<Rightarrow> date_lit list \<Rightarrow> builder" where
  "date_compare cf col operator dates ps =
     (if operator = ''after'' \<and> dates \<noteq> [] then wrap (col @ '' > '') (dateExpr cf (dates ! 0)) [] ps
      else if operator = ''before'' \<and> dates \<noteq> [] then wrap (col @ '' < '') (dateExpr cf (dates ! 0)) [] ps
      else if operator = ''between'' \<and> 2 \<le> length dates
      then (case build_all [dateExpr cf (dates ! 0), dateExpr cf (dates ! 1)] ps of
              Some ([d0, d1], ps1) \<Rightarrow>
                Some (lit (''('' @ col @ '' >= '') @ d0 @ lit ('' AND '' @ col @ '' <= '') @ d1 @ lit '')'', ps1)
            | _ \<Rightarrow> None)
      else None)"

definition buildItemDate :: "build_conf \<Rightarrow> string \<Rightarrow> date_lit list \<Rightarrow> string \<Rightarrow> builder" where
  "buildItemDate cf operator dates col = date_compare cf col operator dates"

definition membershipFilter :: string where
  "membershipFilter = ''m.ioc_item_id = i.id AND m.ioc_observable_type = i.observable_type''"

definition firstSeenExpr :: string where
  "firstSeenExpr =
     ''COALESCE((SELECT MIN(m.first_seen_in_feed) FROM ioc_feed_memberships m WHERE '' @ membershipFilter @
     ''), i.first_seen_at)''"

definition buildFirstSeen :: "build_conf \<Rightarrow> string \<Rightarrow> date_lit list \<Rightarrow> builder" where
  "buildFirstSeen cf operator dates = date_compare cf firstSeenExpr operator dates"

text \<open>\<open>last_seen\<close> and \<open>last_changed\<close>: \<open>after\<close> asks for one newer membership, the others compare the maximum.\<close>

definition membership_max :: "build_conf \<Rightarrow> string \<Rightarrow> string \<Rightarrow> date_lit list \<Rightarrow> builder" where
  "membership_max cf expr operator dates =
     (if operator = ''after''
      then (if dates = [] then (\<lambda>ps. None)
            else wrap (''EXISTS (SELECT 1 FROM ioc_feed_memberships m WHERE '' @ membershipFilter @ '' AND '' @ expr @ '' > '')
                   (dateExpr cf (dates ! 0)) '')'')
      else date_compare cf (''(SELECT MAX('' @ expr @ '') FROM ioc_feed_memberships m WHERE '' @ membershipFilter @ '')'')
             operator dates)"

definition buildLastSeen :: "build_conf \<Rightarrow> string \<Rightarrow> date_lit list \<Rightarrow> builder" where
  "buildLastSeen cf operator dates = membership_max cf ''m.last_seen_in_feed'' operator dates"

definition buildLastChanged :: "build_conf \<Rightarrow> string \<Rightarrow> date_lit list \<Rightarrow> builder" where
  "buildLastChanged cf operator dates =
     membership_max cf ''COALESCE(m.last_changed_in_source, m.first_seen_in_feed)'' operator dates"

section \<open>Conditions and nodes\<close>

definition value_builder :: "build_conf \<Rightarrow> string \<Rightarrow> string \<Rightarrow> string list \<Rightarrow> builder" where
  "value_builder cf field operator vs =
     (if field = ''ioc'' then buildIoc cf operator vs
      else if field = ''tag'' then buildTag operator vs
      else if field = ''source'' then buildSource operator vs
      else if field = ''threat_actor'' then buildThreatActor operator vs
      else if field = ''classification'' then buildClassification cf operator vs
      else if field = ''type'' then buildType cf operator vs
      else if field = ''known_hash_type'' then buildKnownHashType operator vs
      else if field \<in> {''md5'', ''sha1'', ''sha256''} then buildFileHash cf field operator vs
      else if field \<in> {''imphash'', ''tlsh'', ''ssdeep''} then buildNonIdentityAttr field operator vs
      else if field = ''status''
      then buildSimpleEnum operator vs (''COALESCE(i.status, '' @ [SQUOTE] @ ''active'' @ [SQUOTE] @ '')'') False
      else if field = ''confidence'' then buildSimpleEnum operator vs ''i.confidence'' True
      else (\<lambda>ps. None))"

definition date_builder :: "build_conf \<Rightarrow> string \<Rightarrow> string \<Rightarrow> date_lit list \<Rightarrow> builder" where
  "date_builder cf field operator dates =
     (if field = ''first_seen'' then buildFirstSeen cf operator dates
      else if field = ''created_at'' then buildItemDate cf operator dates ''i.created_at''
      else if field = ''last_seen'' then buildLastSeen cf operator dates
      else if field = ''last_changed'' then buildLastChanged cf operator dates
      else (\<lambda>ps. None))"

definition buildCondition :: "build_conf \<Rightarrow> condition \<Rightarrow> builder" where
  "buildCondition cf c =
     (case c of
        ValueCondition field kind operator vs \<Rightarrow> value_builder cf field operator vs
      | DateCondition field operator dates \<Rightarrow> date_builder cf field operator dates)"

definition flippedOperators :: "(string \<times> string) list" where
  "flippedOperators =
     [(''equals'', ''not_equals''), (''in'', ''not_in''), (''not_equals'', ''equals''), (''not_in'', ''in'')]"

text \<open>The operator that \<open>NOT\<close> of a classification condition is rewritten to.\<close>

definition flip_classification :: "ast \<Rightarrow> condition option" where
  "flip_classification a =
     (case a of
        CondNode (ValueCondition f k opr vs) \<Rightarrow>
          (if f = ''classification''
           then (case map_of flippedOperators opr of Some o' \<Rightarrow> Some (ValueCondition f k o' vs) | None \<Rightarrow> None)
           else None)
      | _ \<Rightarrow> None)"

fun build :: "build_conf \<Rightarrow> ast \<Rightarrow> builder" where
  "build cf (AndNode cs) ps = join_built '' AND '' (map (build cf) cs) ps"
| "build cf (OrNode cs) ps = join_built '' OR '' (map (build cf) cs) ps"
| "build cf (NotNode child) ps =
     (case flip_classification child of
        Some c \<Rightarrow> wrap ''('' (buildCondition cf c) '')'' ps
      | None \<Rightarrow> wrap ''(NOT '' (build cf child) '')'' ps)"
| "build cf (CondNode c) ps = buildCondition cf c ps"

definition buildWhereClause :: "build_conf \<Rightarrow> ast \<Rightarrow> (sql \<times> param list) option" where
  "buildWhereClause cf a = build cf a []"

end
