(* ===== verification/DslSqlFacts.thy ===== *)
theory DslSqlFacts
  imports DslSql
begin

text \<open>
  Properties of the SQL builder of \<open>DslSql\<close>: it never fails on an accepted query, every placeholder
  refers to a bound parameter and every parameter is used, and the SQL text does not depend on the
  values of the query.
\<close>

section \<open>Parameter binding\<close>

lemma well_bound_None [simp]: "well_bound (\<lambda>ps. None)"
  by (simp add: well_bound_def)

lemma well_bound_bind_in [simp]: "well_bound (bind_in a v z)"
  by (auto simp: well_bound_def bind_in_def bind_value_def)

lemma well_bound_ilike [simp]: "well_bound (ilike c p)" "well_bound (not_ilike c p)"
  by (simp_all add: ilike_def not_ilike_def)

lemma well_bound_dateExpr [simp]: "well_bound (dateExpr cf d)"
proof (cases d)
  case (AbsDate v hasTz disp)
  then show ?thesis
    by (cases hasTz) (auto simp: well_bound_def dateExpr_def bind_in_def bind_value_def)
next
  case (RelDate n u)
  then show ?thesis
    by (auto simp: well_bound_def dateExpr_def bind_in_def bind_value_def split: option.splits)
qed

lemma phs_subqueries [simp]:
  "phs (artifactAliasIocMembershipSql t v) = phs v" "phs (tag_base c) = phs c" "phs (actor_base c) = phs c"
  "phs (attr_sql t c) = phs c" "phs (source_sql a b c) = phs a \<union> phs b \<union> phs c"
  by (simp_all add: artifactAliasIocMembershipSql_def tag_base_def inheritedTagIocMembershipSql_def actor_base_def
      attr_sql_def source_sql_def Let_def Un_ac)

lemma well_bound_exact [simp]: "well_bound (buildExactHashIdentityMembership t v)" "well_bound (oneValue pr w)"
  "well_bound (directHash t v)"
  by (auto simp: well_bound_def directHash_def buildExactHashIdentityMembership_def oneValue_def bind_value_def)

lemma well_bound_with_base:
  "well_bound f \<Longrightarrow> (\<And>c. phs (base c) = phs c) \<Longrightarrow> well_bound (with_base base f)"
  by (fastforce simp: well_bound_def with_base_def split: option.splits)

lemma well_bound_bases [simp]:
  "well_bound f \<Longrightarrow> well_bound (with_base tag_base f)" "well_bound f \<Longrightarrow> well_bound (with_base actor_base f)"
  "well_bound f \<Longrightarrow> well_bound (with_base (attr_sql t) f)"
  by (simp_all add: well_bound_with_base)

lemma well_bound_join:
  assumes "\<And>f. f \<in> set fs \<Longrightarrow> well_bound f"
  shows "well_bound (join_built sep fs)"
  unfolding well_bound_def
proof (intro allI impI)
  fix ps s ps' assume "join_built sep fs ps = Some (s, ps')"
  then obtain ss where "build_all fs ps = Some (ss, ps')" "s = lit ''('' @ sql_join sep ss @ lit '')''"
    by (auto simp: join_built_def split: option.splits)
  with well_bound_all [OF assms, of fs ps ss ps'] show "(\<exists>vs. ps' = ps @ vs) \<and> phs s = {length ps<..length ps'}"
    by simp
qed

declare well_bound_wrap [simp]

lemma well_bound_text [simp]: "well_bound (buildTextColumn opr vs col)"
  by (simp add: buildTextColumn_def Let_def)

lemma well_bound_source [simp]: "well_bound (buildSourcePositive opr vs)" "well_bound (buildSource opr vs)"
proof -
  show pos: "well_bound (buildSourcePositive opr vs)" for opr
    unfolding well_bound_def
  proof (intro allI impI)
    fix ps s ps' assume "buildSourcePositive opr vs ps = Some (s, ps')"
    then obtain a b c where abc: "build_all [buildTextColumn opr vs ''i.source_name'', buildTextColumn opr vs ''f.name'',
        buildTextColumn opr vs ''s.name''] ps = Some ([a, b, c], ps')" "s = source_sql a b c"
      by (auto simp: buildSourcePositive_def split: option.splits list.splits prod.splits)
    have "(\<exists>vs. ps' = ps @ vs) \<and> \<Union> (phs ` set [a, b, c]) = {length ps<..length ps'}"
      by (rule well_bound_all [OF _ abc(1)]) auto
    then show "(\<exists>vs. ps' = ps @ vs) \<and> phs s = {length ps<..length ps'}" by (simp add: abc(2) Un_ac)
  qed
  show "well_bound (buildSource opr vs)" using pos by (simp add: buildSource_def split: option.split)
qed

lemma well_bound_date [simp]: "well_bound (date_compare cf col opr ds)"
  unfolding well_bound_def
proof (intro allI impI)
  fix ps s ps' assume d: "date_compare cf col opr ds ps = Some (s, ps')"
  consider a where "wrap a (dateExpr cf (ds ! 0)) [] ps = Some (s, ps')"
    | d0 d1 a b c where "build_all [dateExpr cf (ds ! 0), dateExpr cf (ds ! 1)] ps = Some ([d0, d1], ps')"
        "s = lit a @ d0 @ lit b @ d1 @ lit c"
    using d by (auto simp: date_compare_def split: if_splits option.splits list.splits prod.splits)
  then show "(\<exists>vs. ps' = ps @ vs) \<and> phs s = {length ps<..length ps'}"
  proof cases
    case 1
    then show ?thesis using well_boundD [of "wrap a (dateExpr cf (ds ! 0)) []"] by simp
  next
    case 2
    have "(\<exists>vs. ps' = ps @ vs) \<and> \<Union> (phs ` set [d0, d1]) = {length ps<..length ps'}"
      by (rule well_bound_all [OF _ 2(1)]) auto
    then show ?thesis by (simp add: 2(2))
  qed
qed

lemma well_bound_fields [simp]:
  "well_bound (buildTag opr vs)" "well_bound (buildThreatActor opr vs)" "well_bound (buildSimpleEnum opr vs col lw)"
  "well_bound (buildArtifactHashTypeEnum opr vs pr)" "well_bound (buildFileHash cf f opr vs)"
  "well_bound (buildNonIdentityAttr f opr vs)" "well_bound (membership_max cf e opr ds)"
  "well_bound (buildClassification cf opr vs)"
proof -
  show "well_bound (buildTag opr vs)" by (simp add: buildTag_def Let_def)
  show "well_bound (buildThreatActor opr vs)" by (simp add: buildThreatActor_def Let_def)
  show "well_bound (buildSimpleEnum opr vs col lw)" by (simp add: buildSimpleEnum_def Let_def)
  show "well_bound (buildArtifactHashTypeEnum opr vs pr)"
    by (auto simp: buildArtifactHashTypeEnum_def Let_def intro!: well_bound_join)
  show "well_bound (buildFileHash cf f opr vs)" by (simp add: buildFileHash_def Let_def)
  show "well_bound (buildNonIdentityAttr f opr vs)" by (simp add: buildNonIdentityAttr_def)
  show "well_bound (membership_max cf e opr ds)" by (simp add: membership_max_def)
  show "well_bound (buildClassification cf opr vs)" by (simp add: buildClassification_def well_bound_classification)
qed

lemma well_bound_ioc [simp]: "well_bound (buildIoc cf opr vs)"
  by (simp add: buildIoc_def Let_def split: option.split bool.split)

lemma well_bound_condition [simp]: "well_bound (buildCondition cf c)"
  by (cases c)
    (simp_all add: buildCondition_def value_builder_def date_builder_def buildType_def buildKnownHashType_def
      buildFirstSeen_def buildItemDate_def buildLastSeen_def buildLastChanged_def)

lemma build_simps:
  "build cf (AndNode cs) = join_built '' AND '' (map (build cf) cs)"
  "build cf (OrNode cs) = join_built '' OR '' (map (build cf) cs)"
  "build cf (NotNode a) = (case flip_classification a of
      Some c \<Rightarrow> wrap ''('' (buildCondition cf c) '')'' | None \<Rightarrow> wrap ''(NOT '' (build cf a) '')'')"
  "build cf (CondNode c) = buildCondition cf c"
  by (auto split: option.split)

lemma well_bound_build: "well_bound (build cf a)"
  by (induction a) (auto simp: build_simps intro!: well_bound_join split: option.split)

section \<open>No accepted query fails\<close>

definition total :: "builder \<Rightarrow> bool" where
  "total f \<longleftrightarrow> (\<forall>ps. f ps \<noteq> None)"

lemma total_basic [simp]:
  "total (bind_in a v z)" "total (ilike c p)" "total (not_ilike c p)" "total (oneValue pr w)"
  "total (buildExactHashIdentityMembership t w)" "total (directHash t w)"
  by (simp_all add: total_def bind_in_def bind_value_def ilike_def not_ilike_def oneValue_def directHash_def
      buildExactHashIdentityMembership_def)

lemma total_compose [simp]:
  "total f \<Longrightarrow> total (wrap a f z)" "total f \<Longrightarrow> total (with_base b f)"
  by (auto simp: total_def wrap_def with_base_def split: option.splits)

lemma total_join: "(\<And>f. f \<in> set fs \<Longrightarrow> total f) \<Longrightarrow> total (join_built sep fs)"
  unfolding total_def
proof
  fix ps assume "\<And>f. f \<in> set fs \<Longrightarrow> \<forall>ps. f ps \<noteq> None"
  then have "build_all fs ps \<noteq> None" by (intro build_all_total) blast
  then show "join_built sep fs ps \<noteq> None" by (auto simp: join_built_def)
qed

lemma total_text:
  "opr \<in> set (TEXT_OPERATORS @ LIST_OPERATORS) \<Longrightarrow> total (buildTextColumn opr vs col)"
  by (auto simp: buildTextColumn_def Let_def operator_list_defs)

lemma total_ioc: "opr \<in> set TEXT_OPERATORS \<Longrightarrow> total (buildIoc cf opr vs)"
  by (auto simp: buildIoc_def Let_def operator_list_defs split: option.split)

lemma total_tag: "opr \<in> set (TEXT_OPERATORS @ LIST_OPERATORS) \<Longrightarrow> total (buildTag opr vs)"
  by (auto simp: buildTag_def Let_def operator_list_defs)

lemma total_actor: "opr \<in> set (TEXT_OPERATORS @ LIST_OPERATORS) \<Longrightarrow> total (buildThreatActor opr vs)"
  by (auto simp: buildThreatActor_def Let_def operator_list_defs)

lemma total_source_positive:
  assumes "opr \<in> set (TEXT_OPERATORS @ LIST_OPERATORS)"
  shows "total (buildSourcePositive opr vs)"
  unfolding total_def
proof
  fix ps
  have "buildTextColumn opr vs col qs \<noteq> None" for col qs using total_text [OF assms] by (simp add: total_def)
  then have "build_all [buildTextColumn opr vs ''i.source_name'', buildTextColumn opr vs ''f.name'',
      buildTextColumn opr vs ''s.name''] ps \<noteq> None"
    by (intro build_all_total) auto
  then show "buildSourcePositive opr vs ps \<noteq> None"
    by (auto simp: buildSourcePositive_def split: option.splits)
qed

lemma negativeToPositive_text:
  "map_of negativeToPositive opr = Some q \<Longrightarrow> q \<in> set (TEXT_OPERATORS @ LIST_OPERATORS)"
  by (auto simp: negativeToPositive_def operator_list_defs split: if_splits)

lemma total_source: "opr \<in> set (TEXT_OPERATORS @ LIST_OPERATORS) \<Longrightarrow> total (buildSource opr vs)"
  using total_source_positive negativeToPositive_text
  by (cases "map_of negativeToPositive opr") (simp_all add: buildSource_def)

lemma total_enum: "opr \<in> set ENUM_OPERATORS \<Longrightarrow> total (buildSimpleEnum opr vs col lw)"
  by (auto simp: buildSimpleEnum_def Let_def operator_list_defs)

lemma total_hash_enum: "opr \<in> set ENUM_OPERATORS \<Longrightarrow> total (buildArtifactHashTypeEnum opr vs pr)"
  by (auto simp: buildArtifactHashTypeEnum_def Let_def operator_list_defs intro!: total_join)

lemma total_classification: "opr \<in> set ENUM_OPERATORS \<Longrightarrow> total (buildClassification cf opr vs)"
  using classification_total [of opr] by (auto simp: total_def buildClassification_def operator_list_defs)

lemma total_hash: "f \<in> {''md5'', ''sha1'', ''sha256''} \<Longrightarrow> total (buildFileHash cf f ''equals'' vs)"
  by (simp add: buildFileHash_def Let_def)

lemma total_attr: "f \<in> {''imphash'', ''tlsh'', ''ssdeep''} \<Longrightarrow> total (buildNonIdentityAttr f ''equals'' vs)"
  by (simp add: buildNonIdentityAttr_def)

text \<open>The registry, grouped by operator list.\<close>

inductive registry_group :: "string \<Rightarrow> string list \<Rightarrow> bool" where
  plain: "registry_group ''ioc'' TEXT_OPERATORS"
| text_list: "f \<in> {''tag'', ''source'', ''threat_actor''} \<Longrightarrow> registry_group f (TEXT_OPERATORS @ LIST_OPERATORS)"
| enum: "f \<in> {''classification'', ''type'', ''known_hash_type'', ''status'', ''confidence''} \<Longrightarrow>
    registry_group f ENUM_OPERATORS"
| hash: "f \<in> {''md5'', ''sha1'', ''sha256''} \<Longrightarrow> registry_group f HASH_OPERATORS"
| attr: "f \<in> {''imphash'', ''tlsh'', ''ssdeep''} \<Longrightarrow> registry_group f ATTR_OPERATORS"
| date: "f \<in> {''first_seen'', ''created_at'', ''last_seen'', ''last_changed''} \<Longrightarrow> registry_group f DATE_OPERATORS"

lemma registry_groups: "list_all (\<lambda>(f, spec). registry_group f (spec_operators spec)) FIELD_REGISTRY"
  by (simp add: FIELD_REGISTRY_def field_spec_defs registry_group.intros)

lemma registry_groupI: "(f, spec) \<in> set FIELD_REGISTRY \<Longrightarrow> registry_group f (spec_operators spec)"
  using registry_groups by (auto simp: list_all_iff)

lemma date_operators_disjoint:
  "opr \<in> set DATE_OPERATORS \<Longrightarrow>
     opr \<notin> set TEXT_OPERATORS \<and> opr \<notin> set LIST_OPERATORS \<and> opr \<notin> set ENUM_OPERATORS \<and>
     opr \<notin> set HASH_OPERATORS \<and> opr \<notin> set ATTR_OPERATORS"
  by (auto simp: operator_list_defs)

lemma value_condition_total:
  assumes "wf_condition dk lm (ValueCondition f k opr vs)"
  shows "total (value_builder cf f opr vs)"
proof -
  obtain spec where spec: "(f, spec) \<in> set FIELD_REGISTRY" "opr \<in> set (spec_operators spec)" "opr \<notin> set DATE_OPERATORS"
    using assms getFieldSpec_in by (fastforce simp: wf_condition_def split: option.splits)
  from registry_groupI [OF spec(1)] show ?thesis
  proof cases
    case plain
    then show ?thesis using spec(2) total_ioc by (simp add: value_builder_def)
  next
    case text_list
    then have "opr \<in> set (TEXT_OPERATORS @ LIST_OPERATORS)" using spec(2) by simp
    note total_tag [OF this] total_source [OF this] total_actor [OF this]
    then show ?thesis using text_list(2) by (elim insertE emptyE) (simp_all add: value_builder_def)
  next
    case enum
    then have "opr \<in> set ENUM_OPERATORS" using spec(2) by simp
    note total_enum [OF this] total_hash_enum [OF this] total_classification [OF this]
    then show ?thesis using enum(2)
      by (elim insertE emptyE) (simp_all add: value_builder_def buildType_def buildKnownHashType_def)
  next
    case hash
    then have opr: "opr = ''equals''" using spec(2) by (simp add: HASH_OPERATORS_def)
    show ?thesis using hash(2) total_hash [OF hash(2)]
      by (elim insertE emptyE) (simp_all add: value_builder_def opr)
  next
    case attr
    then have opr: "opr = ''equals''" using spec(2) by (simp add: ATTR_OPERATORS_def)
    show ?thesis using attr(2) total_attr [OF attr(2)]
      by (elim insertE emptyE) (simp_all add: value_builder_def opr)
  next
    case date
    then show ?thesis using spec(2,3) by simp
  qed
qed

lemma parsed_date_total:
  assumes "parseDateLiteral dk raw f 0 = Inr d"
  shows "total (dateExpr cf d)"
proof (cases d)
  case (AbsDate v hasTz disp)
  then show ?thesis by (simp add: total_def dateExpr_def bind_in_def bind_value_def)
next
  case (RelDate n u)
  then have "1 \<le> n \<and> u \<in> set ''mhdw''"
    using assms
    by (auto simp: parseDateLiteral_def parse_date_def RE_RELATIVE_def Let_def
        split: option.splits if_splits prod.splits list.splits)
  then have "resolveRelativeDate n u (nowMs cf) \<noteq> None"
    by (auto simp: resolveRelativeDate_def RELATIVE_DATE_UNITS_def)
  then show ?thesis using RelDate by (auto simp: total_def dateExpr_def bind_in_def bind_value_def)
qed

lemma date_compare_total:
  assumes "opr \<in> set DATE_OPERATORS" "length ds = (if opr = ''between'' then 2 else 1)"
    "\<And>d. d \<in> set ds \<Longrightarrow> total (dateExpr cf d)"
  shows "total (date_compare cf col opr ds)"
  unfolding total_def
proof
  fix ps
  have ne: "ds \<noteq> []" using assms(2) by (auto split: if_splits)
  then have d0: "total (dateExpr cf (ds ! 0))" using assms(3) by simp
  show "date_compare cf col opr ds ps \<noteq> None"
  proof (cases "opr = ''between''")
    case True
    then have "total (dateExpr cf (ds ! 1))" using assms(2,3) by simp
    with d0 have "build_all [dateExpr cf (ds ! 0), dateExpr cf (ds ! 1)] ps \<noteq> None"
      by (intro build_all_total) (auto simp: total_def)
    then show ?thesis using True assms(2) by (auto simp: date_compare_def split: option.splits)
  next
    case False
    then show ?thesis using ne assms(1) total_compose(1) [OF d0]
      by (auto simp: date_compare_def DATE_OPERATORS_def total_def)
  qed
qed

lemma date_condition_total:
  assumes "wf_condition dk lm (DateCondition f opr ds)"
  shows "total (date_builder cf f opr ds)"
proof -
  obtain spec where spec: "(f, spec) \<in> set FIELD_REGISTRY" "opr \<in> set (spec_operators spec)" "opr \<in> set DATE_OPERATORS"
      "length ds = (if opr = ''between'' then 2 else 1)"
      "list_all (\<lambda>d. parseDateLiteral dk (date_display d) f 0 = Inr d) ds"
    using assms getFieldSpec_in by (fastforce simp: wf_condition_def split: option.splits)
  have dates: "d \<in> set ds \<Longrightarrow> total (dateExpr cf d)" for d
    using spec(5) parsed_date_total by (auto simp: list_all_iff)
  have ne: "ds \<noteq> []" using spec(4) by (auto split: if_splits)
  have dc: "total (date_compare cf col opr ds)" for col using date_compare_total [OF spec(3,4) dates] .
  have mm: "total (membership_max cf e opr ds)" for e
    using dc ne dates [of "ds ! 0"] by (simp add: membership_max_def)
  have "f \<in> {''first_seen'', ''created_at'', ''last_seen'', ''last_changed''}"
    using registry_groupI [OF spec(1)] by cases (use spec(2) date_operators_disjoint [OF spec(3)] in simp_all)
  then show ?thesis using dc mm
    by (auto simp: date_builder_def buildFirstSeen_def buildItemDate_def buildLastSeen_def buildLastChanged_def)
qed

lemma condition_total: "wf_condition dk lm c \<Longrightarrow> total (buildCondition cf c)"
  using value_condition_total date_condition_total by (cases c) (auto simp: buildCondition_def)

lemma flip_classificationE:
  assumes "flip_classification a = Some c"
  obtains k opr vs where "a = CondNode (ValueCondition ''classification'' k opr vs)" "opr \<in> set ENUM_OPERATORS"
    "\<exists>q \<in> set ENUM_OPERATORS. map_of flippedOperators opr = Some q \<and> c = ValueCondition ''classification'' k q vs"
proof -
  obtain k opr vs q where a: "a = CondNode (ValueCondition ''classification'' k opr vs)"
      "map_of flippedOperators opr = Some q" "c = ValueCondition ''classification'' k q vs"
    using assms by (auto simp: flip_classification_def split: ast.splits condition.splits if_splits option.splits)
  moreover from a(2) have "opr \<in> set ENUM_OPERATORS \<and> q \<in> set ENUM_OPERATORS"
    by (auto simp: flippedOperators_def ENUM_OPERATORS_def split: if_splits)
  ultimately show thesis using that by blast
qed

lemma flip_total: "flip_classification a = Some c \<Longrightarrow> total (buildCondition cf c)"
  by (erule flip_classificationE) (auto simp: buildCondition_def value_builder_def total_classification)

lemma build_total: "wf_ast dk lm a \<Longrightarrow> total (build cf a)"
proof (induction a)
  case (NotNode a)
  then show ?case using flip_total by (auto simp: build_simps split: option.split)
next
  case (CondNode c)
  then show ?case using condition_total by (auto simp: build_simps)
qed (auto simp: build_simps list_all_iff intro!: total_join)

section \<open>The text does not depend on the values\<close>

text \<open>
  What the SQL text may depend on: the logical structure, the fields and operators, the number of values of a hash
  type list, the exact hash type of an \<open>ioc\<close> value when file-artifact reads are on, whether a classification
  label is unresolved, and the form of each date. No character of a value is part of it.
\<close>

datatype date_form = Relative | BadRelative | Zoned | WallClock

datatype shape =
    SOr "shape list" | SAnd "shape list" | SNot shape
  | SValue string string "string option" nat bool
  | SDate string string "date_form list"

definition date_form :: "build_conf \<Rightarrow> date_lit \<Rightarrow> date_form" where
  "date_form cf d =
     (case d of
        RelDate n u \<Rightarrow> if resolveRelativeDate n u (nowMs cf) = None then BadRelative else Relative
      | AbsDate v z disp \<Rightarrow> if z then Zoned else WallClock)"

definition value_shape :: "build_conf \<Rightarrow> string \<Rightarrow> string \<Rightarrow> string list \<Rightarrow> shape" where
  "value_shape cf f opr vs =
     SValue f opr
       (if f = ''ioc'' \<and> fileArtifactsReadEnabled cf then inferExactHashType (normalizeIocValue (nth_or_empty vs 0)) else None)
       (if f = ''type'' \<or> f = ''known_hash_type'' then length vs else 0)
       (f = ''classification'' \<and> snd (resolveClassificationTargets (classRegistry cf) vs) \<noteq> [])"

fun ast_shape :: "build_conf \<Rightarrow> ast \<Rightarrow> shape" where
  "ast_shape cf (OrNode cs) = SOr (map (ast_shape cf) cs)"
| "ast_shape cf (AndNode cs) = SAnd (map (ast_shape cf) cs)"
| "ast_shape cf (NotNode a) = SNot (ast_shape cf a)"
| "ast_shape cf (CondNode (ValueCondition f k opr vs)) = value_shape cf f opr vs"
| "ast_shape cf (CondNode (DateCondition f opr ds)) = SDate f opr (map (date_form cf) ds)"

lemma same_text_basic [simp]:
  "same_text (\<lambda>ps. None) (\<lambda>ps. None)" "same_text (bind_in a v z) (bind_in a w z)"
  "same_text (ilike c p) (ilike c q)" "same_text (not_ilike c p) (not_ilike c q)"
  "same_text (oneValue pr x) (oneValue pr y)"
  "same_text (buildExactHashIdentityMembership t x) (buildExactHashIdentityMembership t y)"
  "same_text (directHash t x) (directHash t y)"
  by (simp_all add: same_text_def bind_in_def ilike_def not_ilike_def bind_value_def oneValue_def directHash_def
      buildExactHashIdentityMembership_def)

lemma same_text_with_base [simp]: "same_text f g \<Longrightarrow> same_text (with_base b f) (with_base b g)"
  unfolding same_text_def [of "with_base b f"]
  by (intro allI impI) (erule (1) same_textE; simp add: with_base_def)

declare same_text_wrap [simp]

lemma same_text_join:
  assumes "list_all2 same_text fs gs"
  shows "same_text (join_built sep fs) (join_built sep gs)"
  unfolding same_text_def
proof (intro allI impI)
  fix ps qs :: "param list" assume "length ps = length qs"
  from same_text_all [OF assms this] show
    "rel_option (\<lambda>(s, ps') (t, qs'). s = t \<and> length ps' = length qs') (join_built sep fs ps) (join_built sep gs qs)"
    by (cases "build_all fs ps"; cases "build_all gs qs") (auto simp: join_built_def)
qed

lemma same_text_text: "same_text (buildTextColumn opr vs col) (buildTextColumn opr ws col)"
  by (simp add: buildTextColumn_def Let_def)

lemma same_text_source_positive: "same_text (buildSourcePositive opr vs) (buildSourcePositive opr ws)"
  unfolding same_text_def
proof (intro allI impI)
  fix ps qs :: "param list" assume "length ps = length qs"
  from same_text_all [OF _ this, of
      "[buildTextColumn opr vs ''i.source_name'', buildTextColumn opr vs ''f.name'', buildTextColumn opr vs ''s.name'']"
      "[buildTextColumn opr ws ''i.source_name'', buildTextColumn opr ws ''f.name'', buildTextColumn opr ws ''s.name'']"]
  show "rel_option (\<lambda>(s, ps') (t, qs'). s = t \<and> length ps' = length qs')
      (buildSourcePositive opr vs ps) (buildSourcePositive opr ws qs)"
    unfolding buildSourcePositive_def option.rel_sel
    by (auto simp: same_text_text split: option.splits list.splits)
qed

lemma same_text_fields:
  "same_text (buildTag opr vs) (buildTag opr ws)" "same_text (buildThreatActor opr vs) (buildThreatActor opr ws)"
  "same_text (buildSource opr vs) (buildSource opr ws)"
  "same_text (buildSimpleEnum opr vs col lw) (buildSimpleEnum opr ws col lw)"
  "same_text (buildFileHash cf f opr vs) (buildFileHash cf f opr ws)"
  "same_text (buildNonIdentityAttr f opr vs) (buildNonIdentityAttr f opr ws)"
proof -
  show "same_text (buildTag opr vs) (buildTag opr ws)" by (simp add: buildTag_def Let_def)
  show "same_text (buildThreatActor opr vs) (buildThreatActor opr ws)" by (simp add: buildThreatActor_def Let_def)
  show "same_text (buildSource opr vs) (buildSource opr ws)"
    by (simp add: buildSource_def same_text_source_positive split: option.split)
  show "same_text (buildSimpleEnum opr vs col lw) (buildSimpleEnum opr ws col lw)"
    by (simp add: buildSimpleEnum_def Let_def)
  show "same_text (buildFileHash cf f opr vs) (buildFileHash cf f opr ws)" by (simp add: buildFileHash_def Let_def)
  show "same_text (buildNonIdentityAttr f opr vs) (buildNonIdentityAttr f opr ws)"
    by (simp add: buildNonIdentityAttr_def)
qed

lemma same_text_hash_enum:
  "length vs = length ws \<Longrightarrow> same_text (buildArtifactHashTypeEnum opr vs pr) (buildArtifactHashTypeEnum opr ws pr)"
  by (auto simp: buildArtifactHashTypeEnum_def Let_def list_all2_conv_all_nth intro!: same_text_join)

lemma same_text_ioc:
  assumes "fileArtifactsReadEnabled cf \<Longrightarrow>
    inferExactHashType (normalizeIocValue (nth_or_empty vs 0)) = inferExactHashType (normalizeIocValue (nth_or_empty ws 0))"
  shows "same_text (buildIoc cf opr vs) (buildIoc cf opr ws)"
  using assms by (cases "fileArtifactsReadEnabled cf") (simp_all add: buildIoc_def Let_def split: option.split bool.split)

lemma same_text_value:
  assumes "value_shape cf f opr vs = value_shape cf g opr' ws"
  shows "f = g \<and> opr = opr' \<and> same_text (value_builder cf f opr vs) (value_builder cf f opr ws)"
proof -
  have eq: "f = g" "opr = opr'" using assms by (simp_all add: value_shape_def)
  have ioc: "f = ''ioc'' \<Longrightarrow> same_text (buildIoc cf opr vs) (buildIoc cf opr ws)"
    using assms by (intro same_text_ioc) (simp add: value_shape_def)
  have cls: "f = ''classification'' \<Longrightarrow> same_text (buildClassification cf opr vs) (buildClassification cf opr ws)"
    using assms by (auto simp: value_shape_def buildClassification_def intro!: same_text_classification)
  have len: "f = ''type'' \<or> f = ''known_hash_type'' \<Longrightarrow> length vs = length ws"
    using assms by (auto simp: value_shape_def split: if_splits)
  show ?thesis using eq ioc cls same_text_hash_enum [OF len] same_text_fields
    by (simp add: value_builder_def buildType_def buildKnownHashType_def)
qed

lemma same_text_dateExpr: "date_form cf d = date_form cf e \<Longrightarrow> same_text (dateExpr cf d) (dateExpr cf e)"
  by (cases d; cases e)
    (auto simp: date_form_def dateExpr_def [abs_def] same_text_def bind_in_def bind_value_def
      split: if_splits option.splits)

lemma same_text_date_compare:
  assumes "map (date_form cf) ds = map (date_form cf) es"
  shows "same_text (date_compare cf col opr ds) (date_compare cf col opr es)"
  unfolding same_text_def
proof (intro allI impI)
  fix ps qs :: "param list" assume l: "length ps = length qs"
  have len: "length ds = length es" using map_eq_imp_length_eq [OF assms] .
  have st: "i < length ds \<Longrightarrow> same_text (dateExpr cf (ds ! i)) (dateExpr cf (es ! i))" for i
    using assms len by (metis nth_map same_text_dateExpr)
  have w: "ds \<noteq> [] \<Longrightarrow> rel_option (\<lambda>(s, ps') (t, qs'). s = t \<and> length ps' = length qs')
      (wrap a (dateExpr cf (ds ! 0)) z ps) (wrap a (dateExpr cf (es ! 0)) z qs)" for a z
    using same_text_wrap [OF st [of 0], of a z] l by (auto simp: same_text_def)
  have b: "2 \<le> length ds \<Longrightarrow> rel_option (\<lambda>(ss, ps') (ts, qs'). ss = ts \<and> length ps' = length qs')
      (build_all [dateExpr cf (ds ! 0), dateExpr cf (ds ! 1)] ps) (build_all [dateExpr cf (es ! 0), dateExpr cf (es ! 1)] qs)"
  proof (rule same_text_all)
    assume "2 \<le> length ds"
    then have "0 < length ds" "1 < length ds" by linarith+
    then show "list_all2 same_text [dateExpr cf (ds ! 0), dateExpr cf (ds ! 1)] [dateExpr cf (es ! 0), dateExpr cf (es ! 1)]"
      using st [of 0] st [of 1] by simp
  qed (rule l)
  show "rel_option (\<lambda>(s, ps') (t, qs'). s = t \<and> length ps' = length qs')
      (date_compare cf col opr ds ps) (date_compare cf col opr es qs)"
  proof (cases "opr = ''between'' \<and> 2 \<le> length ds")
    case True
    with b show ?thesis using len unfolding date_compare_def option.rel_sel
      by (auto split: option.splits list.splits)
  next
    case False
    with w len show ?thesis by (auto simp: date_compare_def)
  qed
qed

lemma same_text_date:
  assumes "map (date_form cf) ds = map (date_form cf) es"
  shows "same_text (date_builder cf f opr ds) (date_builder cf f opr es)"
proof -
  have len: "(ds = []) = (es = [])" using map_eq_imp_length_eq [OF assms] by auto
  have st: "ds \<noteq> [] \<Longrightarrow> same_text (dateExpr cf (ds ! 0)) (dateExpr cf (es ! 0))"
    using assms len by (cases ds; cases es) (auto intro: same_text_dateExpr)
  show ?thesis using len st
    by (simp add: date_builder_def buildFirstSeen_def buildItemDate_def buildLastSeen_def buildLastChanged_def
        membership_max_def same_text_date_compare [OF assms])
qed

lemma cond_shape_leaf [simp]:
  "ast_shape cf (CondNode c) \<noteq> SNot x" "ast_shape cf (CondNode c) \<noteq> SAnd xs" "ast_shape cf (CondNode c) \<noteq> SOr xs"
  "SNot x \<noteq> ast_shape cf (CondNode c)" "SAnd xs \<noteq> ast_shape cf (CondNode c)" "SOr xs \<noteq> ast_shape cf (CondNode c)"
  by (cases c; simp add: value_shape_def)+

lemma cond_shape_cases:
  assumes "ast_shape cf (CondNode c) = ast_shape cf b"
  obtains f k k' opr vs ws where "c = ValueCondition f k opr vs" "b = CondNode (ValueCondition f k' opr ws)"
      "value_shape cf f opr vs = value_shape cf f opr ws"
  | f opr ds es where "c = DateCondition f opr ds" "b = CondNode (DateCondition f opr es)"
      "map (date_form cf) ds = map (date_form cf) es"
proof (cases b)
  case (CondNode e)
  with assms that show thesis by (cases c; cases e) (auto simp: value_shape_def)
qed (use assms in simp_all)

lemma same_text_condition:
  assumes "ast_shape cf (CondNode c) = ast_shape cf (CondNode e)"
  shows "same_text (buildCondition cf c) (buildCondition cf e)"
  using assms by (cases rule: cond_shape_cases) (auto simp: buildCondition_def same_text_date dest: same_text_value)

lemma flip_shape:
  assumes "ast_shape cf a = ast_shape cf b"
  shows "rel_option (\<lambda>c e. ast_shape cf (CondNode c) = ast_shape cf (CondNode e)) (flip_classification a) (flip_classification b)"
proof (cases a)
  case (CondNode c)
  then have "ast_shape cf (CondNode c) = ast_shape cf b" using assms by simp
  then show ?thesis
  proof (cases rule: cond_shape_cases)
    case (1 f k k' opr vs ws)
    then show ?thesis using CondNode
      by (cases "map_of flippedOperators opr") (auto simp: flip_classification_def value_shape_def)
  next
    case (2 f opr ds es)
    then show ?thesis using CondNode by (simp add: flip_classification_def)
  qed
next
  case (OrNode cs)
  then show ?thesis using assms by (cases b) (simp_all add: flip_classification_def)
next
  case (AndNode cs)
  then show ?thesis using assms by (cases b) (simp_all add: flip_classification_def)
next
  case (NotNode c)
  then show ?thesis using assms by (cases b) (simp_all add: flip_classification_def)
qed

lemma same_text_map:
  assumes "\<And>x y. x \<in> set cs \<Longrightarrow> ast_shape cf x = ast_shape cf y \<Longrightarrow> same_text (build cf x) (build cf y)"
    "map (ast_shape cf) cs = map (ast_shape cf) ds"
  shows "list_all2 same_text (map (build cf) cs) (map (build cf) ds)"
proof -
  have "list_all2 (\<lambda>x y. ast_shape cf x = ast_shape cf y) cs ds"
    using assms(2) by (simp add: list_all2_conv_all_nth list_eq_iff_nth_eq)
  then have "list_all2 (\<lambda>x y. same_text (build cf x) (build cf y)) cs ds"
    by (rule list.rel_mono_strong) (use assms(1) in blast)
  then show ?thesis by (simp add: list.rel_map)
qed

lemma same_text_build: "ast_shape cf a = ast_shape cf b \<Longrightarrow> same_text (build cf a) (build cf b)"
proof (induction a arbitrary: b)
  case (CondNode c)
  then obtain e where "b = CondNode e" by (elim cond_shape_cases) auto
  then show ?case using CondNode same_text_condition by (simp add: build_simps)
next
  case (NotNode a)
  then obtain a' where a': "b = NotNode a'" "ast_shape cf a = ast_shape cf a'"
    by (cases b) auto
  from flip_shape [OF a'(2)] show ?case using NotNode.IH [OF a'(2)] a'(1) same_text_condition
    by (cases "flip_classification a"; cases "flip_classification a'") (auto simp: build_simps)
next
  case (AndNode cs)
  then obtain ds where "b = AndNode ds" "map (ast_shape cf) cs = map (ast_shape cf) ds"
    by (cases b) auto
  moreover from this have "list_all2 same_text (map (build cf) cs) (map (build cf) ds)"
    using AndNode.IH map_eq_imp_length_eq by (intro same_text_map) blast+
  ultimately show ?case by (simp add: build_simps same_text_join)
next
  case (OrNode cs)
  then obtain ds where "b = OrNode ds" "map (ast_shape cf) cs = map (ast_shape cf) ds"
    by (cases b) auto
  moreover from this have "list_all2 same_text (map (build cf) cs) (map (build cf) ds)"
    using OrNode.IH map_eq_imp_length_eq by (intro same_text_map) blast+
  ultimately show ?case by (simp add: build_simps same_text_join)
qed

section \<open>Patterns\<close>

text \<open>
  What the builder relies on of \<open>ILIKE ... ESCAPE '\'\<close> (documented PostgreSQL behaviour): a percent sign
  matches any string, an underscore any character, a backslash makes the next character literal, and
  any other character matches itself up to the case folding \<open>eqv\<close>.
\<close>

definition ilike_laws :: "(char \<Rightarrow> char \<Rightarrow> bool) \<Rightarrow> (string \<Rightarrow> string \<Rightarrow> bool) \<Rightarrow> bool" where
  "ilike_laws eqv like \<longleftrightarrow>
     (\<forall>s. like [] s = (s = [])) \<and>
     (\<forall>p s. like (CHR ''%'' # p) s = (\<exists>u v. s = u @ v \<and> like p v)) \<and>
     (\<forall>p s. like (CHR ''_'' # p) s = (\<exists>c v. s = c # v \<and> like p v)) \<and>
     (\<forall>c p s. like (BACKSLASH # c # p) s = (\<exists>d v. s = d # v \<and> eqv c d \<and> like p v)) \<and>
     (\<forall>c p s. c \<notin> {CHR ''%'', CHR ''_'', BACKSLASH} \<longrightarrow> like (c # p) s = (\<exists>d v. s = d # v \<and> eqv c d \<and> like p v))"

lemma like_escaped:
  assumes "ilike_laws eqv like"
  shows "like (likeEscape v @ p) s \<longleftrightarrow> (\<exists>m r. s = m @ r \<and> list_all2 eqv v m \<and> like p r)"
proof (induction v arbitrary: s)
  case (Cons c v)
  have step: "like (likeEscape (c # v) @ p) s \<longleftrightarrow> (\<exists>d u. s = d # u \<and> eqv c d \<and> like (likeEscape v @ p) u)"
    using assms by (auto simp: likeEscape_def ilike_laws_def)
  show ?case unfolding step Cons by (auto simp: list_all2_Cons1) (metis append_Cons)+
qed (simp add: likeEscape_def)

lemma like_patterns:
  assumes "ilike_laws eqv like"
  shows "like (likeEscape v) s \<longleftrightarrow> list_all2 eqv v s"
    and "like (likeEscape v @ ''%'') s \<longleftrightarrow> (\<exists>m b. s = m @ b \<and> list_all2 eqv v m)"
    and "like (''%'' @ likeEscape v) s \<longleftrightarrow> (\<exists>a m. s = a @ m \<and> list_all2 eqv v m)"
    and "like (''%'' @ likeEscape v @ ''%'') s \<longleftrightarrow> (\<exists>a m b. s = a @ m @ b \<and> list_all2 eqv v m)"
proof -
  have nil: "like [] s = (s = [])" and pct: "like (CHR ''%'' # p) s = (\<exists>u v. s = u @ v \<and> like p v)" for p s
    using assms by (auto simp: ilike_laws_def)
  have any: "like ''%'' s" for s by (auto simp: pct nil)
  show eq: "like (likeEscape v) s \<longleftrightarrow> list_all2 eqv v s" for s
    using like_escaped [OF assms, of v "[]"] by (simp add: nil)
  show pre: "like (likeEscape v @ ''%'') s \<longleftrightarrow> (\<exists>m b. s = m @ b \<and> list_all2 eqv v m)" for s
    by (simp add: like_escaped [OF assms] any)
  show "like (''%'' @ likeEscape v) s \<longleftrightarrow> (\<exists>a m. s = a @ m \<and> list_all2 eqv v m)"
    by (simp add: pct eq)
  show "like (''%'' @ likeEscape v @ ''%'') s \<longleftrightarrow> (\<exists>a m b. s = a @ m @ b \<and> list_all2 eqv v m)"
    by (simp add: pct pre) blast
qed

fun like_ref :: "string \<Rightarrow> string \<Rightarrow> bool" where
  "like_ref [] s = (s = [])"
| "like_ref (p # ps) s =
     (if p = CHR ''%'' then list_ex (\<lambda>n. like_ref ps (drop n s)) [0..<Suc (length s)]
      else if p = CHR ''_'' then (case s of [] \<Rightarrow> False | _ # v \<Rightarrow> like_ref ps v)
      else if p = BACKSLASH
      then (case ps of
              [] \<Rightarrow> False
            | c # ps' \<Rightarrow> (case s of [] \<Rightarrow> False | d # v \<Rightarrow> js_lower_char c = js_lower_char d \<and> like_ref ps' v))
      else (case s of [] \<Rightarrow> False | d # v \<Rightarrow> js_lower_char p = js_lower_char d \<and> like_ref ps v))"

lemma like_ref_laws: "ilike_laws (\<lambda>c d. js_lower_char c = js_lower_char d) like_ref"
proof -
  have "like_ref (CHR ''%'' # p) s = (\<exists>u v. s = u @ v \<and> like_ref p v)" for p s
  proof
    assume "like_ref (CHR ''%'' # p) s"
    then have "\<exists>n \<in> set [0..<Suc (length s)]. like_ref p (drop n s)" by (simp only: like_ref.simps list_ex_iff if_True)
    then obtain n where "like_ref p (drop n s)" by blast
    then show "\<exists>u v. s = u @ v \<and> like_ref p v" by (metis append_take_drop_id)
  next
    assume "\<exists>u v. s = u @ v \<and> like_ref p v"
    then obtain u v where "s = u @ v" "like_ref p v" by blast
    then show "like_ref (CHR ''%'' # p) s" by (auto simp: list_ex_iff intro!: bexI [of _ "length u"])
  qed
  then show ?thesis by (auto simp: ilike_laws_def split: list.split)
qed

section \<open>Properties\<close>



text \<open>C2: no user text reaches the SQL. Two queries with the same shape (structure, fields, operators, number
  of hash type values, forms of the dates, exact hash type of an \<open>ioc\<close> value) compile to the same SQL text and to
  the same number of bound parameters, whatever their values are; the values can only differ in the
  parameter array.\<close>

theorem sql_text_independent_of_values:
  assumes "ast_shape cf a = ast_shape cf b"
  shows "map_option (\<lambda>(sql, params). (sql_text sql, length params)) (buildWhereClause cf a) =
    map_option (\<lambda>(sql, params). (sql_text sql, length params)) (buildWhereClause cf b)"
proof -
  have "same_text (build cf a) (build cf b)" using assms by (rule same_text_build)
  then show ?thesis
    by (cases rule: same_textE [of "build cf a" "build cf b" "[]" "[]"]) (simp_all add: buildWhereClause_def)
qed

theorem sql_text_independent_of_values_witness:
  "map_option (\<lambda>(sql, params). (sql_text sql, length params))
     (buildWhereClause \<lparr>tz = ''UTC'', fileArtifactsReadEnabled = True, nowMs = 0, classRegistry = None\<rparr>
       (CondNode (ValueCondition ''tag'' KText ''equals'' [''x'']))) =
   map_option (\<lambda>(sql, params). (sql_text sql, length params))
     (buildWhereClause \<lparr>tz = ''UTC'', fileArtifactsReadEnabled = True, nowMs = 0, classRegistry = None\<rparr>
       (CondNode (ValueCondition ''tag'' KText ''equals'' [''1 OR TRUE; --''])))"
  by (rule sql_text_independent_of_values) (simp add: value_shape_def)

text \<open>wildcards in a search value are literal. Under the documented behaviour of \<open>ILIKE\<close>, the pattern that
  the builder binds for \<open>contains\<close> (\<open>starts_with\<close>, \<open>ends_with\<close>, \<open>equals\<close>) matches a column exactly
  when the column has the value, percent signs, underscores and backslashes included, as a substring (prefix, suffix,
  whole), up to letter case.\<close>

theorem text_patterns_literal:
  assumes "ilike_laws eqv like"
  shows "(\<exists>p. map_option snd (buildTextColumn ''contains'' [v] col ps) = Some (ps @ [PText p]) \<and>
        (\<forall>s. like p s \<longleftrightarrow> (\<exists>x m y. s = x @ m @ y \<and> list_all2 eqv v m))) \<and>
    (\<exists>p. map_option snd (buildTextColumn ''starts_with'' [v] col ps) = Some (ps @ [PText p]) \<and>
        (\<forall>s. like p s \<longleftrightarrow> (\<exists>m y. s = m @ y \<and> list_all2 eqv v m))) \<and>
    (\<exists>p. map_option snd (buildTextColumn ''ends_with'' [v] col ps) = Some (ps @ [PText p]) \<and>
        (\<forall>s. like p s \<longleftrightarrow> (\<exists>x m. s = x @ m \<and> list_all2 eqv v m))) \<and>
    (\<exists>p. map_option snd (buildTextColumn ''equals'' [v] col ps) = Some (ps @ [PText p]) \<and>
        (\<forall>s. like p s \<longleftrightarrow> list_all2 eqv v s))"
  using like_patterns [OF assms, of v]
  by (simp add: buildTextColumn_def nth_or_empty_def ilike_def bind_in_def bind_value_def)

theorem text_patterns_literal_witness:
  "(\<exists>p. map_option snd (buildTextColumn ''contains'' [''50%''] ''f.name'' []) = Some ([] @ [PText p]) \<and>
      (\<forall>s. like_ref p s \<longleftrightarrow> (\<exists>x m y. s = x @ m @ y \<and> list_all2 (\<lambda>c d. js_lower_char c = js_lower_char d) ''50%'' m)))"
  using text_patterns_literal [OF like_ref_laws, of "''50%''" "''f.name''" "[]"] by (elim conjE) assumption

end
