(* ===== verification/DslClassify.thy ===== *)
theory DslClassify
  imports DslRender
begin

text \<open>
  The expensive-query classifier of the IOC search (\<open>backend/lib/iocSearchDsl/classifyQuery.js\<close>): it folds
  an AST to a cost, a selectivity and a reason, and routes expensive queries to an asynchronous Deep
  Search. The soundness theorem reads the verdict semantically: an interactive query is covered by
  index-served predicates, so its answer is contained in what the indexes return.
\<close>

section \<open>The classifier\<close>

datatype cost = Cheap | Expensive

record verdict =
  v_cost :: cost
  selective :: bool
  v_reason :: "string option"

definition LEADING_WILDCARD :: string where "LEADING_WILDCARD = ''leading_wildcard''"
definition NEGATIVE_PREDICATE :: string where "NEGATIVE_PREDICATE = ''negative_predicate''"
definition BROAD_OR :: string where "BROAD_OR = ''broad_or''"
definition SOURCE_SCAN :: string where "SOURCE_SCAN = ''source_scan''"
definition NO_SELECTIVE_PREDICATE :: string where "NO_SELECTIVE_PREDICATE = ''no_selective_predicate''"

definition DEEP_SEARCH_REASONS :: "string list" where
  "DEEP_SEARCH_REASONS = [LEADING_WILDCARD, NEGATIVE_PREDICATE, BROAD_OR, SOURCE_SCAN, NO_SELECTIVE_PREDICATE]"

definition ENUM_FIELDS :: "string list" where
  "ENUM_FIELDS = [''type'', ''known_hash_type'', ''status'', ''confidence'', ''classification'']"
definition DATE_FIELDS :: "string list" where
  "DATE_FIELDS = [''first_seen'', ''last_seen'', ''last_changed'', ''created_at'']"
definition HASH_FIELDS :: "string list" where "HASH_FIELDS = [''md5'', ''sha1'', ''sha256'']"
definition ATTR_FIELDS :: "string list" where "ATTR_FIELDS = [''imphash'', ''tlsh'', ''ssdeep'']"

definition cheap :: "bool \<Rightarrow> verdict" where
  "cheap sel = \<lparr>v_cost = Cheap, selective = sel, v_reason = None\<rparr>"

definition expensive :: "string option \<Rightarrow> verdict" where
  "expensive r = \<lparr>v_cost = Expensive, selective = False, v_reason = r\<rparr>"

definition condition_values :: "condition \<Rightarrow> string list" where
  "condition_values c = (case c of ValueCondition _ _ _ vs \<Rightarrow> vs | DateCondition _ _ _ \<Rightarrow> [])"

definition valueLength :: "condition \<Rightarrow> nat" where
  "valueLength c = (case condition_values c of v # _ \<Rightarrow> length (js_trim v) | [] \<Rightarrow> 0)"

definition classifyCondition :: "classifier_config \<Rightarrow> condition \<Rightarrow> verdict" where
  "classifyCondition cfg c =
     (let field = cond_field c; operator = cond_operator c
      in if field \<in> set HASH_FIELDS \<or> field \<in> set ATTR_FIELDS then cheap True
         else if field = ''classification''
         then (if operator = ''not_equals'' \<or> operator = ''not_in'' then expensive (Some NEGATIVE_PREDICATE) else cheap False)
         else if field \<in> set ENUM_FIELDS then cheap False
         else if field \<in> set DATE_FIELDS then cheap False
         else if field = ''source'' then expensive (Some SOURCE_SCAN)
         else
           let len = valueLength c
           in if operator = ''equals'' then cheap True
              else if operator = ''in'' then cheap True
              else if operator = ''starts_with''
              then (if len \<ge> trigramMinLength cfg then cheap False else expensive (Some LEADING_WILDCARD))
              else if operator = ''contains'' \<or> operator = ''ends_with''
              then (if len \<ge> trigramMinLength cfg then cheap False else expensive (Some LEADING_WILDCARD))
              else if operator = ''not_contains'' \<or> operator = ''not_equals'' \<or> operator = ''not_in''
              then expensive (Some NEGATIVE_PREDICATE)
              else expensive (Some NO_SELECTIVE_PREDICATE))"

definition first_expensive :: "verdict list \<Rightarrow> verdict option" where
  "first_expensive vs = find (\<lambda>c. v_cost c = Expensive) vs"

fun isEnumOnly :: "ast \<Rightarrow> bool" where
  "isEnumOnly (CondNode c) = (cond_field c \<in> set ENUM_FIELDS \<and> cond_field c \<noteq> ''classification'')"
| "isEnumOnly a = False"

fun classifyNode :: "classifier_config \<Rightarrow> ast \<Rightarrow> verdict" where
  "classifyNode cfg (CondNode c) = classifyCondition cfg c"
| "classifyNode cfg (NotNode a) =
     (let child = classifyNode cfg a
      in if v_cost child = Expensive then child\<lparr>selective := False\<rparr>
         else if isEnumOnly a then cheap False
         else expensive (Some NEGATIVE_PREDICATE))"
| "classifyNode cfg (AndNode cs) =
     (let children = map (classifyNode cfg) cs
      in if list_ex selective children then cheap True
         else case first_expensive children of
                Some e \<Rightarrow> expensive (v_reason e)
              | None \<Rightarrow> cheap False)"
| "classifyNode cfg (OrNode cs) =
     (let children = map (classifyNode cfg) cs
      in case first_expensive children of
           Some e \<Rightarrow> expensive (v_reason e)
         | None \<Rightarrow>
             if length cs > maxOrBranches cfg then expensive (Some BROAD_OR)
             else cheap (0 < length children \<and> list_all selective children))"

datatype search_mode = Interactive | DeepSearch string

definition classifyQuery :: "classifier_config \<Rightarrow> ast \<Rightarrow> search_mode" where
  "classifyQuery cfg a =
     (let result = classifyNode cfg a
      in if v_cost result = Expensive
         then DeepSearch (case v_reason result of Some r \<Rightarrow> r | None \<Rightarrow> NO_SELECTIVE_PREDICATE)
         else Interactive)"

section \<open>Index-served literals\<close>

text \<open>A literal is a condition with a polarity; a negated one is served only on a bounded enum column.\<close>

type_synonym literal = "condition \<times> bool"

definition served :: "classifier_config \<Rightarrow> literal \<Rightarrow> bool" where
  "served cfg l =
     (v_cost (classifyCondition cfg (fst l)) = Cheap \<and> (if snd l then True else isEnumOnly (CondNode (fst l))))"

definition holds :: "(condition \<Rightarrow> bool) \<Rightarrow> literal \<Rightarrow> bool" where
  "holds v l \<longleftrightarrow> v (fst l) = snd l"

definition covers :: "literal set \<Rightarrow> ast \<Rightarrow> bool" where
  "covers C a \<longleftrightarrow> (\<forall>v. eval_ast v a \<longrightarrow> (\<exists>l \<in> C. holds v l))"

definition served_by :: "classifier_config \<Rightarrow> ast \<Rightarrow> literal set \<Rightarrow> bool" where
  "served_by cfg a C \<longleftrightarrow> finite C \<and> fst ` C \<subseteq> set (conds a) \<and> (\<forall>l \<in> C. served cfg l) \<and> covers C a"

lemma cheap_simps [simp]:
  "v_cost (cheap s) = Cheap" "selective (cheap s) = s" "v_cost (expensive r) = Expensive" "\<not> selective (expensive r)"
  "v_reason (expensive r) = r"
  by (simp_all add: cheap_def expensive_def)

lemma served_by_leaf: "v_cost (classifyCondition cfg c) = Cheap \<Longrightarrow> served_by cfg (CondNode c) {(c, True)}"
  by (simp add: served_by_def served_def covers_def holds_def)

lemma served_by_and:
  assumes "c \<in> set cs" "served_by cfg c C"
  shows "served_by cfg (AndNode cs) C"
  using assms by (auto simp: served_by_def covers_def list_all_iff)

lemma served_by_or:
  assumes "\<And>c. c \<in> set cs \<Longrightarrow> \<exists>C. served_by cfg c C"
  shows "\<exists>C. served_by cfg (OrNode cs) C"
proof -
  from assms obtain F where F: "\<And>c. c \<in> set cs \<Longrightarrow> served_by cfg c (F c)" by metis
  have "served_by cfg (OrNode cs) (\<Union> (F ` set cs))"
    using F by (fastforce simp: served_by_def covers_def list_ex_iff)
  then show ?thesis by blast
qed

lemma first_expensive_None: "first_expensive vs = None \<longleftrightarrow> (\<forall>v \<in> set vs. v_cost v = Cheap)"
  by (auto simp: first_expensive_def find_None_iff) (metis cost.exhaust)

lemma selective_cheap: "selective (classifyNode cfg a) \<Longrightarrow> v_cost (classifyNode cfg a) = Cheap"
proof (induction a)
  case (CondNode c)
  then show ?case by (auto simp: classifyCondition_def Let_def split: if_splits)
qed (auto simp: Let_def split: if_splits option.splits)

lemma cheap_served:
  "wf_ast dk lm a \<Longrightarrow> v_cost (classifyNode cfg a) = Cheap \<Longrightarrow> \<exists>C. served_by cfg a C"
proof (induction a)
  case (CondNode c)
  then show ?case using served_by_leaf by auto
next
  case (NotNode a)
  then have "isEnumOnly a" "v_cost (classifyNode cfg a) = Cheap"
    by (auto simp: Let_def split: if_splits intro: cost.exhaust)
  then obtain c where a: "a = CondNode c" "v_cost (classifyCondition cfg c) = Cheap" by (cases a) auto
  then have "served_by cfg (NotNode a) {(c, False)}"
    using \<open>isEnumOnly a\<close> by (simp add: served_by_def served_def covers_def holds_def)
  then show ?case by blast
next
  case (AndNode cs)
  have wf: "cs \<noteq> []" "\<And>c. c \<in> set cs \<Longrightarrow> wf_ast dk lm c" using wf_ast_children(1) [OF AndNode.prems(1)] by auto
  have "\<exists>c \<in> set cs. v_cost (classifyNode cfg c) = Cheap"
  proof (cases "list_ex selective (map (classifyNode cfg) cs)")
    case True
    then show ?thesis using selective_cheap by (auto simp: list_ex_iff)
  next
    case False
    then show ?thesis using AndNode.prems(2) wf(1)
      by (cases cs) (auto simp: Let_def first_expensive_None split: option.splits)
  qed
  then show ?case using AndNode.IH wf served_by_and by meson
next
  case (OrNode cs)
  have "\<And>c. c \<in> set cs \<Longrightarrow> wf_ast dk lm c" using wf_ast_children(2) [OF OrNode.prems(1)] by auto
  moreover have "\<And>c. c \<in> set cs \<Longrightarrow> v_cost (classifyNode cfg c) = Cheap"
    using OrNode.prems(2) by (auto simp: Let_def first_expensive_None split: option.splits)
  ultimately show ?case using OrNode.IH served_by_or by meson
qed

lemma reasons_known:
  "v_cost (classifyNode cfg a) = Expensive \<Longrightarrow> \<exists>r \<in> set DEEP_SEARCH_REASONS. v_reason (classifyNode cfg a) = Some r"
proof (induction a)
  case (CondNode c)
  then show ?case by (auto simp: classifyCondition_def Let_def DEEP_SEARCH_REASONS_def split: if_splits)
next
  case (NotNode a)
  then show ?case by (auto simp: Let_def DEEP_SEARCH_REASONS_def split: if_splits)
next
  case (AndNode cs)
  then obtain e where "first_expensive (map (classifyNode cfg) cs) = Some e" "v_reason (classifyNode cfg (AndNode cs)) = v_reason e"
    by (auto simp: Let_def split: if_splits option.splits)
  then show ?case using AndNode.IH by (auto simp: first_expensive_def find_Some_iff)
next
  case (OrNode cs)
  show ?case
  proof (cases "first_expensive (map (classifyNode cfg) cs)")
    case None
    then show ?thesis using OrNode.prems by (simp add: Let_def DEEP_SEARCH_REASONS_def split: if_splits)
  next
    case (Some e)
    then have "v_reason (classifyNode cfg (OrNode cs)) = v_reason e" by simp
    then show ?thesis using OrNode.IH Some by (auto simp: first_expensive_def find_Some_iff)
  qed
qed

section \<open>Properties\<close>

text \<open>An interactive verdict is sound. When the classifier keeps an accepted query on the interactive path,
  there is a finite set of literals of the query, each served by an index (a cheap condition, or a negated
  condition on a bounded enum column), such that every match of the query satisfies one of them; the
  query never has to scan beyond what those index lookups return.\<close>

theorem interactive_query_is_index_served:
  assumes "parseDsl date_ok limits input = Some (Inr a)" and "classifyQuery cfg a = Interactive"
  shows "\<exists>C. finite C \<and> fst ` C \<subseteq> set (conds a) \<and> (\<forall>l \<in> C. served cfg l) \<and> covers C a"
proof -
  have "v_cost (classifyNode cfg a) = Cheap"
    using assms(2) by (auto simp: classifyQuery_def Let_def split: if_splits intro: cost.exhaust)
  with parseDsl_accepted [OF assms(1)] show ?thesis using cheap_served unfolding served_by_def by blast
qed

definition sample_hash_ast :: ast where
  "sample_hash_ast = CondNode (ValueCondition ''md5'' KHash ''equals'' [replicate 32 CHR ''a''])"

lemma sample_hash_parses:
  "parseDsl (\<lambda>_. True) sample_limits (renderNormalizedQuery sample_hash_ast) = Some (Inr sample_hash_ast)"
  using parseDsl_render [of "\<lambda>_. True" sample_limits sample_hash_ast] by (simp add: sample_hash_ast_def) code_simp

theorem interactive_query_is_index_served_witness:
  "\<exists>C. finite C \<and> fst ` C \<subseteq> set (conds sample_hash_ast) \<and>
     ((\<forall>l \<in> C. served \<lparr>trigramMinLength = 3, maxOrBranches = 4\<rparr> l) = True) \<and> covers C sample_hash_ast"
  using interactive_query_is_index_served [OF sample_hash_parses, of "\<lparr>trigramMinLength = 3, maxOrBranches = 4\<rparr>"]
  by (simp add: classifyQuery_def sample_hash_ast_def classifyCondition_def HASH_FIELDS_def)

text \<open>a query routed to Deep Search always carries one of the five documented machine-readable reasons;
  the fallback reason of the source is never needed.\<close>

theorem deep_search_has_reason:
  assumes "classifyQuery cfg a = DeepSearch r"
  shows "r \<in> set DEEP_SEARCH_REASONS \<and> v_reason (classifyNode cfg a) = Some r"
  using assms reasons_known [of cfg a] by (auto simp: classifyQuery_def Let_def split: if_splits)

theorem deep_search_has_reason_witness:
  "SOURCE_SCAN \<in> set DEEP_SEARCH_REASONS \<and>
   v_reason (classifyNode \<lparr>trigramMinLength = 3, maxOrBranches = 4\<rparr>
     (CondNode (ValueCondition ''source'' KText ''equals'' [''x'']))) = Some SOURCE_SCAN"
  by (rule deep_search_has_reason) code_simp

definition five_tags :: "ast list" where
  "five_tags = map (\<lambda>t. CondNode (ValueCondition ''tag'' KText ''equals'' [[t]])) ''abcde''"

text \<open>The width limit of OR groups is checked per node of the parsed tree, and the parser keeps parenthesised
  groups: five alternatives are too broad, the same five with two of them in parentheses are not, although
  both have the same normalised text.\<close>

theorem or_width_depends_on_parentheses:
  "classifyQuery \<lparr>trigramMinLength = 3, maxOrBranches = 4\<rparr> (OrNode five_tags) = DeepSearch BROAD_OR \<and>
   classifyQuery \<lparr>trigramMinLength = 3, maxOrBranches = 4\<rparr> (OrNode [OrNode (take 2 five_tags), OrNode (drop 2 five_tags)]) = Interactive \<and>
   renderNormalizedQuery (OrNode [OrNode (take 2 five_tags), OrNode (drop 2 five_tags)]) = renderNormalizedQuery (OrNode five_tags)"
  by code_simp

end
