(* ===== verification/AccessControl.thy ===== *)
theory AccessControl
  imports TH_Prelude
begin

text \<open>
  Roles, API key profiles and MCP tool authorization (\<open>backend/lib/rbac.js\<close>, \<open>apiKeyProfiles.js\<close> and
  \<open>mcpPermissions.js\<close>). An Express middleware is a function to \<open>http_result\<close> (call \<open>next()\<close>, or answer
  403). Scope lists are lists of strings (the JSON-text form of stored scopes is not modelled). A plain
  object read with a computed key also sees the properties of \<open>Object.prototype\<close>; \<open>js_get\<close> says so. Shown: the
  exact authorization condition of every tool, that a credential never does more than its owner's role or its scopes
  allow, and what a read-only user can reach over HTTP.
\<close>

section \<open>rbac.js\<close>

definition ADMIN :: string where "ADMIN = ''admin''"
definition ANALYST :: string where "ANALYST = ''analyst''"
definition READONLY :: string where "READONLY = ''readonly''"

definition ALL_APP_ROLES :: "string list" where
  "ALL_APP_ROLES = [ADMIN, ANALYST, READONLY]"

definition normalizeAppRole :: "string option \<Rightarrow> string option" where
  "normalizeAppRole v =
     (let r = (case v of None \<Rightarrow> [] | Some s \<Rightarrow> js_lower (js_trim s))
      in if r \<in> set ALL_APP_ROLES then Some r else None)"

definition effectiveRoleFromPayload :: "string option \<Rightarrow> string option" where
  "effectiveRoleFromPayload roleClaim = normalizeAppRole roleClaim"

definition isAdminRole :: "string option \<Rightarrow> bool" where
  "isAdminRole role \<longleftrightarrow> normalizeAppRole role = Some ADMIN"

definition isReadOnlyRole :: "string option \<Rightarrow> bool" where
  "isReadOnlyRole role \<longleftrightarrow> normalizeAppRole role = Some READONLY"

definition canTriage :: "string option \<Rightarrow> bool" where
  "canTriage role \<longleftrightarrow> normalizeAppRole role = Some ADMIN \<or> normalizeAppRole role = Some ANALYST"

text \<open>A request as the middlewares see it; \<open>user\<close> is \<open>None\<close> when no user is attached, and the inner
  option is a missing role claim.\<close>

record request =
  path :: string
  http_method :: string
  authVia :: "string option"
  user :: "string option option"

datatype http_result = Next | Forbidden

definition requireRole :: "string list \<Rightarrow> request \<Rightarrow> http_result" where
  "requireRole allowed req =
     (if authVia req = Some ''ingest'' then Forbidden
      else case normalizeAppRole (case user req of None \<Rightarrow> None | Some r \<Rightarrow> r) of
             None \<Rightarrow> Forbidden
           | Some role \<Rightarrow> if role \<in> set allowed then Next else Forbidden)"

definition requireTriageRole :: "request \<Rightarrow> http_result" where
  "requireTriageRole = requireRole [ADMIN, ANALYST]"

text \<open>\<open>[0-9a-f]{8}-[0-9a-f]{4}-[0-9a-f]{4}-[0-9a-f]{4}-[0-9a-f]{12}\<close> under the \<open>i\<close> flag.\<close>

definition uuid_re :: "string \<Rightarrow> bool" where
  "uuid_re s \<longleftrightarrow>
     length s = 36 \<and>
     list_all (\<lambda>i. if i \<in> {8, 13, 18, 23} then s ! i = CHR ''-'' else is_hex (s ! i)) [0..<36]"

definition user_path_re :: "string \<Rightarrow> bool" where
  "user_path_re p \<longleftrightarrow> js_lower (take 11 p) = ''/api/users/'' \<and> uuid_re (drop 11 p)"

definition watchlist_path_re :: "string \<Rightarrow> bool" where
  "watchlist_path_re p \<longleftrightarrow>
     js_lower (take 9 p) = ''/api/ioc/'' \<and> uuid_re (take 36 (drop 9 p)) \<and> js_lower (drop 45 p) = ''/watchlist''"

definition rbacHttpPolicy :: "request \<Rightarrow> http_result" where
  "rbacHttpPolicy req =
     (if take 4 (path req) \<noteq> ''/api'' then Next
      else if http_method req = ''OPTIONS'' then Next
      else if authVia req = Some ''ingest'' then Next
      else case user req of
             None \<Rightarrow> Next
           | Some r \<Rightarrow>
               (case normalizeAppRole r of
                  None \<Rightarrow> Forbidden
                | Some role \<Rightarrow>
                    if role \<noteq> READONLY then Next
                    else let m = http_method req
                         in if m = ''GET'' \<or> m = ''HEAD'' then Next
                            else if m = ''PUT'' \<and> (user_path_re (path req) \<or> path req = ''/api/users/me/preferences'')
                            then Next
                            else if (m = ''PUT'' \<or> m = ''DELETE'') \<and> watchlist_path_re (path req) then Next
                            else Forbidden))"

section \<open>apiKeyProfiles.js\<close>

definition PUBLISHED_FEEDS_READ :: string where "PUBLISHED_FEEDS_READ = ''published_feeds:read''"
definition IOC_CREATE :: string where "IOC_CREATE = ''ioc:create''"
definition IOC_UPDATE :: string where "IOC_UPDATE = ''ioc:update''"
definition IOC_READ :: string where "IOC_READ = ''ioc:read''"
definition IOC_EXPORT :: string where "IOC_EXPORT = ''ioc:export''"
definition MCP_IOC_READ :: string where "MCP_IOC_READ = ''mcp:ioc:read''"
definition MCP_IOC_CREATE :: string where "MCP_IOC_CREATE = ''mcp:ioc:create''"
definition MCP_ENRICHMENT_READ :: string where "MCP_ENRICHMENT_READ = ''mcp:enrichment:read''"
definition MCP_ENRICHMENT_WRITE :: string where "MCP_ENRICHMENT_WRITE = ''mcp:enrichment:write''"
definition MCP_SOURCES_READ :: string where "MCP_SOURCES_READ = ''mcp:sources:read''"
definition MCP_TAGS_WRITE :: string where "MCP_TAGS_WRITE = ''mcp:tags:write''"
definition MCP_THREAT_LIBRARY_IMPORT :: string where "MCP_THREAT_LIBRARY_IMPORT = ''mcp:threat_library:import''"
definition MCP_THREAT_LIBRARY_WRITE :: string where "MCP_THREAT_LIBRARY_WRITE = ''mcp:threat_library:write''"

definition ALL_API_SCOPES :: "string list" where
  "ALL_API_SCOPES =
     [PUBLISHED_FEEDS_READ, IOC_CREATE, IOC_UPDATE, IOC_READ, IOC_EXPORT, MCP_IOC_READ, MCP_IOC_CREATE, MCP_ENRICHMENT_READ, MCP_ENRICHMENT_WRITE, MCP_SOURCES_READ, MCP_TAGS_WRITE, MCP_THREAT_LIBRARY_IMPORT, MCP_THREAT_LIBRARY_WRITE]"

record access_profile =
  prof_label :: string
  prof_key_prefix :: string
  prof_scopes :: "string list"
  creatable :: bool
  requiresOwner :: bool

definition PROFILE_DEFS :: "(string \<times> access_profile) list" where
  "PROFILE_DEFS =
     [(''published_feed'', \<lparr>prof_label = ''Published Feed'', prof_key_prefix = ''th_pf_'',
         prof_scopes = [PUBLISHED_FEEDS_READ], creatable = True, requiresOwner = False\<rparr>),
      (''ioc_management'', \<lparr>prof_label = ''IOC Management'', prof_key_prefix = ''th_ioc_'',
         prof_scopes = [IOC_CREATE, IOC_UPDATE], creatable = True, requiresOwner = False\<rparr>),
      (''ioc_read'', \<lparr>prof_label = ''IOC Read'', prof_key_prefix = ''th_read_'',
         prof_scopes = [IOC_READ, IOC_EXPORT], creatable = True, requiresOwner = False\<rparr>),
      (''mcp_read'', \<lparr>prof_label = ''MCP Read'', prof_key_prefix = ''th_mcp_'',
         prof_scopes = [MCP_IOC_READ, MCP_SOURCES_READ, MCP_ENRICHMENT_READ], creatable = True, requiresOwner = True\<rparr>),
      (''mcp_analyst'', \<lparr>prof_label = ''MCP Analyst'', prof_key_prefix = ''th_mcp_'',
         prof_scopes = [MCP_IOC_READ, MCP_IOC_CREATE, MCP_SOURCES_READ, MCP_ENRICHMENT_READ, MCP_ENRICHMENT_WRITE,
           MCP_TAGS_WRITE, MCP_THREAT_LIBRARY_IMPORT, MCP_THREAT_LIBRARY_WRITE], creatable = True, requiresOwner = True\<rparr>),
      (''feed_access'', \<lparr>prof_label = ''Feed Access (legacy)'', prof_key_prefix = [],
         prof_scopes = [PUBLISHED_FEEDS_READ], creatable = False, requiresOwner = False\<rparr>)]"

definition listCreatableAccessProfiles :: "access_profile list" where
  "listCreatableAccessProfiles = filter creatable (map snd PROFILE_DEFS)"

definition getAccessProfile :: "string \<Rightarrow> access_profile js_lookup" where
  "getAccessProfile profileId = js_get PROFILE_DEFS (js_lower (js_trim profileId))"

text \<open>Spreading the missing \<open>scopes\<close> of a prototype member throws.\<close>

datatype js_error = TypeError

definition scopesForAccessProfile :: "string \<Rightarrow> (js_error, string list) result" where
  "scopesForAccessProfile profileId =
     (case getAccessProfile profileId of Found p \<Rightarrow> Inr (prof_scopes p) | Absent \<Rightarrow> Inr [] | ProtoMember \<Rightarrow> Inl TypeError)"

definition normalizeScopes :: "string list \<Rightarrow> string list" where
  "normalizeScopes raw = filter (\<lambda>s. s \<noteq> []) (map js_trim raw)"

definition hasApiScope :: "string list \<Rightarrow> string \<Rightarrow> bool" where
  "hasApiScope scopes requiredScope =
     (let required = js_trim requiredScope in required \<noteq> [] \<and> required \<in> set (normalizeScopes scopes))"

definition profileRequiresOwner :: "string \<Rightarrow> bool" where
  "profileRequiresOwner profileId =
     (case getAccessProfile profileId of Found p \<Rightarrow> requiresOwner p | _ \<Rightarrow> False)"

definition isMcpAccessProfile :: "string \<Rightarrow> bool" where
  "isMcpAccessProfile profileId =
     (let pid = js_lower (js_trim profileId) in pid = ''mcp_read'' \<or> pid = ''mcp_analyst'')"

section \<open>mcpPermissions.js\<close>

definition MCP_TOOL_SCOPES :: "(string \<times> string list) list" where
  "MCP_TOOL_SCOPES =
     [(''lookup_ioc'', [MCP_IOC_READ]),
      (''search_iocs'', [MCP_IOC_READ]),
      (''get_ioc_context'', [MCP_IOC_READ]),
      (''get_threat_report'', [MCP_IOC_READ]),
      (''bulk_lookup_iocs'', [MCP_IOC_READ]),
      (''list_ioc_sources'', [MCP_SOURCES_READ]),
      (''import_iocs'', [MCP_IOC_CREATE]),
      (''list_enrichment_providers'', [MCP_ENRICHMENT_READ]),
      (''get_enrichment_job'', [MCP_ENRICHMENT_READ]),
      (''enrich_ioc'', [MCP_IOC_READ, MCP_ENRICHMENT_WRITE]),
      (''bulk_enrich_iocs'', [MCP_IOC_READ, MCP_ENRICHMENT_WRITE]),
      (''list_tags'', [MCP_IOC_READ]),
      (''list_malware_families'', [MCP_IOC_READ]),
      (''list_iocs_by_malware_family'', [MCP_IOC_READ]),
      (''add_ioc_tags'', [MCP_IOC_READ, MCP_TAGS_WRITE]),
      (''remove_ioc_tags'', [MCP_IOC_READ, MCP_TAGS_WRITE]),
      (''threat_library_import_url'', [MCP_IOC_READ, MCP_THREAT_LIBRARY_IMPORT]),
      (''get_threat_library_import_status'', [MCP_IOC_READ]),
      (''threat_library_list_reports'', [MCP_IOC_READ]),
      (''threat_library_check_report_urls'', [MCP_IOC_READ]),
      (''threat_library_get_review'', [MCP_IOC_READ]),
      (''threat_library_get_workflow_status'', [MCP_IOC_READ]),
      (''threat_library_review_iocs'', [MCP_IOC_READ, MCP_THREAT_LIBRARY_WRITE]),
      (''threat_library_create_iocs'', [MCP_IOC_READ, MCP_THREAT_LIBRARY_WRITE]),
      (''threat_library_finalize_report'', [MCP_IOC_READ, MCP_THREAT_LIBRARY_WRITE]),
      (''threat_library_review_ioc_source'', [MCP_IOC_READ, MCP_THREAT_LIBRARY_WRITE])]"

definition MCP_ENRICHMENT_ACTION_TOOLS :: "string list" where
  "MCP_ENRICHMENT_ACTION_TOOLS = [''enrich_ioc'', ''bulk_enrich_iocs'']"

definition MCP_TAG_ACTION_TOOLS :: "string list" where
  "MCP_TAG_ACTION_TOOLS = [''add_ioc_tags'', ''remove_ioc_tags'']"

definition MCP_THREAT_LIBRARY_IMPORT_ACTION_TOOLS :: "string list" where
  "MCP_THREAT_LIBRARY_IMPORT_ACTION_TOOLS = [''threat_library_import_url'']"

definition MCP_THREAT_LIBRARY_WRITE_ACTION_TOOLS :: "string list" where
  "MCP_THREAT_LIBRARY_WRITE_ACTION_TOOLS =
     [''threat_library_review_iocs'', ''threat_library_create_iocs'', ''threat_library_finalize_report'',
      ''threat_library_review_ioc_source'']"

definition mcpHasScope :: "string list \<Rightarrow> string \<Rightarrow> bool" where
  "mcpHasScope scopes required = hasApiScope scopes required"

definition ownerCanMcpRead :: "string option \<Rightarrow> bool" where
  "ownerCanMcpRead role \<longleftrightarrow> normalizeAppRole role \<noteq> None"

definition ownerCanMcpEnrich :: "string option \<Rightarrow> bool" where
  "ownerCanMcpEnrich role \<longleftrightarrow> normalizeAppRole role = Some ADMIN \<or> normalizeAppRole role = Some ANALYST"

definition ownerCanMcpTag :: "string option \<Rightarrow> bool" where
  "ownerCanMcpTag role \<longleftrightarrow> normalizeAppRole role = Some ADMIN \<or> normalizeAppRole role = Some ANALYST"

definition ownerCanMcpCreate :: "string option \<Rightarrow> bool" where
  "ownerCanMcpCreate role \<longleftrightarrow> normalizeAppRole role = Some ADMIN \<or> normalizeAppRole role = Some ANALYST"

definition ownerCanMcpImportReport :: "string option \<Rightarrow> bool" where
  "ownerCanMcpImportReport role \<longleftrightarrow> normalizeAppRole role = Some ADMIN \<or> normalizeAppRole role = Some ANALYST"

definition ownerCanMcpThreatLibraryWrite :: "string option \<Rightarrow> bool" where
  "ownerCanMcpThreatLibraryWrite role \<longleftrightarrow> normalizeAppRole role = Some ADMIN \<or> normalizeAppRole role = Some ANALYST"

record mcp_capabilities =
  ioc_read :: bool
  ioc_create :: bool
  sources_read :: bool
  enrichment_read :: bool
  enrichment_write :: bool
  tags_read :: bool
  tags_write :: bool
  malware_families_read :: bool
  threat_library_import :: bool
  threat_library_write :: bool
  owner_role :: "string option"
  owner_readonly :: bool

definition effectiveMcpCapabilities :: "string list \<Rightarrow> string option \<Rightarrow> mcp_capabilities" where
  "effectiveMcpCapabilities scopes ownerRole =
     \<lparr>ioc_read = (ownerCanMcpRead ownerRole \<and> mcpHasScope scopes MCP_IOC_READ),
      ioc_create = (ownerCanMcpCreate ownerRole \<and> mcpHasScope scopes MCP_IOC_CREATE),
      sources_read = (ownerCanMcpRead ownerRole \<and> mcpHasScope scopes MCP_SOURCES_READ),
      enrichment_read = (ownerCanMcpRead ownerRole \<and> mcpHasScope scopes MCP_ENRICHMENT_READ),
      enrichment_write = (ownerCanMcpEnrich ownerRole \<and> mcpHasScope scopes MCP_ENRICHMENT_WRITE),
      tags_read = (ownerCanMcpTag ownerRole \<and> mcpHasScope scopes MCP_IOC_READ),
      tags_write = (ownerCanMcpTag ownerRole \<and> mcpHasScope scopes MCP_TAGS_WRITE),
      malware_families_read = (ownerCanMcpTag ownerRole \<and> mcpHasScope scopes MCP_IOC_READ),
      threat_library_import = (ownerCanMcpImportReport ownerRole \<and> mcpHasScope scopes MCP_THREAT_LIBRARY_IMPORT),
      threat_library_write = (ownerCanMcpThreatLibraryWrite ownerRole \<and> mcpHasScope scopes MCP_THREAT_LIBRARY_WRITE),
      owner_role = normalizeAppRole ownerRole,
      owner_readonly = isReadOnlyRole ownerRole\<rparr>"

datatype authz = Authorized | UnknownTool | MissingScope string | RbacDenied | Threw js_error

text \<open>The tool-specific check after the scopes: the name of the tool selects the capability.\<close>

definition tool_capability :: "string \<Rightarrow> mcp_capabilities \<Rightarrow> bool" where
  "tool_capability name caps =
     (if name = ''import_iocs'' then ioc_create caps
      else if name \<in> set MCP_ENRICHMENT_ACTION_TOOLS then enrichment_write caps \<and> ioc_read caps
      else if name \<in> set MCP_TAG_ACTION_TOOLS then tags_write caps \<and> ioc_read caps
      else if name \<in> set MCP_THREAT_LIBRARY_IMPORT_ACTION_TOOLS then threat_library_import caps \<and> ioc_read caps
      else if name \<in> set MCP_THREAT_LIBRARY_WRITE_ACTION_TOOLS then threat_library_write caps \<and> ioc_read caps
      else if name = ''list_tags'' then tags_read caps
      else if name = ''list_malware_families'' \<or> name = ''list_iocs_by_malware_family'' then malware_families_read caps
      else if name = ''list_enrichment_providers'' \<or> name = ''get_enrichment_job'' then enrichment_read caps
      else if name = ''list_ioc_sources'' then sources_read caps
      else ioc_read caps)"

definition authorizeMcpTool :: "string \<Rightarrow> string list \<Rightarrow> string option \<Rightarrow> authz" where
  "authorizeMcpTool toolName scopes ownerRole =
     (let name = js_trim toolName
      in case js_get MCP_TOOL_SCOPES name of
           Absent \<Rightarrow> UnknownTool
         | ProtoMember \<Rightarrow> Threw TypeError
         | Found required \<Rightarrow>
             (let caps = effectiveMcpCapabilities scopes ownerRole
              in case find (\<lambda>scope. \<not> mcpHasScope scopes scope) required of
                   Some scope \<Rightarrow> MissingScope scope
                 | None \<Rightarrow> if tool_capability name caps then Authorized else RbacDenied))"

section \<open>Lemmas\<close>

lemmas scope_defs = PUBLISHED_FEEDS_READ_def IOC_CREATE_def IOC_UPDATE_def IOC_READ_def IOC_EXPORT_def MCP_IOC_READ_def MCP_IOC_CREATE_def MCP_ENRICHMENT_READ_def MCP_ENRICHMENT_WRITE_def MCP_SOURCES_READ_def MCP_TAGS_WRITE_def MCP_THREAT_LIBRARY_IMPORT_def MCP_THREAT_LIBRARY_WRITE_def
lemmas role_defs = ADMIN_def ANALYST_def READONLY_def

text \<open>The tools with side effects, and the tools whose catalogue only analysts may read.\<close>

definition action_tools :: "string list" where
  "action_tools = ''import_iocs'' # MCP_ENRICHMENT_ACTION_TOOLS @ MCP_TAG_ACTION_TOOLS @
     MCP_THREAT_LIBRARY_IMPORT_ACTION_TOOLS @ MCP_THREAT_LIBRARY_WRITE_ACTION_TOOLS"

definition analyst_tools :: "string list" where
  "analyst_tools = action_tools @ [''list_tags'', ''list_malware_families'', ''list_iocs_by_malware_family'']"

lemmas tool_list_defs = action_tools_def analyst_tools_def MCP_ENRICHMENT_ACTION_TOOLS_def MCP_TAG_ACTION_TOOLS_def
  MCP_THREAT_LIBRARY_IMPORT_ACTION_TOOLS_def MCP_THREAT_LIBRARY_WRITE_ACTION_TOOLS_def

definition owner_allowed :: "string \<Rightarrow> string option \<Rightarrow> bool" where
  "owner_allowed name ownerRole \<longleftrightarrow>
     (if name \<in> set analyst_tools then canTriage ownerRole else normalizeAppRole ownerRole \<noteq> None)"

lemma canTriage_role: "canTriage r \<Longrightarrow> normalizeAppRole r \<noteq> None"
  by (auto simp: canTriage_def)

text \<open>For every row of the table: once its scopes are held, the capability check is the owner check.\<close>

lemma tool_rows:
  "list_all (\<lambda>(name, required).
      list_all (mcpHasScope scopes) required \<longrightarrow>
        tool_capability name (effectiveMcpCapabilities scopes r) = owner_allowed name r) MCP_TOOL_SCOPES"
  using canTriage_role [of r]
  by (auto simp: MCP_TOOL_SCOPES_def tool_capability_def owner_allowed_def tool_list_defs effectiveMcpCapabilities_def
      ownerCanMcpRead_def ownerCanMcpEnrich_def ownerCanMcpTag_def ownerCanMcpCreate_def ownerCanMcpImportReport_def
      ownerCanMcpThreatLibraryWrite_def canTriage_def)

lemma tool_names_distinct: "distinct (map fst MCP_TOOL_SCOPES)"
  by (simp add: MCP_TOOL_SCOPES_def)

lemma js_get_Found: "js_get m k = Found v \<longleftrightarrow> map_of m k = Some v"
  by (auto simp: js_get_def split: option.splits)

lemma authorized_iff:
  "authorizeMcpTool t scopes r = Authorized \<longleftrightarrow>
     (\<exists>required. (js_trim t, required) \<in> set MCP_TOOL_SCOPES \<and> list_all (hasApiScope scopes) required \<and>
        owner_allowed (js_trim t) r)"
proof -
  have "authorizeMcpTool t scopes r = Authorized \<longleftrightarrow>
      (\<exists>required. map_of MCP_TOOL_SCOPES (js_trim t) = Some required \<and> list_all (mcpHasScope scopes) required \<and>
         tool_capability (js_trim t) (effectiveMcpCapabilities scopes r))"
    by (auto simp: authorizeMcpTool_def Let_def js_get_Found list_all_iff find_None_iff
        split: js_lookup.splits option.splits if_splits)
      (auto simp: find_Some_iff js_get_def split: option.splits if_splits)
  also have "\<dots> \<longleftrightarrow> (\<exists>required. (js_trim t, required) \<in> set MCP_TOOL_SCOPES \<and> list_all (mcpHasScope scopes) required \<and>
      owner_allowed (js_trim t) r)"
    using tool_rows [of scopes r] map_of_eq_Some_iff [OF tool_names_distinct]
    by (fastforce simp: list_all_iff)
  finally show ?thesis by (simp add: mcpHasScope_def [abs_def])
qed

lemma hasApiScope_iff: "hasApiScope scopes s \<longleftrightarrow> js_trim s \<noteq> [] \<and> (\<exists>x \<in> set scopes. js_trim x = js_trim s)"
  by (auto simp: hasApiScope_def normalizeScopes_def Let_def image_iff) (metis)

lemma scopes_trimmed [simp]: "x \<in> set ALL_API_SCOPES \<Longrightarrow> js_trim x = x \<and> x \<noteq> []"
  by (auto simp: ALL_API_SCOPES_def scope_defs js_trim_def js_ws_def)

text \<open>Every row needs an MCP scope, and the action tools need one that the read profile does not have.\<close>

definition mcp_scopes :: "string list" where
  "mcp_scopes = [MCP_IOC_READ, MCP_IOC_CREATE, MCP_ENRICHMENT_READ, MCP_ENRICHMENT_WRITE, MCP_SOURCES_READ, MCP_TAGS_WRITE,
     MCP_THREAT_LIBRARY_IMPORT, MCP_THREAT_LIBRARY_WRITE]"

definition write_scopes :: "string list" where
  "write_scopes = [MCP_IOC_CREATE, MCP_ENRICHMENT_WRITE, MCP_TAGS_WRITE, MCP_THREAT_LIBRARY_IMPORT, MCP_THREAT_LIBRARY_WRITE]"

lemma tool_rows_scopes:
  "list_all (\<lambda>(name, required).
      set required \<subseteq> set ALL_API_SCOPES \<and> list_ex (\<lambda>s. s \<in> set mcp_scopes) required \<and>
      (name \<in> set action_tools \<longrightarrow> list_ex (\<lambda>s. s \<in> set write_scopes) required)) MCP_TOOL_SCOPES"
  by (simp add: MCP_TOOL_SCOPES_def ALL_API_SCOPES_def mcp_scopes_def write_scopes_def tool_list_defs)

lemma profile_scopes:
  assumes "scopesForAccessProfile pid = Inr scopes"
  shows "set scopes \<subseteq> set ALL_API_SCOPES"
    and "\<not> isMcpAccessProfile pid \<Longrightarrow> set scopes \<inter> set mcp_scopes = {}"
    and "js_lower (js_trim pid) \<noteq> ''mcp_analyst'' \<Longrightarrow> set scopes \<inter> set write_scopes = {}"
proof -
  have rows: "list_all (\<lambda>(k, p). set (prof_scopes p) \<subseteq> set ALL_API_SCOPES \<and>
      (k = ''mcp_read'' \<or> k = ''mcp_analyst'' \<or> set (prof_scopes p) \<inter> set mcp_scopes = {}) \<and>
      (k = ''mcp_analyst'' \<or> set (prof_scopes p) \<inter> set write_scopes = {})) PROFILE_DEFS"
    by (simp add: PROFILE_DEFS_def ALL_API_SCOPES_def mcp_scopes_def write_scopes_def scope_defs)
  have "scopes = [] \<or> (\<exists>p. (js_lower (js_trim pid), p) \<in> set PROFILE_DEFS \<and> scopes = prof_scopes p)"
    using assms by (auto simp: scopesForAccessProfile_def getAccessProfile_def js_get_Found
        split: js_lookup.splits dest: map_of_SomeD)
  then show "set scopes \<subseteq> set ALL_API_SCOPES"
    and "\<not> isMcpAccessProfile pid \<Longrightarrow> set scopes \<inter> set mcp_scopes = {}"
    and "js_lower (js_trim pid) \<noteq> ''mcp_analyst'' \<Longrightarrow> set scopes \<inter> set write_scopes = {}"
    using rows by (auto simp: list_all_iff isMcpAccessProfile_def Let_def)
qed

lemma held_scope:
  assumes "set scopes \<subseteq> set ALL_API_SCOPES" "set required \<subseteq> set ALL_API_SCOPES"
    "list_all (hasApiScope scopes) required" "list_ex (\<lambda>s. s \<in> S) required"
  shows "set scopes \<inter> S \<noteq> {}"
proof -
  obtain s where s: "s \<in> set required" "s \<in> S" using assms(4) by (auto simp: list_ex_iff)
  then have "hasApiScope scopes s" "s \<in> set ALL_API_SCOPES" using assms(2,3) by (auto simp: list_all_iff)
  then obtain x where "x \<in> set scopes" "js_trim x = js_trim s" by (auto simp: hasApiScope_iff)
  then have "x = s" using assms(1) scopes_trimmed \<open>s \<in> set ALL_API_SCOPES\<close> by (metis subsetD)
  with s \<open>x \<in> set scopes\<close> show ?thesis by blast
qed

section \<open>Properties\<close>

text \<open>An MCP tool call is authorized exactly when the tool is in the table, the credential holds every scope
  the table asks for, and the owner's role allows it: an analyst or admin for the tools with side effects and the
  analyst catalogues, any valid role for the others. Token scopes and owner role are intersected; neither
  can make up for the other.\<close>

theorem authorizeMcpTool_exact:
  "authorizeMcpTool t scopes r = Authorized \<longleftrightarrow>
     (\<exists>required. (js_trim t, required) \<in> set MCP_TOOL_SCOPES \<and> list_all (hasApiScope scopes) required \<and>
        (if js_trim t \<in> set analyst_tools then canTriage r else normalizeAppRole r \<noteq> None))"
  using authorized_iff [of t scopes r] by (simp add: owner_allowed_def)

text \<open>API key profiles are separated. A key with the stored scopes of a profile that is not an MCP profile
  authorizes no MCP tool at all, and only the MCP Analyst profile can authorize a tool with side effects, whatever
  the role of the owner.\<close>

theorem access_profiles_separated:
  assumes "scopesForAccessProfile pid = Inr scopes" and "authorizeMcpTool t scopes r = Authorized"
  shows "isMcpAccessProfile pid \<and> (js_lower (js_trim pid) = ''mcp_analyst'' \<or> js_trim t \<notin> set action_tools)"
proof -
  obtain required where req: "(js_trim t, required) \<in> set MCP_TOOL_SCOPES" "list_all (hasApiScope scopes) required"
    using assms(2) by (auto simp: authorized_iff)
  with tool_rows_scopes have rows: "set required \<subseteq> set ALL_API_SCOPES" "list_ex (\<lambda>s. s \<in> set mcp_scopes) required"
      "js_trim t \<in> set action_tools \<Longrightarrow> list_ex (\<lambda>s. s \<in> set write_scopes) required"
    by (auto simp: list_all_iff)
  note sc = profile_scopes [OF assms(1)]
  show ?thesis
    using held_scope [OF sc(1) rows(1) req(2) rows(2)] held_scope [OF sc(1) rows(1) req(2) rows(3)] sc(2,3) by blast
qed

theorem access_profiles_separated_witness:
  "isMcpAccessProfile ''mcp_read'' \<and> js_trim ''lookup_ioc'' \<notin> set action_tools"
proof -
  have s: "scopesForAccessProfile ''mcp_read'' = Inr [MCP_IOC_READ, MCP_SOURCES_READ, MCP_ENRICHMENT_READ]" by code_simp
  have t: "authorizeMcpTool ''lookup_ioc'' [MCP_IOC_READ, MCP_SOURCES_READ, MCP_ENRICHMENT_READ] (Some ''Analyst'') = Authorized"
    by code_simp
  have "js_lower (js_trim ''mcp_read'') \<noteq> ''mcp_analyst''" by code_simp
  then show ?thesis using access_profiles_separated [OF s t] by blast
qed

text \<open>What the HTTP policy lets a signed-in user change. A request under \<open>/api\<close> with a method other than GET, HEAD
  or OPTIONS that passes the policy comes from an admin or analyst, or from a read-only user on one of the three self-service
  paths (own user record, own preferences, own watchlist); a user whose role claim is missing or unknown never passes.\<close>

theorem rbacHttpPolicy_write_safe:
  assumes "rbacHttpPolicy req = Next" and "take 4 (path req) = ''/api''" and "authVia req \<noteq> Some ''ingest''"
    and "user req = Some r" and "http_method req \<notin> {''GET'', ''HEAD'', ''OPTIONS''}"
  shows "canTriage r \<or>
    (isReadOnlyRole r \<and>
      (http_method req = ''PUT'' \<and> (user_path_re (path req) \<or> path req = ''/api/users/me/preferences'') \<or>
       http_method req \<in> {''PUT'', ''DELETE''} \<and> watchlist_path_re (path req)))"
proof -
  obtain role where role: "normalizeAppRole r = Some role"
    using assms by (auto simp: rbacHttpPolicy_def split: option.splits)
  then have "role \<in> {ADMIN, ANALYST, READONLY}"
    by (auto simp: normalizeAppRole_def ALL_APP_ROLES_def Let_def split: if_splits)
  then show ?thesis using assms role
    by (auto simp: rbacHttpPolicy_def Let_def canTriage_def isReadOnlyRole_def split: if_splits)
qed

theorem rbacHttpPolicy_write_safe_witness:
  "canTriage (Some ''readonly'') \<or>
    (isReadOnlyRole (Some ''readonly'') \<and>
      (''PUT'' = ''PUT'' \<and> (user_path_re ''/api/users/me/preferences'' \<or> ''/api/users/me/preferences'' = ''/api/users/me/preferences'') \<or>
       ''PUT'' \<in> {''PUT'', ''DELETE''} \<and> watchlist_path_re ''/api/users/me/preferences''))"
  using rbacHttpPolicy_write_safe [of "\<lparr>path = ''/api/users/me/preferences'', http_method = ''PUT'', authVia = None,
    user = Some (Some ''readonly'')\<rparr>" "Some ''readonly''"]
  by (simp add: rbacHttpPolicy_def normalizeAppRole_def ALL_APP_ROLES_def role_defs js_trim_def js_ws_def js_lower_char_def
      is_capital_def is_upper_def)

text \<open>A tool or profile name that is a property of \<open>Object.prototype\<close> is not reported as unknown: the lookup succeeds on the
  prototype and iterating over the result throws.\<close>

theorem prototype_tool_name_throws:
  "authorizeMcpTool ''constructor'' scopes r = Threw TypeError \<and> scopesForAccessProfile ''constructor'' = Inl TypeError"
proof (rule conjI)
  have t: "js_trim ''constructor'' = ''constructor''" "js_lower ''constructor'' = ''constructor''" by code_simp+
  show "authorizeMcpTool ''constructor'' scopes r = Threw TypeError"
    by (simp add: authorizeMcpTool_def t js_get_def MCP_TOOL_SCOPES_def OBJECT_PROTOTYPE_KEYS_def del: js_lower_Cons)
  show "scopesForAccessProfile ''constructor'' = Inl TypeError" by code_simp
qed

end
