(* ===== verification/RateLimit.thy ===== *)
theory RateLimit
  imports TH_Prelude
begin

text \<open>
  The in-memory rate limiter (\<open>backend/lib/slidingWindowRateLimit.js\<close>). The \<open>Map\<close> of buckets is an association
  list in insertion order, the clock an argument of each operation; the periodic timer is the operation \<open>prune\<close> run
  between requests. The limiter is a transition system over requests and sweeps; every reachable store has
  distinct keys and at most \<open>maxBuckets\<close> buckets. The per-window
  theorem bounds how many requests of one client pass, as long as no bucket is evicted.
\<close>

section \<open>The limiter\<close>

record limiter_conf =
  windowMs :: int
  maxBuckets :: nat
  sweepIntervalMs :: int

text \<open>\<open>Math.max(Number(v) || default, least)\<close>; a missing, zero or non-numeric option takes the default.\<close>

definition option_or :: "int option \<Rightarrow> int \<Rightarrow> int \<Rightarrow> int" where
  "option_or v dflt least = max (case v of None \<Rightarrow> dflt | Some n \<Rightarrow> if n = 0 then dflt else n) least"

definition make_conf :: "int option \<Rightarrow> int option \<Rightarrow> int option \<Rightarrow> limiter_conf" where
  "make_conf w m s =
     \<lparr>windowMs = option_or w 60000 1, maxBuckets = nat (option_or m 10000 1), sweepIntervalMs = option_or s 60000 1000\<rparr>"

record bucket =
  b_start :: int
  b_count :: nat

type_synonym buckets = "(string \<times> bucket) list"

definition pruneExpired :: "limiter_conf \<Rightarrow> int \<Rightarrow> buckets \<Rightarrow> buckets" where
  "pruneExpired cf now bs = filter (\<lambda>(k, b). \<not> now - b_start b \<ge> windowMs cf) bs"

text \<open>The \<open>while\<close> loop that deletes the oldest key until the size fits.\<close>

fun enforceMaxSize :: "limiter_conf \<Rightarrow> buckets \<Rightarrow> buckets" where
  "enforceMaxSize cf [] = []"
| "enforceMaxSize cf (b # bs) = (if length (b # bs) > maxBuckets cf then enforceMaxSize cf bs else b # bs)"

definition prune :: "limiter_conf \<Rightarrow> int \<Rightarrow> buckets \<Rightarrow> nat \<times> buckets" where
  "prune cf now bs = (let bs' = enforceMaxSize cf (pruneExpired cf now bs) in (length bs', bs'))"

definition delete_key :: "string \<Rightarrow> buckets \<Rightarrow> buckets" where
  "delete_key k bs = filter (\<lambda>(k', b). k' \<noteq> k) bs"

text \<open>\<open>bucket.count += 1\<close> on the bucket object in the map.\<close>

definition bump :: "string \<Rightarrow> buckets \<Rightarrow> buckets" where
  "bump k bs = map (\<lambda>(k', b). if k' = k then (k', b\<lparr>b_count := b_count b + 1\<rparr>) else (k', b)) bs"

definition live_bucket :: "limiter_conf \<Rightarrow> int \<Rightarrow> string \<Rightarrow> buckets \<Rightarrow> bucket option" where
  "live_bucket cf now k bs =
     (case map_of bs k of None \<Rightarrow> None | Some b \<Rightarrow> if now - b_start b \<ge> windowMs cf then None else Some b)"

definition check :: "limiter_conf \<Rightarrow> int \<Rightarrow> string \<Rightarrow> nat \<Rightarrow> buckets \<Rightarrow> bool \<times> buckets" where
  "check cf now key limitPerWindow bs =
     (case live_bucket cf now key bs of
        Some b \<Rightarrow> (b_count b + 1 \<le> limitPerWindow, bump key bs)
      | None \<Rightarrow>
          (let fresh = \<lparr>b_start = now, b_count = 0\<rparr>;
               bs1 = delete_key key bs @ [(key, fresh)];
               bs2 = enforceMaxSize cf (pruneExpired cf now bs1)
           in (b_count fresh + 1 \<le> limitPerWindow, bump key bs2)))"

section \<open>The limiter as a transition system\<close>

inductive limiter_step :: "limiter_conf \<Rightarrow> buckets \<Rightarrow> buckets \<Rightarrow> bool" for cf where
  request: "limiter_step cf bs (snd (check cf now k n bs))"
| sweep: "limiter_step cf bs (snd (prune cf now bs))"

inductive_cases limiter_stepE: "limiter_step cf bs bs'"

definition limiter_inv :: "limiter_conf \<Rightarrow> buckets \<Rightarrow> bool" where
  "limiter_inv cf bs \<longleftrightarrow> distinct (map fst bs) \<and> length bs \<le> maxBuckets cf"

lemma enforceMaxSize_drop: "enforceMaxSize cf bs = drop (length bs - maxBuckets cf) bs"
  by (induction bs) (auto simp: Suc_diff_le)

lemma map_fst_filter: "distinct (map fst bs) \<Longrightarrow> distinct (map fst (filter P bs))"
  by (induction bs) auto

lemma enforce_inv: "distinct (map fst bs) \<Longrightarrow> limiter_inv cf (enforceMaxSize cf bs)"
  by (simp add: limiter_inv_def enforceMaxSize_drop drop_map [symmetric])

lemma bump_keys [simp]: "map fst (bump k bs) = map fst bs" "length (bump k bs) = length bs"
  by (induction bs) (auto simp: bump_def)

lemma bump_inv [simp]: "limiter_inv cf (bump k bs) = limiter_inv cf bs"
  by (simp add: limiter_inv_def)

lemma prune_inv [invariant_intros]: "distinct (map fst bs) \<Longrightarrow> limiter_inv cf (snd (prune cf now bs))"
  by (simp add: prune_def Let_def enforce_inv pruneExpired_def map_fst_filter)

lemma delete_distinct: "distinct (map fst bs) \<Longrightarrow> distinct (map fst (delete_key k bs @ [(k, b)]))"
  by (auto simp: delete_key_def map_fst_filter)

lemma check_inv [invariant_intros]:
  assumes "limiter_inv cf bs"
  shows "limiter_inv cf (snd (check cf now k n bs))"
proof (cases "live_bucket cf now k bs")
  case None
  have "distinct (map fst bs)" using assms by (simp add: limiter_inv_def)
  then have "distinct (map fst (pruneExpired cf now (delete_key k bs @ [(k, \<lparr>b_start = now, b_count = 0\<rparr>)])))"
    unfolding pruneExpired_def by (intro map_fst_filter delete_distinct)
  then show ?thesis using None enforce_inv by (simp add: check_def Let_def)
next
  case (Some b)
  then show ?thesis using assms by (simp add: check_def)
qed

interpretation limiter: invariant_system "\<lambda>bs. bs = []" "limiter_step cf" "limiter_inv cf" for cf
  by unfold_locales (auto simp: limiter_inv_def [of _ "[]"] elim!: limiter_stepE
      intro!: invariant_intros simp: limiter_inv_def [THEN iffD1, THEN conjunct1])

section \<open>Counting within a window\<close>

lemma map_of_bump:
  "map_of (bump k bs) j = (if j = k then map_option (\<lambda>b. b\<lparr>b_count := b_count b + 1\<rparr>) (map_of bs j) else map_of bs j)"
  by (induction bs) (auto simp: bump_def)

lemma map_of_filter_keep:
  "distinct (map fst bs) \<Longrightarrow> map_of bs k = Some b \<Longrightarrow> P (k, b) \<Longrightarrow> map_of (filter P bs) k = Some b"
  by (induction bs) (auto simp: rev_image_eqI dest: map_of_SomeD)

lemma enforce_id: "length bs \<le> maxBuckets cf \<Longrightarrow> enforceMaxSize cf bs = bs"
  by (simp add: enforceMaxSize_drop)

text \<open>The keys of a store after a request: the requested one and some of the old ones.\<close>

lemma check_keys: "fst ` set (snd (check cf now k n bs)) \<subseteq> insert k (fst ` set bs)"
proof -
  have "fst ` set (bump k cs) = fst ` set cs" for cs by (metis bump_keys(1) list.set_map)
  then show ?thesis
    by (cases "live_bucket cf now k bs")
      (auto simp: check_def Let_def enforceMaxSize_drop pruneExpired_def delete_key_def dest!: in_set_dropD)
qed

text \<open>A live bucket survives a request, and only a request of its own key changes it, when the store has room.\<close>

lemma check_keeps:
  assumes inv: "distinct (map fst bs)" and room: "card (insert j (fst ` set bs)) \<le> maxBuckets cf"
    and b: "map_of bs k = Some b" and live: "now - b_start b < windowMs cf"
  shows "map_of (snd (check cf now j n bs)) k = Some (if j = k then b\<lparr>b_count := b_count b + 1\<rparr> else b) \<and>
    (j = k \<longrightarrow> fst (check cf now j n bs) = (b_count b + 1 \<le> n))"
proof (cases "live_bucket cf now j bs")
  case (Some c)
  then show ?thesis using b live by (auto simp: check_def map_of_bump live_bucket_def split: option.splits if_splits)
next
  case None
  then have jk: "j \<noteq> k" using b live by (auto simp: live_bucket_def)
  let ?bs1 = "delete_key j bs @ [(j, \<lparr>b_start = now, b_count = 0\<rparr>)]"
  let ?bs2 = "pruneExpired cf now ?bs1"
  have d1: "distinct (map fst ?bs1)" using inv by (rule delete_distinct)
  have "fst ` set ?bs1 \<subseteq> insert j (fst ` set bs)" by (auto simp: delete_key_def)
  then have "card (fst ` set ?bs1) \<le> card (insert j (fst ` set bs))" by (intro card_mono) auto
  then have "card (fst ` set ?bs1) \<le> maxBuckets cf" using room by linarith
  moreover have "length ?bs1 = card (fst ` set ?bs1)" using d1 by (metis distinct_card length_map list.set_map)
  moreover have "length ?bs2 \<le> length ?bs1" by (simp only: pruneExpired_def length_filter_le)
  ultimately have fits: "enforceMaxSize cf ?bs2 = ?bs2" by (intro enforce_id) linarith
  have "map_of (delete_key j bs) k = Some b"
    unfolding delete_key_def using inv b jk by (intro map_of_filter_keep) auto
  then have "map_of ?bs1 k = Some b" using jk by simp
  with d1 have "map_of ?bs2 k = Some b" unfolding pruneExpired_def using live by (intro map_of_filter_keep) auto
  then show ?thesis using None jk fits by (simp add: check_def Let_def map_of_bump)
qed

text \<open>A run of requests (time, key) under one limit, and how many of key \<open>k\<close> pass.\<close>

fun run :: "limiter_conf \<Rightarrow> nat \<Rightarrow> (int \<times> string) list \<Rightarrow> buckets \<Rightarrow> (string \<times> bool) list" where
  "run cf n [] bs = []"
| "run cf n ((now, k) # rs) bs = (let (ok, bs') = check cf now k n bs in (k, ok) # run cf n rs bs')"

definition accepted :: "string \<Rightarrow> (string \<times> bool) list \<Rightarrow> nat" where
  "accepted k rs = length (filter (\<lambda>(j, ok). j = k \<and> ok) rs)"

lemma window_bound:
  assumes "limiter_inv cf bs" "map_of bs k = Some b"
    "\<And>now j. (now, j) \<in> set rs \<Longrightarrow> now - b_start b < windowMs cf"
    "card (fst ` set bs \<union> snd ` set rs) \<le> maxBuckets cf"
  shows "accepted k (run cf n rs bs) + b_count b \<le> max n (b_count b)"
  using assms
proof (induction rs arbitrary: bs b)
  case Nil
  then show ?case by (simp add: accepted_def)
next
  case (Cons r rs)
  obtain now j where r: "r = (now, j)" by (cases r)
  obtain ok bs' where c: "check cf now j n bs = (ok, bs')" by (cases "check cf now j n bs")
  have d: "distinct (map fst bs)" using Cons.prems(1) by (simp add: limiter_inv_def)
  have "insert j (fst ` set bs) \<subseteq> fst ` set bs \<union> snd ` set (r # rs)" using r by auto
  then have "card (insert j (fst ` set bs)) \<le> maxBuckets cf" using Cons.prems(4) card_mono
    by (metis (no_types, lifting) List.finite_set finite_Un finite_imageI order_trans)
  from check_keeps [OF d this Cons.prems(2), of now n] Cons.prems(3) [of now j] c
  have k: "map_of bs' k = Some (if j = k then b\<lparr>b_count := b_count b + 1\<rparr> else b)" "j = k \<longrightarrow> ok = (b_count b + 1 \<le> n)"
    by (auto simp: r)
  have inv': "limiter_inv cf bs'" using check_inv [OF Cons.prems(1), of now j n] by (simp add: c)
  have "fst ` set bs' \<union> snd ` set rs \<subseteq> fst ` set bs \<union> snd ` set (r # rs)"
    using check_keys [of cf now j n bs] by (auto simp: c r)
  then have card': "card (fst ` set bs' \<union> snd ` set rs) \<le> maxBuckets cf" using Cons.prems(4) card_mono
    by (metis (no_types, lifting) List.finite_set finite_Un finite_imageI order_trans)
  have "accepted k (run cf n rs bs') + b_count (if j = k then b\<lparr>b_count := b_count b + 1\<rparr> else b) \<le>
      max n (b_count (if j = k then b\<lparr>b_count := b_count b + 1\<rparr> else b))"
    using Cons.prems(3) r by (intro Cons.IH [OF inv' k(1) _ card']) (auto split: if_splits)
  moreover have "run cf n (r # rs) bs = (j, ok) # run cf n rs bs'" by (simp add: r c)
  ultimately show ?case using k(2) by (cases "j = k"; cases ok) (auto simp: accepted_def split: if_splits)
qed

section \<open>Properties\<close>

text \<open>The limiter's memory is bounded. In every state reachable from the empty store by requests and sweeps, with
  any clock values, keys and limits, there is at most one bucket per key and at most \<open>maxBuckets\<close> buckets.\<close>

theorem limiter_memory_bounded:
  assumes "reachable (\<lambda>bs. bs = []) (limiter_step cf) bs"
  shows "distinct (map fst bs) \<and> length bs \<le> maxBuckets cf"
  using limiter.reachable_inv [OF assms] by (simp add: limiter_inv_def)

theorem limiter_memory_bounded_witness:
  "distinct (map fst (snd (check (make_conf None None None) 0 ''k'' 1 []))) \<and>
   length (snd (check (make_conf None None None) 0 ''k'' 1 [])) \<le> maxBuckets (make_conf None None None)"
  by (rule limiter_memory_bounded) (auto intro: reachable.intros limiter_step.intros)

text \<open>The limit holds per window. From a state in which a client's window is open with \<open>count\<close> requests already
  made, at most \<open>limit - count\<close> further requests of that client pass while the window is open, whatever other
  clients do in between, provided all the keys involved fit in the store (so that no bucket is evicted).\<close>

theorem at_most_limit_per_window:
  assumes "limiter_inv cf bs" and "map_of bs k = Some b" and "b_count b \<le> limit"
    and "\<forall>(now, j) \<in> set rs. now - b_start b < windowMs cf"
    and "card (fst ` set bs \<union> snd ` set rs) \<le> maxBuckets cf"
  shows "accepted k (run cf limit rs bs) \<le> limit - b_count b"
  using window_bound [OF assms(1,2) _ assms(5), of limit] assms(3,4) by fastforce

theorem at_most_limit_per_window_witness:
  "accepted ''k'' (run (make_conf (Some 1000) (Some 5) None) 2 [(10, ''k''), (20, ''x''), (999, ''k'')]
     [(''k'', \<lparr>b_start = 0, b_count = 1\<rparr>)]) \<le> 2 - b_count \<lparr>b_start = 0, b_count = 1\<rparr>"
  by (rule at_most_limit_per_window) (simp_all add: limiter_inv_def make_conf_def option_or_def insert_commute)

text \<open>The window is fixed, not sliding: it starts with the first request after the previous one ended, so twice the limit can
  pass in two milliseconds around the boundary.\<close>

theorem burst_at_window_boundary:
  "run (make_conf (Some 1000) None None) 2 [(0, ''k''), (999, ''k''), (1000, ''k''), (1001, ''k'')] [] =
     [(''k'', True), (''k'', True), (''k'', True), (''k'', True)]"
  by code_simp

end
