(* ===== verification/AiScheduler.thy ===== *)
theory AiScheduler
  imports TH_Prelude
begin

text \<open>
  The shared AI inference-capacity scheduler (\<open>backend/lib/threatLibrary/ai/inferenceScheduler.js\<close>): the lease
  table and the transactions on it. The table \<open>threat_library_ai_capacity_leases\<close> is a list of rows with the next
  value of its id sequence; every function below is one transaction or statement, and its argument \<open>now\<close> is the
  database's \<open>NOW()\<close> (the start of the transaction) in milliseconds. Tokens (random UUIDs) are natural numbers and
  unique in the table; inserting a token that is there fails, which rolls the transaction back. Logging, timers and the local
  wake-up events are not modelled; \<open>AiSchedulerSystem\<close> adds the processes. Shown here: claims keep the table's
  invariant and its capacity, are first come first served, and never free a fail-closed slot.
\<close>

section \<open>The lease table\<close>

datatype lease_state = Waiting | Holding

record lease =
  l_id :: nat
  resource_key :: string
  l_token :: nat
  l_state :: lease_state
  l_purpose :: "string option"
  l_owner :: string
  report_id :: "int option"
  lease_expires_at :: int
  created_at :: int
  acquired_at :: "int option"
  quarantined_at :: "int option"
  verify_after :: "int option"
  fail_closed :: bool
  max_execution_ms :: "int option"

record lease_table =
  leases :: "lease list"
  next_id :: nat

record scheduler_cfg =
  pollMs :: int
  waitLeaseMs :: int
  holdLeaseMs :: int
  heartbeatMs :: int
  verifyIntervalMs :: int
  waitingNotifyMs :: int

definition SCHEDULER_DEFAULTS :: scheduler_cfg where
  "SCHEDULER_DEFAULTS =
     \<lparr>pollMs = 500, waitLeaseMs = 15000, holdLeaseMs = 60000, heartbeatMs = 15000, verifyIntervalMs = 10000,
      waitingNotifyMs = 5000\<rparr>"

text \<open>What a request says about itself.\<close>

record request_meta =
  rm_purpose :: "string option"
  rm_owner :: string
  rm_reportId :: "int option"
  rm_failClosed :: bool
  rm_maxExecutionMs :: "int option"

text \<open>\<open>purpose || null\<close>: an empty text is stored as null.\<close>

definition text_or_null :: "string option \<Rightarrow> string option" where
  "text_or_null t = (if t = Some [] then None else t)"

definition waiter_row :: "scheduler_cfg \<Rightarrow> int \<Rightarrow> nat \<Rightarrow> string \<Rightarrow> request_meta \<Rightarrow> nat \<Rightarrow> lease" where
  "waiter_row cfg now tok key meta i =
     \<lparr>l_id = i, resource_key = key, l_token = tok, l_state = Waiting, l_purpose = text_or_null (rm_purpose meta), l_owner = rm_owner meta,
      report_id = rm_reportId meta, lease_expires_at = now + waitLeaseMs cfg, created_at = now, acquired_at = None,
      quarantined_at = None, verify_after = None, fail_closed = rm_failClosed meta, max_execution_ms = rm_maxExecutionMs meta\<rparr>"

datatype db_error = UniqueViolation

definition insert_row :: "(nat \<Rightarrow> lease) \<Rightarrow> lease_table \<Rightarrow> (db_error, nat \<times> lease_table) result" where
  "insert_row mk db =
     (let r = mk (next_id db)
      in if list_ex (\<lambda>x. l_token x = l_token r) (leases db) then Inl UniqueViolation
         else Inr (next_id db, db\<lparr>leases := leases db @ [r], next_id := next_id db + 1\<rparr>))"

definition insertWaiter ::
    "scheduler_cfg \<Rightarrow> int \<Rightarrow> nat \<Rightarrow> string \<Rightarrow> request_meta \<Rightarrow> lease_table \<Rightarrow> (db_error, nat \<times> lease_table) result" where
  "insertWaiter cfg now tok key meta db = insert_row (waiter_row cfg now tok key meta) db"

section \<open>Claiming\<close>

definition expired_waiter :: "string \<Rightarrow> int \<Rightarrow> lease \<Rightarrow> bool" where
  "expired_waiter key now r \<longleftrightarrow> resource_key r = key \<and> l_state r = Waiting \<and> lease_expires_at r < now"

definition expired_holder :: "string \<Rightarrow> int \<Rightarrow> lease \<Rightarrow> bool" where
  "expired_holder key now r \<longleftrightarrow>
     resource_key r = key \<and> l_state r = Holding \<and> quarantined_at r = None \<and> lease_expires_at r < now"

definition quarantine_expired :: "string \<Rightarrow> int \<Rightarrow> lease \<Rightarrow> lease" where
  "quarantine_expired key now r =
     (if expired_holder key now r \<and> fail_closed r
      then r\<lparr>quarantined_at := Some now, verify_after := Some now, l_purpose := Some ''quarantine:lease_expired'',
             lease_expires_at := max now
               ((case acquired_at r of Some a \<Rightarrow> a | None \<Rightarrow> created_at r) +
                (case max_execution_ms r of Some m \<Rightarrow> m | None \<Rightarrow> 0))\<rparr>
      else r)"

text \<open>The three housekeeping statements at the start of a claim.\<close>

definition housekeeping :: "string \<Rightarrow> int \<Rightarrow> lease list \<Rightarrow> lease list" where
  "housekeeping key now rows =
     (let rows1 = filter (\<lambda>r. \<not> expired_waiter key now r) rows;
          rows2 = map (quarantine_expired key now) rows1
      in filter (\<lambda>r. \<not> (expired_holder key now r \<and> \<not> fail_closed r)) rows2)"

definition is_waiting :: "nat \<Rightarrow> lease \<Rightarrow> bool" where
  "is_waiting tok r \<longleftrightarrow> l_token r = tok \<and> l_state r = Waiting"

definition keepAlive :: "scheduler_cfg \<Rightarrow> int \<Rightarrow> nat \<Rightarrow> lease list \<Rightarrow> lease list" where
  "keepAlive cfg now tok rows =
     map (\<lambda>r. if is_waiting tok r then r\<lparr>lease_expires_at := now + waitLeaseMs cfg\<rparr> else r) rows"

text \<open>Refresh the waiting row of the token, or rejoin at the tail: the row's id and whether it was requeued.\<close>

definition refresh_waiter ::
    "scheduler_cfg \<Rightarrow> int \<Rightarrow> nat \<Rightarrow> string \<Rightarrow> request_meta \<Rightarrow> lease_table \<Rightarrow> (db_error, nat \<times> bool \<times> lease_table) result" where
  "refresh_waiter cfg now tok key meta db =
     (case find (is_waiting tok) (leases db) of
        Some r \<Rightarrow> Inr (l_id r, False, db\<lparr>leases := keepAlive cfg now tok (leases db)\<rparr>)
      | None \<Rightarrow>
          (case insert_row (waiter_row cfg now tok key meta) db of
             Inl e \<Rightarrow> Inl e
           | Inr (i, db') \<Rightarrow> Inr (i, True, db')))"

record claim_view =
  v_acquired :: bool
  v_holding :: nat
  v_quarantined :: nat
  v_unverified :: nat
  v_ahead :: nat
  v_waiting :: nat
  v_requeued :: bool

definition holding_on :: "string \<Rightarrow> lease \<Rightarrow> bool" where
  "holding_on key r \<longleftrightarrow> resource_key r = key \<and> l_state r = Holding"

definition quarantined_on :: "string \<Rightarrow> lease \<Rightarrow> bool" where
  "quarantined_on key r \<longleftrightarrow> holding_on key r \<and> quarantined_at r \<noteq> None"

definition waiting_on :: "string \<Rightarrow> lease \<Rightarrow> bool" where
  "waiting_on key r \<longleftrightarrow> resource_key r = key \<and> l_state r = Waiting"

definition count :: "(lease \<Rightarrow> bool) \<Rightarrow> lease list \<Rightarrow> nat" where
  "count P rows = length (filter P rows)"

definition grant :: "scheduler_cfg \<Rightarrow> int \<Rightarrow> nat \<Rightarrow> lease \<Rightarrow> lease" where
  "grant cfg now tok r =
     (if l_token r = tok
      then r\<lparr>l_state := Holding, acquired_at := Some now, lease_expires_at := now + holdLeaseMs cfg\<rparr> else r)"

definition tryClaim ::
    "scheduler_cfg \<Rightarrow> int \<Rightarrow> nat \<Rightarrow> string \<Rightarrow> nat \<Rightarrow> request_meta \<Rightarrow> lease_table \<Rightarrow>
     (db_error, claim_view \<times> lease_table) result" where
  "tryClaim cfg now tok key capacity meta db =
     (case refresh_waiter cfg now tok key meta (db\<lparr>leases := housekeeping key now (leases db)\<rparr>) of
        Inl e \<Rightarrow> Inl e
      | Inr (myId, requeued, db1) \<Rightarrow>
          (let rows = leases db1;
               holding = count (holding_on key) rows;
               quarantined = count (quarantined_on key) rows;
               unverified = count (\<lambda>r. quarantined_on key r \<and> lease_expires_at r < now) rows;
               ahead = count (\<lambda>r. waiting_on key r \<and> l_id r < myId) rows;
               waiting = count (waiting_on key) rows
           in if holding + ahead < capacity
              then Inr (\<lparr>v_acquired = True, v_holding = holding + 1, v_quarantined = quarantined, v_unverified = unverified,
                         v_ahead = 0, v_waiting = waiting - 1, v_requeued = requeued\<rparr>,
                        db1\<lparr>leases := map (grant cfg now tok) rows\<rparr>)
              else Inr (\<lparr>v_acquired = False, v_holding = holding, v_quarantined = quarantined, v_unverified = unverified,
                         v_ahead = ahead, v_waiting = waiting, v_requeued = requeued\<rparr>, db1)))"

section \<open>Holding, quarantine and release\<close>

definition deleteLease :: "nat \<Rightarrow> lease_table \<Rightarrow> lease_table" where
  "deleteLease tok db = db\<lparr>leases := filter (\<lambda>r. l_token r \<noteq> tok) (leases db)\<rparr>"

definition renewable :: "nat \<Rightarrow> lease \<Rightarrow> bool" where
  "renewable tok r \<longleftrightarrow> l_token r = tok \<and> l_state r = Holding \<and> quarantined_at r = None"

text \<open>The heartbeat statement; the result is whether it changed a row.\<close>

definition renew :: "scheduler_cfg \<Rightarrow> int \<Rightarrow> nat \<Rightarrow> lease_table \<Rightarrow> bool \<times> lease_table" where
  "renew cfg now tok db =
     (list_ex (renewable tok) (leases db),
      db\<lparr>leases := map (\<lambda>r. if renewable tok r then r\<lparr>lease_expires_at := now + holdLeaseMs cfg\<rparr> else r) (leases db)\<rparr>)"

definition quarantine :: "int \<Rightarrow> int \<Rightarrow> nat \<Rightarrow> string \<Rightarrow> string \<Rightarrow> int option \<Rightarrow> lease_table \<Rightarrow> lease_table" where
  "quarantine now holdMs0 tok key owner rep db =
     (let holdMs = max 1 holdMs0
      in if list_ex (\<lambda>r. l_token r = tok) (leases db)
         then db\<lparr>leases := map (\<lambda>r. if l_token r = tok
                then r\<lparr>quarantined_at := Some now, verify_after := Some now, l_purpose := Some ''quarantine'',
                       lease_expires_at := now + holdMs\<rparr> else r) (leases db)\<rparr>
         else (case insert_row (\<lambda>i. \<lparr>l_id = i, resource_key = key, l_token = tok, l_state = Holding,
                      l_purpose = Some ''quarantine'', l_owner = owner, report_id = rep, lease_expires_at = now + holdMs,
                      created_at = now, acquired_at = Some now, quarantined_at = Some now, verify_after = Some now,
                      fail_closed = True, max_execution_ms = None\<rparr>) db of
                 Inl e \<Rightarrow> db | Inr (i, db') \<Rightarrow> db'))"

definition due_for_probe :: "string \<Rightarrow> int \<Rightarrow> lease \<Rightarrow> bool" where
  "due_for_probe key now r \<longleftrightarrow>
     quarantined_on key r \<and> (case verify_after r of Some t \<Rightarrow> t \<le> now | None \<Rightarrow> False)"

text \<open>\<open>verifyQuarantine\<close>: the claim of the due slot with the smallest id, and the deletion after a successful probe. Rows
  are in id order.\<close>

definition verifyClaim :: "scheduler_cfg \<Rightarrow> int \<Rightarrow> string \<Rightarrow> lease_table \<Rightarrow> nat option \<times> lease_table" where
  "verifyClaim cfg now key db =
     (case find (due_for_probe key now) (leases db) of
        None \<Rightarrow> (None, db)
      | Some r \<Rightarrow>
          (Some (l_token r),
           db\<lparr>leases := map (\<lambda>x. if l_id x = l_id r then x\<lparr>verify_after := Some (now + verifyIntervalMs cfg)\<rparr> else x)
                (leases db)\<rparr>))"

definition verifyDelete :: "nat \<Rightarrow> lease_table \<Rightarrow> lease_table" where
  "verifyDelete tok db = db\<lparr>leases := filter (\<lambda>r. \<not> (l_token r = tok \<and> quarantined_at r \<noteq> None)) (leases db)\<rparr>"

datatype probe_outcome = Released | StillBusy | NoProbe

definition verifyQuarantine :: "scheduler_cfg \<Rightarrow> int \<Rightarrow> string \<Rightarrow> bool \<Rightarrow> lease_table \<Rightarrow> probe_outcome \<times> lease_table" where
  "verifyQuarantine cfg now key idle db =
     (case verifyClaim cfg now key db of
        (None, db1) \<Rightarrow> (NoProbe, db1)
      | (Some tok, db1) \<Rightarrow> if \<not> idle then (StillBusy, db1) else (Released, verifyDelete tok db1))"

definition releaseQuarantined :: "string \<Rightarrow> lease_table \<Rightarrow> nat \<times> lease_table" where
  "releaseQuarantined key db =
     (count (quarantined_on key) (leases db), db\<lparr>leases := filter (\<lambda>r. \<not> quarantined_on key r) (leases db)\<rparr>)"

record queue_snapshot =
  s_holding :: nat
  s_waiting :: nat
  s_quarantined :: nat
  s_unverified :: nat
  s_oldest_quarantined_at :: "int option"
  s_oldest_wait_ms :: int

text \<open>SQL \<open>MIN\<close>: null on no rows.\<close>

definition sql_min :: "int list \<Rightarrow> int option" where
  "sql_min xs = (case xs of [] \<Rightarrow> None | x # ys \<Rightarrow> Some (foldl min x ys))"

definition snapshot :: "int \<Rightarrow> string \<Rightarrow> lease_table \<Rightarrow> queue_snapshot" where
  "snapshot now key db =
     (let rows = filter (\<lambda>r. resource_key r = key \<and> (lease_expires_at r \<ge> now \<or> quarantined_at r \<noteq> None)) (leases db);
          held = filter (\<lambda>r. l_state r = Holding \<and> quarantined_at r \<noteq> None) rows
      in \<lparr>s_holding = count (\<lambda>r. l_state r = Holding) rows,
          s_waiting = count (\<lambda>r. l_state r = Waiting) rows,
          s_quarantined = length held,
          s_unverified = count (\<lambda>r. lease_expires_at r < now) held,
          s_oldest_quarantined_at = sql_min (map (\<lambda>r. the (quarantined_at r)) held),
          s_oldest_wait_ms =
            (case sql_min (map created_at (filter (\<lambda>r. l_state r = Waiting) rows)) of Some t \<Rightarrow> now - t | None \<Rightarrow> 0)\<rparr>)"

section \<open>The acquire loop\<close>

text \<open>The loop variables of \<open>acquire\<close>, and what one turn of it observes: whether the signal is aborted, the claim's view
  (\<open>None\<close> after a database error), the clock after the claim and when the waiting callback is considered, the time waited so
  far, whether the caller passed \<open>onWaiting\<close>, and the outcome of the probe (\<open>None\<close> when it passed no \<open>verifyIdle\<close>).\<close>

record acquire_loop =
  firstDbErrorAt :: "int option"
  lastNotifyAt :: int
  lastPosition :: "nat option"
  maxPosition :: nat

definition loop_start :: acquire_loop where
  "loop_start = \<lparr>firstDbErrorAt = None, lastNotifyAt = 0, lastPosition = None, maxPosition = 0\<rparr>"

record turn_obs =
  o_aborted :: bool
  o_claim :: "claim_view option"
  o_claimedAt :: int
  o_probe :: "probe_outcome option"
  o_onWaiting :: bool
  o_notifyAt :: int
  o_waited :: int

text \<open>\<open>Retry\<close> is the \<open>continue\<close> after a released slot, \<open>Sleep d\<close> the wait for at most \<open>d\<close> milliseconds.\<close>

datatype acquire_action =
    StartHolding | Retry | Sleep int | Unavailable | CapacityQuarantined | WaitTimeout | Cancelled

definition note_error :: "turn_obs \<Rightarrow> acquire_loop \<Rightarrow> acquire_loop" where
  "note_error ob st =
     st\<lparr>firstDbErrorAt := (case o_claim ob of
          Some _ \<Rightarrow> None
        | None \<Rightarrow> (case firstDbErrorAt st of Some t \<Rightarrow> Some t | None \<Rightarrow> Some (o_claimedAt ob)))\<rparr>"

definition note_waiting :: "scheduler_cfg \<Rightarrow> turn_obs \<Rightarrow> claim_view \<Rightarrow> acquire_loop \<Rightarrow> acquire_loop" where
  "note_waiting cfg ob v st =
     (let position = v_ahead v + 1; st1 = st\<lparr>maxPosition := max (maxPosition st) position\<rparr>
      in if o_onWaiting ob \<and> (lastPosition st \<noteq> Some position \<or> o_notifyAt ob - lastNotifyAt st \<ge> waitingNotifyMs cfg)
         then st1\<lparr>lastPosition := Some position, lastNotifyAt := o_notifyAt ob\<rparr> else st1)"

definition sleep_or_timeout :: "scheduler_cfg \<Rightarrow> int \<Rightarrow> turn_obs \<Rightarrow> acquire_action" where
  "sleep_or_timeout cfg maxWaitMs ob =
     (let remaining = maxWaitMs - o_waited ob
      in if remaining \<le> 0 then WaitTimeout else Sleep (max 0 (min (pollMs cfg) remaining)))"

definition acquire_turn ::
    "scheduler_cfg \<Rightarrow> nat \<Rightarrow> int \<Rightarrow> turn_obs \<Rightarrow> acquire_loop \<Rightarrow> acquire_action \<times> acquire_loop" where
  "acquire_turn cfg capacity maxWaitMs ob st =
     (if o_aborted ob then (Cancelled, st)
      else let st1 = note_error ob st
           in case o_claim ob of
                None \<Rightarrow>
                  (if o_claimedAt ob - the (firstDbErrorAt st1) > waitLeaseMs cfg then (Unavailable, st1)
                   else (sleep_or_timeout cfg maxWaitMs ob, st1))
              | Some v \<Rightarrow>
                  (if v_acquired v then (StartHolding, st1)
                   else if v_quarantined v > 0 \<and> v_ahead v = 0 \<and> o_probe ob = Some Released then (Retry, st1)
                   else if v_unverified v > 0 \<and> v_holding v \<ge> capacity then (CapacityQuarantined, st1)
                   else (sleep_or_timeout cfg maxWaitMs ob, note_waiting cfg ob v st1)))"

text \<open>A run of the loop over the observations of its turns; the first action that leaves the loop is the result, and
  leaving with an error deletes the request's row.\<close>

definition leaves :: "acquire_action \<Rightarrow> bool" where
  "leaves a = (case a of Retry \<Rightarrow> False | Sleep _ \<Rightarrow> False | _ \<Rightarrow> True)"

fun acquire_run :: "scheduler_cfg \<Rightarrow> nat \<Rightarrow> int \<Rightarrow> turn_obs list \<Rightarrow> acquire_loop \<Rightarrow> acquire_action option" where
  "acquire_run cfg capacity maxWaitMs [] st = None"
| "acquire_run cfg capacity maxWaitMs (ob # obs) st =
     (let (a, st') = acquire_turn cfg capacity maxWaitMs ob st
      in if leaves a then Some a else acquire_run cfg capacity maxWaitMs obs st')"

definition acquire_exit :: "nat \<Rightarrow> acquire_action \<Rightarrow> lease_table \<Rightarrow> lease_table" where
  "acquire_exit tok a db = (if leaves a \<and> a \<noteq> StartHolding then deleteLease tok db else db)"

definition request_capacity :: "int \<Rightarrow> nat" where
  "request_capacity c = nat (max 1 c)"

definition lossDeadlineMs :: "scheduler_cfg \<Rightarrow> int" where
  "lossDeadlineMs cfg = max (heartbeatMs cfg) (holdLeaseMs cfg - 2 * heartbeatMs cfg)"

section \<open>The table invariant\<close>

text \<open>The database constraints: ids grow with insertion and stay below the sequence, tokens are unique.\<close>

definition table_ok :: "lease_table \<Rightarrow> bool" where
  "table_ok db \<longleftrightarrow>
     sorted_wrt (<) (map l_id (leases db)) \<and> (\<forall>r \<in> set (leases db). l_id r < next_id db) \<and>
     distinct (map l_token (leases db))"

definition active_on :: "string \<Rightarrow> lease \<Rightarrow> bool" where
  "active_on key r \<longleftrightarrow> holding_on key r \<and> quarantined_at r = None"

text \<open>Every row of the token is on the key; a request draws its own token and names one key.\<close>

definition on_key :: "nat \<Rightarrow> string \<Rightarrow> lease_table \<Rightarrow> bool" where
  "on_key tok key db \<longleftrightarrow> (\<forall>r \<in> set (leases db). l_token r = tok \<longrightarrow> resource_key r = key)"

lemma sorted_wrt_filter_map: "sorted_wrt (<) (map f xs) \<Longrightarrow> sorted_wrt (<) (map f (filter P xs))" for f :: "'a \<Rightarrow> nat"
  by (induction xs) auto

lemma distinct_filter_map: "distinct (map f xs) \<Longrightarrow> distinct (map f (filter P xs))"
  by (induction xs) auto

lemma table_ok_filter [simp, intro]: "table_ok db \<Longrightarrow> table_ok (db\<lparr>leases := filter P (leases db)\<rparr>)"
  by (simp add: table_ok_def sorted_wrt_filter_map distinct_filter_map)

lemma table_ok_map:
  assumes "\<And>r. l_id (f r) = l_id r" and "\<And>r. l_token (f r) = l_token r"
  shows "table_ok (db\<lparr>leases := map f (leases db)\<rparr>) = table_ok db"
proof -
  have "l_id \<circ> f = l_id" "l_token \<circ> f = l_token" using assms by auto
  then show ?thesis by (simp add: table_ok_def assms)
qed

lemma insert_rowE:
  assumes "insert_row mk db = Inr (i, db')"
  obtains "i = next_id db" and "db' = db\<lparr>leases := leases db @ [mk i], next_id := next_id db + 1\<rparr>"
    and "\<forall>r \<in> set (leases db). l_token r \<noteq> l_token (mk i)"
  using assms by (auto simp: insert_row_def Let_def list_ex_iff split: if_splits)

lemma table_ok_insert:
  assumes "insert_row mk db = Inr (i, db')" and "\<And>j. l_id (mk j) = j" and "table_ok db"
  shows "table_ok db'"
  using assms(1)
proof (cases rule: insert_rowE)
  case 1
  then show ?thesis using assms(2,3) by (auto simp: table_ok_def sorted_wrt_append less_Suc_eq)
qed

lemma housekeeping_filter_map:
  "housekeeping key now rows =
     filter (\<lambda>r. \<not> (expired_holder key now r \<and> \<not> fail_closed r))
       (map (quarantine_expired key now) (filter (\<lambda>r. \<not> expired_waiter key now r) rows))"
  by (simp add: housekeeping_def Let_def)

lemma quarantine_expired_keeps [simp]:
  "l_id (quarantine_expired key now r) = l_id r" "l_token (quarantine_expired key now r) = l_token r"
  "resource_key (quarantine_expired key now r) = resource_key r" "l_state (quarantine_expired key now r) = l_state r"
  "fail_closed (quarantine_expired key now r) = fail_closed r"
  by (simp_all add: quarantine_expired_def)

lemma waiter_row_sel [simp]:
  "l_id (waiter_row cfg now tok key meta i) = i" "l_token (waiter_row cfg now tok key meta i) = tok"
  "l_state (waiter_row cfg now tok key meta i) = Waiting" "resource_key (waiter_row cfg now tok key meta i) = key"
  by (simp_all add: waiter_row_def)

lemma grant_keeps [simp]:
  "l_id (grant cfg now tok r) = l_id r" "l_token (grant cfg now tok r) = l_token r"
  "resource_key (grant cfg now tok r) = resource_key r" "quarantined_at (grant cfg now tok r) = quarantined_at r"
  by (simp_all add: grant_def)

lemma table_ok_housekeeping: "table_ok db \<Longrightarrow> table_ok (db\<lparr>leases := housekeeping key now (leases db)\<rparr>)"
  using table_ok_filter [of "db\<lparr>leases := map (quarantine_expired key now) (filter (\<lambda>r. \<not> expired_waiter key now r) (leases db))\<rparr>"]
    table_ok_map [of "quarantine_expired key now" "db\<lparr>leases := filter (\<lambda>r. \<not> expired_waiter key now r) (leases db)\<rparr>"]
  by (simp add: housekeeping_filter_map)

lemma table_ok_keepAlive: "table_ok (db\<lparr>leases := keepAlive cfg now tok (leases db)\<rparr>) = table_ok db"
  unfolding keepAlive_def by (rule table_ok_map) simp_all

lemma table_ok_renew: "table_ok (snd (renew cfg now tok db)) = table_ok db"
  unfolding renew_def snd_conv by (rule table_ok_map) simp_all

lemma table_ok_grant: "table_ok (db\<lparr>leases := map (grant cfg now tok) (leases db)\<rparr>) = table_ok db"
  by (rule table_ok_map) simp_all

lemma table_ok_verifyClaim: "table_ok (snd (verifyClaim cfg now key db)) \<longleftrightarrow> table_ok db"
proof (cases "find (due_for_probe key now) (leases db)")
  case (Some r)
  show ?thesis unfolding verifyClaim_def Some option.case snd_conv by (rule table_ok_map) simp_all
qed (simp add: verifyClaim_def)

lemma table_ok_quarantine: "table_ok db \<Longrightarrow> table_ok (quarantine now h tok key owner rep db)"
proof (cases "list_ex (\<lambda>r. l_token r = tok) (leases db)")
  case True
  assume "table_ok db"
  then show ?thesis unfolding quarantine_def Let_def if_P [OF True] by (subst table_ok_map) simp_all
next
  case False
  assume "table_ok db"
  then show ?thesis using False
    by (auto simp: quarantine_def Let_def intro: table_ok_insert split: sum.split)
qed

section \<open>The abstract queue: holders and a first-in first-out list of waiters\<close>

text \<open>What the scheduler promises per key, without rows, ids or expiry: a set of holders and a queue. A claim joins the queue
  when the token is not in it and is granted when holders and earlier waiters together leave a slot.\<close>

record fifo_slots =
  fs_holders :: "nat set"
  fs_queue :: "nat list"

definition slot_request :: "nat \<Rightarrow> fifo_slots \<Rightarrow> fifo_slots" where
  "slot_request tok fs = (if tok \<in> set (fs_queue fs) then fs else fs\<lparr>fs_queue := fs_queue fs @ [tok]\<rparr>)"

definition slot_position :: "nat \<Rightarrow> fifo_slots \<Rightarrow> nat" where
  "slot_position tok fs = length (takeWhile (\<lambda>t. t \<noteq> tok) (fs_queue fs))"

definition slot_claim :: "nat \<Rightarrow> nat \<Rightarrow> fifo_slots \<Rightarrow> bool \<times> fifo_slots" where
  "slot_claim capacity tok fs =
     (let fs1 = slot_request tok fs
      in if card (fs_holders fs1) + slot_position tok fs1 < capacity
         then (True, \<lparr>fs_holders = insert tok (fs_holders fs1), fs_queue = remove1 tok (fs_queue fs1)\<rparr>)
         else (False, fs1))"

definition abs_slots :: "string \<Rightarrow> lease_table \<Rightarrow> fifo_slots" where
  "abs_slots key db =
     \<lparr>fs_holders = l_token ` set (filter (holding_on key) (leases db)),
      fs_queue = map l_token (filter (waiting_on key) (leases db))\<rparr>"

lemma abs_slots_map:
  assumes "\<And>r. resource_key (f r) = resource_key r" "\<And>r. l_state (f r) = l_state r" "\<And>r. l_token (f r) = l_token r"
  shows "abs_slots key (db\<lparr>leases := map f (leases db)\<rparr>) = abs_slots key db"
proof -
  have "holding_on key \<circ> f = holding_on key" "waiting_on key \<circ> f = waiting_on key" "l_token \<circ> f = l_token"
    using assms by (auto simp: holding_on_def waiting_on_def)
  then show ?thesis by (simp add: abs_slots_def filter_map image_image assms)
qed

lemma abs_slots_keepAlive: "abs_slots key (db\<lparr>leases := keepAlive cfg now tok (leases db)\<rparr>) = abs_slots key db"
  unfolding keepAlive_def by (rule abs_slots_map) simp_all

lemma abs_slots_split:
  "abs_slots key (db\<lparr>leases := pre @ r # post\<rparr>) =
     \<lparr>fs_holders = l_token ` set (filter (holding_on key) pre) \<union> (if holding_on key r then {l_token r} else {}) \<union>
        l_token ` set (filter (holding_on key) post),
      fs_queue = map l_token (filter (waiting_on key) pre) @ (if waiting_on key r then [l_token r] else []) @
        map l_token (filter (waiting_on key) post)\<rparr>"
  by (auto simp: abs_slots_def)

lemma count_holding: "table_ok db \<Longrightarrow> count (holding_on key) (leases db) = card (fs_holders (abs_slots key db))"
proof -
  assume "table_ok db"
  then have "distinct (map l_token (filter (holding_on key) (leases db)))" by (simp add: table_ok_def distinct_filter_map)
  then show ?thesis using distinct_card [of "map l_token (filter (holding_on key) (leases db))"]
    by (simp add: count_def abs_slots_def)
qed

text \<open>A row of the table splits it into earlier and later rows, with other tokens.\<close>

lemma table_split:
  assumes "table_ok db" and "r \<in> set (leases db)"
  obtains pre post where "leases db = pre @ r # post" "\<forall>x \<in> set pre. l_id x < l_id r \<and> l_token x \<noteq> l_token r"
    "\<forall>x \<in> set post. l_id r < l_id x \<and> l_token x \<noteq> l_token r"
proof -
  obtain pre post where s: "leases db = pre @ r # post" using assms(2) by (meson split_list)
  have t: "l_token r \<notin> l_token ` set pre" "l_token r \<notin> l_token ` set post"
    and "\<forall>x \<in> set pre. l_id x < l_id r" "\<forall>x \<in> set post. l_id r < l_id x"
    using assms(1) unfolding table_ok_def s by (simp_all add: sorted_wrt_append)
  moreover have "\<forall>x \<in> set pre. l_token x \<noteq> l_token r" "\<forall>x \<in> set post. l_token x \<noteq> l_token r" using t by (metis imageI)+
  ultimately have "\<forall>x \<in> set pre. l_id x < l_id r \<and> l_token x \<noteq> l_token r" "\<forall>x \<in> set post. l_id r < l_id x \<and> l_token x \<noteq> l_token r"
    by blast+
  then show ?thesis using that s by blast
qed

lemma takeWhile_split: "\<forall>x \<in> set xs. f x \<noteq> y \<Longrightarrow> takeWhile (\<lambda>t. t \<noteq> y) (map f xs @ y # ys) = map f xs"
  by (induction xs) auto

lemma table_db: "db = db\<lparr>leases := leases db\<rparr>" for db :: lease_table
  by simp

lemma ahead_is_position:
  assumes "table_ok db" "r \<in> set (leases db)" "waiting_on key r"
  shows "count (\<lambda>x. waiting_on key x \<and> l_id x < l_id r) (leases db) = slot_position (l_token r) (abs_slots key db)"
  using assms(1,2)
proof (cases rule: table_split)
  case (1 pre post)
  have "filter (\<lambda>x. waiting_on key x \<and> l_id x < l_id r) pre = filter (waiting_on key) pre"
    "filter (\<lambda>x. waiting_on key x \<and> l_id x < l_id r) post = []"
    using 1 by (auto intro!: filter_cong simp: filter_empty_conv)
  moreover have "takeWhile (\<lambda>t. t \<noteq> l_token r) (fs_queue (abs_slots key db)) = map l_token (filter (waiting_on key) pre)"
    using 1 assms(3) by (simp add: abs_slots_def takeWhile_split)
  ultimately show ?thesis using 1 by (simp add: count_def slot_position_def)
qed

lemma remove1_split: "\<forall>x \<in> set xs. f x \<noteq> y \<Longrightarrow> remove1 y (map f xs @ y # ys) = map f xs @ ys"
  by (induction xs) auto

lemma map_grant_split:
  assumes "\<forall>x \<in> set pre. l_token x \<noteq> tok" "\<forall>x \<in> set post. l_token x \<noteq> tok"
  shows "map (grant cfg now tok) (pre @ r # post) = pre @ grant cfg now tok r # post"
proof -
  have "map (grant cfg now tok) pre = pre" "map (grant cfg now tok) post = post"
    using assms by (auto simp: grant_def intro!: map_idI)
  then show ?thesis by simp
qed

lemma abs_slots_grant:
  assumes "table_ok db" "r \<in> set (leases db)" "waiting_on key r"
  shows "abs_slots key (db\<lparr>leases := map (grant cfg now (l_token r)) (leases db)\<rparr>) =
      \<lparr>fs_holders = insert (l_token r) (fs_holders (abs_slots key db)),
       fs_queue = remove1 (l_token r) (fs_queue (abs_slots key db))\<rparr>"
    and "other \<noteq> key \<Longrightarrow> abs_slots other (db\<lparr>leases := map (grant cfg now (l_token r)) (leases db)\<rparr>) = abs_slots other db"
proof -
  obtain pre post where s: "leases db = pre @ r # post" "\<forall>x \<in> set pre. l_token x \<noteq> l_token r" "\<forall>x \<in> set post. l_token x \<noteq> l_token r"
    using assms(1,2) by (cases rule: table_split) blast
  have g: "waiting_on k (grant cfg now (l_token r) r) = False" "holding_on k (grant cfg now (l_token r) r) = (k = key)"
    "waiting_on k r = (k = key)" "holding_on k r = False" for k
    using assms(3) by (auto simp: waiting_on_def holding_on_def grant_def)
  have d: "abs_slots k db = abs_slots k (db\<lparr>leases := pre @ r # post\<rparr>)" for k using s(1) by (simp add: abs_slots_def)
  show "abs_slots key (db\<lparr>leases := map (grant cfg now (l_token r)) (leases db)\<rparr>) =
      \<lparr>fs_holders = insert (l_token r) (fs_holders (abs_slots key db)),
       fs_queue = remove1 (l_token r) (fs_queue (abs_slots key db))\<rparr>"
    unfolding d unfolding s(1) map_grant_split [OF s(2,3)] abs_slots_split g using s(2,3)
    by (auto simp: remove1_split [of "filter _ _"])
  show "abs_slots other (db\<lparr>leases := map (grant cfg now (l_token r)) (leases db)\<rparr>) = abs_slots other db" if "other \<noteq> key"
    unfolding d unfolding s(1) map_grant_split [OF s(2,3)] abs_slots_split g using that by simp
qed

section \<open>Claims refine the abstract queue\<close>

lemma on_key_housekeeping: "on_key tok key db \<Longrightarrow> on_key tok key (db\<lparr>leases := housekeeping k now (leases db)\<rparr>)"
  by (auto simp: on_key_def housekeeping_filter_map)

lemma refresh_waiter_refines:
  assumes "refresh_waiter cfg now tok key meta db = Inr (i, q, db1)" and "table_ok db" and "on_key tok key db"
  shows "table_ok db1 \<and> (\<exists>r \<in> set (leases db1). l_token r = tok \<and> l_id r = i \<and> waiting_on key r) \<and>
    abs_slots key db1 = slot_request tok (abs_slots key db) \<and>
    (\<forall>k. k \<noteq> key \<longrightarrow> abs_slots k db1 = abs_slots k db)"
proof (cases "find (is_waiting tok) (leases db)")
  case None
  then obtain w: "insert_row (waiter_row cfg now tok key meta) db = Inr (i, db1)"
    using assms(1) by (auto simp: refresh_waiter_def split: sum.splits prod.splits)
  have "table_ok db1" using table_ok_insert [OF w _ assms(2)] by simp
  moreover have "tok \<notin> set (fs_queue (abs_slots key db))"
    using None by (auto simp: abs_slots_def find_None_iff is_waiting_def waiting_on_def)
  moreover have "db1 = db\<lparr>leases := leases db @ [waiter_row cfg now tok key meta i], next_id := next_id db + 1\<rparr>"
    using w by (cases rule: insert_rowE)
  ultimately show ?thesis by (auto simp: abs_slots_def slot_request_def waiting_on_def holding_on_def)
next
  case (Some r)
  then have r: "r \<in> set (leases db)" "is_waiting tok r" by (auto simp: find_Some_iff)
  have d: "db1 = db\<lparr>leases := keepAlive cfg now tok (leases db)\<rparr>" "i = l_id r"
    using assms(1) Some by (auto simp: refresh_waiter_def)
  have k: "waiting_on key r" "l_token r = tok" using r assms(3) by (auto simp: on_key_def is_waiting_def waiting_on_def)
  let ?r = "r\<lparr>lease_expires_at := now + waitLeaseMs cfg\<rparr>"
  have "?r \<in> set (leases db1)" using r d by (auto simp: keepAlive_def intro!: image_eqI [of _ _ r])
  moreover have "l_token ?r = tok \<and> l_id ?r = i \<and> waiting_on key ?r" using k d by (simp add: waiting_on_def)
  moreover have "tok \<in> set (fs_queue (abs_slots key db))" using r(1) k by (auto simp: abs_slots_def intro!: image_eqI [of _ _ r])
  moreover have "table_ok db1" using assms(2) d table_ok_keepAlive by blast
  moreover have "abs_slots k db1 = abs_slots k db" for k unfolding d(1) by (rule abs_slots_keepAlive)
  ultimately show ?thesis unfolding slot_request_def by (metis (no_types, lifting))
qed

lemma filter_housekeeping_other:
  assumes "\<And>r. P r \<Longrightarrow> resource_key r \<noteq> key"
  shows "filter P (housekeeping key now rows) = filter P rows"
proof (induction rows)
  case (Cons r rows)
  show ?case
  proof (cases "resource_key r = key")
    case True
    then have "\<not> P r" "\<not> P (quarantine_expired key now r)" using assms quarantine_expired_keeps(3) by metis+
    then show ?thesis using Cons by (simp add: housekeeping_filter_map)
  next
    case False
    then show ?thesis using Cons
      by (simp add: housekeeping_filter_map expired_waiter_def expired_holder_def quarantine_expired_def)
  qed
qed (simp add: housekeeping_filter_map)

lemma abs_slots_housekeeping_other:
  "other \<noteq> key \<Longrightarrow> abs_slots other (db\<lparr>leases := housekeeping key now (leases db)\<rparr>) = abs_slots other db"
  using filter_housekeeping_other [of "holding_on other" key now] filter_housekeeping_other [of "waiting_on other" key now]
  by (auto simp: abs_slots_def holding_on_def waiting_on_def)

lemma tryClaimE:
  assumes "tryClaim cfg now tok key capacity meta db = Inr (v, db')"
  obtains i q db1 where
    "refresh_waiter cfg now tok key meta (db\<lparr>leases := housekeeping key now (leases db)\<rparr>) = Inr (i, q, db1)"
    "v_acquired v \<longleftrightarrow>
       count (holding_on key) (leases db1) + count (\<lambda>r. waiting_on key r \<and> l_id r < i) (leases db1) < capacity"
    "db' = (if v_acquired v then db1\<lparr>leases := map (grant cfg now tok) (leases db1)\<rparr> else db1)"
  using assms by (auto simp: tryClaim_def Let_def split: sum.splits prod.splits if_splits)

lemma tryClaim_refines:
  assumes "tryClaim cfg now tok key capacity meta db = Inr (v, db')" and "table_ok db" and "on_key tok key db"
  shows "table_ok db' \<and>
    slot_claim capacity tok (abs_slots key (db\<lparr>leases := housekeeping key now (leases db)\<rparr>)) = (v_acquired v, abs_slots key db') \<and>
    (\<forall>k. k \<noteq> key \<longrightarrow> abs_slots k db' = abs_slots k (db\<lparr>leases := housekeeping key now (leases db)\<rparr>))"
  using assms(1)
proof (cases rule: tryClaimE)
  case (1 i q db1)
  let ?db = "db\<lparr>leases := housekeeping key now (leases db)\<rparr>"
  note ref = refresh_waiter_refines [OF 1(1) table_ok_housekeeping [OF assms(2)] on_key_housekeeping [OF assms(3)]]
  then obtain r where r: "r \<in> set (leases db1)" "l_token r = tok" "l_id r = i" "waiting_on key r" and ok: "table_ok db1" by blast
  have cond: "v_acquired v \<longleftrightarrow>
      card (fs_holders (abs_slots key db1)) + slot_position tok (abs_slots key db1) < capacity"
    using 1(2) count_holding [OF ok, of key] ahead_is_position [OF ok r(1,4)] r by simp
  note gr = abs_slots_grant [OF ok r(1,4), where cfg = cfg and now = now, unfolded r(2)]
  have "table_ok db'" using ok 1(3) table_ok_grant by simp
  moreover have "slot_claim capacity tok (abs_slots key ?db) = (v_acquired v, abs_slots key db')"
    using ref cond 1(3) gr(1) by (simp add: slot_claim_def Let_def)
  moreover have "\<forall>k. k \<noteq> key \<longrightarrow> abs_slots k db' = abs_slots k ?db" using ref 1(3) gr(2) by simp
  ultimately show ?thesis by blast
qed

section \<open>Capacity\<close>

lemma count_filter_le: "count P (filter Q xs) \<le> count P xs"
  by (induction xs) (auto simp: count_def)

lemma count_map_le: "(\<And>x. P (f x) \<Longrightarrow> P x) \<Longrightarrow> count P (map f xs) \<le> count P xs"
  by (induction xs) (auto simp: count_def)

lemma count_mono: "(\<And>x. P x \<Longrightarrow> Q x) \<Longrightarrow> count P xs \<le> count Q xs"
  by (induction xs) (auto simp: count_def)

lemma active_quarantine_expired: "active_on k (quarantine_expired key now r) \<Longrightarrow> active_on k r"
  by (auto simp: active_on_def holding_on_def quarantine_expired_def split: if_splits)

lemma count_active_housekeeping: "count (active_on k) (housekeeping key now rows) \<le> count (active_on k) rows"
proof -
  let ?w = "filter (\<lambda>r. \<not> expired_waiter key now r) rows"
  have "count (active_on k) (housekeeping key now rows) \<le> count (active_on k) (map (quarantine_expired key now) ?w)"
    unfolding housekeeping_filter_map by (rule count_filter_le)
  also have "\<dots> \<le> count (active_on k) ?w" by (rule count_map_le) (rule active_quarantine_expired)
  also have "\<dots> \<le> count (active_on k) rows" by (rule count_filter_le)
  finally show ?thesis .
qed

definition capacity_ok :: "(string \<Rightarrow> nat) \<Rightarrow> lease_table \<Rightarrow> bool" where
  "capacity_ok cap db \<longleftrightarrow> (\<forall>key. count (active_on key) (leases db) \<le> cap key)"

definition scheduler_inv :: "(string \<Rightarrow> nat) \<Rightarrow> lease_table \<Rightarrow> bool" where
  "scheduler_inv cap db \<longleftrightarrow> table_ok db \<and> capacity_ok cap db"

lemma capacity_ok_le:
  "capacity_ok cap db \<Longrightarrow> (\<And>k. count (active_on k) (leases db') \<le> count (active_on k) (leases db)) \<Longrightarrow> capacity_ok cap db'"
  unfolding capacity_ok_def by (meson le_trans)

lemma capacity_ok_filter [simp, intro]: "capacity_ok cap db \<Longrightarrow> capacity_ok cap (db\<lparr>leases := filter P (leases db)\<rparr>)"
  by (erule capacity_ok_le) (simp add: count_filter_le)

lemma capacity_ok_map:
  "capacity_ok cap db \<Longrightarrow> (\<And>k r. active_on k (f r) \<Longrightarrow> active_on k r) \<Longrightarrow> capacity_ok cap (db\<lparr>leases := map f (leases db)\<rparr>)"
  by (erule capacity_ok_le) (simp add: count_map_le)

lemma capacity_ok_insert:
  assumes "insert_row mk db = Inr (i, db')" and "\<And>k j. \<not> active_on k (mk j)" and "capacity_ok cap db"
  shows "capacity_ok cap db'"
  using assms(1) by (cases rule: insert_rowE) (use assms(2,3) in \<open>simp add: capacity_ok_def count_def\<close>)

lemma waiter_not_active [simp]: "\<not> active_on k (waiter_row cfg now tok key meta i)"
  by (simp add: active_on_def holding_on_def)

lemma capacity_ok_refresh:
  assumes "refresh_waiter cfg now tok key meta db = Inr (i, q, db1)" and "capacity_ok cap db"
  shows "capacity_ok cap db1"
proof (cases "find (is_waiting tok) (leases db)")
  case None
  then have "insert_row (waiter_row cfg now tok key meta) db = Inr (i, db1)"
    using assms(1) by (auto simp: refresh_waiter_def split: sum.splits prod.splits)
  then show ?thesis by (rule capacity_ok_insert) (simp_all add: assms(2))
next
  case (Some r)
  then have d: "db1 = db\<lparr>leases := keepAlive cfg now tok (leases db)\<rparr>" using assms(1) by (auto simp: refresh_waiter_def)
  show ?thesis unfolding d keepAlive_def
    by (rule capacity_ok_map [OF assms(2)]) (auto simp: active_on_def holding_on_def split: if_splits)
qed

lemma active_le_holding: "count (active_on key) rows \<le> count (holding_on key) rows"
  by (rule count_mono) (simp add: active_on_def)

lemma tryClaim_capacity:
  assumes "tryClaim cfg now tok key (cap key) meta db = Inr (v, db')" and "table_ok db" "on_key tok key db" "capacity_ok cap db"
  shows "capacity_ok cap db'"
  using assms(1)
proof (cases rule: tryClaimE)
  case (1 i q db1)
  have ok1: "capacity_ok cap db1"
    by (rule capacity_ok_refresh [OF 1(1)], rule capacity_ok_le [OF assms(4)]) (simp add: count_active_housekeeping)
  show ?thesis
  proof (cases "v_acquired v")
    case True
    note ref = refresh_waiter_refines [OF 1(1) table_ok_housekeeping [OF assms(2)] on_key_housekeeping [OF assms(3)]]
    then obtain r where r: "r \<in> set (leases db1)" "l_token r = tok" "waiting_on key r" and ok: "table_ok db1" by blast
    have d: "db' = db1\<lparr>leases := map (grant cfg now tok) (leases db1)\<rparr>" using 1(3) True by simp
    note gr = abs_slots_grant(1) [OF ok r(1,3), where cfg = cfg and now = now, unfolded r(2), folded d]
    have "table_ok db'" using ok d table_ok_grant by simp
    then have "count (active_on key) (leases db') \<le> card (fs_holders (abs_slots key db'))"
      using active_le_holding [of key "leases db'"] count_holding [of db' key] by simp
    also have "\<dots> \<le> Suc (card (fs_holders (abs_slots key db1)))" unfolding gr by (simp add: card_insert_le_m1 abs_slots_def)
    also have "\<dots> \<le> cap key" using 1(2) True count_holding [OF ok, of key] by simp
    finally have own: "count (active_on key) (leases db') \<le> cap key" .
    have "count (active_on k) (leases db') \<le> count (active_on k) (leases db1)" if "k \<noteq> key" for k
    proof -
      have "active_on k (grant cfg now tok x) \<longleftrightarrow> active_on k x" if "x \<in> set (leases db1)" for x
        using that r ok \<open>k \<noteq> key\<close>
        by (cases "l_token x = tok") (auto simp: active_on_def holding_on_def waiting_on_def grant_def table_ok_def distinct_map inj_on_eq_iff)
      then have "filter (active_on k \<circ> grant cfg now tok) (leases db1) = filter (active_on k) (leases db1)"
        by (intro filter_cong) simp_all
      then show ?thesis unfolding d count_def by (simp add: filter_map)
    qed
    then show ?thesis using own ok1 unfolding capacity_ok_def by (metis le_trans)
  qed (use 1(3) ok1 in simp)
qed

section \<open>The lease table as a transition system\<close>

text \<open>Every statement of the scheduler that any process may run, in any order and at any time; a claim is made by a
  request for its own key and with the capacity configured for that key.\<close>

inductive lease_step :: "scheduler_cfg \<Rightarrow> (string \<Rightarrow> nat) \<Rightarrow> lease_table \<Rightarrow> lease_table \<Rightarrow> bool" for cfg cap where
  joins: "insertWaiter cfg now tok key meta db = Inr (i, db') \<Longrightarrow> lease_step cfg cap db db'"
| claims: "on_key tok key db \<Longrightarrow> tryClaim cfg now tok key (cap key) meta db = Inr (v, db') \<Longrightarrow> lease_step cfg cap db db'"
| keeps_alive: "lease_step cfg cap db (db\<lparr>leases := keepAlive cfg now tok (leases db)\<rparr>)"
| renews: "lease_step cfg cap db (snd (renew cfg now tok db))"
| leaves_queue: "lease_step cfg cap db (deleteLease tok db)"
| quarantines: "lease_step cfg cap db (quarantine now holdMs tok key owner rep db)"
| probes: "lease_step cfg cap db (snd (verifyClaim cfg now key db))"
| probe_succeeds: "lease_step cfg cap db (verifyDelete tok db)"
| admin_releases: "lease_step cfg cap db (snd (releaseQuarantined key db))"

inductive_cases lease_stepE: "lease_step cfg cap db db'"

lemma capacity_ok_quarantine:
  assumes "capacity_ok cap db"
  shows "capacity_ok cap (quarantine now h tok key owner rep db)"
proof (cases "list_ex (\<lambda>r. l_token r = tok) (leases db)")
  case True
  show ?thesis unfolding quarantine_def Let_def if_P [OF True]
    by (rule capacity_ok_map [OF assms]) (auto simp: active_on_def split: if_splits)
next
  case False
  then show ?thesis using assms
    by (auto simp: quarantine_def Let_def active_on_def intro: capacity_ok_insert split: sum.split)
qed

lemma capacity_ok_verifyClaim:
  assumes "capacity_ok cap db"
  shows "capacity_ok cap (snd (verifyClaim cfg now key db))"
proof (cases "find (due_for_probe key now) (leases db)")
  case (Some r)
  show ?thesis unfolding verifyClaim_def Some option.case snd_conv
    by (rule capacity_ok_map [OF assms]) (auto simp: active_on_def holding_on_def split: if_splits)
qed (simp add: verifyClaim_def assms)

lemma capacity_ok_renew: "capacity_ok cap db \<Longrightarrow> capacity_ok cap (snd (renew cfg now tok db))"
  unfolding renew_def snd_conv by (erule capacity_ok_map) (auto simp: active_on_def holding_on_def split: if_splits)

lemma capacity_ok_keepAlive: "capacity_ok cap db \<Longrightarrow> capacity_ok cap (db\<lparr>leases := keepAlive cfg now tok (leases db)\<rparr>)"
  unfolding keepAlive_def by (erule capacity_ok_map) (auto simp: active_on_def holding_on_def split: if_splits)

lemma scheduler_inv_insertWaiter:
  "insertWaiter cfg now tok key meta db = Inr (i, db') \<Longrightarrow> scheduler_inv cap db \<Longrightarrow> scheduler_inv cap db'"
  unfolding insertWaiter_def scheduler_inv_def using table_ok_insert capacity_ok_insert by fastforce

lemmas delete_defs = deleteLease_def verifyDelete_def releaseQuarantined_def

lemma scheduler_inv_step:
  assumes "scheduler_inv cap db" and "lease_step cfg cap db db'"
  shows "scheduler_inv cap db'"
  using assms(2)
proof cases
  case (joins now tok key meta i)
  then show ?thesis using assms(1) by (rule scheduler_inv_insertWaiter)
next
  case (claims tok key now meta v)
  then show ?thesis using assms(1) tryClaim_refines tryClaim_capacity unfolding scheduler_inv_def by blast
next
  case (keeps_alive now tok)
  then show ?thesis using assms(1) by (simp add: scheduler_inv_def table_ok_keepAlive capacity_ok_keepAlive)
next
  case (renews now tok)
  then show ?thesis using assms(1) by (simp add: scheduler_inv_def table_ok_renew capacity_ok_renew)
next
  case (quarantines now holdMs tok key owner rep)
  then show ?thesis using assms(1) by (simp add: scheduler_inv_def table_ok_quarantine capacity_ok_quarantine)
next
  case (probes now key)
  then show ?thesis using assms(1) by (simp add: scheduler_inv_def table_ok_verifyClaim capacity_ok_verifyClaim)
qed (use assms(1) in \<open>simp_all add: scheduler_inv_def delete_defs table_ok_filter capacity_ok_filter\<close>)

definition empty_table :: lease_table where
  "empty_table = \<lparr>leases = [], next_id = 1\<rparr>"

interpretation slots: invariant_system "\<lambda>db. db = empty_table" "lease_step cfg cap" "scheduler_inv cap" for cfg cap
  by unfold_locales
    (simp add: scheduler_inv_def table_ok_def capacity_ok_def empty_table_def count_def, rule scheduler_inv_step)

section \<open>Fail-closed slots\<close>

lemma housekeeping_keeps_fail_closed:
  assumes "r \<in> set rows" "l_state r = Holding" "fail_closed r"
  shows "quarantine_expired key now r \<in> set (housekeeping key now rows)"
  using assms by (auto simp: housekeeping_filter_map expired_waiter_def expired_holder_def quarantine_expired_def)

lemma refresh_keeps_holding:
  assumes "refresh_waiter cfg now tok key meta db = Inr (i, q, db1)" "r \<in> set (leases db)" "l_state r = Holding"
  shows "r \<in> set (leases db1)"
proof (cases "find (is_waiting tok) (leases db)")
  case None
  then have "insert_row (waiter_row cfg now tok key meta) db = Inr (i, db1)"
    using assms(1) by (auto simp: refresh_waiter_def split: sum.splits prod.splits)
  then show ?thesis using assms(2) by (cases rule: insert_rowE) simp
next
  case (Some x)
  then have d: "leases db1 = keepAlive cfg now tok (leases db)" using assms(1) by (auto simp: refresh_waiter_def)
  show ?thesis unfolding d keepAlive_def using assms(2,3) by (auto simp: is_waiting_def intro!: image_eqI [of _ _ r])
qed

lemma tryClaim_keeps_holding:
  assumes "tryClaim cfg now tok key capacity meta db = Inr (v, db')" and "table_ok db" and "on_key tok key db"
    and "r \<in> set (housekeeping key now (leases db))" "l_state r = Holding"
  shows "r \<in> set (leases db')"
  using assms(1)
proof (cases rule: tryClaimE)
  case (1 i q db1)
  have r1: "r \<in> set (leases db1)" using refresh_keeps_holding [OF 1(1)] assms(4,5) by simp
  note ref = refresh_waiter_refines [OF 1(1) table_ok_housekeeping [OF assms(2)] on_key_housekeeping [OF assms(3)]]
  then obtain w where w: "w \<in> set (leases db1)" "l_token w = tok" "waiting_on key w" and ok: "table_ok db1" by blast
  have "l_token r \<noteq> tok"
    using ok w r1 assms(5) by (auto simp: table_ok_def distinct_map waiting_on_def dest: inj_onD)
  then show ?thesis using r1 1(3) by (auto simp: grant_def intro!: image_eqI [of _ _ r])
qed

section \<open>Draining the queue\<close>

text \<open>A round: each of the given requests claims at its time and, when granted, releases; the result says who was granted.\<close>

fun serve :: "scheduler_cfg \<Rightarrow> string \<Rightarrow> nat \<Rightarrow> request_meta \<Rightarrow> (nat \<times> int) list \<Rightarrow> lease_table \<Rightarrow> (bool list \<times> lease_table) option" where
  "serve cfg key capacity meta [] db = Some ([], db)"
| "serve cfg key capacity meta ((tok, now) # rest) db =
     (case tryClaim cfg now tok key capacity meta db of
        Inl e \<Rightarrow> None
      | Inr (v, db1) \<Rightarrow>
          (case serve cfg key capacity meta rest (if v_acquired v then deleteLease tok db1 else db1) of
             None \<Rightarrow> None
           | Some (gs, db2) \<Rightarrow> Some (v_acquired v # gs, db2)))"

definition fresh_until :: "string \<Rightarrow> int \<Rightarrow> lease_table \<Rightarrow> bool" where
  "fresh_until key t db \<longleftrightarrow> (\<forall>r \<in> set (leases db). waiting_on key r \<longrightarrow> t \<le> lease_expires_at r)"

lemma housekeeping_idle:
  assumes "fresh_until key t db" "fs_holders (abs_slots key db) = {}" "now \<le> t"
  shows "housekeeping key now (leases db) = leases db"
proof -
  have "\<forall>r \<in> set (leases db). \<not> holding_on key r" using assms(2) by (auto simp: abs_slots_def)
  then have "\<forall>r \<in> set (leases db). \<not> expired_waiter key now r \<and> \<not> expired_holder key now r"
    using assms(1,3) by (force simp: fresh_until_def waiting_on_def expired_waiter_def expired_holder_def holding_on_def)
  then have "filter (\<lambda>r. \<not> expired_waiter key now r) (leases db) = leases db"
    "map (quarantine_expired key now) (leases db) = leases db"
    "filter (\<lambda>r. \<not> (expired_holder key now r \<and> \<not> fail_closed r)) (leases db) = leases db"
    by (auto simp: quarantine_expired_def intro!: map_idI filter_True)
  then show ?thesis by (simp add: housekeeping_filter_map)
qed

lemma queue_head_row:
  assumes "fs_queue (abs_slots key db) = tok # toks"
  obtains r where "r \<in> set (leases db)" "l_token r = tok" "waiting_on key r"
proof -
  have "tok \<in> set (fs_queue (abs_slots key db))" using assms by simp
  then show ?thesis using that by (auto simp: abs_slots_def)
qed

lemma on_key_row:
  assumes "table_ok db" "r \<in> set (leases db)" "waiting_on key r"
  shows "on_key (l_token r) key db"
  using assms by (auto simp: on_key_def table_ok_def distinct_map waiting_on_def dest: inj_onD)

lemma filter_other_maps:
  "filter (\<lambda>r. l_token r \<noteq> tok) (map (grant cfg now tok) (keepAlive cfg now' tok rows)) = filter (\<lambda>r. l_token r \<noteq> tok) rows"
  by (induction rows) (auto simp: keepAlive_def grant_def is_waiting_def)

lemma tryClaim_returns:
  assumes "refresh_waiter cfg now tok key meta (db\<lparr>leases := housekeeping key now (leases db)\<rparr>) = Inr (i, q, db1)"
  shows "\<exists>v db'. tryClaim cfg now tok key capacity meta db = Inr (v, db') \<and>
    db' = (if v_acquired v then db1\<lparr>leases := map (grant cfg now tok) (leases db1)\<rparr> else db1)"
  using assms by (simp add: tryClaim_def Let_def)

lemma head_is_granted:
  assumes "table_ok db" "fresh_until key t db" "fs_holders (abs_slots key db) = {}" "now \<le> t" "0 < capacity"
    and q: "fs_queue (abs_slots key db) = tok # toks"
  shows "\<exists>v db1. tryClaim cfg now tok key capacity meta db = Inr (v, db1) \<and> v_acquired v \<and>
    leases (deleteLease tok db1) = filter (\<lambda>r. l_token r \<noteq> tok) (leases db) \<and> next_id db1 = next_id db"
proof -
  obtain r where r: "r \<in> set (leases db)" "l_token r = tok" "waiting_on key r" using q by (rule queue_head_row)
  let ?h = "db\<lparr>leases := housekeeping key now (leases db)\<rparr>"
  have h: "?h = db" using housekeeping_idle [OF assms(2,3,4)] by simp
  have "is_waiting tok r" using r by (simp add: is_waiting_def waiting_on_def)
  then obtain x where x: "find (is_waiting tok) (leases db) = Some x"
    using r(1) by (metis find_None_iff2 option.exhaust)
  then have ref: "refresh_waiter cfg now tok key meta ?h = Inr (l_id x, False, db\<lparr>leases := keepAlive cfg now tok (leases db)\<rparr>)"
    unfolding h by (simp add: refresh_waiter_def)
  then obtain v db1 where c: "tryClaim cfg now tok key capacity meta db = Inr (v, db1)"
      "v_acquired v \<Longrightarrow> db1 = db\<lparr>leases := map (grant cfg now tok) (keepAlive cfg now tok (leases db))\<rparr>"
    using tryClaim_returns [OF ref, of capacity] by auto
  have "on_key tok key db" using on_key_row [OF assms(1) r(1,3)] r(2) by simp
  then have "slot_claim capacity tok (abs_slots key db) = (v_acquired v, abs_slots key db1)"
    using tryClaim_refines [OF c(1) assms(1)] h by simp
  then have "v_acquired v" using q assms(3,5) by (simp add: slot_claim_def slot_request_def slot_position_def)
  moreover note c(2) [OF this]
  ultimately show ?thesis using c(1) by (simp add: deleteLease_def filter_other_maps)
qed

lemma abs_slots_without:
  assumes "leases db' = filter (\<lambda>r. l_token r \<noteq> tok) (leases db)"
  shows "abs_slots key db' = \<lparr>fs_holders = fs_holders (abs_slots key db) - {tok}, fs_queue = removeAll tok (fs_queue (abs_slots key db))\<rparr>"
proof -
  have "removeAll tok (map l_token xs) = map l_token (filter (\<lambda>r. l_token r \<noteq> tok) xs)" for xs :: "lease list"
    by (induction xs) auto
  then show ?thesis unfolding abs_slots_def assms by (auto simp: conj_commute)
qed

lemma serve_queue:
  "table_ok db \<Longrightarrow> fresh_until key t db \<Longrightarrow> fs_holders (abs_slots key db) = {} \<Longrightarrow> fs_queue (abs_slots key db) = toks \<Longrightarrow>
   length nows = length toks \<Longrightarrow> list_all (\<lambda>n. n \<le> t) nows \<Longrightarrow> 0 < capacity \<Longrightarrow>
   \<exists>db'. serve cfg key capacity meta (zip toks nows) db = Some (replicate (length toks) True, db') \<and>
     abs_slots key db' = \<lparr>fs_holders = {}, fs_queue = []\<rparr>"
proof (induction toks arbitrary: db nows)
  case (Cons tok toks)
  then obtain now nows' where ti: "nows = now # nows'" "now \<le> t" by (cases nows) auto
  obtain v db1 where c: "tryClaim cfg now tok key capacity meta db = Inr (v, db1)" "v_acquired v"
      "leases (deleteLease tok db1) = filter (\<lambda>r. l_token r \<noteq> tok) (leases db)" "next_id db1 = next_id db"
    using head_is_granted [OF Cons.prems(1,2,3) ti(2) Cons.prems(7,4)] by blast
  have d: "deleteLease tok db1 = db\<lparr>leases := filter (\<lambda>r. l_token r \<noteq> tok) (leases db)\<rparr>"
    using c(3,4) by (cases db; cases db1) (simp add: deleteLease_def)
  have "distinct (fs_queue (abs_slots key db))"
    using Cons.prems(1) by (simp add: abs_slots_def table_ok_def distinct_filter_map)
  then have "tok \<notin> set toks" using Cons.prems(4) by simp
  then have a: "abs_slots key (deleteLease tok db1) = \<lparr>fs_holders = {}, fs_queue = toks\<rparr>"
    using abs_slots_without [OF c(3)] Cons.prems(3,4) by simp
  moreover have "fresh_until key t (deleteLease tok db1)" using Cons.prems(2) d by (simp add: fresh_until_def)
  moreover have "table_ok (deleteLease tok db1)" using Cons.prems(1) d table_ok_filter by simp
  ultimately show ?case using Cons.IH [of "deleteLease tok db1" nows'] Cons.prems ti c by auto
next
  case Nil
  then show ?case by (cases "abs_slots key db") simp
qed

section \<open>The acquire loop ends\<close>

lemma turn_sleep:
  assumes "fst (acquire_turn cfg capacity maxWaitMs ob st) = Sleep d"
  shows "0 \<le> d \<and> d \<le> max 0 (pollMs cfg) \<and> o_waited ob + d \<le> maxWaitMs"
  using assms
  by (auto simp: acquire_turn_def sleep_or_timeout_def Let_def split: if_splits option.splits)

lemma late_turn_leaves:
  assumes "maxWaitMs \<le> o_waited ob" "o_probe ob \<noteq> Some Released"
  shows "leaves (fst (acquire_turn cfg capacity maxWaitMs ob st))"
  using assms by (auto simp: acquire_turn_def sleep_or_timeout_def Let_def leaves_def split: option.splits)

lemma acquire_run_returns:
  assumes "ob \<in> set obs" "maxWaitMs \<le> o_waited ob" "o_probe ob \<noteq> Some Released"
  shows "\<exists>a. acquire_run cfg capacity maxWaitMs obs st = Some a \<and> leaves a"
  using assms(1)
proof (induction obs arbitrary: st)
  case (Cons x obs)
  obtain a st' where t: "acquire_turn cfg capacity maxWaitMs x st = (a, st')" by (cases "acquire_turn cfg capacity maxWaitMs x st")
  show ?case
  proof (cases "leaves a")
    case False
    then have "x \<noteq> ob" using t late_turn_leaves [OF assms(2,3)] by (metis fst_conv)
    then show ?thesis using Cons t False by simp
  qed (simp add: t)
qed simp

lemma Inr_projr: "\<not> isl x \<Longrightarrow> x = Inr (fst (projr x), snd (projr x))"
  by (cases x) auto

definition sample_meta :: request_meta where
  "sample_meta = \<lparr>rm_purpose = Some ''summary'', rm_owner = ''host:1'', rm_reportId = Some 7, rm_failClosed = True,
     rm_maxExecutionMs = Some 120000\<rparr>"

text \<open>Token 1 holds the key since time 0, tokens 2 and 3 wait.\<close>

definition sample_table :: lease_table where
  "sample_table = \<lparr>leases = [grant SCHEDULER_DEFAULTS 0 1 (waiter_row SCHEDULER_DEFAULTS 0 1 ''ollama'' sample_meta 1),
       waiter_row SCHEDULER_DEFAULTS 100 2 ''ollama'' sample_meta 2, waiter_row SCHEDULER_DEFAULTS 200 3 ''ollama'' sample_meta 3],
     next_id = 4\<rparr>"

definition sample_claim :: "int \<Rightarrow> nat \<Rightarrow> nat \<Rightarrow> (db_error, claim_view \<times> lease_table) result" where
  "sample_claim now tok capacity = tryClaim SCHEDULER_DEFAULTS now tok ''ollama'' capacity sample_meta sample_table"

lemma sample_claims:
  "tryClaim SCHEDULER_DEFAULTS 300 3 ''ollama'' 2 sample_meta sample_table =
     Inr (fst (projr (sample_claim 300 3 2)), snd (projr (sample_claim 300 3 2)))"
  "tryClaim SCHEDULER_DEFAULTS 70000 2 ''ollama'' 1 sample_meta sample_table =
     Inr (fst (projr (sample_claim 70000 2 1)), snd (projr (sample_claim 70000 2 1)))"
proof -
  have "\<not> isl (sample_claim 300 3 2)" "\<not> isl (sample_claim 70000 2 1)" by code_simp+
  then show "tryClaim SCHEDULER_DEFAULTS 300 3 ''ollama'' 2 sample_meta sample_table =
      Inr (fst (projr (sample_claim 300 3 2)), snd (projr (sample_claim 300 3 2)))"
    "tryClaim SCHEDULER_DEFAULTS 70000 2 ''ollama'' 1 sample_meta sample_table =
      Inr (fst (projr (sample_claim 70000 2 1)), snd (projr (sample_claim 70000 2 1)))"
    using Inr_projr unfolding sample_claim_def by blast+
qed

lemma sample_table_ok: "table_ok sample_table" "on_key 2 ''ollama'' sample_table" "on_key 3 ''ollama'' sample_table"
  by code_simp+

section \<open>Properties\<close>

text \<open>C4: the lease table implements a first-in first-out slot queue. A claim, whatever expired rows it first removes or
  quarantines, does to the holders and waiters of its key exactly what the abstract queue does: join at the tail when not
  queued, be granted exactly when the holders and the earlier waiters together are fewer than the capacity (so nobody is
  overtaken), and leave the queue when granted. It keeps the table well-formed and does not touch other keys.\<close>

theorem tryClaim_refines_fifo:
  assumes "tryClaim cfg now tok key capacity meta db = Inr (v, db')" and "table_ok db" and "on_key tok key db"
    and "other \<noteq> key"
  shows "slot_claim capacity tok (abs_slots key (db\<lparr>leases := housekeeping key now (leases db)\<rparr>)) =
      (v_acquired v, abs_slots key db') \<and> table_ok db' \<and> abs_slots other db' = abs_slots other db"
  using tryClaim_refines [OF assms(1-3)] abs_slots_housekeeping_other [OF assms(4)] assms(4) by simp


theorem tryClaim_refines_fifo_witness:
  "slot_claim 2 3 (abs_slots ''ollama'' (sample_table\<lparr>leases := housekeeping ''ollama'' 300 (leases sample_table)\<rparr>)) =
      (v_acquired (fst (projr (sample_claim 300 3 2))), abs_slots ''ollama'' (snd (projr (sample_claim 300 3 2)))) \<and>
   table_ok (snd (projr (sample_claim 300 3 2))) \<and>
   abs_slots ''other'' (snd (projr (sample_claim 300 3 2))) = abs_slots ''other'' sample_table"
  by (rule tryClaim_refines_fifo [OF sample_claims(1) sample_table_ok(1,3)]) simp



text \<open>time never frees a fail-closed slot. Whatever the time, a claim by another request keeps every fail-closed
  holding row of the table, and when the row's lease has expired it comes back quarantined and due for a probe; so an abandoned
  request on a local provider keeps its slot until a probe or an administrator releases it.\<close>

theorem fail_closed_never_freed:
  assumes "tryClaim cfg now tok key capacity meta db = Inr (v, db')" and "table_ok db" and "on_key tok key db"
    and "r \<in> set (leases db)" "l_state r = Holding" "fail_closed r"
  shows "\<exists>r' \<in> set (leases db'). l_token r' = l_token r \<and> l_id r' = l_id r \<and> resource_key r' = resource_key r \<and>
    l_state r' = Holding \<and> fail_closed r' \<and> (if expired_holder key now r then due_for_probe key now r' else r' = r)"
proof (rule bexI)
  let ?r = "quarantine_expired key now r"
  show "?r \<in> set (leases db')"
    using tryClaim_keeps_holding [OF assms(1-3) housekeeping_keeps_fail_closed [OF assms(4-6)]] assms(5) by simp
  show "l_token ?r = l_token r \<and> l_id ?r = l_id r \<and> resource_key ?r = resource_key r \<and>
      l_state ?r = Holding \<and> fail_closed ?r \<and> (if expired_holder key now r then due_for_probe key now ?r else ?r = r)"
    using assms(5,6)
    by (auto simp: quarantine_expired_def due_for_probe_def quarantined_on_def holding_on_def expired_holder_def)
qed

theorem fail_closed_never_freed_witness:
  "\<exists>r' \<in> set (leases (snd (projr (sample_claim 70000 2 1)))).
     l_token r' = l_token (hd (leases sample_table)) \<and> l_id r' = l_id (hd (leases sample_table)) \<and>
     resource_key r' = resource_key (hd (leases sample_table)) \<and> l_state r' = Holding \<and> fail_closed r' \<and>
     (if expired_holder ''ollama'' 70000 (hd (leases sample_table)) then due_for_probe ''ollama'' 70000 r'
      else r' = hd (leases sample_table))"
proof (rule fail_closed_never_freed [OF sample_claims(2) sample_table_ok(1,2)])
  show "hd (leases sample_table) \<in> set (leases sample_table)" "l_state (hd (leases sample_table)) = Holding"
    "fail_closed (hd (leases sample_table))" by code_simp+
qed



text \<open>Waiting for a slot is bounded. A turn of the acquire loop never sleeps past the maximum wait, and a run that gets to
  a turn at or after the maximum wait returns (a slot or an error) unless that turn's own probe has just freed a slot.\<close>

theorem acquire_wait_bounded:
  assumes "ob \<in> set obs" and "maxWaitMs \<le> o_waited ob" and "o_probe ob \<noteq> Some Released"
  shows "(\<exists>a. acquire_run cfg capacity maxWaitMs obs st = Some a \<and> leaves a) \<and>
    (\<forall>ob' st' d. fst (acquire_turn cfg capacity maxWaitMs ob' st') = Sleep d \<longrightarrow>
       0 \<le> d \<and> d \<le> max 0 (pollMs cfg) \<and> o_waited ob' + d \<le> maxWaitMs)"
  using acquire_run_returns [OF assms] turn_sleep by blast

definition sample_obs :: turn_obs where
  "sample_obs = \<lparr>o_aborted = False, o_claim = None, o_claimedAt = 5, o_probe = None, o_onWaiting = True, o_notifyAt = 6, o_waited = 70\<rparr>"

theorem acquire_wait_bounded_witness:
  "\<exists>a. acquire_run SCHEDULER_DEFAULTS 1 50 [sample_obs] loop_start = Some a \<and> leaves a"
  using acquire_wait_bounded [of sample_obs "[sample_obs]" 50 SCHEDULER_DEFAULTS 1 loop_start] by (simp add: sample_obs_def)

end
