(* ===== verification/AiSchedulerSystem.thy ===== *)
theory AiSchedulerSystem
  imports AiScheduler
begin

text \<open>
  The processes around the lease table of \<open>AiScheduler\<close>: the closure that \<open>startHolding\<close> returns
  (\<open>inferenceScheduler.js\<close>) with its heartbeat timer, and a system of many holders, claims in flight and renewals in flight
  over one table and one clock. Timers may be late by at most \<open>late\<close>, the reply of a granted claim comes at most \<open>lat\<close>
  after the start of its transaction; renewals may take any time, fail or be lost, and processes may crash at any moment.
  Shown: under those two bounds at most \<open>capacity\<close> requests believe at any time that they hold a slot of a key; and without the
  bound on the claim's reply they can be two on a key of capacity one.
\<close>

section \<open>A holder\<close>

datatype renewal = NotRenewing | RenewSent int | RenewDone int bool

record holder =
  h_key :: string
  h_released :: bool
  h_lost :: bool
  h_quarantined :: bool
  lastConfirmedAt :: int
  nextTick :: int
  renewing :: renewal

definition startHolding :: "scheduler_cfg \<Rightarrow> int \<Rightarrow> string \<Rightarrow> holder" where
  "startHolding cfg now key =
     \<lparr>h_key = key, h_released = False, h_lost = False, h_quarantined = False, lastConfirmedAt = now,
      nextTick = now + heartbeatMs cfg, renewing = NotRenewing\<rparr>"

definition markLost :: "holder \<Rightarrow> holder" where
  "markLost h = (if h_lost h \<or> h_released h then h else h\<lparr>h_lost := True\<rparr>)"

text \<open>The timer callback up to the query: when it gets there, \<open>renewing\<close> says that the renewal is under way.\<close>

definition timer_tick :: "scheduler_cfg \<Rightarrow> int \<Rightarrow> holder \<Rightarrow> holder" where
  "timer_tick cfg now h0 =
     (let h = h0\<lparr>nextTick := now + heartbeatMs cfg\<rparr>
      in if h_released h \<or> h_lost h \<or> h_quarantined h then h
         else if now - lastConfirmedAt h \<ge> lossDeadlineMs cfg then markLost h
         else if renewing h \<noteq> NotRenewing then h
         else h\<lparr>renewing := RenewSent now\<rparr>)"

text \<open>The callback after the query: the reply says whether a row changed.\<close>

definition renew_reply :: "int \<Rightarrow> bool \<Rightarrow> holder \<Rightarrow> holder" where
  "renew_reply sentAt changed h =
     (if h_released h \<or> h_lost h then h
      else if \<not> changed then markLost h
      else h\<lparr>lastConfirmedAt := sentAt\<rparr>)\<lparr>renewing := NotRenewing\<rparr>"

definition renew_error :: "holder \<Rightarrow> holder" where
  "renew_error h = h\<lparr>renewing := NotRenewing\<rparr>"

text \<open>The synchronous parts of \<open>quarantine\<close> and \<open>release\<close>; their statements run later.\<close>

definition begin_quarantine :: "holder \<Rightarrow> holder" where
  "begin_quarantine h = (if h_released h \<or> h_quarantined h then h else h\<lparr>h_quarantined := True\<rparr>)"

definition begin_release :: "holder \<Rightarrow> holder" where
  "begin_release h = h\<lparr>h_released := True\<rparr>"

definition believes :: "holder \<Rightarrow> bool" where
  "believes h \<longleftrightarrow> \<not> h_released h \<and> \<not> h_lost h \<and> \<not> h_quarantined h"

section \<open>The system\<close>

text \<open>A request that was granted a slot: its claim's reply is still on the way (with the start of the transaction), or it has
  its holder object.\<close>

datatype proc = Claimed string int | Holder holder

record sys =
  sys_now :: int
  sys_db :: lease_table
  procs :: "nat \<rightharpoonup> proc"

fun due :: "int \<Rightarrow> int \<Rightarrow> proc \<Rightarrow> int option" where
  "due lat late (Claimed key t0) = Some (t0 + lat)"
| "due lat late (Holder h) = (if believes h then Some (nextTick h + late) else None)"

fun holds_slot :: "string \<Rightarrow> proc \<Rightarrow> bool" where
  "holds_slot key (Claimed k t0) = (k = key)"
| "holds_slot key (Holder h) = (believes h \<and> h_key h = key)"

definition no_holder :: "nat \<Rightarrow> sys \<Rightarrow> bool" where
  "no_holder tok s \<longleftrightarrow> (case procs s tok of None \<Rightarrow> True | Some (Claimed _ _) \<Rightarrow> False | Some (Holder h) \<Rightarrow> \<not> believes h)"

definition after_claim :: "nat \<Rightarrow> string \<Rightarrow> int \<Rightarrow> claim_view \<Rightarrow> lease_table \<Rightarrow> sys \<Rightarrow> sys" where
  "after_claim tok key t0 v db s =
     s\<lparr>sys_db := db, procs := (if v_acquired v then (procs s)(tok \<mapsto> Claimed key t0) else procs s)\<rparr>"

inductive sys_step :: "scheduler_cfg \<Rightarrow> (string \<Rightarrow> nat) \<Rightarrow> int \<Rightarrow> int \<Rightarrow> sys \<Rightarrow> sys \<Rightarrow> bool" for cfg cap lat late where
  advance: "sys_now s \<le> t \<Longrightarrow> (\<And>tok p d. procs s tok = Some p \<Longrightarrow> due lat late p = Some d \<Longrightarrow> t \<le> d) \<Longrightarrow>
    sys_step cfg cap lat late s (s\<lparr>sys_now := t\<rparr>)"
| joins: "procs s tok = None \<Longrightarrow> insertWaiter cfg (sys_now s) tok key meta (sys_db s) = Inr (i, db) \<Longrightarrow>
    sys_step cfg cap lat late s (s\<lparr>sys_db := db\<rparr>)"
| claims: "procs s tok = None \<Longrightarrow> on_key tok key (sys_db s) \<Longrightarrow> t0 \<le> sys_now s \<Longrightarrow>
    tryClaim cfg t0 tok key (cap key) meta (sys_db s) = Inr (v, db) \<Longrightarrow> (v_acquired v \<Longrightarrow> sys_now s \<le> t0 + lat) \<Longrightarrow>
    sys_step cfg cap lat late s (after_claim tok key t0 v db s)"
| claim_reply: "procs s tok = Some (Claimed key t0) \<Longrightarrow>
    sys_step cfg cap lat late s (s\<lparr>procs := (procs s)(tok \<mapsto> Holder (startHolding cfg (sys_now s) key))\<rparr>)"
| gone: "sys_step cfg cap lat late s (s\<lparr>procs := (procs s)(tok := None)\<rparr>)"
| ticks: "procs s tok = Some (Holder h) \<Longrightarrow> nextTick h \<le> sys_now s \<Longrightarrow>
    sys_step cfg cap lat late s (s\<lparr>procs := (procs s)(tok \<mapsto> Holder (timer_tick cfg (sys_now s) h))\<rparr>)"
| renewal_runs: "procs s tok = Some (Holder h) \<Longrightarrow> renewing h = RenewSent t \<Longrightarrow>
    renew cfg (sys_now s) tok (sys_db s) = (changed, db) \<Longrightarrow>
    sys_step cfg cap lat late s (s\<lparr>sys_db := db, procs := (procs s)(tok \<mapsto> Holder (h\<lparr>renewing := RenewDone t changed\<rparr>))\<rparr>)"
| renewal_replies: "procs s tok = Some (Holder h) \<Longrightarrow> renewing h = RenewDone t changed \<Longrightarrow>
    sys_step cfg cap lat late s (s\<lparr>procs := (procs s)(tok \<mapsto> Holder (renew_reply t changed h))\<rparr>)"
| renewal_fails: "procs s tok = Some (Holder h) \<Longrightarrow>
    sys_step cfg cap lat late s (s\<lparr>procs := (procs s)(tok \<mapsto> Holder (renew_error h))\<rparr>)"
| stray_renewal: "sys_step cfg cap lat late s (s\<lparr>sys_db := snd (renew cfg (sys_now s) tok (sys_db s))\<rparr>)"
| quarantine_begins: "procs s tok = Some (Holder h) \<Longrightarrow>
    sys_step cfg cap lat late s (s\<lparr>procs := (procs s)(tok \<mapsto> Holder (begin_quarantine h))\<rparr>)"
| quarantine_runs: "no_holder tok s \<Longrightarrow> (\<And>r. r \<in> set (leases (sys_db s)) \<Longrightarrow> l_token r = tok \<Longrightarrow> l_state r = Holding) \<Longrightarrow>
    sys_step cfg cap lat late s (s\<lparr>sys_db := quarantine (sys_now s) holdMs tok key owner rep (sys_db s)\<rparr>)"
| release_begins: "procs s tok = Some (Holder h) \<Longrightarrow>
    sys_step cfg cap lat late s (s\<lparr>procs := (procs s)(tok \<mapsto> Holder (begin_release h))\<rparr>)"
| delete_runs: "no_holder tok s \<Longrightarrow> sys_step cfg cap lat late s (s\<lparr>sys_db := deleteLease tok (sys_db s)\<rparr>)"
| keep_alive: "sys_step cfg cap lat late s (s\<lparr>sys_db := (sys_db s)\<lparr>leases := keepAlive cfg (sys_now s) tok (leases (sys_db s))\<rparr>\<rparr>)"
| probe: "sys_step cfg cap lat late s (s\<lparr>sys_db := snd (verifyClaim cfg (sys_now s) key (sys_db s))\<rparr>)"
| probe_idle: "sys_step cfg cap lat late s (s\<lparr>sys_db := verifyDelete tok (sys_db s)\<rparr>)"
| admin: "sys_step cfg cap lat late s (s\<lparr>sys_db := snd (releaseQuarantined key (sys_db s))\<rparr>)"

inductive_cases sys_stepE: "sys_step cfg cap lat late s s'"

definition sys_start :: "sys \<Rightarrow> bool" where
  "sys_start s \<longleftrightarrow> sys_db s = empty_table \<and> procs s = Map.empty"

text \<open>The timing under which the safety argument of the source holds.\<close>

definition timing_ok :: "scheduler_cfg \<Rightarrow> int \<Rightarrow> int \<Rightarrow> bool" where
  "timing_ok cfg lat late \<longleftrightarrow>
     0 < heartbeatMs cfg \<and> 3 * heartbeatMs cfg \<le> holdLeaseMs cfg \<and> 0 \<le> lat \<and> 0 \<le> late \<and> lat + late \<le> heartbeatMs cfg"

section \<open>Statements keep the rows of other holders\<close>

text \<open>The token has an active row on the key that does not expire before \<open>e\<close>.\<close>

definition held :: "nat \<Rightarrow> string \<Rightarrow> int \<Rightarrow> lease_table \<Rightarrow> bool" where
  "held tok key e db \<longleftrightarrow> (\<exists>r \<in> set (leases db). l_token r = tok \<and> active_on key r \<and> e \<le> lease_expires_at r)"

lemma held_mono: "held tok key e db \<Longrightarrow> e' \<le> e \<Longrightarrow> held tok key e' db"
  by (force simp: held_def)

lemma held_map:
  assumes "held tok key e db"
    and "\<And>r. l_token r = tok \<Longrightarrow> active_on key r \<Longrightarrow> e \<le> lease_expires_at r \<Longrightarrow>
      l_token (f r) = tok \<and> active_on key (f r) \<and> e \<le> lease_expires_at (f r)"
  shows "held tok key e (db\<lparr>leases := map f (leases db)\<rparr>)"
  using assms unfolding held_def by auto

lemma held_filter:
  assumes "held tok key e db" and "\<And>r. l_token r = tok \<Longrightarrow> active_on key r \<Longrightarrow> P r"
  shows "held tok key e (db\<lparr>leases := filter P (leases db)\<rparr>)"
  using assms unfolding held_def by auto

lemma held_insert: "insert_row mk db = Inr (i, db') \<Longrightarrow> held tok key e db \<Longrightarrow> held tok key e db'"
  by (erule insert_rowE) (auto simp: held_def)

lemma held_insertWaiter: "insertWaiter cfg now tok' key' meta db = Inr (i, db') \<Longrightarrow> held tok key e db \<Longrightarrow> held tok key e db'"
  unfolding insertWaiter_def by (rule held_insert)

lemma held_keepAlive: "held tok key e db \<Longrightarrow> held tok key e (db\<lparr>leases := keepAlive cfg now tok' (leases db)\<rparr>)"
  unfolding keepAlive_def by (erule held_map) (auto simp: is_waiting_def active_on_def holding_on_def)

lemma held_renew: "held tok key e db \<Longrightarrow> e \<le> now + holdLeaseMs cfg \<Longrightarrow> held tok key e (snd (renew cfg now tok' db))"
  unfolding renew_def snd_conv by (erule held_map) (auto simp: renewable_def active_on_def holding_on_def)

lemma held_after_renew: "held tok key e db \<Longrightarrow> held tok key (now + holdLeaseMs cfg) (snd (renew cfg now tok db))"
proof -
  assume "held tok key e db"
  then obtain r where r: "r \<in> set (leases db)" "l_token r = tok" "active_on key r" by (auto simp: held_def)
  then have "renewable tok r" by (simp add: renewable_def active_on_def holding_on_def)
  then show ?thesis unfolding held_def renew_def snd_conv
    by (intro bexI [of _ "r\<lparr>lease_expires_at := now + holdLeaseMs cfg\<rparr>"])
      (use r in \<open>auto simp: active_on_def holding_on_def intro!: image_eqI [of _ _ r]\<close>)
qed

lemma held_delete: "held tok key e db \<Longrightarrow> tok' \<noteq> tok \<Longrightarrow> held tok key e (deleteLease tok' db)"
  unfolding deleteLease_def by (erule held_filter) auto

lemma held_verifyDelete: "held tok key e db \<Longrightarrow> held tok key e (verifyDelete tok' db)"
  unfolding verifyDelete_def by (erule held_filter) (auto simp: active_on_def)

lemma held_admin: "held tok key e db \<Longrightarrow> held tok key e (snd (releaseQuarantined key' db))"
  unfolding releaseQuarantined_def snd_conv by (erule held_filter) (auto simp: active_on_def quarantined_on_def)

lemma held_verifyClaim: "held tok key e db \<Longrightarrow> held tok key e (snd (verifyClaim cfg now key' db))"
proof (cases "find (due_for_probe key' now) (leases db)")
  case (Some r)
  assume "held tok key e db"
  then show ?thesis unfolding verifyClaim_def Some option.case snd_conv
    by (rule held_map) (auto simp: active_on_def holding_on_def)
qed (simp add: verifyClaim_def)

lemma held_quarantine: "held tok key e db \<Longrightarrow> tok' \<noteq> tok \<Longrightarrow> held tok key e (quarantine now h tok' key' owner rep db)"
proof (cases "list_ex (\<lambda>r. l_token r = tok') (leases db)")
  case True
  assume "held tok key e db" "tok' \<noteq> tok"
  then show ?thesis unfolding quarantine_def Let_def if_P [OF True] by (elim held_map) auto
next
  case False
  assume "held tok key e db"
  then show ?thesis using False by (auto simp: quarantine_def Let_def intro: held_insert split: sum.split)
qed

lemma held_tryClaim:
  assumes "tryClaim cfg t0 tok' key' capacity meta db = Inr (v, db')" "table_ok db" "on_key tok' key' db"
    and "held tok key e db" "t0 \<le> e"
  shows "held tok key e db'"
proof -
  obtain r where r: "r \<in> set (leases db)" "l_token r = tok" "active_on key r" "e \<le> lease_expires_at r"
    using assms(4) by (auto simp: held_def)
  have "\<not> expired_waiter key' t0 r" "\<not> expired_holder key' t0 r"
    using r(3,4) assms(5) by (auto simp: expired_waiter_def expired_holder_def active_on_def holding_on_def)
  then have "r \<in> set (housekeeping key' t0 (leases db))"
    using r(1) by (auto simp: housekeeping_filter_map quarantine_expired_def intro!: image_eqI [of _ _ r])
  then have "r \<in> set (leases db')" using tryClaim_keeps_holding [OF assms(1-3)] r(3) by (simp add: active_on_def holding_on_def)
  then show ?thesis using r by (auto simp: held_def)
qed

section \<open>Waiting rows are not quarantined\<close>

definition waiting_clean :: "lease_table \<Rightarrow> bool" where
  "waiting_clean db \<longleftrightarrow> (\<forall>r \<in> set (leases db). l_state r = Waiting \<longrightarrow> quarantined_at r = None)"

lemma waiting_clean_map:
  assumes "waiting_clean db"
    and "\<And>r. r \<in> set (leases db) \<Longrightarrow> l_state (f r) = Waiting \<Longrightarrow>
      l_state r = Waiting \<and> (quarantined_at r = None \<longrightarrow> quarantined_at (f r) = None)"
  shows "waiting_clean (db\<lparr>leases := map f (leases db)\<rparr>)"
  using assms unfolding waiting_clean_def by auto

lemma waiting_clean_filter [simp]: "waiting_clean db \<Longrightarrow> waiting_clean (db\<lparr>leases := filter P (leases db)\<rparr>)"
  by (simp add: waiting_clean_def)

lemma waiting_clean_insert:
  "insert_row mk db = Inr (i, db') \<Longrightarrow> (\<And>j. l_state (mk j) = Waiting \<Longrightarrow> quarantined_at (mk j) = None) \<Longrightarrow> waiting_clean db \<Longrightarrow>
   waiting_clean db'"
  by (erule insert_rowE) (auto simp: waiting_clean_def)

lemma waiter_row_clean [simp]: "quarantined_at (waiter_row cfg now tok key meta i) = None"
  by (simp add: waiter_row_def)

lemma waiting_clean_insertWaiter: "insertWaiter cfg now tok key meta db = Inr (i, db') \<Longrightarrow> waiting_clean db \<Longrightarrow> waiting_clean db'"
  unfolding insertWaiter_def by (erule waiting_clean_insert) simp_all

lemma waiting_clean_keepAlive: "waiting_clean db \<Longrightarrow> waiting_clean (db\<lparr>leases := keepAlive cfg now tok (leases db)\<rparr>)"
  unfolding keepAlive_def by (erule waiting_clean_map) (auto split: if_splits)

lemma waiting_clean_renew: "waiting_clean db \<Longrightarrow> waiting_clean (snd (renew cfg now tok db))"
  unfolding renew_def snd_conv by (erule waiting_clean_map) (auto split: if_splits)

lemma waiting_clean_verifyClaim: "waiting_clean db \<Longrightarrow> waiting_clean (snd (verifyClaim cfg now key db))"
proof (cases "find (due_for_probe key now) (leases db)")
  case (Some r)
  assume "waiting_clean db"
  then show ?thesis unfolding verifyClaim_def Some option.case snd_conv by (rule waiting_clean_map) (auto split: if_splits)
qed (simp add: verifyClaim_def)

lemma waiting_clean_quarantine:
  assumes "waiting_clean db" "\<And>r. r \<in> set (leases db) \<Longrightarrow> l_token r = tok \<Longrightarrow> l_state r = Holding"
  shows "waiting_clean (quarantine now h tok key owner rep db)"
proof (cases "list_ex (\<lambda>r. l_token r = tok) (leases db)")
  case True
  show ?thesis unfolding quarantine_def Let_def if_P [OF True]
    by (rule waiting_clean_map [OF assms(1)]) (use assms(2) in \<open>auto split: if_splits\<close>)
next
  case False
  then show ?thesis using assms(1) by (auto simp: quarantine_def Let_def intro: waiting_clean_insert split: sum.split)
qed

lemma waiting_clean_housekeeping: "waiting_clean db \<Longrightarrow> waiting_clean (db\<lparr>leases := housekeeping key now (leases db)\<rparr>)"
  by (auto simp: waiting_clean_def housekeeping_filter_map quarantine_expired_def expired_holder_def)

lemma waiting_clean_refresh:
  assumes "refresh_waiter cfg now tok key meta db = Inr (i, q, db1)" "waiting_clean db"
  shows "waiting_clean db1"
proof (cases "find (is_waiting tok) (leases db)")
  case None
  then have "insert_row (waiter_row cfg now tok key meta) db = Inr (i, db1)"
    using assms(1) by (auto simp: refresh_waiter_def split: sum.splits prod.splits)
  then show ?thesis by (rule waiting_clean_insert) (simp_all add: assms(2))
next
  case (Some x)
  then have "db1 = db\<lparr>leases := keepAlive cfg now tok (leases db)\<rparr>" using assms(1) by (auto simp: refresh_waiter_def)
  then show ?thesis using waiting_clean_keepAlive assms(2) by simp
qed

text \<open>A granted claim gives the token an active row for the whole hold lease, counted from the transaction's start.\<close>

lemma tryClaim_clean_and_held:
  assumes "tryClaim cfg t0 tok key capacity meta db = Inr (v, db')" "table_ok db" "on_key tok key db" "waiting_clean db"
  shows "waiting_clean db' \<and> (v_acquired v \<longrightarrow> held tok key (t0 + holdLeaseMs cfg) db')"
  using assms(1)
proof (cases rule: tryClaimE)
  case (1 i q db1)
  have c: "waiting_clean db1" using waiting_clean_refresh [OF 1(1)] waiting_clean_housekeeping assms(4) by blast
  note ref = refresh_waiter_refines [OF 1(1) table_ok_housekeeping [OF assms(2)] on_key_housekeeping [OF assms(3)]]
  then obtain r where r: "r \<in> set (leases db1)" "l_token r = tok" "waiting_on key r" by blast
  have "waiting_clean (db1\<lparr>leases := map (grant cfg t0 tok) (leases db1)\<rparr>)"
    by (rule waiting_clean_map [OF c]) (auto simp: grant_def split: if_splits)
  moreover have "held tok key (t0 + holdLeaseMs cfg) (db1\<lparr>leases := map (grant cfg t0 tok) (leases db1)\<rparr>)"
    unfolding held_def
    by (rule bexI [of _ "grant cfg t0 tok r"])
      (use r c in \<open>auto simp: grant_def active_on_def holding_on_def waiting_on_def waiting_clean_def\<close>)
  ultimately show ?thesis using 1(3) c by simp
qed

section \<open>The invariant of the system\<close>

definition renewal_ok :: "scheduler_cfg \<Rightarrow> nat \<Rightarrow> int \<Rightarrow> lease_table \<Rightarrow> holder \<Rightarrow> bool" where
  "renewal_ok cfg tok now db h \<longleftrightarrow>
     (case renewing h of
        NotRenewing \<Rightarrow> True
      | RenewSent t \<Rightarrow> lastConfirmedAt h \<le> t \<and> t \<le> now
      | RenewDone t changed \<Rightarrow> lastConfirmedAt h \<le> t \<and> t \<le> now \<and> (changed \<longrightarrow> held tok (h_key h) (t + holdLeaseMs cfg) db))"

definition holder_ok :: "scheduler_cfg \<Rightarrow> int \<Rightarrow> int \<Rightarrow> nat \<Rightarrow> int \<Rightarrow> lease_table \<Rightarrow> holder \<Rightarrow> bool" where
  "holder_ok cfg lat late tok now db h \<longleftrightarrow>
     held tok (h_key h) (lastConfirmedAt h + holdLeaseMs cfg - lat) db \<and> lastConfirmedAt h \<le> now \<and>
     nextTick h \<le> lastConfirmedAt h + lossDeadlineMs cfg + heartbeatMs cfg \<and> now \<le> nextTick h + late \<and>
     renewal_ok cfg tok now db h"

fun proc_ok :: "scheduler_cfg \<Rightarrow> int \<Rightarrow> int \<Rightarrow> nat \<Rightarrow> int \<Rightarrow> lease_table \<Rightarrow> proc \<Rightarrow> bool" where
  "proc_ok cfg lat late tok now db (Claimed key t0) =
     (held tok key (t0 + holdLeaseMs cfg) db \<and> t0 \<le> now \<and> now \<le> t0 + lat)"
| "proc_ok cfg lat late tok now db (Holder h) = (believes h \<longrightarrow> holder_ok cfg lat late tok now db h)"

definition sys_inv :: "scheduler_cfg \<Rightarrow> (string \<Rightarrow> nat) \<Rightarrow> int \<Rightarrow> int \<Rightarrow> sys \<Rightarrow> bool" where
  "sys_inv cfg cap lat late s \<longleftrightarrow>
     scheduler_inv cap (sys_db s) \<and> waiting_clean (sys_db s) \<and>
     (\<forall>tok p. procs s tok = Some p \<longrightarrow> proc_ok cfg lat late tok (sys_now s) (sys_db s) p)"

lemma lossDeadline_eq: "timing_ok cfg lat late \<Longrightarrow> lossDeadlineMs cfg = holdLeaseMs cfg - 2 * heartbeatMs cfg"
  by (simp add: timing_ok_def lossDeadlineMs_def)

text \<open>The heart of the argument: a believing holder gives up before its row can expire.\<close>

lemma holder_row_lives:
  "timing_ok cfg lat late \<Longrightarrow> holder_ok cfg lat late tok now db h \<Longrightarrow> now \<le> lastConfirmedAt h + holdLeaseMs cfg - lat"
  using lossDeadline_eq [of cfg lat late] by (simp add: holder_ok_def timing_ok_def)

lemma proc_ok_db:
  assumes t: "timing_ok cfg lat late" and p: "proc_ok cfg lat late tok now db p"
    and db: "\<And>key e. held tok key e db \<Longrightarrow> now \<le> e \<Longrightarrow> e \<le> now + holdLeaseMs cfg \<Longrightarrow> held tok key e db'"
  shows "proc_ok cfg lat late tok now db' p"
proof (cases p)
  case (Claimed key t0)
  then show ?thesis using p t db [of key "t0 + holdLeaseMs cfg"] by (simp add: timing_ok_def)
next
  case (Holder h)
  show ?thesis
  proof (cases "believes h")
    case True
    then have h: "holder_ok cfg lat late tok now db h" using p Holder by simp
    note lives = holder_row_lives [OF t h]
    have "held tok (h_key h) (lastConfirmedAt h + holdLeaseMs cfg - lat) db'"
      using h lives t by (intro db) (auto simp: holder_ok_def timing_ok_def)
    moreover have "renewal_ok cfg tok now db' h"
      using h lives t db by (auto simp: holder_ok_def renewal_ok_def timing_ok_def split: renewal.splits)
    ultimately show ?thesis using h Holder by (simp add: holder_ok_def)
  qed (simp add: Holder)
qed

lemma sys_inv_db:
  assumes "timing_ok cfg lat late" "sys_inv cfg cap lat late s" "scheduler_inv cap db" "waiting_clean db"
    and "\<And>tok p key e. procs s tok = Some p \<Longrightarrow> \<not> no_holder tok s \<Longrightarrow> held tok key e (sys_db s) \<Longrightarrow> sys_now s \<le> e \<Longrightarrow>
      e \<le> sys_now s + holdLeaseMs cfg \<Longrightarrow> held tok key e db"
  shows "sys_inv cfg cap lat late (s\<lparr>sys_db := db\<rparr>)"
proof -
  have "proc_ok cfg lat late tok (sys_now s) db p" if p: "procs s tok = Some p" for tok p
  proof (cases "no_holder tok s")
    case True
    then show ?thesis using p by (cases p) (simp_all add: no_holder_def)
  next
    case False
    have "proc_ok cfg lat late tok (sys_now s) (sys_db s) p" using assms(2) p unfolding sys_inv_def by blast
    then show ?thesis by (rule proc_ok_db [OF assms(1)]) (rule assms(5) [OF p False])
  qed
  then show ?thesis using assms(3,4) by (simp add: sys_inv_def)
qed

lemma sys_inv_proc:
  assumes "sys_inv cfg cap lat late s" "proc_ok cfg lat late tok (sys_now s) (sys_db s) p"
  shows "sys_inv cfg cap lat late (s\<lparr>procs := (procs s)(tok \<mapsto> p)\<rparr>)"
  using assms by (simp add: sys_inv_def)

lemma sys_inv_holderD:
  "sys_inv cfg cap lat late s \<Longrightarrow> procs s tok = Some (Holder h) \<Longrightarrow> believes h \<Longrightarrow>
   holder_ok cfg lat late tok (sys_now s) (sys_db s) h"
  using proc_ok.simps(2) unfolding sys_inv_def by blast

lemma holder_ok_start:
  assumes "timing_ok cfg lat late" "proc_ok cfg lat late tok now db (Claimed key t0)"
  shows "holder_ok cfg lat late tok now db (startHolding cfg now key)"
  using assms lossDeadline_eq [OF assms(1)]
  by (auto simp: holder_ok_def startHolding_def renewal_ok_def timing_ok_def elim: held_mono)

lemma holder_ok_tick:
  assumes "timing_ok cfg lat late" "holder_ok cfg lat late tok now db h" "believes (timer_tick cfg now h)"
  shows "holder_ok cfg lat late tok now db (timer_tick cfg now h)"
  using assms
  by (auto simp: holder_ok_def timer_tick_def believes_def markLost_def renewal_ok_def timing_ok_def Let_def split: if_splits renewal.splits)

lemma tick_believes: "believes (timer_tick cfg now h) \<Longrightarrow> believes h"
  by (auto simp: timer_tick_def believes_def markLost_def Let_def split: if_splits)

lemma holder_ok_reply:
  assumes "timing_ok cfg lat late" "holder_ok cfg lat late tok now db h" "renewing h = RenewDone t changed"
    "believes (renew_reply t changed h)"
  shows "holder_ok cfg lat late tok now db (renew_reply t changed h)"
  using assms
  by (auto simp: holder_ok_def renew_reply_def believes_def markLost_def renewal_ok_def timing_ok_def split: if_splits elim: held_mono)

lemma reply_believes: "believes (renew_reply t changed h) \<Longrightarrow> believes h"
  by (auto simp: renew_reply_def believes_def markLost_def split: if_splits)

lemma holder_ok_error: "holder_ok cfg lat late tok now db h \<Longrightarrow> holder_ok cfg lat late tok now db (renew_error h)"
  by (simp add: holder_ok_def renew_error_def renewal_ok_def)

lemma error_believes: "believes (renew_error h) = believes h"
  by (simp add: renew_error_def believes_def)

lemma holder_ok_renewed:
  assumes "timing_ok cfg lat late" "holder_ok cfg lat late tok now db h" "renewing h = RenewSent t"
    and "renew cfg now tok db = (changed, db')"
  shows "holder_ok cfg lat late tok now db' (h\<lparr>renewing := RenewDone t changed\<rparr>)"
proof -
  have db': "db' = snd (renew cfg now tok db)" using assms(4) by simp
  have k: "held tok (h_key h) (lastConfirmedAt h + holdLeaseMs cfg - lat) db" using assms(2) by (simp add: holder_ok_def)
  have "held tok (h_key h) (now + holdLeaseMs cfg) db'" unfolding db' by (rule held_after_renew [OF k])
  then show ?thesis using assms(1-3) by (auto simp: holder_ok_def renewal_ok_def timing_ok_def elim: held_mono)
qed

lemma gives_up [simp]: "\<not> believes (begin_quarantine h)" "\<not> believes (begin_release h)"
  by (auto simp: begin_quarantine_def begin_release_def believes_def)

lemma proc_ok_advance:
  assumes "proc_ok cfg lat late tok now db p" "now \<le> t" "\<And>d. due lat late p = Some d \<Longrightarrow> t \<le> d"
  shows "proc_ok cfg lat late tok t db p"
  using assms
  by (cases p) (auto simp: holder_ok_def renewal_ok_def split: renewal.splits)

lemma scheduler_inv_lease_step: "lease_step cfg cap db db' \<Longrightarrow> scheduler_inv cap db \<Longrightarrow> scheduler_inv cap db'"
  by (rule scheduler_inv_step)

lemma sys_inv_claim:
  assumes t: "timing_ok cfg lat late" and inv: "sys_inv cfg cap lat late s"
    and c: "on_key tok key (sys_db s)" "t0 \<le> sys_now s" "tryClaim cfg t0 tok key (cap key) meta (sys_db s) = Inr (v, db)"
      "v_acquired v \<Longrightarrow> sys_now s \<le> t0 + lat"
  shows "sys_inv cfg cap lat late (after_claim tok key t0 v db s)"
proof -
  have ok: "table_ok (sys_db s)" "waiting_clean (sys_db s)" "scheduler_inv cap (sys_db s)"
    using inv by (auto simp: sys_inv_def scheduler_inv_def)
  note cl = tryClaim_clean_and_held [OF c(3) ok(1) c(1) ok(2)]
  have base: "sys_inv cfg cap lat late (s\<lparr>sys_db := db\<rparr>)"
  proof (rule sys_inv_db [OF t inv])
    show "scheduler_inv cap db" by (rule scheduler_inv_step [OF ok(3)]) (rule lease_step.claims [where cap = cap, OF c(1,3)])
    show "waiting_clean db" using cl by blast
    show "held k' key' e db" if "held k' key' e (sys_db s)" "sys_now s \<le> e" for k' key' e
      using held_tryClaim [OF c(3) ok(1) c(1) that(1)] that(2) c(2) by simp
  qed
  show ?thesis
  proof (cases "v_acquired v")
    case True
    then have "proc_ok cfg lat late tok (sys_now s) db (Claimed key t0)" using cl c by simp
    then show ?thesis using sys_inv_proc [OF base, of tok "Claimed key t0"] True by (simp add: after_claim_def)
  qed (use base in \<open>simp add: after_claim_def\<close>)
qed

lemma sys_inv_step:
  assumes t: "timing_ok cfg lat late" and inv: "sys_inv cfg cap lat late s" and step: "sys_step cfg cap lat late s s'"
  shows "sys_inv cfg cap lat late s'"
proof -
  have ok: "waiting_clean (sys_db s)" "scheduler_inv cap (sys_db s)" using inv by (auto simp: sys_inv_def)
  note by_db = sys_inv_db [OF t inv scheduler_inv_step [OF ok(2)]]
  show ?thesis using step
  proof cases
    case (advance t)
    then show ?thesis using inv proc_ok_advance unfolding sys_inv_def by fastforce
  next
    case (joins tok key meta i db)
    show ?thesis unfolding joins(1)
      by (rule by_db [OF lease_step.joins [OF joins(3)] waiting_clean_insertWaiter [OF joins(3) ok(1)]])
        (rule held_insertWaiter [OF joins(3)])
  next
    case (claims tok key t0 meta v db)
    show ?thesis unfolding claims(1) by (rule sys_inv_claim [OF t inv claims(3-5)]) (rule claims(6))
  next
    case (claim_reply tok key t0)
    then have "proc_ok cfg lat late tok (sys_now s) (sys_db s) (Claimed key t0)" using inv unfolding sys_inv_def by blast
    then show ?thesis unfolding claim_reply(1) using holder_ok_start [OF t] by (intro sys_inv_proc [OF inv]) simp
  next
    case (gone tok)
    then show ?thesis using inv by (simp add: sys_inv_def)
  next
    case (ticks tok h)
    then show ?thesis using holder_ok_tick [OF t sys_inv_holderD [OF inv ticks(2)]] tick_believes
      by (auto intro!: sys_inv_proc [OF inv])
  next
    case (renewal_runs tok h r changed db)
    have db: "db = snd (renew cfg (sys_now s) tok (sys_db s))" using renewal_runs(4) by simp
    have "sys_inv cfg cap lat late (s\<lparr>sys_db := db\<rparr>)" unfolding db
      by (rule by_db [OF lease_step.renews waiting_clean_renew [OF ok(1)]]) (rule held_renew)
    moreover have "proc_ok cfg lat late tok (sys_now s) db (Holder (h\<lparr>renewing := RenewDone r changed\<rparr>))"
      using holder_ok_renewed [OF t sys_inv_holderD [OF inv renewal_runs(2)] renewal_runs(3,4)] by (simp add: believes_def)
    ultimately show ?thesis unfolding renewal_runs(1) using sys_inv_proc [of cfg cap lat late "s\<lparr>sys_db := db\<rparr>" tok] by simp
  next
    case (renewal_replies tok h r changed)
    then show ?thesis using holder_ok_reply [OF t sys_inv_holderD [OF inv renewal_replies(2)] renewal_replies(3)] reply_believes
      by (auto intro!: sys_inv_proc [OF inv])
  next
    case (renewal_fails tok h)
    have "proc_ok cfg lat late tok (sys_now s) (sys_db s) (Holder (renew_error h))"
      using holder_ok_error [OF sys_inv_holderD [OF inv renewal_fails(2)]] by (simp add: error_believes)
    then show ?thesis unfolding renewal_fails(1) by (rule sys_inv_proc [OF inv])
  next
    case (stray_renewal tok)
    show ?thesis unfolding stray_renewal
      by (rule by_db [OF lease_step.renews waiting_clean_renew [OF ok(1)]]) (rule held_renew)
  next
    case (quarantine_begins tok h)
    show ?thesis unfolding quarantine_begins(1) by (rule sys_inv_proc [OF inv]) simp
  next
    case (quarantine_runs tok holdMs key owner rep)
    have "waiting_clean (quarantine (sys_now s) holdMs tok key owner rep (sys_db s))"
      by (rule waiting_clean_quarantine [OF ok(1)]) (rule quarantine_runs(3))
    moreover have "tok \<noteq> tok'" if "\<not> no_holder tok' s" for tok' using that quarantine_runs(2) by blast
    ultimately show ?thesis unfolding quarantine_runs(1) by (intro by_db [OF lease_step.quarantines] held_quarantine)
  next
    case (release_begins tok h)
    show ?thesis unfolding release_begins(1) by (rule sys_inv_proc [OF inv]) simp
  next
    case (delete_runs tok)
    have "waiting_clean (deleteLease tok (sys_db s))" using ok(1) by (simp add: deleteLease_def)
    then show ?thesis unfolding delete_runs(1)
      by (rule by_db [OF lease_step.leaves_queue]) (erule held_delete, use delete_runs(2) in blast)
  next
    case (keep_alive tok)
    show ?thesis unfolding keep_alive
      by (rule by_db [OF lease_step.keeps_alive waiting_clean_keepAlive [OF ok(1)]]) (rule held_keepAlive)
  next
    case (probe key)
    show ?thesis unfolding probe
      by (rule by_db [OF lease_step.probes waiting_clean_verifyClaim [OF ok(1)]]) (rule held_verifyClaim)
  next
    case (probe_idle tok)
    have "waiting_clean (verifyDelete tok (sys_db s))" using ok(1) by (simp add: verifyDelete_def)
    then show ?thesis unfolding probe_idle by (rule by_db [OF lease_step.probe_succeeds]) (rule held_verifyDelete)
  next
    case (admin key)
    have "waiting_clean (snd (releaseQuarantined key (sys_db s)))" using ok(1) by (simp add: releaseQuarantined_def)
    then show ?thesis unfolding admin by (rule by_db [OF lease_step.admin_releases]) (rule held_admin)
  qed
qed

interpretation holders: invariant_system sys_start "sys_step cfg cap lat late"
    "\<lambda>s. timing_ok cfg lat late \<longrightarrow> sys_inv cfg cap lat late s" for cfg cap lat late
proof unfold_locales
  fix s
  assume "sys_start s"
  then have "sys_db s = empty_table" "procs s = Map.empty" by (simp_all add: sys_start_def)
  moreover have "scheduler_inv cap empty_table" using slots.init_inv by simp
  ultimately show "timing_ok cfg lat late \<longrightarrow> sys_inv cfg cap lat late s"
    by (simp add: sys_inv_def waiting_clean_def empty_table_def)
next
  fix s t
  assume "timing_ok cfg lat late \<longrightarrow> sys_inv cfg cap lat late s" "sys_step cfg cap lat late s t"
  then show "timing_ok cfg lat late \<longrightarrow> sys_inv cfg cap lat late t" using sys_inv_step by blast
qed

lemma holds_slot_active:
  assumes "proc_ok cfg lat late tok now db p" "holds_slot key p"
  shows "tok \<in> l_token ` set (filter (active_on key) (leases db))"
  using assms by (cases p) (auto simp: held_def holder_ok_def)

lemma holders_le_active:
  assumes "sys_inv cfg cap lat late s"
  shows "finite {tok. \<exists>p. procs s tok = Some p \<and> holds_slot key p} \<and>
    card {tok. \<exists>p. procs s tok = Some p \<and> holds_slot key p} \<le> count (active_on key) (leases (sys_db s))"
proof -
  let ?A = "filter (active_on key) (leases (sys_db s))"
  have sub: "{tok. \<exists>p. procs s tok = Some p \<and> holds_slot key p} \<subseteq> l_token ` set ?A"
    using assms holds_slot_active unfolding sys_inv_def by blast
  then have "card {tok. \<exists>p. procs s tok = Some p \<and> holds_slot key p} \<le> card (l_token ` set ?A)" by (rule card_mono [rotated]) simp
  also have "\<dots> \<le> card (set ?A)" by (rule card_image_le) simp
  also have "\<dots> \<le> length ?A" by (rule card_length)
  finally show ?thesis using finite_subset [OF sub] by (simp add: count_def)
qed

section \<open>A late reply\<close>

text \<open>A run in which the reply of the first claim takes forty seconds and its first renewal hangs: the row, which expires sixty
  seconds after the transaction began, is reclaimed while the first holder still trusts it.\<close>

definition cloud_meta :: request_meta where
  "cloud_meta = \<lparr>rm_purpose = None, rm_owner = ''host:1'', rm_reportId = None, rm_failClosed = False, rm_maxExecutionMs = None\<rparr>"

definition claim_at :: "int \<Rightarrow> nat \<Rightarrow> lease_table \<Rightarrow> claim_view \<times> lease_table" where
  "claim_at t tok db = projr (tryClaim SCHEDULER_DEFAULTS t tok ''api'' 1 cloud_meta db)"

definition late_db1 :: lease_table where "late_db1 = snd (claim_at 0 1 empty_table)"
definition late_db2 :: lease_table where "late_db2 = snd (claim_at 61000 2 late_db1)"

definition late_holder :: holder where "late_holder = startHolding SCHEDULER_DEFAULTS 40000 ''api''"

definition late_state :: "int \<Rightarrow> lease_table \<Rightarrow> (nat \<rightharpoonup> proc) \<Rightarrow> sys" where
  "late_state now db ps = \<lparr>sys_now = now, sys_db = db, procs = ps\<rparr>"

lemma late_claims:
  "tryClaim SCHEDULER_DEFAULTS 0 1 ''api'' 1 cloud_meta empty_table = Inr (fst (claim_at 0 1 empty_table), late_db1)"
  "v_acquired (fst (claim_at 0 1 empty_table))"
  "tryClaim SCHEDULER_DEFAULTS 61000 2 ''api'' 1 cloud_meta late_db1 = Inr (fst (claim_at 61000 2 late_db1), late_db2)"
  "v_acquired (fst (claim_at 61000 2 late_db1))" "on_key 1 ''api'' empty_table" "on_key 2 ''api'' late_db1"
proof -
  have "\<not> isl (tryClaim SCHEDULER_DEFAULTS 0 1 ''api'' 1 cloud_meta empty_table)"
    "\<not> isl (tryClaim SCHEDULER_DEFAULTS 61000 2 ''api'' 1 cloud_meta late_db1)" by code_simp+
  then show "tryClaim SCHEDULER_DEFAULTS 0 1 ''api'' 1 cloud_meta empty_table = Inr (fst (claim_at 0 1 empty_table), late_db1)"
    "tryClaim SCHEDULER_DEFAULTS 61000 2 ''api'' 1 cloud_meta late_db1 = Inr (fst (claim_at 61000 2 late_db1), late_db2)"
    using Inr_projr unfolding claim_at_def late_db1_def late_db2_def by blast+
  show "v_acquired (fst (claim_at 0 1 empty_table))" "v_acquired (fst (claim_at 61000 2 late_db1))"
    "on_key 1 ''api'' empty_table" "on_key 2 ''api'' late_db1" by code_simp+
qed

lemma late_ticks: "timer_tick SCHEDULER_DEFAULTS 55000 late_holder = late_holder\<lparr>nextTick := 70000, renewing := RenewSent 55000\<rparr>"
  by code_simp

lemma late_advance:
  assumes "now \<le> t" "\<And>d. due lat late p = Some d \<Longrightarrow> t \<le> d"
  shows "sys_step cfg cap lat late (late_state now db [tok \<mapsto> p]) (late_state t db [tok \<mapsto> p])"
proof -
  have "sys_step cfg cap lat late (late_state now db [tok \<mapsto> p]) ((late_state now db [tok \<mapsto> p])\<lparr>sys_now := t\<rparr>)"
    by (rule sys_step.advance) (use assms in \<open>auto simp: late_state_def split: if_splits\<close>)
  then show ?thesis by (simp add: late_state_def)
qed

lemma first_claim:
  assumes "0 \<le> lat"
  shows "reachable sys_start (sys_step SCHEDULER_DEFAULTS (\<lambda>k. 1) lat late) (late_state 0 late_db1 [1 \<mapsto> Claimed ''api'' 0])"
proof -
  let ?R = "reachable sys_start (sys_step SCHEDULER_DEFAULTS (\<lambda>k. 1) lat late)"
  have "?R (late_state 0 empty_table Map.empty)" by (rule reachable.start) (simp add: sys_start_def late_state_def)
  then have "?R (after_claim 1 ''api'' 0 (fst (claim_at 0 1 empty_table)) late_db1 (late_state 0 empty_table Map.empty))"
    by (rule reachable.more)
      (rule sys_step.claims [where meta = cloud_meta], simp_all add: late_state_def late_claims assms del: One_nat_def)
  then show ?thesis by (simp add: after_claim_def late_claims late_state_def del: One_nat_def)
qed

lemma late_run:
  "\<exists>s. reachable sys_start (sys_step SCHEDULER_DEFAULTS (\<lambda>k. 1) 40000 0) s \<and>
     procs s = [1 \<mapsto> Holder (late_holder\<lparr>nextTick := 70000, renewing := RenewSent 55000\<rparr>), 2 \<mapsto> Claimed ''api'' 61000]"
proof -
  let ?R = "reachable sys_start (sys_step SCHEDULER_DEFAULTS (\<lambda>k. 1) 40000 0)"
  let ?h = "late_holder\<lparr>nextTick := 70000, renewing := RenewSent 55000\<rparr>"
  have "?R (late_state 0 late_db1 [1 \<mapsto> Claimed ''api'' 0])" by (rule first_claim) simp
  then have "?R (late_state 40000 late_db1 [1 \<mapsto> Claimed ''api'' 0])"
    by (rule reachable.more) (rule late_advance, simp_all)
  then have "?R (late_state 40000 late_db1 [1 \<mapsto> Holder late_holder])"
    by (rule reachable.more) (use sys_step.claim_reply [of "late_state 40000 late_db1 [1 \<mapsto> Claimed ''api'' 0]" 1 "''api''" 0] in
      \<open>simp add: late_state_def late_holder_def\<close>)
  moreover have "nextTick late_holder = 55000" "believes late_holder" "nextTick ?h = 70000" "believes ?h"
    by (simp_all add: late_holder_def startHolding_def SCHEDULER_DEFAULTS_def believes_def)
  ultimately have "?R (late_state 55000 late_db1 [1 \<mapsto> Holder late_holder])"
    by (elim reachable.more) (rule late_advance, simp_all)
  then have "?R (late_state 55000 late_db1 [1 \<mapsto> Holder ?h])"
    by (rule reachable.more) (use sys_step.ticks [of "late_state 55000 late_db1 [1 \<mapsto> Holder late_holder]" 1 late_holder SCHEDULER_DEFAULTS] in
      \<open>simp add: late_state_def late_ticks \<open>nextTick late_holder = 55000\<close>\<close>)
  then have "?R (late_state 61000 late_db1 [1 \<mapsto> Holder ?h])"
    by (rule reachable.more) (rule late_advance, simp_all add: \<open>believes ?h\<close>)
  then have "?R (after_claim 2 ''api'' 61000 (fst (claim_at 61000 2 late_db1)) late_db2 (late_state 61000 late_db1 [1 \<mapsto> Holder ?h]))"
    by (rule reachable.more) (rule sys_step.claims [where meta = cloud_meta], simp_all add: late_state_def late_claims del: One_nat_def)
  then show ?thesis by (intro exI conjI) (assumption, simp add: after_claim_def late_claims late_state_def del: One_nat_def)
qed

section \<open>Properties\<close>

text \<open>C29: two holders never believe they own the same slot. Take any interleaving of requests joining, claiming, holding with
  heartbeats, losing, releasing and quarantining their slots, crashing, of probes and administrator releases, with renewals that
  take any time or fail. As long as the hold lease is at least three heartbeats, and the reply delay of a granted claim and the
  lateness of the heartbeat timer together are at most one heartbeat, the number of requests that believe to hold a slot of a key
  (a granted claim whose reply is under way counts too) is at most its capacity at every moment.\<close>

theorem believers_within_capacity:
  assumes "timing_ok cfg lat late" and "reachable sys_start (sys_step cfg cap lat late) s"
  shows "finite {tok. \<exists>p. procs s tok = Some p \<and> holds_slot key p} \<and>
    card {tok. \<exists>p. procs s tok = Some p \<and> holds_slot key p} \<le> cap key"
proof -
  have inv: "sys_inv cfg cap lat late s" using holders.reachable_inv [OF assms(2)] assms(1) by blast
  then have "count (active_on key) (leases (sys_db s)) \<le> cap key"
    by (simp add: sys_inv_def scheduler_inv_def capacity_ok_def)
  then show ?thesis using holders_le_active [OF inv, of key] by simp
qed

theorem believers_within_capacity_witness:
  "finite {tok. \<exists>p. procs (late_state 0 late_db1 [1 \<mapsto> Claimed ''api'' 0]) tok = Some p \<and> holds_slot ''api'' p} \<and>
   card {tok. \<exists>p. procs (late_state 0 late_db1 [1 \<mapsto> Claimed ''api'' 0]) tok = Some p \<and> holds_slot ''api'' p} \<le> 1"
proof (rule believers_within_capacity [where cfg = SCHEDULER_DEFAULTS and lat = 10000 and late = 5000 and cap = "\<lambda>k. 1"])
  show "timing_ok SCHEDULER_DEFAULTS 10000 5000" by code_simp
  show "reachable sys_start (sys_step SCHEDULER_DEFAULTS (\<lambda>k. 1) 10000 5000) (late_state 0 late_db1 [1 \<mapsto> Claimed ''api'' 0])"
    by (rule first_claim) simp
qed

text \<open>the bound on the reply of a claim is needed. The holder counts its lease from when the reply of the claim arrives,
  while the row expires counted from the start of the claim's transaction; with the default settings, a reply that takes forty
  seconds and a renewal that hangs, two requests believe to hold a key of capacity one.\<close>

theorem late_claim_reply_overlaps:
  "\<exists>s. reachable sys_start (sys_step SCHEDULER_DEFAULTS (\<lambda>k. 1) 40000 0) s \<and>
     card {tok. \<exists>p. procs s tok = Some p \<and> holds_slot ''api'' p} = 2"
proof -
  obtain s where s: "reachable sys_start (sys_step SCHEDULER_DEFAULTS (\<lambda>k. 1) 40000 0) s"
      "procs s = [1 \<mapsto> Holder (late_holder\<lparr>nextTick := 70000, renewing := RenewSent 55000\<rparr>), 2 \<mapsto> Claimed ''api'' 61000]"
    using late_run by blast
  have h: "holds_slot ''api'' (Holder (late_holder\<lparr>nextTick := 70000, renewing := RenewSent 55000\<rparr>))"
    by (simp add: late_holder_def startHolding_def believes_def)
  have "{tok. \<exists>p. procs s tok = Some p \<and> holds_slot ''api'' p} = {1, 2}"
    unfolding s(2) using h by (auto split: if_splits)
  then show ?thesis using s(1) by auto
qed

end
