(* ===== verification/JobModes.thy ===== *)
theory JobModes
  imports TH_Prelude
begin

text \<open>
  The decision logic around Threat Library jobs: job modes and maintenance actions (\<open>threatLibrary/jobModes.js\<close>), the state a
  retry starts from (\<open>retryState.js\<close>), failure codes and the timeout policy (\<open>ai/timeouts.js\<close>), the decision and
  the delay of an automatic retry (\<open>autoRetry.js\<close>) and the settings of the analysis scheduler (the parsers of
  \<open>analysisConcurrency.js\<close>). Numbers are rationals; \<open>Math.random\<close>, \<open>Number\<close> of a text and the check for a local URL are
  arguments. Error texts are not modelled. Shown: bounds of every clamped
  setting and of the retry delay, and that automatic retries end.
\<close>

section \<open>jobModes.js\<close>

definition ANALYZE :: string where "ANALYZE = ''analyze''"
definition RETRY :: string where "RETRY = ''retry''"
definition REFRESH_EXTRACTION :: string where "REFRESH_EXTRACTION = ''refresh_extraction''"
definition RERUN_AI :: string where "RERUN_AI = ''rerun_ai''"
definition INSPECT_IOC_SOURCE :: string where "INSPECT_IOC_SOURCE = ''inspect_ioc_source''"
definition EXTRACT_IOC_SOURCE :: string where "EXTRACT_IOC_SOURCE = ''extract_ioc_source''"

lemmas job_mode_defs = ANALYZE_def RETRY_def REFRESH_EXTRACTION_def RERUN_AI_def INSPECT_IOC_SOURCE_def EXTRACT_IOC_SOURCE_def

definition PIPELINE_JOB_MODES :: "string list" where
  "PIPELINE_JOB_MODES = [ANALYZE, RETRY, REFRESH_EXTRACTION, RERUN_AI]"

definition ALL_THREAT_LIBRARY_JOB_MODES :: "string list" where
  "ALL_THREAT_LIBRARY_JOB_MODES = [ANALYZE, RETRY, REFRESH_EXTRACTION, RERUN_AI, INSPECT_IOC_SOURCE, EXTRACT_IOC_SOURCE]"

datatype job_mode_error = UnknownJobMode | NotAFunction

text \<open>The argument is \<open>None\<close> when the value is not a string.\<close>

definition parseJobMode :: "string option \<Rightarrow> (job_mode_error, string) result" where
  "parseJobMode v =
     (let mode = (case v of Some s \<Rightarrow> js_trim s | None \<Rightarrow> [])
      in if mode \<in> set ALL_THREAT_LIBRARY_JOB_MODES then Inr mode else Inl UnknownJobMode)"

definition isIocSourceJobMode :: "string \<Rightarrow> bool" where
  "isIocSourceJobMode mode \<longleftrightarrow> mode = INSPECT_IOC_SOURCE \<or> mode = EXTRACT_IOC_SOURCE"

definition isPipelineJobMode :: "string \<Rightarrow> bool" where
  "isPipelineJobMode mode \<longleftrightarrow> mode \<in> set PIPELINE_JOB_MODES"

definition jobModeInvokesAi :: "string option \<Rightarrow> (job_mode_error, bool) result" where
  "jobModeInvokesAi v =
     (case parseJobMode v of
        Inl e \<Rightarrow> Inl e
      | Inr m \<Rightarrow> Inr (if isIocSourceJobMode m then False else m \<noteq> REFRESH_EXTRACTION))"

definition MAINTENANCE_ALLOWED_STATUSES :: "(string \<times> string list) list" where
  "MAINTENANCE_ALLOWED_STATUSES =
     [(RETRY, [''failed'', ''cancelled'']), (REFRESH_EXTRACTION, [''review_required'', ''ready'']),
      (RERUN_AI, [''review_required''])]"

definition NOT_ALLOWED :: "(string \<times> string) list" where
  "NOT_ALLOWED =
     [(RETRY, ''retry_not_applicable''), (REFRESH_EXTRACTION, ''refresh_extraction_not_allowed''),
      (RERUN_AI, ''rerun_ai_not_allowed'')]"

record maintenance_report =
  mr_analysis_status :: "string option"
  mr_source_type :: "string option"

datatype maintenance_result = Allowed | Refused nat string

text \<open>A missing or null status is the empty text. A mode that is a property of \<open>Object.prototype\<close> has a truthy entry without
  \<open>includes\<close>.\<close>

definition evaluateMaintenanceAction ::
    "maintenance_report option \<Rightarrow> string \<Rightarrow> (job_mode_error, maintenance_result) result" where
  "evaluateMaintenanceAction report mode =
     (case js_get MAINTENANCE_ALLOWED_STATUSES mode of
        Absent \<Rightarrow> Inl UnknownJobMode
      | look \<Rightarrow>
          (case report of
             None \<Rightarrow> Inr (Refused 404 ''not_found'')
           | Some r \<Rightarrow>
               if mr_source_type r = Some ''thib'' then Inr (Refused 400 ''thib_not_reanalyzable'')
               else case look of
                      Found allowed \<Rightarrow>
                        (let status = js_lower (case mr_analysis_status r of Some s \<Rightarrow> s | None \<Rightarrow> [])
                         in if status \<in> set allowed then Inr Allowed
                            else Inr (Refused 409 (case map_of NOT_ALLOWED mode of Some c \<Rightarrow> c | None \<Rightarrow> [])))
                    | _ \<Rightarrow> Inl NotAFunction))"

section \<open>retryState.js\<close>

definition TERMINAL_ANALYSIS :: "string list" where
  "TERMINAL_ANALYSIS = [''ready'', ''skipped'', ''review_required'', ''failed'']"

definition isActiveAnalysisStatus :: "string option \<Rightarrow> bool" where
  "isActiveAnalysisStatus status =
     (let s = js_lower (case status of Some t \<Rightarrow> t | None \<Rightarrow> [])
      in if s = [] then False else s \<notin> set TERMINAL_ANALYSIS)"

definition ENDED_JOB_STATUSES :: "string list" where
  "ENDED_JOB_STATUSES = [''failed'', ''cancelled'']"

record report_state =
  analysis_status :: "string option"
  failure_code :: "string option"

definition isOrphanedActiveAnalysis :: "report_state option \<Rightarrow> bool \<Rightarrow> string option option \<Rightarrow> bool" where
  "isOrphanedActiveAnalysis report hasActiveJob latestJobStatus =
     (case report of
        None \<Rightarrow> False
      | Some r \<Rightarrow>
          isActiveAnalysisStatus (analysis_status r) \<and> \<not> hasActiveJob \<and>
          failure_code r \<noteq> None \<and> failure_code r \<noteq> Some [] \<and>
          (case latestJobStatus of
             None \<Rightarrow> False
           | Some st \<Rightarrow> js_lower (case st of Some t \<Rightarrow> t | None \<Rightarrow> []) \<in> set ENDED_JOB_STATUSES))"

definition resolveRetryStartStatus :: "bool \<Rightarrow> int \<Rightarrow> string" where
  "resolveRetryStartStatus hasDocument candidateCount =
     (if hasDocument \<and> candidateCount > 0 then ''analyzing'' else if hasDocument then ''extracting'' else ''pending'')"

record retry_progress =
  rp_stage :: string
  rp_candidate_extraction_version :: "string option"
  rp_reused_document :: bool
  rp_reused_candidates :: bool

text \<open>\<open>resumed: true\<close> and the zeroed chunk counters are the same in every payload.\<close>

definition buildRetryProgress :: "string \<Rightarrow> string option \<Rightarrow> retry_progress" where
  "buildRetryProgress status version =
     (let stage = (if status = [] then ''pending'' else status)
      in \<lparr>rp_stage = stage, rp_candidate_extraction_version = (if version = Some [] then None else version),
          rp_reused_document = (stage = ''analyzing'' \<or> stage = ''extracting''), rp_reused_candidates = (stage = ''analyzing'')\<rparr>)"

section \<open>ai/timeouts.js\<close>

definition TRANSIENT_CODES :: "string list" where
  "TRANSIENT_CODES =
     [''first_token_timeout'', ''provider_inactivity_timeout'', ''connection_timeout'', ''provider_unreachable'',
      ''ai_capacity_unavailable'', ''ai_capacity_lease_lost'', ''ai_capacity_quarantined'']"

text \<open>\<open>Number(null)\<close> is 0 and \<open>Number(undefined)\<close> is not a number; both comparisons then fail.\<close>

definition isTransientAiFailure :: "string option \<Rightarrow> int option \<Rightarrow> bool" where
  "isTransientAiFailure code httpStatus =
     (case code of
        None \<Rightarrow> False
      | Some c \<Rightarrow>
          if c \<in> set TRANSIENT_CODES then True
          else if c = ''provider_http_error'' then (case httpStatus of Some n \<Rightarrow> n \<ge> 500 \<or> n = 429 | None \<Rightarrow> False)
          else False)"

fun strip_slashes :: "string \<Rightarrow> string" where
  "strip_slashes s = rev (dropWhile (\<lambda>c. c = CHR ''/'') (rev s))"

record ai_settings =
  provider :: "string option"
  base_url :: "string option"
  timeout_ms :: "rat option"
  connection_timeout_ms :: "rat option"
  first_token_timeout_ms :: "rat option"
  inactivity_timeout_ms :: "rat option"
  total_analysis_timeout_ms :: "rat option"
  max_concurrent_ai_requests :: "rat option"
  capacity_wait_timeout_ms :: "rat option"
  provider_execution_timeout_ms :: "rat option"
  auto_retry_max_attempts :: "rat option"

definition text_or :: "string \<Rightarrow> string option \<Rightarrow> string" where
  "text_or dflt t = (case t of Some s \<Rightarrow> if s = [] then dflt else s | None \<Rightarrow> dflt)"

definition inferenceResourceKey :: "ai_settings \<Rightarrow> string" where
  "inferenceResourceKey st =
     (let prov = text_or ''unknown'' (provider st);
          base0 = strip_slashes (js_lower (js_trim (text_or [] (base_url st))));
          base = (if base0 \<noteq> [] then base0
                  else if prov = ''ollama'' then ''http://127.0.0.1:11434''
                  else if prov = ''anthropic'' then ''https://api.anthropic.com''
                  else if prov = ''openai'' then ''https://api.openai.com/v1'' else [])
      in prov @ ''|'' @ base)"

text \<open>\<open>None\<close> is a setting that is absent or not a number (\<open>coerceOptionalSettingNumber\<close>); both take the fallback.\<close>

definition clamp :: "rat option \<Rightarrow> rat \<Rightarrow> rat \<Rightarrow> rat \<Rightarrow> rat" where
  "clamp n lo hi fallback = (case n of None \<Rightarrow> fallback | Some v \<Rightarrow> min hi (max lo v))"

record timeout_policy =
  p_connection_timeout_ms :: rat
  p_first_token_timeout_ms :: rat
  p_inactivity_timeout_ms :: rat
  p_total_analysis_timeout_ms :: rat
  p_max_concurrent_ai_requests :: int
  p_capacity_wait_timeout_ms :: rat
  p_provider_execution_timeout_ms :: rat
  p_auto_retry_max_attempts :: int
  is_local :: bool

text \<open>The legacy \<open>timeout_ms\<close> raises a default, never lowers it.\<close>

definition legacy_fallback :: "rat option \<Rightarrow> rat \<Rightarrow> rat" where
  "legacy_fallback legacy dflt = (case legacy of Some l \<Rightarrow> if l > 0 then max l dflt else dflt | None \<Rightarrow> dflt)"

text \<open>\<open>isLocalAiProvider\<close>; the URL check parses with \<open>new URL\<close> and is an argument.\<close>

definition isLocalAiProvider :: "(string \<Rightarrow> bool) \<Rightarrow> ai_settings \<Rightarrow> bool" where
  "isLocalAiProvider isLikelyLocalAiBaseUrl st \<longleftrightarrow>
     provider st = Some ''ollama'' \<or> isLikelyLocalAiBaseUrl (text_or [] (base_url st))"

definition resolveAiTimeoutPolicy :: "(string \<Rightarrow> bool) \<Rightarrow> ai_settings \<Rightarrow> timeout_policy" where
  "resolveAiTimeoutPolicy isLikelyLocalAiBaseUrl st =
     (let loc = isLocalAiProvider isLikelyLocalAiBaseUrl st
      in \<lparr>p_connection_timeout_ms = clamp (connection_timeout_ms st) 1000 120000 (if loc then 30000 else 15000),
          p_first_token_timeout_ms =
            clamp (first_token_timeout_ms st) 5000 1800000 (legacy_fallback (timeout_ms st) (if loc then 300000 else 120000)),
          p_inactivity_timeout_ms =
            clamp (inactivity_timeout_ms st) 5000 1800000 (legacy_fallback (timeout_ms st) (if loc then 300000 else 180000)),
          p_total_analysis_timeout_ms = clamp (total_analysis_timeout_ms st) 60000 7200000 (if loc then 1800000 else 900000),
          p_max_concurrent_ai_requests = js_trunc (clamp (max_concurrent_ai_requests st) 1 8 (if loc then 1 else 4)),
          p_capacity_wait_timeout_ms = clamp (capacity_wait_timeout_ms st) 10000 14400000 (if loc then 3600000 else 900000),
          p_provider_execution_timeout_ms =
            clamp (provider_execution_timeout_ms st) 30000 7200000 (if loc then 1200000 else 600000),
          p_auto_retry_max_attempts = js_trunc (clamp (auto_retry_max_attempts st) 0 5 2), is_local = loc\<rparr>)"

definition resolveHeaderWaitMs :: "timeout_policy \<Rightarrow> rat" where
  "resolveHeaderWaitMs p =
     (if is_local p then max (p_connection_timeout_ms p) (p_first_token_timeout_ms p)
      else if p_connection_timeout_ms p = 0 then 15000 else p_connection_timeout_ms p)"

section \<open>autoRetry.js\<close>

definition AUTO_RETRY_BASE_DELAY_MS :: int where "AUTO_RETRY_BASE_DELAY_MS = 60000"
definition AUTO_RETRY_MAX_DELAY_MS :: int where "AUTO_RETRY_MAX_DELAY_MS = 15 * 60000"

definition AI_JOB_MODES :: "string list" where
  "AI_JOB_MODES = [ANALYZE, RETRY, RERUN_AI]"

text \<open>\<open>r\<close> is what \<open>random ()\<close> returns.\<close>

definition autoRetryDelayMs :: "int \<Rightarrow> rat \<Rightarrow> int" where
  "autoRetryDelayMs attempt r =
     (let n = max 1 attempt; base = min AUTO_RETRY_MAX_DELAY_MS (AUTO_RETRY_BASE_DELAY_MS * 2 ^ nat (n - 1))
      in js_round (of_int base + of_int base * (1 / 4) * r))"

datatype retry_decision = NoRetry string | RetryAttempt int

definition decideAutoRetry :: "string \<Rightarrow> string option \<Rightarrow> int option \<Rightarrow> int \<Rightarrow> int \<Rightarrow> retry_decision" where
  "decideAutoRetry jobType code httpStatus previousAttempt maxAttempts =
     (if jobType \<notin> set AI_JOB_MODES then NoRetry ''job_mode_not_retryable''
      else if \<not> isTransientAiFailure code httpStatus then NoRetry ''not_transient''
      else let attempt = previousAttempt + 1
           in if attempt > maxAttempts then NoRetry ''attempts_exhausted'' else RetryAttempt attempt)"

section \<open>The settings of analysisConcurrency.js\<close>

text \<open>A setting as it comes from the API, the database or the environment: null or undefined, a text, a finite number, or another
  value.\<close>

datatype setting = SAbsent | SText string | SNum rat | SOther

definition integer_in :: "int \<Rightarrow> int \<Rightarrow> rat \<Rightarrow> bool" where
  "integer_in lo hi r \<longleftrightarrow> r = of_int \<lfloor>r\<rfloor> \<and> lo \<le> \<lfloor>r\<rfloor> \<and> \<lfloor>r\<rfloor> \<le> hi"

definition int_text :: "string \<Rightarrow> int option" where
  "int_text s =
     (case s of
        [] \<Rightarrow> None
      | c # cs \<Rightarrow>
          if c = CHR ''-'' then (if cs \<noteq> [] \<and> list_all is_digit cs then Some (- int (digits_val cs)) else None)
          else if list_all is_digit s then Some (int (digits_val s)) else None)"

definition AI_SCHEDULING_SETTING_BOUNDS :: "(string \<times> int \<times> int) list" where
  "AI_SCHEDULING_SETTING_BOUNDS =
     [(''max_concurrent_ai_requests'', 1, 8), (''capacity_wait_timeout_ms'', 10000, 14400000),
      (''provider_execution_timeout_ms'', 30000, 7200000), (''auto_retry_max_attempts'', 0, 5)]"

datatype setting_error = UnknownSetting | OutOfBounds

definition parseAiSchedulingSetting :: "string \<Rightarrow> setting \<Rightarrow> (setting_error, int option) result" where
  "parseAiSchedulingSetting name v =
     (case map_of AI_SCHEDULING_SETTING_BOUNDS name of
        None \<Rightarrow> Inl UnknownSetting
      | Some (lo, hi) \<Rightarrow>
          (case v of
             SAbsent \<Rightarrow> Inr None
           | SText t \<Rightarrow>
               (if t = [] then Inr None
                else case int_text (js_trim t) of
                       Some n \<Rightarrow> if n < lo \<or> n > hi then Inl OutOfBounds else Inr (Some n)
                     | None \<Rightarrow> Inl OutOfBounds)
           | SNum r \<Rightarrow> if integer_in lo hi r then Inr (Some \<lfloor>r\<rfloor>) else Inl OutOfBounds
           | SOther \<Rightarrow> Inl OutOfBounds))"

definition parseMaxConcurrentReportAnalyses :: "setting \<Rightarrow> (setting_error, int) result" where
  "parseMaxConcurrentReportAnalyses v =
     (let checked = (\<lambda>n. if n < 1 \<or> n > 4 then Inl OutOfBounds else Inr n)
      in case v of
           SAbsent \<Rightarrow> Inl OutOfBounds
         | SText t \<Rightarrow> (case int_text (js_trim t) of Some n \<Rightarrow> checked n | None \<Rightarrow> Inl OutOfBounds)
         | SNum r \<Rightarrow> if integer_in 1 4 r then Inr \<lfloor>r\<rfloor> else Inl OutOfBounds
         | SOther \<Rightarrow> Inl OutOfBounds)"

definition resolveMaxConcurrentReportAnalyses :: "setting \<Rightarrow> int" where
  "resolveMaxConcurrentReportAnalyses v =
     (if v = SAbsent \<or> v = SText [] then 2
      else case parseMaxConcurrentReportAnalyses v of Inr n \<Rightarrow> n | Inl e \<Rightarrow> 2)"

definition resolveThreatLibraryWorkerConcurrency :: "(string \<Rightarrow> rat option) \<Rightarrow> setting \<Rightarrow> int" where
  "resolveThreatLibraryWorkerConcurrency num v =
     (let bound = (\<lambda>r. min (max (js_trunc r) 1) 4)
      in case v of
           SAbsent \<Rightarrow> 4
         | SText t \<Rightarrow> if t = [] then 4 else (case num t of Some r \<Rightarrow> bound r | None \<Rightarrow> 4)
         | SNum r \<Rightarrow> bound r
         | SOther \<Rightarrow> 4)"

section \<open>Bounds\<close>

lemma clamp_bounds: "lo \<le> hi \<Longrightarrow> lo \<le> fb \<Longrightarrow> fb \<le> hi \<Longrightarrow> lo \<le> clamp n lo hi fb \<and> clamp n lo hi fb \<le> hi"
  by (auto simp: clamp_def split: option.split)

lemma js_trunc_bounds: "of_int lo \<le> r \<Longrightarrow> r \<le> of_int hi \<Longrightarrow> lo \<le> js_trunc r \<and> js_trunc r \<le> hi"
  unfolding js_trunc_def
  by (auto simp: le_floor_iff ceiling_le_iff) (meson floor_le_iff floor_mono le_floor_iff order_trans of_int_le_iff floor_of_int, linarith)

lemma legacy_fallback_bounds: "dflt \<le> legacy_fallback l dflt \<and> legacy_fallback l dflt \<le> max dflt (case l of Some v \<Rightarrow> v | None \<Rightarrow> 0)"
  by (auto simp: legacy_fallback_def split: option.split)

text \<open>A chain of automatic retries: each failed attempt asks again with its own number.\<close>

fun retry_chain :: "string \<Rightarrow> int \<Rightarrow> (string option \<times> int option) list \<Rightarrow> int \<Rightarrow> int list" where
  "retry_chain jobType maxAttempts [] previous = []"
| "retry_chain jobType maxAttempts ((code, http) # failures) previous =
     (case decideAutoRetry jobType code http previous maxAttempts of
        NoRetry r \<Rightarrow> []
      | RetryAttempt a \<Rightarrow> a # retry_chain RETRY maxAttempts failures a)"

lemma decideAutoRetry_attempt:
  "decideAutoRetry jobType code http previous maxAttempts = RetryAttempt a \<Longrightarrow> a = previous + 1 \<and> a \<le> maxAttempts"
  by (auto simp: decideAutoRetry_def Let_def split: if_splits)

lemma retry_chain_length:
  "previous \<le> maxAttempts \<Longrightarrow> int (length (retry_chain jobType maxAttempts failures previous)) \<le> maxAttempts - previous"
proof (induction jobType maxAttempts failures previous rule: retry_chain.induct)
  case (2 jobType maxAttempts code http failures previous)
  show ?case
  proof (cases "decideAutoRetry jobType code http previous maxAttempts")
    case (RetryAttempt a)
    then have "a = previous + 1" "a \<le> maxAttempts" using decideAutoRetry_attempt by blast+
    then show ?thesis using 2(1) [OF RetryAttempt] RetryAttempt by simp
  qed (use 2 in simp)
qed simp

lemma js_round_mono: "a \<le> b \<Longrightarrow> js_round a \<le> js_round b"
  by (simp add: js_round_def floor_mono)

lemma js_round_of_int [simp]: "js_round (of_int n) = n"
  unfolding js_round_def by linarith

section \<open>Properties\<close>

text \<open>Automatic retries are bounded. Whatever failures follow, a chain of automatic retries that starts after a first attempt
  makes at most the configured number of attempts (at most five by the policy), and every delay lies between one minute and
  fifteen minutes plus a quarter of jitter.\<close>

theorem auto_retry_bounded:
  assumes "0 \<le> r" and "r \<le> 1"
  shows "length (retry_chain jobType (p_auto_retry_max_attempts (resolveAiTimeoutPolicy loc st)) failures 0) \<le> 5 \<and>
    60000 \<le> autoRetryDelayMs attempt r \<and> autoRetryDelayMs attempt r \<le> 1125000"
proof -
  let ?m = "p_auto_retry_max_attempts (resolveAiTimeoutPolicy loc st)"
  have "0 \<le> clamp (auto_retry_max_attempts st) 0 5 2 \<and> clamp (auto_retry_max_attempts st) 0 5 2 \<le> 5" by (rule clamp_bounds) simp_all
  then have m: "0 \<le> ?m" "?m \<le> 5"
    using js_trunc_bounds [of 0 "clamp (auto_retry_max_attempts st) 0 5 2" 5] by (simp_all add: resolveAiTimeoutPolicy_def Let_def)
  have "int (length (retry_chain jobType ?m failures 0)) \<le> ?m" using retry_chain_length [of 0 ?m] m by simp
  then have "length (retry_chain jobType ?m failures 0) \<le> 5" using m by linarith
  moreover obtain base :: int where b: "60000 \<le> base" "base \<le> 900000" "autoRetryDelayMs attempt r = js_round (of_int base + of_int base * (1 / 4) * r)"
  proof
    let ?b = "min AUTO_RETRY_MAX_DELAY_MS (AUTO_RETRY_BASE_DELAY_MS * 2 ^ nat (max 1 attempt - 1))"
    have "(1::int) \<le> 2 ^ nat (max 1 attempt - 1)" by simp
    then show "60000 \<le> ?b" "?b \<le> 900000" by (auto simp: AUTO_RETRY_MAX_DELAY_MS_def AUTO_RETRY_BASE_DELAY_MS_def)
    show "autoRetryDelayMs attempt r = js_round (of_int ?b + of_int ?b * (1 / 4) * r)" by (simp add: autoRetryDelayMs_def Let_def)
  qed
  moreover have "of_int 60000 \<le> of_int base + of_int base * (1 / 4) * r"
  proof -
    have "(0 :: rat) \<le> of_int base * (1 / 4) * r" using b(1) assms(1) by simp
    moreover have "(60000 :: rat) \<le> of_int base" using b(1) by (simp add: of_int_numeral_le_iff)
    ultimately show ?thesis by simp
  qed
  moreover have "of_int base + of_int base * (1 / 4) * r \<le> of_int (1125000 :: int)"
  proof -
    have "of_int base * r \<le> (900000 :: rat) * 1" using b assms by (intro mult_mono) (simp_all add: of_int_le_numeral_iff)
    moreover have "of_int base \<le> (900000 :: rat)" using b(2) by (simp add: of_int_le_numeral_iff)
    ultimately show ?thesis by simp
  qed
  ultimately show ?thesis using js_round_mono js_round_of_int by metis
qed

definition sample_settings :: ai_settings where
  "sample_settings = \<lparr>provider = Some ''openai'', base_url = None, timeout_ms = Some 10000000, connection_timeout_ms = Some 0,
     first_token_timeout_ms = None, inactivity_timeout_ms = Some 1, total_analysis_timeout_ms = None,
     max_concurrent_ai_requests = Some 100, capacity_wait_timeout_ms = None, provider_execution_timeout_ms = None,
     auto_retry_max_attempts = Some 9\<rparr>"

theorem auto_retry_bounded_witness:
  "length (retry_chain ANALYZE (p_auto_retry_max_attempts (resolveAiTimeoutPolicy (\<lambda>u. False) sample_settings))
      (replicate 9 (Some ''connection_timeout'', None)) 0) \<le> 5 \<and>
   60000 \<le> autoRetryDelayMs 3 (1 / 2) \<and> autoRetryDelayMs 3 (1 / 2) \<le> 1125000"
  by (rule auto_retry_bounded) simp_all

text \<open>Every effective timeout and limit lies in its documented range, whatever is stored (absent, zero, negative, huge or
  fractional values); the two waits that inherit the legacy \<open>timeout_ms\<close> can exceed their ceiling only up to that legacy value.\<close>

theorem timeout_policy_bounded:
  "resolveAiTimeoutPolicy loc st = p \<Longrightarrow>
   p_connection_timeout_ms p \<in> {1000..120000} \<and>
   p_first_token_timeout_ms p \<in> {5000..max 1800000 (case timeout_ms st of Some v \<Rightarrow> v | None \<Rightarrow> 0)} \<and>
   p_inactivity_timeout_ms p \<in> {5000..max 1800000 (case timeout_ms st of Some v \<Rightarrow> v | None \<Rightarrow> 0)} \<and>
   p_total_analysis_timeout_ms p \<in> {60000..7200000} \<and> p_max_concurrent_ai_requests p \<in> {1..8} \<and>
   p_capacity_wait_timeout_ms p \<in> {10000..14400000} \<and> p_provider_execution_timeout_ms p \<in> {30000..7200000} \<and>
   p_auto_retry_max_attempts p \<in> {0..5}"
proof -
  assume p: "resolveAiTimeoutPolicy loc st = p"
  have t: "lo \<le> js_trunc (clamp n (of_int lo) (of_int hi) fb) \<and> js_trunc (clamp n (of_int lo) (of_int hi) fb) \<le> hi"
    if "of_int lo \<le> fb" "fb \<le> of_int hi" for n lo hi fb
    using clamp_bounds [of "of_int lo" "of_int hi" fb n] that js_trunc_bounds by (meson order_trans)
  have l: "5000 \<le> clamp n 5000 1800000 (legacy_fallback leg d) \<and>
      clamp n 5000 1800000 (legacy_fallback leg d) \<le> max 1800000 (case leg of Some v \<Rightarrow> v | None \<Rightarrow> 0)"
    if "5000 \<le> d" "d \<le> 1800000" for n leg d
    using legacy_fallback_bounds [of d leg] that by (auto simp: clamp_def split: option.splits)
  show ?thesis unfolding p [symmetric]
    using l [of "if isLocalAiProvider loc st then 300000 else 120000" "first_token_timeout_ms st" "timeout_ms st"]
      l [of "if isLocalAiProvider loc st then 300000 else 180000" "inactivity_timeout_ms st" "timeout_ms st"]
      t [of 1 "if isLocalAiProvider loc st then 1 else 4" 8 "max_concurrent_ai_requests st"]
      t [of 0 2 5 "auto_retry_max_attempts st"]
    by (simp add: resolveAiTimeoutPolicy_def Let_def clamp_bounds)
qed

theorem timeout_policy_bounded_witness:
  "p_connection_timeout_ms (resolveAiTimeoutPolicy (\<lambda>u. False) sample_settings) \<in> {1000..120000} \<and>
   p_auto_retry_max_attempts (resolveAiTimeoutPolicy (\<lambda>u. False) sample_settings) \<in> {0..5}"
  using timeout_policy_bounded [OF refl, of "\<lambda>u. False" sample_settings] by blast

text \<open>The legacy value is a fallback, which \<open>clamp\<close> returns as it is.\<close>

lemma legacy_timeout_exceeds_ceiling:
  "p_first_token_timeout_ms (resolveAiTimeoutPolicy (\<lambda>u. False) sample_settings) = 10000000"
  by code_simp

end
