(* ===== verification/JobQueue.thy ===== *)
theory JobQueue
  imports JobModes
begin

text \<open>
  The Threat Library job queue: the rows of \<open>threat_library_jobs\<close> and every statement that
  changes them (\<open>lib/threatLibrary/analysisConcurrency.js\<close>, \<open>lib/threatLibrary/jobOwnership.js\<close>,
  \<open>createJob\<close> and \<open>updateJob\<close> of \<open>lib/threatLibrary/store.js\<close>).  A table is the list of its rows in
  the order of their ids; \<open>NOW()\<close> is the argument \<open>now\<close>, in milliseconds.  The BullMQ queue is the
  argument \<open>enqueue\<close>, the settings row and the reports table are arguments too.
\<close>

section \<open>Rows\<close>

datatype job_status = Queued | Running | Completed | Failed | Cancelled

text \<open>The \<open>dispatch\<close> object kept in \<open>progress\<close>; texts that are absent or empty are \<open>None\<close>.\<close>

record restore_status =
  rs_analysis_status :: "string option"
  rs_import_status :: "string option"

record dispatch_info =
  d_jobType :: "string option"
  d_sourceUrl :: "string option"
  d_resumeAnalysis :: bool
  d_newAnalysisRun :: bool
  d_jobPayload :: "string option"
  d_restoreStatus :: "restore_status option"
  d_membershipPolicy :: "string option"

record job =
  id_of :: nat
  report_id :: nat
  job_type :: string
  job_status :: job_status
  job_stage :: string
  progress :: "dispatch_info option"
  error_message :: "string option"
  bullmq_job_id :: "string option"
  requested_by :: "string option"
  job_payload :: "string option"
  created_at :: int
  started_at :: "int option"
  finished_at :: "int option"
  owner_token :: "string option"
  heartbeat_at :: "int option"
  not_before :: "int option"

record report_row =
  source_url :: "string option"
  report_public_id :: string
  source_type :: "string option"
  deleted :: bool

type_synonym jobs = "job list"

definition REPORT_PIPELINE_JOB_TYPES :: "string list" where
  "REPORT_PIPELINE_JOB_TYPES = [ANALYZE, RETRY, RERUN_AI, REFRESH_EXTRACTION]"

definition OCCUPIED_JOB_STATUSES :: "job_status list" where
  "OCCUPIED_JOB_STATUSES = [Queued, Running]"

definition LIVE_BULLMQ_STATES :: "string list" where
  "LIVE_BULLMQ_STATES = [''active'', ''waiting'', ''delayed'', ''paused'', ''waiting-children'']"

definition JOB_OWNER_STALE_MS :: int where "JOB_OWNER_STALE_MS = 120000"

definition live :: "job \<Rightarrow> bool" where
  "live j = (job_status j \<in> set OCCUPIED_JOB_STATUSES)"

definition pipeline :: "job \<Rightarrow> bool" where
  "pipeline j = (job_type j \<in> set REPORT_PIPELINE_JOB_TYPES)"

text \<open>An \<open>UPDATE .. WHERE .. RETURNING *\<close>: the new table and the updated rows.\<close>

definition sql_update :: "(job \<Rightarrow> bool) \<Rightarrow> (job \<Rightarrow> job) \<Rightarrow> jobs \<Rightarrow> jobs \<times> job list" where
  "sql_update P f t = (map (\<lambda>j. if P j then f j else j) t, map f (filter P t))"

definition first_row :: "'a list \<Rightarrow> 'a option" where
  "first_row rows = (case rows of [] \<Rightarrow> None | r # _ \<Rightarrow> Some r)"

text \<open>\<open>bigserial\<close>: the id of the next row.\<close>

definition next_id :: "jobs \<Rightarrow> nat" where
  "next_id t = Suc (fold (\<lambda>j. max (id_of j)) t 0)"

section \<open>Creating and updating rows\<close>

text \<open>A new row; \<open>COALESCE($4, '{}')\<close> fills an absent payload.\<close>

definition new_job :: "nat \<Rightarrow> int \<Rightarrow> nat \<Rightarrow> string \<Rightarrow> string option \<Rightarrow> string option \<Rightarrow> string option \<Rightarrow> int option \<Rightarrow> job" where
  "new_job i now report jtype by bull payload nb =
     \<lparr>id_of = i, report_id = report, job_type = jtype, job_status = Queued, job_stage = ''queued'',
      progress = None, error_message = None, bullmq_job_id = bull, requested_by = by,
      job_payload = Some (case payload of None \<Rightarrow> ''{}'' | Some p \<Rightarrow> p), created_at = now, started_at = None, finished_at = None,
      owner_token = None, heartbeat_at = None, not_before = nb\<rparr>"

text \<open>\<open>jobType || 'analyze'\<close>, \<open>bullmqJobId || null\<close>.\<close>

definition createJob :: "int \<Rightarrow> nat \<Rightarrow> string \<Rightarrow> string option \<Rightarrow> string option \<Rightarrow> string option \<Rightarrow> jobs \<Rightarrow> jobs \<times> job" where
  "createJob now report jtype by bull payload t =
     (let j = new_job (next_id t) now report (if jtype = [] then ANALYZE else jtype) by
                (if bull = Some [] then None else bull) payload None
      in (t @ [j], j))"

record job_patch =
  p_status :: "job_status option"
  p_stage :: "string option"
  p_progress :: "dispatch_info option option"
  p_error_message :: "string option"
  p_bullmq_job_id :: "string option"

definition patch_job :: "int \<Rightarrow> job_patch \<Rightarrow> job \<Rightarrow> job" where
  "patch_job now p j = j\<lparr>
     job_status := (case p_status p of None \<Rightarrow> job_status j | Some s \<Rightarrow> s),
     job_stage := (case p_stage p of None \<Rightarrow> job_stage j | Some s \<Rightarrow> s),
     progress := (case p_progress p of None \<Rightarrow> progress j | Some s \<Rightarrow> s),
     error_message := p_error_message p,
     bullmq_job_id := (case p_bullmq_job_id p of None \<Rightarrow> bullmq_job_id j | Some b \<Rightarrow> Some b),
     started_at := (if p_status p = Some Running \<and> started_at j = None then Some now else started_at j),
     finished_at := (if p_status p \<in> {Some Completed, Some Failed, Some Cancelled} then Some now else finished_at j)\<rparr>"

definition updateJob :: "int \<Rightarrow> nat \<Rightarrow> job_patch \<Rightarrow> jobs \<Rightarrow> jobs \<times> job option" where
  "updateJob now i p t =
     (let (t', rows) = sql_update (\<lambda>j. id_of j = i) (patch_job now p) t in (t', first_row rows))"

text \<open>
  \<open>createExclusivePipelineJob\<close>: one transaction under the report's advisory lock.  The flag is
  \<open>created\<close>.
\<close>

definition existing_live :: "nat \<Rightarrow> jobs \<Rightarrow> job option" where
  "existing_live report t =
     first_row (rev (filter (\<lambda>j. report_id j = report \<and> live j \<and> pipeline j) t))"

definition createExclusivePipelineJob ::
    "int \<Rightarrow> nat \<Rightarrow> string \<Rightarrow> string option \<Rightarrow> string option \<Rightarrow> int option \<Rightarrow> jobs \<Rightarrow> jobs \<times> bool \<times> job" where
  "createExclusivePipelineJob now report jtype by payload nb t =
     (case existing_live report t of
        Some j \<Rightarrow> (t, False, j)
      | None \<Rightarrow> let j = new_job (next_id t) now report jtype by None payload nb in (t @ [j], True, j))"

definition expediteDelayedJob :: "nat \<Rightarrow> jobs \<Rightarrow> jobs \<times> bool" where
  "expediteDelayedJob i t =
     (let (t', rows) = sql_update
        (\<lambda>j. id_of j = i \<and> job_status j = Queued \<and> bullmq_job_id j = None \<and> not_before j \<noteq> None)
        (\<lambda>j. j\<lparr>not_before := None\<rparr>) t
      in (t', rows \<noteq> []))"

definition cancelUnclaimedAnalysisJobs :: "int \<Rightarrow> nat \<Rightarrow> jobs \<Rightarrow> jobs \<times> job list" where
  "cancelUnclaimedAnalysisJobs now report t =
     sql_update
       (\<lambda>j. report_id j = report \<and> job_status j = Queued \<and> bullmq_job_id j = None
            \<and> job_type j \<in> set ALL_THREAT_LIBRARY_JOB_MODES)
       (\<lambda>j. j\<lparr>job_status := Cancelled, job_stage := ''cancelled'', finished_at := Some now\<rparr>) t"

text \<open>The first cancelled job whose \<open>progress.dispatch.restoreStatus.analysis_status\<close> is set.\<close>

fun restoreStatusForCancelledJobs :: "job list \<Rightarrow> restore_status option" where
  "restoreStatusForCancelledJobs [] = None"
| "restoreStatusForCancelledJobs (j # js) =
     (case Option.bind (progress j) d_restoreStatus of
        Some r \<Rightarrow> if rs_analysis_status r \<noteq> None \<and> rs_analysis_status r \<noteq> Some [] then Some r
                  else restoreStatusForCancelledJobs js
      | None \<Rightarrow> restoreStatusForCancelledJobs js)"

section \<open>Ownership\<close>

definition last_sign :: "job \<Rightarrow> int" where
  "last_sign j = (case heartbeat_at j of Some h \<Rightarrow> h | None \<Rightarrow>
                   (case started_at j of Some s \<Rightarrow> s | None \<Rightarrow> created_at j))"

definition owner_stale :: "int \<Rightarrow> int \<Rightarrow> job \<Rightarrow> bool" where
  "owner_stale now staleMs j = (last_sign j < now - staleMs)"

definition claimJobOwnership ::
    "int \<Rightarrow> int \<Rightarrow> nat \<Rightarrow> string \<Rightarrow> string option \<Rightarrow> jobs \<Rightarrow> jobs \<times> job option" where
  "claimJobOwnership now staleMs i tok bull t =
     (let (t', rows) = sql_update
        (\<lambda>j. id_of j = i \<and> job_status j \<in> {Queued, Running}
             \<and> (owner_token j = None \<or> owner_token j = Some tok \<or> owner_stale now staleMs j))
        (\<lambda>j. j\<lparr>owner_token := Some tok, heartbeat_at := Some now, job_status := Running,
               job_stage := ''starting'',
               bullmq_job_id := (case bull of None \<Rightarrow> bullmq_job_id j | Some b \<Rightarrow> Some b),
               started_at := (case started_at j of None \<Rightarrow> Some now | Some s \<Rightarrow> Some s)\<rparr>) t
      in (t', first_row rows))"

definition owned_running :: "nat \<Rightarrow> string \<Rightarrow> job \<Rightarrow> bool" where
  "owned_running i tok j = (id_of j = i \<and> owner_token j = Some tok \<and> job_status j = Running)"

definition heartbeat :: "int \<Rightarrow> nat \<Rightarrow> string \<Rightarrow> jobs \<Rightarrow> jobs \<times> nat" where
  "heartbeat now i tok t =
     (let (t', rows) = sql_update (owned_running i tok) (\<lambda>j. j\<lparr>heartbeat_at := Some now\<rparr>) t
      in (t', length rows))"

definition requeueOwnedJob :: "nat \<Rightarrow> string \<Rightarrow> string \<Rightarrow> jobs \<Rightarrow> jobs \<times> job option" where
  "requeueOwnedJob i tok reason t =
     (let (t', rows) = sql_update (owned_running i tok)
        (\<lambda>j. j\<lparr>job_status := Queued, job_stage := ''queued'', bullmq_job_id := None,
               owner_token := None, heartbeat_at := None, error_message := Some reason\<rparr>) t
      in (t', first_row rows))"


section \<open>Dispatch\<close>

record job_extra =
  x_sourceUrl :: "string option"
  x_resumeAnalysis :: bool
  x_newAnalysisRun :: bool
  x_jobType :: string
  x_jobPayload :: "string option"
  x_restoreStatus :: "restore_status option"
  x_membershipPolicy :: "string option"

definition no_dispatch :: dispatch_info where
  "no_dispatch = \<lparr>d_jobType = None, d_sourceUrl = None, d_resumeAnalysis = False, d_newAnalysisRun = False,
                  d_jobPayload = None, d_restoreStatus = None, d_membershipPolicy = None\<rparr>"

text \<open>\<open>a || b\<close> on texts: the first one that is neither absent nor empty.\<close>

definition text_or_else :: "string option \<Rightarrow> string option \<Rightarrow> string option" where
  "text_or_else a b = (if a = None \<or> a = Some [] then b else a)"

definition dispatchExtraFromJob :: "job \<Rightarrow> string option \<Rightarrow> job_extra" where
  "dispatchExtraFromJob j url =
     (let d = (case progress j of None \<Rightarrow> no_dispatch | Some d \<Rightarrow> d);
          jt = (case text_or_else (d_jobType d) (Some (job_type j)) of
                  None \<Rightarrow> ANALYZE | Some s \<Rightarrow> if s = [] then ANALYZE else s);
          pay = (case job_payload j of Some p \<Rightarrow> Some p | None \<Rightarrow> d_jobPayload d)
      in \<lparr>x_sourceUrl = text_or_else (d_sourceUrl d) (text_or_else url None),
          x_resumeAnalysis = (d_resumeAnalysis d \<or> jt = RETRY \<or> jt = RERUN_AI),
          x_newAnalysisRun = (d_newAnalysisRun d \<or> jt = RERUN_AI),
          x_jobType = jt,
          x_jobPayload = pay,
          x_restoreStatus = d_restoreStatus d,
          x_membershipPolicy = d_membershipPolicy d\<rparr>)"

text \<open>
  What the BullMQ queue answers: a job id, an object without one, or an exception.  The queue
  itself is not part of the repository; it is the argument \<open>enqueue\<close> below.
  \<open>enqueueClaimedThreatLibraryJob\<close> is the one the callers pass: it hands the job's data to
  \<open>queue.add\<close>, or throws when there is no queue.
\<close>

datatype enqueue_result = Enqueued string | NoJobId | EnqueueThrows

record bull_data =
  b_reportId :: nat
  b_jobId :: nat
  b_extra :: job_extra

definition enqueueClaimedThreatLibraryJob ::
    "(string \<Rightarrow> bull_data \<Rightarrow> enqueue_result) option \<Rightarrow> (nat \<Rightarrow> report_row option) \<Rightarrow> job \<Rightarrow> job_extra \<Rightarrow> enqueue_result" where
  "enqueueClaimedThreatLibraryJob queue_add reports j extra =
     (case queue_add of
        None \<Rightarrow> EnqueueThrows
      | Some add \<Rightarrow>
          let x = dispatchExtraFromJob j (Option.bind (reports (report_id j)) source_url)
          in add (x_jobType x) \<lparr>b_reportId = report_id j, b_jobId = id_of j, b_extra = x\<rparr>)"

datatype dispatch_error = SettingRejected | EnqueueWithoutId | EnqueueFailed

record claimed_job =
  c_jobId :: nat
  c_reportId :: nat
  c_bullmqJobId :: string
  c_jobType :: string

record dispatch_result =
  r_claimed :: "claimed_job list"
  r_occupied :: nat
  r_limit :: nat
  r_available :: nat

text \<open>The rows counted against the slot limit.\<close>

definition occupies :: "job \<Rightarrow> bool" where
  "occupies j = (live j \<and> bullmq_job_id j \<noteq> None \<and> job_type j \<in> set ALL_THREAT_LIBRARY_JOB_MODES)"

definition occupied_count :: "jobs \<Rightarrow> nat" where
  "occupied_count t = length (filter occupies t)"

text \<open>The \<open>NOT EXISTS\<close> subquery: another claimed pipeline job of the same report.\<close>

definition other_claimed :: "jobs \<Rightarrow> job \<Rightarrow> bool" where
  "other_claimed t j = list_ex (\<lambda>other. report_id other = report_id j \<and> id_of other \<noteq> id_of j \<and> live other
                          \<and> bullmq_job_id other \<noteq> None \<and> pipeline other) t"

definition eligible :: "int \<Rightarrow> (nat \<Rightarrow> report_row option) \<Rightarrow> jobs \<Rightarrow> job \<Rightarrow> bool" where
  "eligible now reports t j =
     (job_status j = Queued \<and> bullmq_job_id j = None \<and> job_type j \<in> set ALL_THREAT_LIBRARY_JOB_MODES
      \<and> (case reports (report_id j) of None \<Rightarrow> False | Some r \<Rightarrow> \<not> deleted r)
      \<and> (case not_before j of None \<Rightarrow> True | Some nb \<Rightarrow> nb \<le> now)
      \<and> (\<not> pipeline j \<or> \<not> other_claimed t j))"

text \<open>
  \<open>ORDER BY created_at, id\<close>: the rows stand in id order, and \<open>sort_key\<close> is stable.  \<open>row_locked\<close> are
  the ids whose rows another transaction holds: \<open>SKIP LOCKED\<close> leaves them out before \<open>LIMIT\<close>.
\<close>

definition candidates :: "int \<Rightarrow> (nat \<Rightarrow> report_row option) \<Rightarrow> (nat \<Rightarrow> bool) \<Rightarrow> nat \<Rightarrow> jobs \<Rightarrow> job list" where
  "candidates now reports row_locked n t =
     take n (sort_key created_at (filter (\<lambda>j. eligible now reports t j \<and> \<not> row_locked (id_of j)) t))"

definition claim_row :: "nat \<Rightarrow> string \<Rightarrow> jobs \<Rightarrow> jobs \<times> job list" where
  "claim_row i bull t =
     sql_update (\<lambda>j. id_of j = i \<and> job_status j = Queued \<and> bullmq_job_id j = None)
                (\<lambda>j. j\<lparr>bullmq_job_id := Some bull\<rparr>) t"

text \<open>The loop over the candidates: the table, the reports claimed so far, the claimed jobs.\<close>

fun dispatch_loop ::
    "(nat \<Rightarrow> report_row option) \<Rightarrow> (job \<Rightarrow> job_extra \<Rightarrow> enqueue_result) \<Rightarrow> job list \<Rightarrow> jobs \<Rightarrow> nat list
     \<Rightarrow> claimed_job list \<Rightarrow> (dispatch_error, jobs \<times> claimed_job list) result" where
  "dispatch_loop reports enqueue [] t reps acc = Inr (t, acc)"
| "dispatch_loop reports enqueue (j # js) t reps acc =
     (if pipeline j \<and> report_id j \<in> set reps then dispatch_loop reports enqueue js t reps acc
      else let reps' = (if pipeline j then report_id j # reps else reps);
               extra = dispatchExtraFromJob j (Option.bind (reports (report_id j)) source_url)
           in case enqueue j extra of
                EnqueueThrows \<Rightarrow> Inl EnqueueFailed
              | NoJobId \<Rightarrow> Inl EnqueueWithoutId
              | Enqueued bull \<Rightarrow>
                  (case claim_row (id_of j) bull t of (t', rows) \<Rightarrow>
                     if rows = [] then dispatch_loop reports enqueue js t' reps' acc
                     else dispatch_loop reports enqueue js t' reps'
                            (acc @ [\<lparr>c_jobId = id_of j, c_reportId = report_id j, c_bullmqJobId = bull,
                                     c_jobType = x_jobType extra\<rparr>])))"

text \<open>
  One dispatch transaction.  \<open>settings\<close> is \<open>max_concurrent_report_analyses\<close> of the settings row,
  \<open>override\<close> is \<open>opts.limitOverride\<close> (\<open>None\<close>: not given).  An exception rolls the transaction back.
\<close>

definition dispatch_limit :: "setting option \<Rightarrow> setting \<Rightarrow> (dispatch_error, nat) result" where
  "dispatch_limit override settings =
     (case override of
        None \<Rightarrow> Inr (nat (resolveMaxConcurrentReportAnalyses settings))
      | Some v \<Rightarrow> (case parseMaxConcurrentReportAnalyses v of
                     Inl _ \<Rightarrow> Inl SettingRejected | Inr n \<Rightarrow> Inr (nat n)))"

definition dispatchQueuedThreatLibraryAnalyses ::
    "int \<Rightarrow> (nat \<Rightarrow> report_row option) \<Rightarrow> (nat \<Rightarrow> bool) \<Rightarrow> (job \<Rightarrow> job_extra \<Rightarrow> enqueue_result) \<Rightarrow> setting option
     \<Rightarrow> setting \<Rightarrow> jobs \<Rightarrow> jobs \<times> (dispatch_error, dispatch_result) result" where
  "dispatchQueuedThreatLibraryAnalyses now reports row_locked enqueue override settings t =
     (case dispatch_limit override settings of
        Inl e \<Rightarrow> (t, Inl e)
      | Inr limit \<Rightarrow>
          (let occupied = occupied_count t; available = limit - occupied in
           if available = 0
           then (t, Inr \<lparr>r_claimed = [], r_occupied = occupied, r_limit = limit, r_available = 0\<rparr>)
           else (case dispatch_loop reports enqueue (candidates now reports row_locked available t) t [] [] of
                   Inl e \<Rightarrow> (t, Inl e)
                 | Inr (t', claimed) \<Rightarrow>
                     (t', Inr \<lparr>r_claimed = claimed, r_occupied = occupied + length claimed, r_limit = limit,
                               r_available = limit - (occupied + length claimed)\<rparr>))))"

text \<open>\<open>queueThreatLibraryAnalysis\<close>: persist, then dispatch.\<close>

definition queueThreatLibraryAnalysis ::
    "int \<Rightarrow> (nat \<Rightarrow> report_row option) \<Rightarrow> (nat \<Rightarrow> bool) \<Rightarrow> (job \<Rightarrow> job_extra \<Rightarrow> enqueue_result) \<Rightarrow> setting
     \<Rightarrow> nat \<Rightarrow> string \<Rightarrow> string option \<Rightarrow> string option \<Rightarrow> dispatch_info option \<Rightarrow> jobs
     \<Rightarrow> jobs \<times> job \<times> (dispatch_error, dispatch_result) result" where
  "queueThreatLibraryAnalysis now reports row_locked enqueue settings report jtype by payload dispatch t =
     (let (t1, row) = createJob now report jtype by None
            (text_or_else payload (Option.bind dispatch d_jobPayload)) t;
          t2 = (case dispatch of
                  None \<Rightarrow> t1
                | Some d \<Rightarrow> fst (updateJob now (id_of row)
                    \<lparr>p_status = Some Queued, p_stage = Some ''queued'', p_progress = Some (Some d),
                     p_error_message = None, p_bullmq_job_id = None\<rparr> t1));
          (t3, r) = dispatchQueuedThreatLibraryAnalyses now reports row_locked enqueue None settings t2
      in (t3, row, r))"

section \<open>Crash recovery\<close>

text \<open>
  \<open>recoverInterruptedAnalysisJobs\<close> reads the occupied rows once and then decides row by row; each
  UPDATE re-checks its row.  \<open>state i\<close> is what \<open>getJobState\<close> says of the row's BullMQ entry (\<open>None\<close>
  when it is missing, unknown or the call fails).
\<close>

definition recover_running :: "int \<Rightarrow> int \<Rightarrow> nat \<Rightarrow> jobs \<Rightarrow> jobs \<times> job list" where
  "recover_running now staleMs i t =
     sql_update
       (\<lambda>j. id_of j = i \<and> job_status j = Running \<and> (owner_token j = None \<or> owner_stale now staleMs j))
       (\<lambda>j. j\<lparr>job_status := Queued, bullmq_job_id := None, job_stage := ''queued'', owner_token := None,
              heartbeat_at := None, error_message := Some ''recovered after interrupted analysis''\<rparr>) t"

definition recover_queued :: "nat \<Rightarrow> jobs \<Rightarrow> jobs \<times> job list" where
  "recover_queued i t =
     sql_update (\<lambda>j. id_of j = i \<and> job_status j = Queued) (\<lambda>j. j\<lparr>bullmq_job_id := None\<rparr>) t"

datatype recover_reason = Owner_heartbeat_stale | Interrupted_running | Stale_claim

definition spared :: "int \<Rightarrow> int \<Rightarrow> (string \<Rightarrow> string option) \<Rightarrow> job \<Rightarrow> bool" where
  "spared now staleMs state row =
     (let is_owned = (job_status row = Running \<and> owner_token row \<noteq> None) in
      if is_owned then \<not> owner_stale now staleMs row
      else (case Option.bind (bullmq_job_id row) state of
              None \<Rightarrow> False | Some s \<Rightarrow> s \<in> set LIVE_BULLMQ_STATES))"

text \<open>One pass over the rows that were read; the third component are the reports set back to pending.\<close>

fun recover_loop ::
    "int \<Rightarrow> int \<Rightarrow> (string \<Rightarrow> string option) \<Rightarrow> job list \<Rightarrow> jobs \<Rightarrow> jobs \<times> (nat \<times> recover_reason) list \<times> nat list" where
  "recover_loop now staleMs state [] t = (t, [], [])"
| "recover_loop now staleMs state (row # rows) t =
     (if spared now staleMs state row then recover_loop now staleMs state rows t
      else if job_status row = Running
      then (let (t', upd) = recover_running now staleMs (id_of row) t in
            if upd = [] then recover_loop now staleMs state rows t'
            else let (t'', rec, pend) = recover_loop now staleMs state rows t' in
              (t'', (id_of row, if owner_token row \<noteq> None then Owner_heartbeat_stale else Interrupted_running) # rec,
               report_id row # pend))
      else (let (t', upd) = recover_queued (id_of row) t;
                (t'', rec, pend) = recover_loop now staleMs state rows t' in
            (t'', (id_of row, Stale_claim) # rec, pend)))"

definition recoverInterruptedAnalysisJobs ::
    "int \<Rightarrow> int \<Rightarrow> (string \<Rightarrow> string option) \<Rightarrow> jobs \<Rightarrow> jobs \<times> (nat \<times> recover_reason) list \<times> nat list" where
  "recoverInterruptedAnalysisJobs now staleMs state t =
     recover_loop now (if staleMs > 0 then staleMs else JOB_OWNER_STALE_MS) state (filter occupies t) t"


section \<open>The operations as steps\<close>

datatype job_op =
    Create nat string "string option" "string option" "string option"
  | CreateExclusive nat string "string option" "string option" "int option"
  | Update nat job_patch
  | Expedite nat
  | CancelUnclaimed nat
  | Claim nat string "string option"
  | Beat nat string
  | Requeue nat string string
  | Recover job "string \<Rightarrow> string option"
  | Dispatch "nat \<Rightarrow> report_row option" "nat \<Rightarrow> bool" "job \<Rightarrow> job_extra \<Rightarrow> enqueue_result" "setting option" setting

text \<open>
  One operation on the table at time \<open>now\<close>.  A recovery pass is cut into its rows: \<open>Recover row _\<close>
  is the UPDATE for a row as the pass read it, possibly long before.
\<close>

fun apply_op :: "int \<Rightarrow> job_op \<Rightarrow> jobs \<Rightarrow> jobs" where
  "apply_op now (Create report jtype by bull payload) t = fst (createJob now report jtype by bull payload t)"
| "apply_op now (CreateExclusive report jtype by payload nb) t = fst (createExclusivePipelineJob now report jtype by payload nb t)"
| "apply_op now (Update i p) t = fst (updateJob now i p t)"
| "apply_op now (Expedite i) t = fst (expediteDelayedJob i t)"
| "apply_op now (CancelUnclaimed report) t = fst (cancelUnclaimedAnalysisJobs now report t)"
| "apply_op now (Claim i tok bull) t = fst (claimJobOwnership now JOB_OWNER_STALE_MS i tok bull t)"
| "apply_op now (Beat i tok) t = fst (heartbeat now i tok t)"
| "apply_op now (Requeue i tok reason) t = fst (requeueOwnedJob i tok reason t)"
| "apply_op now (Recover row state) t = fst (recover_loop now JOB_OWNER_STALE_MS state [row] t)"
| "apply_op now (Dispatch reports row_locked enqueue override settings) t =
     fst (dispatchQueuedThreatLibraryAnalyses now reports row_locked enqueue override settings t)"

definition no_live_pipeline :: "nat \<Rightarrow> jobs \<Rightarrow> bool" where
  "no_live_pipeline report t = list_all (\<lambda>j. \<not> (report_id j = report \<and> live j \<and> pipeline j)) t"

text \<open>
  What the callers of the two unguarded statements ensure.  \<open>createJob\<close> is called for a report that
  was just inserted, or for a job type outside the pipeline; \<open>updateJob\<close> sets \<open>queued\<close> or
  \<open>running\<close> only on a row that has not ended.  Nothing in the statements themselves checks it.
\<close>

fun permitted :: "job_op \<Rightarrow> jobs \<Rightarrow> bool" where
  "permitted (Create report jtype by bull payload) t =
     ((jtype \<noteq> [] \<and> jtype \<notin> set REPORT_PIPELINE_JOB_TYPES) \<or> no_live_pipeline report t)"
| "permitted (Update i p) t =
     (p_status p \<notin> {Some Queued, Some Running} \<or> list_all (\<lambda>j. id_of j = i \<longrightarrow> live j) t)"
| "permitted op t = True"

inductive job_step :: "jobs \<Rightarrow> jobs \<Rightarrow> bool" where
  step: "permitted op t \<Longrightarrow> job_step t (apply_op now op t)"

fun run_ops :: "(int \<times> job_op) list \<Rightarrow> jobs \<Rightarrow> jobs" where
  "run_ops [] t = t"
| "run_ops ((now, op) # ops) t = run_ops ops (apply_op now op t)"

section \<open>Facts about the statements\<close>

definition rows_ok :: "jobs \<Rightarrow> bool" where
  "rows_ok t = sorted_wrt (<) (map id_of t)"

text \<open>An update that keeps a row's identity and revives no ended row.\<close>

definition tame :: "(job \<Rightarrow> job) \<Rightarrow> (job \<Rightarrow> bool) \<Rightarrow> bool" where
  "tame f P \<longleftrightarrow> (\<forall>j. P j \<longrightarrow> id_of (f j) = id_of j \<and> report_id (f j) = report_id j
                          \<and> job_type (f j) = job_type j \<and> (live (f j) \<longrightarrow> live j))"

definition unique_live :: "jobs \<Rightarrow> bool" where
  "unique_live t \<longleftrightarrow> (\<forall>r. length (filter (\<lambda>j. report_id j = r \<and> live j \<and> pipeline j) t) \<le> 1)"

definition queue_inv :: "jobs \<Rightarrow> bool" where
  "queue_inv t \<longleftrightarrow> rows_ok t \<and> unique_live t"

lemma fst_sql_update: "fst (sql_update P f t) = map (\<lambda>j. if P j then f j else j) t"
  by (simp add: sql_update_def)

lemma live_simps [simp]: "live j \<longleftrightarrow> job_status j = Queued \<or> job_status j = Running"
  by (auto simp: live_def OCCUPIED_JOB_STATUSES_def)

lemma pipeline_cong [simp]:
  "pipeline (j\<lparr>bullmq_job_id := b\<rparr>) = pipeline j"
  by (simp add: pipeline_def)

lemma pipeline_in_all: "pipeline j \<Longrightarrow> job_type j \<in> set ALL_THREAT_LIBRARY_JOB_MODES"
  by (auto simp: pipeline_def REPORT_PIPELINE_JOB_TYPES_def ALL_THREAT_LIBRARY_JOB_MODES_def PIPELINE_JOB_MODES_def)

lemma queue_inv_update:
  assumes "tame f P" "queue_inv t"
  shows "queue_inv (fst (sql_update P f t))"
proof -
  have ids: "map id_of (fst (sql_update P f t)) = map id_of t"
    using assms(1) by (auto simp: fst_sql_update tame_def)
  have le: "length (filter (\<lambda>j. report_id j = r \<and> live j \<and> pipeline j) (fst (sql_update P f t)))
      \<le> length (filter (\<lambda>j. report_id j = r \<and> live j \<and> pipeline j) t)" for r
    using assms(1) unfolding fst_sql_update
    by (intro length_filter_map_le) (auto simp: tame_def pipeline_def split: if_splits)
  have "unique_live (fst (sql_update P f t))"
    using assms(2) unfolding queue_inv_def unique_live_def by (blast intro: order_trans [OF le])
  with assms(2) ids show ?thesis by (simp add: queue_inv_def rows_ok_def)
qed

lemma fold_max_id: "m \<le> fold (\<lambda>j. max (id_of j)) t m"
  by (induction t arbitrary: m) (auto intro: order_trans [OF max.cobounded2])

lemma fold_max_member: "j \<in> set t \<Longrightarrow> id_of j \<le> fold (\<lambda>j. max (id_of j)) t m"
  by (induction t arbitrary: m) (auto intro: order_trans [OF max.cobounded1 fold_max_id])

lemma next_id_greater: "j \<in> set t \<Longrightarrow> id_of j < next_id t"
  by (simp add: next_id_def less_Suc_eq_le fold_max_member)

lemma queue_inv_insert:
  assumes "queue_inv t" "id_of j = next_id t"
    and "\<not> pipeline j \<or> no_live_pipeline (report_id j) t"
  shows "queue_inv (t @ [j])"
proof -
  have "rows_ok (t @ [j])"
    using assms(1,2) next_id_greater by (auto simp: queue_inv_def rows_ok_def sorted_wrt_append)
  moreover have "length (filter (\<lambda>k. report_id k = r \<and> live k \<and> pipeline k) (t @ [j])) \<le> 1" for r
  proof (cases "report_id j = r \<and> pipeline j")
    case True
    then have "filter (\<lambda>k. report_id k = r \<and> live k \<and> pipeline k) t = []"
      using assms(3) by (auto simp: no_live_pipeline_def list_all_iff filter_empty_conv)
    then show ?thesis by simp
  next
    case False
    then show ?thesis using assms(1) by (auto simp: queue_inv_def unique_live_def)
  qed
  ultimately show ?thesis by (simp add: queue_inv_def unique_live_def)
qed

lemma existing_live_None: "existing_live r t = None \<Longrightarrow> no_live_pipeline r t"
  by (auto simp: existing_live_def first_row_def no_live_pipeline_def list_all_iff filter_empty_conv
      split: list.splits)


section \<open>Facts about dispatch\<close>

text \<open>The candidates the loop does not skip, and the id its queue gave each.\<close>

fun picked :: "nat list \<Rightarrow> job list \<Rightarrow> job list" where
  "picked reps [] = []"
| "picked reps (j # js) =
     (if pipeline j \<and> report_id j \<in> set reps then picked reps js
      else j # picked (if pipeline j then report_id j # reps else reps) js)"

definition the_bull :: "enqueue_result \<Rightarrow> string" where
  "the_bull r = (case r of Enqueued b \<Rightarrow> b | _ \<Rightarrow> [])"

definition claim_mark :: "(job \<Rightarrow> string) \<Rightarrow> job list \<Rightarrow> jobs \<Rightarrow> jobs" where
  "claim_mark bull js t = map (\<lambda>j. if j \<in> set js then j\<lparr>bullmq_job_id := Some (bull j)\<rparr> else j) t"

lemma picked_subset: "set (picked reps js) \<subseteq> set js"
  by (induction reps js rule: picked.induct) auto

lemma distinct_picked: "distinct js \<Longrightarrow> distinct (picked reps js)"
  by (induction reps js rule: picked.induct) (use picked_subset in \<open>auto split: if_splits\<close>)

lemma picked_reports:
  "\<lbrakk>j \<in> set (picked reps js); pipeline j\<rbrakk> \<Longrightarrow> report_id j \<notin> set reps"
  by (induction reps js rule: picked.induct) (auto split: if_splits)

lemma picked_one_per_report:
  "\<lbrakk>j \<in> set (picked reps js); k \<in> set (picked reps js); pipeline j; pipeline k; report_id j = report_id k\<rbrakk>
     \<Longrightarrow> j = k"
proof (induction reps js rule: picked.induct)
  case (2 reps x xs)
  then show ?case using picked_reports by (auto split: if_splits) (metis list.set_intros(1) picked_reports)+
qed simp

lemma rows_ok_distinct: "rows_ok t \<Longrightarrow> distinct (map id_of t)"
  by (simp add: rows_ok_def strict_sorted_iff)

lemma same_id_same_row: "\<lbrakk>distinct (map id_of t); j \<in> set t; k \<in> set t; id_of j = id_of k\<rbrakk> \<Longrightarrow> j = k"
  by (simp add: distinct_map inj_on_def)

lemma claim_row_eq:
  assumes "distinct (map id_of t)" "j \<in> set t" "job_status j = Queued" "bullmq_job_id j = None"
  shows "fst (claim_row (id_of j) b t) = claim_mark (\<lambda>_. b) [j] t"
    and "snd (claim_row (id_of j) b t) \<noteq> []"
proof -
  have "(id_of k = id_of j \<and> job_status k = Queued \<and> bullmq_job_id k = None) = (k = j)" if "k \<in> set t" for k
    using same_id_same_row [OF assms(1) that assms(2)] assms(3,4) by auto
  then show "fst (claim_row (id_of j) b t) = claim_mark (\<lambda>_. b) [j] t"
    and "snd (claim_row (id_of j) b t) \<noteq> []"
    using assms(2-4) by (auto simp: claim_row_def sql_update_def claim_mark_def filter_empty_conv)
qed

lemma claim_mark_ids [simp]: "map id_of (claim_mark bull js t) = map id_of t"
  by (simp add: claim_mark_def)

lemma claim_mark_keeps: "k \<in> set t \<Longrightarrow> k \<notin> set js \<Longrightarrow> k \<in> set (claim_mark bull js t)"
  by (force simp: claim_mark_def)

lemma claim_mark_mark:
  assumes "\<forall>j\<in>set js. bullmq_job_id j = None" "j \<notin> set js"
  shows "claim_mark bull js (claim_mark bull [j] t) = claim_mark bull (j # js) t"
  using assms by (auto simp: claim_mark_def)

text \<open>The whole loop, when the queue accepts every picked job.\<close>

definition x_of :: "(nat \<Rightarrow> report_row option) \<Rightarrow> job \<Rightarrow> job_extra" where
  "x_of reports j = dispatchExtraFromJob j (Option.bind (reports (report_id j)) source_url)"

definition entry :: "(nat \<Rightarrow> report_row option) \<Rightarrow> (job \<Rightarrow> job_extra \<Rightarrow> enqueue_result) \<Rightarrow> job \<Rightarrow> claimed_job" where
  "entry reports enqueue j =
     \<lparr>c_jobId = id_of j, c_reportId = report_id j,
      c_bullmqJobId = the_bull (enqueue j (x_of reports j)), c_jobType = x_jobType (x_of reports j)\<rparr>"

lemma dispatch_loop_eq:
  assumes "dispatch_loop reports enqueue js t reps acc = Inr (t', cl)"
    and "distinct (map id_of t)" "distinct js"
    and "\<forall>j\<in>set js. j \<in> set t \<and> job_status j = Queued \<and> bullmq_job_id j = None"
  shows "t' = claim_mark (\<lambda>j. the_bull (enqueue j (x_of reports j))) (picked reps js) t
         \<and> cl = acc @ map (entry reports enqueue) (picked reps js)"
  using assms
proof (induction js arbitrary: t reps acc)
  case Nil
  then show ?case by (simp add: claim_mark_def)
next
  case (Cons j js)
  let ?bull = "\<lambda>j. the_bull (enqueue j (x_of reports j))"
  show ?case
  proof (cases "pipeline j \<and> report_id j \<in> set reps")
    case True
    then show ?thesis using Cons by simp
  next
    case False
    let ?reps = "if pipeline j then report_id j # reps else reps"
    from Cons.prems(1) False obtain b where b: "enqueue j (x_of reports j) = Enqueued b"
      by (auto simp: x_of_def Let_def split: enqueue_result.splits)
    have j: "j \<in> set t" "job_status j = Queued" "bullmq_job_id j = None" using Cons.prems(4) by auto
    have mark: "fst (claim_row (id_of j) b t) = claim_mark ?bull [j] t"
      using claim_row_eq(1) [OF Cons.prems(2) j] b by (simp add: the_bull_def claim_mark_def)
    have step: "dispatch_loop reports enqueue js (claim_mark ?bull [j] t) ?reps (acc @ [entry reports enqueue j]) = Inr (t', cl)"
      using Cons.prems(1) False b claim_row_eq(2) [OF Cons.prems(2) j, of b] mark
      by (cases "pipeline j") (simp_all add: x_of_def [symmetric] entry_def the_bull_def Let_def split: prod.splits)
    have rest: "\<forall>k\<in>set js. k \<in> set (claim_mark ?bull [j] t) \<and> job_status k = Queued \<and> bullmq_job_id k = None"
      using Cons.prems(3,4) by (auto intro!: claim_mark_keeps)
    have nj: "j \<notin> set (picked ?reps js)" "\<forall>k\<in>set (picked ?reps js). bullmq_job_id k = None"
      using Cons.prems(3,4) picked_subset [of ?reps js] by auto
    have pk: "picked reps (j # js) = j # picked ?reps js" using False by auto
    show ?thesis
      unfolding pk
      using Cons.IH [OF step _ _ rest] Cons.prems(2,3) claim_mark_mark [OF nj(2,1), of ?bull t] by simp
  qed
qed

lemma candidates_ok:
  assumes "rows_ok t"
  shows "distinct (candidates now reports row_locked n t)"
    and "j \<in> set (candidates now reports row_locked n t) \<Longrightarrow> j \<in> set t \<and> eligible now reports t j"
proof -
  have "distinct t" using rows_ok_distinct [OF assms] by (simp add: distinct_map)
  then show "distinct (candidates now reports row_locked n t)" by (simp add: candidates_def)
  show "j \<in> set (candidates now reports row_locked n t) \<Longrightarrow> j \<in> set t \<and> eligible now reports t j"
    by (auto simp: candidates_def dest: in_set_takeD)
qed


lemma length_filter_marked:
  assumes "distinct t" "set js \<subseteq> set t" "distinct js" "\<forall>j\<in>set js. \<not> Q j \<and> Q (f j)"
  shows "length (filter Q (map (\<lambda>j. if j \<in> set js then f j else j) t)) = length (filter Q t) + length js"
proof -
  have "length (filter Q (map (\<lambda>j. if j \<in> set js then f j else j) t))
      = length (filter Q t) + length (filter (\<lambda>j. j \<in> set js) t)"
    using assms(4) by (induction t) auto
  moreover have "length (filter (\<lambda>j. j \<in> set js) t) = length js"
  proof -
    have "set (filter (\<lambda>j. j \<in> set js) t) = set js" using assms(2) by auto
    then show ?thesis using assms(1,3) by (metis distinct_card distinct_filter)
  qed
  ultimately show ?thesis by simp
qed

lemma dispatch_success:
  assumes "dispatchQueuedThreatLibraryAnalyses now reports row_locked enqueue override settings t = (t', Inr r)"
    and "rows_ok t"
  defines "js \<equiv> picked [] (candidates now reports row_locked (r_limit r - occupied_count t) t)"
    and "bull \<equiv> (\<lambda>j. the_bull (enqueue j (x_of reports j)))"
  shows "t' = claim_mark bull js t" and "r_claimed r = map (entry reports enqueue) js"
    and "r_occupied r = occupied_count t + length js" and "r_available r = r_limit r - r_occupied r"
    and "dispatch_limit override settings = Inr (r_limit r)"
proof -
  from assms(1) obtain limit where limit: "dispatch_limit override settings = Inr limit" and rl: "r_limit r = limit"
    by (auto simp: dispatchQueuedThreatLibraryAnalyses_def Let_def split: sum.splits if_splits prod.splits)
  then show "dispatch_limit override settings = Inr (r_limit r)" by simp
  let ?c = "candidates now reports row_locked (limit - occupied_count t) t"
  have ok: "\<forall>j\<in>set ?c. j \<in> set t \<and> job_status j = Queued \<and> bullmq_job_id j = None"
    using candidates_ok(2) [OF assms(2)] by (force simp: eligible_def)
  have "t' = claim_mark bull js t \<and> r_claimed r = map (entry reports enqueue) js
      \<and> r_occupied r = occupied_count t + length js \<and> r_available r = r_limit r - r_occupied r"
  proof (cases "limit - occupied_count t = 0")
    case True
    then show ?thesis
      using assms(1) limit unfolding js_def
      by (auto simp: dispatchQueuedThreatLibraryAnalyses_def Let_def candidates_def claim_mark_def)
  next
    case False
    then obtain cl where loop: "dispatch_loop reports enqueue ?c t [] [] = Inr (t', cl)"
      and r: "r = \<lparr>r_claimed = cl, r_occupied = occupied_count t + length cl, r_limit = limit,
                   r_available = limit - (occupied_count t + length cl)\<rparr>"
      using assms(1) limit
      by (auto simp: dispatchQueuedThreatLibraryAnalyses_def Let_def split: sum.splits)
    from dispatch_loop_eq [OF loop rows_ok_distinct [OF assms(2)] candidates_ok(1) [OF assms(2)] ok]
    show ?thesis using r by (simp add: js_def bull_def)
  qed
  then show "t' = claim_mark bull js t" "r_claimed r = map (entry reports enqueue) js"
    "r_occupied r = occupied_count t + length js" "r_available r = r_limit r - r_occupied r" by simp_all
qed

lemma dispatch_failure:
  "dispatchQueuedThreatLibraryAnalyses now reports row_locked enqueue override settings t = (t', Inl e) \<Longrightarrow> t' = t"
  by (auto simp: dispatchQueuedThreatLibraryAnalyses_def Let_def split: sum.splits if_splits prod.splits)

lemma dispatch_picked:
  assumes "rows_ok t" "js = picked [] (candidates now reports row_locked n t)"
  shows "distinct js" "set js \<subseteq> set t" "length js \<le> n" "\<forall>j\<in>set js. eligible now reports t j"
proof -
  show "distinct js" using assms distinct_picked candidates_ok(1) by blast
  show "set js \<subseteq> set t" "\<forall>j\<in>set js. eligible now reports t j"
    using assms picked_subset candidates_ok(2) [OF assms(1)] by blast+
  have "length (picked reps ks) \<le> length ks" for reps ks by (induction reps ks rule: picked.induct) auto
  then show "length js \<le> n" unfolding assms(2) by (rule order_trans) (simp add: candidates_def)
qed

lemma occupied_count_claim_mark:
  assumes "rows_ok t" "distinct js" "set js \<subseteq> set t" "\<forall>j\<in>set js. eligible now reports t j"
  shows "occupied_count (claim_mark bull js t) = occupied_count t + length js"
proof -
  have "distinct t" using rows_ok_distinct [OF assms(1)] by (simp add: distinct_map)
  then show ?thesis unfolding occupied_count_def claim_mark_def
    using assms(2-4) by (intro length_filter_marked) (auto simp: occupies_def eligible_def)
qed

lemma parseMax_bounds: "parseMaxConcurrentReportAnalyses v = Inr n \<Longrightarrow> 1 \<le> n \<and> n \<le> 4"
  by (auto simp: parseMaxConcurrentReportAnalyses_def integer_in_def Let_def le_floor_iff floor_le_iff
      split: setting.splits option.splits if_splits)

lemma resolveMax_bounds: "1 \<le> resolveMaxConcurrentReportAnalyses v \<and> resolveMaxConcurrentReportAnalyses v \<le> 4"
  using parseMax_bounds by (auto simp: resolveMaxConcurrentReportAnalyses_def split: sum.splits)

lemma dispatch_limit_bounds: "dispatch_limit override settings = Inr n \<Longrightarrow> 1 \<le> n \<and> n \<le> 4"
  using parseMax_bounds resolveMax_bounds [of settings]
  by (fastforce simp: dispatch_limit_def nat_le_iff le_nat_iff split: option.splits sum.splits)


lemma two_live_same_row:
  assumes "unique_live t" "j \<in> set t" "k \<in> set t" "live j" "live k" "pipeline j" "pipeline k" "report_id j = report_id k"
  shows "j = k"
proof (rule ccontr)
  assume "j \<noteq> k"
  let ?f = "filter (\<lambda>x. report_id x = report_id k \<and> live x \<and> pipeline x) t"
  have "{j, k} \<subseteq> set ?f" using assms by auto
  then have "card {j, k} \<le> length ?f" by (meson card_length card_mono finite_set order_trans)
  moreover have "length ?f \<le> 1" using assms(1) by (simp add: unique_live_def)
  ultimately show False using \<open>j \<noteq> k\<close> by simp
qed

lemma picked_all:
  assumes "distinct js"
    and "\<And>j k. \<lbrakk>j \<in> set js; k \<in> set js; pipeline j; pipeline k; report_id j = report_id k\<rbrakk> \<Longrightarrow> j = k"
    and "\<And>j. \<lbrakk>j \<in> set js; pipeline j\<rbrakk> \<Longrightarrow> report_id j \<notin> set reps"
  shows "picked reps js = js"
  using assms
proof (induction js arbitrary: reps)
  case (Cons j js)
  have "report_id k \<noteq> report_id j" if "k \<in> set js" "pipeline k" "pipeline j" for k
    using Cons.prems(1) Cons.prems(2) [of k j] that by auto
  then have "picked (if pipeline j then report_id j # reps else reps) js = js"
    using Cons.prems(1,3) by (intro Cons.IH Cons.prems(2)) auto
  then show ?case using Cons.prems(3) [of j] by auto
qed simp

lemma picked_candidates:
  assumes "queue_inv t"
  shows "picked [] (candidates now reports row_locked n t) = candidates now reports row_locked n t"
proof (rule picked_all)
  have ok: "rows_ok t" "unique_live t" using assms by (simp_all add: queue_inv_def)
  show "distinct (candidates now reports row_locked n t)" using candidates_ok(1) [OF ok(1)] .
  show "j = k" if "j \<in> set (candidates now reports row_locked n t)" "k \<in> set (candidates now reports row_locked n t)"
    "pipeline j" "pipeline k" "report_id j = report_id k" for j k
    using that candidates_ok(2) [OF ok(1)] two_live_same_row [OF ok(2), of j k]
    by (auto simp: eligible_def)
qed simp

lemma sorted_take_drop:
  "\<lbrakk>sorted (map f xs); x \<in> set (take n xs); y \<in> set (drop n xs)\<rbrakk> \<Longrightarrow> f x \<le> (f y :: int)"
  using sorted_append [of "map f (take n xs)" "map f (drop n xs)"] by (simp flip: map_append)

lemma candidates_oldest:
  assumes "j \<in> set (candidates now reports row_locked n t)" "k \<in> set t" "eligible now reports t k"
    "\<not> row_locked (id_of k)" "k \<notin> set (candidates now reports row_locked n t)"
  shows "created_at j \<le> created_at k"
proof -
  let ?s = "sort_key created_at (filter (\<lambda>j. eligible now reports t j \<and> \<not> row_locked (id_of j)) t)"
  have "k \<in> set ?s" using assms(2-4) by simp
  then have "k \<in> set (drop n ?s)"
    using assms(5) unfolding candidates_def by (metis Un_iff append_take_drop_id set_append)
  with assms(1) show ?thesis unfolding candidates_def by (intro sorted_take_drop [of created_at ?s j n k]) auto
qed

lemma candidates_exhaust:
  assumes "length (candidates now reports row_locked n t) < n" "k \<in> set t" "eligible now reports t k" "\<not> row_locked (id_of k)"
  shows "k \<in> set (candidates now reports row_locked n t)"
  using assms by (simp add: candidates_def)

text \<open>
  C7: a dispatch that commits reports the slots that are then really occupied; it never takes the
  number of claimed jobs past the configured limit, which is between 1 and 4; it takes the oldest
  waiting jobs first; and it leaves a slot free only when no eligible row is left waiting.
\<close>

theorem dispatch_fills_slots:
  assumes "dispatchQueuedThreatLibraryAnalyses now reports row_locked enqueue override settings t = (t', Inr r)"
    and "queue_inv t"
  shows "r_occupied r = occupied_count t'
       \<and> occupied_count t' \<le> max (occupied_count t) (r_limit r)
       \<and> 1 \<le> r_limit r \<and> r_limit r \<le> 4
       \<and> (\<forall>j\<in>set t. \<forall>k\<in>set t. id_of j \<in> c_jobId ` set (r_claimed r) \<and> eligible now reports t k \<and> \<not> row_locked (id_of k)
             \<longrightarrow> id_of k \<in> c_jobId ` set (r_claimed r) \<or> created_at j \<le> created_at k)
       \<and> (0 < r_available r \<longrightarrow>
            (\<forall>k\<in>set t. eligible now reports t k \<and> \<not> row_locked (id_of k) \<longrightarrow> id_of k \<in> c_jobId ` set (r_claimed r)))"
proof -
  have ok: "rows_ok t" using assms(2) by (simp add: queue_inv_def)
  define js where "js = candidates now reports row_locked (r_limit r - occupied_count t) t"
  note d = dispatch_success [OF assms(1) ok, unfolded picked_candidates [OF assms(2)], folded js_def]
  have jsp: "js = picked [] (candidates now reports row_locked (r_limit r - occupied_count t) t)"
    by (simp add: js_def picked_candidates [OF assms(2)])
  note p = dispatch_picked [OF ok jsp]
  have occ: "occupied_count t' = occupied_count t + length js"
    unfolding d(1) by (rule occupied_count_claim_mark [OF ok p(1,2,4)])
  have ids: "c_jobId ` set (r_claimed r) = id_of ` set js" by (simp add: d(2) entry_def image_image)
  have mem: "id_of k \<in> id_of ` set js \<longleftrightarrow> k \<in> set js" if "k \<in> set t" for k
    using same_id_same_row [OF rows_ok_distinct [OF ok] that] p(2) by blast
  have full: "k \<in> set js" if "0 < r_available r" "k \<in> set t" "eligible now reports t k" "\<not> row_locked (id_of k)" for k
    unfolding js_def using that d(3,4) occ by (intro candidates_exhaust) (simp_all flip: js_def)
  have old: "created_at j \<le> created_at k"
    if "j \<in> set js" "k \<in> set t" "eligible now reports t k" "\<not> row_locked (id_of k)" "k \<notin> set js" for j k
    using that unfolding js_def by (rule candidates_oldest)
  have "occupied_count t' \<le> max (occupied_count t) (r_limit r)" using occ p(3) by linarith
  moreover have "id_of k \<in> id_of ` set js \<or> created_at j \<le> created_at k"
    if "j \<in> set t" "k \<in> set t" "id_of j \<in> id_of ` set js" "eligible now reports t k" "\<not> row_locked (id_of k)" for j k
    using that mem old by blast
  moreover have "id_of k \<in> id_of ` set js"
    if "0 < r_available r" "k \<in> set t" "eligible now reports t k" "\<not> row_locked (id_of k)" for k
    using full [OF that] by (rule imageI)
  ultimately show ?thesis
    unfolding ids using occ d(3) dispatch_limit_bounds [OF d(5)] by simp
qed


text \<open>A table with three waiting jobs of two reports, the second delayed, and one claimed.\<close>

definition sample_job :: "nat \<Rightarrow> nat \<Rightarrow> string \<Rightarrow> int \<Rightarrow> job" where
  "sample_job i report jtype made = new_job i made report jtype None None None None"

definition sample_jobs :: jobs where
  "sample_jobs = [(sample_job 1 7 ANALYZE 10)\<lparr>bullmq_job_id := Some ''b1''\<rparr>, sample_job 2 8 RETRY 30,
                  sample_job 3 9 ANALYZE 20, sample_job 4 7 INSPECT_IOC_SOURCE 40]"

definition sample_reports :: "nat \<Rightarrow> report_row option" where
  "sample_reports r = Some \<lparr>source_url = None, report_public_id = ''r'', source_type = None, deleted = False\<rparr>"

definition sample_enqueue :: "job \<Rightarrow> job_extra \<Rightarrow> enqueue_result" where
  "sample_enqueue j x = Enqueued (''q'' @ show_nat (id_of j))"

definition sample_dispatch :: "jobs \<times> (dispatch_error, dispatch_result) result" where
  "sample_dispatch = dispatchQueuedThreatLibraryAnalyses 50 sample_reports (\<lambda>_. False) sample_enqueue None (SNum 2) sample_jobs"

lemma sample_dispatch_eq:
  "sample_dispatch = (fst sample_dispatch,
     Inr \<lparr>r_claimed = [\<lparr>c_jobId = 3, c_reportId = 9, c_bullmqJobId = ''q3'', c_jobType = ANALYZE\<rparr>],
          r_occupied = 2, r_limit = 2, r_available = 0\<rparr>)"
  by code_simp

lemma sample_queue_inv: "queue_inv sample_jobs"
  by (simp add: queue_inv_def rows_ok_def unique_live_def sample_jobs_def sample_job_def new_job_def pipeline_def
      REPORT_PIPELINE_JOB_TYPES_def ANALYZE_def RETRY_def RERUN_AI_def REFRESH_EXTRACTION_def INSPECT_IOC_SOURCE_def)

theorem dispatch_fills_slots_witness:
  "queue_inv sample_jobs \<and> occupied_count (fst sample_dispatch) = 2"
  using dispatch_fills_slots [OF trans [OF sample_dispatch_def [symmetric] sample_dispatch_eq] sample_queue_inv]
    sample_queue_inv by simp

section \<open>The invariant of the table\<close>

lemma tame_claim_mark:
  assumes "queue_inv t" shows "queue_inv (claim_mark bull js t)"
  using queue_inv_update [of "\<lambda>j. j\<lparr>bullmq_job_id := Some (bull j)\<rparr>" "\<lambda>j. j \<in> set js" t] assms
  by (simp add: fst_sql_update claim_mark_def tame_def)

lemma queue_inv_dispatch:
  assumes "queue_inv t"
  shows "queue_inv (fst (dispatchQueuedThreatLibraryAnalyses now reports row_locked enqueue override settings t))"
proof (cases "dispatchQueuedThreatLibraryAnalyses now reports row_locked enqueue override settings t")
  case (Pair t' res)
  show ?thesis
  proof (cases res)
    case (Inl e)
    then show ?thesis using Pair dispatch_failure [of now reports row_locked enqueue override settings t t' e] assms by simp
  next
    case (Inr r)
    then show ?thesis
      using dispatch_success(1) [OF Pair [unfolded Inr]] assms tame_claim_mark [OF assms]
      by (simp add: Pair queue_inv_def)
  qed
qed

definition recover_row :: "int \<Rightarrow> int \<Rightarrow> (string \<Rightarrow> string option) \<Rightarrow> job \<Rightarrow> jobs \<Rightarrow> jobs" where
  "recover_row now staleMs state row t =
     (if spared now staleMs state row then t
      else if job_status row = Running then fst (recover_running now staleMs (id_of row) t)
      else fst (recover_queued (id_of row) t))"

lemma fst_recover_loop: "fst (recover_loop now staleMs state rows t) = fold (recover_row now staleMs state) rows t"
proof (induction rows arbitrary: t)
  case (Cons row rows)
  then show ?case
    by (cases "recover_running now staleMs (id_of row) t"; cases "recover_queued (id_of row) t")
      (simp add: recover_row_def Let_def split_beta)
qed simp

lemma queue_inv_recover_row: "queue_inv t \<Longrightarrow> queue_inv (recover_row now staleMs state row t)"
  by (auto simp: recover_row_def recover_running_def recover_queued_def tame_def intro!: queue_inv_update)

lemma queue_inv_recover: "queue_inv t \<Longrightarrow> queue_inv (fst (recover_loop now staleMs state rows t))"
  unfolding fst_recover_loop by (induction rows arbitrary: t) (simp_all add: queue_inv_recover_row)

lemma queue_inv_apply:
  assumes "queue_inv t" "permitted op t"
  shows "queue_inv (apply_op now op t)"
proof (cases op)
  case (Create report jtype who bull payload)
  then show ?thesis using assms
    by (auto simp: createJob_def Let_def new_job_def pipeline_def intro!: queue_inv_insert)
next
  case (CreateExclusive report jtype who payload nb)
  then show ?thesis using assms existing_live_None [of report t]
    by (auto simp: createExclusivePipelineJob_def Let_def new_job_def split: option.splits intro!: queue_inv_insert)
next
  case (Update i p)
  have "queue_inv (fst (sql_update (\<lambda>j. j \<in> set t \<and> id_of j = i) (patch_job now p) t))"
    using assms Update
    by (intro queue_inv_update) (auto simp: tame_def patch_job_def list_all_iff split: option.splits)
  then show ?thesis by (simp add: Update updateJob_def fst_sql_update sql_update_def cong: map_cong)
next
  case (Recover row state)
  show ?thesis unfolding Recover apply_op.simps by (rule queue_inv_recover [OF assms(1)])
next
  case (Dispatch reports row_locked enqueue override settings)
  then show ?thesis using queue_inv_dispatch [OF assms(1)] by simp
qed (use assms(1) in \<open>auto simp: expediteDelayedJob_def cancelUnclaimedAnalysisJobs_def claimJobOwnership_def
      heartbeat_def requeueOwnedJob_def owned_running_def tame_def Let_def split_beta intro!: queue_inv_update\<close>)

interpretation job_table: invariant_system "\<lambda>t. t = []" job_step queue_inv
proof unfold_locales
  show "queue_inv t" if "t = []" for t using that by (simp add: queue_inv_def rows_ok_def unique_live_def)
  show "queue_inv t" if "queue_inv s" "job_step s t" for s t
    using that(2,1) by (induction rule: job_step.induct) (rule queue_inv_apply)
qed



fun permitted_run :: "(int \<times> job_op) list \<Rightarrow> jobs \<Rightarrow> bool" where
  "permitted_run [] t = True"
| "permitted_run ((now, op) # ops) t = (permitted op t \<and> permitted_run ops (apply_op now op t))"

lemma run_ops_reachable:
  "\<lbrakk>permitted_run ops t; reachable (\<lambda>t. t = []) job_step t\<rbrakk> \<Longrightarrow> reachable (\<lambda>t. t = []) job_step (run_ops ops t)"
  by (induction ops t rule: run_ops.induct) (auto intro: reachable.intros job_step.step)

text \<open>Two requests for the same report, the first one already running; limit 1.\<close>

definition double_click :: "(int \<times> job_op) list" where
  "double_click =
     [(1, CreateExclusive 7 RETRY None None None),
      (2, Dispatch sample_reports (\<lambda>_. False) sample_enqueue None (SNum 1)),
      (3, Claim 1 ''w1'' (Some ''q1'')),
      (4, CreateExclusive 7 RETRY None None None),
      (5, CreateExclusive 8 RETRY None None None)]"


section \<open>A live owner keeps its job\<close>

text \<open>Operations that neither the owner issues nor are an unfenced update of the job.\<close>

fun foreign_op :: "nat \<Rightarrow> string \<Rightarrow> job_op \<Rightarrow> bool" where
  "foreign_op i tok (Update k p) = (k \<noteq> i)"
| "foreign_op i tok (Claim k tok' bull) = (k \<noteq> i \<or> tok' \<noteq> tok)"
| "foreign_op i tok (Beat k tok') = (k \<noteq> i \<or> tok' \<noteq> tok)"
| "foreign_op i tok (Requeue k tok' reason) = (k \<noteq> i \<or> tok' \<noteq> tok)"
| "foreign_op i tok op = True"

lemma sql_update_keeps: "\<lbrakk>j \<in> set t; \<not> P j\<rbrakk> \<Longrightarrow> j \<in> set (fst (sql_update P f t))"
  by (force simp: fst_sql_update)

lemma dispatch_loop_keeps:
  "\<lbrakk>dispatch_loop reports enqueue js t reps acc = Inr (t', cl); j \<in> set t; job_status j = Running\<rbrakk> \<Longrightarrow> j \<in> set t'"
proof (induction js arbitrary: t reps acc)
  case (Cons k js)
  have keep: "j \<in> set u" if "claim_row (id_of k) b t = (u, rows)" for b u rows
    using that Cons.prems(2,3) sql_update_keeps [of j t] unfolding claim_row_def
    by (metis (mono_tags, lifting) fst_conv job_status.distinct(1))
  from Cons.prems(1) show ?case
    by (auto simp: Let_def split: if_splits enqueue_result.splits prod.splits
        intro: Cons.IH [OF _ Cons.prems(2,3)] Cons.IH [OF _ keep Cons.prems(3)])
qed simp

lemma dispatch_keeps:
  assumes "j \<in> set t" "job_status j = Running"
  shows "j \<in> set (fst (dispatchQueuedThreatLibraryAnalyses now reports row_locked enqueue override settings t))"
  using assms dispatch_loop_keeps
  by (fastforce simp: dispatchQueuedThreatLibraryAnalyses_def Let_def split: sum.splits)

lemma apply_op_keeps:
  assumes "j \<in> set t" "job_status j = Running" "owner_token j = Some tok" "foreign_op (id_of j) tok op"
    and "now \<le> last_sign j + JOB_OWNER_STALE_MS"
  shows "j \<in> set (apply_op now op t)"
proof (cases op)
  case (Create report jtype who bull payload)
  then show ?thesis using assms(1) by (simp add: createJob_def Let_def)
next
  case (CreateExclusive report jtype who payload nb)
  then show ?thesis using assms(1) by (simp add: createExclusivePipelineJob_def Let_def split: option.splits)
next
  case (Recover row state)
  show ?thesis
    unfolding Recover apply_op.simps fst_recover_loop
    using assms by (auto simp: recover_row_def recover_running_def recover_queued_def owner_stale_def intro!: sql_update_keeps)
next
  case (Dispatch reports row_locked enqueue override settings)
  then show ?thesis using dispatch_keeps [OF assms(1,2)] by simp
qed (use assms in \<open>auto simp: updateJob_def expediteDelayedJob_def cancelUnclaimedAnalysisJobs_def claimJobOwnership_def
      heartbeat_def requeueOwnedJob_def owned_running_def owner_stale_def Let_def split_beta intro!: sql_update_keeps\<close>)

lemma run_ops_keeps:
  assumes "j \<in> set t" "job_status j = Running" "owner_token j = Some tok"
    and "list_all (\<lambda>(now, op). foreign_op (id_of j) tok op \<and> now \<le> last_sign j + JOB_OWNER_STALE_MS) ops"
  shows "j \<in> set (run_ops ops t)"
  using assms by (induction ops t rule: run_ops.induct) (auto intro: apply_op_keeps)

lemma queue_inv_run: "\<lbrakk>queue_inv t; permitted_run ops t\<rbrakk> \<Longrightarrow> queue_inv (run_ops ops t)"
  by (induction ops t rule: run_ops.induct) (auto intro: queue_inv_apply)



definition running_sample :: job where
  "running_sample = (sample_job 1 7 ANALYZE 10)\<lparr>bullmq_job_id := Some ''b1'', job_status := Running, job_stage := ''starting'',
     owner_token := Some ''w1'', heartbeat_at := Some 1000, started_at := Some 20\<rparr>"


section \<open>Recovery frees the slots of dead workers\<close>

definition recovered :: "job \<Rightarrow> job" where
  "recovered j = (if job_status j = Running
     then j\<lparr>job_status := Queued, bullmq_job_id := None, job_stage := ''queued'', owner_token := None,
            heartbeat_at := None, error_message := Some ''recovered after interrupted analysis''\<rparr>
     else j\<lparr>bullmq_job_id := None\<rparr>)"

lemma recover_row_eq:
  assumes "distinct (map id_of t)" "row \<in> set t" "occupies row"
  shows "recover_row now staleMs state row t =
    map (\<lambda>j. if j = row \<and> \<not> spared now staleMs state j then recovered j else j) t"
proof -
  have row: "(id_of j = id_of row) = (j = row)" if "j \<in> set t" for j
    using same_id_same_row [OF assms(1) that assms(2)] by auto
  show ?thesis
  proof (cases "spared now staleMs state row")
    case True
    then have "map (\<lambda>j. if j = row \<and> \<not> spared now staleMs state j then recovered j else j) t = t"
      by (auto intro: map_idI)
    then show ?thesis using True by (simp add: recover_row_def)
  next
    case False
    then have "job_status row = Running \<Longrightarrow> owner_token row = None \<or> owner_stale now staleMs row"
      by (cases "owner_token row") (simp_all add: spared_def)
    then show ?thesis
      using assms(3) False unfolding recover_row_def recover_running_def recover_queued_def fst_sql_update
      by (auto simp: row recovered_def occupies_def cong: map_cong)
  qed
qed

lemma recover_fold_eq:
  assumes "distinct (map id_of t)" "distinct rows" "\<forall>row\<in>set rows. row \<in> set t \<and> occupies row"
  shows "fold (recover_row now staleMs state) rows t =
    map (\<lambda>j. if j \<in> set rows \<and> \<not> spared now staleMs state j then recovered j else j) t"
  using assms
proof (induction rows arbitrary: t)
  case (Cons row rows)
  let ?t = "map (\<lambda>j. if j = row \<and> \<not> spared now staleMs state j then recovered j else j) t"
  have ids: "map id_of ?t = map id_of t" by (auto simp: recovered_def)
  have in_t: "\<forall>r\<in>set rows. r \<in> set ?t \<and> occupies r" using Cons.prems(2,3) by force
  have fresh: "recovered row \<notin> set rows"
    using Cons.prems(3) by (auto simp: recovered_def occupies_def)
  have "fold (recover_row now staleMs state) (row # rows) t
      = map (\<lambda>j. if j \<in> set rows \<and> \<not> spared now staleMs state j then recovered j else j) ?t"
    using Cons.prems recover_row_eq [OF Cons.prems(1), of row] Cons.IH [OF _ _ in_t, unfolded ids] by simp
  also have "\<dots> = map (\<lambda>j. if j \<in> set (row # rows) \<and> \<not> spared now staleMs state j then recovered j else j) t"
    using fresh Cons.prems(2) by (auto)
  finally show ?case .
qed simp

lemma not_occupies_recovered: "occupies j \<Longrightarrow> \<not> occupies (recovered j)"
  by (simp add: occupies_def recovered_def)

lemma filter_recovered:
  "filter occupies (map (\<lambda>j. if occupies j \<and> \<not> Q j then recovered j else j) t) = filter (\<lambda>j. occupies j \<and> Q j) t"
  by (induction t) (simp_all add: not_occupies_recovered)

text \<open>
  after a recovery pass the rows that still hold a slot are exactly those that held one before
  and belong to an owner with a fresh heartbeat or, unowned, to a BullMQ entry that is still live;
  every other occupied row is back to \<open>queued\<close> without a BullMQ id, and nothing else changes.  A
  crashed worker therefore never keeps its slot.
\<close>

theorem recovery_frees_slots:
  assumes "queue_inv t" "0 < staleMs"
  shows "fst (recoverInterruptedAnalysisJobs now staleMs state t)
           = map (\<lambda>j. if occupies j \<and> \<not> spared now staleMs state j then recovered j else j) t
       \<and> filter occupies (fst (recoverInterruptedAnalysisJobs now staleMs state t))
           = filter (\<lambda>j. occupies j \<and> spared now staleMs state j) t"
proof
  have d: "distinct (map id_of t)" using assms(1) rows_ok_distinct by (auto simp: queue_inv_def)
  then have "distinct (filter occupies t)" by (simp add: distinct_map)
  then show eq: "fst (recoverInterruptedAnalysisJobs now staleMs state t)
      = map (\<lambda>j. if occupies j \<and> \<not> spared now staleMs state j then recovered j else j) t"
    unfolding recoverInterruptedAnalysisJobs_def fst_recover_loop
    by (subst recover_fold_eq [OF d]) (use assms(2) in \<open>auto simp del: live_simps\<close>)
  show "filter occupies (fst (recoverInterruptedAnalysisJobs now staleMs state t))
      = filter (\<lambda>j. occupies j \<and> spared now staleMs state j) t"
    unfolding eq by (rule filter_recovered)
qed

theorem recovery_frees_slots_witness:
  "filter occupies (fst (recoverInterruptedAnalysisJobs 500000 120000 (\<lambda>b. if b = ''b1'' then Some ''active'' else None) sample_jobs))
     = [hd sample_jobs]
   \<and> filter occupies (fst (recoverInterruptedAnalysisJobs 500000 120000 (\<lambda>b. None) sample_jobs)) = []"
proof
  note r = recovery_frees_slots [OF sample_queue_inv, THEN conjunct2]
  show "filter occupies (fst (recoverInterruptedAnalysisJobs 500000 120000 (\<lambda>b. if b = ''b1'' then Some ''active'' else None) sample_jobs))
     = [hd sample_jobs]"
    unfolding r [of 120000 500000 "\<lambda>b. if b = ''b1'' then Some ''active'' else None", simplified] by code_simp
  show "filter occupies (fst (recoverInterruptedAnalysisJobs 500000 120000 (\<lambda>b. None) sample_jobs)) = []"
    unfolding r [of 120000 500000 "\<lambda>b. None", simplified] by code_simp
qed

section \<open>A redelivered entry of a re-queued job takes a slot of its own\<close>

text \<open>
  Job 2 stalls, is recovered, and its slot goes to the older job 1, whose backoff has ended; then
  BullMQ delivers the old entry of job 2 once more.  \<open>claimJobOwnership\<close> accepts it, since the row is
  queued and unowned, without looking at the slots.
\<close>

definition redelivery :: "(int \<times> job_op) list" where
  "redelivery =
     [(1, CreateExclusive 7 RETRY None None (Some 1000)),
      (2, CreateExclusive 8 ANALYZE None None None),
      (3, Dispatch sample_reports (\<lambda>_. False) sample_enqueue None (SNum 1)),
      (4, Claim 2 ''w1'' (Some ''q2'')),
      (200000, Recover ((sample_job 2 8 ANALYZE 2)\<lparr>job_status := Running, owner_token := Some ''w1'', heartbeat_at := Some 4\<rparr>)
                 (\<lambda>_. None)),
      (200001, Dispatch sample_reports (\<lambda>_. False) sample_enqueue None (SNum 1)),
      (200002, Claim 1 ''w2'' (Some ''q1'')),
      (200003, Claim 2 ''w3'' (Some ''q2''))]"

text \<open>
  With a limit of one analysis, that sequence of the program's own operations ends with two
  running, slot-occupying jobs.
\<close>

theorem redelivery_exceeds_limit:
  "permitted_run redelivery [] \<and> occupied_count (run_ops redelivery []) = 2
   \<and> list_all (\<lambda>j. job_status j = Running) (run_ops redelivery [])"
  by code_simp


section \<open>The heartbeat of an owner\<close>

text \<open>The variables of \<open>startJobHeartbeat\<close>.\<close>

record beat =
  b_stopped :: bool
  b_lost :: "string option"
  b_lastConfirmedAt :: int
  b_beating :: bool

definition JOB_HEARTBEAT_MS :: int where "JOB_HEARTBEAT_MS = 15000"

definition startJobHeartbeat :: "int \<Rightarrow> beat" where
  "startJobHeartbeat now = \<lparr>b_stopped = False, b_lost = None, b_lastConfirmedAt = now, b_beating = False\<rparr>"

definition fireLost :: "string \<Rightarrow> beat \<Rightarrow> beat" where
  "fireLost reason b = (if b_lost b \<noteq> None \<or> b_stopped b then b else b\<lparr>b_lost := Some reason\<rparr>)"

definition beat_loss_deadline :: "int \<Rightarrow> int \<Rightarrow> int" where
  "beat_loss_deadline intervalMs staleMs = max intervalMs (staleMs - 2 * intervalMs)"

text \<open>A timer tick; the flag tells whether the UPDATE is sent.\<close>

definition beat_tick :: "int \<Rightarrow> int \<Rightarrow> int \<Rightarrow> beat \<Rightarrow> beat \<times> bool" where
  "beat_tick intervalMs staleMs now b =
     (if b_stopped b \<or> b_lost b \<noteq> None then (b, False)
      else if now - b_lastConfirmedAt b \<ge> beat_loss_deadline intervalMs staleMs then (fireLost ''heartbeat_unconfirmed'' b, False)
      else if b_beating b then (b, False)
      else (b\<lparr>b_beating := True\<rparr>, True))"

text \<open>The reply of the UPDATE, with its row count, or its failure.\<close>

definition beat_reply :: "int \<Rightarrow> nat \<Rightarrow> beat \<Rightarrow> beat" where
  "beat_reply now rowCount b =
     (let b' = (if b_stopped b \<or> b_lost b \<noteq> None then b
                else if rowCount = 0 then fireLost ''owner_changed_or_job_ended'' b
                else b\<lparr>b_lastConfirmedAt := now\<rparr>)
      in b'\<lparr>b_beating := False\<rparr>)"

definition beat_error :: "beat \<Rightarrow> beat" where
  "beat_error b = b\<lparr>b_beating := False\<rparr>"

definition stop_beat :: "beat \<Rightarrow> beat" where
  "stop_beat b = b\<lparr>b_stopped := True\<rparr>"

text \<open>
  A heartbeat that runs at once but is answered 59 seconds later, with every later one hanging: the
  worker's state at 150 seconds, and the job's row after another worker's claim at 135.001.
\<close>

definition slow_reply :: "beat \<times> jobs" where
  "slow_reply =
     (let tick = (\<lambda>now b. fst (beat_tick JOB_HEARTBEAT_MS JOB_OWNER_STALE_MS now b));
          row = running_sample\<lparr>heartbeat_at := Some 0\<rparr>;
          b1 = tick 15000 (startJobHeartbeat 0);
          t1 = fst (heartbeat 15000 1 ''w1'' [row]);
          b2 = beat_reply 74000 1 (tick 60000 (tick 45000 (tick 30000 b1)));
          b3 = tick 150000 (tick 135000 (tick 120000 (tick 105000 (tick 90000 (tick 75000 b2)))))
      in (b3, fst (claimJobOwnership 135001 JOB_OWNER_STALE_MS 1 ''w2'' None t1)))"

text \<open>
  The first worker still counts itself the owner fifteen seconds after the second one has
  claimed the job: a heartbeat confirms ownership from when its reply arrives, but the row goes
  stale from when the statement ran.
\<close>

theorem late_heartbeat_reply_overlaps:
  "b_lost (fst slow_reply) = None \<and> \<not> b_stopped (fst slow_reply)
   \<and> map owner_token (snd slow_reply) = [Some ''w2'']"
  by (simp add: slow_reply_def Let_def beat_tick_def beat_reply_def startJobHeartbeat_def beat_loss_deadline_def
      JOB_HEARTBEAT_MS_def JOB_OWNER_STALE_MS_def heartbeat_def claimJobOwnership_def sql_update_def owned_running_def
      owner_stale_def last_sign_def running_sample_def sample_job_def new_job_def)

lemma beat_silent_lost:
  "\<lbrakk>\<not> b_stopped b; b_lost b = None; beat_loss_deadline i s \<le> now - b_lastConfirmedAt b\<rbrakk>
     \<Longrightarrow> b_lost (fst (beat_tick i s now b)) = Some ''heartbeat_unconfirmed''"
  by (simp add: beat_tick_def fireLost_def)

end
