(* ===== verification/JobFence.thy ===== *)
theory JobFence
  imports TH_Prelude
begin

text \<open>
  The fenced database handle of a worker (\<open>lib/threatLibrary/jobFence.js\<close>): every write runs in a
  transaction that first locks the job row and confirms its owner.  Each call of the handle becomes
  the list of the statements it sends, with the interleaving of all connections and of takeovers of
  the job row left open.  What the server makes of a statement text is the argument \<open>sem\<close>; how the
  handle recognises writes, \<open>BEGIN\<close> and \<open>COMMIT\<close> are the three regular expressions of the file.
\<close>

section \<open>Recognising statements\<close>

text \<open>A word at the head of the text, matched without case and ending at a word boundary.\<close>

definition head_word :: "string \<Rightarrow> string \<Rightarrow> string option" where
  "head_word w s =
     (if js_lower (take (length w) s) = js_lower w \<and> length w \<le> length s
         \<and> (case drop (length w) s of [] \<Rightarrow> True | c # _ \<Rightarrow> \<not> is_word_char c)
      then Some (drop (length w) s) else None)"

definition skip_ws :: "string \<Rightarrow> string" where
  "skip_ws s = dropWhile js_ws s"

definition WRITE_RE :: "string \<Rightarrow> bool" where
  "WRITE_RE s = list_ex (\<lambda>w. head_word w (skip_ws s) \<noteq> None)
                  [''INSERT'', ''UPDATE'', ''DELETE'', ''MERGE'', ''WITH'']"

definition BEGIN_RE :: "string \<Rightarrow> bool" where
  "BEGIN_RE s = (head_word ''BEGIN'' (skip_ws s) \<noteq> None
     \<or> (case head_word ''START'' (skip_ws s) of
          None \<Rightarrow> False
        | Some r \<Rightarrow> r \<noteq> [] \<and> js_ws (hd r) \<and> head_word ''TRANSACTION'' (skip_ws r) \<noteq> None))"

text \<open>The keyword, white space, at most one semicolon, white space, nothing else.\<close>

definition only_semicolon :: "string \<Rightarrow> bool" where
  "only_semicolon s = (case skip_ws s of [] \<Rightarrow> True | c # r \<Rightarrow> c = CHR '';'' \<and> skip_ws r = [])"

definition END_RE :: "string \<Rightarrow> bool" where
  "END_RE s = list_ex (\<lambda>w. case head_word w (skip_ws s) of None \<Rightarrow> False | Some r \<Rightarrow> only_semicolon r)
                [''COMMIT'', ''END'', ''ROLLBACK'']"

section \<open>The handle\<close>

text \<open>
  What the server does with a statement.  A write may also set the job's own row (\<open>updateJob\<close> on
  the job the handle is fenced to): \<open>KWrite (Some r)\<close>.
\<close>

record fence_row =
  f_owner :: "string option"
  f_running :: bool

datatype sql_kind = KRead | KWrite "fence_row option" | KBegin | KCommit | KRollback

text \<open>
  The steps of a call: \<open>PBegin\<close>, \<open>PCommit\<close> and \<open>PRollback\<close> are the statements the handle itself sends,
  \<open>PFence\<close> is \<open>FENCE_SQL\<close>, \<open>PStmt\<close> a statement of the caller, \<open>PMark\<close> and \<open>PUnmark\<close> set and clear the
  \<open>inTxn\<close> flag of \<open>wrapClient\<close>.
\<close>

datatype prim = PBegin | PFence | PStmt string | PCommit | PRollback | PMark | PUnmark

definition inFencedTransaction :: "string list \<Rightarrow> prim list" where
  "inFencedTransaction texts = [PBegin, PFence] @ map PStmt texts @ [PCommit]"

definition wrapped_query :: "bool \<Rightarrow> string \<Rightarrow> prim list" where
  "wrapped_query in_txn sql =
     (if BEGIN_RE sql then [PStmt sql, PMark, PFence]
      else if END_RE sql then [PUnmark, PStmt sql]
      else if \<not> in_txn \<and> WRITE_RE sql then inFencedTransaction [sql]
      else [PStmt sql])"

definition pool_query :: "string \<Rightarrow> prim list" where
  "pool_query sql = (if \<not> WRITE_RE sql then [PStmt sql] else inFencedTransaction [sql])"

text \<open>What is left to do when a statement throws: the \<open>catch\<close> of \<open>inFencedTransaction\<close> rolls back.\<close>

definition on_error :: "prim list \<Rightarrow> prim list" where
  "on_error rest = (if PCommit \<in> set rest then [PRollback] else [])"

section \<open>Connections and the server\<close>

record client =
  ctok :: string
  script :: "prim list"
  inTxn :: bool
  txn :: bool
  aborted :: bool
  pending :: "(string \<times> fence_row option) list"
  dead :: bool

text \<open>
  The job's row, the connection that holds its row lock, the connections, and the committed writes
  with the token of the handle and the row as it was when they were committed.
\<close>

record fence_sys =
  row :: fence_row
  lock :: "nat option"
  clients :: "nat \<Rightarrow> client"
  committed :: "(string \<times> string \<times> fence_row) list"

definition put :: "nat \<Rightarrow> client \<Rightarrow> fence_sys \<Rightarrow> fence_sys" where
  "put c k s = s\<lparr>clients := (clients s)(c := k)\<rparr>"

definition unlock :: "nat \<Rightarrow> fence_sys \<Rightarrow> fence_sys" where
  "unlock c s = (if lock s = Some c then s\<lparr>lock := None\<rparr> else s)"

definition last_effect :: "fence_row \<Rightarrow> (string \<times> fence_row option) list \<Rightarrow> fence_row" where
  "last_effect r ws = fold (\<lambda>(_, e) r. case e of None \<Rightarrow> r | Some r' \<Rightarrow> r') ws r"

text \<open>End of a transaction on connection \<open>c\<close>: its locks go, its writes are committed or dropped.\<close>

definition server_rollback :: "nat \<Rightarrow> fence_sys \<Rightarrow> fence_sys" where
  "server_rollback c s =
     unlock c (put c ((clients s c)\<lparr>txn := False, aborted := False, pending := []\<rparr>) s)"

definition server_commit :: "nat \<Rightarrow> fence_sys \<Rightarrow> fence_sys" where
  "server_commit c s =
     (let k = clients s c in
      if aborted k then server_rollback c s
      else server_rollback c
        (s\<lparr>committed := committed s @ map (\<lambda>(w, _). (ctok k, w, row s)) (pending k),
           row := last_effect (row s) (pending k)\<rparr>))"

definition server_stmt :: "(string \<Rightarrow> sql_kind) \<Rightarrow> nat \<Rightarrow> string \<Rightarrow> fence_sys \<Rightarrow> fence_sys" where
  "server_stmt sem c sql s =
     (let k = clients s c in
      case sem sql of
        KRead \<Rightarrow> s
      | KBegin \<Rightarrow> put c (k\<lparr>txn := True\<rparr>) s
      | KCommit \<Rightarrow> server_commit c s
      | KRollback \<Rightarrow> server_rollback c s
      | KWrite e \<Rightarrow>
          if aborted k then s
          else if txn k then put c (k\<lparr>pending := pending k @ [(sql, e)]\<rparr>) s
          else s\<lparr>committed := committed s @ [(ctok k, sql, row s)], row := last_effect (row s) [(sql, e)]\<rparr>)"

text \<open>\<open>lockFence\<close>: the row as the connection sees it must be owned by its token and running.\<close>

definition fence_holds :: "client \<Rightarrow> fence_sys \<Rightarrow> bool" where
  "fence_holds k s =
     (let r = last_effect (row s) (pending k) in
      \<not> aborted k \<and> f_owner r = Some (ctok k) \<and> f_running r)"

text \<open>One step of connection \<open>c\<close>; \<open>None\<close> when it has to wait for the row lock.\<close>

definition exec_prim :: "(string \<Rightarrow> sql_kind) \<Rightarrow> nat \<Rightarrow> fence_sys \<Rightarrow> fence_sys option" where
  "exec_prim sem c s =
     (let k = clients s c in
      if dead k then None else
      case script k of
        [] \<Rightarrow> None
      | p # rest \<Rightarrow>
          let s' = put c (k\<lparr>script := rest\<rparr>) s; k' = clients s' c in
          (case p of
             PBegin \<Rightarrow> Some (put c (k'\<lparr>txn := True\<rparr>) s')
           | PMark \<Rightarrow> Some (put c (k'\<lparr>inTxn := True\<rparr>) s')
           | PUnmark \<Rightarrow> Some (put c (k'\<lparr>inTxn := False\<rparr>) s')
           | PCommit \<Rightarrow> Some (server_commit c s')
           | PRollback \<Rightarrow> Some (server_rollback c s')
           | PStmt sql \<Rightarrow> Some (server_stmt sem c sql s')
           | PFence \<Rightarrow>
               if lock s \<noteq> None \<and> lock s \<noteq> Some c then None
               else if fence_holds k s then Some (if txn k then s'\<lparr>lock := Some c\<rparr> else s')
               else Some (put c (k'\<lparr>script := [PRollback], inTxn := False\<rparr>) s')))"

text \<open>The statement at the head fails.  A failing statement aborts its transaction, a failing end of a
  transaction is a rollback.\<close>

definition fail_prim :: "(string \<Rightarrow> sql_kind) \<Rightarrow> nat \<Rightarrow> fence_sys \<Rightarrow> fence_sys option" where
  "fail_prim sem c s =
     (let k = clients s c in
      if dead k then None else
      case script k of
        PStmt sql # rest \<Rightarrow>
          let k' = k\<lparr>script := on_error rest\<rparr> in
          if sem sql = KCommit \<or> sem sql = KRollback then Some (server_rollback c (put c k' s))
          else Some (put c (if txn k then k'\<lparr>aborted := True, pending := []\<rparr> else k') s)
      | PCommit # rest \<Rightarrow> Some (server_rollback c (put c (k\<lparr>script := [PRollback]\<rparr>) s))
      | _ \<Rightarrow> None)"

datatype fence_op =
    ClientQuery nat string
  | PoolQuery nat string
  | Transaction nat "string list"
  | Exec nat
  | Fail nat
  | Disconnect nat
  | Takeover fence_row

definition idle :: "client \<Rightarrow> bool" where
  "idle k = (\<not> dead k \<and> script k = [])"

text \<open>
  The operations: a worker issues a call on an idle connection; a connection makes its next step,
  has a statement fail, or is lost; another transaction updates the job row, which waits for the
  row lock.  \<open>None\<close> when the operation cannot happen now.
\<close>

fun fence_exec :: "(string \<Rightarrow> sql_kind) \<Rightarrow> fence_op \<Rightarrow> fence_sys \<Rightarrow> fence_sys option" where
  "fence_exec sem (ClientQuery c sql) s =
     (let k = clients s c in
      if idle k then Some (put c (k\<lparr>script := wrapped_query (inTxn k) sql\<rparr>) s) else None)"
| "fence_exec sem (PoolQuery c sql) s =
     (let k = clients s c in
      if idle k \<and> \<not> inTxn k then Some (put c (k\<lparr>script := pool_query sql\<rparr>) s) else None)"
| "fence_exec sem (Transaction c texts) s =
     (let k = clients s c in
      if idle k \<and> \<not> inTxn k \<and> list_all (\<lambda>sql. sem sql \<noteq> KCommit \<and> sem sql \<noteq> KRollback) texts
      then Some (put c (k\<lparr>script := inFencedTransaction texts\<rparr>) s) else None)"
| "fence_exec sem (Exec c) s = exec_prim sem c s"
| "fence_exec sem (Fail c) s = fail_prim sem c s"
| "fence_exec sem (Disconnect c) s =
     Some (server_rollback c (put c ((clients s c)\<lparr>dead := True, script := []\<rparr>) s))"
| "fence_exec sem (Takeover r) s = (if lock s = None then Some (s\<lparr>row := r\<rparr>) else None)"

inductive fence_step :: "(string \<Rightarrow> sql_kind) \<Rightarrow> fence_sys \<Rightarrow> fence_sys \<Rightarrow> bool" for sem where
  fence_stepI: "fence_exec sem op s = Some t \<Longrightarrow> fence_step sem s t"

text \<open>\<open>assertOwned\<close>: the same condition, without a lock.\<close>

definition assertOwned :: "string \<Rightarrow> fence_sys \<Rightarrow> bool" where
  "assertOwned tok s = (f_owner (row s) = Some tok \<and> f_running (row s))"

definition fence_start :: "fence_sys \<Rightarrow> bool" where
  "fence_start s \<longleftrightarrow> lock s = None \<and> committed s = []
     \<and> (\<forall>c. \<not> inTxn (clients s c) \<and> \<not> txn (clients s c) \<and> \<not> aborted (clients s c)
            \<and> pending (clients s c) = [] \<and> script (clients s c) = [])"

text \<open>
  What the handle relies on: the texts it lets pass as reads write nothing, and the texts that
  begin or end a transaction are the ones its expressions find.
\<close>

definition recognised :: "(string \<Rightarrow> sql_kind) \<Rightarrow> bool" where
  "recognised sem \<longleftrightarrow> (\<forall>sql. (\<forall>e. sem sql = KWrite e \<longrightarrow> WRITE_RE sql)
     \<and> (BEGIN_RE sql \<longrightarrow> sem sql = KBegin)
     \<and> (sem sql = KCommit \<or> sem sql = KRollback \<longleftrightarrow> END_RE sql))"


section \<open>The invariant\<close>

text \<open>
  The rest of a script is safe: \<open>b\<close> is the \<open>inTxn\<close> flag, \<open>x\<close> whether the server has a transaction
  open, \<open>l\<close> whether the connection holds the row lock.
\<close>

fun ok_script :: "(string \<Rightarrow> sql_kind) \<Rightarrow> bool \<Rightarrow> bool \<Rightarrow> bool \<Rightarrow> prim list \<Rightarrow> bool" where
  "ok_script sem b x l [] = (b \<longrightarrow> l)"
| "ok_script sem b x l (PBegin # ps) = ok_script sem b True l ps"
| "ok_script sem b x l (PMark # ps) = ok_script sem True x l ps"
| "ok_script sem b x l (PUnmark # ps) = ok_script sem False x l ps"
| "ok_script sem b x l (PFence # ps) = (x \<and> ok_script sem b x True ps)"
| "ok_script sem b x l (PCommit # ps) = (\<not> b \<and> ok_script sem b False False ps)"
| "ok_script sem b x l (PRollback # ps) = ok_script sem b False False ps"
| "ok_script sem b x l (PStmt sql # ps) =
     ((b \<longrightarrow> l) \<and> (PCommit \<in> set ps \<longrightarrow> \<not> b) \<and>
      (case sem sql of
         KRead \<Rightarrow> ok_script sem b x l ps
       | KWrite _ \<Rightarrow> l \<and> ok_script sem b x l ps
       | KBegin \<Rightarrow> ok_script sem b True l ps
       | _ \<Rightarrow> \<not> b \<and> ok_script sem b False False ps))"

definition client_inv :: "(string \<Rightarrow> sql_kind) \<Rightarrow> fence_sys \<Rightarrow> nat \<Rightarrow> bool" where
  "client_inv sem s c \<longleftrightarrow> (let k = clients s c; l = (lock s = Some c) in
     (l \<longrightarrow> txn k \<and> f_owner (row s) = Some (ctok k) \<and> f_running (row s))
     \<and> (pending k \<noteq> [] \<longrightarrow> l)
     \<and> (\<not> dead k \<longrightarrow> ok_script sem (inTxn k) (txn k) l (script k)))"

definition fence_inv :: "(string \<Rightarrow> sql_kind) \<Rightarrow> fence_sys \<Rightarrow> bool" where
  "fence_inv sem s \<longleftrightarrow> (\<forall>c. client_inv sem s c)
     \<and> list_all (\<lambda>(tok, w, r). f_owner r = Some tok \<and> f_running r) (committed s)"

lemmas fence_ops = put_def unlock_def server_rollback_def server_commit_def server_stmt_def Let_def

text \<open>Only the row lock and the row itself link two connections.\<close>

lemma client_inv_other:
  assumes "client_inv sem s d" "d \<noteq> c" "clients t d = clients s d"
    and "lock t = lock s \<and> row t = row s \<or> lock s = Some c \<and> lock t \<in> {None, Some c} \<or> lock s = None \<and> lock t = Some c"
  shows "client_inv sem t d"
  using assms by (auto simp: client_inv_def Let_def)

lemma ok_transaction:
  assumes "list_all (\<lambda>sql. sem sql \<noteq> KCommit \<and> sem sql \<noteq> KRollback) texts"
  shows "ok_script sem False True True (map PStmt texts @ [PCommit])"
  using assms by (induction texts) (auto split: sql_kind.splits)

lemma ok_fenced:
  "ok_script sem False x l (inFencedTransaction [sql])"
  by (auto simp: inFencedTransaction_def split: sql_kind.splits)

lemma ok_wrapped:
  assumes "recognised sem" "b \<longrightarrow> l" "l \<longrightarrow> x"
  shows "ok_script sem b x l (wrapped_query b sql)"
  using assms ok_fenced [of sem x l sql]
  by (auto simp: wrapped_query_def recognised_def split: sql_kind.splits)

lemma ok_pool:
  assumes "recognised sem"
  shows "ok_script sem False x l (pool_query sql)"
  using assms ok_fenced [of sem x l sql]
  by (auto simp: pool_query_def recognised_def split: sql_kind.splits)

text \<open>A connection changes only its own script (and flags): the invariant carries over.\<close>

lemma fence_inv_put:
  assumes "fence_inv sem s" "txn (clients s c) \<longrightarrow> txn k" "ctok k = ctok (clients s c)"
    and "pending k = pending (clients s c) \<or> pending k = [] \<or> lock s = Some c"
    and "\<not> dead k \<longrightarrow> ok_script sem (inTxn k) (txn k) (lock s = Some c) (script k)"
  shows "fence_inv sem (put c k s)"
proof -
  have "client_inv sem (put c k s) d" for d
  proof (cases "d = c")
    case True
    then show ?thesis using assms by (auto simp: fence_inv_def client_inv_def put_def Let_def)
  next
    case False
    then show ?thesis using assms(1) by (auto simp: fence_inv_def client_inv_def put_def Let_def)
  qed
  then show ?thesis using assms(1) by (simp add: fence_inv_def put_def)
qed

lemma fence_inv_rollback:
  assumes "\<And>d. d \<noteq> c \<Longrightarrow> client_inv sem s d"
    and "list_all (\<lambda>(tok, w, r). f_owner r = Some tok \<and> f_running r) (committed s)"
    and "\<not> dead (clients s c) \<longrightarrow> ok_script sem (inTxn (clients s c)) False False (script (clients s c))"
  shows "fence_inv sem (server_rollback c s)"
proof -
  have "client_inv sem (server_rollback c s) d" for d
  proof (cases "d = c")
    case True
    then show ?thesis using assms(3) by (auto simp: client_inv_def fence_ops)
  next
    case False
    then show ?thesis using assms(1) [OF False] by (auto simp: client_inv_def fence_ops)
  qed
  moreover have "committed (server_rollback c s) = committed s" by (simp add: fence_ops)
  ultimately show ?thesis using assms(2) by (simp add: fence_inv_def)
qed


lemma fence_inv_commit:
  assumes "\<And>d. d \<noteq> c \<Longrightarrow> client_inv sem s d"
    and "list_all (\<lambda>(tok, w, r). f_owner r = Some tok \<and> f_running r) (committed s)"
    and "\<not> dead (clients s c) \<longrightarrow> ok_script sem (inTxn (clients s c)) False False (script (clients s c))"
    and "pending (clients s c) \<noteq> [] \<Longrightarrow> lock s = Some c \<and> f_owner (row s) = Some (ctok (clients s c)) \<and> f_running (row s)"
  shows "fence_inv sem (server_commit c s)"
proof (cases "aborted (clients s c)")
  case True
  then show ?thesis using fence_inv_rollback [OF assms(1-3)] by (simp add: server_commit_def Let_def)
next
  case False
  let ?k = "clients s c"
  let ?s = "s\<lparr>committed := committed s @ map (\<lambda>(w, _). (ctok ?k, w, row s)) (pending ?k), row := last_effect (row s) (pending ?k)\<rparr>"
  have "client_inv sem ?s d" if "d \<noteq> c" for d
  proof (cases "pending ?k = []")
    case True
    then show ?thesis using assms(1) [OF that] by (simp add: client_inv_def last_effect_def)
  next
    case False
    then show ?thesis using assms(1) [OF that] assms(4) that by (simp add: client_inv_def Let_def)
  qed
  moreover have "list_all (\<lambda>(tok, w, r). f_owner r = Some tok \<and> f_running r) (committed ?s)"
  proof (cases "pending ?k = []")
    case True
    then show ?thesis using assms(2) by simp
  next
    case False
    then show ?thesis using assms(2,4) by (auto simp: list_all_iff)
  qed
  ultimately have "fence_inv sem (server_rollback c ?s)"
    using assms(3) by (intro fence_inv_rollback) simp_all
  then show ?thesis using False by (simp add: server_commit_def Let_def)
qed

lemma fence_inv_exec_prim:
  assumes inv: "fence_inv sem s" and step: "exec_prim sem c s = Some t"
  shows "fence_inv sem t"
proof -
  let ?k = "clients s c"
  from step obtain p rest where alive: "\<not> dead ?k" and script: "script ?k = p # rest"
    by (auto simp: exec_prim_def Let_def split: if_splits list.splits)
  have cinv: "client_inv sem s c" and others: "\<And>d. client_inv sem s d" using inv by (simp_all add: fence_inv_def)
  have ok: "ok_script sem (inTxn ?k) (txn ?k) (lock s = Some c) (p # rest)"
    using cinv alive script by (simp add: client_inv_def Let_def)
  have log: "list_all (\<lambda>(tok, w, r). f_owner r = Some tok \<and> f_running r) (committed s)"
    using inv by (simp add: fence_inv_def)
  let ?s = "put c (?k\<lparr>script := rest\<rparr>) s"
  have oth: "client_inv sem ?s d" if "d \<noteq> c" for d
    using others [of d] that by (simp add: client_inv_def put_def)
  have pend: "pending (clients ?s c) \<noteq> [] \<Longrightarrow> lock ?s = Some c \<and> f_owner (row ?s) = Some (ctok (clients ?s c)) \<and> f_running (row ?s)"
    using cinv by (simp add: client_inv_def put_def Let_def)
  have commit: "fence_inv sem (server_commit c ?s)" "fence_inv sem (server_rollback c ?s)"
    if "ok_script sem (inTxn ?k) False False rest"
    using fence_inv_commit [OF oth _ _ pend] fence_inv_rollback [OF oth] that log by (simp_all add: put_def)
  have eq: "put c k (put c k' s) = put c k s" for k k' by (simp add: put_def)
  show ?thesis
  proof (cases p)
    case PBegin
    then have "t = put c (?k\<lparr>script := rest, txn := True\<rparr>) s"
      using step alive script by (simp add: exec_prim_def Let_def put_def)
    then show ?thesis using inv ok PBegin by (auto intro!: fence_inv_put)
  next
    case (PStmt sql)
    then have t: "t = server_stmt sem c sql ?s" using step alive script by (simp add: exec_prim_def Let_def)
    have same: "fence_inv sem ?s" if "ok_script sem (inTxn ?k) (txn ?k) (lock s = Some c) rest"
      using that inv by (auto intro!: fence_inv_put)
    show ?thesis
    proof (cases "sem sql")
      case (KWrite e)
      then have l: "lock s = Some c" "ok_script sem (inTxn ?k) (txn ?k) (lock s = Some c) rest" using ok PStmt by auto
      moreover have "txn ?k" using cinv l(1) by (simp add: client_inv_def Let_def)
      moreover have "fence_inv sem (put c (?k\<lparr>script := rest, pending := pending ?k @ [(sql, e)]\<rparr>) s)"
        using l inv by (auto intro!: fence_inv_put)
      ultimately show ?thesis using t KWrite same
        by (simp add: server_stmt_def Let_def) (simp add: put_def)
    next
      case KBegin
      then have "fence_inv sem (put c (?k\<lparr>script := rest, txn := True\<rparr>) s)"
        using ok PStmt inv by (auto intro!: fence_inv_put)
      then show ?thesis using t KBegin by (simp add: server_stmt_def Let_def put_def)
    qed (use t ok PStmt commit same in \<open>auto simp: server_stmt_def Let_def\<close>)
  next
    case PFence
    then have x: "txn ?k" "ok_script sem (inTxn ?k) True True rest" using ok by auto
    show ?thesis
    proof (cases "fence_holds ?k s")
      case True
      then have t: "t = ?s\<lparr>lock := Some c\<rparr>" and free: "lock s = None \<or> lock s = Some c"
        using step alive script PFence x by (auto simp: exec_prim_def Let_def split: if_splits)
      have own: "f_owner (row s) = Some (ctok ?k) \<and> f_running (row s)"
        using True cinv by (cases "pending ?k = []") (simp_all add: fence_holds_def client_inv_def last_effect_def Let_def)
      have "client_inv sem t d" for d
        using others [of d] own x free alive unfolding t
        by (cases "d = c") (auto simp: client_inv_def put_def Let_def)
      then show ?thesis using log by (simp add: fence_inv_def t put_def)
    next
      case False
      then have "t = put c (?k\<lparr>script := [PRollback], inTxn := False\<rparr>) s"
        using step alive script PFence by (auto simp: exec_prim_def Let_def put_def split: if_splits)
      then show ?thesis using inv by (auto intro!: fence_inv_put)
    qed
  next
    case PMark
    then have "t = put c (?k\<lparr>script := rest, inTxn := True\<rparr>) s"
      using step alive script by (simp add: exec_prim_def Let_def put_def)
    then show ?thesis using ok PMark inv by (auto intro!: fence_inv_put)
  next
    case PUnmark
    then have "t = put c (?k\<lparr>script := rest, inTxn := False\<rparr>) s"
      using step alive script by (simp add: exec_prim_def Let_def put_def)
    then show ?thesis using ok PUnmark inv by (auto intro!: fence_inv_put)
  next
    case PCommit
    then show ?thesis using step alive script ok commit(1) by (auto simp: exec_prim_def Let_def)
  next
    case PRollback
    then show ?thesis using step alive script ok commit(2) by (auto simp: exec_prim_def Let_def)
  qed
qed


lemma fence_inv_fail_prim:
  assumes inv: "fence_inv sem s" and step: "fail_prim sem c s = Some t"
  shows "fence_inv sem t"
proof -
  let ?k = "clients s c"
  have cinv: "client_inv sem s c" and others: "\<And>d. client_inv sem s d"
    and log: "list_all (\<lambda>(tok, w, r). f_owner r = Some tok \<and> f_running r) (committed s)"
    using inv by (simp_all add: fence_inv_def)
  have alive: "\<not> dead ?k" using step by (auto simp: fail_prim_def Let_def split: if_splits)
  have ok: "ok_script sem (inTxn ?k) (txn ?k) (lock s = Some c) (script ?k)"
    using cinv alive by (simp add: client_inv_def Let_def)
  have rb: "fence_inv sem (server_rollback c (put c (?k\<lparr>script := q\<rparr>) s))"
    if "ok_script sem (inTxn ?k) False False q" for q
  proof (rule fence_inv_rollback)
    show "client_inv sem (put c (?k\<lparr>script := q\<rparr>) s) d" if "d \<noteq> c" for d
      using others [of d] that by (simp add: client_inv_def put_def)
  qed (use that log in \<open>simp_all add: put_def\<close>)
  from step alive consider (stmt) sql rest where "script ?k = PStmt sql # rest" | (com) rest where "script ?k = PCommit # rest"
    by (auto simp: fail_prim_def Let_def split: list.splits prim.splits)
  then show ?thesis
  proof cases
    case stmt
    have err: "ok_script sem (inTxn ?k) (txn ?k) (lock s = Some c) (on_error rest)"
      using ok stmt by (auto simp: on_error_def)
    show ?thesis
    proof (cases "sem sql = KCommit \<or> sem sql = KRollback")
      case True
      then have "ok_script sem (inTxn ?k) False False (on_error rest)" using ok stmt by (auto simp: on_error_def)
      then show ?thesis using rb step alive stmt True by (auto simp: fail_prim_def Let_def)
    next
      case False
      then have "t = put c (if txn ?k then ?k\<lparr>script := on_error rest, aborted := True, pending := []\<rparr>
                            else ?k\<lparr>script := on_error rest\<rparr>) s"
        using step alive stmt by (auto simp: fail_prim_def Let_def)
      then show ?thesis using inv err by (auto intro!: fence_inv_put)
    qed
  next
    case com
    then have "t = server_rollback c (put c (?k\<lparr>script := [PRollback]\<rparr>) s)" "\<not> inTxn ?k"
      using step alive ok by (auto simp: fail_prim_def Let_def)
    then show ?thesis using rb [of "[PRollback]"] by simp
  qed
qed

lemma fence_inv_exec:
  assumes rec: "recognised sem" and inv: "fence_inv sem s" and step: "fence_exec sem op s = Some t"
  shows "fence_inv sem t"
proof (cases op)
  case (ClientQuery c sql)
  have "client_inv sem s c" using inv by (simp add: fence_inv_def)
  then show ?thesis using step inv ok_wrapped [OF rec, of "inTxn (clients s c)" "lock s = Some c" "txn (clients s c)" sql] ClientQuery
    by (auto simp: Let_def idle_def client_inv_def split: if_splits intro!: fence_inv_put)
next
  case (PoolQuery c sql)
  then show ?thesis using step inv ok_pool [OF rec, of "txn (clients s c)" "lock s = Some c" sql]
    by (auto simp: Let_def idle_def split: if_splits intro!: fence_inv_put)
next
  case (Transaction c texts)
  then show ?thesis using step inv ok_transaction [of sem texts]
    by (auto simp: Let_def idle_def inFencedTransaction_def split: if_splits intro!: fence_inv_put)
next
  case (Exec c)
  then show ?thesis using fence_inv_exec_prim [OF inv] step by simp
next
  case (Fail c)
  then show ?thesis using fence_inv_fail_prim [OF inv] step by simp
next
  case (Disconnect c)
  have "fence_inv sem (server_rollback c (put c ((clients s c)\<lparr>dead := True, script := []\<rparr>) s))"
    using inv by (intro fence_inv_rollback) (auto simp: fence_inv_def client_inv_def put_def)
  then show ?thesis using step Disconnect by simp
next
  case (Takeover r)
  then show ?thesis using step inv by (auto simp: fence_inv_def client_inv_def split: if_splits)
qed

text \<open>The recognised texts are a parameter of the system, so the interpretation is per \<open>sem\<close>.\<close>

locale recognised_sql =
  fixes sem :: "string \<Rightarrow> sql_kind"
  assumes sem_recognised: "recognised sem"

sublocale recognised_sql \<subseteq> fenced: invariant_system fence_start "fence_step sem" "fence_inv sem"
proof unfold_locales
  show "fence_inv sem s" if "fence_start s" for s
    using that by (auto simp: fence_start_def fence_inv_def client_inv_def)
  show "fence_inv sem t" if "fence_inv sem s" "fence_step sem s t" for s t
    using that by (auto elim!: fence_step.cases intro: fence_inv_exec [OF sem_recognised])
qed

context recognised_sql
begin

lemma committed_owned:
  "\<lbrakk>reachable fence_start (fence_step sem) s; (tok, w, r) \<in> set (committed s)\<rbrakk> \<Longrightarrow> f_owner r = Some tok \<and> f_running r"
  by (drule fenced.reachable_inv) (auto simp: fence_inv_def list_all_iff)

end

text \<open>A classification by the expressions themselves, for statements that touch no job row.\<close>

definition sem_by_text :: "string \<Rightarrow> sql_kind" where
  "sem_by_text sql =
     (if BEGIN_RE sql then KBegin else if END_RE sql then KCommit
      else if WRITE_RE sql then KWrite None else KRead)"

lemma head_word_hd: "head_word (c # w) s = Some r \<Longrightarrow> s \<noteq> [] \<and> js_lower_char (hd s) = js_lower_char c"
  by (cases s) (auto simp: head_word_def split: if_splits)

lemma begin_not_end: "BEGIN_RE sql \<Longrightarrow> \<not> END_RE sql"
  by (auto simp: BEGIN_RE_def END_RE_def js_lower_char_def char_class_defs split: option.splits dest!: head_word_hd)

interpretation by_text: recognised_sql sem_by_text
  using begin_not_end by unfold_locales (auto simp: recognised_def sem_by_text_def)

text \<open>
  C3: in every interleaving of handles, failures, lost connections and takeovers of the job, each
  write that was ever committed through a fenced handle was committed while the job was running
  and owned by that handle's token: no stale worker commits a write after a takeover.
\<close>

theorem committed_writes_were_owned:
  assumes "recognised sem" "reachable fence_start (fence_step sem) s" "(tok, w, r) \<in> set (committed s)"
  shows "f_owner r = Some tok \<and> f_running r"
  using recognised_sql.committed_owned [OF recognised_sql.intro [OF assms(1)] assms(2,3)] .

text \<open>
  Worker 0 owns the job and writes; the job is taken over; its next write finds the new owner and is
  rolled back.
\<close>

fun run_fence :: "(string \<Rightarrow> sql_kind) \<Rightarrow> fence_op list \<Rightarrow> fence_sys \<Rightarrow> fence_sys option" where
  "run_fence sem [] s = Some s"
| "run_fence sem (op # ops) s = (case fence_exec sem op s of None \<Rightarrow> None | Some t \<Rightarrow> run_fence sem ops t)"

lemma run_fence_reachable:
  "\<lbrakk>run_fence sem ops s = Some t; reachable fence_start (fence_step sem) s\<rbrakk> \<Longrightarrow> reachable fence_start (fence_step sem) t"
  by (induction sem ops s rule: run_fence.induct)
    (auto split: option.splits intro: reachable.more fence_step.fence_stepI)

definition two_workers :: fence_sys where
  "two_workers = \<lparr>row = \<lparr>f_owner = Some ''w0'', f_running = True\<rparr>, lock = None,
     clients = (\<lambda>c. \<lparr>ctok = (if c = 0 then ''w0'' else ''w1''), script = [], inTxn = False, txn = False,
                     aborted = False, pending = [], dead = False\<rparr>),
     committed = []\<rparr>"

definition takeover_trace :: "fence_op list" where
  "takeover_trace =
     [PoolQuery 0 ''INSERT a'', Exec 0, Exec 0, Exec 0, Exec 0,
      Takeover \<lparr>f_owner = Some ''w1'', f_running = True\<rparr>,
      PoolQuery 0 ''INSERT b'', Exec 0, Exec 0, Exec 0]"

lemma takeover_trace_log:
  "map_option (\<lambda>s. map (\<lambda>(tok, w, r). (tok, w)) (committed s)) (run_fence sem_by_text takeover_trace two_workers)
   = Some [(''w0'', ''INSERT a'')]"
  by code_simp

definition takeover_end :: fence_sys where
  "takeover_end = the (run_fence sem_by_text takeover_trace two_workers)"

lemma takeover_end_log:
  "run_fence sem_by_text takeover_trace two_workers = Some takeover_end
   \<and> map (\<lambda>(tok, w, r). (tok, w)) (committed takeover_end) = [(''w0'', ''INSERT a'')]"
  using takeover_trace_log by (auto simp: takeover_end_def)

theorem committed_writes_were_owned_witness:
  "list_all (\<lambda>(tok, w, r). f_owner r = Some tok \<and> f_running r) (committed takeover_end)
   \<and> length (committed takeover_end) = 1"
proof
  have "recognised sem_by_text" by (rule by_text.sem_recognised)
  moreover have "reachable fence_start (fence_step sem_by_text) two_workers"
    by (rule reachable.start) (simp add: fence_start_def two_workers_def)
  then have "reachable fence_start (fence_step sem_by_text) takeover_end"
    using takeover_end_log by (blast intro: run_fence_reachable)
  ultimately show "list_all (\<lambda>(tok, w, r). f_owner r = Some tok \<and> f_running r) (committed takeover_end)"
    using committed_writes_were_owned by (auto simp: list_all_iff)
  show "length (committed takeover_end) = 1" using takeover_end_log by (metis length_Cons length_map list.size(3) One_nat_def)
qed

text \<open>A write behind a leading comment is taken for a read: the handle sends it without the fence.\<close>

lemma commented_write_unfenced: "pool_query ''/* c */ UPDATE t'' = [PStmt ''/* c */ UPDATE t'']"
  by code_simp

end
