(* ===== verification/FeedSsrf.thy ===== *)
theory FeedSsrf
  imports TH_Prelude "HOL-Library.Word"
begin

text \<open>
  Where a custom threat feed may be fetched from: the address deny list and the host and URL policy
  of \<open>lib/customThreatFeedSsrf.js\<close>.  Node's \<open>isIP\<close> and \<open>BlockList\<close> are modelled on 32- and 128-bit
  words; DNS is the argument of the definitions that resolve names, and the WHATWG URL class is the
  record \<open>url_api\<close> of its parser and serialiser.
\<close>

unbundle bit_operations_syntax

section \<open>Addresses\<close>

datatype ip = V4 "32 word" | V6 "128 word"

text \<open>\<open>node:net isIP\<close>: dotted decimal without leading zeros.\<close>

definition v4_octet :: "string \<Rightarrow> int option" where
  "v4_octet s =
     (if s \<noteq> [] \<and> length s \<le> 3 \<and> list_all is_digit s \<and> (length s = 1 \<or> hd s \<noteq> CHR ''0'') \<and> digits_val s \<le> 255
      then Some (int (digits_val s)) else None)"

definition v4_value :: "string \<Rightarrow> int option" where
  "v4_value s =
     (case map v4_octet (js_split CHR ''.'' s) of
        [Some a, Some b, Some c, Some d] \<Rightarrow> Some (((a * 256 + b) * 256 + c) * 256 + d)
      | _ \<Rightarrow> None)"

definition hex_val :: "char \<Rightarrow> nat" where
  "hex_val c = (if is_digit c then digit_val c else of_char (js_lower_char c) - 87)"

definition v6_group :: "string \<Rightarrow> int option" where
  "v6_group s = (if s \<noteq> [] \<and> length s \<le> 4 \<and> list_all is_hex s
                 then Some (fold (\<lambda>c n. 16 * n + int (hex_val c)) s 0) else None)"

text \<open>Colon-separated groups; with \<open>v4\<close> the last one may be a dotted IPv4 address.\<close>

fun v6_groups :: "bool \<Rightarrow> string list \<Rightarrow> int list option" where
  "v6_groups v4 [] = Some []"
| "v6_groups v4 [s] =
     (case v6_group s of
        Some g \<Rightarrow> Some [g]
      | None \<Rightarrow> if v4 then map_option (\<lambda>n. [n div 65536, n mod 65536]) (v4_value s) else None)"
| "v6_groups v4 (s # ss) =
     (case v6_group s of None \<Rightarrow> None | Some g \<Rightarrow> map_option ((#) g) (v6_groups v4 ss))"

definition v6_part :: "bool \<Rightarrow> string \<Rightarrow> int list option" where
  "v6_part v4 s = (if s = [] then Some [] else v6_groups v4 (js_split CHR '':'' s))"

text \<open>The text before and after the first double colon.\<close>

fun double_colon :: "string \<Rightarrow> (string \<times> string) option" where
  "double_colon (a # b # cs) =
     (if a = CHR '':'' \<and> b = CHR '':'' then Some ([], cs)
      else map_option (\<lambda>(l, r). (a # l, r)) (double_colon (b # cs)))"
| "double_colon _ = None"

definition v6_all :: "string \<Rightarrow> int list option" where
  "v6_all s =
     (case double_colon s of
        None \<Rightarrow> (case v6_groups True (js_split CHR '':'' s) of
                   Some gs \<Rightarrow> if length gs = 8 then Some gs else None | None \<Rightarrow> None)
      | Some (l, r) \<Rightarrow>
          (case (v6_part False l, v6_part True r) of
             (Some ls, Some rs) \<Rightarrow>
               if length ls + length rs \<le> 7 then Some (ls @ replicate (8 - length ls - length rs) 0 @ rs) else None
           | _ \<Rightarrow> None))"

text \<open>A zone (\<open>%eth0\<close>) may follow an IPv6 address.\<close>

definition zone_char :: "char \<Rightarrow> bool" where
  "zone_char c = (is_alpha c \<or> is_digit c \<or> c \<in> {CHR ''-'', CHR ''.'', CHR '':''})"

definition v6_value :: "string \<Rightarrow> int option" where
  "v6_value s =
     (let body = takeWhile (\<lambda>c. c \<noteq> CHR ''%'') s; rest = drop (length body) s in
      if rest = [] \<or> (tl rest \<noteq> [] \<and> list_all zone_char (tl rest))
      then map_option (\<lambda>gs. fold (\<lambda>g n. 65536 * n + g) gs 0) (v6_all body) else None)"

definition parse_ip :: "string \<Rightarrow> ip option" where
  "parse_ip s =
     (case v4_value s of
        Some n \<Rightarrow> Some (V4 (word_of_int n))
      | None \<Rightarrow> (case v6_value s of Some n \<Rightarrow> Some (V6 (word_of_int n)) | None \<Rightarrow> None))"

definition isIP :: "string \<Rightarrow> nat" where
  "isIP s = (case parse_ip s of None \<Rightarrow> 0 | Some (V4 _) \<Rightarrow> 4 | Some (V6 _) \<Rightarrow> 6)"

section \<open>The deny list\<close>

text \<open>
  \<open>BlockList\<close> compares IPv4 addresses and rules in their IPv4-mapped form (\<open>::ffff:a.b.c.d\<close>), so an
  IPv4-mapped IPv6 address meets the IPv4 rules.
\<close>

definition mapped :: "32 word \<Rightarrow> 128 word" where
  "mapped w = word_of_int (0xffff * 2 ^ 32 + uint w)"

definition bits_of_ip :: "ip \<Rightarrow> 128 word" where
  "bits_of_ip a = (case a of V4 w \<Rightarrow> mapped w | V6 w \<Rightarrow> w)"

definition in_subnet :: "ip \<Rightarrow> ip \<Rightarrow> nat \<Rightarrow> bool" where
  "in_subnet a net n =
     (let k = (case net of V4 _ \<Rightarrow> 32 - n | V6 _ \<Rightarrow> 128 - n)
      in drop_bit k (bits_of_ip a) = drop_bit k (bits_of_ip net))"

definition FORBIDDEN_DESTINATIONS :: "(string \<times> nat) list" where
  "FORBIDDEN_DESTINATIONS =
     [(''0.0.0.0'', 8), (''10.0.0.0'', 8), (''127.0.0.0'', 8), (''169.254.0.0'', 16), (''172.16.0.0'', 12),
      (''192.168.0.0'', 16), (''100.64.0.0'', 10), (''192.0.0.0'', 24), (''192.0.2.0'', 24), (''192.88.99.0'', 24),
      (''198.18.0.0'', 15), (''198.51.100.0'', 24), (''203.0.113.0'', 24), (''224.0.0.0'', 4), (''240.0.0.0'', 4),
      (''::'', 128), (''::1'', 128), (''::'', 96), (''64:ff9b::'', 96), (''64:ff9b:1::'', 48), (''2002::'', 16),
      (''2001::'', 32), (''100::'', 64), (''2001:db8::'', 32), (''fc00::'', 7), (''fe80::'', 10), (''fec0::'', 10),
      (''ff00::'', 8)]"

definition blocklist_check :: "ip \<Rightarrow> bool" where
  "blocklist_check a =
     list_ex (\<lambda>(net, n). case parse_ip net of None \<Rightarrow> False | Some b \<Rightarrow> in_subnet a b n) FORBIDDEN_DESTINATIONS"

text \<open>\<open>.replace(/^\[|\]$/g, '')\<close>.\<close>

definition strip_brackets :: "string \<Rightarrow> string" where
  "strip_brackets s =
     (let s1 = (if s \<noteq> [] \<and> hd s = CHR ''['' then tl s else s)
      in if s1 \<noteq> [] \<and> last s1 = CHR '']'' then butlast s1 else s1)"

definition isForbiddenFeedDestinationIp :: "string \<Rightarrow> bool" where
  "isForbiddenFeedDestinationIp address =
     (let raw = strip_brackets (js_trim address) in
      if raw = [] then True
      else case parse_ip raw of None \<Rightarrow> True | Some a \<Rightarrow> blocklist_check a)"

section \<open>Host names\<close>

definition strip_trailing_dots :: "string \<Rightarrow> string" where
  "strip_trailing_dots s = rev (dropWhile (\<lambda>c. c = CHR ''.'') (rev s))"

definition normalizeFeedHostname :: "string \<Rightarrow> string" where
  "normalizeFeedHostname hostname = strip_trailing_dots (strip_brackets (js_lower (js_trim hostname)))"

definition ends_with :: "string \<Rightarrow> string \<Rightarrow> bool" where
  "ends_with suf s = (length suf \<le> length s \<and> drop (length s - length suf) s = suf)"

definition BLOCKED_HOSTNAMES :: "string list" where
  "BLOCKED_HOSTNAMES = [''localhost'', ''metadata'', ''metadata.google.internal'']"

definition isBlockedHostname :: "string \<Rightarrow> bool" where
  "isBlockedHostname hostname =
     (let host = normalizeFeedHostname hostname in
      host = [] \<or> host \<in> set BLOCKED_HOSTNAMES
      \<or> host = ''127.0.0.1'' \<or> host = ''::1'' \<or> host = ''0.0.0.0''
      \<or> ends_with ''.local'' host \<or> ends_with ''.localhost'' host \<or> ends_with ''.internal'' host
      \<or> isIP host = 0 \<and> CHR ''.'' \<notin> set host)"

section \<open>URLs\<close>

record url =
  protocol :: string
  hostname :: string
  port :: string
  path_search :: string
  username :: string
  password :: string

text \<open>\<open>new URL(text)\<close>, \<open>new URL(text, base)\<close> (\<open>None\<close>: throws) and \<open>url.href\<close>.\<close>

record url_api =
  parse_url :: "string \<Rightarrow> url option"
  resolve_url :: "string \<Rightarrow> url \<Rightarrow> url option"
  href :: "url \<Rightarrow> string"

datatype policy_error = UrlRequired | UrlInvalid | ProtocolNotAllowed | HostnameMissing | PrivateNotAllowed

record policy_ok =
  ok_url :: string
  ok_parsed :: url
  ok_host :: string

definition validateFeedUrlPolicy :: "url_api \<Rightarrow> string \<Rightarrow> (policy_error, policy_ok) result" where
  "validateFeedUrlPolicy api urlString =
     (let raw = js_trim urlString in
      if raw = [] then Inl UrlRequired
      else case parse_url api raw of
             None \<Rightarrow> Inl UrlInvalid
           | Some parsed \<Rightarrow>
               (let prot = js_lower (protocol parsed); host = normalizeFeedHostname (hostname parsed) in
                if prot \<noteq> ''http:'' \<and> prot \<noteq> ''https:'' then Inl ProtocolNotAllowed
                else if host = [] then Inl HostnameMissing
                else if isBlockedHostname host then Inl PrivateNotAllowed
                else if isIP host \<noteq> 0 \<and> isForbiddenFeedDestinationIp host then Inl PrivateNotAllowed
                else Inr \<lparr>ok_url = raw, ok_parsed = parsed, ok_host = host\<rparr>))"

definition isSameFeedOrigin :: "url \<Rightarrow> url \<Rightarrow> bool" where
  "isSameFeedOrigin a b =
     (protocol a = protocol b \<and> normalizeFeedHostname (hostname a) = normalizeFeedHostname (hostname b) \<and> port a = port b)"

definition stripUrlUserinfo :: "url_api \<Rightarrow> url \<Rightarrow> url option" where
  "stripUrlUserinfo api u = map_option (\<lambda>v. v\<lparr>username := [], password := []\<rparr>) (parse_url api (href api u))"

section \<open>Resolving\<close>

record address =
  addr :: string
  family :: nat

text \<open>A DNS answer: the records, or the code of the error.\<close>

type_synonym dns_answer = "(string, address list) result"

definition CARES_EMPTY_CODES :: "string list" where
  "CARES_EMPTY_CODES = [''ENODATA'', ''ENOTFOUND'', ''ESERVFAIL'', ''ETIMEOUT'']"

definition resolveFamilyOrEmpty :: "(string, string list) result \<Rightarrow> (string, string list) result" where
  "resolveFamilyOrEmpty r =
     (case r of Inr as \<Rightarrow> Inr as | Inl code \<Rightarrow> if code \<in> set CARES_EMPTY_CODES then Inr [] else Inl code)"

definition resolveFeedHostViaCares ::
    "(string, string list) result \<Rightarrow> (string, string list) result \<Rightarrow> dns_answer" where
  "resolveFeedHostViaCares r4 r6 =
     (let tag = (\<lambda>f r. case r of Inr as \<Rightarrow> map (\<lambda>a. \<lparr>addr = a, family = f\<rparr>) as | Inl _ \<Rightarrow> []);
          v4 = resolveFamilyOrEmpty r4; v6 = resolveFamilyOrEmpty r6
      in case (v4, v6) of
           (Inl e, Inl _) \<Rightarrow> Inl e
         | _ \<Rightarrow> Inr (tag 4 v4 @ tag 6 v6))"

text \<open>The three resolver calls for a host: \<open>dns.lookup\<close>, \<open>dns.resolve4\<close>, \<open>dns.resolve6\<close>.\<close>

record resolver =
  lookup :: "string \<Rightarrow> dns_answer"
  resolve4 :: "string \<Rightarrow> (string, string list) result"
  resolve6 :: "string \<Rightarrow> (string, string list) result"

datatype fetch_error =
    Invalid_url | Destination_blocked | Dns_lookup_failed | Timed_out | Request_failed
  | Redirect_invalid | Redirect_limit | Redirect_blocked | Response_too_large

definition resolveSafeFeedHost :: "resolver \<Rightarrow> string \<Rightarrow> (fetch_error, address list) result" where
  "resolveSafeFeedHost dns hostname0 =
     (let host = normalizeFeedHostname hostname0 in
      if host = [] then Inl Invalid_url
      else if isBlockedHostname host then Inl Destination_blocked
      else if isIP host \<noteq> 0
      then (if isForbiddenFeedDestinationIp host then Inl Destination_blocked
            else Inr [\<lparr>addr = host, family = isIP host\<rparr>])
      else
        let answer = (case lookup dns host of
              Inr rs \<Rightarrow> Inr rs
            | Inl code \<Rightarrow> if code = ''EAI_AGAIN'' \<or> code = ''ENOTFOUND''
                then resolveFeedHostViaCares (resolve4 dns host) (resolve6 dns host) else Inl code)
        in case answer of
             Inl _ \<Rightarrow> Inl Dns_lookup_failed
           | Inr [] \<Rightarrow> Inl Dns_lookup_failed
           | Inr rs \<Rightarrow>
               if list_ex (\<lambda>r. let a = js_trim (addr r) in a = [] \<or> isIP a = 0 \<or> isForbiddenFeedDestinationIp a) rs
               then Inl Destination_blocked
               else Inr (map (\<lambda>r. \<lparr>addr = addr r, family = (if family r = 6 then 6 else 4)\<rparr>) rs))"

definition assertSafeFeedDestination ::
    "url_api \<Rightarrow> resolver \<Rightarrow> string \<Rightarrow> (fetch_error, policy_ok \<times> address list) result" where
  "assertSafeFeedDestination api dns urlString =
     (case validateFeedUrlPolicy api urlString of
        Inl _ \<Rightarrow> Inl Invalid_url
      | Inr chk \<Rightarrow>
          (case resolveSafeFeedHost dns (hostname (ok_parsed chk)) of
             Inl e \<Rightarrow> Inl e | Inr as \<Rightarrow> Inr (chk, as)))"


section \<open>What the deny list covers\<close>

text \<open>The reserved address ranges as plain intervals of numbers.\<close>

definition reserved_v4 :: "int \<Rightarrow> bool" where
  "reserved_v4 n = list_ex (\<lambda>(lo, hi). lo \<le> n \<and> n \<le> hi)
     [(0x00000000, 0x00ffffff), (0x0a000000, 0x0affffff), (0x7f000000, 0x7fffffff), (0xa9fe0000, 0xa9feffff),
      (0xac100000, 0xac1fffff), (0xc0a80000, 0xc0a8ffff), (0x64400000, 0x647fffff), (0xc0000000, 0xc00000ff),
      (0xc0000200, 0xc00002ff), (0xc0586300, 0xc05863ff), (0xc6120000, 0xc613ffff), (0xc6336400, 0xc63364ff),
      (0xcb007100, 0xcb0071ff), (0xe0000000, 0xefffffff), (0xf0000000, 0xffffffff)]"

definition reserved_v6 :: "int \<Rightarrow> bool" where
  "reserved_v6 n = list_ex (\<lambda>(lo, hi). lo \<le> n \<and> n \<le> hi)
     [(0, 0), (1, 1), (0, 0xffffffff),
      (0x64ff9b000000000000000000000000, 0x64ff9b0000000000000000ffffffff),
      (0x64ff9b000100000000000000000000, 0x64ff9b0001ffffffffffffffffffff),
      (0x20020000000000000000000000000000, 0x2002ffffffffffffffffffffffffffff),
      (0x20010000000000000000000000000000, 0x20010000ffffffffffffffffffffffff),
      (0x1000000000000000000000000000000, 0x100000000000000ffffffffffffffff),
      (0x20010db8000000000000000000000000, 0x20010db8ffffffffffffffffffffffff),
      (0xfc000000000000000000000000000000, 0xfdffffffffffffffffffffffffffffff),
      (0xfe800000000000000000000000000000, 0xfebfffffffffffffffffffffffffffff),
      (0xfec00000000000000000000000000000, 0xfeffffffffffffffffffffffffffffff),
      (0xff000000000000000000000000000000, 0xffffffffffffffffffffffffffffffff)]"

lemma forbidden_nets:
  "map (\<lambda>(t, n). (parse_ip t, n)) FORBIDDEN_DESTINATIONS =
     [(Some (V4 0x0), 8), (Some (V4 0xa000000), 8), (Some (V4 0x7f000000), 8),
      (Some (V4 0xa9fe0000), 16), (Some (V4 0xac100000), 12), (Some (V4 0xc0a80000), 16),
      (Some (V4 0x64400000), 10), (Some (V4 0xc0000000), 24), (Some (V4 0xc0000200), 24),
      (Some (V4 0xc0586300), 24), (Some (V4 0xc6120000), 15), (Some (V4 0xc6336400), 24),
      (Some (V4 0xcb007100), 24), (Some (V4 0xe0000000), 4), (Some (V4 0xf0000000), 4),
      (Some (V6 0x0), 128), (Some (V6 0x1), 128), (Some (V6 0x0), 96),
      (Some (V6 0x64ff9b000000000000000000000000), 96), (Some (V6 0x64ff9b000100000000000000000000), 48), (Some (V6 0x20020000000000000000000000000000), 16),
      (Some (V6 0x20010000000000000000000000000000), 32), (Some (V6 0x1000000000000000000000000000000), 64), (Some (V6 0x20010db8000000000000000000000000), 32),
      (Some (V6 0xfc000000000000000000000000000000), 7), (Some (V6 0xfe800000000000000000000000000000), 10), (Some (V6 0xfec00000000000000000000000000000), 10),
      (Some (V6 0xff000000000000000000000000000000), 8)]"
  by code_simp

lemma list_ex_parsed:
  "list_ex (\<lambda>(t, n). case f t of None \<Rightarrow> False | Some c \<Rightarrow> P c n) xs
   = list_ex (\<lambda>(b, n). case b of None \<Rightarrow> False | Some c \<Rightarrow> P c n) (map (\<lambda>(t, n). (f t, n)) xs)"
  by (induction xs) auto

lemmas blocklist_nets = trans [OF blocklist_check_def list_ex_parsed, unfolded forbidden_nets]

lemma uint_drop_bit: "uint (drop_bit k (a :: 128 word)) = uint a div 2 ^ k"
proof -
  have "uint a < 2 ^ LENGTH(128)" by (rule uint_lt2p)
  then have "take_bit LENGTH(128) (uint a) = uint a" by (intro take_bit_int_eq_self) simp_all
  then show ?thesis unfolding unsigned_drop_bit_eq drop_bit_eq_div [of _ "_ :: int"] by simp
qed

lemma div_eq_range: "0 < (m :: int) \<Longrightarrow> x div m = q \<longleftrightarrow> q * m \<le> x \<and> x < q * m + m"
proof
  assume m: "0 < m" and q: "x div m = q"
  have "x = q * m + x mod m" using div_mult_mod_eq [of x m] q by simp
  then show "q * m \<le> x \<and> x < q * m + m" using pos_mod_bound [OF m, of x] pos_mod_sign [OF m, of x] by linarith
next
  assume "0 < m" "q * m \<le> x \<and> x < q * m + m"
  then show "x div m = q" by (intro int_div_pos_eq [of _ _ _ "x - q * m"]) (simp_all add: mult.commute)
qed

lemma drop_bit_range:
  fixes a b :: "128 word"
  shows "drop_bit k a = drop_bit k b \<longleftrightarrow>
    uint b div 2 ^ k * 2 ^ k \<le> uint a \<and> uint a < uint b div 2 ^ k * 2 ^ k + 2 ^ k"
  unfolding word_uint_eq_iff [of "drop_bit k a"] uint_drop_bit by (rule div_eq_range) simp

lemma uint_mapped: "uint (mapped w) = 0xffff * 2 ^ 32 + uint w"
proof -
  have "uint w < 2 ^ 32" using uint_lt2p [of w] by simp
  then show ?thesis
    unfolding mapped_def uint_word_of_int by (subst mod_pos_pos_trivial) simp_all
qed

text \<open>One rule is one interval, when its base address is the first of its block.\<close>

lemma aligned_range:
  "\<lbrakk>0 < (m :: int); b mod m = 0\<rbrakk> \<Longrightarrow> b div m * m \<le> x \<and> x < b div m * m + m \<longleftrightarrow> b \<le> x \<and> x \<le> b + m - 1"
  using div_mult_mod_eq [of b m] by auto

lemma subnet_v6:
  assumes "n \<le> 128" "uint b mod 2 ^ (128 - n) = 0"
  shows "in_subnet a (V6 b) n \<longleftrightarrow> uint b \<le> uint (bits_of_ip a) \<and> uint (bits_of_ip a) \<le> uint b + 2 ^ (128 - n) - 1"
  using aligned_range [OF _ assms(2), of "uint (bits_of_ip a)"]
  by (simp add: in_subnet_def drop_bit_range bits_of_ip_def [of "V6 b"])

lemma subnet_v4:
  assumes "n \<le> 32" "uint b mod 2 ^ (32 - n) = 0"
  shows "in_subnet a (V4 b) n \<longleftrightarrow>
    0xffff * 2 ^ 32 + uint b \<le> uint (bits_of_ip a) \<and> uint (bits_of_ip a) \<le> 0xffff * 2 ^ 32 + uint b + 2 ^ (32 - n) - 1"
proof -
  have "(2 :: int) ^ (32 - n) dvd 0xffff * 2 ^ 32" using le_imp_power_dvd [of "32 - n" 32 "2 :: int"] by (simp only: dvd_mult) 
  then have "(0xffff * 2 ^ 32 + uint b) mod 2 ^ (32 - n) = 0"
    using assms(2) by (metis dvd_add dvd_imp_mod_0 mod_0_imp_dvd)
  from aligned_range [OF _ this, of "uint (bits_of_ip a)"] show ?thesis
    by (simp add: in_subnet_def drop_bit_range bits_of_ip_def [of "V4 b"] uint_mapped)
qed

lemma subnet_v4_v4:
  assumes "n \<le> 32" "uint b mod 2 ^ (32 - n) = 0"
  shows "in_subnet (V4 w) (V4 b) n \<longleftrightarrow> uint b \<le> uint w \<and> uint w \<le> uint b + 2 ^ (32 - n) - 1"
  by (simp add: subnet_v4 [OF assms] bits_of_ip_def uint_mapped) linarith

lemma mapped_range:
  assumes "0 \<le> (r :: int)" "r < 2 ^ 32" "0 \<le> b" "b + m \<le> 2 ^ 32"
  shows "0xffff * 2 ^ 32 + b \<le> q * 2 ^ 32 + r \<and> q * 2 ^ 32 + r \<le> 0xffff * 2 ^ 32 + b + m - 1
    \<longleftrightarrow> q = 0xffff \<and> b \<le> r \<and> r \<le> b + m - 1"
proof -
  consider "q \<le> 0xfffe" | "q = 0xffff" | "0x10000 \<le> q" by linarith
  then show ?thesis using assms by cases auto
qed

lemma subnet_v6_v4:
  assumes "n \<le> 32" "uint b mod 2 ^ (32 - n) = 0" "uint b + 2 ^ (32 - n) \<le> 2 ^ 32"
  shows "in_subnet (V6 w) (V4 b) n \<longleftrightarrow>
    uint w div 2 ^ 32 = 0xffff \<and> uint b \<le> uint w mod 2 ^ 32 \<and> uint w mod 2 ^ 32 \<le> uint b + 2 ^ (32 - n) - 1"
  using mapped_range [of "uint w mod 2 ^ 32" "uint b" "2 ^ (32 - n)" "uint w div 2 ^ 32"] assms(3)
  unfolding subnet_v4 [OF assms(1,2)] bits_of_ip_def div_mult_mod_eq by simp

lemma mapped_outside_v6:
  "\<lbrakk>0 \<le> (u :: int); u < 2 ^ 32\<rbrakk> \<Longrightarrow> \<not> reserved_v6 (0xffff * 2 ^ 32 + u)"
  by (simp add: reserved_v6_def)

lemma blocklist_any:
  "blocklist_check a \<longleftrightarrow>
     list_ex (\<lambda>(b, n). in_subnet a (V4 b) n)
       [(0x0, 8), (0xa000000, 8), (0x7f000000, 8), (0xa9fe0000, 16), (0xac100000, 12), (0xc0a80000, 16),
        (0x64400000, 10), (0xc0000000, 24), (0xc0000200, 24), (0xc0586300, 24), (0xc6120000, 15), (0xc6336400, 24),
        (0xcb007100, 24), (0xe0000000, 4), (0xf0000000, 4)]
     \<or> reserved_v6 (uint (bits_of_ip a))"
  by (simp add: blocklist_nets reserved_v6_def subnet_v6)

lemma blocklist_v4: "blocklist_check (V4 w) \<longleftrightarrow> reserved_v4 (uint w)"
proof -
  have "0 \<le> uint w" "uint w < 2 ^ 32" using uint_lt2p [of w] by simp_all
  then have "\<not> reserved_v6 (uint (bits_of_ip (V4 w)))"
    using mapped_outside_v6 [of "uint w"] by (simp add: bits_of_ip_def uint_mapped)
  then show ?thesis by (simp add: blocklist_any reserved_v4_def subnet_v4_v4)
qed

lemma blocklist_v6:
  "blocklist_check (V6 w) \<longleftrightarrow>
     uint w div 2 ^ 32 = 0xffff \<and> reserved_v4 (uint w mod 2 ^ 32) \<or> reserved_v6 (uint w)"
  by (simp add: blocklist_any reserved_v4_def subnet_v6_v4 bits_of_ip_def [of "V6 w"] conj_disj_distribL)

text \<open>Evaluation uses the intervals.\<close>

lemma blocklist_code [code]:
  "blocklist_check a =
     (case a of
        V4 w \<Rightarrow> reserved_v4 (uint w)
      | V6 w \<Rightarrow> uint w div 2 ^ 32 = 0xffff \<and> reserved_v4 (uint w mod 2 ^ 32) \<or> reserved_v6 (uint w))"
  by (cases a) (simp_all add: blocklist_v4 blocklist_v6)

text \<open>
  C36: the deny list as written, rules matched on address bits, refuses exactly the texts that are no
  IP address, the addresses of the reserved IPv4 and IPv6 ranges, and the IPv6 addresses that carry
  a reserved IPv4 address in IPv4-mapped form.
\<close>

theorem deny_list_ranges:
  "isForbiddenFeedDestinationIp s \<longleftrightarrow>
     (case parse_ip (strip_brackets (js_trim s)) of
        None \<Rightarrow> True
      | Some (V4 w) \<Rightarrow> reserved_v4 (uint w)
      | Some (V6 w) \<Rightarrow> uint w div 2 ^ 32 = 0xffff \<and> reserved_v4 (uint w mod 2 ^ 32) \<or> reserved_v6 (uint w))"
proof -
  have "parse_ip [] = None" by code_simp
  then show ?thesis
    unfolding isForbiddenFeedDestinationIp_def Let_def
    by (auto simp: blocklist_v4 blocklist_v6 split: option.splits ip.splits)
qed

section \<open>What the destination gate lets through\<close>

definition good_destination :: "url \<Rightarrow> address list \<Rightarrow> bool" where
  "good_destination u as \<longleftrightarrow>
     js_lower (protocol u) \<in> {''http:'', ''https:''}
     \<and> \<not> isBlockedHostname (normalizeFeedHostname (hostname u)) \<and> as \<noteq> []
     \<and> (\<forall>a\<in>set as. \<not> isForbiddenFeedDestinationIp (addr a))"

lemma forbidden_trim [simp]: "isForbiddenFeedDestinationIp (js_trim s) = isForbiddenFeedDestinationIp s"
  by (simp add: isForbiddenFeedDestinationIp_def)

lemma resolveSafe_sound:
  assumes "resolveSafeFeedHost dns h = Inr as"
  shows "\<not> isBlockedHostname (normalizeFeedHostname h)" "as \<noteq> []" "\<forall>a\<in>set as. \<not> isForbiddenFeedDestinationIp (addr a)"
  using assms
  by (auto simp: resolveSafeFeedHost_def Let_def list_ex_iff split: if_splits sum.splits list.splits)

lemma validate_sound:
  "validateFeedUrlPolicy api s = Inr chk \<Longrightarrow> js_lower (protocol (ok_parsed chk)) \<in> {''http:'', ''https:''}"
  by (auto simp: validateFeedUrlPolicy_def Let_def split: if_splits option.splits)

lemma gate_sound:
  assumes "assertSafeFeedDestination api dns s = Inr (chk, as)"
  shows "good_destination (ok_parsed chk) as"
  using assms validate_sound [of api s chk] resolveSafe_sound [of dns "hostname (ok_parsed chk)" as]
  by (auto simp: assertSafeFeedDestination_def good_destination_def split: sum.splits)

end
