(* ===== verification/FeedAuth.thy ===== *)
theory FeedAuth
  imports TH_Prelude "HOL-Library.Sublist"
begin

text \<open>
  Credentials of custom threat feeds (\<open>lib/customThreatFeedAuth.js\<close>): validation of the request
  body, merging with the stored credentials, the headers they give, the masked summary and the
  redaction of error messages.  A field of a request is \<open>None\<close> when it is \<open>undefined\<close>; its text is
  \<open>String(value || '')\<close>.  Base64 is the argument \<open>b64\<close>.
\<close>

section \<open>Masking\<close>

definition maskSecret :: "string \<Rightarrow> string option" where
  "maskSecret v =
     (let s = js_trim v in
      if s = [] then None
      else if length s \<le> 4 then Some ''****''
      else let shown = min 2 (length s div 4) in Some (take shown s @ ''****'' @ drop (length s - shown) s))"

section \<open>Validation\<close>

record auth_body =
  a_type :: "string option"
  a_token :: "string option"
  a_clear_token :: bool
  a_header_name :: "string option"
  a_header_value :: "string option"
  a_clear_header_value :: bool
  a_username :: "string option"
  a_password :: "string option"
  a_clear_password :: bool

datatype valid_auth =
    VNone
  | VBearer "string option" bool
  | VApiKey string "string option" bool
  | VBasic string "string option" bool

datatype auth_error =
    TypeNotAllowed | TokenEmpty | HeaderNameRequired | HeaderNameTooLong | HeaderNameNewline
  | HeaderNameNotPrintable | HeaderNameBlocked | HeaderValueEmpty | UsernameRequired | PasswordEmpty

definition BLOCKED_HEADER_NAMES :: "string list" where
  "BLOCKED_HEADER_NAMES = [''host'', ''content-length'', ''transfer-encoding'', ''connection'', ''upgrade'',
     ''proxy-authorization'', ''proxy-authenticate'', ''te'', ''trailer'']"

definition printable :: "char \<Rightarrow> bool" where
  "printable c = (0x21 \<le> (of_char c :: nat) \<and> (of_char c :: nat) \<le> 0x7e)"

definition validateHeaderName :: "string option \<Rightarrow> (auth_error, string) result" where
  "validateHeaderName name =
     (let n = js_trim (case name of None \<Rightarrow> [] | Some t \<Rightarrow> t) in
      if n = [] then Inl HeaderNameRequired
      else if length n > 100 then Inl HeaderNameTooLong
      else if list_ex (\<lambda>c. c = CHR 0x0d \<or> c = CHR 0x0a \<or> c = CHR '':'') n then Inl HeaderNameNewline
      else if \<not> list_all printable n then Inl HeaderNameNotPrintable
      else if js_lower n \<in> set BLOCKED_HEADER_NAMES then Inl HeaderNameBlocked
      else Inr n)"

definition secret_field :: "auth_error \<Rightarrow> string option \<Rightarrow> bool \<Rightarrow> (auth_error, string option) result" where
  "secret_field e v clear =
     (let t = map_option js_trim v in if \<not> clear \<and> t = Some [] then Inl e else Inr t)"

definition validateCustomFeedAuth :: "auth_body option \<Rightarrow> (auth_error, valid_auth option) result" where
  "validateCustomFeedAuth body =
     (case body of
        None \<Rightarrow> Inr None
      | Some a \<Rightarrow>
          (let t = js_trim (case a_type a of None \<Rightarrow> ''none'' | Some s \<Rightarrow> s) in
           if t = ''none'' then Inr (Some VNone)
           else if t = ''bearer_token''
           then (case secret_field TokenEmpty (a_token a) (a_clear_token a) of
                   Inl e \<Rightarrow> Inl e | Inr v \<Rightarrow> Inr (Some (VBearer v (a_clear_token a))))
           else if t = ''api_key_header''
           then (case validateHeaderName (a_header_name a) of
                   Inl e \<Rightarrow> Inl e
                 | Inr n \<Rightarrow> (case secret_field HeaderValueEmpty (a_header_value a) (a_clear_header_value a) of
                     Inl e \<Rightarrow> Inl e | Inr v \<Rightarrow> Inr (Some (VApiKey n v (a_clear_header_value a)))))
           else if t = ''basic_auth''
           then (let u = js_trim (case a_username a of None \<Rightarrow> [] | Some s \<Rightarrow> s) in
                 if u = [] then Inl UsernameRequired
                 else case secret_field PasswordEmpty (a_password a) (a_clear_password a) of
                   Inl e \<Rightarrow> Inl e | Inr v \<Rightarrow> Inr (Some (VBasic u v (a_clear_password a))))
           else Inl TypeNotAllowed))"

section \<open>Stored credentials\<close>

text \<open>The stored JSON object; \<open>Other\<close> is anything without one of the four known types.\<close>

datatype credentials =
    NoAuth
  | Bearer "string option"
  | ApiKey string "string option"
  | Basic string "string option"
  | Other

text \<open>\<open>v || null\<close>.\<close>

definition falsy_null :: "string option \<Rightarrow> string option" where
  "falsy_null v = (if v = Some [] then None else v)"

definition merge_secret :: "bool \<Rightarrow> string option \<Rightarrow> string option \<Rightarrow> string option" where
  "merge_secret clear new old =
     (if clear then None else if new \<noteq> None then falsy_null new else falsy_null old)"

definition normalizeCustomFeedAuth :: "valid_auth option \<Rightarrow> credentials \<Rightarrow> credentials" where
  "normalizeCustomFeedAuth v existing =
     (case v of
        None \<Rightarrow> existing
      | Some VNone \<Rightarrow> NoAuth
      | Some (VBearer tok clear) \<Rightarrow>
          Bearer (merge_secret clear tok (case existing of Bearer t \<Rightarrow> t | _ \<Rightarrow> None))
      | Some (VApiKey name val clear) \<Rightarrow>
          ApiKey name (merge_secret clear val
            (case existing of ApiKey n hv \<Rightarrow> if n = name then hv else None | _ \<Rightarrow> None))
      | Some (VBasic user pw clear) \<Rightarrow>
          Basic user (merge_secret clear pw (case existing of Basic _ p \<Rightarrow> p | _ \<Rightarrow> None)))"

definition buildCustomFeedAuthHeaders :: "(string \<Rightarrow> string) \<Rightarrow> credentials \<Rightarrow> (string \<times> string) list" where
  "buildCustomFeedAuthHeaders b64 c =
     (case c of
        Bearer (Some t) \<Rightarrow> if t = [] then [] else [(''Authorization'', ''Bearer '' @ t)]
      | ApiKey n (Some v) \<Rightarrow> if n = [] \<or> v = [] then [] else [(n, v)]
      | Basic u (Some p) \<Rightarrow> if u = [] \<or> p = [] then [] else [(''Authorization'', ''Basic '' @ b64 (u @ '':'' @ p))]
      | _ \<Rightarrow> [])"

datatype auth_summary =
    SummaryNone
  | SummaryBearer bool "string option"
  | SummaryApiKey bool "string option" "string option"
  | SummaryBasic bool "string option"
  | SummaryOther

definition truthy :: "string option \<Rightarrow> bool" where
  "truthy v = (v \<noteq> None \<and> v \<noteq> Some [])"

definition masked :: "string option \<Rightarrow> string option" where
  "masked v = (if truthy v then maskSecret (the v) else None)"

definition buildCustomFeedAuthSummary :: "credentials \<Rightarrow> auth_summary" where
  "buildCustomFeedAuthSummary c =
     (case c of
        NoAuth \<Rightarrow> SummaryNone
      | Bearer t \<Rightarrow> SummaryBearer (truthy t) (masked t)
      | ApiKey n v \<Rightarrow> SummaryApiKey (truthy v) (falsy_null (Some n)) (masked v)
      | Basic u p \<Rightarrow> SummaryBasic (truthy p) (falsy_null (Some u))
      | Other \<Rightarrow> SummaryOther)"

section \<open>Redaction\<close>

text \<open>\<open>str.split(sep)\<close> for a text separator: leftmost, non-overlapping.\<close>

function split_text :: "string \<Rightarrow> string \<Rightarrow> string list" where
  "split_text sep s =
     (if sep = [] then [s]
      else if s = [] then [[]]
      else if take (length sep) s = sep then [] # split_text sep (drop (length sep) s)
      else case split_text sep (tl s) of [] \<Rightarrow> [[hd s]] | p # ps \<Rightarrow> (hd s # p) # ps)"
  by pat_completeness auto
termination
  by (relation "measure (\<lambda>(sep, s). length s)") auto

declare split_text.simps [simp del]

definition REDACTED :: string where "REDACTED = ''[REDACTED]''"

definition replace_secret :: "string \<Rightarrow> string option \<Rightarrow> string" where
  "replace_secret str secret =
     (if truthy secret then js_join REDACTED (split_text (the secret) str) else str)"

definition redactCustomFeedSecrets :: "(string \<Rightarrow> string) \<Rightarrow> string \<Rightarrow> credentials \<Rightarrow> string" where
  "redactCustomFeedSecrets b64 message c =
     (case c of
        Bearer t \<Rightarrow> replace_secret message t
      | ApiKey n v \<Rightarrow> replace_secret message v
      | Basic u p \<Rightarrow>
          (let r = replace_secret message p in
           if u \<noteq> [] \<and> truthy p then replace_secret r (Some (b64 (u @ '':'' @ the p))) else r)
      | _ \<Rightarrow> message)"


section \<open>No secret survives redaction\<close>

text \<open>A secret the marker cannot spell: without brackets, and no part of the word between them.\<close>

definition unspellable :: "string \<Rightarrow> bool" where
  "unspellable x \<longleftrightarrow> x \<noteq> [] \<and> CHR ''['' \<notin> set x \<and> CHR '']'' \<notin> set x \<and> \<not> sublist x ''REDACTED''"

lemma split_text_nonempty: "split_text sep s \<noteq> []"
  by (subst split_text.simps) (simp split: list.split)

lemma hd_split_text: "prefix (hd (split_text sep s)) s"
proof (induction sep s rule: split_text.induct)
  case (1 sep s)
  show ?case
  proof (cases "sep = [] \<or> s = [] \<or> take (length sep) s = sep")
    case True
    then show ?thesis by (subst split_text.simps) auto
  next
    case False
    obtain p ps where p: "split_text sep (tl s) = p # ps" using split_text_nonempty [of sep "tl s"] by (cases "split_text sep (tl s)") auto
    have "prefix p (tl s)" using 1(2) False p by simp
    then show ?thesis using False p by (subst split_text.simps) (cases s, simp_all)
  qed
qed

lemma split_text_pieces:
  assumes "sep \<noteq> []" "p \<in> set (split_text sep s)"
  shows "\<not> sublist sep p \<and> sublist p s"
  using assms
proof (induction sep s arbitrary: p rule: split_text.induct)
  case (1 sep s)
  consider (empty) "s = []" | (found) "s \<noteq> []" "take (length sep) s = sep" | (other) "s \<noteq> []" "take (length sep) s \<noteq> sep" by blast
  then show ?case
  proof cases
    case empty
    then show ?thesis using 1(3,4) split_text.simps [of sep s] by simp
  next
    case found
    then have "p = [] \<or> p \<in> set (split_text sep (drop (length sep) s))"
      using 1(3,4) split_text.simps [of sep s] by simp
    moreover have "sublist (drop (length sep) s) s" by simp
    ultimately show ?thesis
      using 1(1) [OF 1(3) found 1(3)] 1(3) by (auto intro: sublist_order.order_trans)
  next
    case other
    obtain q qs where q: "split_text sep (tl s) = q # qs"
      using split_text_nonempty [of sep "tl s"] by (cases "split_text sep (tl s)") auto
    have pre: "prefix (hd s # q) s" using hd_split_text [of sep "tl s"] q other(1) by (cases s) auto
    have IH: "\<not> sublist sep r \<and> sublist r (tl s)" if "r \<in> set (q # qs)" for r
      using 1(2) [OF 1(3) other(1) other(2) 1(3)] that q by auto
    have tl: "sublist (tl s) s" by simp
    from 1(4) q other 1(3) have "p = hd s # q \<or> p \<in> set qs" by (simp add: split_text.simps [of sep s])
    then show ?thesis
    proof
      assume p: "p = hd s # q"
      have "\<not> prefix sep p" using pre other(2) p by (metis prefix_order.order_trans prefix_def append_eq_conv_conj)
      then show ?thesis using IH [of q] p pre 1(3) by (auto simp: sublist_Cons_right)
    next
      assume "p \<in> set qs"
      then show ?thesis using IH [of p] tl by (auto intro: sublist_order.order_trans)
    qed
  qed
qed

lemma sublist_around:
  assumes "sublist x (a @ c # b)" "c \<notin> set x"
  shows "sublist x a \<or> sublist x b"
proof -
  from assms(1) consider "sublist x a" | "sublist x (c # b)" | u v where "x = u @ v" "suffix u a" "prefix v (c # b)"
    by (auto simp: sublist_append)
  then show ?thesis
  proof cases
    case 2
    then show ?thesis using assms(2) by (cases x) (auto simp: sublist_Cons_right)
  next
    case 3
    then have "v = []" using assms(2) by (cases v) auto
    then show ?thesis using 3 by simp
  qed simp
qed

lemma sublist_join:
  assumes "sublist x (js_join REDACTED ps)" "unspellable x"
  shows "\<exists>p\<in>set ps. sublist x p"
  using assms
proof (induction ps rule: induct_list012)
  case (3 p q ps)
  let ?rest = "js_join REDACTED (q # ps)"
  have "js_join REDACTED (p # q # ps) = p @ CHR ''['' # (''REDACTED'' @ CHR '']'' # ?rest)"
    by (simp only: js_join.simps) (simp add: REDACTED_def)
  then have "sublist x (p @ CHR ''['' # (''REDACTED'' @ CHR '']'' # ?rest))" using 3(3) by (simp only:)
  then have "sublist x p \<or> sublist x (''REDACTED'' @ CHR '']'' # js_join REDACTED (q # ps))"
    by (rule sublist_around) (use 3(4) in \<open>auto simp: unspellable_def\<close>)
  moreover have "sublist x ''REDACTED'' \<or> sublist x ?rest" if "sublist x (''REDACTED'' @ CHR '']'' # ?rest)"
    using that by (rule sublist_around) (use 3(4) in \<open>auto simp: unspellable_def\<close>)
  moreover have "\<not> sublist x ''REDACTED''" using 3(4) unfolding unspellable_def by blast
  ultimately have "sublist x p \<or> sublist x ?rest" by blast
  then show ?case using 3(2) [OF _ 3(4)] by auto
qed (auto simp: unspellable_def)

lemma replace_secret_removes:
  "unspellable x \<Longrightarrow> \<not> sublist x (replace_secret s (Some x))"
  using sublist_join [of x "split_text x s"] split_text_pieces [of x _ s]
  by (auto simp: replace_secret_def truthy_def unspellable_def)

lemma replace_secret_keeps:
  assumes "unspellable x" "\<not> sublist x s"
  shows "\<not> sublist x (replace_secret s y)"
proof (cases "truthy y")
  case True
  then obtain z where y: "y = Some z" "z \<noteq> []" by (auto simp: truthy_def)
  have "\<not> sublist x p" if "p \<in> set (split_text z s)" for p
    using split_text_pieces [OF y(2) that] assms(2) sublist_order.order_trans by blast
  then show ?thesis using sublist_join [OF _ assms(1)] y by (auto simp: replace_secret_def truthy_def)
qed (use assms in \<open>simp add: replace_secret_def\<close>)

lemma unspellable_Nil [simp]: "\<not> unspellable []"
  by (simp add: unspellable_def)

text \<open>The texts that must not reach a log: the secret, and for basic authentication its encoding.\<close>

definition secrets_of :: "(string \<Rightarrow> string) \<Rightarrow> credentials \<Rightarrow> string list" where
  "secrets_of b64 c =
     (case c of
        Bearer (Some t) \<Rightarrow> [t]
      | ApiKey n (Some v) \<Rightarrow> [v]
      | Basic u (Some p) \<Rightarrow> if u = [] then [p] else [p, b64 (u @ '':'' @ p)]
      | _ \<Rightarrow> [])"

text \<open>
  A redacted message contains none of the credential's secrets, neither the token, header value
  or password nor the encoded user and password, provided the marker itself cannot spell them.
\<close>

theorem redaction_removes_secrets:
  assumes "list_all unspellable (secrets_of b64 c)"
  shows "list_all (\<lambda>x. \<not> sublist x (redactCustomFeedSecrets b64 message c)) (secrets_of b64 c)"
proof (cases c)
  case (Basic u p)
  then show ?thesis
    using assms replace_secret_removes replace_secret_keeps
    by (cases p) (auto simp: secrets_of_def redactCustomFeedSecrets_def Let_def truthy_def unspellable_Nil split: if_splits)
next
  case (Bearer t)
  then show ?thesis using assms replace_secret_removes
    by (cases t) (auto simp: secrets_of_def redactCustomFeedSecrets_def)
next
  case (ApiKey n v)
  then show ?thesis using assms replace_secret_removes
    by (cases v) (auto simp: secrets_of_def redactCustomFeedSecrets_def)
qed (auto simp: secrets_of_def)

theorem redaction_removes_secrets_witness:
  "list_all unspellable (secrets_of (\<lambda>s. ''dTpz'') (Basic ''u'' (Some ''s3cr''))) \<and>
   \<not> sublist ''s3cr'' (redactCustomFeedSecrets (\<lambda>s. ''dTpz'') ''auth u:s3cr (dTpz) failed'' (Basic ''u'' (Some ''s3cr'')))"
proof -
  have u: "list_all unspellable (secrets_of (\<lambda>s. ''dTpz'') (Basic ''u'' (Some ''s3cr'')))"
    by (simp add: secrets_of_def unspellable_def sublist_Cons_right)
  from redaction_removes_secrets [OF u, of "''auth u:s3cr (dTpz) failed''"] u show ?thesis by (simp add: secrets_of_def)
qed

text \<open>A marker that spells the secret: the token \<open>ED\<close> is still readable in every redacted message.\<close>

lemma spelled_secret_survives:
  "redactCustomFeedSecrets (\<lambda>s. s) ''token ED'' (Bearer (Some ''ED'')) = ''token [REDACTED]''"
  by code_simp

section \<open>Changing the authentication type\<close>

fun kept_kind :: "valid_auth \<Rightarrow> credentials \<Rightarrow> bool" where
  "kept_kind (VBearer _ _) (Bearer _) = True"
| "kept_kind (VApiKey n _ _) (ApiKey m _) = (n = m)"
| "kept_kind (VBasic _ _ _) (Basic _ _) = True"
| "kept_kind _ _ = False"

fun new_secret :: "valid_auth \<Rightarrow> string option" where
  "new_secret VNone = None"
| "new_secret (VBearer t clear) = (if clear then None else t)"
| "new_secret (VApiKey n v clear) = (if clear then None else v)"
| "new_secret (VBasic u p clear) = (if clear then None else p)"

text \<open>
  An update that brings no secret of its own keeps the stored one only for the same
  authentication type (and, for an API key, the same header); after any other change no credential
  header is sent at all.
\<close>

theorem type_change_drops_secret:
  assumes "\<not> kept_kind v existing" "new_secret v = None"
  shows "buildCustomFeedAuthHeaders b64 (normalizeCustomFeedAuth (Some v) existing) = []"
  using assms
  by (cases v; cases existing)
    (auto simp: normalizeCustomFeedAuth_def buildCustomFeedAuthHeaders_def merge_secret_def falsy_null_def)

theorem type_change_drops_secret_witness:
  "buildCustomFeedAuthHeaders (\<lambda>s. s) (normalizeCustomFeedAuth (Some (VApiKey ''X-Key'' None False)) (Bearer (Some ''t''))) = []"
  by (rule type_change_drops_secret) simp_all

text \<open>A summary shows at most two characters at either end, and at most half of the secret.\<close>

lemma maskSecret_reveals:
  "maskSecret s = Some m \<Longrightarrow> m = ''****'' \<or>
     (\<exists>k \<le> 2. m = take k (js_trim s) @ ''****'' @ drop (length (js_trim s) - k) (js_trim s) \<and> 2 * (k + k) \<le> length (js_trim s))"
  by (auto simp: maskSecret_def Let_def split: if_splits intro!: exI [of _ "min 2 (length (js_trim s) div 4)"])

end
