(* ===== verification/FeedFetch.thy ===== *)
theory FeedFetch
  imports FeedSsrf FeedAuth
begin

text \<open>
  Fetching a custom threat feed (\<open>lib/customThreatFeedFetch.js\<close>): the redirect loop, the pinned
  connection of every hop, the headers it carries and the size limit on the body.  The network is
  the argument \<open>respond\<close>, which answers each connection, and the resolvers \<open>dns\<close>, one per hop, so a
  name may resolve differently each time it is looked up.
\<close>

section \<open>Requests\<close>

record connection =
  to_url :: url
  to_address :: address
  headers :: "(string \<times> string) list"

record http_response =
  statusCode :: int
  location :: "string option"
  contentType :: string
  chunks :: "string list"

datatype http_result = Response http_response | Aborted | RequestError

record fetch_result =
  httpStatus :: int
  result_ok :: bool
  result_type :: string
  bodyBuffer :: string
  fetchedBytes :: nat
  finalUrl :: string

definition DEFAULT_MAX_FEED_REDIRECTS :: nat where "DEFAULT_MAX_FEED_REDIRECTS = 5"
definition DEFAULT_MAX_FETCH_BYTES :: nat where "DEFAULT_MAX_FETCH_BYTES = 52428800"

definition BASE_HEADERS :: "(string \<times> string) list" where
  "BASE_HEADERS = [(''Accept'', ''text/plain,text/csv,*/*''), (''User-Agent'', ''talonhound-custom-threat-feed/1.0''),
                   (''Connection'', ''close'')]"

text \<open>Assigning a header replaces an earlier one of exactly the same name.\<close>

definition set_header :: "string \<times> string \<Rightarrow> (string \<times> string) list \<Rightarrow> (string \<times> string) list" where
  "set_header h hs =
     (if fst h \<in> fst ` set hs then map (\<lambda>g. if fst g = fst h then h else g) hs else hs @ [h])"

definition buildHopHeaders :: "(string \<times> string) list \<Rightarrow> url option \<Rightarrow> url \<Rightarrow> bool \<Rightarrow> (string \<times> string) list" where
  "buildHopHeaders authHeaders previousUrl nextUrl isFirstHop =
     (let mayAttachAuth = (isFirstHop \<or> (case previousUrl of None \<Rightarrow> False | Some p \<Rightarrow> isSameFeedOrigin p nextUrl))
      in if mayAttachAuth then fold set_header (filter (\<lambda>(k, v). v \<noteq> []) authHeaders) BASE_HEADERS
         else BASE_HEADERS)"

text \<open>\<open>requestPinned\<close>: the lookup of the request answers with the first vetted address only.\<close>

definition requestPinned :: "url \<Rightarrow> address list \<Rightarrow> (string \<times> string) list \<Rightarrow> connection" where
  "requestPinned parsed as hs = \<lparr>to_url = parsed, to_address = hd as, headers = hs\<rparr>"

fun readLimitedBody :: "nat \<Rightarrow> string list \<Rightarrow> string \<Rightarrow> string option" where
  "readLimitedBody maxBytes [] acc = Some acc"
| "readLimitedBody maxBytes (c # cs) acc =
     (if length acc + length c > maxBytes then None else readLimitedBody maxBytes cs (acc @ c))"

section \<open>The redirect loop\<close>

text \<open>
  \<open>left\<close> is \<open>maxRedirects - hop\<close>.  The result lists the connections made, in order, with the outcome.
\<close>

fun fetch_loop ::
    "url_api \<Rightarrow> (nat \<Rightarrow> resolver) \<Rightarrow> (nat \<Rightarrow> connection \<Rightarrow> http_result) \<Rightarrow> (string \<times> string) list \<Rightarrow> nat
     \<Rightarrow> nat \<Rightarrow> nat \<Rightarrow> url option \<Rightarrow> url \<Rightarrow> connection list \<times> (fetch_error, fetch_result) result" where
  "fetch_loop api dns respond auth maxBytes left hop previousUrl currentUrl =
     (case assertSafeFeedDestination api (dns hop) (href api currentUrl) of
        Inl e \<Rightarrow> ([], Inl e)
      | Inr (destination, as) \<Rightarrow>
          (let conn = requestPinned (ok_parsed destination) as
                        (buildHopHeaders auth previousUrl (ok_parsed destination) (hop = 0))
           in case respond hop conn of
                Aborted \<Rightarrow> ([conn], Inl Timed_out)
              | RequestError \<Rightarrow> ([conn], Inl Request_failed)
              | Response res \<Rightarrow>
                  if 300 \<le> statusCode res \<and> statusCode res < 400 then
                    (case location res of
                       None \<Rightarrow> ([conn], Inl Redirect_invalid)
                     | Some loc \<Rightarrow>
                         if loc = [] then ([conn], Inl Redirect_invalid)
                         else (case left of
                           0 \<Rightarrow> ([conn], Inl Redirect_limit)
                         | Suc left' \<Rightarrow>
                             (case Option.bind (resolve_url api loc currentUrl) (stripUrlUserinfo api) of
                                None \<Rightarrow> ([conn], Inl Redirect_blocked)
                              | Some nextUrl \<Rightarrow>
                                  (case validateFeedUrlPolicy api (href api nextUrl) of
                                     Inl _ \<Rightarrow> ([conn], Inl Redirect_blocked)
                                   | Inr nextSync \<Rightarrow>
                                       (case fetch_loop api dns respond auth maxBytes left' (Suc hop)
                                               (Some currentUrl) (ok_parsed nextSync) of
                                          (conns, r) \<Rightarrow> (conn # conns, r))))))
                  else (case readLimitedBody maxBytes (chunks res) [] of
                          None \<Rightarrow> ([conn], Inl Response_too_large)
                        | Some body \<Rightarrow>
                            ([conn], Inr \<lparr>httpStatus = statusCode res,
                               result_ok = (200 \<le> statusCode res \<and> statusCode res < 300),
                               result_type = contentType res, bodyBuffer = body, fetchedBytes = length body,
                               finalUrl = ok_url destination\<rparr>))))"

text \<open>\<open>options.maxBytes || default\<close> and \<open>options.maxRedirects ?? 5\<close>.\<close>

definition fetchFeedUrl ::
    "url_api \<Rightarrow> (string \<Rightarrow> string) \<Rightarrow> (nat \<Rightarrow> resolver) \<Rightarrow> (nat \<Rightarrow> connection \<Rightarrow> http_result) \<Rightarrow> credentials
     \<Rightarrow> nat option \<Rightarrow> nat option \<Rightarrow> string \<Rightarrow> connection list \<times> (fetch_error, fetch_result) result" where
  "fetchFeedUrl api b64 dns respond credentials maxBytes maxRedirects url =
     (case validateFeedUrlPolicy api url of
        Inl _ \<Rightarrow> ([], Inl Invalid_url)
      | Inr syncCheck \<Rightarrow>
          (case stripUrlUserinfo api (ok_parsed syncCheck) of
             None \<Rightarrow> ([], Inl Invalid_url)
           | Some currentUrl \<Rightarrow>
               fetch_loop api dns respond (buildCustomFeedAuthHeaders b64 credentials)
                 (max (case maxBytes of None \<Rightarrow> DEFAULT_MAX_FETCH_BYTES | Some n \<Rightarrow> if n = 0 then DEFAULT_MAX_FETCH_BYTES else n) 1024)
                 (case maxRedirects of None \<Rightarrow> DEFAULT_MAX_FEED_REDIRECTS | Some n \<Rightarrow> n) 0 None currentUrl))"

section \<open>Every connection goes to a vetted address\<close>

declare fetch_loop.simps [simp del]

lemma readLimitedBody_bound:
  "\<lbrakk>readLimitedBody maxBytes cs acc = Some b; length acc \<le> maxBytes\<rbrakk> \<Longrightarrow> length b \<le> maxBytes"
  by (induction cs arbitrary: acc) (auto split: if_splits)

definition vetted :: "connection \<Rightarrow> bool" where
  "vetted c \<longleftrightarrow> js_lower (protocol (to_url c)) \<in> {''http:'', ''https:''}
     \<and> \<not> isBlockedHostname (normalizeFeedHostname (hostname (to_url c)))
     \<and> \<not> isForbiddenFeedDestinationIp (addr (to_address c))"

lemma vetted_pinned:
  "assertSafeFeedDestination api dns s = Inr (chk, as) \<Longrightarrow> vetted (requestPinned (ok_parsed chk) as hs)"
  by (drule gate_sound) (auto simp: good_destination_def vetted_def requestPinned_def)

lemma fetch_loop_sound:
  "fetch_loop api dns respond auth maxBytes left hop previousUrl currentUrl = (conns, r) \<Longrightarrow>
     list_all vetted conns \<and> length conns \<le> Suc left \<and> (\<forall>res. r = Inr res \<longrightarrow> fetchedBytes res \<le> maxBytes)"
proof (induction left arbitrary: hop previousUrl currentUrl conns r)
  case 0
  then show ?case
    using vetted_pinned readLimitedBody_bound [of maxBytes _ "[]"]
    by (subst (asm) fetch_loop.simps) (auto simp: Let_def split: sum.splits http_result.splits if_splits option.splits)
next
  case (Suc left)
  from Suc.prems show ?case
    using vetted_pinned readLimitedBody_bound [of maxBytes _ "[]"]
    by (subst (asm) fetch_loop.simps)
      (auto simp: Let_def split: sum.splits http_result.splits if_splits option.splits prod.splits dest!: Suc.IH)
qed

text \<open>
  C6: whatever the servers answer and however names resolve from hop to hop, every connection a feed
  fetch makes is http or https, to a host that is not on the host deny list, at an address outside
  the forbidden ranges; there are at most \<open>maxRedirects + 1\<close> of them, so the fetch ends; and a body it
  returns has at most the configured number of bytes.
\<close>

theorem fetch_destinations_vetted:
  assumes "fetchFeedUrl api b64 dns respond creds maxBytes (Some maxRedirects) url = (conns, r)"
  shows "list_all vetted conns \<and> length conns \<le> maxRedirects + 1
       \<and> (\<forall>res n. r = Inr res \<and> maxBytes = Some n \<and> 1024 \<le> n \<longrightarrow> fetchedBytes res \<le> n)"
proof -
  have *: "list_all vetted conns \<and> length conns \<le> Suc maxRedirects \<and>
      (\<forall>res. r = Inr res \<longrightarrow> fetchedBytes res \<le> max (case maxBytes of None \<Rightarrow> DEFAULT_MAX_FETCH_BYTES
         | Some n \<Rightarrow> if n = 0 then DEFAULT_MAX_FETCH_BYTES else n) 1024)"
    using assms fetch_loop_sound
    by (auto simp: fetchFeedUrl_def split: sum.splits option.splits)
  then show ?thesis by (auto split: option.splits if_splits)
qed


section \<open>Credentials along a redirect chain\<close>

text \<open>URLs of the form \<open>https://host/path\<close>, enough of the URL class for a redirect chain.\<close>

definition sample_parse :: "string \<Rightarrow> url option" where
  "sample_parse s =
     (if take 8 s = ''https://'' then
        let rest = drop 8 s; host = takeWhile (\<lambda>c. c \<noteq> CHR ''/'') rest
        in Some \<lparr>protocol = ''https:'', hostname = host, port = [], path_search = drop (length host) rest, username = [], password = []\<rparr>
      else None)"

definition sample_api :: url_api where
  "sample_api = \<lparr>parse_url = sample_parse, resolve_url = (\<lambda>s base. sample_parse s),
                 href = (\<lambda>u. protocol u @ ''//'' @ hostname u @ path_search u)\<rparr>"

definition sample_dns :: "nat \<Rightarrow> resolver" where
  "sample_dns hop = \<lparr>lookup = (\<lambda>h. Inr [\<lparr>addr = ''93.184.216.34'', family = 4\<rparr>]),
                     resolve4 = (\<lambda>h. Inr []), resolve6 = (\<lambda>h. Inr [])\<rparr>"

definition redirect_to :: "string \<Rightarrow> http_result" where
  "redirect_to s = Response \<lparr>statusCode = 302, location = Some s, contentType = [], chunks = []\<rparr>"

text \<open>The feed redirects to another site, which redirects to a page of its own.\<close>

definition chain_respond :: "nat \<Rightarrow> connection \<Rightarrow> http_result" where
  "chain_respond hop c =
     (if hop = 0 then redirect_to ''https://other.test/a''
      else if hop = 1 then redirect_to ''https://other.test/b''
      else Response \<lparr>statusCode = 200, location = None, contentType = ''text/plain'', chunks = [''ok'']\<rparr>)"

definition chain_fetch :: "connection list \<times> (fetch_error, fetch_result) result" where
  "chain_fetch = fetchFeedUrl sample_api (\<lambda>s. s) sample_dns chain_respond (Bearer (Some ''s3cr3t'')) (Some 4096) (Some 5) ''https://feed.test/list''"

definition carries_secret :: "connection \<Rightarrow> bool" where
  "carries_secret c = list_ex (\<lambda>(k, v). k = ''Authorization'') (headers c)"

lemma chain_fetch_summary:
  "map (\<lambda>c. (hostname (to_url c), carries_secret c)) (fst chain_fetch)
   = [(''feed.test'', True), (''other.test'', False), (''other.test'', True)]"
  by code_simp

lemma chain_fetch_pair:
  "fetchFeedUrl sample_api (\<lambda>s. s) sample_dns chain_respond (Bearer (Some ''s3cr3t'')) (Some 4096) (Some 5) ''https://feed.test/list''
   = (fst chain_fetch, snd chain_fetch)"
  by (simp add: chain_fetch_def)

theorem fetch_destinations_vetted_witness:
  "list_all vetted (fst chain_fetch) \<and> length (fst chain_fetch) = 3"
  using fetch_destinations_vetted [OF chain_fetch_pair] chain_fetch_summary [THEN arg_cong [where f = length]]
  by simp

text \<open>
  the feed's bearer token is withheld from the first page of the other site, but sent to its
  second page: each hop is compared with the hop before it, not with the feed's own origin.
\<close>

theorem redirect_chain_leaks_credentials:
  "map (\<lambda>c. (hostname (to_url c), carries_secret c)) (fst chain_fetch)
   = [(''feed.test'', True), (''other.test'', False), (''other.test'', True)]"
  by (rule chain_fetch_summary)

end
