(* ===== verification/Sessions.thy ===== *)
theory Sessions
  imports TH_Prelude
begin

text \<open>
  Interactive sessions: the policy of \<open>lib/sessionConfig.js\<close> and the session store of
  \<open>lib/authSessions.js\<close>.  The table \<open>auth_sessions\<close> is the list of its rows in id order, \<open>users\<close> the
  argument that reads the user's row, \<open>digest\<close> the SHA-256 of a secret.  Fresh session ids and
  secrets are arguments, times are milliseconds.
\<close>

section \<open>Policy\<close>

datatype config_error = InvalidDuration | AccessExceedsIdle | IdleExceedsAbsolute

definition unit_ms :: "string \<Rightarrow> int option" where
  "unit_ms u = map_of [(''ms'', 1), (''s'', 1000), (''m'', 60000), (''h'', 3600000), (''d'', 86400000)] u"

text \<open>\<open>/^(\d+)\s*(ms|s|m|h|d)?$/i\<close> on the trimmed text; seconds when there is no unit.\<close>

definition parseDurationMs :: "string option \<Rightarrow> int \<Rightarrow> (config_error, int) result" where
  "parseDurationMs input fallbackMs =
     (case input of
        None \<Rightarrow> Inr fallbackMs
      | Some t \<Rightarrow>
          (let s = js_trim t; ds = takeWhile is_digit s; u = js_lower (dropWhile js_ws (dropWhile is_digit s)) in
           if s = [] then Inr fallbackMs
           else if ds = [] then Inl InvalidDuration
           else case unit_ms (if u = [] then ''s'' else u) of
                  None \<Rightarrow> Inl InvalidDuration
                | Some m \<Rightarrow> if digits_val ds = 0 then Inl InvalidDuration else Inr (int (digits_val ds) * m)))"

text \<open>\<open>Number.parseInt(text, 10)\<close>.\<close>

definition js_parse_int :: "string \<Rightarrow> int option" where
  "js_parse_int t =
     (let s = dropWhile js_ws t;
          neg = (s \<noteq> [] \<and> hd s = CHR ''-'');
          body = (if s \<noteq> [] \<and> hd s \<in> {CHR ''-'', CHR ''+''} then tl s else s);
          ds = takeWhile is_digit body
      in if ds = [] then None else Some (if neg then - int (digits_val ds) else int (digits_val ds)))"

record session_env =
  ACCESS_TOKEN_TTL :: "string option"
  SESSION_IDLE_TIMEOUT :: "string option"
  SESSION_ABSOLUTE_TIMEOUT :: "string option"
  SESSION_ACTIVITY_MIN_UPDATE :: "string option"
  SESSION_CLEANUP_RETENTION_DAYS :: "string option"
  SESSION_REFRESH_GRACE :: "string option"

record session_config =
  accessTtlMs :: int
  idleMs :: int
  absoluteMs :: int
  activityMinUpdateMs :: int
  refreshGraceMs :: int
  cleanupRetentionDays :: int

definition getSessionConfig :: "session_env \<Rightarrow> (config_error, session_config) result" where
  "getSessionConfig env =
     (case parseDurationMs (ACCESS_TOKEN_TTL env) 900000 of Inl e \<Rightarrow> Inl e | Inr access \<Rightarrow>
      (case parseDurationMs (SESSION_IDLE_TIMEOUT env) 3600000 of Inl e \<Rightarrow> Inl e | Inr idle \<Rightarrow>
       (case parseDurationMs (SESSION_ABSOLUTE_TIMEOUT env) 86400000 of Inl e \<Rightarrow> Inl e | Inr absolute \<Rightarrow>
        (case parseDurationMs (SESSION_ACTIVITY_MIN_UPDATE env) 60000 of Inl e \<Rightarrow> Inl e | Inr min_update \<Rightarrow>
          (let days = (case js_parse_int (case SESSION_CLEANUP_RETENTION_DAYS env of None \<Rightarrow> ''7'' | Some t \<Rightarrow> t) of
                         None \<Rightarrow> 7 | Some n \<Rightarrow> if n = 0 then 7 else n)
           in case parseDurationMs (SESSION_REFRESH_GRACE env) 30000 of Inl e \<Rightarrow> Inl e | Inr grace \<Rightarrow>
             Inr \<lparr>accessTtlMs = access, idleMs = idle, absoluteMs = absolute,
                  activityMinUpdateMs = min min_update idle, refreshGraceMs = min grace idle,
                  cleanupRetentionDays = max days 1\<rparr>)))))"

datatype config_warning = LongAccess | LongAbsolute

definition validateSessionConfig :: "session_env \<Rightarrow> (config_error, session_config \<times> config_warning list) result" where
  "validateSessionConfig env =
     (case getSessionConfig env of
        Inl e \<Rightarrow> Inl e
      | Inr c \<Rightarrow>
          if accessTtlMs c > idleMs c then Inl AccessExceedsIdle
          else if idleMs c > absoluteMs c then Inl IdleExceedsAbsolute
          else Inr (c, (if accessTtlMs c > 3600000 then [LongAccess] else [])
                       @ (if absoluteMs c > 604800000 then [LongAbsolute] else [])))"

section \<open>The session table\<close>

record session =
  row_id :: nat
  session_id :: string
  user_id :: nat
  refresh_token_hash :: string
  prev_refresh_token_hash :: "string option"
  auth_version_at_issue :: int
  created_at :: int
  last_activity_at :: int
  rotated_at :: int
  idle_expires_at :: int
  absolute_expires_at :: int
  user_agent :: "string option"
  revoked_at :: "int option"
  revoked_reason :: "string option"

type_synonym sessions = "session list"

record user_row =
  auth_version :: int
  is_passive :: bool

text \<open>\<open><sessionId>.<secret>\<close>: the first dot, neither first nor last.\<close>

definition parseRefreshToken :: "string \<Rightarrow> (string \<times> string) option" where
  "parseRefreshToken raw =
     (let s = js_trim raw; sid = takeWhile (\<lambda>c. c \<noteq> CHR ''.'') s; secret = drop (Suc (length sid)) s
      in if sid = [] \<or> secret = [] then None else Some (sid, secret))"

definition truncateUa :: "string option \<Rightarrow> string option" where
  "truncateUa ua = (if ua = None \<or> ua = Some [] then None else map_option (take 255) ua)"

definition next_row :: "sessions \<Rightarrow> nat" where
  "next_row t = Suc (fold (\<lambda>s. max (row_id s)) t 0)"

definition createSession ::
    "(string \<Rightarrow> string) \<Rightarrow> session_config \<Rightarrow> int \<Rightarrow> string \<Rightarrow> string \<Rightarrow> nat \<Rightarrow> int \<Rightarrow> string option \<Rightarrow> sessions \<Rightarrow> sessions \<times> string" where
  "createSession digest cfg now sid secret user av ua t =
     (t @ [\<lparr>row_id = next_row t, session_id = sid, user_id = user, refresh_token_hash = digest secret,
            prev_refresh_token_hash = None, auth_version_at_issue = av, created_at = now, last_activity_at = now,
            rotated_at = now, idle_expires_at = now + idleMs cfg, absolute_expires_at = now + absoluteMs cfg,
            user_agent = truncateUa ua, revoked_at = None, revoked_reason = None\<rparr>],
      sid @ ''.'' @ secret)"

definition find_session :: "string \<Rightarrow> sessions \<Rightarrow> session option" where
  "find_session sid t = find (\<lambda>s. session_id s = sid) t"

datatype access_result = AccessOk nat | Missing | NotFound | Revoked nat | AbsoluteExpired nat | IdleExpired nat

definition validateAccessSession :: "int \<Rightarrow> string \<Rightarrow> sessions \<Rightarrow> access_result" where
  "validateAccessSession now sid t =
     (if sid = [] then Missing
      else case find_session sid t of
             None \<Rightarrow> NotFound
           | Some s \<Rightarrow>
               if revoked_at s \<noteq> None then Revoked (user_id s)
               else if absolute_expires_at s \<le> now then AbsoluteExpired (user_id s)
               else if idle_expires_at s \<le> now then IdleExpired (user_id s)
               else AccessOk (user_id s))"

definition update_sessions :: "(session \<Rightarrow> bool) \<Rightarrow> (session \<Rightarrow> session) \<Rightarrow> sessions \<Rightarrow> sessions" where
  "update_sessions P f t = map (\<lambda>s. if P s then f s else s) t"

definition touchActivity :: "session_config \<Rightarrow> int \<Rightarrow> string \<Rightarrow> sessions \<Rightarrow> sessions \<times> bool" where
  "touchActivity cfg now sid t =
     (let P = (\<lambda>s. session_id s = sid \<and> revoked_at s = None \<and> now < absolute_expires_at s \<and> now < idle_expires_at s
                   \<and> last_activity_at s \<le> now - activityMinUpdateMs cfg)
      in if sid = [] then (t, False)
         else (update_sessions P (\<lambda>s. s\<lparr>last_activity_at := now, idle_expires_at := now + idleMs cfg\<rparr>) t, list_ex P t))"

definition revoke_row :: "int \<Rightarrow> string \<Rightarrow> session \<Rightarrow> session" where
  "revoke_row now reason s = s\<lparr>revoked_at := (case revoked_at s of None \<Rightarrow> Some now | r \<Rightarrow> r),
                               revoked_reason := (case revoked_reason s of None \<Rightarrow> Some reason | r \<Rightarrow> r)\<rparr>"

definition revokeWithin :: "int \<Rightarrow> string \<Rightarrow> string \<Rightarrow> sessions \<Rightarrow> sessions" where
  "revokeWithin now sid reason t = update_sessions (\<lambda>s. session_id s = sid) (revoke_row now reason) t"

definition revokeSession :: "int \<Rightarrow> string \<Rightarrow> string \<Rightarrow> sessions \<Rightarrow> sessions \<times> bool" where
  "revokeSession now sid reason t =
     (let P = (\<lambda>s. session_id s = sid \<and> revoked_at s = None)
      in if sid = [] then (t, False)
         else (update_sessions P (revoke_row now (if reason = [] then ''logout'' else reason)) t, list_ex P t))"

definition revokeAllForUser :: "int \<Rightarrow> nat \<Rightarrow> string \<Rightarrow> sessions \<Rightarrow> sessions \<times> nat" where
  "revokeAllForUser now user reason t =
     (let P = (\<lambda>s. user_id s = user \<and> revoked_at s = None)
      in (update_sessions P (revoke_row now (if reason = [] then ''revoke_all'' else reason)) t, length (filter P t)))"

definition terminal_before :: "int \<Rightarrow> session \<Rightarrow> bool" where
  "terminal_before cutoff s =
     ((case revoked_at s of None \<Rightarrow> False | Some r \<Rightarrow> r < cutoff) \<or> absolute_expires_at s < cutoff)"

text \<open>\<open>Number(batchSize) || 1000\<close>, at least one.\<close>

definition cleanupSessions :: "session_config \<Rightarrow> int \<Rightarrow> nat option \<Rightarrow> sessions \<Rightarrow> sessions \<times> nat" where
  "cleanupSessions cfg now batch t =
     (let n = (case batch of None \<Rightarrow> 1000 | Some b \<Rightarrow> if b = 0 then 1000 else b);
          ids = map row_id (take n (filter (terminal_before (now - cleanupRetentionDays cfg * 86400000)) t))
      in (filter (\<lambda>s. row_id s \<notin> set ids) t, length (filter (\<lambda>s. row_id s \<in> set ids) t)))"

section \<open>Rotating the refresh token\<close>

datatype refresh_result =
    Rotated string nat string int
  | WithinGrace string nat int
  | RefreshInvalid | RefreshNotFound | RefreshRevoked | RefreshAbsolute | RefreshIdle | RefreshReuse
  | RefreshUserDisabled | RefreshAuthVersion

definition within_grace :: "session_config \<Rightarrow> int \<Rightarrow> string \<Rightarrow> session \<Rightarrow> bool" where
  "within_grace cfg now h s =
     (case prev_refresh_token_hash s of
        None \<Rightarrow> False | Some p \<Rightarrow> now - rotated_at s \<le> refreshGraceMs cfg \<and> h = p)"

definition rotateRefresh ::
    "(string \<Rightarrow> string) \<Rightarrow> (nat \<Rightarrow> user_row option) \<Rightarrow> session_config \<Rightarrow> int \<Rightarrow> string \<Rightarrow> string option \<Rightarrow> string
     \<Rightarrow> sessions \<Rightarrow> sessions \<times> refresh_result" where
  "rotateRefresh digest users cfg now raw ua nextSecret t =
     (case parseRefreshToken raw of
        None \<Rightarrow> (t, RefreshInvalid)
      | Some (sid, secret) \<Rightarrow>
          (case find_session sid t of
             None \<Rightarrow> (t, RefreshNotFound)
           | Some s \<Rightarrow>
               (case users (user_id s) of
                  None \<Rightarrow> (t, RefreshNotFound)
                | Some u \<Rightarrow>
                    (let h = digest secret; current = (h = refresh_token_hash s); grace = within_grace cfg now h s in
                     if revoked_at s \<noteq> None then (t, RefreshRevoked)
                     else if absolute_expires_at s \<le> now then (revokeWithin now sid ''absolute_timeout'' t, RefreshAbsolute)
                     else if idle_expires_at s \<le> now then (revokeWithin now sid ''idle_timeout'' t, RefreshIdle)
                     else if \<not> current \<and> \<not> grace then (revokeWithin now sid ''refresh_reuse'' t, RefreshReuse)
                     else if is_passive u then (revokeWithin now sid ''user_disabled'' t, RefreshUserDisabled)
                     else if auth_version u \<noteq> auth_version_at_issue s
                     then (revokeWithin now sid ''auth_version'' t, RefreshAuthVersion)
                     else if grace \<and> \<not> current then (t, WithinGrace sid (user_id s) (auth_version u))
                     else (update_sessions (\<lambda>x. session_id x = sid)
                             (\<lambda>x. x\<lparr>prev_refresh_token_hash := Some (refresh_token_hash x),
                                    refresh_token_hash := digest nextSecret, rotated_at := now,
                                    user_agent := (case truncateUa ua of None \<Rightarrow> user_agent x | Some a \<Rightarrow> Some a)\<rparr>) t,
                           Rotated sid (user_id s) (sid @ ''.'' @ nextSecret) (auth_version u))))))"

fun refreshed :: "refresh_result \<Rightarrow> bool" where
  "refreshed (Rotated _ _ _ _) = True"
| "refreshed (WithinGrace _ _ _) = True"
| "refreshed _ = False"


section \<open>The operations as steps\<close>

datatype session_op =
    Login string string nat int "string option"
  | Touch string
  | Refresh string "string option" string "nat \<Rightarrow> user_row option"
  | Revoke string string
  | RevokeAll nat string
  | Cleanup "nat option"

fun session_exec :: "(string \<Rightarrow> string) \<Rightarrow> session_config \<Rightarrow> int \<Rightarrow> session_op \<Rightarrow> sessions \<Rightarrow> sessions" where
  "session_exec digest cfg now (Login sid secret user av ua) t = fst (createSession digest cfg now sid secret user av ua t)"
| "session_exec digest cfg now (Touch sid) t = fst (touchActivity cfg now sid t)"
| "session_exec digest cfg now (Refresh raw ua nextSecret users) t = fst (rotateRefresh digest users cfg now raw ua nextSecret t)"
| "session_exec digest cfg now (Revoke sid reason) t = fst (revokeSession now sid reason t)"
| "session_exec digest cfg now (RevokeAll user reason) t = fst (revokeAllForUser now user reason t)"
| "session_exec digest cfg now (Cleanup batch) t = fst (cleanupSessions cfg now batch t)"

fun run_sessions :: "(string \<Rightarrow> string) \<Rightarrow> session_config \<Rightarrow> (int \<times> session_op) list \<Rightarrow> sessions \<Rightarrow> sessions" where
  "run_sessions digest cfg [] t = t"
| "run_sessions digest cfg ((now, op) # ops) t = run_sessions digest cfg ops (session_exec digest cfg now op t)"

inductive session_step :: "(string \<Rightarrow> string) \<Rightarrow> session_config \<Rightarrow> sessions \<Rightarrow> sessions \<Rightarrow> bool" for digest cfg where
  step: "session_step digest cfg t (session_exec digest cfg now op t)"

section \<open>Row-wise facts\<close>

definition alive :: "int \<Rightarrow> session \<Rightarrow> bool" where
  "alive now s = (revoked_at s = None \<and> now < absolute_expires_at s \<and> now < idle_expires_at s)"

definition touched :: "session_config \<Rightarrow> int \<Rightarrow> session \<Rightarrow> session" where
  "touched cfg now s = s\<lparr>last_activity_at := now, idle_expires_at := now + idleMs cfg\<rparr>"

definition rotated :: "string \<Rightarrow> int \<Rightarrow> string option \<Rightarrow> session \<Rightarrow> session" where
  "rotated h now ua s = s\<lparr>prev_refresh_token_hash := Some (refresh_token_hash s), refresh_token_hash := h, rotated_at := now,
     user_agent := (case truncateUa ua of None \<Rightarrow> user_agent s | Some a \<Rightarrow> Some a)\<rparr>"

definition new_session :: "(string \<Rightarrow> string) \<Rightarrow> session_config \<Rightarrow> int \<Rightarrow> string \<Rightarrow> string \<Rightarrow> nat \<Rightarrow> int \<Rightarrow> string option \<Rightarrow> sessions \<Rightarrow> session" where
  "new_session digest cfg now sid secret user av ua t = last (fst (createSession digest cfg now sid secret user av ua t))"

lemma set_update_sessions:
  "s' \<in> set (update_sessions P f t) \<Longrightarrow> \<exists>s\<in>set t. s' = s \<or> (P s \<and> s' = f s)"
  by (auto simp: update_sessions_def)

lemma rotate_rows:
  assumes "s' \<in> set (fst (rotateRefresh digest users cfg now raw ua nextSecret t))"
  shows "\<exists>s\<in>set t. s' = s \<or> s' = rotated (digest nextSecret) now ua s \<or> (\<exists>reason. s' = revoke_row now reason s)"
  using assms
  by (auto simp: rotateRefresh_def Let_def revokeWithin_def rotated_def
      split: option.splits prod.splits if_splits dest!: set_update_sessions)

text \<open>
  What one operation can make of a row: nothing, a heartbeat on a live one, a rotation, a
  revocation; the only other rows are new ones.
\<close>

lemma exec_rows:
  assumes "s' \<in> set (session_exec digest cfg now op t)"
  shows "(\<exists>s\<in>set t. s' = s \<or> (alive now s \<and> s' = touched cfg now s)
            \<or> (\<exists>raw ua sec users. op = Refresh raw ua sec users \<and> s' = rotated (digest sec) now ua s)
            \<or> (\<exists>reason. s' = revoke_row now reason s))
       \<or> (\<exists>sid sec user av ua. op = Login sid sec user av ua \<and> s' = new_session digest cfg now sid sec user av ua t)"
proof (cases op)
  case (Refresh raw ua sec users)
  then show ?thesis using assms rotate_rows [of s' digest users cfg now raw ua sec t] by auto
next
  case (Login sid sec user av ua)
  then show ?thesis using assms by (auto simp: createSession_def new_session_def)
next
  case (Touch sid)
  then show ?thesis using assms
    by (auto simp: touchActivity_def touched_def alive_def Let_def split: if_splits dest!: set_update_sessions)
next
  case (Revoke sid reason)
  then show ?thesis using assms
    by (auto simp: revokeSession_def Let_def split: if_splits dest!: set_update_sessions)
next
  case (RevokeAll user reason)
  then show ?thesis using assms
    by (auto simp: revokeAllForUser_def Let_def split: if_splits dest!: set_update_sessions)
next
  case (Cleanup batch)
  then show ?thesis using assms by (auto simp: cleanupSessions_def Let_def)
qed


section \<open>Lifetimes\<close>

text \<open>The deadlines of a row follow from its login and its last heartbeat, whatever happened since.\<close>

definition session_inv :: "session_config \<Rightarrow> sessions \<Rightarrow> bool" where
  "session_inv cfg t \<longleftrightarrow> (\<forall>s\<in>set t. absolute_expires_at s = created_at s + absoluteMs cfg
                            \<and> idle_expires_at s = last_activity_at s + idleMs cfg)"

lemma new_session_fields:
  "created_at (new_session digest cfg now sid sec user av ua t) = now"
  "last_activity_at (new_session digest cfg now sid sec user av ua t) = now"
  "absolute_expires_at (new_session digest cfg now sid sec user av ua t) = now + absoluteMs cfg"
  "idle_expires_at (new_session digest cfg now sid sec user av ua t) = now + idleMs cfg"
  "session_id (new_session digest cfg now sid sec user av ua t) = sid"
  "refresh_token_hash (new_session digest cfg now sid sec user av ua t) = digest sec"
  "prev_refresh_token_hash (new_session digest cfg now sid sec user av ua t) = None"
  by (simp_all add: new_session_def createSession_def)

lemma changed_fields [simp]:
  "created_at (revoke_row now r s) = created_at s" "created_at (touched cfg now s) = created_at s"
  "created_at (rotated h now ua s) = created_at s"
  "absolute_expires_at (revoke_row now r s) = absolute_expires_at s" "absolute_expires_at (touched cfg now s) = absolute_expires_at s"
  "absolute_expires_at (rotated h now ua s) = absolute_expires_at s"
  "idle_expires_at (revoke_row now r s) = idle_expires_at s" "idle_expires_at (rotated h now ua s) = idle_expires_at s"
  "idle_expires_at (touched cfg now s) = now + idleMs cfg" "last_activity_at (touched cfg now s) = now"
  "last_activity_at (revoke_row now r s) = last_activity_at s" "last_activity_at (rotated h now ua s) = last_activity_at s"
  "session_id (revoke_row now r s) = session_id s" "session_id (touched cfg now s) = session_id s"
  "session_id (rotated h now ua s) = session_id s"
  "revoked_at (touched cfg now s) = revoked_at s" "revoked_at (rotated h now ua s) = revoked_at s"
  "refresh_token_hash (revoke_row now r s) = refresh_token_hash s" "refresh_token_hash (touched cfg now s) = refresh_token_hash s"
  "refresh_token_hash (rotated h now ua s) = h"
  "prev_refresh_token_hash (revoke_row now r s) = prev_refresh_token_hash s"
  "prev_refresh_token_hash (touched cfg now s) = prev_refresh_token_hash s"
  "prev_refresh_token_hash (rotated h now ua s) = Some (refresh_token_hash s)"
  "rotated_at (revoke_row now r s) = rotated_at s" "rotated_at (touched cfg now s) = rotated_at s"
  "rotated_at (rotated h now ua s) = now"
  by (simp_all add: revoke_row_def touched_def rotated_def split: option.split)

lemma revoke_row_revoked [simp]: "(revoked_at (revoke_row now r s) = None) = False"
  by (simp add: revoke_row_def split: option.split)

lemma session_inv_exec:
  "session_inv cfg t \<Longrightarrow> session_inv cfg (session_exec digest cfg now op t)"
  unfolding session_inv_def by (auto dest!: exec_rows simp: new_session_fields)

interpretation session_store: invariant_system "\<lambda>t. t = []" "session_step digest cfg" "session_inv cfg" for digest cfg
proof unfold_locales
  show "session_inv cfg t" if "t = []" for t using that by (simp add: session_inv_def)
  show "session_inv cfg t" if "session_inv cfg s" "session_step digest cfg s t" for s t
    using that(2,1) by (induction rule: session_step.induct) (rule session_inv_exec)
qed

lemma find_session_Some: "find_session sid t = Some s \<Longrightarrow> s \<in> set t \<and> session_id s = sid"
  by (auto simp: find_session_def find_Some_iff)

lemma validate_ok_iff:
  "validateAccessSession now sid t = AccessOk u \<longleftrightarrow>
     sid \<noteq> [] \<and> (\<exists>s. find_session sid t = Some s \<and> alive now s \<and> user_id s = u)"
  by (auto simp: validateAccessSession_def alive_def split: option.splits)

text \<open>
  a session that the request gate accepts was opened less than the absolute limit ago and had a
  heartbeat (or its login) less than the idle limit ago, and it is not revoked: neither refreshes
  nor ordinary requests extend either limit.
\<close>

theorem accepted_session_within_limits:
  assumes "reachable (\<lambda>t. t = []) (session_step digest cfg) t"
    and "validateAccessSession now sid t = AccessOk u"
  shows "\<exists>s\<in>set t. session_id s = sid \<and> user_id s = u \<and> revoked_at s = None
           \<and> now < created_at s + absoluteMs cfg \<and> now < last_activity_at s + idleMs cfg"
proof -
  obtain s where "find_session sid t = Some s" "alive now s" "user_id s = u"
    using assms(2) by (auto simp: validate_ok_iff)
  moreover have "session_inv cfg t" by (rule session_store.reachable_inv [OF assms(1)])
  ultimately show ?thesis by (auto simp: session_inv_def alive_def dest!: find_session_Some intro!: bexI [of _ s])
qed

section \<open>A dead session stays dead\<close>

definition dead_at :: "int \<Rightarrow> string \<Rightarrow> sessions \<Rightarrow> bool" where
  "dead_at now sid t \<longleftrightarrow> (\<forall>s\<in>set t. session_id s = sid \<longrightarrow> \<not> alive now s)"

fun opens :: "string \<Rightarrow> session_op \<Rightarrow> bool" where
  "opens sid (Login sid' _ _ _ _) = (sid' = sid)"
| "opens sid _ = False"

lemma alive_mono: "\<lbrakk>alive now' s; now \<le> now'\<rbrakk> \<Longrightarrow> alive now s"
  by (auto simp: alive_def)

lemma dead_at_exec:
  assumes "dead_at now sid t" "now \<le> now'" "\<not> opens sid op"
  shows "dead_at now sid (session_exec digest cfg now' op t)"
  unfolding dead_at_def
proof (intro ballI impI)
  fix s' assume s': "s' \<in> set (session_exec digest cfg now' op t)" "session_id s' = sid"
  from exec_rows [OF s'(1)] show "\<not> alive now s'"
  proof
    assume "\<exists>sid sec user av ua. op = Login sid sec user av ua \<and> s' = new_session digest cfg now' sid sec user av ua t"
    then show ?thesis using s'(2) assms(3) by (auto simp: new_session_fields)
  next
    assume "\<exists>s\<in>set t. s' = s \<or> (alive now' s \<and> s' = touched cfg now' s)
            \<or> (\<exists>raw ua sec users. op = Refresh raw ua sec users \<and> s' = rotated (digest sec) now' ua s)
            \<or> (\<exists>reason. s' = revoke_row now' reason s)"
    then obtain s where s: "s \<in> set t" "s' = s \<or> (alive now' s \<and> s' = touched cfg now' s)
            \<or> (\<exists>raw ua sec users. op = Refresh raw ua sec users \<and> s' = rotated (digest sec) now' ua s)
            \<or> (\<exists>reason. s' = revoke_row now' reason s)" by blast
    then have "session_id s = sid" using s'(2) by auto
    then have "\<not> alive now s" using assms(1) s(1) by (auto simp: dead_at_def)
    then show ?thesis using s(2) alive_mono [of now' s now] assms(2) by (auto simp: alive_def [of now])
  qed
qed

lemma dead_at_run:
  "\<lbrakk>dead_at now sid t; list_all (\<lambda>(now', op). now \<le> now' \<and> \<not> opens sid op) ops\<rbrakk>
     \<Longrightarrow> dead_at now sid (run_sessions digest cfg ops t)"
  by (induction digest cfg ops t rule: run_sessions.induct) (auto intro: dead_at_exec)

lemma dead_not_accepted: "\<lbrakk>dead_at now sid t; now \<le> now'\<rbrakk> \<Longrightarrow> validateAccessSession now' sid t \<noteq> AccessOk u"
  using alive_mono by (auto simp: validate_ok_iff dead_at_def dest!: find_session_Some)

section \<open>A replayed refresh token\<close>

text \<open>The secret with digest \<open>h\<close> was rotated away at time \<open>t0\<close>.\<close>

definition retired :: "string \<Rightarrow> string \<Rightarrow> int \<Rightarrow> sessions \<Rightarrow> bool" where
  "retired sid h t0 t \<longleftrightarrow> (\<forall>s\<in>set t. session_id s = sid \<longrightarrow>
     refresh_token_hash s \<noteq> h \<and> (prev_refresh_token_hash s = Some h \<longrightarrow> rotated_at s = t0))"

fun reissues :: "(string \<Rightarrow> string) \<Rightarrow> string \<Rightarrow> session_op \<Rightarrow> bool" where
  "reissues digest h (Refresh _ _ sec _) = (digest sec = h)"
| "reissues digest h _ = False"

lemma retired_exec:
  assumes "retired sid h t0 t" "\<not> opens sid op" "\<not> reissues digest h op"
  shows "retired sid h t0 (session_exec digest cfg now op t)"
  unfolding retired_def
proof (intro ballI impI)
  fix s' assume s': "s' \<in> set (session_exec digest cfg now op t)" "session_id s' = sid"
  from exec_rows [OF s'(1)] show "refresh_token_hash s' \<noteq> h \<and> (prev_refresh_token_hash s' = Some h \<longrightarrow> rotated_at s' = t0)"
    using s'(2) assms by (auto simp: retired_def new_session_fields)
qed

lemma retired_run:
  "\<lbrakk>retired sid h t0 t; list_all (\<lambda>(now, op). \<not> opens sid op \<and> \<not> reissues digest h op) ops\<rbrakk>
     \<Longrightarrow> retired sid h t0 (run_sessions digest cfg ops t)"
  by (induction digest cfg ops t rule: run_sessions.induct) (auto intro: retired_exec)

lemma revokeWithin_dead: "dead_at now sid (revokeWithin now' sid reason t)"
  unfolding dead_at_def
proof (intro ballI impI)
  fix x assume "x \<in> set (revokeWithin now' sid reason t)" and sid: "session_id x = sid"
  then obtain y where "x = (if session_id y = sid then revoke_row now' reason y else y)"
    unfolding revokeWithin_def update_sessions_def set_map by blast
  with sid have "x = revoke_row now' reason y" by (cases "session_id y = sid") simp_all
  then show "\<not> alive now x" by (simp add: alive_def)
qed

text \<open>Presenting a retired secret after the grace period is refused and leaves the session dead.\<close>

lemma retired_refused:
  assumes "retired sid (digest sec) t0 t" "parseRefreshToken raw = Some (sid, sec)" "t0 + refreshGraceMs cfg < now"
    and "distinct (map session_id t)" "\<forall>s\<in>set t. users (user_id s) \<noteq> None"
  shows "\<not> refreshed (snd (rotateRefresh digest users cfg now raw ua nextSecret t))
       \<and> dead_at now sid (fst (rotateRefresh digest users cfg now raw ua nextSecret t))"
proof (cases "find_session sid t")
  case None
  then have "dead_at now sid t" by (auto simp: dead_at_def find_session_def find_None_iff)
  then show ?thesis using None assms(2) by (simp add: rotateRefresh_def)
next
  case (Some s)
  then have s: "s \<in> set t" "session_id s = sid" using find_session_Some by auto
  then have only: "x = s" if "x \<in> set t" "session_id x = sid" for x
    using assms(4) that by (auto simp: distinct_map inj_on_def)
  have nocur: "digest sec \<noteq> refresh_token_hash s" "\<not> within_grace cfg now (digest sec) s"
    using assms(1,3) s by (auto simp: retired_def within_grace_def split: option.splits)
  note rev = revokeWithin_dead [of now sid now]
  have dead: "dead_at now sid t" if "revoked_at s \<noteq> None"
    unfolding dead_at_def alive_def
  proof (intro ballI impI)
    fix x assume "x \<in> set t" "session_id x = sid"
    then have "x = s" by (rule only)
    then show "\<not> (revoked_at x = None \<and> now < absolute_expires_at x \<and> now < idle_expires_at x)" using that by simp
  qed
  obtain u where "users (user_id s) = Some u" using assms(5) s(1) by auto
  then have eq: "rotateRefresh digest users cfg now raw ua nextSecret t =
      (if revoked_at s \<noteq> None then (t, RefreshRevoked)
       else if absolute_expires_at s \<le> now then (revokeWithin now sid ''absolute_timeout'' t, RefreshAbsolute)
       else if idle_expires_at s \<le> now then (revokeWithin now sid ''idle_timeout'' t, RefreshIdle)
       else (revokeWithin now sid ''refresh_reuse'' t, RefreshReuse))"
    using Some assms(2) nocur by (simp add: rotateRefresh_def Let_def)
  show ?thesis unfolding eq using rev dead by simp
qed


lemma dead_at_not_accepted:
  assumes "distinct (map session_id t)" "sid \<noteq> []" "\<forall>u. validateAccessSession now sid t \<noteq> AccessOk u"
  shows "dead_at now sid t"
  unfolding dead_at_def
proof (intro ballI impI notI)
  fix s assume s: "s \<in> set t" "session_id s = sid" "alive now s"
  then have "find_session sid t \<noteq> None" by (auto simp: find_session_def find_None_iff)
  then obtain s' where s': "find_session sid t = Some s'" by auto
  then have "s' = s" using find_session_Some [OF s'] s(1,2) assms(1) by (auto simp: distinct_map inj_on_def)
  then show False using s' s(3) assms(2,3) by (auto simp: validate_ok_iff)
qed

text \<open>
  Once the request gate refuses a session (logged out, revoked, idle or past its absolute limit)
  no later sequence of heartbeats, refreshes, logins to other sessions, revocations and clean-ups
  makes the gate accept it again.
\<close>

theorem dead_session_stays_dead:
  assumes "distinct (map session_id t)" "sid \<noteq> []" "\<forall>u. validateAccessSession now sid t \<noteq> AccessOk u"
    and "list_all (\<lambda>(now', op). now \<le> now' \<and> \<not> opens sid op) ops" "now \<le> later"
  shows "validateAccessSession later sid (run_sessions digest cfg ops t) \<noteq> AccessOk u"
  by (rule dead_not_accepted [OF dead_at_run [OF dead_at_not_accepted [OF assms(1-3)] assms(4)] assms(5)])

lemma rotated_retired:
  assumes "rotateRefresh digest users cfg now raw ua nextSecret t = (t', Rotated sid u tok av)"
    and "parseRefreshToken raw = Some (sid, sec)" "digest nextSecret \<noteq> digest sec"
  shows "retired sid (digest sec) now t'"
proof -
  obtain f where t': "t' = update_sessions (\<lambda>x. session_id x = sid) f t"
    and f: "\<And>x. refresh_token_hash (f x) = digest nextSecret" "\<And>x. rotated_at (f x) = now" "\<And>x. session_id (f x) = session_id x"
    using assms(1,2) by (fastforce simp: rotateRefresh_def Let_def split: option.splits if_splits)
  show ?thesis unfolding retired_def
  proof (intro ballI impI)
    fix x assume "x \<in> set t'" and x: "session_id x = sid"
    then obtain y where "x = (if session_id y = sid then f y else y)"
      unfolding t' update_sessions_def set_map by blast
    with x have "x = f y" by (cases "session_id y = sid") simp_all
    then show "refresh_token_hash x \<noteq> digest sec \<and> (prev_refresh_token_hash x = Some (digest sec) \<longrightarrow> rotated_at x = now)"
      using f assms(3) by simp
  qed
qed

text \<open>
  C5: a refresh token that has been rotated away and is presented again after the grace period is
  refused, whatever was done with the session in between, and from then on the session is dead for
  everyone, the thief and the owner alike.
\<close>

theorem replayed_refresh_kills_session:
  assumes "parseRefreshToken raw = Some (sid, sec)"
    and "rotateRefresh digest users cfg start raw ua fresh t = (ta, Rotated sid u tok av)" "digest fresh \<noteq> digest sec"
    and "list_all (\<lambda>(now, op). \<not> opens sid op \<and> \<not> reissues digest (digest sec) op) ops"
    and "distinct (map session_id (run_sessions digest cfg ops ta))"
    and "\<forall>s\<in>set (run_sessions digest cfg ops ta). users' (user_id s) \<noteq> None"
    and "start + refreshGraceMs cfg < now"
    and "rotateRefresh digest users' cfg now raw ua' fresh' (run_sessions digest cfg ops ta) = (tb, r)"
    and "list_all (\<lambda>(now', op). now \<le> now' \<and> \<not> opens sid op) ops'" "now \<le> later"
  shows "\<not> refreshed r \<and> validateAccessSession later sid (run_sessions digest cfg ops' tb) \<noteq> AccessOk w"
proof -
  have ret: "retired sid (digest sec) start (run_sessions digest cfg ops ta)"
    by (rule retired_run [OF rotated_retired [OF assms(2,1,3)] assms(4)])
  from retired_refused [where digest = digest and users = users', OF ret assms(1,7,5,6), of ua' fresh'] assms(8)
  have "\<not> refreshed r" "dead_at now sid tb" by simp_all
  then show ?thesis using dead_not_accepted [OF dead_at_run [OF _ assms(9)] assms(10)] by blast
qed

section \<open>A concrete session\<close>

definition sample_cfg :: session_config where
  "sample_cfg = \<lparr>accessTtlMs = 900000, idleMs = 3600000, absoluteMs = 86400000, activityMinUpdateMs = 60000,
                 refreshGraceMs = 30000, cleanupRetentionDays = 7\<rparr>"

definition default_env :: session_env where
  "default_env = \<lparr>ACCESS_TOKEN_TTL = None, SESSION_IDLE_TIMEOUT = Some ''60 m'', SESSION_ABSOLUTE_TIMEOUT = None,
                  SESSION_ACTIVITY_MIN_UPDATE = None, SESSION_CLEANUP_RETENTION_DAYS = None, SESSION_REFRESH_GRACE = Some ''30''\<rparr>"

lemma sample_cfg_eq: "validateSessionConfig default_env = Inr (sample_cfg, [])"
  by code_simp

definition sample_users :: "nat \<Rightarrow> user_row option" where
  "sample_users i = (if i = 1 then Some \<lparr>auth_version = 3, is_passive = False\<rparr> else None)"

definition opened :: sessions where
  "opened = run_sessions (\<lambda>s. s) sample_cfg [(0, Login ''s'' ''a'' 1 3 None)] []"

definition first_refresh :: "sessions \<times> refresh_result" where
  "first_refresh = rotateRefresh (\<lambda>s. s) sample_users sample_cfg 100000 ''s.a'' None ''b'' opened"

definition replay :: "sessions \<times> refresh_result" where
  "replay = rotateRefresh (\<lambda>s. s) sample_users sample_cfg 200000 ''s.a'' None ''c''
     (run_sessions (\<lambda>s. s) sample_cfg [(150000, Touch ''s'')] (fst first_refresh))"

lemma first_refresh_eq: "snd first_refresh = Rotated ''s'' 1 ''s.b'' 3"
  by code_simp

lemma replay_result: "snd replay = RefreshReuse" "length (fst first_refresh) = 1"
  by code_simp+

theorem accepted_session_within_limits_witness:
  "validateAccessSession 200 ''s'' opened = AccessOk 1
   \<and> (\<exists>s\<in>set opened. session_id s = ''s'' \<and> user_id s = 1 \<and> revoked_at s = None
        \<and> 200 < created_at s + 86400000 \<and> 200 < last_activity_at s + 3600000)"
proof
  show ok: "validateAccessSession 200 ''s'' opened = AccessOk 1" by code_simp
  have "reachable (\<lambda>t. t = []) (session_step (\<lambda>s. s) sample_cfg) opened"
    unfolding opened_def run_sessions.simps
    by (rule reachable.more, rule reachable.start) (simp, rule session_step.step)
  from accepted_session_within_limits [OF this ok]
  show "\<exists>s\<in>set opened. session_id s = ''s'' \<and> user_id s = 1 \<and> revoked_at s = None
        \<and> 200 < created_at s + 86400000 \<and> 200 < last_activity_at s + 3600000"
    by (simp add: sample_cfg_def)
qed

theorem dead_session_stays_dead_witness:
  "validateAccessSession 5000000 ''s'' (run_sessions (\<lambda>s. s) sample_cfg [(4000000, Touch ''s''), (4500000, Revoke ''s'' [])] opened) \<noteq> AccessOk 1"
proof (rule dead_session_stays_dead [where now = 3600000])
  show "distinct (map session_id opened)" by code_simp
  have "validateAccessSession 3600000 ''s'' opened = IdleExpired 1" by code_simp
  then show "\<forall>u. validateAccessSession 3600000 ''s'' opened \<noteq> AccessOk u" by simp
qed simp_all

theorem replayed_refresh_kills_session_witness:
  "validateAccessSession 200001 ''s'' (run_sessions (\<lambda>s. s) sample_cfg [(200001, Touch ''s'')] (fst replay)) \<noteq> AccessOk 1"
proof -
  have one: "map session_id (run_sessions (\<lambda>s. s) sample_cfg [(150000, Touch ''s'')] (fst first_refresh)) = [''s'']"
    "map user_id (run_sessions (\<lambda>s. s) sample_cfg [(150000, Touch ''s'')] (fst first_refresh)) = [1]" by code_simp+
  have u: "\<forall>s\<in>set (run_sessions (\<lambda>s. s) sample_cfg [(150000, Touch ''s'')] (fst first_refresh)). sample_users (user_id s) \<noteq> None"
    using one(2) by (auto simp: sample_users_def map_eq_Cons_conv)
  have p: "parseRefreshToken ''s.a'' = Some (''s'', ''a'')" by code_simp
  have f: "rotateRefresh (\<lambda>s. s) sample_users sample_cfg 100000 ''s.a'' None ''b'' opened = (fst first_refresh, Rotated ''s'' 1 ''s.b'' 3)"
    using first_refresh_eq by (metis first_refresh_def prod.collapse)
  show ?thesis
    using replayed_refresh_kills_session [OF p f _ _ _ u, where now = 200000 and ua' = None and fresh' = "''c''"
        and tb = "fst replay" and r = "snd replay" and ops' = "[(200001, Touch ''s'')]" and later = 200001 and w = 1] one(1)
    by (simp add: sample_cfg_def replay_def)
qed

end
