(* ===== verification/Accounts.thy ===== *)
theory Accounts
  imports AccessControl Sessions
begin

text \<open>
  Accounts: first-run setup (\<open>lib/firstRunSetup.js\<close>, \<open>lib/setupCode.js\<close>), the guards of protected
  accounts (\<open>lib/adminProtection.js\<close>), what the start of the server does to them
  (\<open>lib/defaultAdminBootstrap.js\<close>, \<open>lib/systemAdminBootstrap.js\<close>), user management (\<open>routes/users.js\<close>), the change of one's own
  password (\<open>routes/authPassword.js\<close>), and login, logout and refresh (\<open>server.js\<close>) with the tokens they
  sign (\<open>lib/auth.js\<close>, \<open>lib/authVersion.js\<close>).  The tables are lists of rows in id order.  A handler is
  a function of the tables, its caller and its input; its outcome is the HTTP status and the token it
  sets.  bcrypt is the pair \<open>compare\<close> and the new hash, \<open>digest\<close> and \<open>sha\<close> are SHA-256; fresh ids,
  secrets and hashes are arguments, times are milliseconds.
\<close>

section \<open>Rows and outcomes\<close>

record account =
  acc_id :: nat
  username :: string
  password_hash :: string
  first_name :: string
  last_name :: string
  acc_role :: string
  is_active :: bool
  must_change_password :: bool
  is_system_admin :: bool
  acc_version :: int

text \<open>The columns of \<open>system_settings\<close> that setup reads; the others belong to the change of the time zone.\<close>

record settings =
  setup_completed_at :: "int option"
  setup_code_hash :: "string option"
  initial_setup_completed :: bool
  timezone_required :: bool
  active_timezone :: "string option"
  default_admin_bootstrapped :: bool

record auth_db =
  accounts :: "account list"
  next_account :: nat
  sess :: sessions
  settings_row :: "settings option"

text \<open>The body of a signed token with its expiration in seconds.\<close>

record claims =
  cl_email :: string
  cl_username :: string
  cl_role :: "string option"
  cl_user :: "nat option"
  cl_av :: "int option"
  cl_sid :: "string option"
  cl_exp :: "int option"

record outcome =
  out_status :: nat
  out_token :: "claims option"
  out_refresh :: "string option"

definition status_only :: "nat \<Rightarrow> outcome" where
  "status_only n = \<lparr>out_status = n, out_token = None, out_refresh = None\<rparr>"

definition find_account :: "nat \<Rightarrow> auth_db \<Rightarrow> account option" where
  "find_account i db = find (\<lambda>a. acc_id a = i) (accounts db)"

definition by_username :: "string \<Rightarrow> auth_db \<Rightarrow> account option" where
  "by_username n db = find (\<lambda>a. username a = n) (accounts db)"

definition update_account :: "nat \<Rightarrow> (account \<Rightarrow> account) \<Rightarrow> auth_db \<Rightarrow> auth_db" where
  "update_account i f db = db\<lparr>accounts := map (\<lambda>a. if acc_id a = i then f a else a) (accounts db)\<rparr>"

text \<open>What the refresh of a session reads of a user.\<close>

definition user_rows :: "auth_db \<Rightarrow> nat \<Rightarrow> user_row option" where
  "user_rows db i = map_option (\<lambda>a. \<lparr>auth_version = acc_version a, is_passive = \<not> is_active a\<rparr>) (find_account i db)"

section \<open>Tokens\<close>

record token_request =
  tq_username :: string
  tq_email :: string
  tq_role :: "string option"
  tq_user :: "nat option"
  tq_av :: "int option"
  tq_sid :: "string option"

datatype sign_error = NoIdentity | InvalidRole | NoVersion

definition signUserToken :: "session_config \<Rightarrow> int \<Rightarrow> token_request \<Rightarrow> (sign_error, claims) result" where
  "signUserToken cfg now q =
     (let name = js_trim (if tq_username q \<noteq> [] then tq_username q else tq_email q);
          email = js_trim (if tq_email q \<noteq> [] then tq_email q else name);
          sub = (if email \<noteq> [] then email else name)
      in if sub = [] then Inl NoIdentity
         else case normalizeAppRole (tq_role q) of
                None \<Rightarrow> Inl InvalidRole
              | Some role \<Rightarrow>
                  let body = \<lparr>cl_email = sub, cl_username = (if name \<noteq> [] then name else sub), cl_role = Some role,
                              cl_user = None, cl_av = None, cl_sid = None,
                              cl_exp = Some (now div 1000 + accessTtlMs cfg div 1000)\<rparr>
                  in (case tq_user q of
                        None \<Rightarrow> Inr body
                      | Some u \<Rightarrow>
                          (case tq_av q of
                             None \<Rightarrow> Inl NoVersion
                           | Some av \<Rightarrow>
                               if av < 1 then Inl NoVersion
                               else Inr (body\<lparr>cl_user := Some u, cl_av := Some av,
                                              cl_sid := (case tq_sid q of
                                                           None \<Rightarrow> None
                                                         | Some s \<Rightarrow> if js_trim s = [] then None else Some (js_trim s))\<rparr>))))"

definition token_for :: "account \<Rightarrow> int \<Rightarrow> string option \<Rightarrow> token_request" where
  "token_for a av sid = \<lparr>tq_username = username a, tq_email = username a, tq_role = Some (acc_role a),
                         tq_user = Some (acc_id a), tq_av = Some av, tq_sid = sid\<rparr>"

text \<open>\<open>Number(auth_version) || 1\<close>.\<close>

definition version_or_1 :: "int \<Rightarrow> int" where
  "version_or_1 v = (if v = 0 then 1 else v)"

definition bumpAuthVersion :: "nat \<Rightarrow> auth_db \<Rightarrow> auth_db" where
  "bumpAuthVersion i db = update_account i (\<lambda>a. a\<lparr>acc_version := acc_version a + 1\<rparr>) db"

section \<open>First-run setup\<close>

datatype setup_error =
    InvalidUsername | InvalidPassword | PasswordMismatch | InvalidTimezone | SetupAlreadyCompleted | InvalidSetupCode

definition validateAdminUsername :: "string \<Rightarrow> (setup_error, string) result" where
  "validateAdminUsername v =
     (let name = js_trim v
      in if name = [] then Inl InvalidUsername
         else if length name < 3 \<or> 254 < length name then Inl InvalidUsername
         else if list_ex js_ws name \<or> list_ex (\<lambda>c. code_unit c < 0x20 \<or> code_unit c = 0x7F) name then Inl InvalidUsername
         else Inr name)"

text \<open>\<open>None\<close>: not a text, and for the confirmation: not given.\<close>

definition validateAdminPassword :: "string option \<Rightarrow> string option \<Rightarrow> (setup_error, string) result" where
  "validateAdminPassword password confirm =
     (case password of
        None \<Rightarrow> Inl InvalidPassword
      | Some p \<Rightarrow>
          if p = [] then Inl InvalidPassword
          else if length p < 12 \<or> 200 < length p then Inl InvalidPassword
          else if confirm \<noteq> None \<and> confirm \<noteq> Some p then Inl PasswordMismatch
          else Inr p)"

text \<open>Upper case on Latin-1, as far as A to Z and digits come out of it: sharp s becomes SS.\<close>

definition normalizeSetupCode :: "string \<Rightarrow> string" where
  "normalizeSetupCode s =
     concat (map (\<lambda>c. if is_digit c \<or> is_upper c then [c]
                      else if is_lower c then [char_of (code_unit c - 32)]
                      else if code_unit c = 0xDF then ''SS'' else []) s)"

definition hashSetupCode :: "(string \<Rightarrow> string) \<Rightarrow> string \<Rightarrow> string" where
  "hashSetupCode sha s = (let n = normalizeSetupCode s in if n = [] then [] else sha n)"

definition hex64 :: "string \<Rightarrow> bool" where
  "hex64 s \<longleftrightarrow> length s = 64 \<and> list_all is_hex_lower s"

definition verifySetupCode :: "(string \<Rightarrow> string) \<Rightarrow> string \<Rightarrow> string \<Rightarrow> bool" where
  "verifySetupCode sha s expectedHash =
     (let expected = js_lower (js_trim expectedHash) in hex64 expected \<and> hashSetupCode sha s = expected)"

definition isSha256Hex :: "string \<Rightarrow> bool" where
  "isSha256Hex s \<longleftrightarrow> hex64 (js_lower (js_trim s))"

definition empty_settings :: settings where
  "empty_settings = \<lparr>setup_completed_at = None, setup_code_hash = None, initial_setup_completed = False,
                     timezone_required = False, active_timezone = None, default_admin_bootstrapped = False\<rparr>"

record setup_state =
  ss_completed :: bool
  ss_admin_required :: bool
  ss_code_required :: bool
  ss_users :: nat

definition readSetupState :: "auth_db \<Rightarrow> setup_state" where
  "readSetupState db =
     (case settings_row db of
        None \<Rightarrow> \<lparr>ss_completed = False, ss_admin_required = True, ss_code_required = False, ss_users = 0\<rparr>
      | Some s \<Rightarrow>
          (let n = length (accounts db); completed = (setup_completed_at s \<noteq> None \<or> 0 < n); required = (\<not> completed \<and> n = 0)
           in \<lparr>ss_completed = completed, ss_admin_required = required,
               ss_code_required = (required \<and> (case setup_code_hash s of None \<Rightarrow> False | Some h \<Rightarrow> h \<noteq> [])), ss_users = n\<rparr>))"

text \<open>\<open>INSERT ... ON CONFLICT DO NOTHING\<close>.\<close>

definition ensure_settings :: "auth_db \<Rightarrow> auth_db" where
  "ensure_settings db = (case settings_row db of None \<Rightarrow> db\<lparr>settings_row := Some empty_settings\<rparr> | Some _ \<Rightarrow> db)"

datatype seed_result = NoEnvHash | InvalidEnvHash | NotGreenfield | Seeded | AlreadyPresent

definition seedSetupCodeHash :: "string \<Rightarrow> auth_db \<Rightarrow> auth_db \<times> seed_result" where
  "seedSetupCodeHash envValue db =
     (let envHash = js_lower (js_trim envValue); db' = ensure_settings db; st = readSetupState db'
      in if envHash = [] then (db, NoEnvHash)
         else if \<not> isSha256Hex envHash then (db, InvalidEnvHash)
         else if ss_completed st \<or> \<not> ss_admin_required st then (db', NotGreenfield)
         else case settings_row db' of
                None \<Rightarrow> (db', AlreadyPresent)
              | Some s \<Rightarrow>
                  if setup_code_hash s = None \<and> setup_completed_at s = None
                  then (db'\<lparr>settings_row := Some (s\<lparr>setup_code_hash := Some envHash\<rparr>)\<rparr>, Seeded)
                  else (db', AlreadyPresent))"

text \<open>\<open>(valid, required)\<close>.\<close>

definition checkSetupCode :: "(string \<Rightarrow> string) \<Rightarrow> string \<Rightarrow> auth_db \<Rightarrow> (setup_error, bool \<times> bool) result" where
  "checkSetupCode sha s db =
     (let st = readSetupState db
      in if ss_completed st \<or> \<not> ss_admin_required st then Inl SetupAlreadyCompleted
         else if \<not> ss_code_required st then Inr (True, False)
         else let h = (case Option.bind (settings_row db) setup_code_hash of None \<Rightarrow> [] | Some h \<Rightarrow> h)
              in Inr (verifySetupCode sha s h, True))"

record setup_input =
  in_code :: string
  in_username :: string
  in_password :: "string option"
  in_confirm :: "string option"
  in_timezone :: string

text \<open>
  \<open>zones\<close> is the set of time zones of the platform.  The transaction holds the advisory lock, so it is
  one step; an error rolls it back.  The unique indices cannot refuse the insertion into an empty table.
\<close>

definition completeFirstRunSetup ::
    "(string \<Rightarrow> string) \<Rightarrow> (string \<Rightarrow> bool) \<Rightarrow> int \<Rightarrow> string \<Rightarrow> setup_input \<Rightarrow> auth_db
     \<Rightarrow> auth_db \<times> (setup_error, string) result" where
  "completeFirstRunSetup sha zones now newHash inp db =
     (case validateAdminUsername (in_username inp) of Inl e \<Rightarrow> (db, Inl e) | Inr name \<Rightarrow>
      (case validateAdminPassword (in_password inp) (in_confirm inp) of Inl e \<Rightarrow> (db, Inl e) | Inr _ \<Rightarrow>
       (let tz = js_trim (in_timezone inp) in
        if tz = [] \<or> \<not> zones tz then (db, Inl InvalidTimezone)
        else let db1 = ensure_settings db; s = (case settings_row db1 of None \<Rightarrow> empty_settings | Some s \<Rightarrow> s);
                 stored = (case setup_code_hash s of None \<Rightarrow> [] | Some h \<Rightarrow> h) in
             if setup_completed_at s \<noteq> None then (db, Inl SetupAlreadyCompleted)
             else if accounts db1 \<noteq> [] then (db, Inl SetupAlreadyCompleted)
             else if stored \<noteq> [] \<and> \<not> verifySetupCode sha (in_code inp) stored then (db, Inl InvalidSetupCode)
             else (db1\<lparr>accounts := [\<lparr>acc_id = next_account db1, username = name, password_hash = newHash,
                                     first_name = ''System'', last_name = ''Administrator'', acc_role = ADMIN,
                                     is_active = True, must_change_password = False, is_system_admin = True,
                                     acc_version = 1\<rparr>],
                       next_account := Suc (next_account db1),
                       settings_row := Some (s\<lparr>setup_completed_at := Some now, setup_code_hash := None,
                                               initial_setup_completed := True, timezone_required := False,
                                               active_timezone := Some tz, default_admin_bootstrapped := True\<rparr>)\<rparr>,
                   Inr name))))"

section \<open>Protected accounts\<close>

datatype mutation = DeleteUser | Deactivate | Demote | Rename

datatype guard = Allowed | SystemAdminProtected | LastActiveAdmin

fun strips_active_admin :: "mutation \<Rightarrow> bool" where
  "strips_active_admin Rename = False"
| "strips_active_admin _ = True"

definition evaluateProtectedMutation :: "mutation \<Rightarrow> bool \<Rightarrow> string \<Rightarrow> bool \<Rightarrow> nat \<Rightarrow> guard" where
  "evaluateProtectedMutation op sysAdmin currentRole active otherActiveAdmins =
     (if sysAdmin \<and> (strips_active_admin op \<or> op = Rename) then SystemAdminProtected
      else if strips_active_admin op \<and> currentRole = ADMIN \<and> active \<and> otherActiveAdmins < 1 then LastActiveAdmin
      else Allowed)"

definition guard_status :: "guard \<Rightarrow> nat" where
  "guard_status g = (case g of Allowed \<Rightarrow> 200 | SystemAdminProtected \<Rightarrow> 403 | LastActiveAdmin \<Rightarrow> 409)"

definition active_admin :: "account \<Rightarrow> bool" where
  "active_admin a \<longleftrightarrow> acc_role a = ADMIN \<and> is_active a"

definition lockUserForMutation :: "nat \<Rightarrow> auth_db \<Rightarrow> (account \<times> nat) option" where
  "lockUserForMutation i db =
     map_option (\<lambda>a. (a, length (filter (\<lambda>b. active_admin b \<and> acc_id b \<noteq> i) (accounts db)))) (find_account i db)"

definition guard_of :: "mutation \<Rightarrow> account \<times> nat \<Rightarrow> guard" where
  "guard_of op ctx = evaluateProtectedMutation op (is_system_admin (fst ctx)) (acc_role (fst ctx)) (is_active (fst ctx)) (snd ctx)"

section \<open>The start of the server\<close>

text \<open>
  \<open>ensureDefaultAdmin\<close> of \<open>server.js\<close>: the setup code is stored, the legacy administrator of
  \<open>lib/defaultAdminBootstrap.js\<close> is created where it is asked for, and \<open>lib/systemAdminBootstrap.js\<close>
  reconciles the protected account, which it looks up by a fixed name.  \<open>acquired\<close> says that the advisory
  lock was free; the unique index on the flag refuses a second system administrator and the transaction
  is rolled back.  Of several spellings of the name the first row counts.
\<close>

definition DEFAULT_ADMIN_EMAIL :: string where
  "DEFAULT_ADMIN_EMAIL = ''admin@talonhound.local''"

datatype bootstrap_error = KnownDefault | PasswordTooShort

text \<open>The given password, or \<open>None\<close> for a generated one.\<close>

definition provided_password :: "string \<Rightarrow> string \<Rightarrow> string" where
  "provided_password initialPw systemPw = js_trim (if initialPw \<noteq> [] then initialPw else systemPw)"

definition resolveBootstrapAdminPassword :: "string \<Rightarrow> string \<Rightarrow> (bootstrap_error, string option) result" where
  "resolveBootstrapAdminPassword initialPw systemPw =
     (let p = provided_password initialPw systemPw
      in if p = [] then Inr None
         else if p = ''admin'' then Inl KnownDefault
         else if length p < 12 then Inl PasswordTooShort
         else Inr (Some p))"

datatype bootstrap_result = BootstrapLocked | AlreadyBootstrapped | UsersExist | BootstrapCreated

definition ensureDefaultAdminBootstrap ::
    "bool \<Rightarrow> string \<Rightarrow> string \<Rightarrow> string \<Rightarrow> auth_db \<Rightarrow> auth_db \<times> (bootstrap_error, bootstrap_result) result" where
  "ensureDefaultAdminBootstrap acquired initialPw systemPw newHash db =
     (let db1 = ensure_settings db; s = (case settings_row db1 of None \<Rightarrow> empty_settings | Some s \<Rightarrow> s);
          marked = Some (s\<lparr>default_admin_bootstrapped := True\<rparr>)
      in if \<not> acquired then (db, Inr BootstrapLocked)
         else if default_admin_bootstrapped s then (db1, Inr AlreadyBootstrapped)
         else if accounts db1 \<noteq> [] then (db1\<lparr>settings_row := marked\<rparr>, Inr UsersExist)
         else case resolveBootstrapAdminPassword initialPw systemPw of
                Inl e \<Rightarrow> (db, Inl e)
              | Inr _ \<Rightarrow>
                  (db1\<lparr>accounts := [\<lparr>acc_id = next_account db1, username = DEFAULT_ADMIN_EMAIL, password_hash = newHash,
                                    first_name = ''Local'', last_name = ''Admin'', acc_role = ADMIN, is_active = True,
                                    must_change_password = True, is_system_admin = False, acc_version = 1\<rparr>],
                      next_account := Suc (next_account db1), settings_row := marked\<rparr>,
                   Inr BootstrapCreated))"

datatype reconcile_error = NoAdministrator | SecondSystemAdmin | EmptyPassword

datatype reconcile_result = ReconcileLocked | NothingToDo | RoleFixed | FlagSet | DeferredCleanInstall | ManualRequired nat

definition countActiveAdmins :: "auth_db \<Rightarrow> nat" where
  "countActiveAdmins db = length (filter active_admin (accounts db))"

definition reportMissing :: "auth_db \<Rightarrow> (reconcile_error, reconcile_result) result" where
  "reportMissing db = (let n = countActiveAdmins db in if n = 0 then Inl NoAdministrator else Inr (ManualRequired n))"

definition admin_namesake :: "auth_db \<Rightarrow> account option" where
  "admin_namesake db = find (\<lambda>a. js_lower (username a) = js_lower DEFAULT_ADMIN_EMAIL) (accounts db)"

definition other_system_admin :: "nat \<Rightarrow> auth_db \<Rightarrow> bool" where
  "other_system_admin i db \<longleftrightarrow> list_ex (\<lambda>a. is_system_admin a \<and> acc_id a \<noteq> i) (accounts db)"

definition ensureSystemAdminAccount :: "bool \<Rightarrow> auth_db \<Rightarrow> auth_db \<times> (reconcile_error, reconcile_result) result" where
  "ensureSystemAdminAccount acquired db =
     (if \<not> acquired then (db, Inr ReconcileLocked)
      else case admin_namesake db of
             Some a \<Rightarrow>
               if is_system_admin a
               then (if acc_role a \<noteq> ADMIN then (update_account (acc_id a) (\<lambda>a. a\<lparr>acc_role := ADMIN\<rparr>) db, Inr RoleFixed)
                     else (db, Inr NothingToDo))
               else if acc_role a = ADMIN
               then (if other_system_admin (acc_id a) db then (db, Inl SecondSystemAdmin)
                     else (update_account (acc_id a) (\<lambda>a. a\<lparr>is_system_admin := True\<rparr>) db, Inr FlagSet))
               else (db, reportMissing db)
           | None \<Rightarrow> if accounts db = [] then (db, Inr DeferredCleanInstall) else (db, reportMissing db))"

text \<open>The command of the operator; \<open>True\<close>: created, \<open>False\<close>: reconciled.\<close>

definition provisionSystemAdmin :: "string \<Rightarrow> string \<Rightarrow> auth_db \<Rightarrow> auth_db \<times> (reconcile_error, bool) result" where
  "provisionSystemAdmin password newHash db =
     (if password = [] then (db, Inl EmptyPassword)
      else case admin_namesake db of
             Some a \<Rightarrow>
               if other_system_admin (acc_id a) db then (db, Inl SecondSystemAdmin)
               else (update_account (acc_id a) (\<lambda>a. a\<lparr>is_system_admin := True, acc_role := ADMIN\<rparr>) db, Inr False)
           | None \<Rightarrow>
               if list_ex is_system_admin (accounts db) then (db, Inl SecondSystemAdmin)
               else (db\<lparr>accounts := accounts db @
                          [\<lparr>acc_id = next_account db, username = DEFAULT_ADMIN_EMAIL, password_hash = newHash,
                            first_name = ''System'', last_name = ''Administrator'', acc_role = ADMIN, is_active = True,
                            must_change_password = True, is_system_admin = True, acc_version = 1\<rparr>],
                        next_account := Suc (next_account db)\<rparr>, Inr True))"

record startup_env =
  env_code_hash :: string
  env_initial_password :: string
  env_system_password :: string
  env_legacy_flag :: string

definition legacyDefaultAdminEnabled :: "startup_env \<Rightarrow> bool" where
  "legacyDefaultAdminEnabled e \<longleftrightarrow>
     provided_password (env_initial_password e) (env_system_password e) \<noteq> []
     \<or> js_trim (env_legacy_flag e) = ''1'' \<or> js_lower (js_trim (env_legacy_flag e)) = ''true''"

datatype startup = Continues | ContinuesWithAlarm | Exits

text \<open>The first two parts may fail without consequence; \<open>lock1\<close> and \<open>lock2\<close> are the two advisory locks.\<close>

definition ensureDefaultAdmin :: "bool \<Rightarrow> bool \<Rightarrow> startup_env \<Rightarrow> string \<Rightarrow> auth_db \<Rightarrow> auth_db \<times> startup" where
  "ensureDefaultAdmin lock1 lock2 e newHash db =
     (let db1 = fst (seedSetupCodeHash (env_code_hash e) db);
          db2 = (if legacyDefaultAdminEnabled e
                 then fst (ensureDefaultAdminBootstrap lock1 (env_initial_password e) (env_system_password e) newHash db1)
                 else db1);
          (db3, r) = ensureSystemAdminAccount lock2 db2
      in (db3, case r of
                 Inl _ \<Rightarrow> Exits
               | Inr x \<Rightarrow> (case x of ManualRequired _ \<Rightarrow> ContinuesWithAlarm | _ \<Rightarrow> Continues)))"

section \<open>User management\<close>

text \<open>Who calls: the numeric id and the role of the attached user, and whether it is the ingest token.\<close>

record caller =
  ca_id :: "nat option"
  ca_role :: "string option"
  ca_ingest :: bool

definition admin_only :: "caller \<Rightarrow> bool" where
  "admin_only c \<longleftrightarrow>
     requireRole [ADMIN] \<lparr>path = [], http_method = [], authVia = (if ca_ingest c then Some ''ingest'' else None),
                         user = Some (ca_role c)\<rparr> = Next"

text \<open>\<open>parseActionReason\<close>: at least three characters.\<close>

definition parseActionReason :: "string option \<Rightarrow> bool" where
  "parseActionReason reason = (3 \<le> length (js_trim (case reason of None \<Rightarrow> [] | Some r \<Rightarrow> r)))"

record new_user =
  nu_username :: string
  nu_password :: "string option"
  nu_first :: string
  nu_last :: string
  nu_role :: "string option"

definition create_user :: "string \<Rightarrow> caller \<Rightarrow> new_user \<Rightarrow> auth_db \<Rightarrow> auth_db \<times> outcome" where
  "create_user newHash c b db =
     (let name = js_trim (nu_username b); role = normalizeAppRole (nu_role b) in
      if \<not> admin_only c then (db, status_only 403)
      else if name = [] \<or> nu_password b = None \<or> nu_password b = Some [] then (db, status_only 400)
      else if role = None \<and> js_trim (case nu_role b of None \<Rightarrow> [] | Some r \<Rightarrow> r) \<noteq> [] then (db, status_only 400)
      else if by_username name db \<noteq> None then (db, status_only 409)
      else (db\<lparr>accounts := accounts db @
                 [\<lparr>acc_id = next_account db, username = name, password_hash = newHash, first_name = js_trim (nu_first b),
                   last_name = js_trim (nu_last b), acc_role = (case role of None \<Rightarrow> READONLY | Some r \<Rightarrow> r), is_active = True,
                   must_change_password = False, is_system_admin = False, acc_version = 1\<rparr>],
               next_account := Suc (next_account db)\<rparr>,
            status_only 201))"

text \<open>
  The body of an update: an absent field is \<open>None\<close>, and for role and password \<open>Some None\<close> is a null.
\<close>

record user_body =
  ub_first :: "string option"
  ub_last :: "string option"
  ub_username :: "string option"
  ub_role :: "string option option"
  ub_password :: "string option option"
  ub_reason :: "string option"

definition given :: "'a option \<Rightarrow> 'a \<Rightarrow> 'a" where
  "given v old = (case v of None \<Rightarrow> old | Some x \<Rightarrow> x)"

text \<open>What a read-only user may change of the own account.\<close>

definition update_own_names :: "caller \<Rightarrow> nat \<Rightarrow> user_body \<Rightarrow> auth_db \<Rightarrow> auth_db \<times> outcome" where
  "update_own_names c i b db =
     (if ca_id c \<noteq> Some i then (db, status_only 403)
      else if ub_role b \<noteq> None \<or> ub_password b \<noteq> None \<or> ub_username b \<noteq> None then (db, status_only 403)
      else if ub_first b = None \<and> ub_last b = None then (db, status_only 400)
      else if find_account i db = None then (db, status_only 404)
      else (update_account i (\<lambda>a. a\<lparr>first_name := given (map_option js_trim (ub_first b)) (first_name a),
                                    last_name := given (map_option js_trim (ub_last b)) (last_name a)\<rparr>) db,
            status_only 200))"

definition write_user :: "string \<Rightarrow> string option \<Rightarrow> string option \<Rightarrow> bool \<Rightarrow> user_body \<Rightarrow> account \<Rightarrow> account" where
  "write_user newHash name role passwordChanged b a =
     a\<lparr>username := given name (username a),
       password_hash := (if passwordChanged then newHash else password_hash a),
       first_name := given (map_option js_trim (ub_first b)) (first_name a),
       last_name := given (map_option js_trim (ub_last b)) (last_name a),
       acc_role := given role (acc_role a),
       must_change_password := (if passwordChanged then False else must_change_password a)\<rparr>"

definition new_name :: "user_body \<Rightarrow> string option" where
  "new_name b = map_option js_trim (ub_username b)"

definition role_text :: "user_body \<Rightarrow> string" where
  "role_text b = (case ub_role b of Some (Some t) \<Rightarrow> t | _ \<Rightarrow> [])"

definition next_role :: "user_body \<Rightarrow> string option" where
  "next_role b = normalizeAppRole (Some (role_text b))"

definition password_given :: "user_body \<Rightarrow> bool" where
  "password_given b = (case ub_password b of Some (Some p) \<Rightarrow> p \<noteq> [] | _ \<Rightarrow> False)"

text \<open>An empty name, an unknown role, or a change of the role without a reason.\<close>

definition bad_body :: "user_body \<Rightarrow> bool" where
  "bad_body b \<longleftrightarrow> new_name b = Some [] \<or> (next_role b = None \<and> js_trim (role_text b) \<noteq> [])
     \<or> (next_role b \<noteq> None \<and> \<not> parseActionReason (ub_reason b))"

definition renames :: "user_body \<Rightarrow> account \<Rightarrow> bool" where
  "renames b a \<longleftrightarrow> new_name b \<noteq> None \<and> new_name b \<noteq> Some (username a)"

definition update_guard :: "user_body \<Rightarrow> account \<times> nat \<Rightarrow> guard" where
  "update_guard b ctx =
     (let g = (if renames b (fst ctx) then evaluateProtectedMutation Rename (is_system_admin (fst ctx)) [] False 0 else Allowed)
      in if g \<noteq> Allowed then g
         else if next_role b \<noteq> None \<and> next_role b \<noteq> Some ADMIN then guard_of Demote ctx
         else Allowed)"

text \<open>\<open>PUT /api/users/:id\<close>; \<open>i\<close> is the account of the public id in the path.\<close>

definition update_user :: "string \<Rightarrow> caller \<Rightarrow> nat \<Rightarrow> user_body \<Rightarrow> auth_db \<Rightarrow> auth_db \<times> outcome" where
  "update_user newHash c i b db =
     (let role = (case normalizeAppRole (ca_role c) of None \<Rightarrow> ADMIN | Some r \<Rightarrow> r) in
      if role = READONLY then update_own_names c i b db
      else if role \<noteq> ADMIN then (db, status_only 403)
      else if bad_body b then (db, status_only 400)
      else case lockUserForMutation i db of
             None \<Rightarrow> (db, status_only 404)
           | Some ctx \<Rightarrow>
               if update_guard b ctx \<noteq> Allowed then (db, status_only (guard_status (update_guard b ctx)))
               else if renames b (fst ctx) \<and> by_username (given (new_name b) []) db \<noteq> None then (db, status_only 409)
               else (update_account i (write_user newHash (new_name b) (next_role b) (password_given b) b) db, status_only 200))"

definition normalizeUserStatus :: "string \<Rightarrow> bool option" where
  "normalizeUserStatus s =
     (let t = js_lower (js_trim s) in if t = ''active'' then Some True else if t = ''passive'' then Some False else None)"

definition set_status :: "int \<Rightarrow> caller \<Rightarrow> nat \<Rightarrow> string \<Rightarrow> string option \<Rightarrow> auth_db \<Rightarrow> auth_db \<times> outcome" where
  "set_status now c i statusText reason db =
     (if \<not> admin_only c then (db, status_only 403)
      else case normalizeUserStatus statusText of
        None \<Rightarrow> (db, status_only 400)
      | Some on \<Rightarrow>
          if \<not> parseActionReason reason then (db, status_only 400)
          else if \<not> on \<and> ca_id c = Some i then (db, status_only 403)
          else case lockUserForMutation i db of
                 None \<Rightarrow> (db, status_only 404)
               | Some ctx \<Rightarrow>
                   (let g = (if on then Allowed else guard_of Deactivate ctx) in
                    if g \<noteq> Allowed then (db, status_only (guard_status g))
                    else if on then (update_account i (\<lambda>a. a\<lparr>is_active := True\<rparr>) db, status_only 200)
                    else (bumpAuthVersion i (update_account i (\<lambda>a. a\<lparr>is_active := False\<rparr>) db)
                            \<lparr>sess := fst (revokeAllForUser now i ''user_disabled'' (sess db))\<rparr>,
                          status_only 200)))"

definition reset_password :: "int \<Rightarrow> string \<Rightarrow> caller \<Rightarrow> nat \<Rightarrow> auth_db \<Rightarrow> auth_db \<times> outcome" where
  "reset_password now newHash c i db =
     (if \<not> admin_only c then (db, status_only 403)
      else if ca_id c = Some i then (db, status_only 403)
      else case find_account i db of
             None \<Rightarrow> (db, status_only 404)
           | Some a \<Rightarrow>
               if \<not> is_active a then (db, status_only 409)
               else (bumpAuthVersion i (update_account i (\<lambda>a. a\<lparr>password_hash := newHash, must_change_password := True\<rparr>) db)
                       \<lparr>sess := fst (revokeAllForUser now i ''admin_password_reset'' (sess db))\<rparr>,
                     status_only 200))"

text \<open>The sessions of a user go with its row (\<open>ON DELETE CASCADE\<close>).\<close>

definition delete_user :: "caller \<Rightarrow> nat \<Rightarrow> auth_db \<Rightarrow> auth_db \<times> outcome" where
  "delete_user c i db =
     (if \<not> admin_only c then (db, status_only 403)
      else case lockUserForMutation i db of
             None \<Rightarrow> (db, status_only 404)
           | Some ctx \<Rightarrow>
               if guard_of DeleteUser ctx \<noteq> Allowed then (db, status_only (guard_status (guard_of DeleteUser ctx)))
               else (db\<lparr>accounts := filter (\<lambda>a. acc_id a \<noteq> i) (accounts db), sess := filter (\<lambda>s. user_id s \<noteq> i) (sess db)\<rparr>,
                     status_only 204))"

section \<open>Login, logout, refresh and the own password\<close>

text \<open>A login with a fresh session id and secret; a failing statement or signature ends in 401.\<close>

definition login ::
    "(string \<Rightarrow> string \<Rightarrow> bool) \<Rightarrow> (string \<Rightarrow> string) \<Rightarrow> session_config \<Rightarrow> int \<Rightarrow> string \<Rightarrow> string \<Rightarrow> string \<Rightarrow> string option
     \<Rightarrow> string option \<Rightarrow> auth_db \<Rightarrow> auth_db \<times> outcome" where
  "login compare digest cfg now sid secret email password ua db =
     (let loginId = js_trim email in
      case password of
        None \<Rightarrow> (db, status_only 401)
      | Some pw \<Rightarrow>
          if loginId = [] then (db, status_only 401)
          else case by_username loginId db of
                 None \<Rightarrow> (db, status_only 401)
               | Some u \<Rightarrow>
                   if \<not> compare pw (password_hash u) \<or> \<not> is_active u then (db, status_only 401)
                   else let av = version_or_1 (acc_version u);
                            (t, refresh) = createSession digest cfg now sid secret (acc_id u) av ua (sess db);
                            db' = db\<lparr>sess := t\<rparr>
                        in case signUserToken cfg now (token_for u av (Some sid)) of
                             Inl _ \<Rightarrow> (db', status_only 401)
                           | Inr tok \<Rightarrow> (db', \<lparr>out_status = 200, out_token = Some tok, out_refresh = Some refresh\<rparr>))"

text \<open>
  Logout of the attached user, or of the session of the refresh cookie when no user is attached.  The
  two statements may fail without notice: \<open>bumped\<close> and \<open>revoked\<close> say that they ran.
\<close>

definition logout :: "bool \<Rightarrow> bool \<Rightarrow> int \<Rightarrow> caller \<Rightarrow> string \<Rightarrow> auth_db \<Rightarrow> auth_db \<times> outcome" where
  "logout bumped revoked now c rawRefresh db =
     (case (if ca_ingest c then None else ca_id c) of
        Some u \<Rightarrow>
          let db1 = (if bumped then bumpAuthVersion u db else db)
          in (if revoked then db1\<lparr>sess := fst (revokeAllForUser now u ''logout'' (sess db1))\<rparr> else db1, status_only 204)
      | None \<Rightarrow>
          (case parseRefreshToken rawRefresh of
             None \<Rightarrow> (db, status_only 204)
           | Some (sid, _) \<Rightarrow>
               (if revoked then db\<lparr>sess := fst (revokeSession now sid ''logout'' (sess db))\<rparr> else db, status_only 204)))"

text \<open>\<open>None\<close>: the signature throws after the rotation, and the request gets no answer.\<close>

definition refresh_session ::
    "(string \<Rightarrow> string) \<Rightarrow> session_config \<Rightarrow> int \<Rightarrow> string \<Rightarrow> string option \<Rightarrow> string \<Rightarrow> auth_db \<Rightarrow> auth_db \<times> outcome option" where
  "refresh_session digest cfg now rawRefresh ua nextSecret db =
     (let raw = js_trim rawRefresh in
      if raw = [] then (db, Some (status_only 401))
      else let (t, r) = rotateRefresh digest (user_rows db) cfg now raw ua nextSecret (sess db);
               db' = db\<lparr>sess := t\<rparr>;
               answer = (\<lambda>sid uid av refresh.
                 case find_account uid db' of
                   None \<Rightarrow> Some (status_only 401)
                 | Some u \<Rightarrow>
                     (case signUserToken cfg now (token_for u av (Some sid)) of
                        Inl _ \<Rightarrow> None
                      | Inr tok \<Rightarrow> Some \<lparr>out_status = 200, out_token = Some tok, out_refresh = refresh\<rparr>))
           in (db', case r of
                      Rotated sid uid tok av \<Rightarrow> answer sid uid av (Some tok)
                    | WithinGrace sid uid av \<Rightarrow> answer sid uid av None
                    | _ \<Rightarrow> Some (status_only 401)))"

text \<open>A failing revocation is ignored here too.\<close>

definition change_password ::
    "(string \<Rightarrow> string \<Rightarrow> bool) \<Rightarrow> string \<Rightarrow> (string \<Rightarrow> string) \<Rightarrow> session_config \<Rightarrow> bool \<Rightarrow> int \<Rightarrow> string \<Rightarrow> string \<Rightarrow> caller
     \<Rightarrow> string option \<Rightarrow> string option \<Rightarrow> string option \<Rightarrow> auth_db \<Rightarrow> auth_db \<times> outcome" where
  "change_password compare newHash digest cfg revoked now sid secret c currentPassword newPassword ua db =
     (case ca_id c of
        None \<Rightarrow> (db, status_only 401)
      | Some uid \<Rightarrow>
          (case (currentPassword, newPassword) of
             (Some cur, Some new) \<Rightarrow>
               if cur = [] \<or> new = [] \<or> new = cur then (db, status_only 400)
               else (case find_account uid db of
                       None \<Rightarrow> (db, status_only 401)
                     | Some u \<Rightarrow>
                         if \<not> compare cur (password_hash u) then (db, status_only 401)
                         else let db1 = bumpAuthVersion uid
                                          (update_account uid (\<lambda>a. a\<lparr>password_hash := newHash, must_change_password := False\<rparr>) db);
                                  av = version_or_1 (acc_version u + 1);
                                  db2 = (if revoked then db1\<lparr>sess := fst (revokeAllForUser now uid ''password_change'' (sess db1))\<rparr>
                                         else db1);
                                  (t, refresh) = createSession digest cfg now sid secret uid av ua (sess db2);
                                  db3 = db2\<lparr>sess := t\<rparr>
                              in (case signUserToken cfg now (token_for u av (Some sid)) of
                                    Inl _ \<Rightarrow> (db3, status_only 500)
                                  | Inr tok \<Rightarrow> (db3, \<lparr>out_status = 200, out_token = Some tok, out_refresh = Some refresh\<rparr>)))
           | _ \<Rightarrow> (db, status_only 400)))"

section \<open>Every operation as a step\<close>

record auth_world =
  o_compare :: "string \<Rightarrow> string \<Rightarrow> bool"
  o_digest :: "string \<Rightarrow> string"
  o_sha :: "string \<Rightarrow> string"
  o_zones :: "string \<Rightarrow> bool"
  o_cfg :: session_config

datatype auth_op =
    Setup string setup_input
  | Seed string
  | Bootstrap bool string string string
  | Reconcile bool
  | Provision string string
  | CreateUser string caller new_user
  | UpdateUser string caller nat user_body
  | SetStatus caller nat string "string option"
  | ResetPassword string caller nat
  | RemoveUser caller nat
  | LogIn string string string "string option" "string option"
  | LogOut bool bool caller string
  | RefreshToken string "string option" string
  | ChangePassword string bool string string caller "string option" "string option" "string option"
  | Activity string
  | CleanupOld "nat option"

text \<open>The tables after an operation and the token it has set.\<close>

fun auth_exec :: "auth_world \<Rightarrow> int \<Rightarrow> auth_op \<Rightarrow> auth_db \<Rightarrow> auth_db \<times> claims option" where
  "auth_exec w now (Setup newHash inp) db = (fst (completeFirstRunSetup (o_sha w) (o_zones w) now newHash inp db), None)"
| "auth_exec w now (Seed envHash) db = (fst (seedSetupCodeHash envHash db), None)"
| "auth_exec w now (Bootstrap acquired initialPw systemPw newHash) db =
     (fst (ensureDefaultAdminBootstrap acquired initialPw systemPw newHash db), None)"
| "auth_exec w now (Reconcile acquired) db = (fst (ensureSystemAdminAccount acquired db), None)"
| "auth_exec w now (Provision password newHash) db = (fst (provisionSystemAdmin password newHash db), None)"
| "auth_exec w now (CreateUser newHash c b) db = (fst (create_user newHash c b db), None)"
| "auth_exec w now (UpdateUser newHash c i b) db = (fst (update_user newHash c i b db), None)"
| "auth_exec w now (SetStatus c i st reason) db = (fst (set_status now c i st reason db), None)"
| "auth_exec w now (ResetPassword newHash c i) db = (fst (reset_password now newHash c i db), None)"
| "auth_exec w now (RemoveUser c i) db = (fst (delete_user c i db), None)"
| "auth_exec w now (LogIn sid secret email password ua) db =
     (let (db', r) = login (o_compare w) (o_digest w) (o_cfg w) now sid secret email password ua db in (db', out_token r))"
| "auth_exec w now (LogOut bumped revoked c raw) db = (fst (logout bumped revoked now c raw db), None)"
| "auth_exec w now (RefreshToken raw ua nextSecret) db =
     (let (db', r) = refresh_session (o_digest w) (o_cfg w) now raw ua nextSecret db in (db', Option.bind r out_token))"
| "auth_exec w now (ChangePassword newHash revoked sid secret c cur new ua) db =
     (let (db', r) = change_password (o_compare w) newHash (o_digest w) (o_cfg w) revoked now sid secret c cur new ua db
      in (db', out_token r))"
| "auth_exec w now (Activity sid) db = (db\<lparr>sess := fst (touchActivity (o_cfg w) now sid (sess db))\<rparr>, None)"
| "auth_exec w now (CleanupOld batch) db = (db\<lparr>sess := fst (cleanupSessions (o_cfg w) now batch (sess db))\<rparr>, None)"

text \<open>The tables with every token set so far.\<close>

type_synonym auth_system = "auth_db \<times> claims list"

definition tokens_after :: "claims option \<Rightarrow> claims list \<Rightarrow> claims list" where
  "tokens_after new toks = (case new of None \<Rightarrow> toks | Some c \<Rightarrow> c # toks)"

inductive auth_step :: "auth_world \<Rightarrow> auth_system \<Rightarrow> auth_system \<Rightarrow> bool" for w where
  step: "auth_step w (db, toks) (fst (auth_exec w now op db), tokens_after (snd (auth_exec w now op db)) toks)"

definition empty_db :: auth_db where
  "empty_db = \<lparr>accounts = [], next_account = 1, sess = [], settings_row = None\<rparr>"

end
