(* ===== verification/AccountsFacts.thy ===== *)
theory AccountsFacts
  imports Accounts
begin

text \<open>
  What the operations of \<open>Accounts\<close> keep: ids are never reused, versions never go back, a token is bound
  to the version it was signed with, the protected administrator stays, and setup succeeds once.
\<close>

section \<open>What an operation does to the accounts\<close>

definition ids_ok :: "auth_db \<Rightarrow> bool" where
  "ids_ok db \<longleftrightarrow> distinct (map acc_id (accounts db)) \<and> (\<forall>a\<in>set (accounts db). acc_id a < next_account db)"

lemma find_account_Some: "find_account i db = Some a \<Longrightarrow> a \<in> set (accounts db) \<and> acc_id a = i"
  by (auto simp: find_account_def find_Some_iff)

lemma find_account_iff:
  assumes "ids_ok db"
  shows "find_account i db = Some a \<longleftrightarrow> a \<in> set (accounts db) \<and> acc_id a = i"
proof
  assume a: "a \<in> set (accounts db) \<and> acc_id a = i"
  then obtain b where b: "find_account i db = Some b"
    by (cases "find_account i db") (auto simp: find_account_def find_None_iff)
  then have "b = a" using a assms find_account_Some [OF b] by (auto simp: ids_ok_def distinct_map inj_on_def)
  then show "find_account i db = Some a" using b by simp
qed (rule find_account_Some)

text \<open>
  An edit keeps the identity and the protection of an account and never lowers its version; it protects
  an account when none is protected.
\<close>

definition fair_edit :: "auth_db \<Rightarrow> account \<Rightarrow> account \<Rightarrow> bool" where
  "fair_edit db a b \<longleftrightarrow>
     acc_id b = acc_id a \<and> acc_version a \<le> acc_version b
     \<and> (is_system_admin a \<longrightarrow> is_system_admin b \<and> username b = username a \<and> (acc_role a = ADMIN \<longrightarrow> acc_role b = ADMIN)
          \<and> (active_admin a \<longrightarrow> active_admin b))
     \<and> (is_system_admin b \<and> \<not> is_system_admin a \<longrightarrow> acc_role b = ADMIN \<and> (\<forall>c\<in>set (accounts db). \<not> is_system_admin c))
     \<and> (active_admin a \<and> \<not> active_admin b \<longrightarrow> (\<exists>c\<in>set (accounts db). acc_id c \<noteq> acc_id a \<and> active_admin c))"

inductive account_change :: "auth_db \<Rightarrow> auth_db \<Rightarrow> bool" where
  same: "\<lbrakk>accounts db' = accounts db; next_account db' = next_account db\<rbrakk> \<Longrightarrow> account_change db db'"
| new: "\<lbrakk>accounts db' = accounts db @ [a]; acc_id a = next_account db; next_account db' = Suc (next_account db);
         acc_version a = 1; is_system_admin a \<Longrightarrow> active_admin a \<and> (\<forall>c\<in>set (accounts db). \<not> is_system_admin c)\<rbrakk> \<Longrightarrow> account_change db db'"
| edit: "\<lbrakk>accounts db' = map (\<lambda>a. if acc_id a = i then f a else a) (accounts db); next_account db' = next_account db;
          \<And>a. a \<in> set (accounts db) \<Longrightarrow> acc_id a = i \<Longrightarrow> fair_edit db a (f a)\<rbrakk> \<Longrightarrow> account_change db db'"
| gone: "\<lbrakk>accounts db' = filter (\<lambda>a. acc_id a \<noteq> i) (accounts db); next_account db' = next_account db;
          \<And>a. a \<in> set (accounts db) \<Longrightarrow> acc_id a = i \<Longrightarrow> \<not> is_system_admin a
               \<and> (active_admin a \<longrightarrow> (\<exists>c\<in>set (accounts db). acc_id c \<noteq> i \<and> active_admin c))\<rbrakk> \<Longrightarrow> account_change db db'"

lemma active_admin_update [simp]:
  "active_admin (a\<lparr>acc_version := v\<rparr>) = active_admin a" "active_admin (a\<lparr>password_hash := h\<rparr>) = active_admin a"
  "active_admin (a\<lparr>must_change_password := m\<rparr>) = active_admin a" "active_admin (a\<lparr>first_name := n\<rparr>) = active_admin a"
  "active_admin (a\<lparr>last_name := n\<rparr>) = active_admin a" "active_admin (a\<lparr>username := n\<rparr>) = active_admin a"
  "active_admin (a\<lparr>is_active := True\<rparr>) \<longleftrightarrow> acc_role a = ADMIN" "\<not> active_admin (a\<lparr>is_active := False\<rparr>)"
  "active_admin (a\<lparr>acc_role := r\<rparr>) \<longleftrightarrow> r = ADMIN \<and> is_active a"
  by (simp_all add: active_admin_def)

lemma update_account_fields [simp]:
  "accounts (update_account i f db) = map (\<lambda>a. if acc_id a = i then f a else a) (accounts db)"
  "next_account (update_account i f db) = next_account db" "sess (update_account i f db) = sess db"
  "settings_row (update_account i f db) = settings_row db"
  by (simp_all add: update_account_def)

lemma bump_fields [simp]:
  "accounts (bumpAuthVersion i db) = map (\<lambda>a. if acc_id a = i then a\<lparr>acc_version := acc_version a + 1\<rparr> else a) (accounts db)"
  "next_account (bumpAuthVersion i db) = next_account db" "sess (bumpAuthVersion i db) = sess db"
  "settings_row (bumpAuthVersion i db) = settings_row db"
  by (simp_all add: bumpAuthVersion_def)

lemma change_update:
  assumes "\<And>a. a \<in> set (accounts db) \<Longrightarrow> acc_id a = i \<Longrightarrow> fair_edit db a (f a)"
  shows "account_change db (update_account i f db)" "account_change db ((update_account i f db)\<lparr>sess := t\<rparr>)"
  using assms by (auto intro!: account_change.edit [where i = i and f = f])

lemma change_bump_update:
  assumes "\<And>a. a \<in> set (accounts db) \<Longrightarrow> acc_id a = i \<Longrightarrow> fair_edit db a ((f a)\<lparr>acc_version := acc_version (f a) + 1\<rparr>)"
    and "\<And>a. acc_id (f a) = acc_id a"
  shows "account_change db (bumpAuthVersion i (update_account i f db))"
    "account_change db ((bumpAuthVersion i (update_account i f db))\<lparr>sess := t\<rparr>)"
  using assms by (auto intro!: account_change.edit [where i = i and f = "\<lambda>a. (f a)\<lparr>acc_version := acc_version (f a) + 1\<rparr>"])

lemma change_bump: "account_change db (bumpAuthVersion i db)" "account_change db ((bumpAuthVersion i db)\<lparr>sess := t\<rparr>)"
  by (rule account_change.edit [where i = i and f = "\<lambda>a. a\<lparr>acc_version := acc_version a + 1\<rparr>"];
      simp add: fair_edit_def)+

lemma change_sess [simp]: "account_change db (db\<lparr>sess := t\<rparr>)" "account_change db db"
  by (auto intro: account_change.same)

lemma guard_allows:
  assumes "lockUserForMutation i db = Some ctx" "guard_of op ctx = Allowed" "op \<noteq> Rename" "ids_ok db"
    and "a \<in> set (accounts db)" "acc_id a = i"
  shows "\<not> is_system_admin a" "active_admin a \<Longrightarrow> \<exists>c\<in>set (accounts db). acc_id c \<noteq> i \<and> active_admin c"
proof -
  have f: "find_account i db = Some a" using assms(4-6) by (simp add: find_account_iff)
  then have ctx: "ctx = (a, length (filter (\<lambda>b. active_admin b \<and> acc_id b \<noteq> i) (accounts db)))"
    using assms(1) by (simp add: lockUserForMutation_def)
  have op: "strips_active_admin op" using assms(3) by (cases op) simp_all
  show "\<not> is_system_admin a" "active_admin a \<Longrightarrow> \<exists>c\<in>set (accounts db). acc_id c \<noteq> i \<and> active_admin c"
    using assms(2) op
    by (auto simp: guard_of_def evaluateProtectedMutation_def ctx active_admin_def filter_empty_conv split: if_splits)
qed

lemma seed_change: "account_change db (fst (seedSetupCodeHash envHash db))"
  by (auto simp: seedSetupCodeHash_def ensure_settings_def Let_def split: option.splits intro: account_change.same)

lemma setup_change: "account_change db (fst (completeFirstRunSetup sha zones now newHash inp db))"
  by (auto simp: completeFirstRunSetup_def ensure_settings_def Let_def active_admin_def split: sum.splits option.splits
      intro: account_change.same intro!: account_change.new)

lemma ensure_settings_fields [simp]:
  "accounts (ensure_settings db) = accounts db" "next_account (ensure_settings db) = next_account db" "sess (ensure_settings db) = sess db"
  by (simp_all add: ensure_settings_def split: option.split)

lemma bootstrap_keeps:
  "accounts db \<noteq> [] \<Longrightarrow> accounts (fst (ensureDefaultAdminBootstrap acquired initialPw systemPw newHash db)) = accounts db
     \<and> next_account (fst (ensureDefaultAdminBootstrap acquired initialPw systemPw newHash db)) = next_account db"
  by (simp add: ensureDefaultAdminBootstrap_def Let_def)

lemma bootstrap_change: "account_change db (fst (ensureDefaultAdminBootstrap acquired initialPw systemPw newHash db))"
proof (cases "accounts db = []")
  case True
  then show ?thesis
    by (cases "resolveBootstrapAdminPassword initialPw systemPw")
      (auto simp: ensureDefaultAdminBootstrap_def Let_def intro: account_change.same account_change.new)
qed (simp add: account_change.same bootstrap_keeps)

lemma namesake_Some: "admin_namesake db = Some a \<Longrightarrow> a \<in> set (accounts db) \<and> js_lower (username a) = js_lower DEFAULT_ADMIN_EMAIL"
  by (auto simp: admin_namesake_def find_Some_iff)

lemma no_other_system_admin:
  assumes "\<not> other_system_admin i db" "c \<in> set (accounts db)" "is_system_admin c"
  shows "acc_id c = i"
  using assms by (auto simp: other_system_admin_def list_ex_iff)

lemma protecting_edit:
  assumes "admin_namesake db = Some a" "\<not> other_system_admin (acc_id a) db" "ids_ok db"
    and "\<And>x. x \<in> set (accounts db) \<Longrightarrow> acc_id x = acc_id a \<Longrightarrow> x = a"
    and "is_system_admin (f a)" "acc_role (f a) = ADMIN" "acc_id (f a) = acc_id a" "acc_version (f a) = acc_version a"
      "username (f a) = username a" "is_active (f a) = is_active a"
  shows "account_change db (update_account (acc_id a) f db)"
proof (rule change_update(1))
  fix x assume x: "x \<in> set (accounts db)" "acc_id x = acc_id a"
  then have "x = a" by (rule assms(4))
  moreover have "\<forall>c\<in>set (accounts db). \<not> is_system_admin c" if "\<not> is_system_admin a"
    using no_other_system_admin [OF assms(2)] assms(4) that by blast
  ultimately show "fair_edit db x (f x)" using assms(5-10) by (auto simp: fair_edit_def active_admin_def)
qed

lemma same_id: "ids_ok db \<Longrightarrow> a \<in> set (accounts db) \<Longrightarrow> b \<in> set (accounts db) \<Longrightarrow> acc_id a = acc_id b \<Longrightarrow> a = b"
  by (auto simp: ids_ok_def distinct_map inj_on_def)

lemma reconcile_change: "ids_ok db \<Longrightarrow> account_change db (fst (ensureSystemAdminAccount acquired db))"
proof (cases "admin_namesake db")
  case (Some a)
  assume ids: "ids_ok db"
  note a = namesake_Some [OF Some]
  have "account_change db (update_account (acc_id a) (\<lambda>a. a\<lparr>is_system_admin := True\<rparr>) db)"
    if "acc_role a = ADMIN" "\<not> other_system_admin (acc_id a) db"
    using that a by (intro protecting_edit [OF Some _ ids same_id [OF ids]]) auto
  moreover have "account_change db (update_account (acc_id a) (\<lambda>a. a\<lparr>acc_role := ADMIN\<rparr>) db)" if "is_system_admin a"
    using that a by (intro change_update(1)) (auto simp: fair_edit_def active_admin_def dest: same_id [OF ids])
  ultimately show ?thesis using Some by (simp add: ensureSystemAdminAccount_def)
qed (simp add: ensureSystemAdminAccount_def)

lemma provision_change: "ids_ok db \<Longrightarrow> account_change db (fst (provisionSystemAdmin password newHash db))"
proof (cases "admin_namesake db")
  case (Some a)
  assume ids: "ids_ok db"
  note a = namesake_Some [OF Some]
  have "account_change db (update_account (acc_id a) (\<lambda>a. a\<lparr>is_system_admin := True, acc_role := ADMIN\<rparr>) db)"
    if "\<not> other_system_admin (acc_id a) db"
    using that a by (intro protecting_edit [OF Some _ ids same_id [OF ids]]) auto
  then show ?thesis using Some by (simp add: provisionSystemAdmin_def)
next
  case None
  then show ?thesis
    by (auto simp: provisionSystemAdmin_def list_ex_iff active_admin_def intro!: account_change.new)
qed

lemma create_user_change: "account_change db (fst (create_user newHash c b db))"
  by (auto simp: create_user_def Let_def intro!: account_change.new)

lemma fair_edit_names: "fair_edit db a (a\<lparr>first_name := x, last_name := y\<rparr>)"
  by (simp add: fair_edit_def)

lemma own_names_change: "account_change db (fst (update_own_names c i b db))"
  by (auto simp: update_own_names_def intro!: change_update fair_edit_names)

lemma guard_status_200 [simp]: "guard_status g = 200 \<longleftrightarrow> g = Allowed"
  by (cases g) (simp_all add: guard_status_def)

lemma update_guard_allows:
  assumes "update_guard b ctx = Allowed"
  shows "is_system_admin (fst ctx) \<Longrightarrow> \<not> renames b (fst ctx)"
    and "next_role b \<noteq> None \<Longrightarrow> next_role b \<noteq> Some ADMIN \<Longrightarrow> guard_of Demote ctx = Allowed"
  using assms by (auto simp: update_guard_def evaluateProtectedMutation_def Let_def split: if_splits)

lemma update_user_cases:
  obtains (own) "update_user newHash c i b db = update_own_names c i b db"
  | (refused) n where "update_user newHash c i b db = (db, status_only n)" "n \<noteq> 200"
  | (wrote) ctx where
      "update_user newHash c i b db = (update_account i (write_user newHash (new_name b) (next_role b) (password_given b) b) db, status_only 200)"
      "lockUserForMutation i db = Some ctx" "update_guard b ctx = Allowed"
proof -
  define role where "role = (case normalizeAppRole (ca_role c) of None \<Rightarrow> ADMIN | Some r \<Rightarrow> r)"
  show ?thesis
  proof (cases "role = READONLY")
    case True
    then show ?thesis by (intro that(1)) (simp add: update_user_def role_def)
  next
    case r: False
    show ?thesis
    proof (cases "role \<noteq> ADMIN \<or> bad_body b")
      case True
      then have "update_user newHash c i b db = (db, status_only (if role \<noteq> ADMIN then 403 else 400))"
        using r by (simp add: update_user_def role_def)
      then show ?thesis by (rule that(2)) simp
    next
      case False
      note u = update_user_def [of newHash c i b db, folded role_def]
      show ?thesis
      proof (cases "lockUserForMutation i db")
        case None
        then show ?thesis using r False u by (intro that(2) [of 404]) simp_all
      next
        case (Some ctx)
        show ?thesis
        proof (cases "update_guard b ctx = Allowed \<and> \<not> (renames b (fst ctx) \<and> by_username (given (new_name b) []) db \<noteq> None)")
          case True
          then show ?thesis using r False u Some by (intro that(3)) auto
        next
          case no: False
          then show ?thesis using r False u Some
            by (intro that(2) [of "if update_guard b ctx \<noteq> Allowed then guard_status (update_guard b ctx) else 409"]) simp_all
        qed
      qed
    qed
  qed
qed


lemma update_user_change: "ids_ok db \<Longrightarrow> account_change db (fst (update_user newHash c i b db))"
proof (cases rule: update_user_cases [of newHash c i b db])
  case (wrote ctx)
  assume ids: "ids_ok db"
  have "fair_edit db a (write_user newHash (new_name b) (next_role b) (password_given b) b a)"
    if a: "a \<in> set (accounts db)" "acc_id a = i" for a
  proof -
    have "find_account i db = Some a" using a ids by (simp add: find_account_iff)
    then have ctx: "fst ctx = a" using wrote(2) by (auto simp: lockUserForMutation_def)
    note g = guard_allows [OF wrote(2) _ _ ids a, of Demote] and u = update_guard_allows [OF wrote(3), unfolded ctx]
    have name: "given (new_name b) (username a) = username a" if "is_system_admin a"
      using u(1) [OF that] by (auto simp: renames_def given_def)
    have role: "next_role b = None \<or> next_role b = Some ADMIN \<or> guard_of Demote ctx = Allowed"
      using u(2) by blast
    then have "given (next_role b) (acc_role a) = ADMIN \<or> guard_of Demote ctx = Allowed" if "acc_role a = ADMIN"
      using that by (auto simp: given_def)
    then show ?thesis using name g a
      by (auto simp: fair_edit_def write_user_def active_admin_def)
  qed
  then show ?thesis using wrote(1) by (simp add: change_update)
qed (simp_all add: own_names_change)

lemma set_status_change: "ids_ok db \<Longrightarrow> account_change db (fst (set_status now c i st reason db))"
proof -
  assume ids: "ids_ok db"
  have "account_change db (fst (case lockUserForMutation i db of
                 None \<Rightarrow> (db, status_only 404)
               | Some ctx \<Rightarrow>
                   (let g = (if on then Allowed else guard_of Deactivate ctx) in
                    if g \<noteq> Allowed then (db, status_only (guard_status g))
                    else if on then (update_account i (\<lambda>a. a\<lparr>is_active := True\<rparr>) db, status_only 200)
                    else (bumpAuthVersion i (update_account i (\<lambda>a. a\<lparr>is_active := False\<rparr>) db)
                            \<lparr>sess := fst (revokeAllForUser now i ''user_disabled'' (sess db))\<rparr>,
                          status_only 200))))" for on
  proof (cases "lockUserForMutation i db")
    case (Some ctx)
    have off: "account_change db (bumpAuthVersion i (update_account i (\<lambda>a. a\<lparr>is_active := False\<rparr>) db)\<lparr>sess := t\<rparr>)"
      if "guard_of Deactivate ctx = Allowed" for t
      using guard_allows [OF Some that _ ids] by (intro change_bump_update) (auto simp: fair_edit_def)
    have on': "account_change db (update_account i (\<lambda>a. a\<lparr>is_active := True\<rparr>) db)"
      by (intro change_update) (auto simp: fair_edit_def active_admin_def)
    show ?thesis using off on' Some by (simp add: Let_def)
  qed simp
  then show ?thesis by (simp add: set_status_def split: option.split)
qed

lemma reset_password_change: "account_change db (fst (reset_password now newHash c i db))"
  by (auto simp: reset_password_def fair_edit_def split: option.split intro!: change_bump_update)

lemma delete_user_change: "ids_ok db \<Longrightarrow> account_change db (fst (delete_user c i db))"
proof (cases "lockUserForMutation i db")
  case (Some ctx)
  assume ids: "ids_ok db"
  show ?thesis
  proof (cases "guard_of DeleteUser ctx = Allowed")
    case True
    then have "account_change db (db\<lparr>accounts := filter (\<lambda>a. acc_id a \<noteq> i) (accounts db), sess := t\<rparr>)" for t
      using guard_allows [OF Some True _ ids] by (intro account_change.gone [where i = i]) auto
    then show ?thesis using Some True by (simp add: delete_user_def)
  qed (simp add: delete_user_def Some)
qed (simp add: delete_user_def)

lemma logout_change: "account_change db (fst (logout bumped revoked now c raw db))"
  by (auto simp: logout_def Let_def change_bump split: option.split prod.split)

lemma login_change: "account_change db (fst (login compare digest cfg now sid secret email password ua db))"
  by (auto simp: login_def Let_def split: option.split prod.split sum.split)

lemma refresh_change: "account_change db (fst (refresh_session digest cfg now raw ua nextSecret db))"
  by (auto simp: refresh_session_def Let_def split: prod.split)

lemma change_password_change:
  "account_change db (fst (change_password compare newHash digest cfg revoked now sid secret c cur new ua db))"
proof -
  have "account_change db (bumpAuthVersion i (update_account i (\<lambda>a. a\<lparr>password_hash := newHash, must_change_password := False\<rparr>) db)\<lparr>sess := t\<rparr>)"
    for i t by (intro change_bump_update) (auto simp: fair_edit_def)
  then show ?thesis by (auto simp: change_password_def Let_def split: option.split prod.split sum.split)
qed

lemma exec_change: "ids_ok db \<Longrightarrow> account_change db (fst (auth_exec w now op db))"
  by (cases op) (auto simp: setup_change seed_change bootstrap_change reconcile_change provision_change create_user_change update_user_change set_status_change
      reset_password_change delete_user_change split_beta login_change logout_change refresh_change change_password_change)

section \<open>What every operation keeps\<close>

lemma ids_ok_alt: "ids_ok db \<longleftrightarrow> distinct (map acc_id (accounts db)) \<and> (\<forall>x\<in>set (map acc_id (accounts db)). x < next_account db)"
  by (simp add: ids_ok_def)

lemma change_ids: "account_change db db' \<Longrightarrow> ids_ok db \<Longrightarrow> ids_ok db' \<and> next_account db \<le> next_account db'"
proof (induction rule: account_change.induct)
  case (new db' db a)
  then show ?case by (auto simp: ids_ok_def)
next
  case (edit db' i f db)
  have "map acc_id (accounts db') = map acc_id (accounts db)"
    using edit(1,3) by (auto simp: fair_edit_def)
  then show ?case using edit(2,4) by (simp only: ids_ok_alt) simp
next
  case (gone db' i db)
  then show ?case by (auto simp: ids_ok_def distinct_map inj_on_def)
qed (simp add: ids_ok_def)

text \<open>Every account of the new table is new or an edit of an old one.\<close>

lemma change_origin:
  assumes "account_change db db'" "b \<in> set (accounts db')"
  shows "(acc_id b = next_account db \<and> acc_version b = 1 \<and> (is_system_admin b \<longrightarrow> active_admin b \<and> (\<forall>c\<in>set (accounts db). \<not> is_system_admin c)))
    \<or> (\<exists>a\<in>set (accounts db). b = a \<or> fair_edit db a b)"
  using assms by (induction rule: account_change.induct) auto

text \<open>An account that is no longer there was not the last active administrator, nor the protected one.\<close>

lemma change_fate:
  assumes "account_change db db'" "a \<in> set (accounts db)"
  shows "(\<exists>b\<in>set (accounts db'). b = a \<or> fair_edit db a b)
    \<or> (\<not> is_system_admin a \<and> (active_admin a \<longrightarrow> (\<exists>c\<in>set (accounts db). acc_id c \<noteq> acc_id a \<and> active_admin c \<and> c \<in> set (accounts db'))))"
  using assms
proof (induction rule: account_change.induct)
  case (edit db' i f db)
  then show ?case by (cases "acc_id a = i") (auto simp: image_iff)
next
  case (gone db' i db)
  then show ?case by (cases "acc_id a = i") auto
qed auto

lemma change_keeps_admin:
  assumes "account_change db db'" "ids_ok db" "\<exists>a\<in>set (accounts db). active_admin a"
  shows "\<exists>a\<in>set (accounts db'). active_admin a"
  using assms
proof (induction rule: account_change.induct)
  case (edit db' i f db)
  then obtain a where a: "a \<in> set (accounts db)" "active_admin a" by auto
  have in': "(if acc_id c = i then f c else c) \<in> set (accounts db')" if "c \<in> set (accounts db)" for c
    using that edit(1) by auto
  show ?case
  proof (cases "acc_id a = i \<and> \<not> active_admin (f a)")
    case True
    then obtain c where "c \<in> set (accounts db)" "acc_id c \<noteq> i" "active_admin c"
      using edit(3) [OF a(1)] a(2) by (auto simp: fair_edit_def)
    then show ?thesis using in' [of c] by auto
  next
    case False
    then show ?thesis using in' [OF a(1)] a(2) by (auto split: if_splits)
  qed
next
  case (gone db' i db)
  then obtain a where a: "a \<in> set (accounts db)" "active_admin a" by auto
  then obtain c where "c \<in> set (accounts db)" "acc_id c \<noteq> i" "active_admin c"
    using gone(3) [OF a(1)] by (cases "acc_id a = i") auto
  then show ?case using gone(1) by auto
qed auto

section \<open>Tokens and versions\<close>

lemma sign_token_for:
  assumes "signUserToken cfg now (token_for a av sid) = Inr c"
  shows "cl_user c = Some (acc_id a)" "cl_av c = Some av" "cl_role c = normalizeAppRole (Some (acc_role a))"
  using assms by (auto simp: signUserToken_def token_for_def Let_def split: option.splits if_splits)

lemmas sign_token_both = conjI [OF sign_token_for(1,2)]

lemma rotated_version:
  assumes "rotateRefresh digest users cfg now raw ua nextSecret t = (t', r)"
  shows "r = Rotated sid uid tok av \<Longrightarrow> \<exists>u. users uid = Some u \<and> av = auth_version u"
    and "r = WithinGrace sid uid av \<Longrightarrow> \<exists>u. users uid = Some u \<and> av = auth_version u"
  using assms by (auto simp: rotateRefresh_def Let_def split: option.splits prod.splits if_splits)

definition versions_ok :: "auth_db \<Rightarrow> bool" where
  "versions_ok db \<longleftrightarrow> (\<forall>a\<in>set (accounts db). 1 \<le> acc_version a)"

lemma version_or_1_pos [simp]: "1 \<le> v \<Longrightarrow> version_or_1 v = v"
  by (simp add: version_or_1_def)

text \<open>A token that an operation sets carries the version its account has after the operation.\<close>

definition current_token :: "auth_db \<Rightarrow> claims \<Rightarrow> bool" where
  "current_token db c \<longleftrightarrow> (\<exists>a\<in>set (accounts db). cl_user c = Some (acc_id a) \<and> cl_av c = Some (acc_version a))"

lemma by_username_Some: "by_username n db = Some a \<Longrightarrow> a \<in> set (accounts db) \<and> username a = n"
  by (auto simp: by_username_def find_Some_iff)

lemma login_accounts: "accounts (fst (login compare digest cfg now sid secret email password ua db)) = accounts db"
  by (auto simp: login_def Let_def split: option.split prod.split sum.split)

lemma login_signs:
  assumes "out_token (snd (login compare digest cfg now sid secret email password ua db)) = Some c"
  obtains u where "u \<in> set (accounts db)" "signUserToken cfg now (token_for u (version_or_1 (acc_version u)) (Some sid)) = Inr c"
  using assms that
  by (auto simp: login_def status_only_def Let_def split: option.splits if_splits prod.splits sum.splits dest!: by_username_Some)

lemma login_token:
  assumes "out_token (snd (login compare digest cfg now sid secret email password ua db)) = Some c" "versions_ok db"
  shows "current_token (fst (login compare digest cfg now sid secret email password ua db)) c"
proof -
  obtain u where u: "u \<in> set (accounts db)" "signUserToken cfg now (token_for u (version_or_1 (acc_version u)) (Some sid)) = Inr c"
    using login_signs [OF assms(1)] .
  then have "version_or_1 (acc_version u) = acc_version u" using assms(2) by (simp add: versions_ok_def)
  then show ?thesis using u(1) sign_token_for [OF u(2)] by (auto simp: current_token_def login_accounts)
qed

lemma refresh_token:
  assumes "Option.bind (snd (refresh_session digest cfg now raw ua nextSecret db)) out_token = Some c" "ids_ok db"
  shows "current_token (fst (refresh_session digest cfg now raw ua nextSecret db)) c"
proof -
  obtain t r where rot: "rotateRefresh digest (user_rows db) cfg now (js_trim raw) ua nextSecret (sess db) = (t, r)" by fastforce
  have cur: "current_token (db\<lparr>sess := t\<rparr>) c"
    if "user_rows db uid = Some u" "find_account uid (db\<lparr>sess := t\<rparr>) = Some a"
      "signUserToken cfg now (token_for a (auth_version u) (Some sid)) = Inr c" for uid u a sid
  proof -
    have "find_account uid db = Some a" using that(2) by (simp add: find_account_def)
    then show ?thesis using that(1) sign_token_for [OF that(3)] find_account_Some [of uid db a]
      by (auto simp: user_rows_def current_token_def intro!: bexI [of _ a])
  qed
  show ?thesis
  proof (cases r)
    case (Rotated sid uid tok av)
    then show ?thesis using assms(1) rot rotated_version(1) [OF rot, of sid uid tok av] cur
      by (auto simp: refresh_session_def status_only_def Let_def split: option.splits if_splits sum.splits)
  next
    case (WithinGrace sid uid av)
    then show ?thesis using assms(1) rot rotated_version(2) [OF rot, of sid uid av] cur
      by (auto simp: refresh_session_def status_only_def Let_def split: option.splits if_splits sum.splits)
  qed (use assms(1) rot in \<open>auto simp: refresh_session_def status_only_def Let_def split: if_splits\<close>)
qed

lemma bumped_member:
  assumes "u \<in> set (accounts db)" "acc_id (f u) = acc_id u"
  shows "(f u)\<lparr>acc_version := acc_version (f u) + 1\<rparr> \<in> set (accounts (bumpAuthVersion (acc_id u) (update_account (acc_id u) f db)))"
proof -
  have "f u \<in> set (accounts (update_account (acc_id u) f db))"
    using assms(1) by (auto simp: update_account_def image_iff intro!: bexI [of _ u])
  then show ?thesis using assms(2) by (auto simp: bumpAuthVersion_def update_account_def [of _ "\<lambda>a. a\<lparr>acc_version := acc_version a + 1\<rparr>"]
      simp del: update_account_fields intro!: image_eqI [of _ _ "f u"])
qed

lemma change_password_signs:
  assumes "out_status (snd (change_password compare newHash digest cfg revoked now sid secret c0 cur new ua db)) = 200"
  obtains u t c where "ca_id c0 = Some (acc_id u)" "u \<in> set (accounts db)"
    "fst (change_password compare newHash digest cfg revoked now sid secret c0 cur new ua db)
       = (bumpAuthVersion (acc_id u) (update_account (acc_id u) (\<lambda>a. a\<lparr>password_hash := newHash, must_change_password := False\<rparr>) db))
           \<lparr>sess := t\<rparr>"
    "out_token (snd (change_password compare newHash digest cfg revoked now sid secret c0 cur new ua db)) = Some c"
    "signUserToken cfg now (token_for u (version_or_1 (acc_version u + 1)) (Some sid)) = Inr c"
proof -
  obtain uid u cr nw where u: "ca_id c0 = Some uid" "cur = Some cr" "new = Some nw" "find_account uid db = Some u"
    "\<not> (cr = [] \<or> nw = [] \<or> nw = cr)" "compare cr (password_hash u)"
    using assms by (auto simp: change_password_def status_only_def split: option.splits if_splits)
  have in': "u \<in> set (accounts db)" "acc_id u = uid" using find_account_Some [OF u(4)] by simp_all
  let ?db1 = "bumpAuthVersion uid (update_account uid (\<lambda>a. a\<lparr>password_hash := newHash, must_change_password := False\<rparr>) db)"
  let ?db2 = "if revoked then ?db1\<lparr>sess := fst (revokeAllForUser now uid ''password_change'' (sess ?db1))\<rparr> else ?db1"
  obtain t refresh where cs: "createSession digest cfg now sid secret uid (version_or_1 (acc_version u + 1)) ua (sess ?db2) = (t, refresh)"
    by fastforce
  have d: "?db2\<lparr>sess := t\<rparr> = ?db1\<lparr>sess := t\<rparr>" by simp
  show ?thesis
  proof (cases "signUserToken cfg now (token_for u (version_or_1 (acc_version u + 1)) (Some sid))")
    case (Inl e)
    then have "out_status (snd (change_password compare newHash digest cfg revoked now sid secret c0 cur new ua db)) = 500"
      using u cs by (simp add: change_password_def Let_def status_only_def)
    then show ?thesis using assms by simp
  next
    case (Inr c)
    then have "change_password compare newHash digest cfg revoked now sid secret c0 cur new ua db
      = (?db1\<lparr>sess := t\<rparr>, \<lparr>out_status = 200, out_token = Some c, out_refresh = Some refresh\<rparr>)"
      using u cs d by (simp add: change_password_def Let_def)
    then show ?thesis using Inr u(1) in' by (intro that [of u t c]) simp_all
  qed
qed

lemma change_password_token:
  assumes tok: "out_token (snd (change_password compare newHash digest cfg revoked now sid secret c0 cur new ua db)) = Some c"
    and v: "versions_ok db"
  shows "current_token (fst (change_password compare newHash digest cfg revoked now sid secret c0 cur new ua db)) c"
proof -
  have "out_status (snd (change_password compare newHash digest cfg revoked now sid secret c0 cur new ua db)) = 200"
    using tok by (auto simp: change_password_def status_only_def Let_def split: option.splits if_splits prod.splits sum.splits)
  from change_password_signs [OF this] obtain u t c' where u: "u \<in> set (accounts db)"
    "fst (change_password compare newHash digest cfg revoked now sid secret c0 cur new ua db)
       = (bumpAuthVersion (acc_id u) (update_account (acc_id u) (\<lambda>a. a\<lparr>password_hash := newHash, must_change_password := False\<rparr>) db))
           \<lparr>sess := t\<rparr>"
    "out_token (snd (change_password compare newHash digest cfg revoked now sid secret c0 cur new ua db)) = Some c'"
    "signUserToken cfg now (token_for u (version_or_1 (acc_version u + 1)) (Some sid)) = Inr c'" by metis
  have "1 \<le> acc_version u" using u(1) v by (simp add: versions_ok_def)
  then have "version_or_1 (acc_version u + 1) = acc_version u + 1" by simp
  then show ?thesis using u(2) tok u(3) sign_token_for [OF u(4)] bumped_member [OF u(1), of "\<lambda>a. a\<lparr>password_hash := newHash, must_change_password := False\<rparr>"]
    unfolding current_token_def by (intro bexI) (auto simp del: update_account_fields bump_fields)
qed

lemma exec_token:
  assumes "snd (auth_exec w now op db) = Some c" "ids_ok db" "versions_ok db"
  shows "current_token (fst (auth_exec w now op db)) c"
  using assms by (cases op) (simp_all add: split_beta login_token refresh_token change_password_token)

section \<open>The invariant of the system\<close>

definition token_bound :: "auth_db \<Rightarrow> claims \<Rightarrow> bool" where
  "token_bound db c \<longleftrightarrow> (\<exists>u v. cl_user c = Some u \<and> cl_av c = Some v \<and> u < next_account db
     \<and> (\<forall>a\<in>set (accounts db). acc_id a = u \<longrightarrow> v \<le> acc_version a))"

definition token_dead :: "auth_db \<Rightarrow> claims \<Rightarrow> bool" where
  "token_dead db c \<longleftrightarrow> (\<exists>u v. cl_user c = Some u \<and> cl_av c = Some v \<and> u < next_account db
     \<and> (\<forall>a\<in>set (accounts db). acc_id a = u \<longrightarrow> v < acc_version a))"

definition protection_ok :: "auth_db \<Rightarrow> bool" where
  "protection_ok db \<longleftrightarrow> (\<forall>a\<in>set (accounts db). is_system_admin a \<longrightarrow> acc_role a = ADMIN)
     \<and> (\<forall>a\<in>set (accounts db). \<forall>b\<in>set (accounts db). is_system_admin a \<and> is_system_admin b \<longrightarrow> a = b)"

definition auth_inv :: "auth_system \<Rightarrow> bool" where
  "auth_inv s \<longleftrightarrow> ids_ok (fst s) \<and> versions_ok (fst s) \<and> protection_ok (fst s) \<and> (\<forall>c\<in>set (snd s). token_bound (fst s) c)"

lemma change_source:
  assumes "account_change db db'" "b \<in> set (accounts db')"
  shows "(acc_id b = next_account db \<and> acc_version b = 1)
    \<or> (\<exists>a\<in>set (accounts db). acc_id a = acc_id b \<and> acc_version a \<le> acc_version b)"
  using change_origin [OF assms] by (auto simp: fair_edit_def)

lemma change_versions: "account_change db db' \<Longrightarrow> versions_ok db \<Longrightarrow> versions_ok db'"
  unfolding versions_ok_def by (metis change_source order_refl order_trans)

lemma change_protection:
  assumes "account_change db db'" "ids_ok db" "protection_ok db"
  shows "protection_ok db'"
  using assms
proof (induction rule: account_change.induct)
  case (new db' db a)
  then show ?case by (auto simp: protection_ok_def active_admin_def)
next
  case (edit db' i f db)
  have old: "\<exists>x\<in>set (accounts db). acc_id b = acc_id x \<and> acc_role b = ADMIN \<and> (is_system_admin x \<or> acc_id x = i \<and> (\<forall>c\<in>set (accounts db). \<not> is_system_admin c))"
    if b: "b \<in> set (accounts db')" "is_system_admin b" for b
  proof -
    obtain x where x: "x \<in> set (accounts db)" "b = (if acc_id x = i then f x else x)" using b(1) edit(1) by auto
    show ?thesis
    proof (cases "acc_id x = i")
      case True
      then have "fair_edit db x b" using edit(3) [OF x(1)] x(2) by simp
      then show ?thesis using True x(1) b(2) edit(5) by (intro bexI [of _ x]) (auto simp: fair_edit_def protection_ok_def)
    next
      case False
      then show ?thesis using x b(2) edit(5) by (auto simp: protection_ok_def)
    qed
  qed
  have ids: "ids_ok db'" using change_ids [OF account_change.edit [OF edit(1,2,3)] edit(4)] by blast
  have "a = b" if a: "a \<in> set (accounts db')" "is_system_admin a" and b: "b \<in> set (accounts db')" "is_system_admin b" for a b
  proof (rule same_id [OF ids a(1) b(1)])
    show "acc_id a = acc_id b" using old [OF a] old [OF b] edit(5) unfolding protection_ok_def by metis
  qed
  then show ?case using old unfolding protection_ok_def by blast
qed (auto simp: protection_ok_def)

lemma change_bound:
  assumes "account_change db db'" "ids_ok db" "token_bound db c"
  shows "token_bound db' c"
proof -
  obtain u v where c: "cl_user c = Some u" "cl_av c = Some v" "u < next_account db"
    "\<forall>a\<in>set (accounts db). acc_id a = u \<longrightarrow> v \<le> acc_version a" using assms(3) unfolding token_bound_def by blast
  have "v \<le> acc_version b" if "b \<in> set (accounts db')" "acc_id b = u" for b
    using change_source [OF assms(1) that(1)] c(3,4) that(2) by force
  then show ?thesis using c change_ids [OF assms(1,2)] unfolding token_bound_def by force
qed

lemma change_dead:
  assumes "account_change db db'" "ids_ok db" "token_dead db c"
  shows "token_dead db' c"
proof -
  obtain u v where c: "cl_user c = Some u" "cl_av c = Some v" "u < next_account db"
    "\<forall>a\<in>set (accounts db). acc_id a = u \<longrightarrow> v < acc_version a" using assms(3) unfolding token_dead_def by blast
  have "v < acc_version b" if "b \<in> set (accounts db')" "acc_id b = u" for b
    using change_source [OF assms(1) that(1)] c(3,4) that(2) by force
  then show ?thesis using c change_ids [OF assms(1,2)] unfolding token_dead_def by force
qed

lemma current_bound: "current_token db c \<Longrightarrow> ids_ok db \<Longrightarrow> token_bound db c"
  unfolding current_token_def token_bound_def by (metis ids_ok_def order_refl same_id)

lemma auth_inv_step: "auth_inv s \<Longrightarrow> auth_step w s t \<Longrightarrow> auth_inv t"
proof (cases rule: auth_step.cases)
  assume "auth_inv s" "auth_step w s t"
  then show "auth_step w s t" by simp
next
  fix db toks now op
  assume step: "auth_inv s" "s = (db, toks)"
    "t = (fst (auth_exec w now op db), tokens_after (snd (auth_exec w now op db)) toks)"
  have inv: "ids_ok db" "versions_ok db" "protection_ok db" "\<forall>c\<in>set toks. token_bound db c"
    using step(1,2) by (simp_all add: auth_inv_def)
  let ?db' = "fst (auth_exec w now op db)"
  note ch = exec_change [OF inv(1), of w now op]
  have ids: "ids_ok ?db'" using change_ids [OF ch inv(1)] by blast
  have "token_bound ?db' c" if "snd (auth_exec w now op db) = Some c" for c
    using exec_token [OF that inv(1,2)] ids by (rule current_bound)
  moreover have "\<forall>c\<in>set toks. token_bound ?db' c" using change_bound [OF ch inv(1)] inv(4) by blast
  ultimately have "\<forall>c\<in>set (tokens_after (snd (auth_exec w now op db)) toks). token_bound ?db' c"
    by (cases "snd (auth_exec w now op db)") (simp_all add: tokens_after_def)
  then show "auth_inv t" using step(3) ids change_versions [OF ch inv(2)] change_protection [OF ch inv(1,3)]
    unfolding auth_inv_def by simp
qed

lemma auth_inv_start: "auth_inv (empty_db, [])"
  by (simp add: auth_inv_def empty_db_def ids_ok_def versions_ok_def protection_ok_def)

interpretation account_system: invariant_system "\<lambda>s. s = (empty_db, [])" "auth_step w" auth_inv for w
  by unfold_locales (auto intro: auth_inv_step simp: auth_inv_start)

lemma dead_steps:
  assumes "(auth_step w)\<^sup>*\<^sup>* s t" "auth_inv s" "token_dead (fst s) c"
  shows "token_dead (fst t) c"
  using assms
proof (induction rule: rtranclp_induct)
  case (step y z)
  have "auth_inv y" using account_system.steps_inv [OF step(1,4)] .
  then have ids: "ids_ok (fst y)" by (simp add: auth_inv_def)
  obtain now op where "fst z = fst (auth_exec w now op (fst y))" using step(2) by (auto elim!: auth_step.cases)
  then show ?case using change_dead [OF exec_change [OF ids] ids step.IH [OF step(4,5)]] by simp
qed

section \<open>Events that end every token of an account\<close>

fun ends_tokens :: "auth_world \<Rightarrow> int \<Rightarrow> auth_op \<Rightarrow> auth_db \<Rightarrow> nat \<Rightarrow> bool" where
  "ends_tokens w now (LogOut bumped revoked c raw) db u = (bumped \<and> \<not> ca_ingest c \<and> ca_id c = Some u)"
| "ends_tokens w now (SetStatus c i st reason) db u =
     (i = u \<and> normalizeUserStatus st = Some False \<and> out_status (snd (set_status now c i st reason db)) = 200)"
| "ends_tokens w now (ResetPassword newHash c i) db u = (i = u \<and> out_status (snd (reset_password now newHash c i db)) = 200)"
| "ends_tokens w now (RemoveUser c i) db u = (i = u \<and> out_status (snd (delete_user c i db)) = 204)"
| "ends_tokens w now (ChangePassword newHash revoked sid secret c cur new ua) db u =
     (ca_id c = Some u \<and> out_status (snd (change_password (o_compare w) newHash (o_digest w) (o_cfg w) revoked now sid secret c cur new ua db)) = 200)"
| "ends_tokens w now _ db u = False"

lemma bump_kills:
  assumes "token_bound db c" "cl_user c = Some i" "\<And>a. acc_id (f a) = acc_id a" "\<And>a. acc_version (f a) = acc_version a"
  shows "token_dead ((bumpAuthVersion i (update_account i f db))\<lparr>sess := t\<rparr>) c"
proof -
  obtain v where v: "cl_av c = Some v" "i < next_account db" "\<forall>a\<in>set (accounts db). acc_id a = i \<longrightarrow> v \<le> acc_version a"
    using assms(1,2) unfolding token_bound_def by auto
  have "v < acc_version b" if "b \<in> set (accounts (bumpAuthVersion i (update_account i f db)))" "acc_id b = i" for b
  proof -
    have "accounts (bumpAuthVersion i (update_account i f db))
      = map (\<lambda>a. if acc_id a = i then (f a)\<lparr>acc_version := acc_version (f a) + 1\<rparr> else a) (accounts db)"
      by (simp add: assms(3))
    with that(1) obtain a where "a \<in> set (accounts db)" "b = (if acc_id a = i then (f a)\<lparr>acc_version := acc_version (f a) + 1\<rparr> else a)"
      by (simp only: set_map) blast
    then show ?thesis using that(2) v(3) assms(3,4) by (cases "acc_id a = i") (force, simp)
  qed
  then show ?thesis using assms(2) v unfolding token_dead_def by (simp del: bump_fields(1) update_account_fields(1))
qed

lemma update_id [simp]: "update_account i id db = db" "update_account i (\<lambda>a. a) db = db"
  by (simp_all add: update_account_def cong: if_cong)

lemma kill_no_sess: "token_dead (db\<lparr>sess := t\<rparr>) c \<longleftrightarrow> token_dead db c"
  by (simp add: token_dead_def)

lemma event_kills:
  assumes "ends_tokens w now op db u" "token_bound db c" "cl_user c = Some u"
  shows "token_dead (fst (auth_exec w now op db)) c"
proof (cases op)
  case (LogOut bumped revoked ca raw)
  then show ?thesis using assms(1) bump_kills [OF assms(2,3), of id]
    by (simp add: logout_def Let_def kill_no_sess)
next
  case (SetStatus ca i st reason)
  then have "\<exists>t. fst (set_status now ca i st reason db) = (bumpAuthVersion i (update_account i (\<lambda>a. a\<lparr>is_active := False\<rparr>) db))\<lparr>sess := t\<rparr>"
    using assms(1) by (auto simp: set_status_def status_only_def Let_def split: option.splits if_splits)
  then show ?thesis using SetStatus assms bump_kills [OF assms(2,3), of "\<lambda>a. a\<lparr>is_active := False\<rparr>"] by auto
next
  case (ResetPassword newHash ca i)
  then have "\<exists>t. fst (reset_password now newHash ca i db)
      = (bumpAuthVersion i (update_account i (\<lambda>a. a\<lparr>password_hash := newHash, must_change_password := True\<rparr>) db))\<lparr>sess := t\<rparr>"
    using assms(1) by (auto simp: reset_password_def status_only_def Let_def split: option.splits if_splits)
  then show ?thesis using ResetPassword assms
      bump_kills [OF assms(2,3), of "\<lambda>a. a\<lparr>password_hash := newHash, must_change_password := True\<rparr>"] by auto
next
  case (RemoveUser ca i)
  then have "\<exists>t. fst (delete_user ca i db) = db\<lparr>accounts := filter (\<lambda>a. acc_id a \<noteq> u) (accounts db), sess := t\<rparr>"
    using assms(1) by (auto simp: delete_user_def status_only_def guard_status_def Let_def split: option.splits if_splits guard.splits)
  then show ?thesis using RemoveUser assms(2,3) by (auto simp: token_bound_def token_dead_def)
next
  case (ChangePassword newHash revoked sid secret ca cur new ua)
  let ?r = "change_password (o_compare w) newHash (o_digest w) (o_cfg w) revoked now sid secret ca cur new ua db"
  have "out_status (snd ?r) = 200" using assms(1) ChangePassword by simp
  from change_password_signs [OF this] obtain a t tok where a: "ca_id ca = Some (acc_id a)" "a \<in> set (accounts db)"
    "fst ?r = (bumpAuthVersion (acc_id a) (update_account (acc_id a) (\<lambda>a. a\<lparr>password_hash := newHash, must_change_password := False\<rparr>) db))\<lparr>sess := t\<rparr>"
    "out_token (snd ?r) = Some tok" "signUserToken (o_cfg w) now (token_for a (version_or_1 (acc_version a + 1)) (Some sid)) = Inr tok" .
  then have "acc_id a = u" using assms(1) ChangePassword by simp
  then show ?thesis using ChangePassword a(3) assms
      bump_kills [OF assms(2,3), of "\<lambda>a. a\<lparr>password_hash := newHash, must_change_password := False\<rparr>"] by (simp add: split_beta)
qed (use assms(1) in simp_all)

lemma event_kills_for_good:
  assumes "reachable (\<lambda>s. s = (empty_db, [])) (auth_step w) (db, toks)" "c \<in> set toks" "cl_user c = Some u"
    and "ends_tokens w now op db u"
    and "(auth_step w)\<^sup>*\<^sup>* (fst (auth_exec w now op db), tokens_after (snd (auth_exec w now op db)) toks) (db', toks')"
  shows "token_dead db' c"
proof -
  have inv: "auth_inv (db, toks)" by (rule account_system.reachable_inv [OF assms(1)])
  then have "token_bound db c" using assms(2) by (simp add: auth_inv_def)
  from event_kills [OF assms(4) this assms(3)] have "token_dead (fst (auth_exec w now op db)) c" .
  moreover have "auth_inv (fst (auth_exec w now op db), tokens_after (snd (auth_exec w now op db)) toks)"
    by (rule auth_inv_step [OF inv auth_step.step])
  ultimately show ?thesis using dead_steps [OF assms(5), of c] by simp
qed

lemma dead_not_current: "token_dead db c \<Longrightarrow> find_account u db = Some a \<Longrightarrow> cl_user c = Some u \<Longrightarrow> cl_av c \<noteq> Some (acc_version a)"
  by (force simp: token_dead_def dest!: find_account_Some)

section \<open>Administrators\<close>

lemma step_change: "auth_step w s t \<Longrightarrow> auth_inv s \<Longrightarrow> account_change (fst s) (fst t)"
  by (auto simp: auth_inv_def elim!: auth_step.cases intro: exec_change)

lemma admin_steps:
  assumes "(auth_step w)\<^sup>*\<^sup>* s t" "auth_inv s" "\<exists>a\<in>set (accounts (fst s)). active_admin a"
  shows "\<exists>a\<in>set (accounts (fst t)). active_admin a"
  using assms
proof (induction rule: rtranclp_induct)
  case (step y z)
  have y: "auth_inv y" using account_system.steps_inv [OF step(1,4)] .
  then show ?case using change_keeps_admin [OF step_change [OF step(2) y] _ step.IH [OF step(4,5)]] by (simp add: auth_inv_def)
qed simp

lemma system_admin_steps:
  assumes "(auth_step w)\<^sup>*\<^sup>* s t" "auth_inv s" "a \<in> set (accounts (fst s))" "is_system_admin a"
  shows "\<exists>b\<in>set (accounts (fst t)). acc_id b = acc_id a \<and> username b = username a \<and> is_system_admin b
    \<and> (active_admin a \<longrightarrow> active_admin b)"
  using assms
proof (induction rule: rtranclp_induct)
  case (step y z)
  have y: "auth_inv y" using account_system.steps_inv [OF step(1,4)] .
  obtain b where b: "b \<in> set (accounts (fst y))" "acc_id b = acc_id a" "username b = username a" "is_system_admin b"
      "active_admin a \<longrightarrow> active_admin b"
    using step.IH [OF step(4-6)] by blast
  from change_fate [OF step_change [OF step(2) y] b(1)] b(4)
  obtain b' where "b' \<in> set (accounts (fst z))" "b' = b \<or> fair_edit (fst y) b b'" by blast
  then show ?case using b by (auto simp: fair_edit_def)
qed auto

text \<open>
  C10: Administrators remain.  Whatever anybody does, in whatever order, an installation that has an active
  administrator keeps one, and a protected system administrator keeps its account, its name, the role of
  an administrator and, once it is active, its status, and stays the only one.
\<close>

theorem administrators_remain:
  assumes "reachable (\<lambda>s. s = (empty_db, [])) (auth_step w) (db, toks)" "(auth_step w)\<^sup>*\<^sup>* (db, toks) (db', toks')"
  shows "((\<exists>a\<in>set (accounts db). active_admin a) \<longrightarrow> (\<exists>a\<in>set (accounts db'). active_admin a))
    \<and> (\<forall>a\<in>set (accounts db). is_system_admin a \<longrightarrow>
        (\<exists>b\<in>set (accounts db'). acc_id b = acc_id a \<and> username b = username a \<and> acc_role b = ADMIN
           \<and> (is_active a \<longrightarrow> is_active b) \<and> (\<forall>c\<in>set (accounts db'). is_system_admin c \<longleftrightarrow> c = b)))"
proof -
  have inv: "auth_inv (db, toks)" by (rule account_system.reachable_inv [OF assms(1)])
  then have "auth_inv (db', toks')" using account_system.steps_inv [OF assms(2)] by blast
  then have ok: "protection_ok db'" by (simp add: auth_inv_def)
  have role: "acc_role a = ADMIN" if "a \<in> set (accounts db)" "is_system_admin a" for a
    using inv that by (simp add: auth_inv_def protection_ok_def)
  have "\<exists>b\<in>set (accounts db'). acc_id b = acc_id a \<and> username b = username a \<and> acc_role b = ADMIN
           \<and> (is_active a \<longrightarrow> is_active b) \<and> (\<forall>c\<in>set (accounts db'). is_system_admin c \<longleftrightarrow> c = b)"
    if a: "a \<in> set (accounts db)" "is_system_admin a" for a
  proof -
    obtain b where b: "b \<in> set (accounts db')" "acc_id b = acc_id a" "username b = username a" "is_system_admin b"
      "active_admin a \<longrightarrow> active_admin b"
      using system_admin_steps [OF assms(2) inv, of a] a by auto
    then have "acc_role b = ADMIN" "\<forall>c\<in>set (accounts db'). is_system_admin c \<longleftrightarrow> c = b"
      using ok unfolding protection_ok_def by blast+
    then show ?thesis using b role [OF a] by (auto simp: active_admin_def)
  qed
  then show ?thesis using admin_steps [OF assms(2) inv] by simp
qed

section \<open>Setup\<close>

lemma setup_result:
  assumes "completeFirstRunSetup sha zones now newHash inp db = (db', Inr name)"
  shows "accounts db = []" "\<exists>a. accounts db' = [a] \<and> username a = name \<and> is_system_admin a \<and> active_admin a"
    "\<And>s h. settings_row db = Some s \<Longrightarrow> setup_code_hash s = Some h \<Longrightarrow> h \<noteq> [] \<Longrightarrow> verifySetupCode sha (in_code inp) h"
  using assms
  by (auto simp: completeFirstRunSetup_def ensure_settings_def Let_def empty_settings_def active_admin_def split: sum.splits if_splits option.splits)


section \<open>The start of the server\<close>

lemma seed_accounts [simp]:
  "accounts (fst (seedSetupCodeHash envHash db)) = accounts db" "next_account (fst (seedSetupCodeHash envHash db)) = next_account db"
  by (cases "settings_row (ensure_settings db)"; simp add: seedSetupCodeHash_def Let_def)+

lemma reconcile_missing:
  assumes "ids_ok db" "a \<in> set (accounts db)" "is_system_admin a" "active_admin a" "js_lower (username a) \<noteq> js_lower DEFAULT_ADMIN_EMAIL"
    and "\<forall>c\<in>set (accounts db). is_system_admin c \<longrightarrow> c = a"
  shows "ensureSystemAdminAccount True db =
    (db, if (case admin_namesake db of None \<Rightarrow> False | Some b \<Rightarrow> acc_role b = ADMIN) then Inl SecondSystemAdmin
         else Inr (ManualRequired (countActiveAdmins db)))"
proof -
  have some: "accounts db \<noteq> []" using assms(2) by auto
  have n: "countActiveAdmins db \<noteq> 0" using assms(2,4) by (auto simp: countActiveAdmins_def filter_empty_conv)
  have other: "\<not> is_system_admin b" "other_system_admin (acc_id b) db" if "admin_namesake db = Some b" for b
  proof -
    have b: "b \<in> set (accounts db)" "b \<noteq> a" using namesake_Some [OF that] assms(5) by auto
    then have "acc_id a \<noteq> acc_id b" using same_id [OF assms(1,2)] by auto
    then show "other_system_admin (acc_id b) db" using assms(2,3) by (auto simp: other_system_admin_def list_ex_iff)
    show "\<not> is_system_admin b" using b assms(6) by blast
  qed
  have miss: "reportMissing db = Inr (ManualRequired (countActiveAdmins db))" using n by (simp add: reportMissing_def)
  show ?thesis
  proof (cases "admin_namesake db")
    case (Some b)
    show ?thesis by (simp add: ensureSystemAdminAccount_def Some other [OF Some] miss)
  qed (simp add: ensureSystemAdminAccount_def miss some)
qed

lemma provision_refused:
  assumes "a \<in> set (accounts db)" "is_system_admin a" "js_lower (username a) \<noteq> js_lower DEFAULT_ADMIN_EMAIL" "ids_ok db"
  shows "\<exists>err. provisionSystemAdmin password newHash db = (db, Inl err)"
proof (cases "admin_namesake db")
  case (Some b)
  have b: "b \<in> set (accounts db)" "b \<noteq> a" using namesake_Some [OF Some] assms(3) by auto
  then have "acc_id a \<noteq> acc_id b" using same_id [OF assms(4,1)] by auto
  then have "other_system_admin (acc_id b) db" using assms(1,2) by (auto simp: other_system_admin_def list_ex_iff)
  then show ?thesis using Some by (simp add: provisionSystemAdmin_def)
next
  case None
  then show ?thesis using assms(1,2) by (auto simp: provisionSystemAdmin_def list_ex_iff)
qed

text \<open>
  C37: The start of the server looks for the system administrator by a fixed name.  When setup has created
  it under another name, every start reports it missing although it is there and active, the command
  that the report recommends is refused, and as soon as the account with the fixed name is an
  administrator the server does not start any more.
\<close>

theorem startup_looks_for_fixed_name:
  assumes "reachable (\<lambda>s. s = (empty_db, [])) (auth_step w) (db, toks)"
    and "a \<in> set (accounts db)" "is_system_admin a" "is_active a" "js_lower (username a) \<noteq> js_lower DEFAULT_ADMIN_EMAIL"
  shows "accounts (fst (ensureDefaultAdmin lock1 True e newHash db)) = accounts db
    \<and> snd (ensureDefaultAdmin lock1 True e newHash db) =
        (if (case admin_namesake db of None \<Rightarrow> False | Some b \<Rightarrow> acc_role b = ADMIN) then Exits else ContinuesWithAlarm)
    \<and> (\<exists>err. provisionSystemAdmin password newHash db = (db, Inl err))"
proof -
  have "auth_inv (db, toks)" by (rule account_system.reachable_inv [OF assms(1)])
  then have inv: "ids_ok db" "protection_ok db" by (simp_all add: auth_inv_def)
  let ?d = "fst (seedSetupCodeHash (env_code_hash e) db)"
  define db2 where "db2 = (if legacyDefaultAdminEnabled e
      then fst (ensureDefaultAdminBootstrap lock1 (env_initial_password e) (env_system_password e) newHash ?d) else ?d)"
  have some: "accounts db \<noteq> []" using assms(2) by auto
  have same: "accounts db2 = accounts db" "next_account db2 = next_account db"
    using bootstrap_keeps [of ?d] some by (simp_all add: db2_def)
  have adm: "active_admin a" using inv(2) assms(2-4) by (auto simp: protection_ok_def active_admin_def)
  have one: "\<forall>c\<in>set (accounts db). is_system_admin c \<longrightarrow> c = a" using inv(2) assms(2,3) unfolding protection_ok_def by blast
  have "ensureSystemAdminAccount True db2 =
      (db2, if (case admin_namesake db2 of None \<Rightarrow> False | Some b \<Rightarrow> acc_role b = ADMIN) then Inl SecondSystemAdmin
            else Inr (ManualRequired (countActiveAdmins db2)))"
    using reconcile_missing [of db2 a] inv(1) assms(2,3,5) adm one unfolding same ids_ok_def by blast
  moreover have "admin_namesake db2 = admin_namesake db" by (simp add: admin_namesake_def same)
  moreover have "ensureDefaultAdmin lock1 True e newHash db =
      (let (db3, r) = ensureSystemAdminAccount True db2 in
       (db3, case r of Inl _ \<Rightarrow> Exits | Inr x \<Rightarrow> (case x of ManualRequired _ \<Rightarrow> ContinuesWithAlarm | _ \<Rightarrow> Continues)))"
    by (simp add: ensureDefaultAdmin_def db2_def Let_def)
  ultimately have "ensureDefaultAdmin lock1 True e newHash db =
      (db2, if (case admin_namesake db of None \<Rightarrow> False | Some b \<Rightarrow> acc_role b = ADMIN) then Exits else ContinuesWithAlarm)"
    by (simp split: if_split)
  then show ?thesis using same(1) provision_refused [OF assms(2,3,5) inv(1)] by (simp only: fst_conv snd_conv)
qed

section \<open>A sample installation\<close>

definition sample_world :: auth_world where
  "sample_world = \<lparr>o_compare = (\<lambda>p h. h = p), o_digest = rev, o_sha = (\<lambda>s. replicate 64 (CHR ''a'')), o_zones = (\<lambda>z. z = ''UTC''),
     o_cfg = \<lparr>accessTtlMs = 900000, idleMs = 3600000, absoluteMs = 86400000, activityMinUpdateMs = 60000,
              refreshGraceMs = 30000, cleanupRetentionDays = 7\<rparr>\<rparr>"

definition setup_sample :: setup_input where
  "setup_sample = \<lparr>in_code = ''H7QX-4KMP'', in_username = ''root@example.org'', in_password = Some ''correct horse'',
                   in_confirm = None, in_timezone = ''UTC''\<rparr>"

definition root_account :: account where
  "root_account = \<lparr>acc_id = 1, username = ''root@example.org'', password_hash = ''h1'', first_name = ''System'',
     last_name = ''Administrator'', acc_role = ADMIN, is_active = True, must_change_password = False, is_system_admin = True,
     acc_version = 1\<rparr>"

definition installed :: auth_db where
  "installed = \<lparr>accounts = [root_account], next_account = 2, sess = [],
     settings_row = Some \<lparr>setup_completed_at = Some 1000, setup_code_hash = None, initial_setup_completed = True,
                          timezone_required = False, active_timezone = Some ''UTC'', default_admin_bootstrapped = True\<rparr>\<rparr>"

lemma sample_setup:
  "completeFirstRunSetup (o_sha sample_world) (o_zones sample_world) 1000 ''h1'' setup_sample empty_db
     = (installed, Inr ''root@example.org'')"
  by code_simp

lemma installed_reachable: "reachable (\<lambda>s. s = (empty_db, [])) (auth_step sample_world) (installed, [])"
proof -
  have "auth_step sample_world (empty_db, []) (installed, [])"
    using auth_step.step [of sample_world empty_db "[]" 1000 "Setup ''h1'' setup_sample"] sample_setup by (simp add: tokens_after_def)
  moreover have "reachable (\<lambda>s. s = (empty_db, [])) (auth_step sample_world) (empty_db, [])" by (rule reachable.start) simp
  ultimately show ?thesis by (rule reachable.more [rotated])
qed

definition root_caller :: caller where
  "root_caller = \<lparr>ca_id = Some 1, ca_role = Some ADMIN, ca_ingest = False\<rparr>"

definition hire :: auth_op where
  "hire = CreateUser ''h2'' root_caller \<lparr>nu_username = ''eve'', nu_password = Some ''pw'', nu_first = [], nu_last = [], nu_role = Some ''admin''\<rparr>"

definition staffed :: auth_db where
  "staffed = fst (auth_exec sample_world 2000 hire installed)"

lemma staffed_step: "auth_step sample_world (installed, []) (staffed, [])"
  using auth_step.step [of sample_world installed "[]" 2000 hire] by (simp add: staffed_def hire_def tokens_after_def)

text \<open>Another administrator tries to delete the protected one.\<close>

definition coup :: auth_op where
  "coup = RemoveUser \<lparr>ca_id = Some 2, ca_role = Some ADMIN, ca_ingest = False\<rparr> 1"

theorem administrators_remain_witness:
  "\<exists>b\<in>set (accounts (fst (auth_exec sample_world 3000 coup staffed))). acc_id b = 1 \<and> username b = ''root@example.org'' \<and> is_active b"
proof -
  have run: "(auth_step sample_world)\<^sup>*\<^sup>* (installed, []) (fst (auth_exec sample_world 3000 coup staffed), [])"
    using auth_step.step [of sample_world staffed "[]" 3000 coup] staffed_step by (auto simp: coup_def tokens_after_def intro: rtranclp.intros)
  have "root_account \<in> set (accounts installed)" "is_system_admin root_account" by (simp_all add: installed_def root_account_def)
  then show ?thesis using administrators_remain [OF installed_reachable run] by (fastforce simp: root_account_def)
qed


text \<open>After setup under another name an administrator creates an account with the fixed one.\<close>

definition namesake :: auth_op where
  "namesake = CreateUser ''h3'' root_caller \<lparr>nu_username = ''Admin@talonhound.local'', nu_password = Some ''x'', nu_first = [],
     nu_last = [], nu_role = Some ADMIN\<rparr>"

definition plain_env :: startup_env where
  "plain_env = \<lparr>env_code_hash = [], env_initial_password = [], env_system_password = [], env_legacy_flag = []\<rparr>"

theorem startup_looks_for_fixed_name_witness:
  "snd (ensureDefaultAdmin True True plain_env ''h5'' installed) = ContinuesWithAlarm
   \<and> snd (ensureDefaultAdmin True True plain_env ''h5'' (fst (auth_exec sample_world 2000 namesake installed))) = Exits"
proof -
  have step: "auth_step sample_world (installed, []) (fst (auth_exec sample_world 2000 namesake installed), [])"
    using auth_step.step [of sample_world installed "[]" 2000 namesake] by (simp add: namesake_def tokens_after_def)
  have root: "root_account \<in> set (accounts installed)"
    "root_account \<in> set (accounts (fst (auth_exec sample_world 2000 namesake installed)))"
    by (simp_all add: installed_def namesake_def create_user_def Let_def)
  have a: "is_system_admin root_account" "is_active root_account" "js_lower (username root_account) \<noteq> js_lower DEFAULT_ADMIN_EMAIL"
    by code_simp+
  have "admin_namesake installed = None" by code_simp
  moreover have "map_option acc_role (admin_namesake (fst (auth_exec sample_world 2000 namesake installed))) = Some ADMIN" by code_simp
  ultimately show ?thesis
    using startup_looks_for_fixed_name [OF installed_reachable root(1) a, of True plain_env "''h5''"]
      startup_looks_for_fixed_name [OF reachable.more [OF installed_reachable step] root(2) a, of True plain_env "''h5''"]
    by (auto split: option.splits)
qed

end
