(* ===== verification/RequestGate.thy ===== *)
theory RequestGate
  imports AccountsFacts
begin

text \<open>
  The gates of a request, in the order of \<open>server.js\<close>: setup (\<open>routes/setup.js\<close>), authentication and CSRF
  (\<open>lib/auth.js\<close>), version and session (\<open>lib/authVersion.js\<close>), password change
  (\<open>lib/passwordChangeGate.js\<close>), ingest capabilities (\<open>lib/ingestPrincipal.js\<close>) and roles (\<open>lib/rbac.js\<close>,
  in \<open>AccessControl\<close>); and the keys of \<open>/api/v1\<close> and \<open>/mcp\<close> (\<open>lib/apiKeyAuth.js\<close>, \<open>lib/mcpAuth.js\<close>).
  \<open>verify now text\<close> is the library's check of a token: its payload, if the signature holds and it has
  not expired.  A failing query is \<open>None\<close> in place of the tables.  Which handler a path then reaches is
  the router's business.
\<close>

section \<open>Requests\<close>

text \<open>Methods are upper case, as the HTTP parser delivers them.\<close>

record http_req =
  rq_path :: string
  rq_method :: string
  rq_authorization :: "string option"
  rq_ingest :: "string option"
  rq_csrf :: "string option"
  ck_session :: "string option"
  ck_csrf :: "string option"
  rq_api_key :: "string option"

record gate_env =
  ge_ingest_token :: string
  ge_allow_bearer :: bool

datatype auth_via = Ingest | Bearer | Cookie

record principal =
  pr_id :: "nat option"
  pr_role :: string
  pr_via :: auth_via
  pr_claims :: "claims option"

definition starts_api :: "http_req \<Rightarrow> bool" where
  "starts_api r \<longleftrightarrow> take 4 (rq_path r) = ''/api''"

text \<open>\<open>/^Bearer\s+(\S+)/i\<close>.\<close>

definition extractBearer :: "string option \<Rightarrow> string option" where
  "extractBearer h =
     (case h of
        None \<Rightarrow> None
      | Some t \<Rightarrow>
          (let rest = drop 6 t; tok = takeWhile (\<lambda>c. \<not> js_ws c) (dropWhile js_ws rest)
           in if js_lower (take 6 t) \<noteq> ''bearer'' \<or> takeWhile js_ws rest = [] \<or> tok = [] then None else Some tok))"

definition userFromJwtPayload :: "claims \<Rightarrow> auth_via \<Rightarrow> principal option" where
  "userFromJwtPayload c via =
     (if js_trim (cl_email c) = [] then None
      else map_option (\<lambda>r. \<lparr>pr_id = cl_user c, pr_role = r, pr_via = via, pr_claims = Some c\<rparr>) (effectiveRoleFromPayload (cl_role c)))"

definition ingest_principal :: principal where
  "ingest_principal = \<lparr>pr_id = None, pr_role = ADMIN, pr_via = Ingest, pr_claims = None\<rparr>"

definition tryAttachSession :: "(string \<Rightarrow> claims option) \<Rightarrow> gate_env \<Rightarrow> http_req \<Rightarrow> principal option" where
  "tryAttachSession verify env r =
     (let ingest = (case rq_ingest r of None \<Rightarrow> [] | Some t \<Rightarrow> js_trim t) in
      if ingest \<noteq> []
      then (if ge_ingest_token env = [] \<or> ingest \<noteq> ge_ingest_token env then None else Some ingest_principal)
      else case extractBearer (rq_authorization r) of
             Some t \<Rightarrow> if \<not> ge_allow_bearer env then None else Option.bind (verify t) (\<lambda>c. userFromJwtPayload c Bearer)
           | None \<Rightarrow>
               (let t = (case ck_session r of None \<Rightarrow> [] | Some t \<Rightarrow> js_trim t)
                in if t = [] then None else Option.bind (verify t) (\<lambda>c. userFromJwtPayload c Cookie)))"

section \<open>The gates\<close>

text \<open>A request is refused with a status, or passes with the principal attached so far.\<close>

datatype gate = Refuse nat | Pass "principal option"

definition isPublicApiDocsPath :: "string \<Rightarrow> bool" where
  "isPublicApiDocsPath p \<longleftrightarrow>
     p \<in> {''/api/docs'', ''/api/openapi.json'', ''/api/docs/static''} \<or> take 17 p = ''/api/docs/static/''"

definition isApiV1Path :: "string \<Rightarrow> bool" where
  "isApiV1Path p \<longleftrightarrow> p = ''/api/v1'' \<or> take 8 p = ''/api/v1/''"

definition isMcpPath :: "string \<Rightarrow> bool" where
  "isMcpPath p \<longleftrightarrow> p = ''/mcp'' \<or> take 5 p = ''/mcp/''"

text \<open>\<open>/^\/api\/published-feeds\/[^/]+$/\<close>, except the list of sources.\<close>

definition public_feed_path :: "string \<Rightarrow> bool" where
  "public_feed_path p \<longleftrightarrow>
     take 21 p = ''/api/published-feeds/'' \<and> drop 21 p \<noteq> [] \<and> CHR ''/'' \<notin> set (drop 21 p)
     \<and> p \<noteq> ''/api/published-feeds/source-options''"

definition optional_auth_route :: "http_req \<Rightarrow> bool" where
  "optional_auth_route r \<longleftrightarrow> rq_method r = ''POST'' \<and> rq_path r \<in> {''/api/auth/logout'', ''/api/setup/complete''}"

text \<open>The routes that pass without a principal.\<close>

definition open_route :: "http_req \<Rightarrow> bool" where
  "open_route r \<longleftrightarrow>
     (rq_method r = ''POST'' \<and> rq_path r \<in> {''/api/auth/login'', ''/api/auth/refresh'', ''/api/setup/verify-code''})
     \<or> rq_path r \<in> {''/api/setup/status'', ''/api/setup/preview''}
     \<or> (rq_method r = ''GET'' \<and> rq_path r = ''/api/system/timezones'')
     \<or> isPublicApiDocsPath (rq_path r) \<or> isApiV1Path (rq_path r) \<or> isMcpPath (rq_path r)
     \<or> (rq_method r = ''GET'' \<and> rq_api_key r \<noteq> None \<and> rq_api_key r \<noteq> Some [] \<and> public_feed_path (rq_path r))"

definition apiAuthGate :: "(string \<Rightarrow> claims option) \<Rightarrow> gate_env \<Rightarrow> http_req \<Rightarrow> gate" where
  "apiAuthGate verify env r =
     (if rq_method r = ''OPTIONS'' then Pass None
      else if optional_auth_route r then Pass (tryAttachSession verify env r)
      else if open_route r then Pass None
      else if starts_api r
      then (case tryAttachSession verify env r of None \<Rightarrow> Refuse 401 | Some p \<Rightarrow> Pass (Some p))
      else Pass None)"

definition requestTokenSessionId :: "principal \<Rightarrow> string option" where
  "requestTokenSessionId p =
     (case Option.bind (pr_claims p) cl_sid of None \<Rightarrow> None | Some s \<Rightarrow> if js_trim s = [] then None else Some (js_trim s))"

text \<open>The session row that the query joins to the user.\<close>

definition joined_session :: "string option \<Rightarrow> nat \<Rightarrow> sessions \<Rightarrow> session option" where
  "joined_session sid u t = Option.bind sid (\<lambda>i. find (\<lambda>s. session_id s = i \<and> user_id s = u) t)"

definition session_open :: "int \<Rightarrow> session option \<Rightarrow> bool" where
  "session_open now s =
     (case s of None \<Rightarrow> False
      | Some s \<Rightarrow> revoked_at s = None \<and> now < absolute_expires_at s \<and> now < idle_expires_at s)"

definition authVersionGate :: "int \<Rightarrow> auth_db option \<Rightarrow> http_req \<Rightarrow> principal option \<Rightarrow> gate" where
  "authVersionGate now db r who =
     (if \<not> starts_api r then Pass who
      else if rq_path r = ''/api/auth/logout'' \<and> rq_method r = ''POST'' then Pass who
      else case who of
        None \<Rightarrow> Pass who
      | Some p \<Rightarrow>
          if pr_via p = Ingest then Pass who
          else case (pr_id p, Option.bind (pr_claims p) cl_av) of
            (Some u, Some av) \<Rightarrow>
              (let sid = requestTokenSessionId p; exp = Option.bind (pr_claims p) cl_exp in
               if pr_via p = Cookie \<and> sid = None then Refuse 401
               else if pr_via p = Bearer \<and> (case exp of None \<Rightarrow> True | Some e \<Rightarrow> e * 1000 \<le> now) then Refuse 401
               else case db of
                 None \<Rightarrow> Refuse 500
               | Some d \<Rightarrow>
                   (case find_account u d of
                      None \<Rightarrow> Refuse 401
                    | Some a \<Rightarrow>
                        if \<not> is_active a \<or> acc_version a \<noteq> av then Refuse 401
                        else if pr_via p = Cookie \<and> \<not> session_open now (joined_session sid u (sess d)) then Refuse 401
                        else Pass who))
          | _ \<Rightarrow> Refuse 401)"

definition csrf_exempt :: "http_req \<Rightarrow> bool" where
  "csrf_exempt r \<longleftrightarrow>
     rq_method r \<in> {''GET'', ''HEAD'', ''OPTIONS''}
     \<or> rq_path r \<in> {''/api/auth/login'', ''/api/auth/logout'', ''/api/setup/complete'', ''/api/setup/verify-code''}
     \<or> \<not> starts_api r \<or> isApiV1Path (rq_path r) \<or> isMcpPath (rq_path r)"

definition csrfProtection :: "http_req \<Rightarrow> principal option \<Rightarrow> gate" where
  "csrfProtection r who =
     (if csrf_exempt r \<or> (case who of None \<Rightarrow> False | Some p \<Rightarrow> pr_via p \<noteq> Cookie) then Pass who
      else case (rq_csrf r, ck_csrf r) of
             (Some h, Some k) \<Rightarrow> if h \<noteq> [] \<and> k \<noteq> [] \<and> h = k then Pass who else Refuse 403
           | _ \<Rightarrow> Refuse 403)"

definition PASSWORD_CHANGE_GATE_ALLOWLIST :: "string list" where
  "PASSWORD_CHANGE_GATE_ALLOWLIST =
     [''/api/auth/me'', ''/api/auth/logout'', ''/api/auth/change-password'', ''/api/auth/login'']"

definition passwordChangeGate :: "auth_db option \<Rightarrow> http_req \<Rightarrow> principal option \<Rightarrow> gate" where
  "passwordChangeGate db r who =
     (if rq_method r = ''OPTIONS'' \<or> \<not> starts_api r then Pass who
      else case who of
        None \<Rightarrow> Pass who
      | Some p \<Rightarrow>
          if pr_via p = Ingest \<or> rq_path r \<in> set PASSWORD_CHANGE_GATE_ALLOWLIST then Pass who
          else case pr_id p of
            None \<Rightarrow> Refuse 401
          | Some u \<Rightarrow>
              (case db of
                 None \<Rightarrow> Refuse 500
               | Some d \<Rightarrow>
                   (case find_account u d of
                      None \<Rightarrow> Refuse 401
                    | Some a \<Rightarrow> if must_change_password a then Refuse 403 else Pass who)))"

text \<open>\<open>ready\<close>: the state of the system time has been read and is usable, \<open>None\<close> when it cannot be read.\<close>

definition setup_open :: "http_req \<Rightarrow> bool" where
  "setup_open r \<longleftrightarrow>
     rq_method r = ''OPTIONS''
     \<or> rq_path r \<in> {''/healthz'', ''/readyz'', ''/health'', ''/api/setup/status'', ''/api/setup/preview'', ''/api/setup/complete'',
                    ''/api/system/timezones'', ''/api/auth/login'', ''/api/auth/logout'', ''/api/auth/me'', ''/api/auth/change-password''}
     \<or> take 11 (rq_path r) = ''/api/setup/''
     \<or> rq_path r \<in> {''/api/health'', ''/api/healthz'', ''/api/readyz''}
     \<or> (rq_path r = ''/api/system/timezone'' \<and> rq_method r \<in> {''GET'', ''PUT''})"

definition setupGate :: "bool option \<Rightarrow> http_req \<Rightarrow> gate" where
  "setupGate ready r =
     (if setup_open r then Pass None
      else case ready of
             Some ok \<Rightarrow> if ok then Pass None else Refuse 428
           | None \<Rightarrow> if starts_api r then Refuse 428 else Pass None)"

definition INGEST_ALLOWED_ROUTES :: "(string \<times> string) list" where
  "INGEST_ALLOWED_ROUTES = [(''POST'', ''/api/ioc/ip'')]"

definition ingestCapabilityPolicy :: "http_req \<Rightarrow> principal option \<Rightarrow> gate" where
  "ingestCapabilityPolicy r who =
     (case who of
        Some p \<Rightarrow>
          if pr_via p = Ingest \<and> starts_api r \<and> (rq_method r, rq_path r) \<notin> set INGEST_ALLOWED_ROUTES
          then Refuse 403 else Pass who
      | None \<Rightarrow> Pass who)"

definition via_text :: "auth_via \<Rightarrow> string" where
  "via_text v = (case v of Ingest \<Rightarrow> ''ingest'' | Bearer \<Rightarrow> ''bearer'' | Cookie \<Rightarrow> ''cookie'')"

text \<open>The request as the role policies see it.\<close>

definition policy_view :: "http_req \<Rightarrow> principal option \<Rightarrow> request" where
  "policy_view r who =
     \<lparr>path = rq_path r, http_method = rq_method r, authVia = map_option (\<lambda>p. via_text (pr_via p)) who,
      user = map_option (\<lambda>p. Some (pr_role p)) who\<rparr>"

definition roleGate :: "http_req \<Rightarrow> principal option \<Rightarrow> gate" where
  "roleGate r who = (if rbacHttpPolicy (policy_view r who) = Next then Pass who else Refuse 403)"

text \<open>One gate after the other; the last answer stands.\<close>

definition then_gate :: "gate \<Rightarrow> (principal option \<Rightarrow> gate) \<Rightarrow> gate" where
  "then_gate g f = (case g of Refuse n \<Rightarrow> Refuse n | Pass who \<Rightarrow> f who)"

definition gates :: "(int \<Rightarrow> string \<Rightarrow> claims option) \<Rightarrow> gate_env \<Rightarrow> bool option \<Rightarrow> int \<Rightarrow> auth_db option \<Rightarrow> http_req \<Rightarrow> gate" where
  "gates verify env ready now db r =
     then_gate (setupGate ready r) (\<lambda>_.
     then_gate (apiAuthGate (verify now) env r) (\<lambda>who.
     then_gate (authVersionGate now db r who) (\<lambda>who.
     then_gate (csrfProtection r who) (\<lambda>who.
     then_gate (passwordChangeGate db r who) (\<lambda>who.
     then_gate (ingestCapabilityPolicy r who) (roleGate r))))))"

section \<open>The System Administrator\<close>

definition isCallerSystemAdmin :: "auth_db option \<Rightarrow> principal option \<Rightarrow> bool" where
  "isCallerSystemAdmin db who =
     (case who of
        None \<Rightarrow> False
      | Some p \<Rightarrow>
          pr_via p \<noteq> Ingest
          \<and> (case (pr_id p, db) of
               (Some u, Some d) \<Rightarrow> (case find_account u d of None \<Rightarrow> False | Some a \<Rightarrow> is_system_admin a)
             | _ \<Rightarrow> False))"

definition requireSystemAdmin :: "auth_db option \<Rightarrow> principal option \<Rightarrow> gate" where
  "requireSystemAdmin db who = (if isCallerSystemAdmin db who then Pass who else Refuse 403)"

section \<open>API keys\<close>

record access_key =
  key_id :: nat
  token_hash :: string
  key_profile :: string
  key_scopes :: "string list"
  key_enabled :: bool
  key_revoked :: bool
  key_deleted :: bool
  key_expires :: "int option"
  key_owner :: "nat option"
  last_used_ip :: "string option"
  last_used_at :: "int option"

datatype key_status = KeyDeleted | KeyExpired | KeyDisabled | KeyActive

definition keyStatus :: "int \<Rightarrow> access_key \<Rightarrow> key_status" where
  "keyStatus now k =
     (if key_deleted k \<or> key_revoked k then KeyDeleted
      else if (case key_expires k of None \<Rightarrow> False | Some e \<Rightarrow> e \<le> now) then KeyExpired
      else if \<not> key_enabled k then KeyDisabled
      else KeyActive)"

text \<open>The bytes that \<open>Buffer.from(text, 'hex')\<close> reads, as pairs of digits.\<close>

fun hex_bytes :: "string \<Rightarrow> (char \<times> char) list" where
  "hex_bytes (a # b # rest) = (if is_hex a \<and> is_hex b then (js_lower_char a, js_lower_char b) # hex_bytes rest else [])"
| "hex_bytes _ = []"

definition timingSafeHashEqual :: "string \<Rightarrow> string \<Rightarrow> bool" where
  "timingSafeHashEqual a b \<longleftrightarrow> hex_bytes a \<noteq> [] \<and> hex_bytes a = hex_bytes b"

definition find_key :: "string \<Rightarrow> access_key list \<Rightarrow> access_key option" where
  "find_key h keys = find (\<lambda>k. token_hash k = h \<and> \<not> key_deleted k) keys"

definition touchApiKeyLastUsed :: "int \<Rightarrow> nat \<Rightarrow> string option \<Rightarrow> access_key list \<Rightarrow> access_key list" where
  "touchApiKeyLastUsed now i ip keys =
     map (\<lambda>k. if key_id k = i then k\<lparr>last_used_at := Some now, last_used_ip := ip\<rparr> else k) keys"

datatype key_result = KeyRefused nat | KeyAccepted access_key "string list"

text \<open>The check both key gates start with; \<open>None\<close> for the keys is a failing query.\<close>

definition check_key :: "(string \<Rightarrow> string) \<Rightarrow> int \<Rightarrow> access_key list option \<Rightarrow> string option \<Rightarrow> key_result" where
  "check_key sha now keys header =
     (case extractBearer header of
        None \<Rightarrow> KeyRefused 401
      | Some raw \<Rightarrow>
          (case keys of
             None \<Rightarrow> KeyRefused 500
           | Some ks \<Rightarrow>
               (case find_key (sha raw) ks of
                  None \<Rightarrow> KeyRefused 401
                | Some k \<Rightarrow>
                    if \<not> timingSafeHashEqual (sha raw) (token_hash k) then KeyRefused 401
                    else (case keyStatus now k of
                            KeyDeleted \<Rightarrow> KeyRefused 401
                          | KeyDisabled \<Rightarrow> KeyRefused 403
                          | KeyExpired \<Rightarrow> KeyRefused 403
                          | KeyActive \<Rightarrow> KeyAccepted k (normalizeScopes (key_scopes k))))))"

text \<open>An accepted key is stamped with the time and the address of its use.\<close>

definition stamped :: "int \<Rightarrow> string option \<Rightarrow> access_key \<Rightarrow> access_key list option \<Rightarrow> access_key list option" where
  "stamped now ip k keys = map_option (touchApiKeyLastUsed now (key_id k) ip) keys"

definition authenticateApiKey ::
    "(string \<Rightarrow> string) \<Rightarrow> int \<Rightarrow> string option \<Rightarrow> access_key list option \<Rightarrow> string option
     \<Rightarrow> access_key list option \<times> key_result" where
  "authenticateApiKey sha now ip keys header =
     (let r = check_key sha now keys header
      in (case r of KeyAccepted k _ \<Rightarrow> stamped now ip k keys | KeyRefused _ \<Rightarrow> keys, r))"

text \<open>What follows \<open>authenticateApiKey\<close> on a route.\<close>

definition requireApiScope :: "string \<Rightarrow> key_result \<Rightarrow> key_result" where
  "requireApiScope scope r =
     (case r of
        KeyRefused n \<Rightarrow> KeyRefused n
      | KeyAccepted k scopes \<Rightarrow> if hasApiScope scopes (js_trim scope) then r else KeyRefused 403)"

definition hasAnyMcpScope :: "string list \<Rightarrow> bool" where
  "hasAnyMcpScope scopes \<longleftrightarrow>
     list_ex (hasApiScope scopes) [MCP_IOC_READ, MCP_IOC_CREATE, MCP_ENRICHMENT_READ, MCP_ENRICHMENT_WRITE, MCP_SOURCES_READ]"

text \<open>The scopes of the key and the role of its owner, whose intersection decides on a tool.\<close>

datatype mcp_result = McpRefused nat | McpAccepted access_key "string list" account string

definition mcp_decision ::
    "(string \<Rightarrow> string) \<Rightarrow> bool \<Rightarrow> int \<Rightarrow> auth_db \<Rightarrow> access_key list option \<Rightarrow> string option \<Rightarrow> mcp_result" where
  "mcp_decision sha mcpEnabled now db keys header =
     (if \<not> mcpEnabled then McpRefused 503
      else case check_key sha now keys header of
        KeyRefused n \<Rightarrow> McpRefused n
      | KeyAccepted k scopes \<Rightarrow>
          if \<not> isMcpAccessProfile (key_profile k) \<and> \<not> hasAnyMcpScope scopes then McpRefused 403
          else (case Option.bind (key_owner k) (\<lambda>u. find_account u db) of
                  None \<Rightarrow> McpRefused 403
                | Some a \<Rightarrow>
                    (case normalizeAppRole (Some (acc_role a)) of
                       None \<Rightarrow> McpRefused 403
                     | Some role \<Rightarrow> if \<not> is_active a then McpRefused 403 else McpAccepted k scopes a role)))"

definition authenticateMcp ::
    "(string \<Rightarrow> string) \<Rightarrow> bool \<Rightarrow> int \<Rightarrow> string option \<Rightarrow> auth_db \<Rightarrow> access_key list option \<Rightarrow> string option
     \<Rightarrow> access_key list option \<times> mcp_result" where
  "authenticateMcp sha mcpEnabled now ip db keys header =
     (let r = mcp_decision sha mcpEnabled now db keys header
      in (case r of McpAccepted k _ _ _ \<Rightarrow> stamped now ip k keys | McpRefused _ \<Rightarrow> keys, r))"

section \<open>What a request that passes has shown\<close>

lemma then_gate_Pass: "then_gate g f = Pass who \<longleftrightarrow> (\<exists>w. g = Pass w \<and> f w = Pass who)"
  by (cases g) (auto simp: then_gate_def)

lemma gates_Pass:
  "gates verify env ready now db r = Pass who \<longleftrightarrow>
     (\<exists>w. setupGate ready r = Pass w) \<and> apiAuthGate (verify now) env r = Pass who \<and> authVersionGate now db r who = Pass who
     \<and> csrfProtection r who = Pass who \<and> passwordChangeGate db r who = Pass who \<and> ingestCapabilityPolicy r who = Pass who
     \<and> roleGate r who = Pass who"
proof -
  have v: "authVersionGate now db r w = Pass w' \<Longrightarrow> w' = w" for w w'
    by (auto simp: authVersionGate_def Let_def split: if_splits option.splits)
  have c: "csrfProtection r w = Pass w' \<Longrightarrow> w' = w" for w w' by (auto simp: csrfProtection_def split: if_splits option.splits)
  have p: "passwordChangeGate db r w = Pass w' \<Longrightarrow> w' = w" for w w'
    by (auto simp: passwordChangeGate_def split: if_splits option.splits)
  have i: "ingestCapabilityPolicy r w = Pass w' \<Longrightarrow> w' = w" for w w' by (auto simp: ingestCapabilityPolicy_def split: if_splits option.splits)
  have g: "roleGate r w = Pass w' \<Longrightarrow> w' = w" for w w' by (auto simp: roleGate_def split: if_splits)
  show ?thesis unfolding gates_def then_gate_Pass by (blast dest: v c p i g)
qed

lemma attached_claims:
  assumes "tryAttachSession verify env r = Some p" "pr_claims p = Some c"
  shows "pr_id p = cl_user c" "pr_via p \<noteq> Ingest"
  using assms
  by (auto simp: tryAttachSession_def userFromJwtPayload_def ingest_principal_def Let_def split: if_splits option.splits
      simp: bind_eq_Some_conv)

text \<open>Where a principal comes from.\<close>

definition attached_from :: "(string \<Rightarrow> claims option) \<Rightarrow> gate_env \<Rightarrow> http_req \<Rightarrow> principal \<Rightarrow> bool" where
  "attached_from verify env r p \<longleftrightarrow>
     (pr_via p = Ingest \<and> ge_ingest_token env \<noteq> [] \<and> map_option js_trim (rq_ingest r) = Some (ge_ingest_token env))
     \<or> (\<exists>t c. verify t = Some c \<and> pr_claims p = Some c \<and> pr_id p = cl_user c \<and> Some (pr_role p) = normalizeAppRole (cl_role c)
          \<and> (pr_via p = Bearer \<and> ge_allow_bearer env \<and> extractBearer (rq_authorization r) = Some t
             \<or> pr_via p = Cookie \<and> map_option js_trim (ck_session r) = Some t))"

lemma attach_from: "tryAttachSession verify env r = Some p \<Longrightarrow> attached_from verify env r p"
  by (auto simp: tryAttachSession_def attached_from_def userFromJwtPayload_def ingest_principal_def Let_def
      effectiveRoleFromPayload_def bind_eq_Some_conv split: if_splits option.splits)

definition protected_request :: "http_req \<Rightarrow> bool" where
  "protected_request r \<longleftrightarrow> starts_api r \<and> \<not> open_route r \<and> \<not> optional_auth_route r \<and> rq_method r \<noteq> ''OPTIONS''"

lemma protected_attached:
  assumes "protected_request r" "apiAuthGate verify env r = Pass who"
  shows "\<exists>p. who = Some p \<and> tryAttachSession verify env r = Some p"
  using assms by (cases "tryAttachSession verify env r") (auto simp: protected_request_def apiAuthGate_def)

text \<open>What the database says of a human principal.\<close>

definition vouched :: "int \<Rightarrow> auth_db \<Rightarrow> http_req \<Rightarrow> principal \<Rightarrow> bool" where
  "vouched now d r p \<longleftrightarrow>
     (\<exists>a\<in>set (accounts d). pr_id p = Some (acc_id a) \<and> is_active a \<and> Option.bind (pr_claims p) cl_av = Some (acc_version a)
        \<and> (must_change_password a \<longrightarrow> rq_path r \<in> set PASSWORD_CHANGE_GATE_ALLOWLIST)
        \<and> (pr_via p = Cookie \<longrightarrow>
             (\<exists>s\<in>set (sess d). requestTokenSessionId p = Some (session_id s) \<and> user_id s = acc_id a \<and> alive now s)))"

lemma session_open_alive: "session_open now (joined_session sid u t) \<longleftrightarrow>
    (\<exists>i s. sid = Some i \<and> find (\<lambda>s. session_id s = i \<and> user_id s = u) t = Some s \<and> alive now s)"
  by (auto simp: session_open_def joined_session_def alive_def bind_eq_Some_conv split: option.splits)

lemma version_vouched:
  assumes "authVersionGate now db r (Some p) = Pass who" "passwordChangeGate db r (Some p) = Pass who'"
    and "starts_api r" "rq_method r \<noteq> ''OPTIONS''" "\<not> optional_auth_route r" "pr_via p \<noteq> Ingest"
  shows "\<exists>d. db = Some d \<and> vouched now d r p"
proof -
  have nl: "\<not> (rq_path r = ''/api/auth/logout'' \<and> rq_method r = ''POST'')" using assms(5) by (auto simp: optional_auth_route_def)
  obtain u av d a where a: "pr_id p = Some u" "Option.bind (pr_claims p) cl_av = Some av" "db = Some d" "find_account u d = Some a"
      "is_active a" "acc_version a = av"
      "pr_via p = Cookie \<longrightarrow> session_open now (joined_session (requestTokenSessionId p) u (sess d))"
    using assms(1,3,6) nl by (auto simp: authVersionGate_def Let_def split: if_splits option.splits)
  have "must_change_password a \<longrightarrow> rq_path r \<in> set PASSWORD_CHANGE_GATE_ALLOWLIST"
    using assms(2-4,6) a by (auto simp: passwordChangeGate_def split: if_splits)
  moreover have "\<exists>s\<in>set (sess d). requestTokenSessionId p = Some (session_id s) \<and> user_id s = acc_id a \<and> alive now s"
    if "pr_via p = Cookie"
    using a(4,7) that by (auto simp: session_open_alive find_Some_iff dest!: find_account_Some intro!: bexI)
  ultimately show ?thesis using a find_account_Some [OF a(4)] unfolding vouched_def by blast
qed


section \<open>Tokens after security events\<close>

text \<open>
  C9: Logging out, changing the password, and an administrator's reset, deactivation or deletion end every
  token of the account at once: whatever happens afterwards, a protected request that presents a token
  signed before is refused.  (A logout does so if its update of the version has run.)
\<close>

theorem ended_tokens_are_refused:
  assumes "reachable (\<lambda>s. s = (empty_db, [])) (auth_step w) (db, toks)" "c \<in> set toks" "cl_user c = Some u"
    and "ends_tokens w now op db u"
    and "(auth_step w)\<^sup>*\<^sup>* (fst (auth_exec w now op db), tokens_after (snd (auth_exec w now op db)) toks) (db', toks')"
    and "protected_request r" "tryAttachSession (verify later) env r = Some p" "pr_claims p = Some c"
  shows "\<exists>n. gates verify env ready later (Some db') r = Refuse n"
proof (cases "gates verify env ready later (Some db') r")
  case (Pass who)
  note g = Pass [unfolded gates_Pass]
  have who: "who = Some p" using protected_attached [OF assms(6)] g assms(7) by fastforce
  have r: "starts_api r" "rq_method r \<noteq> ''OPTIONS''" "\<not> optional_auth_route r" using assms(6) by (simp_all add: protected_request_def)
  have "vouched later db' r p"
    using version_vouched [OF _ _ r attached_claims(2) [OF assms(7,8)]] g who by blast
  then obtain a where "a \<in> set (accounts db')" "cl_user c = Some (acc_id a)" "cl_av c = Some (acc_version a)"
    using attached_claims(1) [OF assms(7,8)] assms(8) by (auto simp: vouched_def)
  moreover have "token_dead db' c" by (rule event_kills_for_good [OF assms(1-5)])
  ultimately show ?thesis by (auto simp: token_dead_def)
qed simp

section \<open>Changes of a role or a password by an administrator\<close>

lemma find_account_update:
  assumes "\<And>a. acc_id (f a) = acc_id a"
  shows "find_account u (update_account i f db) = map_option (\<lambda>a. if acc_id a = i then f a else a) (find_account u db)"
proof -
  have "find (\<lambda>a. acc_id a = u) (map (\<lambda>a. if acc_id a = i then f a else a) xs)
      = map_option (\<lambda>a. if acc_id a = i then f a else a) (find (\<lambda>a. acc_id a = u) xs)" for xs
    by (induction xs) (auto simp: assms)
  then show ?thesis by (simp add: find_account_def)
qed

definition keeps_standing :: "(account \<Rightarrow> account) \<Rightarrow> bool" where
  "keeps_standing f \<longleftrightarrow> (\<forall>a. is_active (f a) = is_active a \<and> acc_version (f a) = acc_version a
     \<and> (must_change_password (f a) \<longrightarrow> must_change_password a))"

lemma update_user_keeps:
  "\<exists>f. keeps_standing f \<and> (\<forall>u. find_account u (fst (update_user newHash c i b db)) = map_option f (find_account u db))
     \<and> sess (fst (update_user newHash c i b db)) = sess db"
proof (cases rule: update_user_cases [of newHash c i b db])
  case own
  define f :: "account \<Rightarrow> account" where "f = (\<lambda>a. if acc_id a = i then a\<lparr>first_name := given (map_option js_trim (ub_first b)) (first_name a),
                                     last_name := given (map_option js_trim (ub_last b)) (last_name a)\<rparr> else a)"
  show ?thesis
  proof (cases "fst (update_own_names c i b db) = db")
    case True
    then show ?thesis using own by (intro exI [of _ "\<lambda>a. a"]) (simp add: keeps_standing_def option.map_ident)
  next
    case False
    then have u: "fst (update_own_names c i b db) = update_account i (\<lambda>a. a\<lparr>first_name := given (map_option js_trim (ub_first b)) (first_name a),
                                     last_name := given (map_option js_trim (ub_last b)) (last_name a)\<rparr>) db"
      by (auto simp: update_own_names_def)
    show ?thesis using own u by (intro exI [of _ f]) (simp add: keeps_standing_def find_account_update f_def)
  qed
next
  case refused
  then show ?thesis by (intro exI [of _ "\<lambda>a. a"]) (simp add: keeps_standing_def option.map_ident)
next
  case (wrote ctx)
  define f :: "account \<Rightarrow> account" where "f = (\<lambda>a. if acc_id a = i then write_user newHash (new_name b) (next_role b) (password_given b) b a else a)"
  show ?thesis using wrote(1)
    by (intro exI [of _ f]) (simp add: keeps_standing_def find_account_update f_def write_user_def)
qed

text \<open>
  C38: What an administrator writes into an account does not reach its tokens.  Neither a new role nor a new
  password changes the version of the account or its sessions: every request that passed before the
  change passes after it, with the principal and so with the role of the token it carries.
\<close>

theorem update_leaves_tokens:
  assumes "gates verify env ready now (Some db) r = Pass who"
  shows "gates verify env ready now (Some (fst (update_user newHash c i b db))) r = Pass who"
proof -
  let ?db' = "fst (update_user newHash c i b db)"
  obtain f where f: "keeps_standing f" "\<And>u. find_account u ?db' = map_option f (find_account u db)" "sess ?db' = sess db"
    using update_user_keeps [of newHash c i b db] by blast
  have k: "is_active (f a) = is_active a" "acc_version (f a) = acc_version a" "must_change_password (f a) \<Longrightarrow> must_change_password a"
    for a using f(1) by (simp_all add: keeps_standing_def)
  have "authVersionGate now (Some ?db') r who = authVersionGate now (Some db) r who"
  proof (cases who)
    case p: (Some p)
    show ?thesis
    proof (cases "pr_id p")
      case (Some u)
      then show ?thesis
        by (cases "find_account u db"; cases "Option.bind (pr_claims p) cl_av")
          (simp_all add: authVersionGate_def Let_def p f(2,3) k(1,2))
    qed (simp add: authVersionGate_def p)
  qed (simp add: authVersionGate_def)
  moreover have "passwordChangeGate (Some ?db') r who = Pass who" if "passwordChangeGate (Some db) r who = Pass who"
    using that k f(2) by (auto simp: passwordChangeGate_def split: if_splits option.splits)
  ultimately show ?thesis using assms by (auto simp: gates_Pass)
qed

section \<open>Requests outside the prefix\<close>

text \<open>
  The gates look at requests whose path begins with \<open>/api\<close> in lower case.  Any other spelling passes all
  of them without credentials on an installation that is set up, whatever it says and whoever sends it;
  and the handler that updates users takes a caller without a principal for an administrator.
\<close>

theorem other_spelling_is_not_gated:
  assumes "\<not> starts_api r" "\<not> open_route r" "\<not> optional_auth_route r"
  shows "gates verify env (Some True) now db r = Pass None
    \<and> update_user newHash \<lparr>ca_id = None, ca_role = None, ca_ingest = False\<rparr> i b d
        = update_user newHash \<lparr>ca_id = None, ca_role = Some ADMIN, ca_ingest = False\<rparr> i b d"
proof
  have "setupGate (Some True) r = Pass None" by (simp add: setupGate_def)
  then show "gates verify env (Some True) now db r = Pass None"
    using assms by (simp add: gates_def then_gate_def apiAuthGate_def authVersionGate_def csrfProtection_def csrf_exempt_def
        passwordChangeGate_def ingestCapabilityPolicy_def roleGate_def rbacHttpPolicy_def policy_view_def starts_api_def)
  have "normalizeAppRole None = None" "normalizeAppRole (Some ADMIN) = Some ADMIN" by code_simp+
  moreover have "ADMIN \<noteq> READONLY" by (simp add: role_defs)
  ultimately show "update_user newHash \<lparr>ca_id = None, ca_role = None, ca_ingest = False\<rparr> i b d
        = update_user newHash \<lparr>ca_id = None, ca_role = Some ADMIN, ca_ingest = False\<rparr> i b d"
    by (simp add: update_user_def)
qed

section \<open>Keys\<close>

lemma check_key_accepts:
  "check_key sha now keys header = KeyAccepted k scopes \<longleftrightarrow>
     (\<exists>raw ks. extractBearer header = Some raw \<and> keys = Some ks \<and> find_key (sha raw) ks = Some k \<and> hex_bytes (sha raw) \<noteq> []
        \<and> \<not> key_revoked k \<and> (\<forall>e. key_expires k = Some e \<longrightarrow> now < e) \<and> key_enabled k \<and> scopes = normalizeScopes (key_scopes k))"
proof -
  have t: "find_key h ks = Some k \<Longrightarrow> token_hash k = h \<and> \<not> key_deleted k" for h ks k
    by (auto simp: find_key_def find_Some_iff)
  have st: "keyStatus now k = KeyActive \<longleftrightarrow> \<not> key_deleted k \<and> \<not> key_revoked k \<and> (\<forall>e. key_expires k = Some e \<longrightarrow> now < e) \<and> key_enabled k" for k
    by (auto simp: keyStatus_def split: option.splits)
  show ?thesis
  proof (cases "extractBearer header")
    case (Some raw)
    show ?thesis
    proof (cases keys)
      case ks: (Some ks)
      show ?thesis
      proof (cases "find_key (sha raw) ks")
        case k: (Some k')
        then show ?thesis using Some ks t [OF k] st [of k']
          by (cases "keyStatus now k'") (auto simp: check_key_def timingSafeHashEqual_def)
      qed (auto simp: check_key_def Some ks)
    qed (auto simp: check_key_def Some)
  qed (auto simp: check_key_def)
qed

text \<open>
  C25: A call of a tool over MCP is authorized only by a key that was issued, is enabled, neither revoked nor
  deleted nor expired, and belongs to an active user; the key has every scope the tool needs, and a tool
  that analysts alone may use needs an owner who is an analyst or administrator at the time of the call.
\<close>

theorem mcp_call_needs_key_and_owner:
  assumes "authenticateMcp sha enabled now ip db (Some keys) header = (keys', McpAccepted k scopes a role)"
    and "authorizeMcpTool tool scopes (Some role) = Authorized"
  shows "k \<in> set keys \<and> (\<exists>raw. extractBearer header = Some raw \<and> token_hash k = sha raw)
    \<and> key_enabled k \<and> \<not> key_revoked k \<and> \<not> key_deleted k \<and> (\<forall>e. key_expires k = Some e \<longrightarrow> now < e)
    \<and> a \<in> set (accounts db) \<and> key_owner k = Some (acc_id a) \<and> is_active a
    \<and> (\<exists>required. (js_trim tool, required) \<in> set MCP_TOOL_SCOPES \<and> list_all (hasApiScope (key_scopes k)) required)
    \<and> (js_trim tool \<in> set analyst_tools \<longrightarrow> canTriage (Some (acc_role a)))"
proof -
  have k: "check_key sha now (Some keys) header = KeyAccepted k scopes"
    and a: "Option.bind (key_owner k) (\<lambda>u. find_account u db) = Some a" "normalizeAppRole (Some (acc_role a)) = Some role" "is_active a"
    using assms(1) by (auto simp: authenticateMcp_def mcp_decision_def split: if_splits key_result.splits option.splits)
  from k obtain raw where raw: "extractBearer header = Some raw" "find_key (sha raw) keys = Some k" "\<not> key_revoked k"
      "\<forall>e. key_expires k = Some e \<longrightarrow> now < e" "key_enabled k" "scopes = normalizeScopes (key_scopes k)"
    by (auto simp: check_key_accepts)
  have row: "k \<in> set keys" "token_hash k = sha raw" "\<not> key_deleted k" using raw(2) by (auto simp: find_key_def find_Some_iff)
  have owner: "a \<in> set (accounts db)" "key_owner k = Some (acc_id a)"
    using a(1) by (auto simp: bind_eq_Some_conv dest!: find_account_Some)
  obtain required where req: "(js_trim tool, required) \<in> set MCP_TOOL_SCOPES" "list_all (hasApiScope scopes) required"
      "owner_allowed (js_trim tool) (Some role)"
    using assms(2) by (auto simp: authorized_iff)
  have same: "hasApiScope (normalizeScopes xs) x = hasApiScope xs x" for xs x
    by (auto simp: hasApiScope_iff normalizeScopes_def) (metis)
  have "canTriage (Some (acc_role a))" if "js_trim tool \<in> set analyst_tools"
  proof -
    have "normalizeAppRole (Some role) = Some role" using a(2) by (auto simp: normalizeAppRole_def Let_def split: if_splits)
    then show ?thesis using req(3) that a(2) by (simp add: owner_allowed_def canTriage_def)
  qed
  then show ?thesis using raw row owner a(3) req(1,2) same by (auto simp: list_all_iff)
qed

section \<open>The theorems at work\<close>

definition eve_login :: auth_op where
  "eve_login = LogIn ''s1'' ''sec'' ''eve'' (Some ''h2'') None"

definition logged :: "auth_db \<times> claims option" where
  "logged = auth_exec sample_world 3000 eve_login staffed"

definition eve_token :: claims where
  "eve_token = \<lparr>cl_email = ''eve'', cl_username = ''eve'', cl_role = Some ADMIN, cl_user = Some 2, cl_av = Some 1, cl_sid = Some ''s1'',
     cl_exp = Some 903\<rparr>"

definition eve :: principal where
  "eve = \<lparr>pr_id = Some 2, pr_role = ADMIN, pr_via = Cookie, pr_claims = Some eve_token\<rparr>"

definition sample_verify :: "int \<Rightarrow> string \<Rightarrow> claims option" where
  "sample_verify now t = (if t = ''tok'' then Some eve_token else None)"

definition sample_env :: gate_env where
  "sample_env = \<lparr>ge_ingest_token = [], ge_allow_bearer = False\<rparr>"

text \<open>With the session cookie and the CSRF token.\<close>

definition post_users :: http_req where
  "post_users = \<lparr>rq_path = ''/api/users'', rq_method = ''POST'', rq_authorization = None, rq_ingest = None, rq_csrf = Some ''x'',
     ck_session = Some ''tok'', ck_csrf = Some ''x'', rq_api_key = None\<rparr>"

lemma logged_token: "snd logged = Some eve_token"
  by code_simp

lemma eve_passes: "gates sample_verify sample_env (Some True) 4000 (Some (fst logged)) post_users = Pass (Some eve)"
  by code_simp

lemma post_users_protected: "protected_request post_users"
  by code_simp

lemma eve_attached: "tryAttachSession (sample_verify now) sample_env post_users = Some eve"
  by (simp add: tryAttachSession_def sample_verify_def sample_env_def post_users_def extractBearer_def userFromJwtPayload_def
      eve_def eve_token_def effectiveRoleFromPayload_def) code_simp


lemma logged_reachable: "reachable (\<lambda>s. s = (empty_db, [])) (auth_step sample_world) (fst logged, [eve_token])"
proof -
  have "auth_step sample_world (staffed, []) (fst logged, [eve_token])"
    using auth_step.step [of sample_world staffed "[]" 3000 eve_login] logged_token by (simp add: logged_def tokens_after_def)
  then show ?thesis by (rule reachable.more [OF reachable.more [OF installed_reachable staffed_step]])
qed

definition eve_leaves :: auth_op where
  "eve_leaves = LogOut True False \<lparr>ca_id = Some 2, ca_role = Some ADMIN, ca_ingest = False\<rparr> []"

theorem ended_tokens_are_refused_witness:
  "\<exists>n. gates sample_verify sample_env (Some True) 5000 (Some (fst (auth_exec sample_world 4500 eve_leaves (fst logged)))) post_users = Refuse n"
proof (rule ended_tokens_are_refused [OF logged_reachable _ _ _ rtranclp.rtrancl_refl post_users_protected eve_attached])
  show "eve_token \<in> set [eve_token]" "pr_claims eve = Some eve_token" by (simp_all add: eve_def)
  show "cl_user eve_token = Some 2" by (simp add: eve_token_def)
  show "ends_tokens sample_world 4500 eve_leaves (fst logged) 2" by (simp add: eve_leaves_def)
qed

text \<open>An administrator becomes a read-only user and goes on creating users.\<close>

definition demotion :: user_body where
  "demotion = \<lparr>ub_first = None, ub_last = None, ub_username = None, ub_role = Some (Some ''readonly''), ub_password = None,
     ub_reason = Some ''left the team''\<rparr>"

definition demoted :: auth_db where
  "demoted = fst (update_user ''h9'' root_caller 2 demotion (fst logged))"

theorem update_leaves_tokens_witness:
  "gates sample_verify sample_env (Some True) 4000 (Some demoted) post_users = Pass (Some eve)
   \<and> pr_role eve = ADMIN \<and> map acc_role (accounts demoted) = [ADMIN, READONLY]"
proof (intro conjI)
  show "gates sample_verify sample_env (Some True) 4000 (Some demoted) post_users = Pass (Some eve)"
    unfolding demoted_def by (rule update_leaves_tokens [OF eve_passes])
  show "pr_role eve = ADMIN" by (simp add: eve_def)
  show "map acc_role (accounts demoted) = [ADMIN, READONLY]" by code_simp
qed

definition put_API :: http_req where
  "put_API = \<lparr>rq_path = ''/API/users/1'', rq_method = ''PUT'', rq_authorization = None, rq_ingest = None, rq_csrf = None,
     ck_session = None, ck_csrf = None, rq_api_key = None\<rparr>"

theorem other_spelling_is_not_gated_witness:
  "gates sample_verify sample_env (Some True) 4000 (Some (fst logged)) put_API = Pass None
   \<and> map acc_role (accounts (fst (update_user ''h9'' \<lparr>ca_id = None, ca_role = None, ca_ingest = False\<rparr> 2 demotion (fst logged)))) = [ADMIN, READONLY]"
proof -
  have "\<not> starts_api put_API" "\<not> open_route put_API" "\<not> optional_auth_route put_API" by code_simp+
  note o = other_spelling_is_not_gated [OF this]
  have "map acc_role (accounts (fst (update_user ''h9'' \<lparr>ca_id = None, ca_role = Some ADMIN, ca_ingest = False\<rparr> 2 demotion (fst logged)))) = [ADMIN, READONLY]"
    by code_simp
  then show ?thesis using o [of sample_verify sample_env 4000 "Some (fst logged)" "''h9''" 2 demotion "fst logged"] by simp
qed

definition eve_key :: access_key where
  "eve_key = \<lparr>key_id = 1, token_hash = replicate 64 (CHR ''a''), key_profile = ''mcp_analyst'', key_scopes = [MCP_IOC_READ, MCP_TAGS_WRITE],
     key_enabled = True, key_revoked = False, key_deleted = False, key_expires = Some 9000, key_owner = Some 2, last_used_ip = None,
     last_used_at = None\<rparr>"

theorem mcp_call_needs_key_and_owner_witness:
  "\<exists>a\<in>set (accounts (fst logged)). is_active a \<and> acc_id a = 2 \<and> canTriage (Some (acc_role a))"
proof -
  have a: "authenticateMcp (o_sha sample_world) True 4000 (Some ''10.0.0.7'') (fst logged) (Some [eve_key]) (Some ''Bearer th_mcp_x'')
      = (Some [eve_key\<lparr>last_used_at := Some 4000, last_used_ip := Some ''10.0.0.7''\<rparr>],
         McpAccepted eve_key [MCP_IOC_READ, MCP_TAGS_WRITE] (the (find_account 2 (fst logged))) ADMIN)"
    by code_simp
  have "authorizeMcpTool ''add_ioc_tags'' [MCP_IOC_READ, MCP_TAGS_WRITE] (Some ADMIN) = Authorized" by code_simp
  note c = mcp_call_needs_key_and_owner [OF a this]
  have "js_trim ''add_ioc_tags'' \<in> set analyst_tools" by code_simp
  then show ?thesis using c by (auto simp: eve_key_def)
qed

end
