(* ===== verification/PubChunks.thy ===== *)
theory PubChunks
  imports TH_Prelude "HOL-Library.Word"
begin

text \<open>
  Published feeds: chunks and serialized bodies (\<open>publishedFeedChunks.js\<close>,
  \<open>publishedFeedArtifact/streamWriter.js\<close> and the response loop of
  \<open>publishedFeedChunkGeneration.js\<close>).  An identity is assigned to one of a power-of-two number of
  buckets by the first word of its SHA-256; every bucket is a file, written by a streaming writer per
  format; a response is header, files with separators, footer.  SHA-256 is an argument.  Items arrive
  as the text \<open>JSON.stringify\<close> gives for them; bytes are written as UTF-8, here lists of characters
  below 256.
\<close>

section \<open>Number of chunks\<close>

definition PUBLISHED_FEED_CHUNK_ALGO_VERSION :: int where "PUBLISHED_FEED_CHUNK_ALGO_VERSION = 1"
definition PUBLISHED_FEED_CHUNK_TARGET_ROWS :: int where "PUBLISHED_FEED_CHUNK_TARGET_ROWS = 5000"
definition PUBLISHED_FEED_CHUNK_MIN :: int where "PUBLISHED_FEED_CHUNK_MIN = 64"
definition PUBLISHED_FEED_CHUNK_MAX :: int where "PUBLISHED_FEED_CHUNK_MAX = 512"

text \<open>The loop \<open>while (n < value) n *= 2\<close>; it starts at 1.\<close>

function double_until :: "int \<Rightarrow> int \<Rightarrow> int" where
  "double_until n v = (if 0 < n \<and> n < v then double_until (2 * n) v else n)"
  by auto
termination by (relation "measure (\<lambda>(n, v). nat (v - n))") auto

declare double_until.simps [simp del]

definition clampPowerOfTwo :: "int \<Rightarrow> int \<Rightarrow> int \<Rightarrow> int" where
  "clampPowerOfTwo value mn mx =
     (let n = double_until 1 value;
          lower = (if n > 1 then n div 2 else 1);
          nearest = (if value - lower < n - value then lower else n)
      in max mn (min mx nearest))"

definition choosePublishedFeedChunkCount :: "int \<Rightarrow> int \<Rightarrow> int \<Rightarrow> int \<Rightarrow> int" where
  "choosePublishedFeedChunkCount itemCount targetRows mn mx =
     (let rows = max 0 itemCount;
          target = max 1 (if targetRows = 0 then PUBLISHED_FEED_CHUNK_TARGET_ROWS else targetRows)
      in clampPowerOfTwo (max 1 ((rows + target - 1) div target)) mn mx)"

abbreviation default_chunk_count :: "int \<Rightarrow> int" where
  "default_chunk_count items \<equiv> choosePublishedFeedChunkCount items PUBLISHED_FEED_CHUNK_TARGET_ROWS
     PUBLISHED_FEED_CHUNK_MIN PUBLISHED_FEED_CHUNK_MAX"

section \<open>Partition identities and buckets\<close>

datatype chunk_error =
    InvalidPartitionIdentity
  | UnsupportedAlgoVersion
  | NotAPowerOfTwo
  | MissingTypeAndValue
  | InvalidArtifactId

text \<open>UTF-8 of a Latin-1 string, and \<open>Buffer.byteLength\<close>.\<close>

definition utf8_char :: "char \<Rightarrow> string" where
  "utf8_char c = (if code_unit c < 128 then [c]
     else [char_of (192 + code_unit c div 64), char_of (128 + code_unit c mod 64)])"

definition utf8 :: "string \<Rightarrow> string" where
  "utf8 s = concat (map utf8_char s)"

definition byteLength :: "string \<Rightarrow> nat" where
  "byteLength s = length (utf8 s)"

definition normalizePartitionIdentity :: "string \<Rightarrow> (chunk_error, string) result" where
  "normalizePartitionIdentity value =
     (let identity = js_trim value in
      case identity of
        p # q # _ \<Rightarrow> if js_lower_char p \<in> {CHR ''a'', CHR ''o''} \<and> q = CHR '':'' then Inr identity
                     else Inl InvalidPartitionIdentity
      | _ \<Rightarrow> Inl InvalidPartitionIdentity)"

text \<open>\<open>digest.readUInt32BE(0)\<close>.\<close>

fun readUInt32BE :: "8 word list \<Rightarrow> 32 word" where
  "readUInt32BE (a # b # c # d # _) = word_rcat [a, b, c, d]"
| "readUInt32BE _ = 0"

text \<open>\<open>&\<close> works on signed 32-bit integers.\<close>

definition publishedFeedChunkKey ::
    "(string \<Rightarrow> 8 word list) \<Rightarrow> string \<Rightarrow> int \<Rightarrow> int \<Rightarrow> (chunk_error, int) result" where
  "publishedFeedChunkKey sha256 partitionIdentity count version =
     (if version \<noteq> PUBLISHED_FEED_CHUNK_ALGO_VERSION then Inl UnsupportedAlgoVersion
      else if count < 1 \<or> and (word_of_int count :: 32 word) (word_of_int (count - 1)) \<noteq> 0 then Inl NotAPowerOfTwo
      else case normalizePartitionIdentity partitionIdentity of
             Inl e \<Rightarrow> Inl e
           | Inr identity \<Rightarrow>
               Inr (sint (and (readUInt32BE (sha256 (utf8 identity))) (word_of_int (count - 1)))))"

definition observablePartitionIdentity :: "string \<Rightarrow> string \<Rightarrow> (chunk_error, string) result" where
  "observablePartitionIdentity observableType observable =
     (let t = js_lower (js_trim observableType); v = js_lower (js_trim observable) in
      if t = [] \<or> v = [] then Inl MissingTypeAndValue else Inr (''o:'' @ t @ '':'' @ v))"

definition is_uuid :: "string \<Rightarrow> bool" where
  "is_uuid s \<longleftrightarrow> map length (js_split (CHR ''-'') s) = [8, 4, 4, 4, 12]
     \<and> list_all (list_all is_hex_lower) (js_split (CHR ''-'') s)"

definition artifactPartitionIdentity :: "string \<Rightarrow> (chunk_error, string) result" where
  "artifactPartitionIdentity artifactId =
     (let i = js_lower (js_trim artifactId) in
      if is_uuid i then Inr (''a:'' @ i) else Inl InvalidArtifactId)"

text \<open>Empty strings and null fields of the row are falsy alike; \<open>txt_value ?? observable\<close>.\<close>

record partition_row =
  pr_partition_identity :: string
  pr_resolved_artifact_id :: string
  pr_observable_type :: string
  pr_txt_value :: "string option"
  pr_observable :: string

definition partitionIdentityForProjectionRow :: "partition_row \<Rightarrow> (chunk_error, string) result" where
  "partitionIdentityForProjectionRow row =
     (if pr_partition_identity row \<noteq> [] then normalizePartitionIdentity (pr_partition_identity row)
      else if pr_resolved_artifact_id row \<noteq> [] then artifactPartitionIdentity (pr_resolved_artifact_id row)
      else observablePartitionIdentity (pr_observable_type row)
             (case pr_txt_value row of Some v \<Rightarrow> v | None \<Rightarrow> pr_observable row))"

section \<open>Envelope length and ETag\<close>

text \<open>A referenced chunk as the manifest query returns it.\<close>

record chunk_ref =
  ref_content_hash :: string
  ref_byte_length :: nat
  ref_item_count :: nat

definition logicalRepresentationLength :: "string \<Rightarrow> string \<Rightarrow> chunk_ref list \<Rightarrow> string \<Rightarrow> nat" where
  "logicalRepresentationLength header footer chunks separator =
     (let nonEmpty = filter (\<lambda>c. ref_byte_length c > 0) chunks;
          chunkBytes = sum_list (map ref_byte_length nonEmpty);
          separators = (length nonEmpty - 1) * byteLength separator
      in byteLength header + chunkBytes + separators + byteLength footer)"

text \<open>The updates of the ETag's hash, concatenated; \<open>sha256_hex\<close> is the hex digest.\<close>

fun etag_chunks :: "string \<Rightarrow> bool \<Rightarrow> chunk_ref list \<Rightarrow> string" where
  "etag_chunks separator first [] = []"
| "etag_chunks separator first (c # cs) =
     (if first then [] else utf8 separator) @ ref_content_hash c @ '':'' @ show_nat (ref_byte_length c) @ '';''
     @ etag_chunks separator False cs"

abbreviation NUL :: char where "NUL \<equiv> CHR 0x00"

definition etag_preimage :: "string \<Rightarrow> nat \<Rightarrow> string \<Rightarrow> string \<Rightarrow> chunk_ref list \<Rightarrow> string \<Rightarrow> string" where
  "etag_preimage format version header footer chunks separator =
     ''talonhound-published-feed-representation-v1'' @ [NUL] @ utf8 format @ [NUL] @ show_nat version @ [NUL]
     @ utf8 header @ etag_chunks separator True chunks @ utf8 footer"

definition strongRepresentationEtag ::
    "(string \<Rightarrow> string) \<Rightarrow> string \<Rightarrow> nat \<Rightarrow> string \<Rightarrow> string \<Rightarrow> chunk_ref list \<Rightarrow> string \<Rightarrow> string" where
  "strongRepresentationEtag sha256_hex format version header footer chunks separator =
     [DQUOTE] @ sha256_hex (etag_preimage format version header footer chunks separator) @ [DQUOTE]"

section \<open>Serialized values\<close>

text \<open>\<open>JSON.stringify\<close> of a string, a boolean and a nullable string.\<close>

definition hex_digit :: "nat \<Rightarrow> char" where
  "hex_digit d = (if d < 10 then digit_char d else char_of (87 + d))"

definition json_char :: "char \<Rightarrow> string" where
  "json_char c =
     (if c = DQUOTE \<or> c = BACKSLASH then [BACKSLASH, c]
      else if code_unit c = 8 then [BACKSLASH, CHR ''b'']
      else if code_unit c = 9 then [BACKSLASH, CHR ''t'']
      else if code_unit c = 10 then [BACKSLASH, CHR ''n'']
      else if code_unit c = 12 then [BACKSLASH, CHR ''f'']
      else if code_unit c = 13 then [BACKSLASH, CHR ''r'']
      else if code_unit c < 32 then [BACKSLASH] @ ''u00'' @ [hex_digit (code_unit c div 16), hex_digit (code_unit c mod 16)]
      else [c])"

definition json_string :: "string \<Rightarrow> string" where
  "json_string s = [DQUOTE] @ concat (map json_char s) @ [DQUOTE]"

definition json_nullable :: "string option \<Rightarrow> string" where
  "json_nullable v = (case v of None \<Rightarrow> ''null'' | Some s \<Rightarrow> json_string s)"

definition json_bool :: "bool \<Rightarrow> string" where
  "json_bool b = (if b then ''true'' else ''false'')"

text \<open>A property of an object literal: the key in quotes, a colon and the value.\<close>

definition json_prop :: "string \<Rightarrow> string \<Rightarrow> string" where
  "json_prop key v = json_string key @ '':'' @ v"

definition json_object :: "(string \<times> string) list \<Rightarrow> string" where
  "json_object ps = ''{'' @ js_join '','' (map (\<lambda>(k, v). json_prop k v) ps) @ ''}''"

section \<open>Envelopes\<close>

record include_flags =
  includeSourceMetadata :: bool
  includeClassification :: bool
  includeEnrichment :: bool

definition PUBLISHED_FEED_SCHEMA_VERSION :: string where "PUBLISHED_FEED_SCHEMA_VERSION = ''1.0''"
definition STIX_SPEC_VERSION :: string where "STIX_SPEC_VERSION = ''2.1''"

definition LF :: char where "LF = CHR 0x0A"

definition JSON_FEED_FOOTER :: string where "JSON_FEED_FOOTER = '']}'' @ [LF]"
definition STIX_FEED_FOOTER :: string where "STIX_FEED_FOOTER = '']}'' @ [LF]"

definition buildJsonFeedHeader :: "string option \<Rightarrow> string \<Rightarrow> nat \<Rightarrow> include_flags \<Rightarrow> string" where
  "buildJsonFeedHeader name generatedAt itemCount flags =
     ''{'' @ json_prop ''schema_version'' (json_string PUBLISHED_FEED_SCHEMA_VERSION) @ '',''
     @ json_prop ''feed'' (json_object
         [(''name'', json_nullable name), (''generated_at'', json_string generatedAt),
          (''item_count'', show_nat itemCount),
          (''include_source_metadata'', json_bool (includeSourceMetadata flags)),
          (''include_classification'', json_bool (includeClassification flags)),
          (''include_enrichment'', json_bool (includeEnrichment flags))])
     @ '','' @ json_string ''items'' @ '':[''"

text \<open>The bundle id is \<open>stixBundleIdForFeed(slug)\<close>, a version 5 UUID.\<close>

definition buildStixFeedHeader :: "string \<Rightarrow> string" where
  "buildStixFeedHeader bundle_id =
     ''{'' @ json_prop ''type'' (json_string ''bundle'') @ '','' @ json_prop ''id'' (json_string bundle_id) @ '',''
     @ json_prop ''spec_version'' (json_string STIX_SPEC_VERSION) @ '','' @ json_string ''objects'' @ '':[''"

section \<open>Streaming writers\<close>

text \<open>
  A writer's fields; \<open>w_hash\<close> and \<open>w_frag\<close> are what has been fed to its two hashes, \<open>w_out\<close> what has
  been written to its stream.
\<close>

record writer =
  w_hash :: string
  w_frag :: string
  w_bytes :: nat
  w_count :: nat
  w_first :: bool
  w_out :: string

definition fresh_writer :: "string \<Rightarrow> writer" where
  "fresh_writer seed = \<lparr>w_hash = utf8 seed, w_frag = [], w_bytes = 0, w_count = 0, w_first = True, w_out = []\<rparr>"

definition StreamingTxtWriter :: writer where
  "StreamingTxtWriter = fresh_writer []"

definition addValue :: "string \<Rightarrow> writer \<Rightarrow> writer" where
  "addValue v w =
     (let line = utf8 (v @ [LF]) in
      w\<lparr>w_hash := w_hash w @ line, w_bytes := w_bytes w + length line, w_count := w_count w + 1,
        w_out := w_out w @ line\<rparr>)"

definition StreamingJsonBodyWriter :: "string option \<Rightarrow> include_flags \<Rightarrow> writer" where
  "StreamingJsonBodyWriter name flags = fresh_writer (json_object
     [(''schema_version'', json_string PUBLISHED_FEED_SCHEMA_VERSION), (''name'', json_nullable name),
      (''flags'', json_object
         [(''include_source_metadata'', json_bool (includeSourceMetadata flags)),
          (''include_classification'', json_bool (includeClassification flags)),
          (''include_enrichment'', json_bool (includeEnrichment flags))])])"

definition addItem :: "string \<Rightarrow> writer \<Rightarrow> writer" where
  "addItem chunk w =
     (let bytes = utf8 (if w_first w then chunk else '','' @ chunk) in
      w\<lparr>w_hash := w_hash w @ [LF] @ utf8 chunk, w_frag := w_frag w @ bytes,
        w_bytes := w_bytes w + length bytes, w_count := w_count w + 1, w_first := False,
        w_out := w_out w @ bytes\<rparr>)"

definition StreamingStixBodyWriter :: "string \<Rightarrow> writer" where
  "StreamingStixBodyWriter bundle_id = fresh_writer (json_object
     [(''spec_version'', json_string STIX_SPEC_VERSION), (''bundle_id'', json_string bundle_id)])"

definition addIndicator :: "string option \<Rightarrow> writer \<Rightarrow> writer" where
  "addIndicator indicator w = (case indicator of None \<Rightarrow> w | Some chunk \<Rightarrow> addItem chunk w)"

text \<open>\<open>finished.fragment_hash || finished.content_hash\<close>: TXT has no fragment hash.\<close>

datatype fmt = TXT | JSON | STIX

definition content_hash_of :: "(string \<Rightarrow> string) \<Rightarrow> fmt \<Rightarrow> writer \<Rightarrow> string" where
  "content_hash_of sha256_hex format w = sha256_hex (if format = TXT then w_hash w else w_frag w)"

section \<open>The response\<close>

text \<open>
  \<open>streamChunkGeneration\<close>: what has been written to the response.  \<open>closed_at\<close> gives, for the file
  at a position, how many of its bytes were written when the loop saw the connection closed; \<open>None\<close> when
  the file was sent whole, and at the position after the last file \<open>Some _\<close> means closed before the footer.
\<close>

fun stream_files :: "(nat \<Rightarrow> nat option) \<Rightarrow> string \<Rightarrow> bool \<Rightarrow> nat \<Rightarrow> string list \<Rightarrow> string \<times> bool" where
  "stream_files closed_at separator emitted i [] = ([], closed_at i = None)"
| "stream_files closed_at separator emitted i (f # fs) =
     (let sep = (if emitted \<and> separator \<noteq> [] then utf8 separator else []) in
      case closed_at i of
        Some n \<Rightarrow> (sep @ take n f, False)
      | None \<Rightarrow> (let (rest, done) = stream_files closed_at separator True (Suc i) fs in (sep @ f @ rest, done)))"

definition streamChunkGeneration :: "(nat \<Rightarrow> nat option) \<Rightarrow> string \<Rightarrow> string \<Rightarrow> string \<Rightarrow> string list \<Rightarrow> string" where
  "streamChunkGeneration closed_at header footer separator files =
     (let (body, done) = stream_files closed_at separator False 0 files
      in utf8 header @ body @ (if done then utf8 footer else []))"

abbreviation full_response :: "string \<Rightarrow> string \<Rightarrow> string \<Rightarrow> string list \<Rightarrow> string" where
  "full_response \<equiv> streamChunkGeneration (\<lambda>_. None)"

section \<open>Adding projection rows\<close>

text \<open>
  The columns of a projection row that the writers read; \<open>ex_item_json\<close> is the item as
  \<open>JSON.stringify\<close> gives it, \<open>indicator\<close> the serialized \<open>indicatorFromPublishedItem(item)\<close>.  Every row
  goes to the writers of all formats; \<open>None\<close> is the error for a row without an item.
\<close>

record export_row =
  ex_txt_value :: string
  ex_item_json :: "string option"

fun addProjectionRow :: "(string \<Rightarrow> string option) \<Rightarrow> fmt \<Rightarrow> export_row \<Rightarrow> writer \<Rightarrow> writer option" where
  "addProjectionRow indicator TXT row w = Some (addValue (ex_txt_value row) w)"
| "addProjectionRow indicator JSON row w =
     (case ex_item_json row of None \<Rightarrow> None | Some item \<Rightarrow> Some (addItem item w))"
| "addProjectionRow indicator STIX row w =
     (case ex_item_json row of None \<Rightarrow> None | Some item \<Rightarrow> Some (addIndicator (indicator item) w))"

fun add_rows :: "(string \<Rightarrow> string option) \<Rightarrow> fmt \<Rightarrow> export_row list \<Rightarrow> writer \<Rightarrow> writer option" where
  "add_rows indicator f [] w = Some w"
| "add_rows indicator f (r # rs) w =
     (case addProjectionRow indicator f r w of None \<Rightarrow> None | Some w' \<Rightarrow> add_rows indicator f rs w')"

text \<open>The separator between files of \<open>formatEnvelope\<close>.\<close>

definition format_separator :: "fmt \<Rightarrow> string" where
  "format_separator f = (if f = TXT then [] else '','')"

section \<open>Facts about the number of chunks and the buckets\<close>

lemma double_until_power:
  assumes "0 < n"
  shows "\<exists>k. double_until n v = n * 2 ^ k" "v \<le> double_until n v" "double_until n v = n \<or> double_until n v < 2 * v"
  using assms
proof (induction n v rule: double_until.induct)
  case (1 n v)
  {
    case 1
    show ?case
    proof (cases "n < v")
      case True
      then obtain k where "double_until (2 * n) v = 2 * n * 2 ^ k" using "1.IH"(1) 1 by auto
      then have "double_until n v = n * 2 ^ Suc k" using True 1 by (simp add: double_until.simps [of n])
      then show ?thesis by blast
    next
      case False
      then show ?thesis by (intro exI [of _ 0]) (simp add: double_until.simps [of n])
    qed
  next
    case 2
    then show ?case using "1.IH"(2) by (cases "n < v") (simp_all add: double_until.simps [of n])
  next
    case 3
    then show ?case using "1.IH"(3) by (cases "n < v") (auto simp: double_until.simps [of n])
  }
qed

lemma clamped_power: "\<exists>j. max 64 (min 512 ((2::int) ^ m)) = 2 ^ j"
proof -
  consider "m \<le> 6" | "m = 7" | "m = 8" | "9 \<le> m" by linarith
  then show ?thesis
  proof cases
    case 1
    then have "(2::int) ^ m \<le> 2 ^ 6" by (intro power_increasing) auto
    then show ?thesis by (intro exI [of _ 6]) auto
  next
    case 4
    then have "(2::int) ^ 9 \<le> 2 ^ m" by (intro power_increasing) auto
    then show ?thesis by (intro exI [of _ 9]) auto
  qed (auto intro: exI [of _ 7] exI [of _ 8])
qed

text \<open>The power of two nearest to \<open>v\<close>, before it is clamped.\<close>

lemma nearest_power:
  assumes "1 \<le> v"
  obtains m where "clampPowerOfTwo v mn mx = max mn (min mx (2 ^ m))" "2 * v \<le> 3 * 2 ^ m" "3 * 2 ^ m \<le> 4 * v"
proof -
  let ?n = "double_until 1 v"
  obtain k where k: "?n = 2 ^ k" using double_until_power(1) [of 1 v] by auto
  have v: "v \<le> 2 ^ k" "(2::int) ^ k = 1 \<or> 2 ^ k < 2 * v"
    using double_until_power(2,3) [of 1 v] k by auto
  show ?thesis
  proof (cases "k = 0")
    case True
    then show ?thesis using v(1) assms k
      by (intro that [of 0]) (simp_all add: clampPowerOfTwo_def)
  next
    case False
    then obtain j where j: "k = Suc j" by (cases k) auto
    let ?pick = "if v - 2 ^ j < 2 * 2 ^ j - v then j else Suc j"
    have "(2::int) ^ j \<ge> 1" by simp
    then have "1 < 2 * (2::int) ^ j" by linarith
    then have "clampPowerOfTwo v mn mx = max mn (min mx (2 ^ ?pick))"
      by (auto simp: clampPowerOfTwo_def Let_def k j)
    then show ?thesis using v j \<open>(2::int) ^ j \<ge> 1\<close> by (intro that [of ?pick]) auto
  qed
qed

lemma chunk_count_power:
  "\<exists>k. default_chunk_count items = 2 ^ k" "64 \<le> default_chunk_count items" "default_chunk_count items \<le> 512"
proof -
  let ?v = "max 1 ((4999 + max 0 items) div 5000)"
  have c: "default_chunk_count items = clampPowerOfTwo ?v 64 512"
    by (simp add: choosePublishedFeedChunkCount_def PUBLISHED_FEED_CHUNK_TARGET_ROWS_def
        PUBLISHED_FEED_CHUNK_MIN_def PUBLISHED_FEED_CHUNK_MAX_def)
  obtain m where m: "clampPowerOfTwo ?v 64 512 = max 64 (min 512 (2 ^ m))"
    using nearest_power [of ?v 64 512] by auto
  show "\<exists>k. default_chunk_count items = 2 ^ k" unfolding c m by (rule clamped_power)
  show "64 \<le> default_chunk_count items" "default_chunk_count items \<le> 512" unfolding c m by simp_all
qed

text \<open>A bucket holds about the target number of rows, unless a bound of the count applies.\<close>

lemma chunk_count_load:
  assumes "64 * 5000 \<le> items" "items \<le> 512 * 5000"
  shows "2 * items \<le> 3 * 5000 * default_chunk_count items" "3 * 5000 * default_chunk_count items \<le> 4 * (items + 4999)"
proof -
  let ?v = "(4999 + items) div 5000"
  have v: "64 \<le> ?v" "?v \<le> 512" "items \<le> 5000 * ?v" "5000 * ?v \<le> items + 4999" using assms by auto
  obtain m where m: "clampPowerOfTwo ?v 64 512 = max 64 (min 512 (2 ^ m))" "2 * ?v \<le> 3 * 2 ^ m" "3 * 2 ^ m \<le> 4 * ?v"
    using nearest_power [of ?v 64 512] v(1) by auto
  have c: "default_chunk_count items = max 64 (min 512 (2 ^ m))"
    using m(1) assms v(1) by (simp add: choosePublishedFeedChunkCount_def PUBLISHED_FEED_CHUNK_TARGET_ROWS_def
        PUBLISHED_FEED_CHUNK_MIN_def PUBLISHED_FEED_CHUNK_MAX_def max_absorb2)
  then have le: "2 * ?v \<le> 3 * default_chunk_count items" "3 * default_chunk_count items \<le> 4 * ?v"
    using m(2,3) v(1,2) by (auto simp: max_def min_def)
  show "2 * items \<le> 3 * 5000 * default_chunk_count items"
    using le(1) v(3) by linarith
  have "5000 * (3 * default_chunk_count items) \<le> 5000 * (4 * ?v)" using le(2) by simp
  also have "\<dots> \<le> 4 * (items + 4999)" using v(4) by simp
  finally show "3 * 5000 * default_chunk_count items \<le> 4 * (items + 4999)" by simp
qed

lemma word_mask_mod:
  assumes "n \<le> 31"
  shows "sint (and (w :: 32 word) (word_of_int (2 ^ n - 1))) = uint w mod 2 ^ n"
proof -
  have "and w (word_of_int (2 ^ n - 1)) = take_bit n w"
    by (simp add: take_bit_eq_mask mask_eq_exp_minus_1)
  moreover have "sint (take_bit n w) = uint (take_bit n w)"
  proof -
    have "uint (take_bit n w) < 2 ^ n" by (simp add: unsigned_take_bit_eq take_bit_int_less_exp)
    also have "(2::int) ^ n \<le> 2 ^ 31" using assms by (intro power_increasing) auto
    finally show ?thesis
      using uint_ge_0 [of "take_bit n w"]
      by (simp add: sint_uint signed_take_bit_int_eq_self_iff order_trans [OF _ uint_ge_0])
  qed
  moreover have "uint (take_bit n w) = uint w mod 2 ^ n"
    unfolding unsigned_take_bit_eq by (rule take_bit_eq_mod)
  ultimately show ?thesis by metis
qed

lemma power_of_two_check: "and (word_of_int (2 ^ n) :: 32 word) (word_of_int (2 ^ n - 1)) = 0"
proof -
  have "and (word_of_int (2 ^ n) :: 32 word) (word_of_int (2 ^ n - 1)) = take_bit n (2 ^ n)"
    by (simp add: take_bit_eq_mask mask_eq_exp_minus_1)
  also have "\<dots> = 0"
    by (rule bit_word_eqI) (simp add: bit_take_bit_iff bit_exp_iff)
  finally show ?thesis .
qed

lemma chunk_key_mod:
  assumes "count = 2 ^ n" "n \<le> 31" "normalizePartitionIdentity p = Inr identity"
  shows "publishedFeedChunkKey sha256 p count 1 = Inr (uint (readUInt32BE (sha256 (utf8 identity))) mod count)"
proof -
  have "\<not> (2::int) ^ n < 1" by (simp add: not_less)
  then show ?thesis
    unfolding publishedFeedChunkKey_def PUBLISHED_FEED_CHUNK_ALGO_VERSION_def assms(1,3) word_mask_mod [OF assms(2)]
      power_of_two_check by simp
qed

section \<open>Facts about responses\<close>

lemma utf8_append [simp]: "utf8 (a @ b) = utf8 a @ utf8 b"
  by (simp add: utf8_def)

lemma utf8_Nil [simp]: "utf8 [] = []"
  by (simp add: utf8_def)

lemma utf8_eq_Nil [simp]: "utf8 s = [] \<longleftrightarrow> s = []"
  by (cases s) (auto simp: utf8_def utf8_char_def)

lemma stream_files_full: "stream_files (\<lambda>_. None) sep emitted i fs = (concat (map (\<lambda>f. utf8 sep @ f) fs), True)" if emitted
  using that by (induction fs arbitrary: i emitted) auto

lemma full_response_eq:
  "full_response header footer sep fs =
     utf8 header @ (case fs of [] \<Rightarrow> [] | f # fs' \<Rightarrow> f @ concat (map (\<lambda>f. utf8 sep @ f) fs')) @ utf8 footer"
  by (cases fs) (simp_all add: streamChunkGeneration_def stream_files_full)

lemma full_response_join: "full_response header footer sep fs = utf8 header @ js_join (utf8 sep) fs @ utf8 footer"
proof -
  have "js_join s (f # fs') = f @ concat (map (\<lambda>f. s @ f) fs')" for s f and fs' :: "string list"
    by (induction fs' arbitrary: f) auto
  then show ?thesis by (cases fs) (simp_all add: full_response_eq)
qed

lemma stream_files_prefix:
  "\<exists>rest. fst (stream_files (\<lambda>_. None) sep emitted i fs) = fst (stream_files closed_at sep emitted i fs) @ rest
     \<and> (snd (stream_files closed_at sep emitted i fs) \<longrightarrow> rest = [])"
proof (induction fs arbitrary: emitted i)
  case (Cons f fs)
  show ?case
  proof (cases "closed_at i")
    case None
    then show ?thesis using Cons.IH [of True "Suc i"] by (auto simp: split_beta)
  next
    case (Some n)
    have "f = take n f @ drop n f" by simp
    then show ?thesis using Some
      by (auto simp: split_beta intro!: exI [of _ "drop n f @ fst (stream_files (\<lambda>_. None) sep True (Suc i) fs)"])
  qed
qed simp

text \<open>What an interrupted connection has received is a beginning of the whole response.\<close>

lemma interrupted_response_is_prefix:
  "\<exists>rest. full_response header footer sep fs = streamChunkGeneration closed_at header footer sep fs @ rest"
proof -
  obtain rest where "fst (stream_files (\<lambda>_. None) sep False 0 fs) = fst (stream_files closed_at sep False 0 fs) @ rest"
    "snd (stream_files closed_at sep False 0 fs) \<longrightarrow> rest = []"
    using stream_files_prefix [of sep False 0 fs closed_at] by blast
  moreover have "snd (stream_files (\<lambda>_. None) sep e i fs)" for e i
    by (induction fs arbitrary: e i) (auto simp: split_beta)
  ultimately show ?thesis
    by (cases "snd (stream_files closed_at sep False 0 fs)") (auto simp: streamChunkGeneration_def split_beta)
qed

lemma length_concat_sep: "length (concat (map (\<lambda>f. sep @ f) fs)) = length fs * length sep + sum_list (map length fs)"
  by (induction fs) auto

lemma length_full_response:
  "length (full_response header footer sep fs) =
     byteLength header + sum_list (map length fs) + (length fs - 1) * byteLength sep + byteLength footer"
  by (cases fs) (simp_all add: full_response_eq length_concat_sep byteLength_def)

section \<open>Facts about writers\<close>

text \<open>The texts that a row contributes to a format.\<close>

fun row_texts :: "(string \<Rightarrow> string option) \<Rightarrow> fmt \<Rightarrow> export_row \<Rightarrow> string list" where
  "row_texts indicator TXT row = [ex_txt_value row @ [LF]]"
| "row_texts indicator JSON row = (case ex_item_json row of None \<Rightarrow> [] | Some item \<Rightarrow> [item])"
| "row_texts indicator STIX row =
     (case ex_item_json row of None \<Rightarrow> [] | Some item \<Rightarrow> (case indicator item of None \<Rightarrow> [] | Some x \<Rightarrow> [x]))"

abbreviation all_texts :: "(string \<Rightarrow> string option) \<Rightarrow> fmt \<Rightarrow> export_row list \<Rightarrow> string list" where
  "all_texts indicator f rows \<equiv> concat (map (row_texts indicator f) rows)"

text \<open>What a writer has written after these texts.\<close>

definition holds_texts :: "fmt \<Rightarrow> string list \<Rightarrow> writer \<Rightarrow> bool" where
  "holds_texts f ts w \<longleftrightarrow>
     w_out w = utf8 (js_join (format_separator f) ts) \<and> w_bytes w = length (w_out w) \<and> w_count w = length ts
     \<and> (f = TXT \<longrightarrow> w_hash w = w_out w) \<and> (f \<noteq> TXT \<longrightarrow> w_frag w = w_out w \<and> w_first w = (ts = []))"

lemma js_join_eq_Nil: "[] \<notin> set ts \<Longrightarrow> js_join sep ts = [] \<longleftrightarrow> ts = []"
  by (cases ts; cases "tl ts") auto

lemma js_join_snoc: "js_join sep (ts @ [t]) = (if ts = [] then t else js_join sep ts @ sep @ t)"
  by (cases "ts = []") (simp_all add: js_join_append)

lemma addValue_holds: "holds_texts TXT ts w \<Longrightarrow> holds_texts TXT (ts @ [v @ [LF]]) (addValue v w)"
  by (auto simp: holds_texts_def addValue_def Let_def js_join_snoc format_separator_def)

lemma addItem_holds: "f \<noteq> TXT \<Longrightarrow> holds_texts f ts w \<Longrightarrow> holds_texts f (ts @ [t]) (addItem t w)"
  by (auto simp: holds_texts_def addItem_def Let_def js_join_snoc format_separator_def)

lemma addProjectionRow_holds:
  "\<lbrakk>addProjectionRow indicator f row w = Some w'; holds_texts f ts w\<rbrakk>
   \<Longrightarrow> holds_texts f (ts @ row_texts indicator f row) w'"
  by (cases f) (auto simp: addIndicator_def addValue_holds addItem_holds split: option.splits)

lemma add_rows_holds:
  "\<lbrakk>add_rows indicator f rows w = Some w'; holds_texts f ts w\<rbrakk>
   \<Longrightarrow> holds_texts f (ts @ all_texts indicator f rows) w'"
proof (induction rows arbitrary: w ts)
  case (Cons r rs)
  then obtain v where v: "addProjectionRow indicator f r w = Some v" "add_rows indicator f rs v = Some w'"
    by (auto split: option.splits)
  from Cons.IH [OF v(2) addProjectionRow_holds [OF v(1) Cons.prems(2)]] show ?case by simp
qed simp

lemma fresh_writer_holds: "f = TXT \<longrightarrow> seed = [] \<Longrightarrow> holds_texts f [] (fresh_writer seed)"
  by (auto simp: holds_texts_def fresh_writer_def)

section \<open>Properties\<close>

text \<open>
  The number of chunks chosen for a feed is a power of two between 64 and 512, and whatever
  SHA-256 returns every valid partition identity falls into one of these buckets.
\<close>

theorem chunk_key_in_range:
  assumes "normalizePartitionIdentity p = Inr identity"
  shows "\<exists>k n. publishedFeedChunkKey sha256 p (default_chunk_count items) PUBLISHED_FEED_CHUNK_ALGO_VERSION = Inr k
     \<and> 0 \<le> k \<and> k < default_chunk_count items \<and> default_chunk_count items = 2 ^ n
     \<and> 64 \<le> default_chunk_count items \<and> default_chunk_count items \<le> 512"
proof -
  obtain n where n: "default_chunk_count items = 2 ^ n" using chunk_count_power(1) by blast
  have "(2::int) ^ n \<le> 2 ^ 9" using chunk_count_power(3) [of items] n by simp
  then have "n \<le> 9" by (rule power_le_imp_le_exp [rotated]) simp
  then have "n \<le> 31" by simp
  then show ?thesis
    using chunk_key_mod [OF n _ assms] chunk_count_power(2,3) [of items] n
    by (auto simp: PUBLISHED_FEED_CHUNK_ALGO_VERSION_def intro!: exI [of _ n])
qed

theorem chunk_key_in_range_witness:
  "\<exists>k n. publishedFeedChunkKey (\<lambda>_. replicate 32 255) ''o:domain:evil.example'' (default_chunk_count 1200000)
       PUBLISHED_FEED_CHUNK_ALGO_VERSION = Inr k
     \<and> 0 \<le> k \<and> k < default_chunk_count 1200000 \<and> default_chunk_count 1200000 = 2 ^ n
     \<and> 64 \<le> default_chunk_count 1200000 \<and> default_chunk_count 1200000 \<le> 512"
  by (rule chunk_key_in_range [of _ "''o:domain:evil.example''"]) code_simp

text \<open>
  the \<open>Content-Length\<close> computed from the manifest is exact: when the recorded byte lengths are
  those of the files and no empty file is listed, it is the length of what an uninterrupted response
  sends.
\<close>

theorem content_length_exact:
  assumes "map ref_byte_length refs = map length files" "[] \<notin> set files"
  shows "logicalRepresentationLength header footer refs separator = length (full_response header footer separator files)"
proof -
  have "filter (\<lambda>c. ref_byte_length c > 0) refs = refs"
  proof (rule filter_True, rule ballI)
    fix c assume "c \<in> set refs"
    then have "ref_byte_length c \<in> set (map length files)" using assms(1) by (metis image_eqI list.set_map)
    then show "ref_byte_length c > 0" using assms(2) by auto
  qed
  moreover have "length refs = length files" using assms(1) by (metis length_map)
  ultimately show ?thesis
    by (simp add: logicalRepresentationLength_def Let_def length_full_response assms(1))
qed

theorem content_length_exact_witness:
  "logicalRepresentationLength ''{[ '' '']}'' [\<lparr>ref_content_hash = ''h1'', ref_byte_length = 3, ref_item_count = 1\<rparr>,
      \<lparr>ref_content_hash = ''h2'', ref_byte_length = 4, ref_item_count = 1\<rparr>] '',''
   = length (full_response ''{[ '' '']}'' '','' [''123'', ''4567''])"
  by (rule content_length_exact) simp_all

text \<open>
  C22: splitting the rows of a feed into files does not change what is published: sending the files
  of the groups one after the other, without the empty ones, gives the document that one writer would
  have written for all rows in that order.
\<close>

theorem chunked_response_is_monolithic:
  assumes seed: "f = TXT \<longrightarrow> seed = []"
    and groups: "list_all2 (\<lambda>rows w. add_rows indicator f rows (fresh_writer seed) = Some w) groups ws"
    and whole: "add_rows indicator f (concat groups) (fresh_writer seed) = Some v"
    and texts: "[] \<notin> set (all_texts indicator f (concat groups))"
  shows "full_response header footer (format_separator f) (filter (\<lambda>b. b \<noteq> []) (map w_out ws))
         = utf8 header @ w_out v @ utf8 footer"
proof -
  let ?sep = "format_separator f" and ?ts = "\<lambda>rows. all_texts indicator f rows"
  have out: "w_out w = utf8 (js_join ?sep (?ts rows))" if "add_rows indicator f rows (fresh_writer seed) = Some w" for rows w
    using add_rows_holds [OF that fresh_writer_holds [OF seed]] by (simp add: holds_texts_def)
  have "map w_out ws = map (\<lambda>rows. utf8 (js_join ?sep (?ts rows))) groups"
    using groups by (induction rule: list_all2_induct) (simp_all add: out)
  moreover have "js_join ?sep (?ts rows) = [] \<longleftrightarrow> ?ts rows = []" if "rows \<in> set groups" for rows
  proof -
    have "[] \<notin> set (?ts rows)" using texts that by auto
    then show ?thesis by (rule js_join_eq_Nil)
  qed
  ultimately have bodies: "filter (\<lambda>b. b \<noteq> []) (map w_out ws)
      = map utf8 (map (\<lambda>rows. js_join ?sep (?ts rows)) (filter (\<lambda>rows. ?ts rows \<noteq> []) groups))"
    by (simp add: filter_map o_def cong: filter_cong)
  have utf8_join: "js_join (utf8 s) (map utf8 xs) = utf8 (js_join s xs)" for s xs
    by (induction s xs rule: js_join.induct) auto
  have "js_join ?sep (map (\<lambda>rows. js_join ?sep (?ts rows)) (filter (\<lambda>rows. ?ts rows \<noteq> []) groups))
      = js_join ?sep (concat (map ?ts (filter (\<lambda>rows. ?ts rows \<noteq> []) groups)))"
    by (rule js_join_concat) simp
  also have "concat (map ?ts (filter (\<lambda>rows. ?ts rows \<noteq> []) groups)) = ?ts (concat groups)"
    by (induction groups) auto
  finally show ?thesis
    unfolding full_response_join bodies utf8_join using out [OF whole] by simp
qed

definition sample_rows :: "export_row list list" where
  "sample_rows = [[\<lparr>ex_txt_value = ''a.example'', ex_item_json = Some ''1''\<rparr>, \<lparr>ex_txt_value = ''b.example'', ex_item_json = Some ''2''\<rparr>],
     [\<lparr>ex_txt_value = ''c.example'', ex_item_json = Some ''3''\<rparr>], [\<lparr>ex_txt_value = ''d.example'', ex_item_json = Some ''4''\<rparr>]]"

text \<open>STIX, where the item \<open>3\<close> has no indicator and leaves its file empty.\<close>

definition sample_indicator :: "string \<Rightarrow> string option" where
  "sample_indicator item = (if item = ''3'' then None else Some (''i'' @ item))"

theorem chunked_response_is_monolithic_witness:
  "full_response ''['' '']'' '','' [''i1,i2'', ''i4''] = ''[i1,i2,i4]''"
proof -
  have "full_response ''['' '']'' (format_separator STIX)
      (filter (\<lambda>b. b \<noteq> []) (map w_out (map (\<lambda>rows. the (add_rows sample_indicator STIX rows (fresh_writer []))) sample_rows)))
    = utf8 ''['' @ w_out (the (add_rows sample_indicator STIX (concat sample_rows) (fresh_writer []))) @ utf8 '']''"
    by (rule chunked_response_is_monolithic [where indicator = sample_indicator and groups = sample_rows and seed = "[]"]; code_simp)
  moreover have "map (\<lambda>rows. the (add_rows sample_indicator STIX rows (fresh_writer []))) sample_rows \<noteq> []" by code_simp
  moreover have "filter (\<lambda>b. b \<noteq> []) (map w_out (map (\<lambda>rows. the (add_rows sample_indicator STIX rows (fresh_writer []))) sample_rows)) = [''i1,i2'', ''i4'']"
    by code_simp
  moreover have "utf8 ''['' @ w_out (the (add_rows sample_indicator STIX (concat sample_rows) (fresh_writer []))) @ utf8 '']'' = ''[i1,i2,i4]''"
    by code_simp
  ultimately show ?thesis by (simp add: format_separator_def)
qed

end
