(* ===== verification/PubProjection.thy ===== *)
theory PubProjection
  imports PubChunks "HOL-Library.Multiset" "HOL-Library.Product_Lexorder"
begin

text \<open>
  Published feeds: the projection and its incremental maintenance
  (\<open>publishedFeedWindowEligibility.js\<close>, \<open>publishedFeedProjection.js\<close>, \<open>publishedFeedIncremental.js\<close>).
  The projection of one feed is the table of its published items, one row per identity, stored for
  the window \<open>all\<close>.  A tick re-evaluates the identities touched since the last cutoff, applies the
  difference to the table and computes which chunks of the configured window must be written again.
  Times are milliseconds; the collation of the database is an argument.
\<close>

section \<open>Rows and windows\<close>

record proj_row =
  identity_key :: string
  ioc_item_id :: int
  observable :: string
  recency_ts :: "int option"
  confidence_rank :: int
  txt_value :: string
  item_json :: "string option"
  content_fingerprint :: string
  partition_identity :: "string option"
  chunk_key :: "int option"

type_synonym projection = "proj_row list"

definition BASE_PROJECTION_WINDOW :: string where "BASE_PROJECTION_WINDOW = ''all''"

definition SLIDING_WINDOWS :: "string list" where "SLIDING_WINDOWS = [''1d'', ''3d'', ''7d'']"

definition isSlidingWindow :: "string \<Rightarrow> bool" where
  "isSlidingWindow w \<longleftrightarrow> js_lower w \<in> set SLIDING_WINDOWS"

text \<open>\<open>configuredArtifactWindow\<close>: the mode and the window column of the feed.\<close>

definition configuredArtifactWindow :: "string \<Rightarrow> string \<Rightarrow> string" where
  "configuredArtifactWindow filter_mode time_window =
     (if js_lower (js_trim (if filter_mode = [] then ''basic'' else filter_mode)) = ''query'' then ''all''
      else let v = js_lower (js_trim (if time_window = [] then ''all'' else time_window)) in
           if v \<in> {''1d'', ''3d'', ''7d'', ''all''} then v else ''all'')"

definition windowIntervalSql :: "string \<Rightarrow> string option" where
  "windowIntervalSql w =
     map_of [(''1d'', ''1 day''), (''3d'', ''3 days''), (''7d'', ''7 days'')] (js_lower w)"

text \<open>The regular expression \<open>^(\d+)\s+(day|days|hour|hours)$\<close> and the unit it names.\<close>

definition intervalToMs :: "string \<Rightarrow> int option" where
  "intervalToMs interval =
     (let ds = takeWhile is_digit interval; rest = dropWhile is_digit interval;
          unit = js_lower (dropWhile js_ws rest); n = int (digits_val ds) in
      if ds = [] \<or> takeWhile js_ws rest = [] then None
      else if unit \<in> {''day'', ''days''} then Some (n * 24 * 60 * 60 * 1000)
      else if unit \<in> {''hour'', ''hours''} then Some (n * 60 * 60 * 1000)
      else None)"

definition isRecencyVisibleInWindow :: "int option \<Rightarrow> string \<Rightarrow> int \<Rightarrow> bool" where
  "isRecencyVisibleInWindow recency w instant =
     (case windowIntervalSql w of
        None \<Rightarrow> True
      | Some interval \<Rightarrow>
          (case recency of
             None \<Rightarrow> False
           | Some r \<Rightarrow>
               (case intervalToMs interval of
                  None \<Rightarrow> True
                | Some ms \<Rightarrow> if ms = 0 then True else r \<ge> instant - ms)))"

text \<open>
  What the database makes of the interval texts (in a session whose days have 24 hours), and
  \<open>projectionWindowFilter\<close> as a predicate on rows; a comparison with NULL does not hold.
\<close>

definition interval_ms :: "string \<Rightarrow> int" where
  "interval_ms w = (if js_lower w = ''1d'' then 86400000 else if js_lower w = ''3d'' then 3 * 86400000 else 7 * 86400000)"

definition projectionWindowFilter :: "string \<Rightarrow> int option \<Rightarrow> int \<Rightarrow> proj_row \<Rightarrow> bool" where
  "projectionWindowFilter w asOf now r =
     (if windowIntervalSql w = None \<or> js_lower w = ''all'' then True
      else let bound = (case asOf of None \<Rightarrow> now | Some t \<Rightarrow> t) in
           case recency_ts r of None \<Rightarrow> False | Some t \<Rightarrow> t \<ge> bound - interval_ms w)"

text \<open>\<open>collectBoundaryDepartures\<close>: rows that leave the window because time passes.\<close>

definition collectBoundaryDepartures :: "projection \<Rightarrow> int option \<Rightarrow> int option \<Rightarrow> string \<Rightarrow> projection" where
  "collectBoundaryDepartures P prevCutoff curCutoff w =
     (case (windowIntervalSql w, prevCutoff, curCutoff) of
        (Some _, Some c, Some c') \<Rightarrow>
          filter (\<lambda>r. case recency_ts r of None \<Rightarrow> False
                     | Some t \<Rightarrow> t \<ge> c - interval_ms w \<and> t < c' - interval_ms w) P
      | _ \<Rightarrow> [])"

section \<open>Reading the projection\<close>

text \<open>
  \<open>ORDER BY recency_ts DESC NULLS LAST, confidence_rank DESC, observable ASC, identity_key ASC\<close>; the
  argument maps a string to its place in the database's collation.
\<close>

definition recency_order :: "(string \<Rightarrow> 'a::linorder) \<Rightarrow> proj_row \<Rightarrow> (nat \<times> int) \<times> int \<times> 'a \<times> 'a" where
  "recency_order coll r =
     ((case recency_ts r of None \<Rightarrow> (1, 0) | Some t \<Rightarrow> (0, - t)), - confidence_rank r, coll (observable r), coll (identity_key r))"

definition buildProjectionScan :: "(string \<Rightarrow> 'a::linorder) \<Rightarrow> projection \<Rightarrow> string \<Rightarrow> int option \<Rightarrow> int \<Rightarrow> projection" where
  "buildProjectionScan coll P w asOf now = sort_key (recency_order coll) (filter (projectionWindowFilter w asOf now) P)"

definition in_chunks :: "int list \<Rightarrow> proj_row \<Rightarrow> bool" where
  "in_chunks keys r = (case chunk_key r of None \<Rightarrow> False | Some k \<Rightarrow> k \<in> set keys)"

definition outside_chunks :: "int list \<Rightarrow> proj_row \<Rightarrow> bool" where
  "outside_chunks keys r = (case chunk_key r of None \<Rightarrow> keys = [] | Some k \<Rightarrow> k \<notin> set keys)"

text \<open>The rows of one chunk in the order in which the chunk's file lists them.\<close>

definition chunk_rows :: "(string \<Rightarrow> 'a::linorder) \<Rightarrow> projection \<Rightarrow> string \<Rightarrow> int \<Rightarrow> int \<Rightarrow> projection" where
  "chunk_rows coll P w asOf k =
     sort_key (recency_order coll) (filter (\<lambda>r. projectionWindowFilter w (Some asOf) asOf r \<and> chunk_key r = Some k) P)"

definition countProjectionItemsForWindow :: "projection \<Rightarrow> string \<Rightarrow> int option \<Rightarrow> int \<Rightarrow> nat" where
  "countProjectionItemsForWindow P w asOf now = length (filter (projectionWindowFilter w asOf now) P)"

definition countProjectionItemsInChunks :: "projection \<Rightarrow> string \<Rightarrow> int option \<Rightarrow> int \<Rightarrow> int list \<Rightarrow> nat" where
  "countProjectionItemsInChunks P w asOf now keys =
     (if keys = [] then 0 else length (filter (\<lambda>r. projectionWindowFilter w asOf now r \<and> in_chunks keys r) P))"

definition countProjectionItemsOutsideChunks :: "projection \<Rightarrow> string \<Rightarrow> int option \<Rightarrow> int \<Rightarrow> int list \<Rightarrow> nat" where
  "countProjectionItemsOutsideChunks P w asOf now exclude =
     (if js_lower w = ''all'' \<and> exclude \<noteq> []
      then length P - countProjectionItemsInChunks P w asOf now exclude
      else length (filter (\<lambda>r. projectionWindowFilter w asOf now r \<and> outside_chunks exclude r) P))"

text \<open>
  \<open>resolveExpectedProjectionItemCount\<close>: the durable counter when it may be used, otherwise a count
  that also repairs the counter.
\<close>

definition resolveExpectedProjectionItemCount ::
    "projection \<Rightarrow> int option \<Rightarrow> string \<Rightarrow> int option \<Rightarrow> int \<Rightarrow> bool \<Rightarrow> int \<times> int option" where
  "resolveExpectedProjectionItemCount P counter w asOf now verify =
     (let window = js_lower (if w = [] then BASE_PROJECTION_WINDOW else w);
          n = int (countProjectionItemsForWindow P window asOf now) in
      case (window = ''all'' \<and> \<not> verify, counter) of
        (True, Some c) \<Rightarrow> (c, counter)
      | _ \<Rightarrow> (n, if window = ''all'' then Some n else counter))"

section \<open>Writing the projection\<close>

text \<open>
  \<open>INSERT .. ON CONFLICT (identity_key) DO UPDATE .. WHERE ..\<close>: a statement that meets the same key
  twice fails.
\<close>

definition differs :: "proj_row \<Rightarrow> proj_row \<Rightarrow> bool" where
  "differs old new \<longleftrightarrow>
     content_fingerprint old \<noteq> content_fingerprint new \<or> ioc_item_id old \<noteq> ioc_item_id new
     \<or> recency_ts old \<noteq> recency_ts new \<or> txt_value old \<noteq> txt_value new
     \<or> partition_identity old \<noteq> partition_identity new \<or> chunk_key old \<noteq> chunk_key new"

definition upsert_row :: "proj_row \<Rightarrow> projection \<Rightarrow> projection" where
  "upsert_row r P =
     (if identity_key r \<in> identity_key ` set P
      then map (\<lambda>old. if identity_key old = identity_key r \<and> differs old r then r else old) P
      else P @ [r])"

definition upsertProjectionBatchChunk :: "proj_row list \<Rightarrow> projection \<Rightarrow> projection option" where
  "upsertProjectionBatchChunk rows P =
     (if distinct (map identity_key rows) then Some (fold upsert_row rows P) else None)"

text \<open>Slices of at most \<open>n\<close> rows, one statement after the other.\<close>

fun in_slices :: "nat \<Rightarrow> nat \<Rightarrow> ('a list \<Rightarrow> 's \<Rightarrow> 's option) \<Rightarrow> 'a list \<Rightarrow> 's \<Rightarrow> 's option" where
  "in_slices 0 n f rows s = Some s"
| "in_slices (Suc fuel) n f rows s =
     (if rows = [] then Some s
      else case f (take n rows) s of None \<Rightarrow> None | Some s' \<Rightarrow> in_slices fuel n f (drop n rows) s')"

definition PROJECTION_UPSERT_MAX_ROWS :: nat where "PROJECTION_UPSERT_MAX_ROWS = 4000"

definition upsertProjectionBatch :: "proj_row list \<Rightarrow> projection \<Rightarrow> projection option" where
  "upsertProjectionBatch rows P =
     in_slices (length rows) PROJECTION_UPSERT_MAX_ROWS upsertProjectionBatchChunk rows P"

definition deleteProjectionIdentities :: "string list \<Rightarrow> projection \<Rightarrow> projection \<times> nat" where
  "deleteProjectionIdentities keys P =
     (filter (\<lambda>r. identity_key r \<notin> set keys) P, length (filter (\<lambda>r. identity_key r \<in> set keys) P))"

text \<open>The durable counter stays unknown once it is unknown.\<close>

definition adjustProjectionItemCount :: "int option \<Rightarrow> int \<Rightarrow> int option" where
  "adjustProjectionItemCount counter delta = map_option (\<lambda>c. if delta = 0 then c else max 0 (c + delta)) counter"

section \<open>Applying the touched identities\<close>

text \<open>\<open>projectionIdentityKey\<close>; an absent artifact is the empty string.\<close>

definition projectionIdentityKey :: "string \<Rightarrow> string \<Rightarrow> string \<Rightarrow> string" where
  "projectionIdentityKey obs obs_type artifact =
     (if artifact \<noteq> [] then ''a:'' @ artifact else ''o:'' @ js_lower obs_type @ '':'' @ js_lower obs)"

record ioc_delete =
  del_observable :: string
  del_observable_type :: string
  del_artifact_id :: string

text \<open>
  What \<open>collectDirtyIocIds\<close> found, and what the database answers about it: the canonical identities of
  the touched ids, the ids that share an identity or artifact with a deleted item, and the evaluation
  of the feed's own filter on these candidates (the matched items and the rows built from them).
\<close>

record dirty_set =
  dirty_ids :: "int list"
  dirty_deletes :: "ioc_delete list"
  dirty_forceFull :: bool

record feed_answers =
  canonical_identities :: "(string \<times> string) list"
  sibling_ids :: "int list"
  matched_ids :: "int list"
  matched_rows :: "proj_row list"

text \<open>\<open>expandCandidateContext\<close>: the projected keys of the candidates.\<close>

definition projectedKeys :: "projection \<Rightarrow> dirty_set \<Rightarrow> feed_answers \<Rightarrow> string list" where
  "projectedKeys P d ans =
     (let by_id = (if dirty_ids d = [] then []
                   else map identity_key (filter (\<lambda>r. ioc_item_id r \<in> set (dirty_ids d)) P));
          dirtyKeys = (if dirty_ids d = [] then []
                       else map (\<lambda>(obs, t). projectionIdentityKey obs t []) (canonical_identities ans));
          deleteKeys = concat (map (\<lambda>x. [projectionIdentityKey (del_observable x) (del_observable_type x) (del_artifact_id x),
                                         projectionIdentityKey (del_observable x) (del_observable_type x) []])
                              (dirty_deletes d))
      in remdups (by_id @ map identity_key (filter (\<lambda>r. identity_key r \<in> set dirtyKeys) P)
                  @ map identity_key (filter (\<lambda>r. identity_key r \<in> set deleteKeys) P)))"

record touched =
  t_chunk_key :: "int option"
  t_recency_ts :: "int option"
  t_prev_recency_ts :: "int option"

record delta =
  entered :: nat
  updated :: nat
  removed :: nat
  unchanged :: nat
  artifactDirty :: bool
  affectedChunkKeys :: "int list"
  touchedRows :: "touched list"

definition ascending :: "int list \<Rightarrow> int list" where
  "ascending ks = sort (remdups ks)"

definition chunk_keys :: "proj_row list \<Rightarrow> int list" where
  "chunk_keys rows = concat (map (\<lambda>r. case chunk_key r of None \<Rightarrow> [] | Some k \<Rightarrow> [k]) rows)"

definition find_row :: "string \<Rightarrow> projection \<Rightarrow> proj_row option" where
  "find_row key P = find (\<lambda>r. identity_key r = key) P"

text \<open>The comparison of the code: absent times are 0, absent chunk keys are 0.\<close>

definition row_changed :: "proj_row \<Rightarrow> proj_row \<Rightarrow> bool" where
  "row_changed prev r \<longleftrightarrow>
     content_fingerprint prev \<noteq> content_fingerprint r
     \<or> ioc_item_id prev \<noteq> ioc_item_id r
     \<or> (case recency_ts prev of None \<Rightarrow> 0 | Some t \<Rightarrow> t) \<noteq> (case recency_ts r of None \<Rightarrow> 0 | Some t \<Rightarrow> t)
     \<or> partition_identity prev \<noteq> partition_identity r
     \<or> (case chunk_key prev of None \<Rightarrow> 0 | Some k \<Rightarrow> k) \<noteq> (case chunk_key r of None \<Rightarrow> 0 | Some k \<Rightarrow> k)"

definition no_delta :: delta where
  "no_delta = \<lparr>entered = 0, updated = 0, removed = 0, unchanged = 0, artifactDirty = False,
     affectedChunkKeys = [], touchedRows = []\<rparr>"

text \<open>
  \<open>applyIncrementalProjectionUpdate\<close> for a dirty set that does not force a full rebuild (its callers
  have looked); \<open>n\<close> is the slice size \<open>DIRTY_BATCH\<close>.  \<open>None\<close> when a statement fails.
\<close>

definition existing_rows :: "projection \<Rightarrow> int list \<Rightarrow> string list \<Rightarrow> projection" where
  "existing_rows P evalIds keys =
     filter (\<lambda>r. ioc_item_id r \<in> set (if evalIds = [] then [0] else evalIds) \<or> identity_key r \<in> set keys) P"

definition leave_keys :: "projection \<Rightarrow> string list \<Rightarrow> int list \<Rightarrow> int list \<Rightarrow> string list \<Rightarrow> string list" where
  "leave_keys existing newKeys matchedIds evalIds projected =
     (let first = map identity_key (filter (\<lambda>e. identity_key e \<notin> set newKeys \<and> ioc_item_id e \<notin> set matchedIds
                    \<and> (ioc_item_id e \<in> set evalIds \<or> identity_key e \<in> set projected)) existing)
      in first @ filter (\<lambda>k. k \<notin> set newKeys \<and> k \<notin> set first) projected)"

definition touched_row :: "projection \<Rightarrow> proj_row \<Rightarrow> touched" where
  "touched_row existing r =
     (case find_row (identity_key r) existing of
        None \<Rightarrow> \<lparr>t_chunk_key = chunk_key r, t_recency_ts = recency_ts r, t_prev_recency_ts = None\<rparr>
      | Some prev \<Rightarrow> \<lparr>t_chunk_key = (case chunk_key r of None \<Rightarrow> chunk_key prev | Some k \<Rightarrow> Some k),
                     t_recency_ts = recency_ts r, t_prev_recency_ts = recency_ts prev\<rparr>)"

definition touched_leave :: "projection \<Rightarrow> string \<Rightarrow> touched" where
  "touched_leave existing key =
     (case find_row key existing of
        None \<Rightarrow> \<lparr>t_chunk_key = None, t_recency_ts = None, t_prev_recency_ts = None\<rparr>
      | Some prev \<Rightarrow> \<lparr>t_chunk_key = chunk_key prev, t_recency_ts = None, t_prev_recency_ts = recency_ts prev\<rparr>)"

definition apply_touched ::
    "nat \<Rightarrow> dirty_set \<Rightarrow> feed_answers \<Rightarrow> projection \<times> int option \<Rightarrow> ((projection \<times> int option) \<times> delta) option" where
  "apply_touched n d ans s =
     (let (P, counter) = s;
          projected = projectedKeys P d ans;
          evalIds = remdups (dirty_ids d @ sibling_ids ans);
          newRows = matched_rows ans;
          newKeys = map identity_key newRows;
          existing = existing_rows P evalIds (newKeys @ projected);
          leave = leave_keys existing newKeys (matched_ids ans) evalIds projected;
          (P', gone) = deleteProjectionIdentities leave P;
          isNew = (\<lambda>r. find_row (identity_key r) existing = None);
          isChanged = (\<lambda>r. case find_row (identity_key r) existing of None \<Rightarrow> False | Some prev \<Rightarrow> row_changed prev r);
          toUpsert = filter (\<lambda>r. isNew r \<or> isChanged r) newRows;
          n_entered = length (filter isNew newRows);
          n_updated = length (filter isChanged newRows)
      in case in_slices (length toUpsert) n upsertProjectionBatch toUpsert P' of
           None \<Rightarrow> None
         | Some P'' \<Rightarrow> Some ((P'', adjustProjectionItemCount counter (int n_entered - int gone)),
             \<lparr>entered = n_entered, updated = n_updated, removed = gone,
               unchanged = length newRows - n_entered - n_updated,
               artifactDirty = (n_entered + n_updated + gone > 0),
               affectedChunkKeys = ascending (chunk_keys existing @ chunk_keys newRows
                 @ chunk_keys (concat (map (\<lambda>k. case find_row k existing of None \<Rightarrow> [] | Some r \<Rightarrow> [r]) leave))),
               touchedRows = map (touched_row existing) toUpsert @ map (touched_leave existing) leave\<rparr>))"

definition applyIncrementalProjectionUpdate ::
    "nat \<Rightarrow> dirty_set \<Rightarrow> feed_answers \<Rightarrow> projection \<times> int option \<Rightarrow> ((projection \<times> int option) \<times> delta) option" where
  "applyIncrementalProjectionUpdate n d ans s =
     (if dirty_ids d = [] \<and> dirty_deletes d = [] then Some (s, no_delta) else apply_touched n d ans s)"

section \<open>Which chunks to write again\<close>

text \<open>
  \<open>computeAffectedChunksByWindow\<close> for one window; \<open>boundary\<close> are the rows of
  \<open>collectBoundaryDepartures\<close> for it.  \<open>None\<close> for a window that the result has no entry for.
\<close>

definition touched_in_window :: "string \<Rightarrow> int \<Rightarrow> touched \<Rightarrow> bool" where
  "touched_in_window w instant t \<longleftrightarrow>
     (t_prev_recency_ts t \<noteq> None \<and> isRecencyVisibleInWindow (t_prev_recency_ts t) w instant)
     \<or> isRecencyVisibleInWindow (t_recency_ts t) w instant"

definition touched_chunks :: "string \<Rightarrow> int \<Rightarrow> touched list \<Rightarrow> int list" where
  "touched_chunks w instant ts =
     concat (map (\<lambda>t. case t_chunk_key t of None \<Rightarrow> [] | Some k \<Rightarrow> if touched_in_window w instant t then [k] else []) ts)"

definition computeAffectedChunks :: "delta \<Rightarrow> projection \<Rightarrow> int \<Rightarrow> string \<Rightarrow> int list option" where
  "computeAffectedChunks d boundary instant w =
     (if w = ''all'' then Some (ascending (affectedChunkKeys d))
      else if w \<in> set SLIDING_WINDOWS
           then Some (ascending (chunk_keys boundary @ touched_chunks w instant (touchedRows d)))
      else None)"

definition windowNeedsArtifactRefresh :: "string \<Rightarrow> delta \<Rightarrow> projection \<Rightarrow> int list option \<Rightarrow> bool" where
  "windowNeedsArtifactRefresh w d boundary affected =
     (let v = js_lower w in
      if v = ''all'' then artifactDirty d
      else if \<not> isSlidingWindow v then artifactDirty d
      else if boundary \<noteq> [] then True
      else (case affected of None \<Rightarrow> False | Some ks \<Rightarrow> ks \<noteq> []))"

text \<open>
  \<open>canReuseUnaffectedChunks\<close>; \<open>parent\<close> gives the item count of every chunk of the parent generation.
\<close>

definition sumGenerationChunkItemsOutside :: "(int \<times> nat) list \<Rightarrow> int list \<Rightarrow> nat" where
  "sumGenerationChunkItemsOutside parent exclude = sum_list (map snd (filter (\<lambda>(k, n). k \<notin> set exclude) parent))"

definition canReuseUnaffectedChunks ::
    "projection \<Rightarrow> string \<Rightarrow> int option \<Rightarrow> int \<Rightarrow> (int \<times> nat) list option \<Rightarrow> int list \<Rightarrow> int option \<Rightarrow> bool" where
  "canReuseUnaffectedChunks P w asOf now parent exclude expectedTotal =
     (case parent of
        None \<Rightarrow> False
      | Some chunks \<Rightarrow>
          if exclude = [] then False
          else let parentReused = int (sumGenerationChunkItemsOutside chunks exclude);
                   projectionReused =
                     (case (js_lower w = ''all'', expectedTotal) of
                        (True, Some n) \<Rightarrow> max 0 (n - int (countProjectionItemsInChunks P w asOf now exclude))
                      | _ \<Rightarrow> int (countProjectionItemsOutsideChunks P w asOf now exclude))
               in projectionReused = parentReused)"

section \<open>Choosing how to refresh\<close>

text \<open>
  The parts of the feed's configuration that the decision reads: whether its query names a relative
  date or the classification (\<open>rolling_query\<close>), the state of its projection, its cap and window.
\<close>

datatype projection_status = ABSENT | BOOTSTRAPPING | READY | FAILED | STALE

record feed_mode =
  query_mode :: bool
  advanced_query :: string
  rolling_query :: bool
  projection_status :: projection_status
  max_items :: "int option"
  time_window :: string

definition feedSupportsIncrementalProjection :: "feed_mode \<Rightarrow> bool" where
  "feedSupportsIncrementalProjection f \<longleftrightarrow>
     \<not> query_mode f \<or> js_trim (advanced_query f) = [] \<or> \<not> rolling_query f"

definition canUseIncrementalRefresh :: "feed_mode \<Rightarrow> bool \<Rightarrow> bool \<Rightarrow> bool \<Rightarrow> string \<Rightarrow> bool" where
  "canUseIncrementalRefresh f sliding_enabled force filtersChanged snapshotWindow =
     (if \<not> feedSupportsIncrementalProjection f then False
      else if force \<or> filtersChanged then False
      else if projection_status f \<noteq> READY then False
      else if max_items f \<noteq> None then False
      else let w = js_lower (if snapshotWindow \<noteq> [] then snapshotWindow
                             else if time_window f \<noteq> [] then time_window f else ''all'') in
           w = ''all'' \<or> (sliding_enabled \<and> isSlidingWindow w))"

datatype refresh_mode = Full | Bootstrap | Incremental

definition decideRefreshMode ::
    "feed_mode \<Rightarrow> bool \<Rightarrow> bool \<Rightarrow> bool \<Rightarrow> bool \<Rightarrow> bool \<Rightarrow> string \<Rightarrow> refresh_mode" where
  "decideRefreshMode f sliding_enabled force filtersChanged incrementalEnabled streamingEnabled snapshotWindow =
     (if \<not> streamingEnabled then Full
      else if \<not> feedSupportsIncrementalProjection f then Full
      else if force \<or> filtersChanged
           then (if projection_status f = READY then Full else if incrementalEnabled then Bootstrap else Full)
      else if \<not> incrementalEnabled then Full
      else if projection_status f \<noteq> READY then Bootstrap
      else if \<not> canUseIncrementalRefresh f sliding_enabled force filtersChanged snapshotWindow then Full
      else Incremental)"

section \<open>A tick\<close>

text \<open>\<open>prepareIncrementalFeedTick\<close>: the dirty poll has been answered, the boundary scan reads the table before the update.\<close>

datatype prepared =
    ForceFull
  | Noop
  | Prepared delta projection "int list option" bool

definition prepareIncrementalFeedTick ::
    "nat \<Rightarrow> string \<Rightarrow> int option \<Rightarrow> int \<Rightarrow> bool \<Rightarrow> dirty_set \<Rightarrow> feed_answers \<Rightarrow> projection \<times> int option
     \<Rightarrow> ((projection \<times> int option) \<times> prepared) option" where
  "prepareIncrementalFeedTick n w cutoff candidate pending d ans s =
     (let boundary = (if cutoff \<noteq> None \<and> isSlidingWindow w
                      then collectBoundaryDepartures (fst s) cutoff (Some candidate) w else []);
          hasDirty = (dirty_ids d \<noteq> [] \<or> dirty_deletes d \<noteq> [])
      in if dirty_forceFull d \<or> pending then Some (s, ForceFull)
         else if \<not> hasDirty \<and> boundary = [] then Some (s, Noop)
         else case (if hasDirty then applyIncrementalProjectionUpdate n d ans s else Some (s, no_delta)) of
                None \<Rightarrow> None
              | Some (s', dl) \<Rightarrow>
                  let affected = computeAffectedChunks dl boundary candidate w in
                  Some (s', Prepared dl boundary affected (windowNeedsArtifactRefresh w dl boundary affected)))"

end
