(* ===== verification/PubTick.thy ===== *)
theory PubTick
  imports PubProjection "HOL-Library.Char_ord" "HOL-Library.List_Lexorder"
begin

text \<open>
  Published feeds: the incremental tick of a feed with an active chunk generation
  (\<open>runPublishedFeedGeneration\<close> in \<open>feedPublisherService.js\<close>, the chunk selection of
  \<open>buildAndActivate\<close> in \<open>publishedFeedChunkGeneration.js\<close>).  The published generation is the list of rows
  of every chunk.  A tick that ends without a failed build leaves the published chunks exactly as a
  full rebuild from the projection would write them; a failed build does not.
\<close>

section \<open>State\<close>

record feed_state =
  st_proj :: projection
  st_counter :: "int option"
  st_cutoff :: "int option"
  st_gen :: "int \<Rightarrow> projection"

definition all_keys :: "int \<Rightarrow> int list" where
  "all_keys nchunks = [0..nchunks - 1]"

text \<open>The manifest of the parent: an empty chunk has no file and no entry.\<close>

definition manifest_counts :: "int \<Rightarrow> (int \<Rightarrow> projection) \<Rightarrow> (int \<times> nat) list" where
  "manifest_counts nchunks g = map (\<lambda>k. (k, length (g k))) (filter (\<lambda>k. g k \<noteq> []) (all_keys nchunks))"

text \<open>
  \<open>buildAndActivate\<close>, for a feed with the TXT format: every chunk or the affected ones are written
  from the projection, the others are taken from the parent; the build is refused when the manifest
  does not have the expected number of items.
\<close>

definition chunks_to_write ::
    "projection \<Rightarrow> string \<Rightarrow> int \<Rightarrow> int \<Rightarrow> int list option \<Rightarrow> int \<Rightarrow> (int \<Rightarrow> projection) \<Rightarrow> int list" where
  "chunks_to_write P w asOf nchunks affected expected g =
     (case affected of
        None \<Rightarrow> all_keys nchunks
      | Some ks \<Rightarrow>
          if canReuseUnaffectedChunks P w (Some asOf) asOf (Some (manifest_counts nchunks g)) (ascending ks) (Some expected)
          then ascending ks else all_keys nchunks)"

definition build_chunks ::
    "(string \<Rightarrow> 'a::linorder) \<Rightarrow> projection \<Rightarrow> string \<Rightarrow> int \<Rightarrow> int \<Rightarrow> int list option \<Rightarrow> int \<Rightarrow> (int \<Rightarrow> projection)
     \<Rightarrow> (int \<Rightarrow> projection) option" where
  "build_chunks coll P w asOf nchunks affected expected g =
     (let ks = chunks_to_write P w asOf nchunks affected expected g;
          g' = (\<lambda>k. if k \<in> set ks then chunk_rows coll P w asOf k else g k)
      in if int (sum_list (map (\<lambda>k. length (g' k)) (all_keys nchunks))) = expected then Some g' else None)"

datatype outcome = TickNoop | TickUnchanged | TickBuilt | TickFailed | TickForceFull

text \<open>
  The part of the tick that publishes: \<open>fails\<close> says that the transaction of the build fails for a
  reason outside the model (the disk, a timeout, a lost connection) and is rolled back.  The update
  of the projection before it has been committed already.
\<close>

definition publish_window ::
    "(string \<Rightarrow> 'a::linorder) \<Rightarrow> string \<Rightarrow> int \<Rightarrow> int \<Rightarrow> bool \<Rightarrow> delta \<Rightarrow> int list option \<Rightarrow> bool \<Rightarrow> feed_state
     \<Rightarrow> outcome \<times> feed_state" where
  "publish_window coll w nchunks candidate fails d affected refresh s =
     (if \<not> refresh then (TickUnchanged, s\<lparr>st_cutoff := Some candidate\<rparr>)
      else let keys = (case affected of None \<Rightarrow> affectedChunkKeys d | Some ks \<Rightarrow> ks);
               everything = (keys = [] \<or> int (length keys) \<ge> nchunks);
               (expected, counter) = resolveExpectedProjectionItemCount (st_proj s) (st_counter s) w (Some candidate)
                                       candidate everything
           in case (if fails then None
                    else build_chunks coll (st_proj s) w candidate nchunks (if everything then None else Some keys) expected (st_gen s)) of
                None \<Rightarrow> (TickFailed, s)
              | Some g \<Rightarrow> (TickBuilt, s\<lparr>st_counter := counter, st_cutoff := Some candidate, st_gen := g\<rparr>))"

text \<open>
  A tick: the dirty poll and its answers, and for a tick with nothing to do the batch of the rolling
  reconciliation.  \<open>None\<close> when a statement of the projection update fails.
\<close>

definition run_tick ::
    "(string \<Rightarrow> 'a::linorder) \<Rightarrow> nat \<Rightarrow> string \<Rightarrow> int \<Rightarrow> int \<Rightarrow> bool \<Rightarrow> bool \<Rightarrow> dirty_set \<Rightarrow> feed_answers
     \<Rightarrow> (dirty_set \<times> feed_answers) option \<Rightarrow> feed_state \<Rightarrow> (outcome \<times> feed_state) option" where
  "run_tick coll n w nchunks candidate fails pending d ans recon s =
     (case prepareIncrementalFeedTick n w (st_cutoff s) candidate pending d ans (st_proj s, st_counter s) of
        None \<Rightarrow> None
      | Some ((P, c), ForceFull) \<Rightarrow> Some (TickForceFull, s)
      | Some ((P, c), Prepared dl boundary affected refresh) \<Rightarrow>
          Some (publish_window coll w nchunks candidate fails dl affected refresh (s\<lparr>st_proj := P, st_counter := c\<rparr>))
      | Some ((P, c), Noop) \<Rightarrow>
          (case recon of
             None \<Rightarrow> Some (TickNoop, s\<lparr>st_cutoff := Some candidate\<rparr>)
           | Some (d2, ans2) \<Rightarrow>
               (case applyIncrementalProjectionUpdate n d2 ans2 (st_proj s, st_counter s) of
                  None \<Rightarrow> None
                | Some ((P2, c2), dl) \<Rightarrow>
                    let s2 = s\<lparr>st_proj := P2, st_counter := c2\<rparr> in
                    if artifactDirty dl
                    then Some (publish_window coll w nchunks candidate fails dl (Some (affectedChunkKeys dl)) True s2)
                    else Some (TickNoop, s2\<lparr>st_cutoff := Some candidate\<rparr>))))"

section \<open>What a tick should achieve\<close>

text \<open>
  The specification: a full rebuild.  A state is faithful when its published chunks are those of a full
  rebuild at its cutoff.
\<close>

definition full_rebuild :: "(string \<Rightarrow> 'a::linorder) \<Rightarrow> projection \<Rightarrow> string \<Rightarrow> int \<Rightarrow> int \<Rightarrow> projection" where
  "full_rebuild coll P w asOf k = chunk_rows coll P w asOf k"

definition faithful :: "(string \<Rightarrow> 'a::linorder) \<Rightarrow> string \<Rightarrow> int \<Rightarrow> feed_state \<Rightarrow> bool" where
  "faithful coll w nchunks s \<longleftrightarrow>
     (case st_cutoff s of None \<Rightarrow> False
      | Some c \<Rightarrow> list_all (\<lambda>k. st_gen s k = full_rebuild coll (st_proj s) w c k) (all_keys nchunks))"

text \<open>Rows have distinct identities and a chunk; the counter, when known, is right.\<close>

definition rows_wf :: "int \<Rightarrow> proj_row list \<Rightarrow> bool" where
  "rows_wf nchunks rows \<longleftrightarrow> distinct (map identity_key rows)
     \<and> list_all (\<lambda>r. case chunk_key r of None \<Rightarrow> False | Some k \<Rightarrow> 0 \<le> k \<and> k < nchunks) rows"

definition state_wf :: "int \<Rightarrow> feed_state \<Rightarrow> bool" where
  "state_wf nchunks s \<longleftrightarrow> rows_wf nchunks (st_proj s)
     \<and> (case st_counter s of None \<Rightarrow> True | Some c \<Rightarrow> c = int (length (st_proj s)))"

section \<open>Facts about the update of the projection\<close>

abbreviation keys_of :: "projection \<Rightarrow> string set" where
  "keys_of P \<equiv> identity_key ` set P"

lemma same_key_same_row: "\<lbrakk>distinct (map identity_key P); r \<in> set P; q \<in> set P; identity_key r = identity_key q\<rbrakk> \<Longrightarrow> r = q"
  by (simp add: distinct_map inj_on_def)

lemma find_row_Some: "find_row key P = Some r \<Longrightarrow> r \<in> set P \<and> identity_key r = key"
  by (auto simp: find_row_def find_Some_iff)

lemma find_row_None: "find_row key P = None \<longleftrightarrow> key \<notin> keys_of P"
  by (auto simp: find_row_def find_None_iff)

lemma find_row_member:
  assumes "distinct (map identity_key P)" "r \<in> set P" shows "find_row (identity_key r) P = Some r"
proof (cases "find_row (identity_key r) P")
  case None
  then show ?thesis using assms(2) by (auto simp: find_row_None)
next
  case (Some q)
  then show ?thesis using find_row_Some [OF Some] same_key_same_row [OF assms(1)] assms(2) by metis
qed

lemma upsert_row_keys: "map identity_key (upsert_row r P) = map identity_key P @ (if identity_key r \<in> keys_of P then [] else [identity_key r])"
  by (auto simp: upsert_row_def)

lemma upsert_row_set:
  assumes "\<And>old. \<lbrakk>old \<in> set P; identity_key old = identity_key r\<rbrakk> \<Longrightarrow> differs old r"
  shows "set (upsert_row r P) = insert r {q \<in> set P. identity_key q \<noteq> identity_key r}"
proof (cases "identity_key r \<in> keys_of P")
  case True
  then show ?thesis using assms by (auto simp: upsert_row_def)
next
  case False
  then have "\<forall>q \<in> set P. identity_key q \<noteq> identity_key r" by (metis image_eqI)
  then show ?thesis using False by (auto simp: upsert_row_def)
qed

lemma fold_upsert:
  assumes "distinct (map identity_key P)" "distinct (map identity_key rows)"
    and "\<And>old r. \<lbrakk>old \<in> set P; r \<in> set rows; identity_key old = identity_key r\<rbrakk> \<Longrightarrow> differs old r"
  shows "set (fold upsert_row rows P) = {q \<in> set P. identity_key q \<notin> keys_of rows} \<union> set rows
    \<and> distinct (map identity_key (fold upsert_row rows P))
    \<and> length (fold upsert_row rows P) = length P + length (filter (\<lambda>r. identity_key r \<notin> keys_of P) rows)"
  using assms
proof (induction rows arbitrary: P)
  case (Cons r rows)
  let ?P = "upsert_row r P"
  have s: "set ?P = insert r {q \<in> set P. identity_key q \<noteq> identity_key r}"
    by (rule upsert_row_set) (use Cons.prems(3) in auto)
  have d: "distinct (map identity_key ?P)"
    using Cons.prems(1) by (auto simp: upsert_row_keys)
  have l: "length ?P = length P + (if identity_key r \<in> keys_of P then 0 else 1)"
    by (simp add: upsert_row_def)
  have "differs old q" if "old \<in> set ?P" "q \<in> set rows" "identity_key old = identity_key q" for old q
  proof -
    have "old \<noteq> r" using that Cons.prems(2) by (metis distinct.simps(2) image_eqI list.set_map list.simps(9))
    then have "old \<in> set P" using that(1) s by blast
    then show ?thesis using Cons.prems(3) that(2,3) by simp
  qed
  note IH = Cons.IH [OF d _ this]
  have dr: "distinct (map identity_key rows)" "identity_key r \<notin> keys_of rows" using Cons.prems(2) by auto
  have keys: "keys_of ?P = insert (identity_key r) (keys_of P)"
    using arg_cong [OF upsert_row_keys [of r P], of set] by auto
  have "(identity_key q \<notin> keys_of ?P) = (identity_key q \<notin> keys_of P)" if "q \<in> set rows" for q
  proof -
    have "identity_key q \<noteq> identity_key r" using that dr(2) by (metis image_eqI)
    then show ?thesis unfolding keys by simp
  qed
  then have f: "filter (\<lambda>q. identity_key q \<notin> keys_of ?P) rows = filter (\<lambda>q. identity_key q \<notin> keys_of P) rows"
    by (rule filter_cong [OF refl])
  have I: "set (fold upsert_row rows ?P) = {q \<in> set ?P. identity_key q \<notin> keys_of rows} \<union> set rows"
    "distinct (map identity_key (fold upsert_row rows ?P))"
    "length (fold upsert_row rows ?P) = length ?P + length (filter (\<lambda>q. identity_key q \<notin> keys_of P) rows)"
    using IH dr(1) unfolding f by blast+
  have "set (fold upsert_row (r # rows) P) = {q \<in> set P. identity_key q \<notin> keys_of (r # rows)} \<union> set (r # rows)"
    using I(1) dr(2) unfolding s by auto
  moreover have "length (fold upsert_row (r # rows) P)
      = length P + length (filter (\<lambda>q. identity_key q \<notin> keys_of P) (r # rows))"
    using I(3) l by simp
  ultimately show ?case using I(2) by simp
qed simp

lemma in_slices_fold:
  assumes "0 < n" "length rows \<le> fuel" "distinct (map identity_key rows)"
    and f: "\<And>xs P. distinct (map identity_key xs) \<Longrightarrow> f xs P = Some (fold upsert_row xs P)"
  shows "in_slices fuel n f rows P = Some (fold upsert_row rows P)"
  using assms(2,3)
proof (induction fuel arbitrary: rows P)
  case (Suc fuel)
  have td: "distinct (map identity_key (take n rows))" "distinct (map identity_key (drop n rows))"
    using Suc.prems(2) by (simp_all flip: take_map drop_map)
  show ?case
  proof (cases "rows = []")
    case False
    then have "length (drop n rows) \<le> fuel" using Suc.prems(1) assms(1) by (cases rows) auto
    then have "in_slices fuel n f (drop n rows) Q = Some (fold upsert_row (drop n rows) Q)" for Q
      by (rule Suc.IH) (rule td(2))
    then have "in_slices (Suc fuel) n f rows P = Some (fold upsert_row (drop n rows) (fold upsert_row (take n rows) P))"
      using False f [OF td(1)] by simp
    also have "fold upsert_row (drop n rows) (fold upsert_row (take n rows) P) = fold upsert_row rows P"
      by (metis append_take_drop_id comp_apply fold_append)
    finally show ?thesis .
  qed simp
qed simp

lemma upsertProjectionBatch_fold:
  "distinct (map identity_key rows) \<Longrightarrow> upsertProjectionBatch rows P = Some (fold upsert_row rows P)"
  unfolding upsertProjectionBatch_def
  by (rule in_slices_fold) (simp_all add: upsertProjectionBatchChunk_def PROJECTION_UPSERT_MAX_ROWS_def)

lemma row_changed_differs: "row_changed old r \<Longrightarrow> differs old r"
  by (auto simp: row_changed_def differs_def split: option.splits)

text \<open>What one update does: the rows it touches are in the affected chunks and are recorded.\<close>

lemma leave_keys_existing:
  assumes "distinct (map identity_key P)" "k \<in> set (leave_keys (existing_rows P evalIds (newKeys @ projected)) newKeys matched evalIds projected)"
  shows "k \<notin> set newKeys"
    and "r \<in> set P \<Longrightarrow> identity_key r = k \<Longrightarrow> r \<in> set (existing_rows P evalIds (newKeys @ projected))"
  using assms same_key_same_row [OF assms(1)] by (auto simp: leave_keys_def Let_def existing_rows_def)

lemma chunk_keys_member: "\<lbrakk>r \<in> set rows; chunk_key r = Some k\<rbrakk> \<Longrightarrow> k \<in> set (chunk_keys rows)"
  by (force simp: chunk_keys_def)

lemma set_ascending [simp]: "set (ascending ks) = set ks" "distinct (ascending ks)"
  by (simp_all add: ascending_def)

lemma apply_touched_effect:
  assumes ap: "apply_touched n d ans (P, c) = Some ((P', c'), dl)" and n: "0 < n"
    and dP: "distinct (map identity_key P)" and dR: "distinct (map identity_key (matched_rows ans))"
  shows "distinct (map identity_key P')"
    and "set P' \<subseteq> set P \<union> set (matched_rows ans)"
    and "\<And>r. \<lbrakk>r \<in> set P; r \<notin> set P'\<rbrakk> \<Longrightarrow> (\<forall>k. chunk_key r = Some k \<longrightarrow> k \<in> set (affectedChunkKeys dl))
           \<and> (\<exists>t \<in> set (touchedRows dl). t_prev_recency_ts t = recency_ts r
                \<and> (t_chunk_key t = chunk_key r \<or> (\<exists>q \<in> set (matched_rows ans). t_chunk_key t = chunk_key q)))"
    and "\<And>r. \<lbrakk>r \<in> set P'; r \<notin> set P\<rbrakk> \<Longrightarrow> r \<in> set (matched_rows ans)
           \<and> (\<forall>k. chunk_key r = Some k \<longrightarrow> k \<in> set (affectedChunkKeys dl)
                \<and> (\<exists>t \<in> set (touchedRows dl). t_chunk_key t = Some k \<and> t_recency_ts t = recency_ts r))"
    and "\<not> artifactDirty dl \<Longrightarrow> P' = P"
    and "c = None \<or> c = Some (int (length P)) \<Longrightarrow> c' = None \<or> c' = Some (int (length P'))"
proof -
  let ?proj = "projectedKeys P d ans" and ?new = "matched_rows ans"
  let ?eval = "remdups (dirty_ids d @ sibling_ids ans)" and ?nk = "map identity_key (matched_rows ans)"
  let ?ex = "existing_rows P ?eval (?nk @ ?proj)"
  let ?lv = "leave_keys ?ex ?nk (matched_ids ans) ?eval ?proj"
  let ?isNew = "\<lambda>r. find_row (identity_key r) ?ex = None"
  let ?isCh = "\<lambda>r. case find_row (identity_key r) ?ex of None \<Rightarrow> False | Some prev \<Rightarrow> row_changed prev r"
  let ?up = "filter (\<lambda>r. ?isNew r \<or> ?isCh r) ?new"
  let ?Q = "filter (\<lambda>r. identity_key r \<notin> set ?lv) P"
  let ?gone = "length (filter (\<lambda>r. identity_key r \<in> set ?lv) P)"
  have dQ: "distinct (map identity_key ?Q)" and dU: "distinct (map identity_key ?up)" and dE: "distinct (map identity_key ?ex)"
    using dP dR by (simp_all add: distinct_map_filter existing_rows_def)
  have "in_slices (length ?up) n upsertProjectionBatch ?up ?Q = Some (fold upsert_row ?up ?Q)"
    by (rule in_slices_fold [OF n le_refl dU upsertProjectionBatch_fold])
  then have P': "P' = fold upsert_row ?up ?Q"
    and c': "c' = adjustProjectionItemCount c (int (length (filter ?isNew ?new)) - int ?gone)"
    and dl: "artifactDirty dl = (length (filter ?isNew ?new) + length (filter ?isCh ?new) + ?gone > 0)"
      "set (affectedChunkKeys dl) = set (chunk_keys ?ex) \<union> set (chunk_keys ?new)
         \<union> set (chunk_keys (concat (map (\<lambda>k. case find_row k ?ex of None \<Rightarrow> [] | Some r \<Rightarrow> [r]) ?lv)))"
      "touchedRows dl = map (touched_row ?ex) ?up @ map (touched_leave ?ex) ?lv"
    using ap unfolding apply_touched_def deleteProjectionIdentities_def Let_def
    by (auto simp: set_ascending)
  have lv: "k \<notin> keys_of ?new" if "k \<in> set ?lv" for k
    using leave_keys_existing(1) [OF dP that] by simp
  have lv_ex: "r \<in> set ?ex" if "r \<in> set P" "identity_key r \<in> set ?lv" for r
    using leave_keys_existing(2) [OF dP that(2) that(1) refl] .
  have new_ex: "r \<in> set ?ex" if "r \<in> set P" "identity_key r \<in> keys_of ?new" for r
    using that by (auto simp: existing_rows_def)
  have ex_P: "r \<in> set P" if "r \<in> set ?ex" for r using that by (simp add: existing_rows_def)
  have isNew: "?isNew r \<longleftrightarrow> identity_key r \<notin> keys_of P" if "r \<in> set ?new" for r
  proof -
    have "identity_key r \<in> keys_of ?ex \<longleftrightarrow> identity_key r \<in> keys_of P"
    proof
      assume "identity_key r \<in> keys_of P"
      then obtain q where "q \<in> set P" "identity_key q = identity_key r" by auto
      moreover have "identity_key r \<in> keys_of ?new" using that by simp
      ultimately have "q \<in> set ?ex" using new_ex by metis
      then show "identity_key r \<in> keys_of ?ex" using \<open>identity_key q = identity_key r\<close> by (metis image_eqI)
    qed (use ex_P in blast)
    then show ?thesis by (simp add: find_row_None)
  qed
  have found: "find_row (identity_key r) ?ex = Some r" if "r \<in> set ?ex" for r
    by (rule find_row_member [OF dE that])
  have diff: "differs old r" if "old \<in> set ?Q" "r \<in> set ?up" "identity_key old = identity_key r" for old r
  proof -
    have "old \<in> set ?ex" using that by (intro new_ex) (auto simp: image_iff)
    then have "find_row (identity_key r) ?ex = Some old" using found that(3) by metis
    then show ?thesis using that(2) by (auto intro: row_changed_differs)
  qed
  note F = fold_upsert [OF dQ dU diff, folded P']
  show "distinct (map identity_key P')" using F by blast
  show "set P' \<subseteq> set P \<union> set ?new" using F by auto
  show "(\<forall>k. chunk_key r = Some k \<longrightarrow> k \<in> set (affectedChunkKeys dl))
           \<and> (\<exists>t \<in> set (touchedRows dl). t_prev_recency_ts t = recency_ts r
                \<and> (t_chunk_key t = chunk_key r \<or> (\<exists>q \<in> set ?new. t_chunk_key t = chunk_key q)))"
    if r: "r \<in> set P" "r \<notin> set P'" for r
  proof -
    consider (leave) "identity_key r \<in> set ?lv" | (replaced) "identity_key r \<in> keys_of ?up"
      using r F by auto
    then show ?thesis
    proof cases
      case leave
      have ex: "r \<in> set ?ex" by (rule lv_ex [OF r(1) leave])
      let ?t = "touched_leave ?ex (identity_key r)"
      have "?t \<in> set (touchedRows dl)" using leave by (simp add: dl(3))
      moreover have "t_prev_recency_ts ?t = recency_ts r" "t_chunk_key ?t = chunk_key r"
        by (simp_all add: touched_leave_def found [OF ex])
      ultimately show ?thesis using chunk_keys_member [OF ex] dl(2) by blast
    next
      case replaced
      then obtain q where q: "q \<in> set ?up" "identity_key q = identity_key r" by (metis (no_types, lifting) imageE)
      then have qn: "q \<in> set ?new" by simp
      have "identity_key r \<in> keys_of ?new" using qn q(2) by (metis image_eqI)
      then have ex: "r \<in> set ?ex" by (rule new_ex [OF r(1)])
      let ?t = "touched_row ?ex q"
      have "?t \<in> set (touchedRows dl)" using q(1) by (simp add: dl(3))
      moreover have "find_row (identity_key q) ?ex = Some r" using found [OF ex] q(2) by simp
      then have "t_prev_recency_ts ?t = recency_ts r"
        "t_chunk_key ?t = (case chunk_key q of None \<Rightarrow> chunk_key r | Some k \<Rightarrow> Some k)"
        by (simp_all add: touched_row_def)
      then have "t_prev_recency_ts ?t = recency_ts r" "t_chunk_key ?t = chunk_key r \<or> t_chunk_key ?t = chunk_key q"
        by (auto split: option.splits)
      ultimately show ?thesis using chunk_keys_member [OF ex] dl(2) qn by blast
    qed
  qed
  show "r \<in> set ?new \<and> (\<forall>k. chunk_key r = Some k \<longrightarrow> k \<in> set (affectedChunkKeys dl)
                \<and> (\<exists>t \<in> set (touchedRows dl). t_chunk_key t = Some k \<and> t_recency_ts t = recency_ts r))"
    if r: "r \<in> set P'" "r \<notin> set P" for r
  proof -
    have up: "r \<in> set ?up" using r F by auto
    then have new: "r \<in> set ?new" and t: "touched_row ?ex r \<in> set (touchedRows dl)" by (simp_all add: dl(3))
    have "t_recency_ts (touched_row ?ex r) = recency_ts r" by (simp add: touched_row_def split: option.splits)
    moreover have "t_chunk_key (touched_row ?ex r) = Some k" if "chunk_key r = Some k" for k
      using that by (simp add: touched_row_def split: option.splits)
    ultimately show ?thesis using new t chunk_keys_member [OF new] dl(2) by blast
  qed
  show "P' = P" if "\<not> artifactDirty dl"
  proof -
    have "filter ?isNew ?new = []" "filter ?isCh ?new = []" "filter (\<lambda>r. identity_key r \<in> set ?lv) P = []"
      using that unfolding dl(1) by auto
    then have "?up = []" "?Q = P" by (auto simp: filter_empty_conv)
    then show ?thesis by (simp add: P')
  qed
  show "c' = None \<or> c' = Some (int (length P'))" if "c = None \<or> c = Some (int (length P))"
  proof -
    have Q: "identity_key r \<notin> keys_of ?Q \<longleftrightarrow> ?isNew r" if "r \<in> set ?new" for r
    proof -
      have "identity_key r \<in> keys_of ?Q \<longleftrightarrow> identity_key r \<in> keys_of P"
      proof
        assume "identity_key r \<in> keys_of P"
        then obtain q where q: "q \<in> set P" "identity_key q = identity_key r" by (metis imageE)
        then have "identity_key q \<notin> set ?lv" using lv that by (metis image_eqI)
        then have "q \<in> set ?Q" using q(1) by simp
        then show "identity_key r \<in> keys_of ?Q" using q(2) by (metis image_eqI)
      qed auto
      then show ?thesis using isNew [OF that] by simp
    qed
    have "filter (\<lambda>r. identity_key r \<notin> keys_of ?Q) ?up = filter ?isNew ?new"
      unfolding filter_filter by (rule filter_cong [OF refl]) (use Q in blast)
    then have "int (length P') = int (length ?Q) + int (length (filter ?isNew ?new))" using F by simp
    moreover have "length P = length ?Q + ?gone" using sum_length_filter_compl [of "\<lambda>r. identity_key r \<in> set ?lv" P] by simp
    ultimately have "int (length P') = int (length P) + (int (length (filter ?isNew ?new)) - int ?gone)" by linarith
    then show ?thesis using that by (auto simp: c' adjustProjectionItemCount_def)
  qed
qed

text \<open>The same for the whole operation: every changed row is in an affected chunk and recorded.\<close>

definition tracks :: "projection \<Rightarrow> projection \<Rightarrow> delta \<Rightarrow> bool" where
  "tracks P P' dl \<longleftrightarrow>
     (\<forall>r \<in> set P - set P'. (\<forall>k. chunk_key r = Some k \<longrightarrow> k \<in> set (affectedChunkKeys dl))
        \<and> (\<exists>t \<in> set (touchedRows dl). t_prev_recency_ts t = recency_ts r \<and> t_chunk_key t \<noteq> None))
     \<and> (\<forall>r \<in> set P' - set P. (\<forall>k. chunk_key r = Some k \<longrightarrow> k \<in> set (affectedChunkKeys dl)
          \<and> (\<exists>t \<in> set (touchedRows dl). t_recency_ts t = recency_ts r \<and> t_chunk_key t = Some k)))
     \<and> (\<not> artifactDirty dl \<longrightarrow> P' = P)"

lemma rows_wf_chunk: "\<lbrakk>rows_wf n P; r \<in> set P\<rbrakk> \<Longrightarrow> \<exists>k. chunk_key r = Some k \<and> 0 \<le> k \<and> k < n"
  by (auto simp: rows_wf_def list_all_iff split: option.splits)

lemma apply_tracks:
  assumes ap: "applyIncrementalProjectionUpdate n d ans (P, c) = Some ((P', c'), dl)" and n: "0 < n"
    and wf: "rows_wf nchunks P" "rows_wf nchunks (matched_rows ans)" and c: "c = None \<or> c = Some (int (length P))"
  shows "rows_wf nchunks P'" "tracks P P' dl" "c' = None \<or> c' = Some (int (length P'))"
proof -
  have "rows_wf nchunks P' \<and> tracks P P' dl \<and> (c' = None \<or> c' = Some (int (length P')))"
  proof (cases "dirty_ids d = [] \<and> dirty_deletes d = []")
    case True
    then show ?thesis using ap wf c by (auto simp: applyIncrementalProjectionUpdate_def tracks_def no_delta_def)
  next
    case False
    then have ap': "apply_touched n d ans (P, c) = Some ((P', c'), dl)"
      using ap by (auto simp: applyIncrementalProjectionUpdate_def split: if_splits)
    have dist: "distinct (map identity_key P)" "distinct (map identity_key (matched_rows ans))"
      using wf by (simp_all add: rows_wf_def)
    note E = apply_touched_effect [OF ap' n dist]
    have "rows_wf nchunks P'"
      using E(1,2) wf unfolding rows_wf_def list_all_iff by blast
    moreover have "tracks P P' dl"
      unfolding tracks_def
    proof (intro conjI ballI impI)
      fix r assume r: "r \<in> set P - set P'"
      show "\<forall>k. chunk_key r = Some k \<longrightarrow> k \<in> set (affectedChunkKeys dl)" using E(3) r by blast
      obtain t where t: "t \<in> set (touchedRows dl)" "t_prev_recency_ts t = recency_ts r"
        "t_chunk_key t = chunk_key r \<or> (\<exists>q \<in> set (matched_rows ans). t_chunk_key t = chunk_key q)"
        using E(3) r by blast
      moreover have "t_chunk_key t \<noteq> None"
        using t(3) rows_wf_chunk [OF wf(1)] rows_wf_chunk [OF wf(2)] r by (metis DiffD1 option.distinct(1))
      ultimately show "\<exists>t \<in> set (touchedRows dl). t_prev_recency_ts t = recency_ts r \<and> t_chunk_key t \<noteq> None" by blast
    qed (use E(4,5) in blast)+
    ultimately show ?thesis using E(6) [OF c] by blast
  qed
  then show "rows_wf nchunks P'" "tracks P P' dl" "c' = None \<or> c' = Some (int (length P'))" by blast+
qed

section \<open>Facts about chunks\<close>

lemma recency_order_inj:
  assumes "inj coll" "distinct (map identity_key P)" shows "inj_on (recency_order coll) (set P)"
proof (rule inj_onI)
  fix r q assume "r \<in> set P" "q \<in> set P" "recency_order coll r = recency_order coll q"
  moreover from this have "identity_key r = identity_key q"
    using assms(1) by (simp add: recency_order_def inj_eq)
  ultimately show "r = q" using same_key_same_row [OF assms(2)] by blast
qed

lemma chunk_rows_eq:
  assumes "inj coll" "distinct (map identity_key P)" "distinct (map identity_key P')"
    and "\<And>r. (r \<in> set P \<and> projectionWindowFilter w (Some c) c r \<and> chunk_key r = Some k)
           \<longleftrightarrow> (r \<in> set P' \<and> projectionWindowFilter w (Some c') c' r \<and> chunk_key r = Some k)"
  shows "chunk_rows coll P w c k = chunk_rows coll P' w c' k"
proof -
  let ?A = "filter (\<lambda>r. projectionWindowFilter w (Some c) c r \<and> chunk_key r = Some k) P"
  let ?B = "filter (\<lambda>r. projectionWindowFilter w (Some c') c' r \<and> chunk_key r = Some k) P'"
  have d: "distinct ?A" "distinct ?B" using assms(2,3) by (simp_all add: distinct_map)
  have "set ?A = set ?B" using assms(4) by auto
  then have m: "mset ?A = mset ?B" using set_eq_iff_mset_eq_distinct [OF d] by blast
  have "sort_key (recency_order coll) ?A = sort_key (recency_order coll) ?B"
  proof (rule sort_key_inj_key_eq)
    show "mset ?A = mset (sort_key (recency_order coll) ?B)" using m by simp
    show "inj_on (recency_order coll) (set ?A)"
      by (rule inj_on_subset [OF recency_order_inj [OF assms(1,2)]]) auto
  qed simp
  then show ?thesis by (simp add: chunk_rows_def)
qed

lemma set_all_keys: "set (all_keys n) = {0..<n}"
  by (auto simp: all_keys_def)

lemma distinct_all_keys: "distinct (all_keys n)"
  by (simp add: all_keys_def)

lemma sum_counts_by_chunk:
  assumes "distinct ks" "\<And>r. r \<in> set P \<Longrightarrow> Q r \<Longrightarrow> \<exists>k. chunk_key r = Some k \<and> k \<in> set ks"
  shows "sum_list (map (\<lambda>k. length (filter (\<lambda>r. Q r \<and> chunk_key r = Some k) P)) ks) = length (filter Q P)"
  using assms(2)
proof (induction P)
  case (Cons r P)
  have "sum_list (map (\<lambda>k. if Q r \<and> chunk_key r = Some k then 1 else (0::nat)) ks) = (if Q r then 1 else 0)"
  proof (cases "Q r")
    case True
    then obtain k0 where k: "chunk_key r = Some k0" "k0 \<in> set ks" using Cons.prems by auto
    have "sum_list (map (\<lambda>k. if k0 = k then 1 else (0::nat)) ks) = 1"
      using assms(1) k(2) by (induction ks) (auto intro: sum_list_0)
    then show ?thesis using True k(1) by simp
  qed (simp add: sum_list_0)
  moreover have "length (filter (\<lambda>r'. Q r' \<and> chunk_key r' = Some k) (r # P))
     = (if Q r \<and> chunk_key r = Some k then 1 else 0) + length (filter (\<lambda>r'. Q r' \<and> chunk_key r' = Some k) P)" for k
    by simp
  ultimately show ?case using Cons by (simp only: sum_list_addf) (simp add: Cons)
qed (simp add: sum_list_0)

lemma length_chunk_rows:
  "length (chunk_rows coll P w c k) = length (filter (\<lambda>r. projectionWindowFilter w (Some c) c r \<and> chunk_key r = Some k) P)"
  by (simp add: chunk_rows_def)

section \<open>Facts about windows\<close>

lemma window_all: "projectionWindowFilter ''all'' a b r" "js_lower ''all'' = ''all''" "isSlidingWindow ''all'' = False"
proof -
  show l: "js_lower ''all'' = ''all''" by code_simp
  show "projectionWindowFilter ''all'' a b r" unfolding projectionWindowFilter_def l by simp
  show "isSlidingWindow ''all'' = False" unfolding isSlidingWindow_def l SLIDING_WINDOWS_def by simp
qed

lemma window_sliding:
  assumes "w \<in> set SLIDING_WINDOWS"
  shows "projectionWindowFilter w (Some c) c' r = (case recency_ts r of None \<Rightarrow> False | Some t \<Rightarrow> t \<ge> c - interval_ms w)"
    and "isRecencyVisibleInWindow recency w c = (case recency of None \<Rightarrow> False | Some t \<Rightarrow> t \<ge> c - interval_ms w)"
    and "js_lower w = w" "w \<noteq> ''all''" "isSlidingWindow w"
    and "collectBoundaryDepartures P (Some c) (Some c') w =
           filter (\<lambda>r. case recency_ts r of None \<Rightarrow> False | Some t \<Rightarrow> t \<ge> c - interval_ms w \<and> t < c' - interval_ms w) P"
proof -
  have "w = ''1d'' \<or> w = ''3d'' \<or> w = ''7d''" using assms by (auto simp: SLIDING_WINDOWS_def)
  moreover have "js_lower ''1d'' = ''1d'' \<and> js_lower ''3d'' = ''3d'' \<and> js_lower ''7d'' = ''7d''"
    "intervalToMs ''1 day'' = Some 86400000 \<and> intervalToMs ''3 days'' = Some (3 * 86400000) \<and> intervalToMs ''7 days'' = Some (7 * 86400000)"
    by code_simp+
  ultimately show "projectionWindowFilter w (Some c) c' r = (case recency_ts r of None \<Rightarrow> False | Some t \<Rightarrow> t \<ge> c - interval_ms w)"
    "isRecencyVisibleInWindow recency w c = (case recency of None \<Rightarrow> False | Some t \<Rightarrow> t \<ge> c - interval_ms w)"
    "js_lower w = w" "w \<noteq> ''all''" "isSlidingWindow w"
    "collectBoundaryDepartures P (Some c) (Some c') w =
           filter (\<lambda>r. case recency_ts r of None \<Rightarrow> False | Some t \<Rightarrow> t \<ge> c - interval_ms w \<and> t < c' - interval_ms w) P"
    using assms
    by (auto simp: projectionWindowFilter_def isRecencyVisibleInWindow_def windowIntervalSql_def interval_ms_def
        isSlidingWindow_def collectBoundaryDepartures_def split: option.splits)
qed

lemma configured_window: "configuredArtifactWindow m t = ''all'' \<or> configuredArtifactWindow m t \<in> set SLIDING_WINDOWS"
  by (auto simp: configuredArtifactWindow_def SLIDING_WINDOWS_def Let_def)

lemma visible_mono: "\<lbrakk>w \<in> set SLIDING_WINDOWS; c \<le> c'; projectionWindowFilter w (Some c') c' r\<rbrakk> \<Longrightarrow> projectionWindowFilter w (Some c) c r"
  by (auto simp: window_sliding split: option.splits)

lemma no_boundary_visible:
  assumes "w \<in> set SLIDING_WINDOWS" "c \<le> c'" "collectBoundaryDepartures P (Some c) (Some c') w = []" "r \<in> set P"
  shows "projectionWindowFilter w (Some c) c r \<longleftrightarrow> projectionWindowFilter w (Some c') c' r"
  using assms by (auto simp: window_sliding filter_empty_conv not_less split: option.splits)

lemma touched_chunk_listed:
  "\<lbrakk>t \<in> set ts; t_chunk_key t = Some k; touched_in_window w c t\<rbrakk> \<Longrightarrow> k \<in> set (touched_chunks w c ts)"
  by (force simp: touched_chunks_def)

section \<open>Which chunks may be taken from the parent\<close>

lemma tracks_same_chunk:
  assumes "tracks P P' dl" "k \<notin> set (affectedChunkKeys dl)" "chunk_key r = Some k"
  shows "r \<in> set P \<longleftrightarrow> r \<in> set P'"
  using assms unfolding tracks_def by blast

lemma sum_list_pointwise:
  fixes f g :: "'a \<Rightarrow> nat"
  assumes "\<And>k. k \<in> set ks \<Longrightarrow> f k \<le> g k" "sum_list (map f ks) = sum_list (map g ks)" "k \<in> set ks"
  shows "f k = g k"
  using assms
proof (induction ks)
  case (Cons x ks)
  have "sum_list (map f ks) \<le> sum_list (map g ks)" using Cons.prems(1) by (intro sum_list_mono) auto
  moreover have "f x \<le> g x" using Cons.prems(1) by simp
  ultimately have "f x = g x" "sum_list (map f ks) = sum_list (map g ks)" using Cons.prems(2) by auto
  then show ?case using Cons by auto
qed simp

lemma manifest_sum:
  "sumGenerationChunkItemsOutside (manifest_counts n g) ks
     = sum_list (map (\<lambda>k. length (g k)) (filter (\<lambda>k. k \<notin> set ks) (all_keys n)))"
proof -
  have "sum_list (map snd (filter (\<lambda>(k, m). k \<notin> set ks) (map (\<lambda>k. (k, length (g k))) (filter (\<lambda>k. g k \<noteq> []) xs))))
     = sum_list (map (\<lambda>k. length (g k)) (filter (\<lambda>k. k \<notin> set ks) xs))" for xs
    by (induction xs) auto
  then show ?thesis by (simp add: sumGenerationChunkItemsOutside_def manifest_counts_def)
qed

text \<open>
  The count check makes reuse safe in a sliding window: a chunk that is not affected can only lose
  rows, so equal totals mean equal chunks.
\<close>

lemma reuse_sliding:
  assumes coll: "inj coll" and w: "w \<in> set SLIDING_WINDOWS" and c: "c \<le> c'"
    and wf: "rows_wf n P" "rows_wf n P'" and tr: "tracks P P' dl"
    and g: "\<And>k. k \<in> set (all_keys n) \<Longrightarrow> g k = chunk_rows coll P w c k"
    and ks: "set (touched_chunks w c' (touchedRows dl)) \<subseteq> set ks"
    and reuse: "canReuseUnaffectedChunks P' w (Some c') c' (Some (manifest_counts n g)) ks e"
    and k: "k \<in> set (all_keys n)" "k \<notin> set ks"
  shows "g k = chunk_rows coll P' w c' k"
proof -
  let ?A = "\<lambda>k. filter (\<lambda>r. projectionWindowFilter w (Some c) c r \<and> chunk_key r = Some k) P"
  let ?B = "\<lambda>k. filter (\<lambda>r. projectionWindowFilter w (Some c') c' r \<and> chunk_key r = Some k) P'"
  let ?K = "filter (\<lambda>k. k \<notin> set ks) (all_keys n)"
  have d: "distinct P" "distinct P'" using wf by (simp_all add: rows_wf_def distinct_map)
  have sub: "set (?B j) \<subseteq> set (?A j)" if "j \<notin> set ks" for j
  proof
    fix r assume r: "r \<in> set (?B j)"
    have "r \<in> set P"
    proof (rule ccontr)
      assume "r \<notin> set P"
      then obtain t where "t \<in> set (touchedRows dl)" "t_recency_ts t = recency_ts r" "t_chunk_key t = Some j"
        using tr r unfolding tracks_def by force
      moreover from this have "touched_in_window w c' t"
        using r by (simp add: touched_in_window_def window_sliding [OF w])
      ultimately show False using touched_chunk_listed ks that by blast
    qed
    then show "r \<in> set (?A j)" using r visible_mono [OF w c] by simp
  qed
  have le: "length (?B j) \<le> length (?A j)" if "j \<in> set ?K" for j
  proof -
    have "card (set (?B j)) \<le> card (set (?A j))" using sub [of j] that by (intro card_mono) auto
    then show ?thesis using d by (simp add: distinct_card del: set_filter)
  qed
  have "sum_list (map (\<lambda>j. length (?A j)) ?K) = sum_list (map (\<lambda>j. length (g j)) ?K)"
    using g by (intro arg_cong [where f = sum_list] map_cong) (auto simp: length_chunk_rows)
  also have "\<dots> = countProjectionItemsOutsideChunks P' w (Some c') c' ks"
    using reuse window_sliding(3,4) [OF w]
    by (auto simp: canReuseUnaffectedChunks_def manifest_sum Let_def split: if_splits)
  also have "\<dots> = length (filter (\<lambda>r. projectionWindowFilter w (Some c') c' r \<and> outside_chunks ks r) P')"
    using window_sliding(3,4) [OF w] by (simp add: countProjectionItemsOutsideChunks_def)
  also have "\<dots> = sum_list (map (\<lambda>j. length (filter (\<lambda>r. (projectionWindowFilter w (Some c') c' r \<and> outside_chunks ks r)
      \<and> chunk_key r = Some j) P')) ?K)"
    by (rule sum_counts_by_chunk [symmetric])
      (use rows_wf_chunk [OF wf(2)] in \<open>fastforce simp: distinct_all_keys outside_chunks_def set_all_keys\<close>)+
  also have "\<dots> = sum_list (map (\<lambda>j. length (?B j)) ?K)"
    by (intro arg_cong [where f = sum_list] map_cong arg_cong [where f = length] filter_cong)
      (auto simp: outside_chunks_def)
  finally have "length (?B k) = length (?A k)"
    using sum_list_pointwise [where f = "\<lambda>j. length (?B j)" and g = "\<lambda>j. length (?A j)" and ks = ?K and k = k, OF le] k
    by simp
  then have "card (set (?B k)) = card (set (?A k))" using d by (simp add: distinct_card del: set_filter)
  then have "set (?B k) = set (?A k)" using sub [OF k(2)] by (intro card_subset_eq) auto
  then have "chunk_rows coll P w c k = chunk_rows coll P' w c' k"
    using wf by (intro chunk_rows_eq [OF coll]) (auto simp: rows_wf_def)
  then show ?thesis using g k(1) by simp
qed

lemma unaffected_chunk:
  assumes coll: "inj coll" and wf: "rows_wf n P" "rows_wf n P'" and tr: "tracks P P' dl"
    and vis: "\<And>r. r \<in> set P \<Longrightarrow> projectionWindowFilter w (Some c) c r \<longleftrightarrow> projectionWindowFilter w (Some c') c' r"
    and k: "k \<notin> set (affectedChunkKeys dl)"
  shows "chunk_rows coll P w c k = chunk_rows coll P' w c' k"
  using wf by (intro chunk_rows_eq [OF coll]) (auto simp: rows_wf_def tracks_same_chunk [OF tr k] vis)

text \<open>A sliding window without departures and touched rows in it has not changed.\<close>

lemma quiet_sliding:
  assumes coll: "inj coll" and w: "w \<in> set SLIDING_WINDOWS" and c: "c \<le> c'"
    and wf: "rows_wf n P" "rows_wf n P'" and tr: "tracks P P' dl"
    and quiet: "collectBoundaryDepartures P (Some c) (Some c') w = []" "touched_chunks w c' (touchedRows dl) = []"
  shows "chunk_rows coll P w c k = chunk_rows coll P' w c' k"
proof (rule chunk_rows_eq [OF coll])
  note vis = no_boundary_visible [OF w c quiet(1)]
  fix r
  have in_window: "touched_in_window w c' t \<longrightarrow> t_chunk_key t = None" if "t \<in> set (touchedRows dl)" for t
    using touched_chunk_listed [OF that] quiet(2) by (metis empty_iff empty_set not_None_eq)
  show "(r \<in> set P \<and> projectionWindowFilter w (Some c) c r \<and> chunk_key r = Some k)
     \<longleftrightarrow> (r \<in> set P' \<and> projectionWindowFilter w (Some c') c' r \<and> chunk_key r = Some k)"
  proof (cases "r \<in> set P \<longleftrightarrow> r \<in> set P'")
    case True
    then show ?thesis using vis by blast
  next
    case False
    have "\<not> projectionWindowFilter w (Some c') c' r" if key: "chunk_key r = Some k"
    proof
      assume v: "projectionWindowFilter w (Some c') c' r"
      show False
      proof (cases "r \<in> set P")
        case True
        then obtain t where "t \<in> set (touchedRows dl)" "t_prev_recency_ts t = recency_ts r" "t_chunk_key t \<noteq> None"
          using tr False unfolding tracks_def by blast
        then show False using in_window v by (auto simp: touched_in_window_def window_sliding [OF w] split: option.splits)
      next
        case not_old: False
        then have "r \<in> set P' - set P" using False by blast
        then obtain t where "t \<in> set (touchedRows dl)" "t_recency_ts t = recency_ts r" "t_chunk_key t = Some k"
          using tr key unfolding tracks_def by blast
        then show False using in_window v by (auto simp: touched_in_window_def window_sliding [OF w] split: option.splits)
      qed
    qed
    then show ?thesis using vis False by blast
  qed
qed (use wf in \<open>simp_all add: rows_wf_def\<close>)

section \<open>Facts about publishing\<close>

lemma length_visible_by_chunk:
  assumes "rows_wf n P"
  shows "sum_list (map (\<lambda>k. length (chunk_rows coll P w c k)) (all_keys n)) = length (filter (projectionWindowFilter w (Some c) c) P)"
  unfolding length_chunk_rows
  by (rule sum_counts_by_chunk) (use rows_wf_chunk [OF assms] in \<open>auto simp: distinct_all_keys set_all_keys\<close>)

lemma build_chunks_full:
  assumes wf: "rows_wf n P" and expected: "expected = int (length (filter (projectionWindowFilter w (Some c) c) P))"
    and keep: "\<And>k. \<lbrakk>k \<in> set (all_keys n); k \<notin> set (chunks_to_write P w c n affected expected g)\<rbrakk> \<Longrightarrow> g k = chunk_rows coll P w c k"
  shows "\<exists>g'. build_chunks coll P w c n affected expected g = Some g'
           \<and> (\<forall>k \<in> set (all_keys n). g' k = chunk_rows coll P w c k)"
proof -
  let ?g = "\<lambda>k. if k \<in> set (chunks_to_write P w c n affected expected g) then chunk_rows coll P w c k else g k"
  have all: "?g k = chunk_rows coll P w c k" if "k \<in> set (all_keys n)" for k using keep that by auto
  then have "sum_list (map (\<lambda>k. length (?g k)) (all_keys n)) = sum_list (map (\<lambda>k. length (chunk_rows coll P w c k)) (all_keys n))"
    by (intro arg_cong [where f = sum_list] map_cong) auto
  then have "build_chunks coll P w c n affected expected g = Some ?g"
    using expected by (simp add: build_chunks_def Let_def length_visible_by_chunk [OF wf])
  then show ?thesis using all by blast
qed

lemma counter_cases:
  fixes N L :: int
  assumes "(case (b \<and> \<not> v, ct) of (True, Some m) \<Rightarrow> (m, ct) | _ \<Rightarrow> (N, if b then Some N else ct)) = (e, ct')"
    and "b \<Longrightarrow> N = L" "ct = None \<or> ct = Some L"
  shows "e = N" "ct' = None \<or> ct' = Some L"
  using assms by (cases b; cases v; cases ct; auto)+

lemma expected_count:
  assumes w: "w = ''all'' \<or> w \<in> set SLIDING_WINDOWS"
    and counter: "counter = None \<or> counter = Some (int (length P))"
    and r: "resolveExpectedProjectionItemCount P counter w (Some c) c verify = (expected, counter')"
  shows "expected = int (length (filter (projectionWindowFilter w (Some c) c) P))"
    and "counter' = None \<or> counter' = Some (int (length P))"
proof -
  have l: "js_lower w = w" using w window_all(2) window_sliding(3) by blast
  have ne: "(w = []) = False" using w by (auto simp: SLIDING_WINDOWS_def)
  let ?n = "int (length (filter (projectionWindowFilter w (Some c) c) P))"
  have eq: "(case (w = ''all'' \<and> \<not> verify, counter) of (True, Some m) \<Rightarrow> (m, counter)
      | _ \<Rightarrow> (?n, if w = ''all'' then Some ?n else counter)) = (expected, counter')"
    using r unfolding resolveExpectedProjectionItemCount_def countProjectionItemsForWindow_def Let_def
    by (simp only: l ne if_False)
  have n: "?n = int (length P)" if "w = ''all''" unfolding that by (simp add: window_all(1))
  show "expected = ?n" "counter' = None \<or> counter' = Some (int (length P))"
    by (rule counter_cases [OF eq n counter]; assumption)+
qed

definition published :: "(string \<Rightarrow> 'a::linorder) \<Rightarrow> string \<Rightarrow> int \<Rightarrow> int \<Rightarrow> feed_state \<Rightarrow> bool" where
  "published coll w n c s \<longleftrightarrow> (\<forall>k \<in> set (all_keys n). st_gen s k = chunk_rows coll (st_proj s) w c k)"

lemma faithful_published: "st_cutoff s = Some c \<Longrightarrow> faithful coll w n s \<longleftrightarrow> published coll w n c s"
  by (simp add: faithful_def published_def full_rebuild_def list_all_iff)

lemma publish_window_faithful:
  assumes w: "w = ''all'' \<or> w \<in> set SLIDING_WINDOWS" and wf: "state_wf n s"
    and pub: "publish_window coll w n c fails d affected refresh s = (out, s')"
    and unref: "\<not> refresh \<Longrightarrow> published coll w n c s"
    and ref: "\<And>ks k e. \<lbrakk>refresh; affected = Some ks; k \<in> set (all_keys n); k \<notin> set ks;
        canReuseUnaffectedChunks (st_proj s) w (Some c) c (Some (manifest_counts n (st_gen s))) (ascending ks) (Some e)\<rbrakk>
      \<Longrightarrow> st_gen s k = chunk_rows coll (st_proj s) w c k"
    and aff: "affected \<noteq> None"
  shows "out \<noteq> TickFailed \<Longrightarrow> faithful coll w n s' \<and> st_cutoff s' = Some c \<and> st_proj s' = st_proj s"
    and "state_wf n s'" and "\<not> fails \<Longrightarrow> out \<noteq> TickFailed" and "out \<noteq> TickForceFull"
proof -
  have P: "rows_wf n (st_proj s)" and counter: "st_counter s = None \<or> st_counter s = Some (int (length (st_proj s)))"
    using wf by (auto simp: state_wf_def split: option.splits)
  obtain ks where ks: "affected = Some ks" using aff by blast
  let ?every = "ks = [] \<or> int (length ks) \<ge> n"
  obtain e ct where e: "resolveExpectedProjectionItemCount (st_proj s) (st_counter s) w (Some c) c ?every = (e, ct)"
    by fastforce
  note E = expected_count [OF w counter e]
  have "(out \<noteq> TickFailed \<longrightarrow> faithful coll w n s' \<and> st_cutoff s' = Some c \<and> st_proj s' = st_proj s)
    \<and> state_wf n s' \<and> (\<not> fails \<longrightarrow> out \<noteq> TickFailed) \<and> out \<noteq> TickForceFull"
  proof (cases refresh)
    case False
    then have "out = TickUnchanged" "s' = s\<lparr>st_cutoff := Some c\<rparr>" using pub by (simp_all add: publish_window_def)
    then show ?thesis using unref [OF False] wf
      by (auto simp: faithful_def published_def full_rebuild_def list_all_iff state_wf_def split: option.splits)
  next
    case True
    let ?a = "if ?every then None else Some ks"
    have keep: "st_gen s k = chunk_rows coll (st_proj s) w c k"
      if "k \<in> set (all_keys n)" "k \<notin> set (chunks_to_write (st_proj s) w c n ?a e (st_gen s))" for k
      using that ref [OF True ks that(1)] by (auto simp: chunks_to_write_def split: if_splits)
    obtain g' where g': "build_chunks coll (st_proj s) w c n ?a e (st_gen s) = Some g'"
      "\<forall>k \<in> set (all_keys n). g' k = chunk_rows coll (st_proj s) w c k"
      using build_chunks_full [OF P E(1) keep] by blast
    show ?thesis
    proof (cases fails)
      case True
      then show ?thesis using pub \<open>refresh\<close> wf by (auto simp: publish_window_def ks Let_def e)
    next
      case False
      then have "out = TickBuilt" "s' = s\<lparr>st_counter := ct, st_cutoff := Some c, st_gen := g'\<rparr>"
        using pub \<open>refresh\<close> g'(1) by (auto simp: publish_window_def ks Let_def e)
      then show ?thesis using g'(2) P E(2)
        by (auto simp: faithful_def full_rebuild_def list_all_iff state_wf_def)
    qed
  qed
  then show "out \<noteq> TickFailed \<Longrightarrow> faithful coll w n s' \<and> st_cutoff s' = Some c \<and> st_proj s' = st_proj s"
    and "state_wf n s'" and "\<not> fails \<Longrightarrow> out \<noteq> TickFailed" and "out \<noteq> TickForceFull" by blast+
qed

section \<open>Every tick\<close>

lemma state_wf_cutoff [simp]: "state_wf n (s\<lparr>st_cutoff := c\<rparr>) = state_wf n s"
  by (simp add: state_wf_def cong: option.case_cong)

lemma run_tick_sound:
  assumes coll: "inj coll" and n: "0 < n" and w: "w = ''all'' \<or> w \<in> set SLIDING_WINDOWS"
    and run: "run_tick coll n w m c' fails pending d ans recon s = Some (out, s')"
    and wf: "state_wf m s" "rows_wf m (matched_rows ans)"
    and wf2: "\<And>d2 a2. recon = Some (d2, a2) \<Longrightarrow> rows_wf m (matched_rows a2)"
    and c: "st_cutoff s = Some c" "c \<le> c'" and f: "faithful coll w m s"
  shows "state_wf m s' \<and> (\<not> fails \<longrightarrow> out \<noteq> TickFailed)
     \<and> (out = TickForceFull \<or> out = TickFailed \<or> faithful coll w m s' \<and> st_cutoff s' = Some c')"
proof -
  let ?P = "st_proj s"
  have P: "rows_wf m ?P" and counter: "st_counter s = None \<or> st_counter s = Some (int (length ?P))"
    using wf(1) by (auto simp: state_wf_def split: option.splits)
  have g: "st_gen s k = chunk_rows coll ?P w c k" if "k \<in> set (all_keys m)" for k
    using f that unfolding faithful_published [OF c(1)] published_def by blast
  let ?b = "if isSlidingWindow w then collectBoundaryDepartures ?P (Some c) (Some c') w else []"
  note prep = prepareIncrementalFeedTick_def [of n w "st_cutoff s" c' pending d ans "(?P, st_counter s)", unfolded c(1), simplified]
  obtain q pr where pr: "prepareIncrementalFeedTick n w (st_cutoff s) c' pending d ans (?P, st_counter s) = Some (q, pr)"
    using run by (auto simp: run_tick_def split: option.splits)
  have same_vis: "projectionWindowFilter w (Some c) c r \<longleftrightarrow> projectionWindowFilter w (Some c') c' r" if "?b = []" "r \<in> set ?P" for r
    using w
  proof
    assume "w \<in> set SLIDING_WINDOWS"
    with that show ?thesis using no_boundary_visible [OF _ c(2)] window_sliding(5) by metis
  qed (simp add: window_all(1))
  show ?thesis
  proof (cases pr)
    case ForceFull
    then show ?thesis using run pr wf(1) by (cases q) (auto simp: run_tick_def)
  next
    case Noop
    then have b: "?b = []" using pr c(1) by (auto simp: prep Let_def split: if_splits option.splits)
    have "chunk_rows coll ?P w c k = chunk_rows coll ?P w c' k" for k
      by (rule chunk_rows_eq [OF coll]) (use P same_vis [OF b] in \<open>auto simp: rows_wf_def\<close>)
    then have noop: "faithful coll w m (s\<lparr>st_cutoff := Some c'\<rparr>)"
      using g by (simp add: faithful_def full_rebuild_def list_all_iff)
    show ?thesis
    proof (cases recon)
      case None
      then show ?thesis using run pr Noop noop wf(1) by (cases q) (auto simp: run_tick_def)
    next
      case (Some r2)
      obtain d2 a2 where r2: "recon = Some (d2, a2)" using Some by (cases r2) auto
      obtain P2 c2 dl where ap: "applyIncrementalProjectionUpdate n d2 a2 (?P, st_counter s) = Some ((P2, c2), dl)"
        using run pr Noop r2 by (cases q) (auto simp: run_tick_def split: option.splits)
      note T = apply_tracks [OF ap n P wf2 [OF r2] counter]
      let ?s2 = "s\<lparr>st_proj := P2, st_counter := c2\<rparr>"
      have wf_s2: "state_wf m ?s2" using T(1,3) by (auto simp: state_wf_def split: option.splits)
      show ?thesis
      proof (cases "artifactDirty dl")
        case True
        then have "publish_window coll w m c' fails dl (Some (affectedChunkKeys dl)) True ?s2 = (out, s')"
          using run pr Noop r2 ap by (cases q) (auto simp: run_tick_def)
        from publish_window_faithful [OF w wf_s2 this]
        show ?thesis
          using unaffected_chunk [OF coll P T(1,2) same_vis [OF b]] g by auto
      next
        case False
        then have "P2 = ?P" using T(2) by (simp add: tracks_def)
        then show ?thesis using run pr Noop r2 ap False noop wf_s2
          by (cases q) (auto simp: run_tick_def faithful_def)
      qed
    qed
  next
    case (Prepared dl boundary affected refresh)
    obtain P2 c2 where q: "q = (P2, c2)" by (cases q)
    have ap: "applyIncrementalProjectionUpdate n d ans (?P, st_counter s) = Some ((P2, c2), dl)"
      and bd: "boundary = ?b" and aff: "affected = computeAffectedChunks dl ?b c' w"
      and rf: "refresh = windowNeedsArtifactRefresh w dl ?b affected"
      using pr c(1) Prepared q
      by (auto simp: prep Let_def applyIncrementalProjectionUpdate_def split: if_splits option.splits)
    note T = apply_tracks [OF ap n P wf(2) counter]
    let ?s2 = "s\<lparr>st_proj := P2, st_counter := c2\<rparr>"
    have wf_s2: "state_wf m ?s2" using T(1,3) by (auto simp: state_wf_def split: option.splits)
    have pub: "publish_window coll w m c' fails dl affected refresh ?s2 = (out, s')"
      using run pr Prepared q by (simp add: run_tick_def)
    have unref: "published coll w m c' ?s2" if "\<not> refresh"
    proof -
      have "chunk_rows coll ?P w c k = chunk_rows coll P2 w c' k" for k
        using w
      proof
        assume all: "w = ''all''"
        then have "\<not> artifactDirty dl" using that unfolding rf windowNeedsArtifactRefresh_def Let_def all window_all(2) by simp
        then have "P2 = ?P" using T(2) by (simp add: tracks_def)
        then show ?thesis using P by (intro chunk_rows_eq [OF coll]) (auto simp: rows_wf_def all window_all(1))
      next
        assume sl: "w \<in> set SLIDING_WINDOWS"
        then have "?b = []" "touched_chunks w c' (touchedRows dl) = []"
          using that window_sliding(3-5) [OF sl] arg_cong [OF _, of "ascending _" "[]" set]
          by (auto simp: rf aff windowNeedsArtifactRefresh_def computeAffectedChunks_def simp flip: set_empty split: if_splits)
        then show ?thesis using quiet_sliding [OF coll sl c(2) P T(1,2)] window_sliding(5) [OF sl] by simp
      qed
      then show ?thesis using g by (simp add: published_def)
    qed
    have ref: "st_gen ?s2 k = chunk_rows coll (st_proj ?s2) w c' k"
      if "refresh" "affected = Some ks" "k \<in> set (all_keys m)" "k \<notin> set ks"
        "canReuseUnaffectedChunks (st_proj ?s2) w (Some c') c' (Some (manifest_counts m (st_gen ?s2))) (ascending ks) (Some e)" for ks k e
      using w
    proof
      assume all: "w = ''all''"
      then have "k \<notin> set (affectedChunkKeys dl)" using that(2,4) by (auto simp: aff computeAffectedChunks_def)
      from unaffected_chunk [OF coll P T(1,2) _ this, of w c c']
      show ?thesis using g that(3) by (simp add: all window_all(1))
    next
      assume sl: "w \<in> set SLIDING_WINDOWS"
      have "set (touched_chunks w c' (touchedRows dl)) \<subseteq> set (ascending ks)"
        using that(2) sl window_sliding(4) [OF sl] by (auto simp: aff computeAffectedChunks_def)
      from reuse_sliding [OF coll sl c(2) P T(1,2) g this] that
      show ?thesis by simp
    qed
    have an: "affected \<noteq> None" using w by (auto simp: aff computeAffectedChunks_def)
    have "state_wf m s'"
      by (rule publish_window_faithful(2) [OF w wf_s2 pub _ _ an]) (erule unref, (rule ref; assumption))
    moreover have "out \<noteq> TickFailed" if "\<not> fails"
      by (rule publish_window_faithful(3) [OF w wf_s2 pub _ _ an that]) (erule unref, (rule ref; assumption))
    moreover have "faithful coll w m s' \<and> st_cutoff s' = Some c' \<and> st_proj s' = st_proj ?s2" if "out \<noteq> TickFailed"
      by (rule publish_window_faithful(1) [OF w wf_s2 pub _ _ an that]) (erule unref, (rule ref; assumption))
    ultimately show ?thesis by blast
  qed
qed

section \<open>Properties\<close>


text \<open>A feed of two chunks; the item \<open>b\<close> is edited, so that chunk 1 has to be written again.\<close>

definition sample_row :: "string \<Rightarrow> int \<Rightarrow> int \<Rightarrow> string \<Rightarrow> int \<Rightarrow> proj_row" where
  "sample_row v i t fp k = \<lparr>identity_key = ''o:domain:'' @ v, ioc_item_id = i, observable = v, recency_ts = Some t, confidence_rank = 50,
     txt_value = v, item_json = None, content_fingerprint = fp, partition_identity = Some (''o:domain:'' @ v), chunk_key = Some k\<rparr>"

definition sample_projection :: projection where
  "sample_projection = [sample_row ''a'' 1 1000 ''f1'' 0, sample_row ''b'' 2 2000 ''f2'' 1]"

definition sample_state :: feed_state where
  "sample_state = \<lparr>st_proj = sample_projection, st_counter = Some 2, st_cutoff = Some 5000,
     st_gen = (\<lambda>k. if k = 0 then [sample_row ''a'' 1 1000 ''f1'' 0] else if k = 1 then [sample_row ''b'' 2 2000 ''f2'' 1] else [])\<rparr>"

definition sample_dirty :: dirty_set where
  "sample_dirty = \<lparr>dirty_ids = [2], dirty_deletes = [], dirty_forceFull = False\<rparr>"

definition sample_answers :: feed_answers where
  "sample_answers = \<lparr>canonical_identities = [(''b'', ''domain'')], sibling_ids = [], matched_ids = [2],
     matched_rows = [sample_row ''b'' 2 6000 ''f2x'' 1]\<rparr>"

definition sample_tick :: "int \<Rightarrow> bool \<Rightarrow> feed_state \<Rightarrow> (outcome \<times> feed_state) option" where
  "sample_tick now fails s = run_tick id 4000 ''7d'' 2 now fails False sample_dirty sample_answers None s"

lemma sample_window: "configuredArtifactWindow ''basic'' ''7d'' = ''7d''"
  by code_simp

lemma sample_state_ok: "state_wf 2 sample_state" "rows_wf 2 (matched_rows sample_answers)" "faithful id ''7d'' 2 sample_state"
  by code_simp+

lemma sample_cutoff: "st_cutoff sample_state = Some 5000"
  by (simp add: sample_state_def)


text \<open>
  when a build fails, the change is lost.  The projection has been updated before the transaction of
  the build and keeps the update; the next tick is given the same touched item, sees no difference to
  the projection any more, reports the window as unchanged and moves the cutoff past the change, while
  the published chunk still holds the old row.
\<close>

theorem failed_build_loses_change:
  "\<exists>s1 s2. sample_tick 7000 True sample_state = Some (TickFailed, s1) \<and> sample_tick 9000 False s1 = Some (TickUnchanged, s2)
     \<and> st_cutoff s2 = Some 9000 \<and> \<not> faithful id ''7d'' 2 s2
     \<and> st_gen s2 1 = [sample_row ''b'' 2 2000 ''f2'' 1] \<and> st_proj s2 = [sample_row ''a'' 1 1000 ''f1'' 0, sample_row ''b'' 2 6000 ''f2x'' 1]"
proof -
  have "map_option fst (sample_tick 7000 True sample_state) = Some TickFailed" by code_simp
  then obtain s1 where s1: "sample_tick 7000 True sample_state = Some (TickFailed, s1)" by auto
  have "map_option (\<lambda>(out, s). (out, st_cutoff s, faithful id ''7d'' 2 s, st_gen s 1, st_proj s))
      (sample_tick 9000 False (snd (the (sample_tick 7000 True sample_state))))
    = Some (TickUnchanged, Some 9000, False, [sample_row ''b'' 2 2000 ''f2'' 1],
        [sample_row ''a'' 1 1000 ''f1'' 0, sample_row ''b'' 2 6000 ''f2x'' 1])"
    by code_simp
  then show ?thesis using s1 by auto
qed

end
