(* ===== verification/PubReconcile.thy ===== *)
theory PubReconcile
  imports PubTick "HOL-Library.Signed_Division"
begin

text \<open>
  Published feeds: the rolling reconciliation of a projection (\<open>publishedFeedReconciliation.js\<close>, the
  SQL function of migration 006).  A tick with nothing to do evaluates one batch of the projected rows
  again.  The rows are divided into slices by a hash of their partition identity; a durable position,
  a slice and a cursor in it, moves over them in laps.  \<open>hashtext\<close> is PostgreSQL's hash function, an
  argument; settings are integers, \<open>None\<close> when the variable is not set or empty.
\<close>

section \<open>Slices\<close>

definition RECONCILIATION_BUCKET_COUNT :: int where "RECONCILIATION_BUCKET_COUNT = 256"

definition reconciliationSliceCount :: "int option \<Rightarrow> int" where
  "reconciliationSliceCount env =
     (let raw = max (case env of Some n \<Rightarrow> n | None \<Rightarrow> 64) 1
      in if RECONCILIATION_BUCKET_COUNT mod raw \<noteq> 0 then 64 else raw)"

definition reconciliationBatchSize :: "int option \<Rightarrow> int" where
  "reconciliationBatchSize env = max (case env of Some n \<Rightarrow> n | None \<Rightarrow> 500) 50"

text \<open>\<open>None\<close>: the count does not divide the buckets, an exception.\<close>

definition reconciliationBucketsPerSlice :: "int \<Rightarrow> int option" where
  "reconciliationBucketsPerSlice n =
     (if n \<le> 0 \<or> RECONCILIATION_BUCKET_COUNT mod n \<noteq> 0 then None else Some (RECONCILIATION_BUCKET_COUNT div n))"

definition reconciliationBucketRange :: "int \<Rightarrow> int \<Rightarrow> (int \<times> int) option" where
  "reconciliationBucketRange sl sliceCount =
     map_option (\<lambda>perSlice. let s = ((sl smod sliceCount) + sliceCount) smod sliceCount in (s * perSlice, (s + 1) * perSlice))
       (reconciliationBucketsPerSlice sliceCount)"

definition reconciliationBucketList :: "int \<Rightarrow> int \<Rightarrow> int list option" where
  "reconciliationBucketList sl sliceCount = map_option (\<lambda>(low, high). [low..high - 1]) (reconciliationBucketRange sl sliceCount)"

definition reconciliationSliceForBucket :: "int \<Rightarrow> int \<Rightarrow> int option" where
  "reconciliationSliceForBucket bucket sliceCount =
     map_option (\<lambda>perSlice. if bucket < 0 then 0 else (bucket div perSlice) smod sliceCount) (reconciliationBucketsPerSlice sliceCount)"

text \<open>\<open>published_feed_reconciliation_bucket\<close>: no bucket for an absent or blank identity.\<close>

definition reconciliation_bucket :: "(string \<Rightarrow> int) \<Rightarrow> string option \<Rightarrow> int option" where
  "reconciliation_bucket hashtext pid =
     (case pid of
        None \<Rightarrow> None
      | Some p \<Rightarrow> if list_all (\<lambda>c. c = CHR 0x20) p then None else Some (\<bar>hashtext p\<bar> mod 256))"

text \<open>The rows of a slice, by the stored bucket or by the hash itself.\<close>

definition in_slice :: "(string \<Rightarrow> int) \<Rightarrow> bool \<Rightarrow> int \<Rightarrow> int \<Rightarrow> proj_row \<Rightarrow> bool" where
  "in_slice hashtext indexed sliceCount sl r =
     (if indexed
      then (case (reconciliation_bucket hashtext (partition_identity r), reconciliationBucketList sl sliceCount) of
              (Some b, Some bs) \<Rightarrow> b \<in> set bs | _ \<Rightarrow> False)
      else (case partition_identity r of Some p \<Rightarrow> \<bar>hashtext p\<bar> mod sliceCount = sl | None \<Rightarrow> sl = 0))"

section \<open>A batch and the position after it\<close>

text \<open>\<open>buildReconciliationBatchSql\<close>: the first rows of the slice after the cursor, in the order of the database.\<close>

definition reconciliation_batch ::
  "(string \<Rightarrow> 'a::linorder) \<Rightarrow> (proj_row \<Rightarrow> bool) \<Rightarrow> string \<Rightarrow> nat \<Rightarrow> projection \<Rightarrow> proj_row list" where
  "reconciliation_batch coll mine cursor batchSize P =
     take batchSize (sort_key (\<lambda>r. coll (identity_key r))
       (filter (\<lambda>r. mine r \<and> (cursor = [] \<or> coll cursor < coll (identity_key r))) P))"

record progress =
  pr_slice :: int
  pr_cursor :: string

text \<open>The flag is \<open>sliceAdvanced\<close>.\<close>

definition nextReconciliationProgress :: "int \<Rightarrow> int \<Rightarrow> proj_row list \<Rightarrow> nat \<Rightarrow> progress \<times> bool" where
  "nextReconciliationProgress sl sliceCount batchRows batchSize =
     (let c = max (if sliceCount = 0 then 1 else sliceCount) 1; currentSlice = sl smod c
      in if batchRows = [] \<or> length batchRows < max batchSize 1
         then (\<lparr>pr_slice = (currentSlice + 1) smod c, pr_cursor = []\<rparr>, True)
         else (\<lparr>pr_slice = currentSlice, pr_cursor = identity_key (last batchRows)\<rparr>, False))"

section \<open>A run\<close>

record recon_conf =
  rc_slices :: "int option"
  rc_batch :: "int option"
  rc_indexed :: bool

text \<open>\<open>rr_state\<close> is the projection with its counter, \<open>None\<close> when a statement of the update fails.\<close>

record recon_result =
  rr_progress :: progress
  rr_inspected :: "proj_row list"
  rr_advanced :: bool
  rr_state :: "(projection \<times> int option) option"

definition recon_dirty :: "proj_row list \<Rightarrow> dirty_set" where
  "recon_dirty rows = \<lparr>dirty_ids = map ioc_item_id rows, dirty_deletes = [], dirty_forceFull = False\<rparr>"

text \<open>
  \<open>runReconciliationSlice\<close> with the feature enabled; \<open>n\<close> is the slice size of the projection update and
  \<open>answer\<close> what the evaluation of the feed answers for the batch.  The new position is stored before
  the update runs.
\<close>

definition runReconciliationSlice ::
  "(string \<Rightarrow> 'a::linorder) \<Rightarrow> (string \<Rightarrow> int) \<Rightarrow> nat \<Rightarrow> recon_conf \<Rightarrow> feed_answers \<Rightarrow> progress \<Rightarrow> projection \<times> int option
     \<Rightarrow> recon_result" where
  "runReconciliationSlice coll hashtext n cf answer pr s =
     (let sliceCount = reconciliationSliceCount (rc_slices cf);
          batchSize = nat (reconciliationBatchSize (rc_batch cf));
          sl = pr_slice pr smod sliceCount;
          rows = reconciliation_batch coll (in_slice hashtext (rc_indexed cf) sliceCount sl) (pr_cursor pr) batchSize (fst s);
          (pr', advanced) = nextReconciliationProgress sl sliceCount rows batchSize
      in \<lparr>rr_progress = pr', rr_inspected = rows, rr_advanced = advanced,
          rr_state = (if rows = [] then Some s
                      else map_option fst (applyIncrementalProjectionUpdate n (recon_dirty rows) answer s))\<rparr>)"

section \<open>Slices and rows\<close>

lemma slice_count_ok [simp]:
  "0 < reconciliationSliceCount env" "RECONCILIATION_BUCKET_COUNT mod reconciliationSliceCount env = 0"
  by (simp_all add: reconciliationSliceCount_def Let_def RECONCILIATION_BUCKET_COUNT_def max_def split: option.split)

lemma smod_nonneg: "0 \<le> (a :: int) \<Longrightarrow> 0 < b \<Longrightarrow> a smod b = a mod b"
  by (cases "a = 0") (simp_all add: signed_modulo_int_def sgn_if)

lemma per_slice:
  "reconciliationBucketsPerSlice (reconciliationSliceCount env) = Some (256 div reconciliationSliceCount env)"
  "256 = (256 div reconciliationSliceCount env) * reconciliationSliceCount env" "0 < 256 div reconciliationSliceCount env"
proof -
  let ?c = "reconciliationSliceCount env"
  have c: "0 < ?c" "256 mod ?c = 0" using slice_count_ok [of env] by (simp_all add: RECONCILIATION_BUCKET_COUNT_def)
  show "reconciliationBucketsPerSlice ?c = Some (256 div ?c)"
    using c(1,2) by (simp add: reconciliationBucketsPerSlice_def RECONCILIATION_BUCKET_COUNT_def not_le)
  show m: "256 = (256 div ?c) * ?c" using c(2) by (simp add: mod_eq_0_iff_dvd)
  show "0 < 256 div ?c"
  proof (rule ccontr)
    assume "\<not> 0 < 256 div ?c"
    then have "256 div ?c \<le> 0" by simp
    then have "(256 div ?c) * ?c \<le> 0" using mult_right_mono [of "256 div ?c" 0 ?c] c(1) by linarith
    then show False using m by simp
  qed
qed

lemma bucket_list:
  assumes "0 \<le> sl" "sl < reconciliationSliceCount env"
  shows "reconciliationBucketList sl (reconciliationSliceCount env)
    = Some [sl * (256 div reconciliationSliceCount env) .. (sl + 1) * (256 div reconciliationSliceCount env) - 1]"
proof -
  let ?c = "reconciliationSliceCount env"
  have "(sl smod ?c + ?c) smod ?c = sl" using assms by (simp add: smod_nonneg)
  then show ?thesis by (simp add: reconciliationBucketList_def reconciliationBucketRange_def per_slice(1) Let_def)
qed

lemma slice_for_bucket:
  assumes "0 \<le> b" "b < 256"
  shows "reconciliationSliceForBucket b (reconciliationSliceCount env) = Some (b div (256 div reconciliationSliceCount env))"
    "0 \<le> b div (256 div reconciliationSliceCount env)"
    "b div (256 div reconciliationSliceCount env) < reconciliationSliceCount env"
proof -
  let ?c = "reconciliationSliceCount env" and ?p = "256 div reconciliationSliceCount env"
  note p = per_slice [of env]
  show n: "0 \<le> b div ?p" using assms p(3) by (simp add: pos_imp_zdiv_nonneg_iff)
  have "b < ?c * ?p" using assms(2) p(2) by (simp add: mult.commute)
  moreover have "?c * ?p \<le> b" if "?c \<le> b div ?p"
  proof -
    have "?c * ?p \<le> b div ?p * ?p" using that p(3) by (intro mult_right_mono) simp_all
    also have "\<dots> \<le> b" using p(3) pos_mod_sign [of ?p b] div_mult_mod_eq [of b ?p] by linarith
    finally show ?thesis .
  qed
  ultimately show l: "b div ?p < ?c" by linarith
  show "reconciliationSliceForBucket b ?c = Some (b div ?p)"
    using assms n l by (simp add: reconciliationSliceForBucket_def p(1) smod_nonneg)
qed

text \<open>The one slice of a row; with the index a row without an identity has none.\<close>

definition row_slice :: "(string \<Rightarrow> int) \<Rightarrow> bool \<Rightarrow> int \<Rightarrow> proj_row \<Rightarrow> int option" where
  "row_slice hashtext indexed sliceCount r =
     (if indexed
      then Option.bind (reconciliation_bucket hashtext (partition_identity r)) (\<lambda>b. reconciliationSliceForBucket b sliceCount)
      else Some (case partition_identity r of Some p \<Rightarrow> \<bar>hashtext p\<bar> mod sliceCount | None \<Rightarrow> 0))"

lemma bucket_range: "reconciliation_bucket hashtext pid = Some b \<Longrightarrow> 0 \<le> b \<and> b < 256"
  by (auto simp: reconciliation_bucket_def split: option.splits if_splits)

lemma in_slice_iff:
  assumes "0 \<le> sl" "sl < reconciliationSliceCount env"
  shows "in_slice hashtext indexed (reconciliationSliceCount env) sl r
    \<longleftrightarrow> row_slice hashtext indexed (reconciliationSliceCount env) r = Some sl"
proof (cases indexed)
  case True
  let ?p = "256 div reconciliationSliceCount env"
  note p = per_slice [of env]
  show ?thesis
  proof (cases "reconciliation_bucket hashtext (partition_identity r)")
    case (Some b)
    note b = bucket_range [OF Some]
    have "b \<in> set [sl * ?p .. (sl + 1) * ?p - 1] \<longleftrightarrow> b div ?p = sl"
    proof -
      have b: "b = b div ?p * ?p + b mod ?p" "0 \<le> b mod ?p" "b mod ?p < ?p"
        using p(3) pos_mod_sign [of ?p b] pos_mod_bound [of ?p b] div_mult_mod_eq [of b ?p] by linarith+
      show ?thesis
      proof
        assume "b \<in> set [sl * ?p .. (sl + 1) * ?p - 1]"
        then have "b = ?p * sl + (b - sl * ?p)" "0 \<le> b - sl * ?p" "b - sl * ?p < ?p" by (auto simp: algebra_simps)
        then show "b div ?p = sl" by (metis int_div_pos_eq)
      next
        assume "b div ?p = sl"
        then show "b \<in> set [sl * ?p .. (sl + 1) * ?p - 1]" using b by (auto simp: algebra_simps)
      qed
    qed
    then show ?thesis using True Some slice_for_bucket(1) [of b env] b bucket_list [OF assms]
      by (simp add: in_slice_def row_slice_def)
  qed (simp add: in_slice_def row_slice_def True)
qed (auto simp: in_slice_def row_slice_def split: option.split)

lemma row_slice_range:
  assumes "row_slice hashtext indexed (reconciliationSliceCount env) r = Some sl"
  shows "0 \<le> sl \<and> sl < reconciliationSliceCount env"
proof (cases indexed)
  case True
  then obtain b where b: "reconciliation_bucket hashtext (partition_identity r) = Some b"
    "reconciliationSliceForBucket b (reconciliationSliceCount env) = Some sl"
    using assms by (auto simp: row_slice_def bind_eq_Some_conv)
  then show ?thesis using slice_for_bucket [of b env] bucket_range [OF b(1)] by auto
next
  case False
  then show ?thesis using assms by (auto simp: row_slice_def split: option.splits)
qed

section \<open>A lap over a projection at rest\<close>

text \<open>The rows inspected by a sequence of runs, each with what it finds in the database.\<close>

fun inspections ::
  "(string \<Rightarrow> 'a::linorder) \<Rightarrow> (string \<Rightarrow> int) \<Rightarrow> nat \<Rightarrow> recon_conf \<Rightarrow> progress \<Rightarrow> (feed_answers \<times> projection \<times> int option) list
     \<Rightarrow> proj_row list list \<times> progress" where
  "inspections coll hashtext n cf pr [] = ([], pr)"
| "inspections coll hashtext n cf pr ((answer, s) # hist) =
     (let r = runReconciliationSlice coll hashtext n cf answer pr s;
          (rows, pr') = inspections coll hashtext n cf (rr_progress r) hist
      in (rr_inspected r # rows, pr'))"

definition batch_of :: "recon_conf \<Rightarrow> nat" where
  "batch_of cf = nat (reconciliationBatchSize (rc_batch cf))"

definition slices_of :: "recon_conf \<Rightarrow> int" where
  "slices_of cf = reconciliationSliceCount (rc_slices cf)"

definition slice_of_row :: "(string \<Rightarrow> int) \<Rightarrow> recon_conf \<Rightarrow> proj_row \<Rightarrow> int option" where
  "slice_of_row hashtext cf r = row_slice hashtext (rc_indexed cf) (slices_of cf) r"

lemma batch_pos: "0 < batch_of cf"
  by (simp add: batch_of_def reconciliationBatchSize_def)

lemma slices_pos: "0 < slices_of cf"
  by (simp add: slices_of_def)

text \<open>What is left of the slice at a position.\<close>

definition remaining :: "(string \<Rightarrow> 'a::linorder) \<Rightarrow> (string \<Rightarrow> int) \<Rightarrow> recon_conf \<Rightarrow> progress \<Rightarrow> projection \<Rightarrow> proj_row list" where
  "remaining coll hashtext cf pr P =
     sort_key (\<lambda>r. coll (identity_key r))
       (filter (\<lambda>r. slice_of_row hashtext cf r = Some (pr_slice pr)
          \<and> (pr_cursor pr = [] \<or> coll (pr_cursor pr) < coll (identity_key r))) P)"

lemma run_step:
  assumes "0 \<le> pr_slice pr" "pr_slice pr < slices_of cf"
  shows "rr_inspected (runReconciliationSlice coll hashtext n cf answer pr s) = take (batch_of cf) (remaining coll hashtext cf pr (fst s))"
    and "length (remaining coll hashtext cf pr (fst s)) < batch_of cf \<Longrightarrow>
      rr_progress (runReconciliationSlice coll hashtext n cf answer pr s) = \<lparr>pr_slice = (pr_slice pr + 1) mod slices_of cf, pr_cursor = []\<rparr>
      \<and> rr_advanced (runReconciliationSlice coll hashtext n cf answer pr s)"
    and "batch_of cf \<le> length (remaining coll hashtext cf pr (fst s)) \<Longrightarrow>
      rr_progress (runReconciliationSlice coll hashtext n cf answer pr s)
        = pr\<lparr>pr_cursor := identity_key (remaining coll hashtext cf pr (fst s) ! (batch_of cf - 1))\<rparr>
      \<and> \<not> rr_advanced (runReconciliationSlice coll hashtext n cf answer pr s)"
proof -
  let ?r = "runReconciliationSlice coll hashtext n cf answer pr s" and ?R = "remaining coll hashtext cf pr (fst s)" and ?B = "batch_of cf"
  have sl: "pr_slice pr smod slices_of cf = pr_slice pr" using assms by (simp add: smod_nonneg)
  have rows: "reconciliation_batch coll (in_slice hashtext (rc_indexed cf) (slices_of cf) (pr_slice pr)) (pr_cursor pr) ?B (fst s) = take ?B ?R"
    using in_slice_iff [of "pr_slice pr" "rc_slices cf"] assms
    by (simp add: reconciliation_batch_def remaining_def slice_of_row_def slices_of_def)
  have position: "nextReconciliationProgress (pr_slice pr) (slices_of cf) (take ?B ?R) ?B
      = (if length ?R < ?B then (\<lparr>pr_slice = (pr_slice pr + 1) mod slices_of cf, pr_cursor = []\<rparr>, True)
         else (\<lparr>pr_slice = pr_slice pr, pr_cursor = identity_key (last (take ?B ?R))\<rparr>, False))"
  proof -
    have m: "max (if slices_of cf = 0 then 1 else slices_of cf) 1 = slices_of cf" "max ?B 1 = ?B"
      using order.strict_implies_not_eq [OF slices_pos [of cf]] slices_pos [of cf] batch_pos [of cf]
      by (metis int_one_le_iff_zero_less max.absorb1, metis Suc_leI One_nat_def max.absorb1)
    have "(pr_slice pr + 1) smod slices_of cf = (pr_slice pr + 1) mod slices_of cf" using assms by (simp add: smod_nonneg)
    moreover have "(take ?B ?R = [] \<or> length (take ?B ?R) < ?B) = (length ?R < ?B)" using batch_pos [of cf] by auto
    ultimately show ?thesis unfolding nextReconciliationProgress_def Let_def m sl by simp
  qed
  have e: "rr_inspected ?r = take ?B ?R" "rr_progress ?r = fst (nextReconciliationProgress (pr_slice pr) (slices_of cf) (take ?B ?R) ?B)"
    "rr_advanced ?r = snd (nextReconciliationProgress (pr_slice pr) (slices_of cf) (take ?B ?R) ?B)"
    using rows sl by (simp_all add: runReconciliationSlice_def Let_def case_prod_beta slices_of_def batch_of_def)
  show "rr_inspected ?r = take ?B ?R" by (rule e(1))
  show "rr_progress ?r = \<lparr>pr_slice = (pr_slice pr + 1) mod slices_of cf, pr_cursor = []\<rparr> \<and> rr_advanced ?r"
    if "length ?R < ?B" unfolding e position using that by simp
  show "rr_progress ?r = pr\<lparr>pr_cursor := identity_key (?R ! (?B - 1))\<rparr> \<and> \<not> rr_advanced ?r" if "?B \<le> length ?R"
  proof -
    have "take ?B ?R \<noteq> []" using that batch_pos [of cf] by auto
    then have "last (take ?B ?R) = ?R ! (?B - 1)" using that by (simp add: last_conv_nth)
    then show ?thesis unfolding e position using that by simp
  qed
qed

lemma filter_beyond:
  assumes "sorted (map k xs)" "distinct (map k xs)" "0 < b" "b \<le> length xs"
  shows "filter (\<lambda>x. k (xs ! (b - 1)) < k x) xs = drop b xs"
proof -
  have lt: "i < j \<Longrightarrow> j < length xs \<Longrightarrow> k (xs ! i) < k (xs ! j)" for i j
    using sorted_nth_mono [OF assms(1), of i j] nth_eq_iff_index_eq [OF assms(2), of i j] by (simp add: less_le)
  have "filter (\<lambda>x. k (xs ! (b - 1)) < k x) (take b xs) = []"
  proof -
    have "\<not> k (xs ! (b - 1)) < k x" if x: "x \<in> set (take b xs)" for x
    proof -
      obtain i where i: "i < length xs" "i < b" "x = xs ! i" using x by (auto simp: in_set_conv_nth)
      then have "k (xs ! i) \<le> k (xs ! (b - 1))" using sorted_nth_mono [OF assms(1), of i "b - 1"] assms(4) by simp
      then show ?thesis using i(3) by simp
    qed
    then show ?thesis by (simp add: filter_empty_conv)
  qed
  moreover have "filter (\<lambda>x. k (xs ! (b - 1)) < k x) (drop b xs) = drop b xs"
  proof -
    have "k (xs ! (b - 1)) < k x" if x: "x \<in> set (drop b xs)" for x
    proof -
      obtain i where "i < length (drop b xs)" "x = drop b xs ! i" using x by (metis in_set_conv_nth)
      then have "b + i < length xs" "x = xs ! (b + i)" by simp_all
      then show ?thesis using lt [of "b - 1" "b + i"] assms(3) by simp
    qed
    then show ?thesis by (simp add: filter_id_conv)
  qed
  ultimately show ?thesis by (metis append_Nil append_take_drop_id filter_append)
qed

lemma remaining_sorted:
  assumes "inj coll" "distinct (map identity_key P)"
  shows "sorted (map (\<lambda>r. coll (identity_key r)) (remaining coll hashtext cf pr P))"
    "distinct (map (\<lambda>r. coll (identity_key r)) (remaining coll hashtext cf pr P))"
proof -
  show "sorted (map (\<lambda>r. coll (identity_key r)) (remaining coll hashtext cf pr P))" by (simp add: remaining_def)
  have "inj_on (\<lambda>r. coll (identity_key r)) (set P)" and "distinct P"
    using assms by (auto simp: distinct_map inj_on_def inj_def)
  then show "distinct (map (\<lambda>r. coll (identity_key r)) (remaining coll hashtext cf pr P))"
    by (auto simp: distinct_map remaining_def intro: inj_on_subset)
qed

lemma remaining_after:
  assumes coll: "inj coll" and P: "distinct (map identity_key P)" "list_all (\<lambda>r. identity_key r \<noteq> []) P"
    and full: "batch_of cf \<le> length (remaining coll hashtext cf pr P)"
  shows "remaining coll hashtext cf (pr\<lparr>pr_cursor := identity_key (remaining coll hashtext cf pr P ! (batch_of cf - 1))\<rparr>) P
    = drop (batch_of cf) (remaining coll hashtext cf pr P)"
proof -
  let ?R = "remaining coll hashtext cf pr P" and ?k = "\<lambda>r. coll (identity_key r)"
  define x where "x = ?R ! (batch_of cf - 1)"
  have "x \<in> set ?R" unfolding x_def using full batch_pos [of cf] by (intro nth_mem) linarith
  then have x: "x \<in> set P" "pr_cursor pr = [] \<or> coll (pr_cursor pr) < ?k x" by (auto simp: remaining_def)
  have key: "identity_key x \<noteq> []" using P(2) x(1) by (auto simp: list_all_iff)
  have "filter (\<lambda>r. ?k x < ?k r) ?R = remaining coll hashtext cf (pr\<lparr>pr_cursor := identity_key x\<rparr>) P"
    unfolding remaining_def filter_sort filter_filter
    by (intro arg_cong2 [where f = sort_key] refl filter_cong) (use key x(2) in auto)
  moreover have "filter (\<lambda>r. ?k x < ?k r) ?R = drop (batch_of cf) ?R"
    unfolding x_def by (rule filter_beyond [OF remaining_sorted [OF coll P(1)] batch_pos full])
  ultimately show ?thesis unfolding x_def by simp
qed

lemma inspections_append:
  "inspections coll hashtext n cf pr (h @ h') =
     (let (rs, pr') = inspections coll hashtext n cf pr h; (rs', pr'') = inspections coll hashtext n cf pr' h' in (rs @ rs', pr''))"
  by (induction coll hashtext n cf pr h rule: inspections.induct) (simp_all add: Let_def case_prod_beta)

text \<open>One slice takes one run for each full batch and one more.\<close>

lemma slice_runs:
  assumes coll: "inj coll" and P: "distinct (map identity_key P)" "list_all (\<lambda>r. identity_key r \<noteq> []) P"
    and pr: "0 \<le> pr_slice pr" "pr_slice pr < slices_of cf"
    and hist: "list_all (\<lambda>h. fst (snd h) = P) hist"
      "length hist = length (remaining coll hashtext cf pr P) div batch_of cf + 1"
  shows "concat (fst (inspections coll hashtext n cf pr hist)) = remaining coll hashtext cf pr P
    \<and> snd (inspections coll hashtext n cf pr hist) = \<lparr>pr_slice = (pr_slice pr + 1) mod slices_of cf, pr_cursor = []\<rparr>"
  using pr hist
proof (induction "length hist" arbitrary: pr hist)
  case (Suc m)
  obtain answer s rest where h: "hist = (answer, s) # rest" using Suc.hyps(2) by (cases hist) auto
  have s: "fst s = P" "list_all (\<lambda>h. fst (snd h) = P) rest" using Suc.prems(3) h by simp_all
  let ?R = "remaining coll hashtext cf pr P" and ?B = "batch_of cf"
  let ?r = "runReconciliationSlice coll hashtext n cf answer pr s"
  note step = run_step [OF Suc.prems(1,2), where coll = coll and hashtext = hashtext and s = s and n = n and answer = answer, unfolded s(1)]
  show ?case
  proof (cases "length ?R < ?B")
    case True
    then have "rest = []" using Suc.prems(4) h by simp
    then show ?thesis using step(1) step(2) [OF True] True h by simp
  next
    case False
    then have full: "?B \<le> length ?R" by simp
    let ?pr = "pr\<lparr>pr_cursor := identity_key (?R ! (?B - 1))\<rparr>"
    have after: "remaining coll hashtext cf ?pr P = drop ?B ?R" by (rule remaining_after [OF coll P full])
    have "length rest = length (drop ?B ?R) div ?B + 1"
      using Suc.prems(4) h full batch_pos [of cf] by (simp add: le_div_geq)
    then have IH: "concat (fst (inspections coll hashtext n cf ?pr rest)) = drop ?B ?R
        \<and> snd (inspections coll hashtext n cf ?pr rest) = \<lparr>pr_slice = (pr_slice pr + 1) mod slices_of cf, pr_cursor = []\<rparr>"
      using Suc.hyps(1) [of rest ?pr] Suc.hyps(2) Suc.prems(1,2) s(2) h unfolding after by simp
    show ?thesis using step(1) step(3) [OF full] IH unfolding h by (simp add: Let_def case_prod_beta)
  qed
qed simp

definition slice_rows :: "(string \<Rightarrow> int) \<Rightarrow> recon_conf \<Rightarrow> projection \<Rightarrow> int \<Rightarrow> proj_row list" where
  "slice_rows hashtext cf P sl = filter (\<lambda>r. slice_of_row hashtext cf r = Some sl) P"

definition runs_of_slices :: "(string \<Rightarrow> int) \<Rightarrow> recon_conf \<Rightarrow> projection \<Rightarrow> int \<Rightarrow> nat \<Rightarrow> nat" where
  "runs_of_slices hashtext cf P sl j =
     sum_list (map (\<lambda>i. length (slice_rows hashtext cf P ((sl + int i) mod slices_of cf)) div batch_of cf + 1) [0..<j])"

lemma remaining_start: "remaining coll hashtext cf \<lparr>pr_slice = sl, pr_cursor = []\<rparr> P
    = sort_key (\<lambda>r. coll (identity_key r)) (slice_rows hashtext cf P sl)"
  by (simp add: remaining_def slice_rows_def)

lemma several_slices:
  assumes coll: "inj coll" and P: "distinct (map identity_key P)" "list_all (\<lambda>r. identity_key r \<noteq> []) P"
    and sl: "0 \<le> sl" "sl < slices_of cf"
  shows "\<lbrakk>list_all (\<lambda>h. fst (snd h) = P) hist; length hist = runs_of_slices hashtext cf P sl j\<rbrakk>
     \<Longrightarrow> concat (fst (inspections coll hashtext n cf \<lparr>pr_slice = sl, pr_cursor = []\<rparr> hist))
           = concat (map (\<lambda>i. sort_key (\<lambda>r. coll (identity_key r)) (slice_rows hashtext cf P ((sl + int i) mod slices_of cf))) [0..<j])
         \<and> snd (inspections coll hashtext n cf \<lparr>pr_slice = sl, pr_cursor = []\<rparr> hist) = \<lparr>pr_slice = (sl + int j) mod slices_of cf, pr_cursor = []\<rparr>"
proof (induction j arbitrary: hist)
  case 0
  then show ?case using sl by (simp add: runs_of_slices_def)
next
  case (Suc j)
  let ?k = "runs_of_slices hashtext cf P sl j" and ?s = "(sl + int j) mod slices_of cf"
  let ?q = "\<lparr>pr_slice = ?s, pr_cursor = []\<rparr>"
  obtain h1 h2 where hist: "hist = h1 @ h2" "length h1 = ?k"
    "length h2 = length (remaining coll hashtext cf ?q P) div batch_of cf + 1"
    using Suc.prems(2) by (intro that [of "take ?k hist" "drop ?k hist"]) (simp_all add: runs_of_slices_def remaining_start)
  then have P': "list_all (\<lambda>h. fst (snd h) = P) h1" "list_all (\<lambda>h. fst (snd h) = P) h2" using Suc.prems(1) by simp_all
  have s: "0 \<le> ?s" "?s < slices_of cf" using slices_pos [of cf] by simp_all
  note IH = Suc.IH [OF P'(1) hist(2)]
  have one: "concat (fst (inspections coll hashtext n cf ?q h2)) = remaining coll hashtext cf ?q P
      \<and> snd (inspections coll hashtext n cf ?q h2) = \<lparr>pr_slice = (?s + 1) mod slices_of cf, pr_cursor = []\<rparr>"
    using slice_runs [OF coll P, of ?q cf h2 hashtext n] s P'(2) hist(3) by simp
  have "(?s + 1) mod slices_of cf = (sl + int (Suc j)) mod slices_of cf"
    using mod_add_left_eq [of "sl + int j" "slices_of cf" 1] by (simp add: ac_simps)
  then show ?case
    using IH one unfolding hist(1) by (simp add: inspections_append Let_def case_prod_beta remaining_start)
qed

lemma residues_differ: "i < j \<Longrightarrow> int j < c \<Longrightarrow> (s + int i) mod c \<noteq> (s + int j) mod c"
proof
  assume "i < j" "int j < c" "(s + int i) mod c = (s + int j) mod c"
  then have "c dvd int j - int i" by (metis add_diff_cancel_left mod_eq_dvd_iff dvd_diff_commute)
  then show False using \<open>i < j\<close> \<open>int j < c\<close> zdvd_not_zless [of "int j - int i" c] by linarith
qed

lemma distinct_slices:
  assumes "distinct P" "int j \<le> slices_of cf"
  shows "distinct (concat (map (\<lambda>i. sort_key k (slice_rows hashtext cf P ((sl + int i) mod slices_of cf))) [0..<j]))"
  using assms(2)
proof (induction j)
  case (Suc j)
  have "r \<notin> set (slice_rows hashtext cf P ((sl + int j) mod slices_of cf))"
    if "i < j" "r \<in> set (slice_rows hashtext cf P ((sl + int i) mod slices_of cf))" for r i
    using that residues_differ [OF that(1), of "slices_of cf" sl] Suc.prems by (auto simp: slice_rows_def)
  moreover have "distinct (slice_rows hashtext cf P x)" for x using assms(1) by (simp add: slice_rows_def)
  ultimately show ?case using Suc by auto
qed simp

text \<open>
  A lap inspects every row once.  From the beginning of a slice, while the projection stays as it is,
  one run for each full batch of each slice and one more for each slice bring the position back to
  where it was; the runs of this lap have inspected every row that has a slice exactly once, and no
  other.  (With the bucket index a row without a partition identity has no slice.)
\<close>

theorem lap_inspects_each_row_once:
  assumes coll: "inj coll" and P: "distinct (map identity_key P)" "list_all (\<lambda>r. identity_key r \<noteq> []) P"
    and sl: "0 \<le> sl" "sl < slices_of cf"
    and hist: "list_all (\<lambda>(answer, Q, c). Q = P) hist"
      "length hist = sum_list (map (\<lambda>i. length (slice_rows hashtext cf P ((sl + int i) mod slices_of cf)) div batch_of cf + 1)
         [0..<nat (slices_of cf)])"
  shows "snd (inspections coll hashtext n cf \<lparr>pr_slice = sl, pr_cursor = []\<rparr> hist) = \<lparr>pr_slice = sl, pr_cursor = []\<rparr>
    \<and> distinct (concat (fst (inspections coll hashtext n cf \<lparr>pr_slice = sl, pr_cursor = []\<rparr> hist)))
    \<and> set (concat (fst (inspections coll hashtext n cf \<lparr>pr_slice = sl, pr_cursor = []\<rparr> hist)))
        = {r \<in> set P. slice_of_row hashtext cf r \<noteq> None}"
proof -
  let ?N = "nat (slices_of cf)"
  have N: "int ?N = slices_of cf" using slices_pos [of cf] by simp
  have h: "list_all (\<lambda>h. fst (snd h) = P) hist" using hist(1) by (simp add: list_all_iff case_prod_beta)
  have lap: "concat (fst (inspections coll hashtext n cf \<lparr>pr_slice = sl, pr_cursor = []\<rparr> hist))
      = concat (map (\<lambda>i. sort_key (\<lambda>r. coll (identity_key r)) (slice_rows hashtext cf P ((sl + int i) mod slices_of cf))) [0..<?N])
    \<and> snd (inspections coll hashtext n cf \<lparr>pr_slice = sl, pr_cursor = []\<rparr> hist) = \<lparr>pr_slice = (sl + int ?N) mod slices_of cf, pr_cursor = []\<rparr>"
    using several_slices [OF coll P sl h, of hashtext ?N n] hist(2) by (simp add: runs_of_slices_def)
  have "r \<in> set (concat (map (\<lambda>i. sort_key (\<lambda>r. coll (identity_key r)) (slice_rows hashtext cf P ((sl + int i) mod slices_of cf))) [0..<?N]))"
    if r: "r \<in> set P" "slice_of_row hashtext cf r = Some \<sigma>" for r \<sigma>
  proof -
    have \<sigma>: "0 \<le> \<sigma>" "\<sigma> < slices_of cf" using row_slice_range r(2) by (auto simp: slice_of_row_def slices_of_def)
    let ?i = "nat ((\<sigma> - sl) mod slices_of cf)"
    have i: "int ?i = (\<sigma> - sl) mod slices_of cf" "?i < ?N" using slices_pos [of cf] by (simp_all add: nat_less_iff)
    have "(sl + int ?i) mod slices_of cf = \<sigma>" unfolding i(1) using \<sigma> by (simp add: mod_add_right_eq)
    then have "r \<in> set (slice_rows hashtext cf P ((sl + int ?i) mod slices_of cf))" using r by (simp add: slice_rows_def)
    then have "\<exists>i \<in> set [0..<?N]. r \<in> set (slice_rows hashtext cf P ((sl + int i) mod slices_of cf))"
      using i(2) by (intro bexI [of _ ?i]) simp_all
    then show ?thesis by simp
  qed
  moreover have "distinct P" using P(1) by (simp add: distinct_map)
  ultimately show ?thesis using lap N sl distinct_slices [of P ?N cf "\<lambda>r. coll (identity_key r)" hashtext sl]
    by (auto simp: slice_rows_def)
qed

section \<open>What laps repair\<close>

text \<open>A projected row agrees with the truth when the feed would publish it as it is stored.\<close>

definition agrees :: "projection \<Rightarrow> proj_row \<Rightarrow> bool" where
  "agrees T q \<longleftrightarrow> (\<exists>t \<in> set T. identity_key t = identity_key q \<and> (t = q \<or> \<not> row_changed q t))"

lemma filtered: "q \<in> {x \<in> set (filter f P). g x} \<Longrightarrow> f q \<and> g q"
  by simp

lemma inspected_agrees:
  assumes ap: "apply_touched n d ans (P, c) = Some ((P', c'), dl)" and n: "0 < n"
    and dP: "distinct (map identity_key P)" and dR: "distinct (map identity_key (matched_rows ans))"
    and q: "q \<in> set P'" "q \<in> set P" "ioc_item_id q \<in> set (dirty_ids d)"
  shows "agrees (matched_rows ans) q"
proof -
  let ?proj = "projectedKeys P d ans" and ?new = "matched_rows ans"
  let ?eval = "remdups (dirty_ids d @ sibling_ids ans)" and ?nk = "map identity_key (matched_rows ans)"
  let ?ex = "existing_rows P ?eval (?nk @ ?proj)"
  let ?lv = "leave_keys ?ex ?nk (matched_ids ans) ?eval ?proj"
  let ?up = "filter (\<lambda>r. find_row (identity_key r) ?ex = None
      \<or> (case find_row (identity_key r) ?ex of None \<Rightarrow> False | Some prev \<Rightarrow> row_changed prev r)) ?new"
  let ?Q = "filter (\<lambda>r. identity_key r \<notin> set ?lv) P"
  have dQ: "distinct (map identity_key ?Q)" and dU: "distinct (map identity_key ?up)" and dE: "distinct (map identity_key ?ex)"
    using dP dR by (simp_all add: distinct_map_filter existing_rows_def)
  have "in_slices (length ?up) n upsertProjectionBatch ?up ?Q = Some (fold upsert_row ?up ?Q)"
    by (rule in_slices_fold [OF n le_refl dU upsertProjectionBatch_fold])
  then have P': "P' = fold upsert_row ?up ?Q"
    using ap unfolding apply_touched_def deleteProjectionIdentities_def Let_def by auto
  have found: "find_row (identity_key r) ?ex = Some r" if "r \<in> set P" "identity_key r \<in> keys_of ?new" for r
    using that by (intro find_row_member [OF dE]) (simp add: existing_rows_def)
  have diff: "differs old r" if "old \<in> set ?Q" "r \<in> set ?up" "identity_key old = identity_key r" for old r
  proof -
    have "identity_key old \<in> keys_of ?new" using that by (auto simp: image_iff)
    then have "find_row (identity_key r) ?ex = Some old" using found [of old] that by simp
    then show ?thesis using that(2) by (auto intro: row_changed_differs)
  qed
  have P'_set: "set P' = {x \<in> set ?Q. identity_key x \<notin> keys_of ?up} \<union> set ?up"
    using fold_upsert [OF dQ dU diff] unfolding P' by blast
  have kept: "identity_key q \<in> keys_of ?new \<or> identity_key q \<in> set ?lv"
  proof -
    have "identity_key q \<in> set ?proj" using q(2,3) by (auto simp: projectedKeys_def Let_def)
    then show ?thesis by (auto simp: leave_keys_def Let_def)
  qed
  show ?thesis
  proof (cases "q \<in> set ?up")
    case False
    then have "q \<in> {x \<in> set ?Q. identity_key x \<notin> keys_of ?up}" using q(1) P'_set by blast
    from filtered [OF this] have Q: "identity_key q \<notin> set ?lv" "identity_key q \<notin> keys_of ?up" by (rule conjunct1, rule conjunct2)
    have "identity_key q \<in> keys_of ?new" using kept Q(1) by argo
    then obtain t where t: "identity_key t = identity_key q" "t \<in> set ?new" by (elim imageE) (rule that, simp_all)
    have f: "find_row (identity_key t) ?ex = Some q"
      unfolding t(1) by (rule found [OF q(2)]) fact
    have "t \<notin> set ?up" using Q(2) imageI [of t "set ?up" identity_key] unfolding t(1) by argo
    then have "\<not> row_changed q t" using t(2) f by simp
    then show ?thesis using t by (auto simp: agrees_def)
  qed (auto simp: agrees_def)
qed

text \<open>
  The projection between two runs may be changed by ticks, which put rows into it that agree with the
  truth.  The number counts the slices completed.
\<close>

type_synonym recon_system = "progress \<times> (projection \<times> int option) \<times> nat"

inductive recon_step ::
  "(string \<Rightarrow> 'a::linorder) \<Rightarrow> (string \<Rightarrow> int) \<Rightarrow> nat \<Rightarrow> recon_conf \<Rightarrow> projection \<Rightarrow> recon_system \<Rightarrow> recon_system \<Rightarrow> bool"
  for coll hashtext n cf T where
  reconcile: "\<lbrakk>rr_state (runReconciliationSlice coll hashtext n cf answer pr s) = Some s';
     set (matched_rows answer) \<subseteq> set T; distinct (map identity_key (matched_rows answer));
     k' = (if rr_advanced (runReconciliationSlice coll hashtext n cf answer pr s) then Suc k else k)\<rbrakk>
   \<Longrightarrow> recon_step coll hashtext n cf T (pr, s, k) (rr_progress (runReconciliationSlice coll hashtext n cf answer pr s), s', k')"
| tick: "\<lbrakk>distinct (map identity_key (fst s')); \<And>q. q \<in> set (fst s') \<Longrightarrow> q \<in> set (fst s) \<or> agrees T q\<rbrakk>
   \<Longrightarrow> recon_step coll hashtext n cf T (pr, s, k) (pr, s', k)"

text \<open>How many slices are completed before the one of a row is, counted from the start.\<close>

definition turn :: "int \<Rightarrow> recon_conf \<Rightarrow> int \<Rightarrow> nat" where
  "turn s0 cf sl = (if (sl - s0) mod slices_of cf = 0 then nat (slices_of cf) else nat ((sl - s0) mod slices_of cf))"

definition passed :: "(string \<Rightarrow> 'a::linorder) \<Rightarrow> int \<Rightarrow> recon_conf \<Rightarrow> progress \<Rightarrow> nat \<Rightarrow> int \<Rightarrow> proj_row \<Rightarrow> bool" where
  "passed coll s0 cf pr k sl q \<longleftrightarrow>
     turn s0 cf sl < k \<or> (turn s0 cf sl = k \<and> pr_cursor pr \<noteq> [] \<and> coll (identity_key q) \<le> coll (pr_cursor pr))"

definition lap_inv ::
  "(string \<Rightarrow> 'a::linorder) \<Rightarrow> (string \<Rightarrow> int) \<Rightarrow> recon_conf \<Rightarrow> projection \<Rightarrow> int \<Rightarrow> recon_system \<Rightarrow> bool" where
  "lap_inv coll hashtext cf T s0 x =
     (case x of (pr, s, k) \<Rightarrow>
        distinct (map identity_key (fst s)) \<and> pr_slice pr = (s0 + int k) mod slices_of cf
        \<and> (\<forall>q \<in> set (fst s). \<forall>sl. slice_of_row hashtext cf q = Some sl \<and> passed coll s0 cf pr k sl q \<longrightarrow> agrees T q))"

lemma turn_slice:
  assumes "slice_of_row hashtext cf q = Some sl"
  shows "(s0 + int (turn s0 cf sl)) mod slices_of cf = sl" "0 < turn s0 cf sl" "turn s0 cf sl \<le> nat (slices_of cf)"
proof -
  have sl: "0 \<le> sl" "sl < slices_of cf" using row_slice_range assms by (auto simp: slice_of_row_def slices_of_def)
  have d: "0 \<le> (sl - s0) mod slices_of cf" "(sl - s0) mod slices_of cf < slices_of cf" using slices_pos [of cf] by simp_all
  have "(s0 + (sl - s0) mod slices_of cf) mod slices_of cf = sl" using sl by (simp add: mod_add_right_eq)
  moreover have "(s0 + slices_of cf) mod slices_of cf = sl" if "(sl - s0) mod slices_of cf = 0"
    using that calculation by simp
  ultimately show "(s0 + int (turn s0 cf sl)) mod slices_of cf = sl" using d slices_pos [of cf] by (simp add: turn_def)
  show "0 < turn s0 cf sl" "turn s0 cf sl \<le> nat (slices_of cf)"
    using d slices_pos [of cf] by (cases "(sl - s0) mod slices_of cf = 0"; simp add: turn_def nat_mono order.order_iff_strict)+
qed

lemma rest_of_slice:
  assumes "slice_of_row hashtext cf q = Some (pr_slice pr)" "q \<in> set P"
    and "pr_cursor pr = [] \<or> coll (pr_cursor pr) < coll (identity_key q)"
  shows "q \<in> set (remaining coll hashtext cf pr P)"
  using assms by (simp add: remaining_def)

text \<open>A row whose turn has passed after a run was passed before it, or has been inspected by it.\<close>

lemma passed_inspected:
  fixes coll :: "string \<Rightarrow> 'a::linorder"
  assumes coll: "inj coll" and P: "distinct (map identity_key (fst s))"
    and pr: "pr_slice pr = (s0 + int k) mod slices_of cf"
    and r: "r = runReconciliationSlice coll hashtext n cf answer pr s"
    and q: "q \<in> set (fst s)" "slice_of_row hashtext cf q = Some sl"
    and p: "passed coll s0 cf (rr_progress r) (if rr_advanced r then Suc k else k) sl q"
  shows "passed coll s0 cf pr k sl q \<or> q \<in> set (rr_inspected r)"
proof -
  have sl': "0 \<le> pr_slice pr" "pr_slice pr < slices_of cf" using pr slices_pos [of cf] by simp_all
  note step = run_step [OF sl', where coll = coll and hashtext = hashtext and n = n and answer = answer and s = s, folded r]
  let ?R = "remaining coll hashtext cf pr (fst s)" and ?k = "\<lambda>r. coll (identity_key r)"
  have "rr_advanced r \<longrightarrow> pr_cursor (rr_progress r) = []"
    using step(2,3) by (cases "length ?R < batch_of cf") (simp, fastforce)
  then have le: "turn s0 cf sl \<le> k" using p by (auto simp: passed_def split: if_splits)
  show ?thesis
  proof (cases "turn s0 cf sl = k \<and> (pr_cursor pr = [] \<or> coll (pr_cursor pr) < coll (identity_key q))")
    case False
    then show ?thesis using le by (auto simp: passed_def)
  next
    case True
    have "sl = pr_slice pr" using turn_slice(1) [OF q(2), of s0] True pr by simp
    then have R: "q \<in> set ?R" using rest_of_slice [OF _ q(1)] q(2) True by blast
    show ?thesis
    proof (cases "length ?R < batch_of cf")
      case True
      then show ?thesis using R step(1) by simp
    next
      case full: False
      then have b: "batch_of cf \<le> length ?R" by simp
      have "turn s0 cf sl = k" using True by simp
      then have le: "?k q \<le> ?k (?R ! (batch_of cf - 1))" using p step(3) [OF b] by (auto simp: passed_def)
      have "q \<notin> set (drop (batch_of cf) ?R)"
        unfolding filter_beyond [OF remaining_sorted [OF coll P] batch_pos b, symmetric] using le by (simp add: not_less)
      moreover have "q \<in> set (take (batch_of cf) ?R @ drop (batch_of cf) ?R)" using R by simp
      ultimately have "q \<in> set (take (batch_of cf) ?R)" by (metis Un_iff set_append)
      then show ?thesis using step(1) by simp
    qed
  qed
qed

lemma agrees_mono: "agrees T q \<Longrightarrow> set T \<subseteq> set T' \<Longrightarrow> agrees T' q"
  by (auto simp: agrees_def)

lemma lap_inv_step:
  assumes coll: "inj coll" and n: "0 < n"
    and inv: "lap_inv coll hashtext cf T s0 x" and st: "recon_step coll hashtext n cf T x y"
  shows "lap_inv coll hashtext cf T s0 y"
  using st
proof cases
  case (tick s' s pr k)
  then show ?thesis using inv by (auto simp: lap_inv_def)
next
  case (reconcile answer pr s s' k' k)
  let ?r = "runReconciliationSlice coll hashtext n cf answer pr s"
  have i: "distinct (map identity_key (fst s))" "pr_slice pr = (s0 + int k) mod slices_of cf"
    "\<And>q sl. \<lbrakk>q \<in> set (fst s); slice_of_row hashtext cf q = Some sl; passed coll s0 cf pr k sl q\<rbrakk> \<Longrightarrow> agrees T q"
    using inv reconcile(1) by (auto simp: lap_inv_def)
  have sl: "0 \<le> pr_slice pr" "pr_slice pr < slices_of cf" using i(2) slices_pos [of cf] by simp_all
  note step = run_step [OF sl, where coll = coll and hashtext = hashtext and n = n and answer = answer and s = s]
  have slice: "pr_slice (rr_progress ?r) = (s0 + int k') mod slices_of cf"
  proof (cases "length (remaining coll hashtext cf pr (fst s)) < batch_of cf")
    case True
    have "(pr_slice pr + 1) mod slices_of cf = (s0 + int (Suc k)) mod slices_of cf"
      unfolding i(2) using mod_add_left_eq [of "s0 + int k" "slices_of cf" 1] by (simp add: ac_simps)
    then show ?thesis using step(2) [OF True] reconcile(6) by simp
  next
    case False
    then show ?thesis using step(3) reconcile(6) i(2) by simp
  qed
  have new: "distinct (map identity_key (fst s'))
      \<and> (\<forall>q \<in> set (fst s'). agrees T q \<or> (q \<in> set (fst s) \<and> q \<notin> set (rr_inspected ?r)))"
  proof (cases "rr_inspected ?r = []")
    case True
    then have "s' = s" using reconcile(3) by (simp add: runReconciliationSlice_def Let_def case_prod_beta)
    then show ?thesis using i(1) True by simp
  next
    case False
    let ?rows = "rr_inspected ?r"
    have "map_option fst (applyIncrementalProjectionUpdate n (recon_dirty ?rows) answer s) = Some s'"
      using reconcile(3) False by (simp add: runReconciliationSlice_def Let_def case_prod_beta split: if_splits)
    then obtain dl where "apply_touched n (recon_dirty ?rows) answer (fst s, snd s) = Some ((fst s', snd s'), dl)"
      using False by (auto simp: applyIncrementalProjectionUpdate_def recon_dirty_def split: if_splits)
    note ap = this n i(1) reconcile(5)
    note E = apply_touched_effect [OF ap]
    have "agrees T q \<or> (q \<in> set (fst s) \<and> q \<notin> set ?rows)" if q: "q \<in> set (fst s')" for q
    proof (cases "q \<in> set (fst s)")
      case True
      then show ?thesis using inspected_agrees [OF ap q True] agrees_mono [OF _ reconcile(4)]
        by (auto simp: recon_dirty_def)
    next
      case False
      then show ?thesis using E(2) q reconcile(4) by (auto simp: agrees_def)
    qed
    then show ?thesis using E(1) by blast
  qed
  have "agrees T q" if q: "q \<in> set (fst s')" "slice_of_row hashtext cf q = Some \<sigma>" "passed coll s0 cf (rr_progress ?r) k' \<sigma> q" for q \<sigma>
  proof (rule ccontr)
    assume no: "\<not> agrees T q"
    then have old: "q \<in> set (fst s)" "q \<notin> set (rr_inspected ?r)" using new q(1) by blast+
    have "passed coll s0 cf pr k \<sigma> q \<or> q \<in> set (rr_inspected ?r)"
      using passed_inspected [OF coll i(1,2) refl old(1) q(2)] q(3) reconcile(6) by blast
    then show False using i(3) [OF old(1) q(2)] old(2) no by blast
  qed
  then show ?thesis using reconcile(2) slice new by (auto simp: lap_inv_def)
qed

interpretation laps: invariant_system
  "\<lambda>x. inj coll \<and> 0 < n \<and> lap_inv coll hashtext cf T s0 x"
  "recon_step coll hashtext n cf T" "\<lambda>x. inj coll \<and> 0 < n \<and> lap_inv coll hashtext cf T s0 x" for coll hashtext n cf T s0
  by unfold_locales (auto intro: lap_inv_step)


text \<open>
  The position is stored before the update runs.  When the update fails, the position has moved past
  the batch: the next run inspects none of its rows, which wait for the next lap.
\<close>

theorem failed_repair_skips_batch:
  assumes coll: "inj coll" and P: "distinct (map identity_key (fst s))" "list_all (\<lambda>r. identity_key r \<noteq> []) (fst s)"
    and pr: "0 \<le> pr_slice pr" "pr_slice pr < slices_of cf"
    and r: "r = runReconciliationSlice coll hashtext n cf answer pr s" "rr_state r = None"
    and two: "1 < slices_of cf"
  shows "set (rr_inspected r) \<inter> set (rr_inspected (runReconciliationSlice coll hashtext n cf answer' (rr_progress r) s)) = {}"
proof -
  let ?R = "remaining coll hashtext cf pr (fst s)"
  note step = run_step [OF pr, where coll = coll and hashtext = hashtext and n = n and answer = answer and s = s, folded r(1)]
  let ?p = "rr_progress r"
  have p: "0 \<le> pr_slice ?p" "pr_slice ?p < slices_of cf"
    using step(2,3) pr slices_pos [of cf] by (cases "length ?R < batch_of cf"; simp)+
  note step' = run_step(1) [OF p, where coll = coll and hashtext = hashtext and n = n and answer = answer' and s = s]
  show ?thesis
  proof (cases "length ?R < batch_of cf")
    case True
    have "pr_slice ?p = (pr_slice pr + 1) mod slices_of cf" using step(2) [OF True] by simp
    moreover have "(pr_slice pr + 1) mod slices_of cf \<noteq> pr_slice pr"
      using residues_differ [of 0 1 "slices_of cf" "pr_slice pr"] two pr by simp
    ultimately have "set ?R \<inter> set (remaining coll hashtext cf ?p (fst s)) = {}" by (auto simp: remaining_def)
    then show ?thesis unfolding step(1) step' by (meson disjoint_iff in_set_takeD)
  next
    case False
    then have full: "batch_of cf \<le> length ?R" by simp
    have "remaining coll hashtext cf ?p (fst s) = drop (batch_of cf) ?R"
      using step(3) [OF full] remaining_after [OF coll P full] by simp
    moreover have "distinct ?R" using remaining_sorted(2) [OF coll P(1)] by (auto simp: distinct_map)
    then have "set (take (batch_of cf) ?R) \<inter> set (drop (batch_of cf) ?R) = {}" by (simp add: set_take_disj_set_drop_if_distinct)
    ultimately show ?thesis unfolding step(1) step' by (metis disjoint_iff in_set_takeD)
  qed
qed

section \<open>Samples\<close>

definition two_slices :: recon_conf where
  "two_slices = \<lparr>rc_slices = Some 2, rc_batch = None, rc_indexed = False\<rparr>"

definition recon_rows :: projection where
  "recon_rows = [(sample_row ''a'' 1 1000 ''f1'' 0)\<lparr>partition_identity := Some ''x''\<rparr>,
     (sample_row ''b'' 2 2000 ''f2'' 1)\<lparr>partition_identity := Some ''yy''\<rparr>]"

theorem lap_inspects_each_row_once_witness:
  "set (concat (fst (inspections id (\<lambda>p. int (length p)) 100 two_slices \<lparr>pr_slice = 0, pr_cursor = []\<rparr>
     (replicate 2 (sample_answers, recon_rows, None))))) = set recon_rows"
proof -
  let ?h = "\<lambda>p :: string. int (length p)" and ?hist = "replicate 2 (sample_answers, recon_rows, None :: int option)"
  have rows: "distinct (map identity_key recon_rows)" "list_all (\<lambda>r. identity_key r \<noteq> []) recon_rows"
    "(0 :: int) \<le> 0" "0 < slices_of two_slices"
    by code_simp+
  have hist: "list_all (\<lambda>(answer, Q, c). Q = recon_rows) ?hist" by (simp add: list_all_iff)
  have runs: "length ?hist = sum_list (map (\<lambda>i. length (slice_rows ?h two_slices recon_rows ((0 + int i) mod slices_of two_slices))
        div batch_of two_slices + 1) [0..<nat (slices_of two_slices)])"
    by code_simp
  have "{r \<in> set recon_rows. slice_of_row ?h two_slices r \<noteq> None} = set recon_rows"
    by (auto simp: slice_of_row_def row_slice_def two_slices_def)
  then show ?thesis
    using lap_inspects_each_row_once [OF inj_on_id rows hist runs, of 100] by simp
qed

text \<open>A stale row is replaced within two runs over one slice.\<close>

definition one_slice :: recon_conf where
  "one_slice = \<lparr>rc_slices = Some 1, rc_batch = None, rc_indexed = False\<rparr>"

definition fresh_row :: proj_row where
  "fresh_row = sample_row ''a'' 1 6000 ''f1x'' 0"

definition fresh_answer :: feed_answers where
  "fresh_answer = \<lparr>canonical_identities = [], sibling_ids = [], matched_ids = [1], matched_rows = [fresh_row]\<rparr>"


definition clashing_answer :: feed_answers where
  "clashing_answer = \<lparr>canonical_identities = [], sibling_ids = [], matched_ids = [1], matched_rows = [fresh_row, fresh_row]\<rparr>"

theorem failed_repair_skips_batch_witness:
  "let r = runReconciliationSlice id (\<lambda>p. int (length p)) 100 two_slices clashing_answer \<lparr>pr_slice = 1, pr_cursor = []\<rparr> (recon_rows, None)
   in rr_state r = None \<and> rr_inspected r \<noteq> []
      \<and> set (rr_inspected r) \<inter> set (rr_inspected (runReconciliationSlice id (\<lambda>p. int (length p)) 100 two_slices fresh_answer
           (rr_progress r) (recon_rows, None))) = {}"
proof -
  let ?h = "\<lambda>p :: string. int (length p)"
  let ?r = "runReconciliationSlice id ?h 100 two_slices clashing_answer \<lparr>pr_slice = 1, pr_cursor = []\<rparr> (recon_rows, None)"
  have rows: "distinct (map identity_key (fst (recon_rows, None :: int option)))"
    "list_all (\<lambda>r. identity_key r \<noteq> []) (fst (recon_rows, None :: int option))"
    "0 \<le> pr_slice \<lparr>pr_slice = 1, pr_cursor = []\<rparr>" "pr_slice \<lparr>pr_slice = 1, pr_cursor = []\<rparr> < slices_of two_slices"
    "1 < slices_of two_slices"
    by code_simp+
  have "rr_state ?r = None" "rr_inspected ?r \<noteq> []" by code_simp+
  then show ?thesis unfolding Let_def
    using failed_repair_skips_batch [OF inj_on_id rows(1-4) refl _ rows(5), of ?h 100 clashing_answer fresh_answer] by blast
qed

end
