(* ===== verification/PubSchedule.thy ===== *)
theory PubSchedule
  imports TH_Prelude "HOL-Library.Multiset"
begin

text \<open>
  Published feeds: when a feed is refreshed (\<open>feedPublisherService.js\<close>).  A feed has an interval, which
  grows with consecutive failures; it is due an interval after the start of its last refresh; a tick
  of the scheduler runs the feeds that are due on a bounded number of workers.  Times are
  milliseconds.  A setting is the number its text stands for, \<open>None\<close> when that is not finite.
\<close>

section \<open>Settings and rows\<close>

definition PUBLISHED_FEED_TICK_MS_DEFAULT :: rat where "PUBLISHED_FEED_TICK_MS_DEFAULT = 60 * 1000"
definition PUBLISHED_FEED_TICK_MS_MIN :: rat where "PUBLISHED_FEED_TICK_MS_MIN = 15 * 1000"
definition PUBLISHED_FEED_FAILURE_BACKOFF_MAX_MINUTES_DEFAULT :: int where
  "PUBLISHED_FEED_FAILURE_BACKOFF_MAX_MINUTES_DEFAULT = 360"

text \<open>An absent or empty setting is \<open>None\<close> too.\<close>

definition resolvePublishedFeedTickMs :: "rat option \<Rightarrow> rat" where
  "resolvePublishedFeedTickMs env =
     (case env of None \<Rightarrow> PUBLISHED_FEED_TICK_MS_DEFAULT | Some n \<Rightarrow> max n PUBLISHED_FEED_TICK_MS_MIN)"

definition resolvePublishedFeedFailureBackoffMaxMinutes :: "rat option \<Rightarrow> int" where
  "resolvePublishedFeedFailureBackoffMaxMinutes env =
     (case env of Some n \<Rightarrow> if 5 \<le> n then js_trunc n else PUBLISHED_FEED_FAILURE_BACKOFF_MAX_MINUTES_DEFAULT
      | None \<Rightarrow> PUBLISHED_FEED_FAILURE_BACKOFF_MAX_MINUTES_DEFAULT)"

definition resolvePublishedFeedMaxConcurrency :: "rat option \<Rightarrow> nat" where
  "resolvePublishedFeedMaxConcurrency env =
     (case env of None \<Rightarrow> 2 | Some n \<Rightarrow> nat (max 1 (min 8 (js_trunc n))))"

record sched_row =
  sr_id :: int
  sr_enabled :: bool
  sr_interval :: "int option"
  sr_generated :: "int option"
  sr_refresh_ms :: "int option"
  sr_failures :: int

section \<open>When a feed is due\<close>

definition publishedFeedScheduleIntervalMs :: "rat option \<Rightarrow> sched_row \<Rightarrow> int" where
  "publishedFeedScheduleIntervalMs env r =
     (let given = (case sr_interval r of Some n \<Rightarrow> if n = 0 then 15 else n | None \<Rightarrow> 15);
          base = max given 5; failures = max 0 (sr_failures r)
      in if failures \<le> 1 then base * 60 * 1000
         else let cap = max (resolvePublishedFeedFailureBackoffMaxMinutes env) base;
                  backoff = min (base * 2 ^ nat (min (failures - 1) 20)) cap
              in backoff * 60 * 1000)"

definition refresh_duration :: "sched_row \<Rightarrow> int" where
  "refresh_duration r = max 0 (case sr_refresh_ms r of Some d \<Rightarrow> d | None \<Rightarrow> 0)"

definition isPublishedFeedDue :: "rat option \<Rightarrow> sched_row \<Rightarrow> int \<Rightarrow> bool" where
  "isPublishedFeedDue env r now =
     (if \<not> sr_enabled r then False
      else case sr_generated r of
             None \<Rightarrow> True
           | Some completedAt \<Rightarrow>
               let interval = publishedFeedScheduleIntervalMs env r;
                   anchor = completedAt - min (refresh_duration r) interval
               in interval \<le> now - anchor)"

definition publishedFeedDueAtMs :: "rat option \<Rightarrow> sched_row \<Rightarrow> int" where
  "publishedFeedDueAtMs env r =
     (case sr_generated r of
        None \<Rightarrow> 0
      | Some completedAt \<Rightarrow>
          let interval = publishedFeedScheduleIntervalMs env r
          in completedAt - min (refresh_duration r) interval + interval)"

section \<open>A tick of the scheduler\<close>

text \<open>The enabled feeds that are due, the longest overdue first.\<close>

definition due_feeds :: "rat option \<Rightarrow> int \<Rightarrow> sched_row list \<Rightarrow> sched_row list" where
  "due_feeds env now rows =
     sort_key (\<lambda>r. publishedFeedDueAtMs env r)
       (sort_key sr_id (filter (\<lambda>r. isPublishedFeedDue env r now) (filter sr_enabled rows)))"

text \<open>
  The workers of \<open>regenerateAllEnabledFeeds\<close>: each takes the index at the shared cursor, refreshes the
  feed there, and takes the next; one that finds the cursor past the end returns.  A step of the pool
  is one worker taking an index, or one refresh coming to its end; \<open>counted\<close> says that it neither threw
  nor found a refresh already running.
\<close>

datatype worker = Idle | Refreshing nat | Returned

record pool =
  p_cursor :: nat
  p_workers :: "worker list"
  p_started :: "nat list"
  p_completed :: nat

definition concurrency :: "rat option \<Rightarrow> nat \<Rightarrow> nat" where
  "concurrency setting n = min (resolvePublishedFeedMaxConcurrency setting) (max n 1)"

definition start_pool :: "rat option \<Rightarrow> nat \<Rightarrow> pool" where
  "start_pool setting n =
     \<lparr>p_cursor = 0, p_workers = replicate (concurrency setting n) Idle, p_started = [], p_completed = 0\<rparr>"

definition take_index :: "nat \<Rightarrow> nat \<Rightarrow> pool \<Rightarrow> pool" where
  "take_index n w p =
     (if n \<le> p_cursor p then p\<lparr>p_cursor := p_cursor p + 1, p_workers := (p_workers p)[w := Returned]\<rparr>
      else p\<lparr>p_cursor := p_cursor p + 1, p_workers := (p_workers p)[w := Refreshing (p_cursor p)],
             p_started := p_started p @ [p_cursor p]\<rparr>)"

inductive pool_step :: "nat \<Rightarrow> pool \<Rightarrow> pool \<Rightarrow> bool" for n where
  takes: "\<lbrakk>w < length (p_workers p); p_workers p ! w = Idle\<rbrakk> \<Longrightarrow> pool_step n p (take_index n w p)"
| ends: "\<lbrakk>w < length (p_workers p); p_workers p ! w = Refreshing i\<rbrakk>
   \<Longrightarrow> pool_step n p (p\<lparr>p_workers := (p_workers p)[w := Idle], p_completed := p_completed p + (if counted then 1 else 0)\<rparr>)"

inductive_cases pool_stepE: "pool_step n p q"

section \<open>Intervals\<close>

lemma backoff_default_ge_5: "5 \<le> resolvePublishedFeedFailureBackoffMaxMinutes env"
  by (auto simp: resolvePublishedFeedFailureBackoffMaxMinutes_def PUBLISHED_FEED_FAILURE_BACKOFF_MAX_MINUTES_DEFAULT_def
      js_trunc_def le_floor_iff split: option.split)

definition base_minutes :: "sched_row \<Rightarrow> int" where
  "base_minutes r = max (case sr_interval r of Some n \<Rightarrow> if n = 0 then 15 else n | None \<Rightarrow> 15) 5"

lemma interval_minutes:
  "publishedFeedScheduleIntervalMs env r = 60000 *
     (if sr_failures r \<le> 1 then base_minutes r
      else min (base_minutes r * 2 ^ nat (min (sr_failures r - 1) 20))
             (max (resolvePublishedFeedFailureBackoffMaxMinutes env) (base_minutes r)))"
  by (auto simp: publishedFeedScheduleIntervalMs_def base_minutes_def Let_def max_def)


text \<open>
  A feed is due exactly from its due time on, and the due time is counted from the start of the last
  refresh: a refresh that began at \<open>start\<close> makes the feed due again one interval later, or when it
  ends if it took longer than that.
\<close>

theorem due_from_start:
  assumes "sr_enabled r" "sr_generated r = Some (start + d)" "sr_refresh_ms r = Some d" "0 \<le> d"
  shows "(isPublishedFeedDue env r now \<longleftrightarrow> publishedFeedDueAtMs env r \<le> now)
    \<and> publishedFeedDueAtMs env r = max (start + publishedFeedScheduleIntervalMs env r) (start + d)"
  using assms by (auto simp: isPublishedFeedDue_def publishedFeedDueAtMs_def refresh_duration_def Let_def)

theorem due_from_start_witness:
  "isPublishedFeedDue None \<lparr>sr_id = 1, sr_enabled = True, sr_interval = Some 5, sr_generated = Some 145000,
      sr_refresh_ms = Some 45000, sr_failures = 3\<rparr> 1300000
   \<and> publishedFeedDueAtMs None \<lparr>sr_id = 1, sr_enabled = True, sr_interval = Some 5, sr_generated = Some 145000,
      sr_refresh_ms = Some 45000, sr_failures = 3\<rparr> = 1300000"
proof -
  let ?r = "\<lparr>sr_id = 1, sr_enabled = True, sr_interval = Some 5, sr_generated = Some 145000, sr_refresh_ms = Some 45000, sr_failures = 3\<rparr>"
  have "publishedFeedScheduleIntervalMs None ?r = 1200000" by code_simp
  then show ?thesis using due_from_start [of ?r 100000 45000 None 1300000] by simp
qed

section \<open>The pool\<close>

text \<open>What the workers have done with the first \<open>n\<close> indices.\<close>

definition pool_ok :: "nat \<Rightarrow> nat \<Rightarrow> pool \<Rightarrow> bool" where
  "pool_ok n c p \<longleftrightarrow> length (p_workers p) = c \<and> p_started p = [0..<min (p_cursor p) n]
     \<and> (Returned \<in> set (p_workers p) \<longrightarrow> n \<le> p_cursor p)
     \<and> p_completed p + length (filter (\<lambda>x. \<exists>i. x = Refreshing i) (p_workers p)) \<le> length (p_started p)"

lemma length_filter_update:
  assumes "w < length xs"
  shows "length (filter P (xs[w := x])) + (if P (xs ! w) then 1 else 0) = length (filter P xs) + (if P x then 1 else 0)"
  using assms
proof (induction xs arbitrary: w)
  case (Cons a xs)
  then show ?case by (cases w) auto
qed simp

lemma pool_ok_step: "pool_ok n c p \<Longrightarrow> pool_step n p q \<Longrightarrow> pool_ok n c q"
proof (elim pool_stepE)
  fix w assume ok: "pool_ok n c p" and w: "w < length (p_workers p)" "p_workers p ! w = Idle" and q: "q = take_index n w p"
  show "pool_ok n c q"
    using ok w length_filter_update [OF w(1), of "\<lambda>x. \<exists>i. x = Refreshing i" Returned]
      length_filter_update [OF w(1), of "\<lambda>x. \<exists>i. x = Refreshing i" "Refreshing (p_cursor p)"]
    unfolding q pool_ok_def take_index_def
    by (auto dest!: set_update_subset_insert [THEN subsetD] simp: min_def)
next
  fix w i counted
  assume ok: "pool_ok n c p" and w: "w < length (p_workers p)" "p_workers p ! w = Refreshing i"
    and q: "q = p\<lparr>p_workers := (p_workers p)[w := Idle], p_completed := p_completed p + (if counted then 1 else 0)\<rparr>"
  show "pool_ok n c q"
    using ok w length_filter_update [OF w(1), of "\<lambda>x. \<exists>i. x = Refreshing i" Idle] unfolding q pool_ok_def
    by (auto dest!: set_update_subset_insert [THEN subsetD])
qed

lemma pool_ok_start: "pool_ok n (concurrency setting n) (start_pool setting n)"
  by (auto simp: start_pool_def pool_ok_def)

interpretation pools: invariant_system "\<lambda>p. p = start_pool setting n" "pool_step n" "pool_ok n (concurrency setting n)" for setting n
  by unfold_locales (auto intro: pool_ok_step pool_ok_start)

definition busy :: "pool \<Rightarrow> nat" where
  "busy p = length (filter (\<lambda>x. \<exists>i. x = Refreshing i) (p_workers p))"

text \<open>Every step brings the pool nearer to its end.\<close>

definition pool_left :: "nat \<Rightarrow> pool \<Rightarrow> nat" where
  "pool_left n p = 2 * (n - p_cursor p) + busy p + length (filter (\<lambda>x. x \<noteq> Returned) (p_workers p))"

lemma pool_left_step: "pool_step n p q \<Longrightarrow> pool_left n q < pool_left n p"
proof (elim pool_stepE)
  fix w assume w: "w < length (p_workers p)" "p_workers p ! w = Idle" and q: "q = take_index n w p"
  show ?thesis
    using w length_filter_update [OF w(1), of "\<lambda>x. \<exists>i. x = Refreshing i" Returned]
      length_filter_update [OF w(1), of "\<lambda>x. \<exists>i. x = Refreshing i" "Refreshing (p_cursor p)"]
      length_filter_update [OF w(1), of "\<lambda>x. x \<noteq> Returned" Returned]
      length_filter_update [OF w(1), of "\<lambda>x. x \<noteq> Returned" "Refreshing (p_cursor p)"]
    unfolding q pool_left_def busy_def take_index_def by auto
next
  fix w i counted
  assume w: "w < length (p_workers p)" "p_workers p ! w = Refreshing i"
    and q: "q = p\<lparr>p_workers := (p_workers p)[w := Idle], p_completed := p_completed p + (if counted then 1 else 0)\<rparr>"
  show ?thesis
    using w length_filter_update [OF w(1), of "\<lambda>x. \<exists>i. x = Refreshing i" Idle] length_filter_update [OF w(1), of "\<lambda>x. x \<noteq> Returned" Idle]
    unfolding q pool_left_def busy_def by auto
qed

lemma pool_left_steps: "(pool_step n ^^ k) p q \<Longrightarrow> pool_left n q + k \<le> pool_left n p"
proof (induction k arbitrary: q)
  case (Suc k)
  then obtain m where "(pool_step n ^^ k) p m" "pool_step n m q" by auto
  then show ?case using Suc.IH [of m] pool_left_step [of n m q] by simp
qed simp

lemma pool_stuck:
  assumes "\<And>q. \<not> pool_step n p q" shows "list_all (\<lambda>x. x = Returned) (p_workers p)"
proof -
  have "x = Returned" if x: "x \<in> set (p_workers p)" for x
  proof -
    obtain w where "w < length (p_workers p)" "p_workers p ! w = x" using x by (metis in_set_conv_nth)
    then show ?thesis using assms pool_step.intros [of w p] by (cases x) blast+
  qed
  then show ?thesis by (simp add: list_all_iff)
qed

text \<open>
  C18: A tick of the scheduler starts every due feed exactly once, the longest overdue first, and never
  refreshes more feeds at a time than the setting allows (1 to 8).  However the workers and the ends
  of the refreshes interleave, the tick ends after a bounded number of steps, and when no step is
  left every due feed has been started.
\<close>

theorem tick_runs_due_feeds:
  assumes "(pool_step (length (due_feeds env now rows)) ^^ k) (start_pool setting (length (due_feeds env now rows))) p"
  shows "mset (due_feeds env now rows) = mset (filter (\<lambda>r. isPublishedFeedDue env r now) rows)
    \<and> sorted (map (publishedFeedDueAtMs env) (due_feeds env now rows))
    \<and> (\<exists>m \<le> length (due_feeds env now rows). map ((!) (due_feeds env now rows)) (p_started p) = take m (due_feeds env now rows))
    \<and> busy p \<le> concurrency setting (length (due_feeds env now rows)) \<and> concurrency setting (length (due_feeds env now rows)) \<le> 8
    \<and> k \<le> 2 * length (due_feeds env now rows) + concurrency setting (length (due_feeds env now rows))
    \<and> ((\<forall>q. \<not> pool_step (length (due_feeds env now rows)) p q)
         \<longrightarrow> map ((!) (due_feeds env now rows)) (p_started p) = due_feeds env now rows)"
proof -
  let ?d = "due_feeds env now rows" and ?n = "length (due_feeds env now rows)"
  let ?c = "concurrency setting ?n"
  have "(pool_step ?n)\<^sup>*\<^sup>* (start_pool setting ?n) p" using assms by (rule relpowp_imp_rtranclp)
  from pools.steps_inv [OF this pool_ok_start] have ok: "pool_ok ?n ?c p" .
  have st: "map ((!) ?d) (p_started p) = take (min (p_cursor p) ?n) ?d"
    using ok by (auto simp: pool_ok_def intro!: nth_equalityI)
  have "busy p \<le> length (p_workers p)" by (simp add: busy_def)
  then have busy: "busy p \<le> ?c" using ok by (simp add: pool_ok_def)
  have "pool_left ?n (start_pool setting ?n) = 2 * ?n + ?c"
    by (simp add: pool_left_def start_pool_def busy_def)
  then have k: "k \<le> 2 * ?n + ?c" using pool_left_steps [OF assms] by simp
  have c: "?c \<le> 8" "0 < ?c"
    by (auto simp: concurrency_def resolvePublishedFeedMaxConcurrency_def split: option.split)
  have "map ((!) ?d) (p_started p) = ?d" if "\<forall>q. \<not> pool_step ?n p q"
  proof -
    have "list_all (\<lambda>x. x = Returned) (p_workers p)" using pool_stuck that by blast
    moreover have "p_workers p \<noteq> []" using ok c(2) by (auto simp: pool_ok_def)
    ultimately have "Returned \<in> set (p_workers p)" by (cases "p_workers p") auto
    then show ?thesis using ok st by (simp add: pool_ok_def)
  qed
  moreover have "mset ?d = mset (filter (\<lambda>r. isPublishedFeedDue env r now) rows)"
    by (auto simp: due_feeds_def isPublishedFeedDue_def intro!: arg_cong [where f = mset] filter_cong)
  ultimately show ?thesis using st busy k c(1) by (auto simp: due_feeds_def intro!: exI [of _ "min (p_cursor p) ?n"])
qed

definition sample_feeds :: "sched_row list" where
  "sample_feeds =
     [\<lparr>sr_id = 1, sr_enabled = True, sr_interval = Some 5, sr_generated = Some 200000, sr_refresh_ms = None, sr_failures = 0\<rparr>,
      \<lparr>sr_id = 2, sr_enabled = True, sr_interval = Some 5, sr_generated = Some 100000, sr_refresh_ms = None, sr_failures = 0\<rparr>]"

theorem tick_runs_due_feeds_witness:
  "\<exists>p. (pool_step (length (due_feeds None 1000000 sample_feeds)) ^^ 1) (start_pool None (length (due_feeds None 1000000 sample_feeds))) p
     \<and> map sr_id (map ((!) (due_feeds None 1000000 sample_feeds)) (p_started p)) = [2] \<and> busy p \<le> 8"
proof -
  let ?n = "length (due_feeds None 1000000 sample_feeds)"
  let ?s = "start_pool None ?n"
  let ?p = "take_index ?n 0 ?s"
  have "0 < length (p_workers ?s)" "p_workers ?s ! 0 = Idle" by code_simp+
  then have run: "(pool_step ?n ^^ 1) ?s ?p" using pool_step.takes [of 0 ?s ?n] by (auto simp: relpowp_1)
  have "map sr_id (map ((!) (due_feeds None 1000000 sample_feeds)) (p_started ?p)) = [2]" by code_simp
  moreover have "busy ?p \<le> concurrency None ?n \<and> concurrency None ?n \<le> 8"
    using tick_runs_due_feeds [OF run] by (elim conjE) (intro conjI, assumption+)
  then have "busy ?p \<le> 8" by (elim conjE) (rule order_trans)
  ultimately show ?thesis by (intro exI [of _ ?p] conjI run)
qed

end
