(* ===== verification/PubStore.thy ===== *)
theory PubStore
  imports TH_Prelude
begin

text \<open>
  Published feeds: the file store (\<open>publishedFeedArtifact/store.js\<close>, \<open>publishedFeedArtifact/orphanGc.js\<close>).
  A path of the file system is resolved as \<open>path.resolve\<close> does on POSIX: segments are joined, empty and
  \<open>.\<close> segments dropped, \<open>..\<close> goes up.  Shown: no stored path escapes the storage directory, the
  orphan collector recognises every path that the writers make, and it deletes only old files of known
  layout that nothing refers to.
\<close>

section \<open>Resolving paths\<close>

abbreviation SLASH :: char where "SLASH \<equiv> CHR ''/''"

text \<open>\<open>path.resolve\<close> from an absolute directory, as lists of segments.\<close>

definition step_segment :: "string list \<Rightarrow> string \<Rightarrow> string list" where
  "step_segment acc seg =
     (if seg = [] \<or> seg = ''.'' then acc else if seg = ''..'' then butlast acc else acc @ [seg])"

definition resolve_segments :: "string list \<Rightarrow> string list \<Rightarrow> string list" where
  "resolve_segments base segs = foldl step_segment base segs"

definition of_segments :: "string list \<Rightarrow> string" where
  "of_segments segs = (if segs = [] then [SLASH] else concat (map (\<lambda>s. SLASH # s) segs))"

definition path_resolve :: "string \<Rightarrow> string \<Rightarrow> string" where
  "path_resolve base p =
     of_segments (if p \<noteq> [] \<and> hd p = SLASH then resolve_segments [] (js_split SLASH p)
                  else resolve_segments (resolve_segments [] (js_split SLASH base)) (js_split SLASH p))"

definition startsWith :: "string \<Rightarrow> string \<Rightarrow> bool" where
  "startsWith s pre \<longleftrightarrow> take (length pre) s = pre"

datatype store_error =
    InvalidFeedId
  | EscapesStorage
  | InvalidWindow
  | InvalidAlgoVersion
  | InvalidChunkCount
  | InvalidChunkKey
  | InvalidContentHash
  | InvalidGenerationId

text \<open>The storage directory is an absolute path here; \<open>guarded\<close> is the check \<open>resolved.startsWith(base + sep)\<close>.\<close>

definition guarded :: "string \<Rightarrow> string \<Rightarrow> (store_error, string) result" where
  "guarded base resolved = (if startsWith resolved (base @ [SLASH]) then Inr resolved else Inl EscapesStorage)"

definition resolveFeedDir :: "string \<Rightarrow> int \<Rightarrow> (store_error, string) result" where
  "resolveFeedDir storageDir feedId =
     (if feedId \<le> 0 then Inl InvalidFeedId
      else let base = path_resolve storageDir []; resolved = path_resolve base (show_nat (nat feedId)) in
           if resolved \<noteq> base \<and> \<not> startsWith resolved (base @ [SLASH]) then Inl EscapesStorage else Inr resolved)"

definition artifactExtension :: "string \<Rightarrow> string" where
  "artifactExtension format =
     (let f = js_lower (js_trim format) in
      if f = ''json'' then ''json'' else if f = ''stix'' then ''stix'' else ''txt'')"

definition safeWindow :: "string \<Rightarrow> (store_error, string) result" where
  "safeWindow value =
     (let w = js_lower (js_trim value) in
      if w \<in> {''1d'', ''3d'', ''7d'', ''all''} then Inr w else Inl InvalidWindow)"

record chunk_identity =
  ci_feed :: nat
  ci_window :: string
  ci_algo :: int
  ci_count :: int
  ci_format :: string

text \<open>The joined segments below the base, as passed to one call of \<open>path.resolve\<close>.\<close>

definition below :: "string \<Rightarrow> string list \<Rightarrow> string" where
  "below base segs = path_resolve base (js_join [SLASH] segs)"

definition resolveChunkDir :: "string \<Rightarrow> chunk_identity \<Rightarrow> (store_error, string) result" where
  "resolveChunkDir storageDir c =
     (let base = path_resolve storageDir []; ext = artifactExtension (ci_format c) in
      if ci_algo c \<le> 0 then Inl InvalidAlgoVersion
      else if ci_count c \<le> 0 then Inl InvalidChunkCount
      else case safeWindow (ci_window c) of
             Inl e \<Rightarrow> Inl e
           | Inr w \<Rightarrow> guarded base (below base
               [''chunks'', ''feed-'' @ show_nat (ci_feed c), w, ''v'' @ show_nat (nat (ci_algo c)),
                ''n'' @ show_nat (nat (ci_count c)), ext]))"

definition is_content_hash :: "string \<Rightarrow> bool" where
  "is_content_hash h \<longleftrightarrow> length h = 64 \<and> list_all is_hex_lower h"

definition resolveChunkFinalPath :: "string \<Rightarrow> int \<Rightarrow> string \<Rightarrow> string \<Rightarrow> (store_error, string) result" where
  "resolveChunkFinalPath dir key contentHash format =
     (let h = js_lower contentHash in
      if key < 0 then Inl InvalidChunkKey
      else if \<not> is_content_hash h then Inl InvalidContentHash
      else guarded (path_resolve dir []) (path_resolve dir (show_nat (nat key) @ ''-'' @ h @ ''.'' @ artifactExtension format)))"

definition is_generation_id :: "string \<Rightarrow> bool" where
  "is_generation_id g \<longleftrightarrow> g \<noteq> [] \<and> list_all (\<lambda>c. is_alpha c \<or> is_digit c \<or> c = CHR ''-'') g"

definition resolveGenerationHeadPath :: "string \<Rightarrow> nat \<Rightarrow> string \<Rightarrow> (store_error, string) result" where
  "resolveGenerationHeadPath storageDir feedId gen =
     (if \<not> is_generation_id gen then Inl InvalidGenerationId
      else let base = path_resolve storageDir [] in
           guarded base (below base [''generations'', ''feed-'' @ show_nat feedId, gen @ ''.txt-head'']))"

definition resolveArtifactPath :: "string \<Rightarrow> int \<Rightarrow> string \<Rightarrow> string \<Rightarrow> (store_error, string) result" where
  "resolveArtifactPath storageDir feedId gen format =
     (if \<not> is_generation_id gen then Inl InvalidGenerationId
      else case resolveFeedDir storageDir feedId of
             Inl e \<Rightarrow> Inl e
           | Inr dir \<Rightarrow> guarded dir (path_resolve dir (gen @ ''.'' @ artifactExtension format)))"

text \<open>A path from the database: leading slashes and backslashes are dropped.\<close>

definition resolveStoredArtifactPath :: "string \<Rightarrow> string \<Rightarrow> (store_error, string) result" where
  "resolveStoredArtifactPath storageDir storagePath =
     (let base = path_resolve storageDir [];
          rel = dropWhile (\<lambda>c. c = SLASH \<or> c = BACKSLASH) storagePath;
          resolved = path_resolve base rel in
      if resolved \<noteq> base \<and> \<not> startsWith resolved (base @ [SLASH]) then Inl EscapesStorage else Inr resolved)"

definition toRelativeStoragePath :: "nat \<Rightarrow> string \<Rightarrow> string \<Rightarrow> string" where
  "toRelativeStoragePath feedId gen format = show_nat feedId @ ''/'' @ gen @ ''.'' @ artifactExtension format"

text \<open>\<open>toRelativeChunkPath\<close> of a path below the base: what follows the base and its slash.\<close>

definition toRelativeChunkPath :: "string \<Rightarrow> string \<Rightarrow> (store_error, string) result" where
  "toRelativeChunkPath storageDir absolutePath =
     (let base = path_resolve storageDir []; absolute = path_resolve absolutePath [] in
      if startsWith absolute (base @ [SLASH]) then Inr (drop (Suc (length base)) absolute) else Inl EscapesStorage)"

section \<open>Reading a path of the store\<close>

definition FORMAT_EXT :: "string list" where "FORMAT_EXT = [''txt'', ''json'', ''stix'']"
definition SNAPSHOT_WINDOWS :: "string list" where "SNAPSHOT_WINDOWS = [''1d'', ''3d'', ''7d'', ''all'']"

text \<open>A literal at the start, then decimal digits up to the end.\<close>

definition after :: "string \<Rightarrow> string \<Rightarrow> string option" where
  "after lit s = (if startsWith s lit then Some (drop (length lit) s) else None)"

definition numeral_after :: "string \<Rightarrow> string \<Rightarrow> nat option" where
  "numeral_after lit s =
     (case after lit s of
        None \<Rightarrow> None
      | Some ds \<Rightarrow> if ds \<noteq> [] \<and> list_all is_digit ds then Some (digits_val ds) else None)"

datatype artifact_kind =
    Chunk | ChunkPart | RecencyHead | RecencyHeadPart | SnapshotArtifact | SnapshotBodyTemp | SnapshotPart

record artifact =
  a_feed :: nat
  a_kind :: artifact_kind
  a_generation :: "string option"

definition chunk_dir_feed :: "string list \<Rightarrow> nat option" where
  "chunk_dir_feed segs =
     (case segs of
        [c, f, w, v, n, e] \<Rightarrow>
          if c = ''chunks'' \<and> w \<in> set SNAPSHOT_WINDOWS \<and> numeral_after ''v'' v \<noteq> None
             \<and> numeral_after ''n'' n \<noteq> None \<and> e \<in> set FORMAT_EXT then numeral_after ''feed-'' f else None
      | _ \<Rightarrow> None)"

definition is_chunk_name :: "string \<Rightarrow> string \<Rightarrow> bool" where
  "is_chunk_name ext name =
     (let key = takeWhile is_digit name; rest = dropWhile is_digit name in
      key \<noteq> [] \<and> (case after ''-'' rest of
        None \<Rightarrow> False
      | Some h \<Rightarrow> is_content_hash (take 64 h) \<and> drop 64 h = ''.'' @ ext))"

definition is_chunk_part_name :: "string \<Rightarrow> bool" where
  "is_chunk_part_name name =
     (case after ''.chunk-'' name of
        None \<Rightarrow> False
      | Some s \<Rightarrow>
          (let key = takeWhile is_digit s; rest = dropWhile is_digit s in
           key \<noteq> [] \<and> (case after ''-'' rest of
             None \<Rightarrow> False
           | Some t \<Rightarrow> (let h = takeWhile is_hex_lower t in h \<noteq> [] \<and> dropWhile is_hex_lower t = ''.part''))))"

text \<open>The last two segments under the flag \<open>i\<close>; the generation id keeps its letters.\<close>

definition stem_before :: "string \<Rightarrow> string \<Rightarrow> string option" where
  "stem_before suffix s =
     (let n = length s - length suffix in
      if length suffix \<le> length s \<and> js_lower (drop n s) = suffix \<and> is_generation_id (take n s) then Some (take n s) else None)"

definition first_stem :: "string list \<Rightarrow> string \<Rightarrow> string option" where
  "first_stem suffixes s =
     (case map_option (\<lambda>suf. stem_before suf s) (find (\<lambda>suf. stem_before suf s \<noteq> None) suffixes) of
        None \<Rightarrow> None
      | Some g \<Rightarrow> g)"

definition artifact_of :: "nat option \<Rightarrow> artifact_kind \<Rightarrow> string option \<Rightarrow> artifact option" where
  "artifact_of feed kind gen =
     (case (feed, gen) of (Some f, Some g) \<Rightarrow> Some \<lparr>a_feed = f, a_kind = kind, a_generation = Some g\<rparr> | _ \<Rightarrow> None)"

fun first_some :: "'a option list \<Rightarrow> 'a option" where
  "first_some [] = None"
| "first_some (None # xs) = first_some xs"
| "first_some (Some x # xs) = Some x"

definition describeArtifactPath :: "string \<Rightarrow> artifact option" where
  "describeArtifactPath rel =
     (let segs = js_split SLASH rel in
      if length segs = 7
      then (case chunk_dir_feed (butlast segs) of
              None \<Rightarrow> None
            | Some f \<Rightarrow>
                if is_chunk_name (segs ! 5) (last segs) then Some \<lparr>a_feed = f, a_kind = Chunk, a_generation = None\<rparr>
                else if is_chunk_part_name (last segs) then Some \<lparr>a_feed = f, a_kind = ChunkPart, a_generation = None\<rparr>
                else None)
      else if length segs = 3 \<and> js_lower (hd segs) = ''generations''
      then (let feed = numeral_after ''feed-'' (js_lower (segs ! 1)) in
            first_some [artifact_of feed RecencyHead (first_stem [''.txt-head''] (last segs)),
                        artifact_of feed RecencyHeadPart (first_stem [''.txt-head.part''] (last segs))])
      else if length segs = 2
      then (let feed = numeral_after [] (hd segs); ends = (\<lambda>t. map (\<lambda>e. ''.'' @ e @ t) FORMAT_EXT) in
            first_some [artifact_of feed SnapshotArtifact (first_stem (ends []) (last segs)),
                        artifact_of feed SnapshotBodyTemp (first_stem (ends ''.body'') (last segs)),
                        artifact_of feed SnapshotPart (first_stem (ends ''.part'') (last segs))])
      else None)"

section \<open>The orphan collector\<close>

text \<open>
  What the sweep knows about a file: its path below the root, whether it is a regular file (not a
  link or directory), its modification time and inode; and what the database refers to for a feed.
\<close>

record store_file =
  sf_rel :: string
  sf_regular :: bool
  sf_mtime :: int
  sf_ino :: nat

record feed_refs =
  ref_paths :: "string list"
  ref_generations :: "string list"

definition resolveOrphanGcMinAgeMinutes :: "int \<Rightarrow> int \<Rightarrow> rat option \<Rightarrow> int" where
  "resolveOrphanGcMinAgeMinutes supersededRetentionMinutes stalePartMinutes value =
     (let floor = max supersededRetentionMinutes stalePartMinutes;
          requested = (case value of None \<Rightarrow> 360 | Some n \<Rightarrow> if n > 0 then js_trunc n else 360)
      in max requested floor)"

text \<open>The columns of \<open>loadFeedReferences\<close>: stored paths without leading slashes, with forward slashes.\<close>

definition norm_stored :: "string \<Rightarrow> string" where
  "norm_stored p = map (\<lambda>c. if c = BACKSLASH then SLASH else c) (dropWhile (\<lambda>c. c = SLASH \<or> c = BACKSLASH) p)"

definition loadFeedReferences :: "string list \<Rightarrow> string list \<Rightarrow> string list \<Rightarrow> string list \<Rightarrow> feed_refs" where
  "loadFeedReferences chunk_paths head_paths snapshot_paths generations =
     \<lparr>ref_paths = map norm_stored (chunk_paths @ head_paths @ snapshot_paths), ref_generations = generations\<rparr>"

datatype orphan_class = REFERENCED | PROTECTED | DELETE_ELIGIBLE | UNKNOWN

definition is_referenced :: "feed_refs \<Rightarrow> artifact \<Rightarrow> string \<Rightarrow> bool" where
  "is_referenced refs d rel \<longleftrightarrow>
     rel \<in> set (ref_paths refs)
     \<or> a_kind d \<in> {RecencyHead, RecencyHeadPart} \<and> (case a_generation d of None \<Rightarrow> False | Some g \<Rightarrow> g \<in> set (ref_generations refs))"

text \<open>\<open>exists_feed\<close>: the feed of the path has a row; \<open>locked\<close>: the sweep holds its generation lock.\<close>

definition classify_file ::
    "(nat \<Rightarrow> bool) \<Rightarrow> (nat \<Rightarrow> bool) \<Rightarrow> (nat \<Rightarrow> feed_refs) \<Rightarrow> int \<Rightarrow> store_file \<Rightarrow> orphan_class" where
  "classify_file exists_feed locked refs cutoff f =
     (if \<not> sf_regular f then UNKNOWN
      else case describeArtifactPath (sf_rel f) of
             None \<Rightarrow> UNKNOWN
           | Some d \<Rightarrow>
               if \<not> a_feed d > 0 then UNKNOWN
               else if \<not> exists_feed (a_feed d) then UNKNOWN
               else if \<not> locked (a_feed d) then PROTECTED
               else if is_referenced (refs (a_feed d)) d (sf_rel f) then REFERENCED
               else if sf_mtime f \<ge> cutoff then PROTECTED
               else DELETE_ELIGIBLE)"

text \<open>
  The files that a run deletes; \<open>again\<close> is the second look right before the unlink, and \<open>feedIds\<close>
  restricts the run.
\<close>

definition runPublishedFeedOrphanGc ::
    "bool \<Rightarrow> nat list option \<Rightarrow> (nat \<Rightarrow> bool) \<Rightarrow> (nat \<Rightarrow> bool) \<Rightarrow> (nat \<Rightarrow> feed_refs) \<Rightarrow> int \<Rightarrow> int
     \<Rightarrow> (string \<Rightarrow> store_file option) \<Rightarrow> store_file list \<Rightarrow> store_file list" where
  "runPublishedFeedOrphanGc apply_mode feedIds exists_feed locked refs now minAgeMinutes again files =
     (let cutoff = now - minAgeMinutes * 60 * 1000;
          wanted = (\<lambda>f. case describeArtifactPath (sf_rel f) of
                          None \<Rightarrow> True
                        | Some d \<Rightarrow> (case feedIds of None \<Rightarrow> True | Some ids \<Rightarrow> a_feed d \<in> set ids)) in
      if \<not> apply_mode then []
      else filter (\<lambda>f. wanted f \<and> classify_file exists_feed locked refs cutoff f = DELETE_ELIGIBLE
             \<and> (case again (sf_rel f) of
                  None \<Rightarrow> False
                | Some g \<Rightarrow> sf_regular g \<and> sf_ino g = sf_ino f \<and> sf_mtime g < cutoff)) files)"

text \<open>\<open>cleanupSupersededArtifacts\<close>: whether a file of a feed's directory is removed.\<close>

definition endsWith :: "string \<Rightarrow> string \<Rightarrow> bool" where
  "endsWith s suffix \<longleftrightarrow> length suffix \<le> length s \<and> drop (length s - length suffix) s = suffix"

definition superseded_removed :: "string list \<Rightarrow> int \<Rightarrow> string \<Rightarrow> string \<Rightarrow> (nat \<times> int) option \<Rightarrow> bool" where
  "superseded_removed keep cutoff path name stat =
     (if path \<in> set keep then False
      else if endsWith name ''.part'' then False
      else if endsWith name ''.body'' then False
      else case stat of None \<Rightarrow> False | Some (sz, mtime) \<Rightarrow> sz = 0 \<or> mtime < cutoff)"

definition stale_part_removed :: "int \<Rightarrow> bool \<Rightarrow> string \<Rightarrow> int option \<Rightarrow> bool" where
  "stale_part_removed cutoff regular name mtime =
     (regular \<and> endsWith name ''.part'' \<and> (case mtime of None \<Rightarrow> False | Some m \<Rightarrow> m < cutoff))"

section \<open>Facts about resolved paths\<close>

definition clean :: "string \<Rightarrow> bool" where
  "clean seg \<longleftrightarrow> seg \<noteq> [] \<and> seg \<noteq> ''.'' \<and> seg \<noteq> ''..'' \<and> SLASH \<notin> set seg"

lemma js_split_app: "js_split d (s @ d # t) = js_split d s @ js_split d t"
proof (induction s)
  case (Cons c s)
  obtain p ps where "js_split d s = p # ps" by (metis js_split_nonempty list.exhaust)
  with Cons show ?case by simp
qed simp

lemma js_split_no_slash: "seg \<in> set (js_split d s) \<Longrightarrow> d \<notin> set seg"
proof (induction s arbitrary: seg)
  case (Cons c s)
  obtain p ps where "js_split d s = p # ps" by (metis js_split_nonempty list.exhaust)
  with Cons show ?case by (auto split: if_splits)
qed simp

lemma resolve_segments_append: "resolve_segments b (xs @ ys) = resolve_segments (resolve_segments b xs) ys"
  by (simp add: resolve_segments_def)

lemma resolve_segments_clean: "list_all clean segs \<Longrightarrow> resolve_segments b segs = b @ segs"
  by (induction segs arbitrary: b) (simp_all add: resolve_segments_def step_segment_def clean_def)

lemma clean_resolve_segments:
  assumes "list_all clean b" "\<And>s. s \<in> set segs \<Longrightarrow> SLASH \<notin> set s"
  shows "list_all clean (resolve_segments b segs)"
  using assms
proof (induction segs arbitrary: b)
  case (Cons s segs)
  have "list_all clean (step_segment b s)"
    using Cons.prems by (auto simp: step_segment_def clean_def list_all_iff dest: in_set_butlastD)
  then show ?case using Cons by (simp add: resolve_segments_def)
qed (simp add: resolve_segments_def)

lemma clean_split: "list_all clean b \<Longrightarrow> list_all clean (resolve_segments b (js_split SLASH p))"
  by (rule clean_resolve_segments) (auto dest: js_split_no_slash)

lemma of_segments_join: "segs \<noteq> [] \<Longrightarrow> of_segments segs = SLASH # js_join [SLASH] segs"
  unfolding of_segments_def by (induction "[SLASH]" segs rule: js_join.induct) auto

lemma split_of_segments: "\<lbrakk>list_all clean segs; segs \<noteq> []\<rbrakk> \<Longrightarrow> js_split SLASH (of_segments segs) = [] # segs"
  by (simp add: of_segments_join js_split_join list_all_iff clean_def)

lemma path_resolve_root:
  assumes "list_all clean b"
  shows "path_resolve (of_segments b) p
     = of_segments (if p \<noteq> [] \<and> hd p = SLASH then resolve_segments [] (js_split SLASH p) else resolve_segments b (js_split SLASH p))"
proof -
  have "resolve_segments [] (js_split SLASH (of_segments b)) = b"
  proof (cases "b = []")
    case True
    then show ?thesis by (simp add: of_segments_def resolve_segments_def step_segment_def)
  next
    case False
    then show ?thesis
      using resolve_segments_clean [OF assms, of "[]"] split_of_segments [OF assms]
      by (simp add: resolve_segments_def step_segment_def)
  qed
  then show ?thesis by (simp add: path_resolve_def)
qed

definition base_segments :: "string \<Rightarrow> string list" where
  "base_segments dir = resolve_segments [] (js_split SLASH dir)"

lemma path_resolve_base: "path_resolve dir [] = of_segments (base_segments dir)"
  by (simp add: path_resolve_def base_segments_def resolve_segments_def step_segment_def)

lemma clean_base: "list_all clean (base_segments dir)"
  unfolding base_segments_def by (rule clean_split) simp

lemma below_clean:
  assumes "list_all clean b" "list_all clean segs" "segs \<noteq> []"
  shows "path_resolve (of_segments b) (js_join [SLASH] segs) = of_segments (b @ segs)"
proof -
  have "js_join [SLASH] segs \<noteq> [] \<and> hd (js_join [SLASH] segs) \<noteq> SLASH"
  proof (cases segs)
    case Nil
    then show ?thesis using assms(3) by simp
  next
    case (Cons a ss)
    then have "a \<noteq> []" "SLASH \<notin> set a" using assms(2) by (simp_all add: clean_def)
    then show ?thesis unfolding Cons by (cases a; cases ss) auto
  qed
  moreover have "js_split SLASH (js_join [SLASH] segs) = segs"
    using assms(2,3) by (simp add: js_split_join list_all_iff clean_def)
  ultimately show ?thesis
    by (simp add: path_resolve_root [OF assms(1)] resolve_segments_clean [OF assms(2)])
qed

lemma startsWith_of_segments:
  assumes "list_all clean b" "list_all clean r" "startsWith (of_segments r) (of_segments b @ [SLASH])"
  shows "\<exists>x. x \<noteq> [] \<and> r = b @ x" "b \<noteq> []"
proof -
  obtain t where t: "of_segments r = of_segments b @ SLASH # t"
    using assms(3) unfolding startsWith_def
    by (metis append.assoc append_Cons append_Nil append_take_drop_id)
  have r: "r \<noteq> []"
    using t by (cases b) (auto simp: of_segments_def)
  then have s: "[] # r = js_split SLASH (of_segments b) @ js_split SLASH t"
    using split_of_segments [OF assms(2)] t js_split_app by metis
  show b: "b \<noteq> []"
  proof
    assume "b = []"
    then have "[] \<in> set r" using s by (simp add: of_segments_def)
    then show False using assms(2) by (auto simp: list_all_iff clean_def)
  qed
  then show "\<exists>x. x \<noteq> [] \<and> r = b @ x" using s split_of_segments [OF assms(1)] by auto
qed

lemma startsWith_below: "\<lbrakk>b \<noteq> []; x \<noteq> []\<rbrakk> \<Longrightarrow> startsWith (of_segments (b @ x)) (of_segments b @ [SLASH])"
  by (cases x) (auto simp: startsWith_def of_segments_def)

lemma cleanI: "\<lbrakk>SLASH \<notin> set s; c \<in> set s; c \<noteq> CHR ''.''\<rbrakk> \<Longrightarrow> clean s"
  by (auto simp: clean_def)

lemma no_char: "\<lbrakk>list_all P s; \<not> P d\<rbrakk> \<Longrightarrow> d \<notin> set s"
  by (auto simp: list_all_iff)

lemma slash_no_digit [simp]: "SLASH \<notin> set (show_nat n)"
  by (rule no_char [OF show_nat_digits]) (auto simp: is_digit_def)

lemma slash_no_hash: "list_all is_hex_lower h \<Longrightarrow> SLASH \<notin> set h"
  by (erule no_char) (auto simp: is_hex_lower_def is_digit_def)

lemma slash_no_id: "is_generation_id g \<Longrightarrow> SLASH \<notin> set g"
  unfolding is_generation_id_def
  by (rule no_char [where P = "\<lambda>c. is_alpha c \<or> is_digit c \<or> c = CHR ''-''"]) (auto simp: is_alpha_def is_digit_def is_upper_def is_lower_def)

lemma artifactExtension_cases: "artifactExtension f \<in> set FORMAT_EXT"
  by (simp add: artifactExtension_def FORMAT_EXT_def Let_def)

lemma extension_plain [simp]: "SLASH \<notin> set (artifactExtension f)" "artifactExtension f \<noteq> []"
  using artifactExtension_cases [of f] by (auto simp: FORMAT_EXT_def)

lemma safeWindow_cases: "safeWindow w = Inr v \<Longrightarrow> v \<in> set SNAPSHOT_WINDOWS"
  by (auto simp: safeWindow_def SNAPSHOT_WINDOWS_def Let_def split: if_splits)

lemma clean_window: "v \<in> set SNAPSHOT_WINDOWS \<Longrightarrow> clean v"
  by (auto simp: SNAPSHOT_WINDOWS_def clean_def)

lemma clean_extension: "clean (artifactExtension f)"
  using artifactExtension_cases [of f] by (auto simp: FORMAT_EXT_def clean_def)

lemma guardedD: "guarded base r = Inr p \<Longrightarrow> p = r \<and> startsWith r (base @ [SLASH])"
  by (simp add: guarded_def split: if_splits)

definition chunk_segments :: "chunk_identity \<Rightarrow> string \<Rightarrow> string list" where
  "chunk_segments c w =
     [''chunks'', ''feed-'' @ show_nat (ci_feed c), w, ''v'' @ show_nat (nat (ci_algo c)),
      ''n'' @ show_nat (nat (ci_count c)), artifactExtension (ci_format c)]"

lemma clean_chunk_segments: "w \<in> set SNAPSHOT_WINDOWS \<Longrightarrow> list_all clean (chunk_segments c w)"
  unfolding chunk_segments_def using clean_window clean_extension
  by simp (auto simp: clean_def)

lemma path_resolve_self: "list_all clean b \<Longrightarrow> path_resolve (of_segments b) [] = of_segments b"
  by (simp add: path_resolve_root resolve_segments_def step_segment_def)

lemma resolveChunkDir_segments:
  assumes "resolveChunkDir dir c = Inr d"
  obtains w where "safeWindow (ci_window c) = Inr w" "base_segments dir \<noteq> []"
    "d = of_segments (base_segments dir @ chunk_segments c w)"
proof -
  obtain w where w: "safeWindow (ci_window c) = Inr w"
    and g: "guarded (of_segments (base_segments dir)) (below (of_segments (base_segments dir)) (chunk_segments c w)) = Inr d"
    using assms by (auto simp: resolveChunkDir_def path_resolve_base chunk_segments_def Let_def split: if_splits sum.splits)
  have c: "list_all clean (chunk_segments c w)" by (rule clean_chunk_segments [OF safeWindow_cases [OF w]])
  have d: "d = of_segments (base_segments dir @ chunk_segments c w)"
    "startsWith d (of_segments (base_segments dir) @ [SLASH])"
    using guardedD [OF g] below_clean [OF clean_base c, of dir] by (simp_all add: below_def chunk_segments_def)
  show ?thesis
    by (rule that [OF w startsWith_of_segments(2) d(1)]) (use d clean_base c in auto)
qed

definition chunk_name :: "string \<Rightarrow> nat \<Rightarrow> string \<Rightarrow> string" where
  "chunk_name ext key h = show_nat key @ ''-'' @ h @ ''.'' @ ext"

lemma takeWhile_digits [simp]:
  "takeWhile is_digit (show_nat n @ CHR ''-'' # t) = show_nat n"
  "dropWhile is_digit (show_nat n @ CHR ''-'' # t) = CHR ''-'' # t"
proof -
  have d: "\<And>c. c \<in> set (show_nat n) \<Longrightarrow> is_digit c" using show_nat_digits [of n] by (simp add: list_all_iff)
  have "\<not> is_digit (CHR ''-'')" by (simp add: is_digit_def)
  with d show "takeWhile is_digit (show_nat n @ CHR ''-'' # t) = show_nat n"
    "dropWhile is_digit (show_nat n @ CHR ''-'' # t) = CHR ''-'' # t"
    by (simp_all add: takeWhile_append2 dropWhile_append2)
qed

lemma is_chunk_name_of: "is_content_hash h \<Longrightarrow> is_chunk_name ext (chunk_name ext key h)"
  by (simp add: is_chunk_name_def chunk_name_def after_def startsWith_def is_content_hash_def)

lemma clean_chunk_name:
  assumes "is_content_hash h" "ext \<in> set FORMAT_EXT"
  shows "clean (chunk_name ext key h)"
proof (rule cleanI [of _ "CHR ''-''"])
  show "SLASH \<notin> set (chunk_name ext key h)"
    using assms slash_no_hash by (auto simp: chunk_name_def is_content_hash_def FORMAT_EXT_def)
qed (simp_all add: chunk_name_def)

lemma numeral_after_lit [simp]: "numeral_after lit (lit @ show_nat n) = Some n"
  by (simp add: numeral_after_def after_def startsWith_def)

lemma describe_chunk:
  assumes "w \<in> set SNAPSHOT_WINDOWS" "is_content_hash h"
  shows "describeArtifactPath (js_join [SLASH] (chunk_segments c w @ [chunk_name (artifactExtension (ci_format c)) key h]))
     = Some \<lparr>a_feed = ci_feed c, a_kind = Chunk, a_generation = None\<rparr>"
proof -
  let ?n = "chunk_name (artifactExtension (ci_format c)) key h"
  have "js_split SLASH (js_join [SLASH] (chunk_segments c w @ [?n])) = chunk_segments c w @ [?n]"
    using clean_chunk_segments [OF assms(1), of c] clean_chunk_name [OF assms(2) artifactExtension_cases]
    by (intro js_split_join) (auto simp: list_all_iff clean_def)
  moreover have "chunk_dir_feed (chunk_segments c w) = Some (ci_feed c)"
    using assms(1) artifactExtension_cases numeral_after_lit [of "''v''"] numeral_after_lit [of "''n''"]
      numeral_after_lit [of "''feed-''"]
    by (simp add: chunk_dir_feed_def chunk_segments_def)
  ultimately show ?thesis
    using is_chunk_name_of [OF assms(2), of "artifactExtension (ci_format c)" key]
    by (simp add: describeArtifactPath_def Let_def) (simp add: chunk_segments_def)
qed

lemma resolveChunkFinalPath_segments:
  assumes "resolveChunkFinalPath (of_segments b) key h format = Inr p" "list_all clean b"
  shows "0 \<le> key" "is_content_hash (js_lower h)"
    "p = of_segments (b @ [chunk_name (artifactExtension format) (nat key) (js_lower h)])"
proof -
  let ?n = "chunk_name (artifactExtension format) (nat key) (js_lower h)"
  show k: "0 \<le> key" and h: "is_content_hash (js_lower h)"
    using assms(1) by (simp_all add: resolveChunkFinalPath_def Let_def split: if_splits)
  have "list_all clean [?n]" using clean_chunk_name [OF h artifactExtension_cases] by simp
  from below_clean [OF assms(2) this] show "p = of_segments (b @ [?n])"
    using assms(1) k h guardedD [of "path_resolve (of_segments b) []" "path_resolve (of_segments b) ?n" p]
    by (simp add: resolveChunkFinalPath_def chunk_name_def)
qed

lemma stored_path_of_segments:
  assumes "list_all clean x" "x \<noteq> []" "base_segments dir \<noteq> []"
  shows "resolveStoredArtifactPath dir (js_join [SLASH] x) = Inr (of_segments (base_segments dir @ x))
       \<or> hd (hd x) = BACKSLASH"
proof -
  obtain a ss where x: "x = a # ss" "a \<noteq> []" "SLASH \<notin> set a"
    using assms(1,2) by (cases x) (auto simp: clean_def)
  then obtain t where t: "js_join [SLASH] x = hd a # t" "hd a \<noteq> SLASH"
    by (cases a; cases ss) auto
  have "startsWith (of_segments (base_segments dir @ x)) (of_segments (base_segments dir) @ [SLASH])"
    by (rule startsWith_below) (use assms in auto)
  then show ?thesis
    using below_clean [OF clean_base assms(1,2), of dir] t x(1)
    by (auto simp: resolveStoredArtifactPath_def path_resolve_base)
qed

lemma relative_of_segments:
  assumes "list_all clean x" "x \<noteq> []" "base_segments dir \<noteq> []"
  shows "toRelativeChunkPath dir (of_segments (base_segments dir @ x)) = Inr (js_join [SLASH] x)"
proof -
  let ?b = "base_segments dir"
  have "of_segments (?b @ x) = of_segments ?b @ SLASH # js_join [SLASH] x"
    using assms(2,3) of_segments_join [of x] by (simp add: of_segments_def)
  moreover have "startsWith (of_segments (?b @ x)) (of_segments ?b @ [SLASH])"
    by (rule startsWith_below) (use assms in auto)
  moreover have "path_resolve (of_segments (?b @ x)) [] = of_segments (?b @ x)"
    by (rule path_resolve_self) (use assms(1) clean_base in auto)
  ultimately show ?thesis by (simp add: toRelativeChunkPath_def path_resolve_base)
qed

text \<open>A path read from the database never leaves the storage directory: whatever the stored text
  holds (\<open>..\<close>, doubled or leading slashes, backslashes), when it resolves, the result is the storage
  directory followed by ordinary segments, none of them empty, \<open>.\<close> or \<open>..\<close>.\<close>

theorem stored_path_stays_below:
  assumes "resolveStoredArtifactPath dir p = Inr r"
  shows "\<exists>x. list_all clean x \<and> r = of_segments (base_segments dir @ x)"
proof -
  let ?b = "base_segments dir" and ?rel = "dropWhile (\<lambda>c. c = SLASH \<or> c = BACKSLASH) p"
  define y where "y = resolve_segments ?b (js_split SLASH ?rel)"
  have y: "list_all clean y" unfolding y_def by (rule clean_split [OF clean_base])
  have "\<not> (?rel \<noteq> [] \<and> hd ?rel = SLASH)"
    using hd_dropWhile [of "\<lambda>c. c = SLASH \<or> c = BACKSLASH" p] by auto
  then have "path_resolve (of_segments ?b) ?rel = of_segments y"
    by (simp only: path_resolve_root [OF clean_base] y_def if_False)
  then have r: "r = of_segments y"
    "of_segments y = of_segments ?b \<or> startsWith (of_segments y) (of_segments ?b @ [SLASH])"
    using assms by (auto simp: resolveStoredArtifactPath_def path_resolve_base Let_def split: if_splits)
  from r(2) show ?thesis
  proof
    assume "of_segments y = of_segments ?b"
    then have "list_all clean [] \<and> r = of_segments (?b @ [])" using r(1) by simp
    then show ?thesis by blast
  next
    assume "startsWith (of_segments y) (of_segments ?b @ [SLASH])"
    from startsWith_of_segments(1) [OF clean_base y this] obtain x where "y = ?b @ x" by blast
    with y r(1) show ?thesis by auto
  qed
qed

theorem stored_path_stays_below_witness:
  "\<exists>x. list_all clean x \<and> ''/data/feeds/7/g.txt'' = of_segments (base_segments ''/data/feeds/'' @ x)"
proof -
  have "resolveStoredArtifactPath ''/data/feeds/'' ''//7/../7/./g.txt'' = Inr ''/data/feeds/7/g.txt''" by code_simp
  then show ?thesis by (rule stored_path_stays_below)
qed

lemma norm_stored_plain:
  assumes "BACKSLASH \<notin> set p" "p \<noteq> []" "hd p \<noteq> SLASH"
  shows "norm_stored p = p"
proof -
  have "map (\<lambda>c. if c = BACKSLASH then SLASH else c) p = p"
    using assms(1) by (intro map_idI) auto
  with assms show ?thesis by (cases p) (auto simp: norm_stored_def)
qed

text \<open>The relative path that the writer stores is a fixed point of the normalisation of the collector.\<close>

lemma chunk_rel_norm:
  assumes "w \<in> set SNAPSHOT_WINDOWS" "is_content_hash h"
  shows "norm_stored (js_join [SLASH] (chunk_segments c w @ [chunk_name (artifactExtension (ci_format c)) key h]))
     = js_join [SLASH] (chunk_segments c w @ [chunk_name (artifactExtension (ci_format c)) key h])"
proof (rule norm_stored_plain)
  have "BACKSLASH \<notin> set (show_nat n)" for n
    by (rule no_char [OF show_nat_digits]) (simp add: is_digit_def)
  moreover have "BACKSLASH \<notin> set h"
    using assms(2) unfolding is_content_hash_def
    by (intro no_char [of is_hex_lower]) (auto simp: is_hex_lower_def is_digit_def)
  moreover have "BACKSLASH \<notin> set w" using assms(1) by (auto simp: SNAPSHOT_WINDOWS_def)
  moreover have "BACKSLASH \<notin> set (artifactExtension (ci_format c))"
    using artifactExtension_cases [of "ci_format c"] by (auto simp: FORMAT_EXT_def)
  ultimately show "BACKSLASH \<notin> set (js_join [SLASH] (chunk_segments c w @ [chunk_name (artifactExtension (ci_format c)) key h]))"
    by (simp add: chunk_segments_def chunk_name_def)
qed (simp_all add: chunk_segments_def)

lemma chunk_path_facts:
  assumes "resolveChunkDir dir c = Inr d" "resolveChunkFinalPath d key h (ci_format c) = Inr p"
  shows "\<exists>rel. toRelativeChunkPath dir p = Inr rel \<and> resolveStoredArtifactPath dir rel = Inr p
     \<and> describeArtifactPath rel = Some \<lparr>a_feed = ci_feed c, a_kind = Chunk, a_generation = None\<rparr>
     \<and> norm_stored rel = rel"
proof -
  obtain w where w: "safeWindow (ci_window c) = Inr w" and b: "base_segments dir \<noteq> []"
    and d: "d = of_segments (base_segments dir @ chunk_segments c w)"
    using resolveChunkDir_segments [OF assms(1)] by blast
  have sw: "w \<in> set SNAPSHOT_WINDOWS" by (rule safeWindow_cases [OF w])
  have cl: "list_all clean (base_segments dir @ chunk_segments c w)"
    using clean_base clean_chunk_segments [OF sw] by simp
  note p = resolveChunkFinalPath_segments [OF assms(2) [unfolded d] cl]
  let ?x = "chunk_segments c w @ [chunk_name (artifactExtension (ci_format c)) (nat key) (js_lower h)]"
  have x: "list_all clean ?x"
    using clean_chunk_segments [OF sw] clean_chunk_name [OF p(2) artifactExtension_cases] by simp
  have "hd (hd ?x) \<noteq> BACKSLASH" by (simp add: chunk_segments_def)
  then show ?thesis
    using relative_of_segments [OF x _ b] stored_path_of_segments [OF x _ b] describe_chunk [OF sw p(2)] chunk_rel_norm [OF sw p(2)] p(3)
    by auto
qed

text \<open>Writers, database and collector agree on the layout.  The path that the chunk writer makes is
  stored relative to the root; the stored form resolves back to exactly that file, and the orphan
  collector reads it as a chunk of the same feed.\<close>

theorem chunk_path_round_trip:
  assumes "resolveChunkDir dir c = Inr d" "resolveChunkFinalPath d key h (ci_format c) = Inr p"
  shows "\<exists>rel. toRelativeChunkPath dir p = Inr rel \<and> resolveStoredArtifactPath dir rel = Inr p
     \<and> describeArtifactPath rel = Some \<lparr>a_feed = ci_feed c, a_kind = Chunk, a_generation = None\<rparr>"
  using chunk_path_facts [OF assms] by blast

definition example_chunk :: chunk_identity where
  "example_chunk = \<lparr>ci_feed = 12, ci_window = ''7d'', ci_algo = 1, ci_count = 256, ci_format = ''stix''\<rparr>"

theorem chunk_path_round_trip_witness:
  "\<exists>p rel. toRelativeChunkPath ''/data/feeds'' p = Inr rel \<and> resolveStoredArtifactPath ''/data/feeds'' rel = Inr p
     \<and> describeArtifactPath rel = Some \<lparr>a_feed = 12, a_kind = Chunk, a_generation = None\<rparr>"
proof -
  have 1: "resolveChunkDir ''/data/feeds'' example_chunk = Inr ''/data/feeds/chunks/feed-12/7d/v1/n256/stix''" by code_simp
  have "case resolveChunkFinalPath ''/data/feeds/chunks/feed-12/7d/v1/n256/stix'' 255 (replicate 64 (CHR ''a'')) (ci_format example_chunk)
      of Inl _ \<Rightarrow> False | Inr _ \<Rightarrow> True" by code_simp
  then obtain p where "resolveChunkFinalPath ''/data/feeds/chunks/feed-12/7d/v1/n256/stix'' 255 (replicate 64 (CHR ''a''))
      (ci_format example_chunk) = Inr p" by (auto split: sum.splits)
  from chunk_path_round_trip [OF 1 this] show ?thesis by (auto simp: example_chunk_def)
qed

text \<open>C23: The collector and a chunk file.  Take any chunk file under the name the writer gave it.  A run of
  the orphan collector never deletes it while a chunk row of the feed names it, nor while the lock of
  the feed is held elsewhere; it deletes it exactly when the run is in apply mode and covers the feed,
  the feed has a row, the lock was obtained, no row names the file, and both looks at the file
  found the same old regular file.\<close>

theorem orphan_gc_exact_on_chunks:
  assumes "resolveChunkDir dir c = Inr d" "resolveChunkFinalPath d key h (ci_format c) = Inr p"
    "toRelativeChunkPath dir p = Inr rel" "f \<in> set files" "sf_rel f = rel" "sf_regular f" "0 < ci_feed c"
    "refs (ci_feed c) = loadFeedReferences chunk_paths heads snapshots gens"
  shows "norm_stored rel = rel
     \<and> (f \<in> set (runPublishedFeedOrphanGc apply_mode feedIds exists_feed locked refs now age again files)
     \<longleftrightarrow> apply_mode \<and> (case feedIds of None \<Rightarrow> True | Some ids \<Rightarrow> ci_feed c \<in> set ids)
       \<and> exists_feed (ci_feed c) \<and> locked (ci_feed c)
       \<and> rel \<notin> norm_stored ` set (chunk_paths @ heads @ snapshots)
       \<and> sf_mtime f < now - age * 60 * 1000
       \<and> (case again rel of None \<Rightarrow> False
          | Some g \<Rightarrow> sf_regular g \<and> sf_ino g = sf_ino f \<and> sf_mtime g < now - age * 60 * 1000))"
proof -
  have d: "describeArtifactPath rel = Some \<lparr>a_feed = ci_feed c, a_kind = Chunk, a_generation = None\<rparr>"
    and n: "norm_stored rel = rel"
    using chunk_path_facts [OF assms(1,2)] assms(3) by auto
  have "classify_file exists_feed locked refs (now - age * 60 * 1000) f = DELETE_ELIGIBLE
     \<longleftrightarrow> exists_feed (ci_feed c) \<and> locked (ci_feed c)
       \<and> rel \<notin> norm_stored ` set (chunk_paths @ heads @ snapshots) \<and> sf_mtime f < now - age * 60 * 1000"
    using d assms(5-8) by (auto simp: classify_file_def is_referenced_def loadFeedReferences_def)
  then show ?thesis
    using d n assms(4,5) by (simp add: runPublishedFeedOrphanGc_def Let_def del: set_append cong: option.case_cong)
qed

definition example_dir :: string where
  "example_dir = ''/data/feeds/chunks/feed-12/7d/v1/n256/stix''"

definition example_rel :: string where
  "example_rel = ''chunks/feed-12/7d/v1/n256/stix/255-'' @ replicate 64 (CHR ''a'') @ ''.stix''"

definition example_file :: store_file where
  "example_file = \<lparr>sf_rel = example_rel, sf_regular = True, sf_mtime = 0, sf_ino = 5\<rparr>"

lemma example_paths:
  "resolveChunkDir ''/data/feeds'' example_chunk = Inr example_dir"
  "resolveChunkFinalPath example_dir 255 (replicate 64 (CHR ''a'')) (ci_format example_chunk) = Inr (''/data/feeds/'' @ example_rel)"
  "toRelativeChunkPath ''/data/feeds'' (''/data/feeds/'' @ example_rel) = Inr example_rel"
  by code_simp+

theorem orphan_gc_exact_on_chunks_witness:
  "example_file \<notin> set (runPublishedFeedOrphanGc True None (\<lambda>_. True) (\<lambda>_. True)
      (\<lambda>_. loadFeedReferences [example_rel] [] [] []) 100000000 360 (\<lambda>_. Some example_file) [example_file])
   \<and> example_file \<in> set (runPublishedFeedOrphanGc True None (\<lambda>_. True) (\<lambda>_. True)
      (\<lambda>_. loadFeedReferences [] [] [] []) 100000000 360 (\<lambda>_. Some example_file) [example_file])"
proof -
  have f: "example_file \<in> set [example_file]" "sf_rel example_file = example_rel" "sf_regular example_file"
    "0 < ci_feed example_chunk" by (simp_all add: example_file_def example_chunk_def)
  note g = orphan_gc_exact_on_chunks [OF example_paths f]
  have n: "norm_stored example_rel = example_rel" using g [of "\<lambda>_. loadFeedReferences [] [] [] []" "[]" "[]" "[]" "[]"] by simp
  show ?thesis
    using g [of "\<lambda>_. loadFeedReferences [example_rel] [] [] []" "[example_rel]" "[]" "[]" "[]" True None "\<lambda>_. True" "\<lambda>_. True" 100000000 360 "\<lambda>_. Some example_file"]
      g [of "\<lambda>_. loadFeedReferences [] [] [] []" "[]" "[]" "[]" "[]" True None "\<lambda>_. True" "\<lambda>_. True" 100000000 360 "\<lambda>_. Some example_file"] n
    by (simp add: example_file_def)
qed

end
