(* ===== verification/PubGeneration.thy ===== *)
theory PubGeneration
  imports PubChunks PubStore
begin

text \<open>
  Published feeds: the generations of one feed (\<open>publishedFeedChunkGeneration.js\<close>), its rows in the
  database and its files, and the processes that work on them: a build (files written one by one, then one
  transaction), the retention cleanup, the orphan collector, all under the feed's advisory lock,
  and, without the lock, the purge of unreachable chunks and the retirement of other windows.  Every interleaving of their steps is
  allowed, and a process may die at any step.
\<close>

section \<open>Rows\<close>

type_synonym slot = "string \<times> string"

datatype gen_state = G_building | G_ready | G_active | G_superseded | G_failed

text \<open>The window and the IOC type key make the slot.  Times are milliseconds.\<close>

record gen_row =
  gr_id :: string
  gr_slot :: slot
  gr_parent :: "string option"
  gr_state :: gen_state
  gr_items :: int
  gr_count :: nat
  gr_formats :: "string list"
  gr_created :: int
  gr_superseded :: "int option"

text \<open>The algorithm version of a chunk row is always 1 (the build refuses any other).\<close>

record chunk_row =
  cr_id :: nat
  cr_window :: string
  cr_count :: nat
  cr_key :: nat
  cr_format :: string
  cr_version :: nat
  cr_hash :: string
  cr_bytes :: nat
  cr_items :: nat
  cr_path :: string
  cr_created :: int

record link_row =
  lk_gen :: string
  lk_format :: string
  lk_key :: nat
  lk_chunk :: nat

record format_row =
  fr_gen :: string
  fr_format :: string
  fr_version :: nat
  fr_header :: string
  fr_footer :: string
  fr_separator :: string
  fr_items :: nat
  fr_bytes :: nat
  fr_etag :: string
  fr_head :: "string option"

record feed_db =
  gens :: "gen_row list"
  chunk_rows :: "chunk_row list"
  links :: "link_row list"
  format_rows :: "format_row list"
  active_gens :: "(slot \<times> string) list"
  next_chunk_id :: nat

definition empty_db :: feed_db where
  "empty_db = \<lparr>gens = [], chunk_rows = [], links = [], format_rows = [], active_gens = [], next_chunk_id = 1\<rparr>"

definition getActiveChunkGeneration :: "feed_db \<Rightarrow> slot \<Rightarrow> gen_row option" where
  "getActiveChunkGeneration db slot =
     (case map_of (active_gens db) slot of
        None \<Rightarrow> None
      | Some gid \<Rightarrow> find (\<lambda>g. gr_id g = gid \<and> gr_state g = G_active
                      \<and> list_ex (\<lambda>f. fr_gen f = gid) (format_rows db)) (gens db))"

definition getChunkGenerationFiles :: "feed_db \<Rightarrow> string \<Rightarrow> string \<Rightarrow> chunk_row list" where
  "getChunkGenerationFiles db gid format =
     concat (map (\<lambda>l. filter (\<lambda>c. cr_id c = lk_chunk l) (chunk_rows db))
       (sort_key lk_key (filter (\<lambda>l. lk_gen l = gid \<and> lk_format l = format) (links db))))"

section \<open>Planning a build\<close>

datatype gen_error =
    CHUNK_BACKFILL_NOT_READY
  | UnsupportedChunkAlgorithm
  | DuplicateKey
  | CHUNK_MANIFEST_COUNT_MISMATCH

text \<open>
  What the caller passes and the feed's row says; \<open>b_count\<close> and \<open>b_algo\<close> are 0 when the column is
  empty.  \<open>b_envelope\<close> is \<open>formatEnvelope\<close> for a format and item count, \<open>b_version\<close> the table of serializer versions of the
  running release.
\<close>

record build_spec =
  b_slot :: slot
  b_ready :: bool
  b_algo :: int
  b_count :: int
  b_formats :: "string list"
  b_affected :: "nat list option"
  b_expected :: "int option"
  b_id :: string
  b_now :: int
  b_version :: "string \<Rightarrow> nat"
  b_envelope :: "string \<Rightarrow> nat \<Rightarrow> string \<times> string \<times> string"

record build_plan =
  p_parent :: "gen_row option"
  p_count :: nat
  p_full :: bool
  p_affected :: "nat list"
  p_items :: int

text \<open>The head of \<open>buildAndActivate\<close>; \<open>reusable\<close> is the answer of \<open>canReuseUnaffectedChunks\<close>.\<close>

definition plan_build :: "build_spec \<Rightarrow> bool \<Rightarrow> feed_db \<Rightarrow> (gen_error, build_plan) result" where
  "plan_build b reusable db =
     (if \<not> b_ready b then Inl CHUNK_BACKFILL_NOT_READY
      else
        (let count = nat (if b_count b \<noteq> 0 then b_count b
                          else default_chunk_count (case b_expected b of None \<Rightarrow> 0 | Some n \<Rightarrow> n));
             algo = (if b_algo b \<noteq> 0 then b_algo b else PUBLISHED_FEED_CHUNK_ALGO_VERSION) in
         if algo \<noteq> PUBLISHED_FEED_CHUNK_ALGO_VERSION then Inl UnsupportedChunkAlgorithm
         else
           (let parent = getActiveChunkGeneration db (b_slot b);
                full = (parent = None \<or> b_affected b = None \<or> \<not> reusable);
                items = (case b_expected b of
                           Some n \<Rightarrow> n
                         | None \<Rightarrow> (case parent of None \<Rightarrow> 0 | Some g \<Rightarrow> gr_items g)) in
            Inr \<lparr>p_parent = parent, p_count = count, p_full = full,
                 p_affected = (if full then [0..<count] else sort (remdups (case b_affected b of None \<Rightarrow> [] | Some ks \<Rightarrow> ks))),
                 p_items = items\<rparr>)))"

section \<open>Files\<close>

type_synonym files = "string \<Rightarrow> string option"

record gen_chunk =
  gc_key :: nat
  gc_format :: string
  gc_hash :: string
  gc_bytes :: nat
  gc_items :: nat
  gc_path :: string
  gc_created :: bool

text \<open>The stored relative paths of a chunk and of a generation's recency head.\<close>

definition chunk_path :: "nat \<Rightarrow> string \<Rightarrow> nat \<Rightarrow> nat \<Rightarrow> string \<Rightarrow> string \<Rightarrow> string" where
  "chunk_path fid window cnt key format h =
     js_join [SLASH] (chunk_segments \<lparr>ci_feed = fid, ci_window = window, ci_algo = PUBLISHED_FEED_CHUNK_ALGO_VERSION,
         ci_count = int cnt, ci_format = format\<rparr> window
       @ [chunk_name (artifactExtension format) key h])"

definition head_path :: "nat \<Rightarrow> string \<Rightarrow> string" where
  "head_path fid gid = js_join [SLASH] [''generations'', ''feed-'' @ show_nat fid, gid @ ''.txt-head'']"

definition removeFileQuiet :: "string \<Rightarrow> files \<Rightarrow> files" where
  "removeFileQuiet path fs = fs(path := None)"

text \<open>An existing file is kept as it is; the flag says that it was reused.\<close>

definition commitContentAddressedPart :: "string \<Rightarrow> string \<Rightarrow> files \<Rightarrow> bool \<times> files" where
  "commitContentAddressedPart content path fs =
     (if fs path \<noteq> None then (True, fs) else (False, fs(path := Some content)))"

text \<open>\<open>finishChunkWriters\<close> for one format of one key: nothing for an empty body.\<close>

definition finishChunkWriters ::
    "nat \<Rightarrow> (string \<Rightarrow> string) \<Rightarrow> string \<Rightarrow> nat \<Rightarrow> nat \<Rightarrow> string \<Rightarrow> string \<Rightarrow> nat \<Rightarrow> files \<Rightarrow> gen_chunk list \<times> files" where
  "finishChunkWriters fid sha window cnt key format content items fs =
     (if content = [] then ([], fs)
      else let h = sha content; path = chunk_path fid window cnt key format h;
               (reused, fs') = commitContentAddressedPart content path fs in
        ([\<lparr>gc_key = key, gc_format = format, gc_hash = h, gc_bytes = length content, gc_items = items,
           gc_path = path, gc_created = \<not> reused\<rparr>], fs'))"

text \<open>\<open>removeCreatedChunkFiles\<close> and the recency head, as the list of paths that a failed build unlinks.\<close>

definition created_paths :: "gen_chunk list \<Rightarrow> string option \<Rightarrow> string list" where
  "created_paths cs head =
     map gc_path (filter gc_created cs) @ (case head of None \<Rightarrow> [] | Some p \<Rightarrow> [p])"

section \<open>The transaction of a build\<close>

text \<open>One \<open>INSERT ... ON CONFLICT\<close>: the sequence moves in any case; a path of another row violates
  \<open>uq_pf_chunks_storage_path\<close>.\<close>

definition same_content :: "build_spec \<Rightarrow> build_plan \<Rightarrow> gen_chunk \<Rightarrow> chunk_row \<Rightarrow> bool" where
  "same_content b p c r \<longleftrightarrow> cr_window r = fst (b_slot b) \<and> cr_count r = p_count p \<and> cr_key r = gc_key c
     \<and> cr_format r = gc_format c \<and> cr_version r = b_version b (gc_format c) \<and> cr_hash r = gc_hash c"

definition upsertChunkRow ::
    "build_spec \<Rightarrow> build_plan \<Rightarrow> gen_chunk \<Rightarrow> feed_db \<Rightarrow> (gen_error, nat \<times> feed_db) result" where
  "upsertChunkRow b p c db =
     (let n = next_chunk_id db; db1 = db\<lparr>next_chunk_id := Suc n\<rparr> in
      case find (same_content b p c) (chunk_rows db) of
        Some r \<Rightarrow>
          if list_ex (\<lambda>q. cr_id q \<noteq> cr_id r \<and> cr_path q = gc_path c) (chunk_rows db) then Inl DuplicateKey
          else Inr (cr_id r, db1\<lparr>chunk_rows :=
                 map (\<lambda>q. if cr_id q = cr_id r then q\<lparr>cr_path := gc_path c\<rparr> else q) (chunk_rows db)\<rparr>)
      | None \<Rightarrow>
          if list_ex (\<lambda>q. cr_path q = gc_path c) (chunk_rows db) then Inl DuplicateKey
          else Inr (n, db1\<lparr>chunk_rows := chunk_rows db @
                 [\<lparr>cr_id = n, cr_window = fst (b_slot b), cr_count = p_count p, cr_key = gc_key c,
                   cr_format = gc_format c, cr_version = b_version b (gc_format c), cr_hash = gc_hash c,
                   cr_bytes = gc_bytes c, cr_items = gc_items c, cr_path = gc_path c, cr_created = b_now b\<rparr>]\<rparr>))"

type_synonym chunk_ids = "((string \<times> nat) \<times> nat) list"

fun upsertChunkRows ::
    "build_spec \<Rightarrow> build_plan \<Rightarrow> gen_chunk list \<Rightarrow> feed_db \<Rightarrow> (gen_error, chunk_ids \<times> feed_db) result" where
  "upsertChunkRows b p [] db = Inr ([], db)"
| "upsertChunkRows b p (c # cs) db =
     (case upsertChunkRow b p c db of
        Inl e \<Rightarrow> Inl e
      | Inr (i, db1) \<Rightarrow>
          (case upsertChunkRows b p cs db1 of
             Inl e \<Rightarrow> Inl e
           | Inr (ids, db2) \<Rightarrow> Inr (ids @ [((gc_format c, gc_key c), i)], db2)))"

definition inherited_links :: "build_spec \<Rightarrow> build_plan \<Rightarrow> feed_db \<Rightarrow> link_row list" where
  "inherited_links b p db =
     (case p_parent p of
        None \<Rightarrow> []
      | Some g \<Rightarrow> map (\<lambda>l. l\<lparr>lk_gen := b_id b\<rparr>)
          (filter (\<lambda>l. lk_gen l = gr_id g \<and> lk_key l \<notin> set (p_affected p)) (links db)))"

definition new_links :: "build_spec \<Rightarrow> build_plan \<Rightarrow> chunk_ids \<Rightarrow> link_row list" where
  "new_links b p ids =
     concat (map (\<lambda>f. concat (map (\<lambda>k.
       (case map_of ids (f, k) of
          None \<Rightarrow> []
        | Some i \<Rightarrow> [\<lparr>lk_gen = b_id b, lk_format = f, lk_key = k, lk_chunk = i\<rparr>])) (p_affected p))) (b_formats b))"

definition ref_of :: "chunk_row \<Rightarrow> chunk_ref" where
  "ref_of c = \<lparr>ref_content_hash = cr_hash c, ref_byte_length = cr_bytes c, ref_item_count = cr_items c\<rparr>"

fun addFormatRows ::
    "(string \<Rightarrow> string) \<Rightarrow> build_spec \<Rightarrow> build_plan \<Rightarrow> string option \<Rightarrow> string list \<Rightarrow> feed_db \<Rightarrow> (gen_error, feed_db) result" where
  "addFormatRows sha b p head [] db = Inr db"
| "addFormatRows sha b p head (f # fs) db =
     (let refs = map ref_of (getChunkGenerationFiles db (b_id b) f);
          n = sum_list (map ref_item_count refs);
          (header, footer, separator) = b_envelope b f n in
      if f \<noteq> ''stix'' \<and> int n \<noteq> p_items p then Inl CHUNK_MANIFEST_COUNT_MISMATCH
      else addFormatRows sha b p head fs (db\<lparr>format_rows := format_rows db @
             [\<lparr>fr_gen = b_id b, fr_format = f, fr_version = b_version b f, fr_header = header, fr_footer = footer,
               fr_separator = separator, fr_items = n,
               fr_bytes = logicalRepresentationLength header footer refs separator,
               fr_etag = strongRepresentationEtag sha f (b_version b f) header footer refs separator,
               fr_head = (if f = ''txt'' then head else None)\<rparr>]\<rparr>))"

text \<open>Setting the states and the pointer; a second active generation of a slot violates \<open>uq_pf_generations_active\<close>.\<close>

definition supersede :: "build_spec \<Rightarrow> string \<Rightarrow> gen_row list \<Rightarrow> gen_row list" where
  "supersede b gid = map (\<lambda>g. if gr_id g = gid \<and> gr_state g = G_active
     then g\<lparr>gr_state := G_superseded, gr_superseded := Some (b_now b)\<rparr> else g)"

definition set_gen_state :: "gen_state \<Rightarrow> string \<Rightarrow> gen_row list \<Rightarrow> gen_row list" where
  "set_gen_state st gid = map (\<lambda>g. if gr_id g = gid then g\<lparr>gr_state := st\<rparr> else g)"

definition point_to :: "slot \<Rightarrow> string \<Rightarrow> (slot \<times> string) list \<Rightarrow> (slot \<times> string) list" where
  "point_to slot gid ps = (slot, gid) # filter (\<lambda>q. fst q \<noteq> slot) ps"

definition activate :: "build_spec \<Rightarrow> build_plan \<Rightarrow> feed_db \<Rightarrow> (gen_error, feed_db) result" where
  "activate b p db =
     (let gs = set_gen_state G_ready (b_id b) (gens db);
          gs1 = (case p_parent p of None \<Rightarrow> gs | Some g \<Rightarrow> supersede b (gr_id g) gs) in
      if list_ex (\<lambda>g. gr_slot g = b_slot b \<and> gr_id g \<noteq> b_id b \<and> gr_state g = G_active) gs1 then Inl DuplicateKey
      else Inr (db\<lparr>gens := set_gen_state G_active (b_id b) gs1,
                   active_gens := point_to (b_slot b) (b_id b) (active_gens db)\<rparr>))"

definition new_gen :: "build_spec \<Rightarrow> build_plan \<Rightarrow> gen_row" where
  "new_gen b p = \<lparr>gr_id = b_id b, gr_slot = b_slot b, gr_parent = map_option gr_id (p_parent p), gr_state = G_building,
     gr_items = p_items p, gr_count = p_count p, gr_formats = b_formats b, gr_created = b_now b, gr_superseded = None\<rparr>"

definition buildTxn ::
    "(string \<Rightarrow> string) \<Rightarrow> build_spec \<Rightarrow> build_plan \<Rightarrow> gen_chunk list \<Rightarrow> string option \<Rightarrow> feed_db \<Rightarrow> (gen_error, feed_db) result" where
  "buildTxn sha b p cs head db =
     (if list_ex (\<lambda>g. gr_id g = b_id b) (gens db) then Inl DuplicateKey
      else case upsertChunkRows b p cs (db\<lparr>gens := gens db @ [new_gen b p]\<rparr>) of
             Inl e \<Rightarrow> Inl e
           | Inr (ids, db1) \<Rightarrow>
               (case addFormatRows sha b p head (b_formats b)
                       (db1\<lparr>links := links db1 @ inherited_links b p db1 @ new_links b p ids\<rparr>) of
                  Inl e \<Rightarrow> Inl e
                | Inr db2 \<Rightarrow> activate b p db2))"

section \<open>Retention\<close>

definition expired :: "int \<Rightarrow> int \<Rightarrow> gen_row \<Rightarrow> bool" where
  "expired now retention g \<longleftrightarrow> gr_state g \<in> {G_superseded, G_failed}
     \<and> (case gr_superseded g of None \<Rightarrow> gr_created g | Some t \<Rightarrow> t) < now - retention"

definition unreachable :: "int \<Rightarrow> int \<Rightarrow> feed_db \<Rightarrow> chunk_row \<Rightarrow> bool" where
  "unreachable now retention db c \<longleftrightarrow> cr_created c < now - retention \<and> \<not> list_ex (\<lambda>l. lk_chunk l = cr_id c) (links db)"

text \<open>\<open>purgeUnreachablePublishedFeedChunks\<close>: the statement, and the paths it returns to unlink.\<close>

definition purge_txn :: "int \<Rightarrow> int \<Rightarrow> feed_db \<Rightarrow> feed_db \<times> string list" where
  "purge_txn now retention db =
     (db\<lparr>chunk_rows := filter (\<lambda>c. \<not> unreachable now retention db c) (chunk_rows db)\<rparr>,
      map cr_path (filter (unreachable now retention db) (chunk_rows db)))"

text \<open>
  The transaction of \<open>cleanupPublishedFeedChunkGenerations\<close> for one candidate, with the paths to unlink;
  \<open>None\<close> when it rolls back.  Deleting the generation deletes its format rows and clears it
  from its children; the pointer's foreign key restricts the deletion.
\<close>

definition drop_gen :: "string \<Rightarrow> feed_db \<Rightarrow> feed_db" where
  "drop_gen gid db =
     db\<lparr>gens := map (\<lambda>g. if gr_parent g = Some gid then g\<lparr>gr_parent := None\<rparr> else g)
                  (filter (\<lambda>g. gr_id g \<noteq> gid) (gens db)),
        links := filter (\<lambda>l. lk_gen l \<noteq> gid) (links db),
        format_rows := filter (\<lambda>f. fr_gen f \<noteq> gid) (format_rows db)\<rparr>"

definition head_paths :: "feed_db \<Rightarrow> string \<Rightarrow> string list" where
  "head_paths db gid =
     concat (map (\<lambda>f. if fr_gen f = gid then (case fr_head f of None \<Rightarrow> [] | Some p \<Rightarrow> [p]) else []) (format_rows db))"

definition cleanup_txn :: "int \<Rightarrow> int \<Rightarrow> string \<Rightarrow> feed_db \<Rightarrow> (feed_db \<times> string list) option" where
  "cleanup_txn now retention gid db =
     (if \<not> list_ex (\<lambda>g. gr_id g = gid \<and> gr_state g \<in> {G_superseded, G_failed}) (gens db)
         \<or> list_ex (\<lambda>q. snd q = gid) (active_gens db) then None
      else let heads = head_paths db gid; (db', paths) = purge_txn now retention (drop_gen gid db) in Some (db', paths @ heads))"

definition reconcileOrphanGenerationChunkLinks :: "feed_db \<Rightarrow> feed_db" where
  "reconcileOrphanGenerationChunkLinks db =
     db\<lparr>links := filter (\<lambda>l. list_ex (\<lambda>g. gr_id g = lk_gen l) (gens db)) (links db)\<rparr>"

text \<open>
  \<open>retireObsoletePublicWindowGenerations\<close>: first the pointers of the other windows are deleted, then, in
  statements of their own, their generations are marked.
\<close>

definition retire_pointers :: "string \<Rightarrow> feed_db \<Rightarrow> feed_db \<times> string list" where
  "retire_pointers keep db =
     (db\<lparr>active_gens := filter (\<lambda>q. fst (fst q) = keep) (active_gens db)\<rparr>,
      map snd (filter (\<lambda>q. fst (fst q) \<noteq> keep) (active_gens db)))"

definition retire_mark :: "int \<Rightarrow> string \<Rightarrow> feed_db \<Rightarrow> feed_db" where
  "retire_mark now gid db =
     db\<lparr>gens := map (\<lambda>g. if gr_id g = gid \<and> gr_state g \<in> {G_active, G_ready, G_building}
          then g\<lparr>gr_state := G_superseded,
                 gr_superseded := Some (case gr_superseded g of None \<Rightarrow> now | Some t \<Rightarrow> t)\<rparr> else g) (gens db)\<rparr>"

section \<open>Pins\<close>

type_synonym pins = "string \<Rightarrow> nat"

definition pinPublishedFeedGeneration :: "string \<Rightarrow> pins \<Rightarrow> pins" where
  "pinPublishedFeedGeneration gid ps = ps(gid := ps gid + 1)"

text \<open>The returned closure, called with its own \<open>released\<close> flag.\<close>

definition release_pin :: "string \<Rightarrow> bool \<times> pins \<Rightarrow> bool \<times> pins" where
  "release_pin gid rp = (if fst rp then rp else (True, (snd rp)(gid := snd rp gid - 1)))"

definition isPublishedFeedGenerationPinned :: "string \<Rightarrow> pins \<Rightarrow> bool" where
  "isPublishedFeedGenerationPinned gid ps \<longleftrightarrow> ps gid > 0"

section \<open>The system of one feed\<close>

text \<open>
  The phase names the process that holds the feed's advisory lock and how far it is.  Without the lock
  run the purge (\<open>s_purging\<close>: the paths it has still to unlink) and the retirement of other windows
  (\<open>s_retiring\<close>: the generations whose pointers it deleted and that it has still to mark).
\<close>

datatype phase =
    Idle
  | Building build_spec build_plan "gen_chunk list" "string option"
  | Discarding "string list"
  | Cleaning string int
  | Unlinking "string list"
  | Collecting feed_refs

fun is_idle :: "phase \<Rightarrow> bool" where
  "is_idle Idle = True"
| "is_idle _ = False"

record feed_sys =
  s_db :: feed_db
  s_files :: files
  s_phase :: phase
  s_pins :: pins
  s_purging :: "string list"
  s_retiring :: "string list"
  s_now :: int

definition init_sys :: feed_sys where
  "init_sys = \<lparr>s_db = empty_db, s_files = (\<lambda>_. None), s_phase = Idle, s_pins = (\<lambda>_. 0), s_purging = [],
     s_retiring = [], s_now = 0\<rparr>"

datatype action =
    StartBuild build_spec bool
  | WriteChunk nat string string nat
  | WriteHead string
  | FinishBuild
  | FailBuild
  | LockCleanup string int
  | CleanupTxn
  | Unlink
  | StartGc
  | GcDelete store_file int
  | Done
  | Crash
  | PurgeTxn int
  | PurgeUnlink
  | RetirePointers string
  | RetireMark
  | RetireLost
  | Pin string
  | Unpin string
  | Tick int

text \<open>What \<open>loadFeedReferences\<close> reads; the monolithic snapshots of a feed are not modelled, so their list is empty.\<close>

definition gc_refs :: "feed_db \<Rightarrow> feed_refs" where
  "gc_refs db = loadFeedReferences (map cr_path (chunk_rows db))
     (concat (map (\<lambda>f. case fr_head f of None \<Rightarrow> [] | Some p \<Rightarrow> [p]) (format_rows db))) [] (map gr_id (gens db))"

text \<open>Ends of a build: the error branch runs with the paths created so far.\<close>

definition finish_build :: "(string \<Rightarrow> string) \<Rightarrow> build_spec \<Rightarrow> build_plan \<Rightarrow> gen_chunk list \<Rightarrow> string option \<Rightarrow> feed_sys \<Rightarrow> feed_sys" where
  "finish_build sha b p cs head s =
     (case buildTxn sha b p cs head (s_db s) of
        Inl e \<Rightarrow> s\<lparr>s_phase := Discarding (created_paths cs head)\<rparr>
      | Inr db \<Rightarrow> s\<lparr>s_db := db, s_phase := Idle\<rparr>)"

definition write_chunk ::
    "nat \<Rightarrow> (string \<Rightarrow> string) \<Rightarrow> build_spec \<Rightarrow> build_plan \<Rightarrow> gen_chunk list \<Rightarrow> nat \<Rightarrow> string \<Rightarrow> string \<Rightarrow> nat \<Rightarrow> feed_sys \<Rightarrow> feed_sys" where
  "write_chunk fid sha b p cs key format content items s =
     (let (new, fs) = finishChunkWriters fid sha (fst (b_slot b)) (p_count p) key format content items (s_files s)
      in s\<lparr>s_files := fs, s_phase := Building b p (cs @ new) None\<rparr>)"

text \<open>
  One step; \<open>None\<close> when the action is not possible.  A new generation's id is fresh (it holds the time
  and 80 random bits), so no row, no head file and no running process has it.
\<close>

fun act :: "nat \<Rightarrow> (string \<Rightarrow> string) \<Rightarrow> action \<Rightarrow> feed_sys \<Rightarrow> feed_sys option" where
  "act fid sha (StartBuild b reusable) s =
     (case plan_build b reusable (s_db s) of
        Inl _ \<Rightarrow> None
      | Inr p \<Rightarrow>
          if is_idle (s_phase s) \<and> b_now b = s_now s \<and> is_generation_id (b_id b) \<and> s_files s (head_path fid (b_id b)) = None
             \<and> \<not> list_ex (\<lambda>g. gr_id g = b_id b) (gens (s_db s)) \<and> b_id b \<notin> set (s_retiring s)
          then Some (s\<lparr>s_phase := Building b p [] None\<rparr>) else None)"
| "act fid sha (WriteChunk key format content items) s =
     (case s_phase s of
        Building b p cs None \<Rightarrow>
          if fst (b_slot b) \<in> set SNAPSHOT_WINDOWS \<and> key \<in> set (p_affected p) \<and> format \<in> set (b_formats b)
             \<and> (format, key) \<notin> set (map (\<lambda>c. (gc_format c, gc_key c)) cs)
          then Some (write_chunk fid sha b p cs key format content items s) else None
      | _ \<Rightarrow> None)"
| "act fid sha (WriteHead content) s =
     (case s_phase s of
        Building b p cs None \<Rightarrow>
          if ''txt'' \<in> set (b_formats b)
          then Some (s\<lparr>s_files := (s_files s)(head_path fid (b_id b) := Some content),
                       s_phase := Building b p cs (Some (head_path fid (b_id b)))\<rparr>) else None
      | _ \<Rightarrow> None)"
| "act fid sha FinishBuild s =
     (case s_phase s of
        Building b p cs head \<Rightarrow>
          if (head \<noteq> None) = (''txt'' \<in> set (b_formats b)) then Some (finish_build sha b p cs head s) else None
      | _ \<Rightarrow> None)"
| "act fid sha FailBuild s =
     (case s_phase s of
        Building b p cs head \<Rightarrow> Some (s\<lparr>s_phase := Discarding (created_paths cs head)\<rparr>)
      | _ \<Rightarrow> None)"
| "act fid sha (LockCleanup gid retention) s =
     (if is_idle (s_phase s) \<and> list_ex (\<lambda>g. gr_id g = gid \<and> expired (s_now s) retention g) (gens (s_db s))
         \<and> \<not> isPublishedFeedGenerationPinned gid (s_pins s)
      then Some (s\<lparr>s_phase := Cleaning gid retention\<rparr>) else None)"
| "act fid sha CleanupTxn s =
     (case s_phase s of
        Cleaning gid retention \<Rightarrow>
          (case cleanup_txn (s_now s) retention gid (s_db s) of
             None \<Rightarrow> Some (s\<lparr>s_phase := Idle\<rparr>)
           | Some (db, paths) \<Rightarrow> Some (s\<lparr>s_db := db, s_phase := Unlinking paths\<rparr>))
      | _ \<Rightarrow> None)"
| "act fid sha Unlink s =
     (case s_phase s of
        Discarding (p # ps) \<Rightarrow> Some (s\<lparr>s_files := removeFileQuiet p (s_files s), s_phase := Discarding ps\<rparr>)
      | Unlinking (p # ps) \<Rightarrow> Some (s\<lparr>s_files := removeFileQuiet p (s_files s), s_phase := Unlinking ps\<rparr>)
      | _ \<Rightarrow> None)"
| "act fid sha StartGc s =
     (if is_idle (s_phase s) then Some (s\<lparr>s_phase := Collecting (gc_refs (s_db s))\<rparr>) else None)"
| "act fid sha (GcDelete f cutoff) s =
     (case s_phase s of
        Collecting refs \<Rightarrow>
          if classify_file (\<lambda>_. True) (\<lambda>n. n = fid) (\<lambda>_. refs) cutoff f = DELETE_ELIGIBLE
          then Some (s\<lparr>s_files := removeFileQuiet (sf_rel f) (s_files s)\<rparr>) else None
      | _ \<Rightarrow> None)"
| "act fid sha Done s =
     (case s_phase s of
        Discarding [] \<Rightarrow> Some (s\<lparr>s_phase := Idle\<rparr>)
      | Unlinking [] \<Rightarrow> Some (s\<lparr>s_phase := Idle\<rparr>)
      | Collecting _ \<Rightarrow> Some (s\<lparr>s_phase := Idle\<rparr>)
      | _ \<Rightarrow> None)"
| "act fid sha Crash s = Some (s\<lparr>s_phase := Idle, s_pins := (\<lambda>_. 0)\<rparr>)"
| "act fid sha (PurgeTxn retention) s =
     (let (db, paths) = purge_txn (s_now s) retention (s_db s)
      in Some (s\<lparr>s_db := db, s_purging := s_purging s @ paths\<rparr>))"
| "act fid sha PurgeUnlink s =
     (case s_purging s of
        [] \<Rightarrow> None
      | p # ps \<Rightarrow> Some (s\<lparr>s_files := removeFileQuiet p (s_files s), s_purging := ps\<rparr>))"
| "act fid sha (RetirePointers keep) s =
     (let (db, ids) = retire_pointers keep (s_db s)
      in Some (s\<lparr>s_db := db, s_retiring := s_retiring s @ ids\<rparr>))"
| "act fid sha RetireMark s =
     (case s_retiring s of
        [] \<Rightarrow> None
      | gid # ids \<Rightarrow> Some (s\<lparr>s_db := retire_mark (s_now s) gid (s_db s), s_retiring := ids\<rparr>))"
| "act fid sha RetireLost s = Some (s\<lparr>s_retiring := []\<rparr>)"
| "act fid sha (Tick t) s = (if s_now s \<le> t then Some (s\<lparr>s_now := t\<rparr>) else None)"
| "act fid sha (Pin gid) s = Some (s\<lparr>s_pins := pinPublishedFeedGeneration gid (s_pins s)\<rparr>)"
| "act fid sha (Unpin gid) s = Some (s\<lparr>s_pins := snd (release_pin gid (False, s_pins s))\<rparr>)"

fun run_actions :: "nat \<Rightarrow> (string \<Rightarrow> string) \<Rightarrow> action list \<Rightarrow> feed_sys \<Rightarrow> feed_sys option" where
  "run_actions fid sha [] s = Some s"
| "run_actions fid sha (a # as) s =
     (case act fid sha a s of None \<Rightarrow> None | Some s' \<Rightarrow> run_actions fid sha as s')"

text \<open>The reachable states, under every interleaving.\<close>

inductive reachable :: "nat \<Rightarrow> (string \<Rightarrow> string) \<Rightarrow> feed_sys \<Rightarrow> bool" for fid sha where
  reach_init: "reachable fid sha init_sys"
| reach_step: "\<lbrakk>reachable fid sha s; act fid sha a s = Some s'\<rbrakk> \<Longrightarrow> reachable fid sha s'"

end
