(* ===== verification/PubGenerationFacts.thy ===== *)
theory PubGenerationFacts
  imports PubGeneration
begin

text \<open>
  The invariant of the system of \<open>PubGeneration\<close> and what follows from it: the files of every
  generation in the database exist and hold the recorded bytes, at most one generation of a slot is
  active, the purge never finds anything to delete, and a failed build leaves no trace.
\<close>

section \<open>Paths\<close>

lemma chunk_path_split:
  assumes "w \<in> set SNAPSHOT_WINDOWS" "is_content_hash h"
  shows "js_split SLASH (chunk_path fid w n k f h) =
    chunk_segments \<lparr>ci_feed = fid, ci_window = w, ci_algo = PUBLISHED_FEED_CHUNK_ALGO_VERSION, ci_count = int n, ci_format = f\<rparr> w
      @ [chunk_name (artifactExtension f) k h]"
  unfolding chunk_path_def
  using clean_chunk_segments [OF assms(1)] clean_chunk_name [OF assms(2) artifactExtension_cases]
  by (intro js_split_join) (auto simp: list_all_iff clean_def)

text \<open>The hash in the name of a chunk file.\<close>

definition path_hash :: "string \<Rightarrow> string" where
  "path_hash p = take 64 (tl (dropWhile is_digit (last (js_split SLASH p))))"

lemma path_hash_chunk [simp]:
  assumes "w \<in> set SNAPSHOT_WINDOWS" "is_content_hash h"
  shows "path_hash (chunk_path fid w n k f h) = h"
  using chunk_path_split [OF assms] assms(2)
  by (simp add: path_hash_def chunk_name_def is_content_hash_def)

lemma hd_chunk_path [simp]: "hd (chunk_path fid w n k f h) = CHR ''c''"
  by (simp add: chunk_path_def chunk_segments_def)

lemma hd_head_path [simp]: "hd (head_path fid gid) = CHR ''g''"
  by (simp add: head_path_def)

lemma head_neq_chunk [simp]: "head_path fid gid \<noteq> chunk_path fid' w n k f h" "chunk_path fid' w n k f h \<noteq> head_path fid gid"
  by (rule notI, drule arg_cong [of _ _ hd], simp)+

lemma head_path_inj [simp]: "head_path fid g = head_path fid g' \<longleftrightarrow> g = g'"
  by (simp add: head_path_def)

lemma norm_chunk_path [simp]:
  "\<lbrakk>w \<in> set SNAPSHOT_WINDOWS; is_content_hash h\<rbrakk> \<Longrightarrow> norm_stored (chunk_path fid w n k f h) = chunk_path fid w n k f h"
  using chunk_rel_norm [of w h "\<lparr>ci_feed = fid, ci_window = w, ci_algo = PUBLISHED_FEED_CHUNK_ALGO_VERSION, ci_count = int n, ci_format = f\<rparr>" k]
  by (simp add: chunk_path_def)

lemma norm_head_path [simp]:
  assumes "is_generation_id gid"
  shows "norm_stored (head_path fid gid) = head_path fid gid"
proof (rule norm_stored_plain)
  have "BACKSLASH \<notin> set gid"
    using assms unfolding is_generation_id_def
    by (intro no_char [where P = "\<lambda>c. is_alpha c \<or> is_digit c \<or> c = CHR ''-''"]) (auto simp: is_alpha_def is_digit_def is_upper_def is_lower_def)
  moreover have "BACKSLASH \<notin> set (show_nat fid)" by (rule no_char [OF show_nat_digits]) (simp add: is_digit_def)
  ultimately show "BACKSLASH \<notin> set (head_path fid gid)" by (simp add: head_path_def)
qed (simp_all add: head_path_def)

section \<open>The invariant\<close>

definition ids_ok :: "feed_db \<Rightarrow> bool" where
  "ids_ok db \<longleftrightarrow> distinct (map gr_id (gens db)) \<and> (\<forall>g \<in> set (gens db). is_generation_id (gr_id g))
     \<and> (\<forall>l \<in> set (links db). lk_gen l \<in> gr_id ` set (gens db) \<and> lk_chunk l \<in> cr_id ` set (chunk_rows db))
     \<and> (\<forall>f \<in> set (format_rows db). fr_gen f \<in> gr_id ` set (gens db))"

definition states_ok :: "feed_db \<Rightarrow> bool" where
  "states_ok db \<longleftrightarrow> (\<forall>g \<in> set (gens db). gr_state g = G_active \<and> gr_superseded g = None
        \<or> gr_state g = G_superseded \<and> gr_superseded g \<noteq> None)
     \<and> (\<forall>g \<in> set (gens db). \<forall>g' \<in> set (gens db).
          gr_state g = G_active \<and> gr_state g' = G_active \<and> gr_slot g = gr_slot g' \<longrightarrow> g = g')"

definition pointers_ok :: "string list \<Rightarrow> feed_db \<Rightarrow> bool" where
  "pointers_ok retiring db \<longleftrightarrow> distinct (map fst (active_gens db))
     \<and> (\<forall>q \<in> set (active_gens db). snd q \<notin> set retiring
          \<and> (\<exists>g \<in> set (gens db). gr_id g = snd q \<and> gr_slot g = fst q \<and> gr_state g = G_active))"

definition row_ok :: "nat \<Rightarrow> (string \<Rightarrow> string) \<Rightarrow> files \<Rightarrow> chunk_row \<Rightarrow> bool" where
  "row_ok fid sha fs r \<longleftrightarrow> cr_window r \<in> set SNAPSHOT_WINDOWS \<and> is_content_hash (cr_hash r)
     \<and> cr_path r = chunk_path fid (cr_window r) (cr_count r) (cr_key r) (cr_format r) (cr_hash r)
     \<and> (\<exists>c. fs (cr_path r) = Some c \<and> sha c = cr_hash r)"

definition rows_ok :: "nat \<Rightarrow> (string \<Rightarrow> string) \<Rightarrow> files \<Rightarrow> feed_db \<Rightarrow> bool" where
  "rows_ok fid sha fs db \<longleftrightarrow> distinct (map cr_id (chunk_rows db)) \<and> distinct (map cr_path (chunk_rows db))
     \<and> (\<forall>r \<in> set (chunk_rows db). cr_id r < next_chunk_id db \<and> row_ok fid sha fs r)"

definition heads_ok :: "nat \<Rightarrow> files \<Rightarrow> feed_db \<Rightarrow> bool" where
  "heads_ok fid fs db \<longleftrightarrow> (\<forall>f \<in> set (format_rows db). \<forall>p. fr_head f = Some p \<longrightarrow>
      p = head_path fid (fr_gen f) \<and> fs p \<noteq> None)"

definition hashes_ok :: "(string \<Rightarrow> string) \<Rightarrow> files \<Rightarrow> bool" where
  "hashes_ok sha fs \<longleftrightarrow> (\<forall>p c. fs p = Some c \<longrightarrow> hd p = CHR ''c'' \<longrightarrow> sha c = path_hash p)"

text \<open>Every chunk row is in the manifest of a generation.\<close>

definition all_linked :: "feed_db \<Rightarrow> bool" where
  "all_linked db \<longleftrightarrow> (\<forall>r \<in> set (chunk_rows db). \<exists>l \<in> set (links db). lk_chunk l = cr_id r)"

definition created_by :: "int \<Rightarrow> feed_db \<Rightarrow> bool" where
  "created_by t db \<longleftrightarrow> (\<forall>r \<in> set (chunk_rows db). cr_created r \<le> t)"

text \<open>What a generation links was created before it was superseded.\<close>

definition times_ok :: "feed_db \<Rightarrow> bool" where
  "times_ok db \<longleftrightarrow> (\<forall>g \<in> set (gens db). \<forall>l \<in> set (links db). \<forall>r \<in> set (chunk_rows db).
     lk_gen l = gr_id g \<and> lk_chunk l = cr_id r \<longrightarrow> (case gr_superseded g of None \<Rightarrow> True | Some t \<Rightarrow> cr_created r \<le> t))"

definition unused :: "feed_db \<Rightarrow> string \<Rightarrow> bool" where
  "unused db p \<longleftrightarrow> p \<notin> cr_path ` set (chunk_rows db) \<and> (\<forall>f \<in> set (format_rows db). fr_head f \<noteq> Some p)"

definition chunk_ok :: "nat \<Rightarrow> (string \<Rightarrow> string) \<Rightarrow> files \<Rightarrow> build_spec \<Rightarrow> build_plan \<Rightarrow> gen_chunk \<Rightarrow> bool" where
  "chunk_ok fid sha fs b p c \<longleftrightarrow> fst (b_slot b) \<in> set SNAPSHOT_WINDOWS \<and> is_content_hash (gc_hash c)
     \<and> gc_path c = chunk_path fid (fst (b_slot b)) (p_count p) (gc_key c) (gc_format c) (gc_hash c)
     \<and> (\<exists>x. fs (gc_path c) = Some x \<and> sha x = gc_hash c)
     \<and> gc_format c \<in> set (b_formats b) \<and> gc_key c \<in> set (p_affected p)"

definition parent_ok :: "build_spec \<Rightarrow> build_plan \<Rightarrow> feed_db \<Rightarrow> bool" where
  "parent_ok b p db \<longleftrightarrow> (case p_parent p of None \<Rightarrow> True | Some g \<Rightarrow>
     (\<forall>g' \<in> set (gens db). gr_id g' = gr_id g \<longrightarrow> gr_slot g' = b_slot b))"

abbreviation gc_name :: "gen_chunk \<Rightarrow> string \<times> nat" where
  "gc_name c \<equiv> (gc_format c, gc_key c)"

fun phase_ok :: "nat \<Rightarrow> (string \<Rightarrow> string) \<Rightarrow> feed_sys \<Rightarrow> phase \<Rightarrow> bool" where
  "phase_ok fid sha s Idle = True"
| "phase_ok fid sha s (Building b p cs head) \<longleftrightarrow>
     is_generation_id (b_id b) \<and> b_id b \<notin> gr_id ` set (gens (s_db s)) \<and> b_id b \<notin> set (s_retiring s)
     \<and> parent_ok b p (s_db s) \<and> b_now b \<le> s_now s \<and> created_by (b_now b) (s_db s)
     \<and> (\<forall>c \<in> set cs. chunk_ok fid sha (s_files s) b p c) \<and> distinct (map gc_name cs)
     \<and> (\<forall>q \<in> set (created_paths cs head). unused (s_db s) q)
     \<and> (head = None \<or> head = Some (head_path fid (b_id b)) \<and> s_files s (head_path fid (b_id b)) \<noteq> None)"
| "phase_ok fid sha s (Discarding ps) \<longleftrightarrow> (\<forall>p \<in> set ps. unused (s_db s) p)"
| "phase_ok fid sha s (Unlinking ps) \<longleftrightarrow> (\<forall>p \<in> set ps. unused (s_db s) p)"
| "phase_ok fid sha s (Cleaning gid retention) \<longleftrightarrow> (\<forall>g \<in> set (gens (s_db s)). gr_id g = gid \<longrightarrow> expired (s_now s) retention g)"
| "phase_ok fid sha s (Collecting refs) \<longleftrightarrow>
     (\<forall>r \<in> set (chunk_rows (s_db s)). cr_path r \<in> set (ref_paths refs))
     \<and> (\<forall>f \<in> set (format_rows (s_db s)). \<forall>p. fr_head f = Some p \<longrightarrow> p \<in> set (ref_paths refs))"

definition data_ok :: "nat \<Rightarrow> (string \<Rightarrow> string) \<Rightarrow> files \<Rightarrow> feed_db \<Rightarrow> bool" where
  "data_ok fid sha fs db \<longleftrightarrow> ids_ok db \<and> states_ok db \<and> rows_ok fid sha fs db \<and> heads_ok fid fs db
     \<and> hashes_ok sha fs \<and> all_linked db \<and> times_ok db"

definition sys_ok :: "nat \<Rightarrow> (string \<Rightarrow> string) \<Rightarrow> feed_sys \<Rightarrow> bool" where
  "sys_ok fid sha s \<longleftrightarrow> data_ok fid sha (s_files s) (s_db s) \<and> pointers_ok (s_retiring s) (s_db s)
     \<and> created_by (s_now s) (s_db s) \<and> s_purging s = [] \<and> phase_ok fid sha s (s_phase s)"

section \<open>Changes of the files\<close>

lemma row_ok_files: "\<lbrakk>row_ok fid sha fs r; fs' (cr_path r) = fs (cr_path r)\<rbrakk> \<Longrightarrow> row_ok fid sha fs' r"
  by (metis row_ok_def)

lemma data_ok_files:
  assumes "data_ok fid sha fs db" "hashes_ok sha fs'" "\<And>r. r \<in> set (chunk_rows db) \<Longrightarrow> fs' (cr_path r) = fs (cr_path r)"
    "\<And>f p. \<lbrakk>f \<in> set (format_rows db); fr_head f = Some p\<rbrakk> \<Longrightarrow> fs' p \<noteq> None"
  shows "data_ok fid sha fs' db"
  using assms by (auto simp: data_ok_def rows_ok_def heads_ok_def intro: row_ok_files)

lemma data_ok_remove:
  assumes "data_ok fid sha fs db" "unused db p"
  shows "data_ok fid sha (removeFileQuiet p fs) db"
proof (rule data_ok_files [OF assms(1)])
  show "hashes_ok sha (removeFileQuiet p fs)"
    using assms(1) by (auto simp: data_ok_def hashes_ok_def removeFileQuiet_def)
  show "removeFileQuiet p fs (cr_path r) = fs (cr_path r)" if "r \<in> set (chunk_rows db)" for r
    using that assms(2) by (auto simp: unused_def removeFileQuiet_def)
  show "removeFileQuiet p fs q \<noteq> None" if "f \<in> set (format_rows db)" "fr_head f = Some q" for f q
    using that assms by (auto simp: unused_def removeFileQuiet_def data_ok_def heads_ok_def)
qed

lemma commit_part:
  assumes "commitContentAddressedPart x p fs = (reused, fs')" "hashes_ok sha fs" "hd p = CHR ''c'' \<Longrightarrow> sha x = path_hash p"
  shows "hashes_ok sha fs'" "fs q \<noteq> None \<Longrightarrow> fs' q = fs q" "fs' p \<noteq> None" "\<not> reused \<Longrightarrow> fs p = None"
  using assms by (auto simp: commitContentAddressedPart_def hashes_ok_def split: if_splits)

lemma data_ok_extend:
  assumes "data_ok fid sha fs db" "hashes_ok sha fs'" "\<And>q. fs q \<noteq> None \<Longrightarrow> fs' q = fs q"
  shows "data_ok fid sha fs' db"
proof (rule data_ok_files [OF assms(1,2)])
  show "fs' (cr_path r) = fs (cr_path r)" if "r \<in> set (chunk_rows db)" for r
    using that assms(1,3) by (auto simp: data_ok_def rows_ok_def row_ok_def)
  show "fs' p \<noteq> None" if "f \<in> set (format_rows db)" "fr_head f = Some p" for f p
    using that assms(1,3) by (auto simp: data_ok_def heads_ok_def)
qed

lemma chunk_ok_extend: "\<lbrakk>chunk_ok fid sha fs b p c; \<And>q. fs q \<noteq> None \<Longrightarrow> fs' q = fs q\<rbrakk> \<Longrightarrow> chunk_ok fid sha fs' b p c"
  by (auto simp: chunk_ok_def)

lemma absent_unused: "\<lbrakk>data_ok fid sha fs db; fs p = None\<rbrakk> \<Longrightarrow> unused db p"
  by (auto simp: data_ok_def unused_def rows_ok_def row_ok_def heads_ok_def)

text \<open>Writing one chunk file.\<close>

lemma finishChunkWriters_ok:
  assumes "finishChunkWriters fid sha (fst (b_slot b)) (p_count p) key format x n fs = (new, fs')"
    "data_ok fid sha fs db" "\<And>s. is_content_hash (sha s)" "fst (b_slot b) \<in> set SNAPSHOT_WINDOWS"
    "format \<in> set (b_formats b)" "key \<in> set (p_affected p)"
  shows "hashes_ok sha fs'" "\<And>q. fs q \<noteq> None \<Longrightarrow> fs' q = fs q"
    "\<forall>c \<in> set new. chunk_ok fid sha fs' b p c \<and> gc_name c = (format, key) \<and> (gc_created c \<longrightarrow> unused db (gc_path c))"
    "new = [] \<or> (\<exists>c. new = [c])"
proof -
  let ?path = "chunk_path fid (fst (b_slot b)) (p_count p) key format (sha x)"
  obtain reused fs1 where c: "commitContentAddressedPart x ?path fs = (reused, fs1)"
    by (cases "commitContentAddressedPart x ?path fs")
  have ha: "hashes_ok sha fs" using assms(2) by (simp add: data_ok_def)
  have ph: "path_hash ?path = sha x" by (rule path_hash_chunk [OF assms(4,3)])
  note cp = commit_part [OF c ha, unfolded ph, OF refl]
  show "hashes_ok sha fs'" "\<And>q. fs q \<noteq> None \<Longrightarrow> fs' q = fs q"
    using assms(1) c ha cp by (auto simp: finishChunkWriters_def Let_def split: if_splits)
  show "new = [] \<or> (\<exists>c. new = [c])"
    using assms(1) c by (auto simp: finishChunkWriters_def Let_def split: if_splits)
  show "\<forall>c \<in> set new. chunk_ok fid sha fs' b p c \<and> gc_name c = (format, key) \<and> (gc_created c \<longrightarrow> unused db (gc_path c))"
  proof
    fix g
    assume g: "g \<in> set new"
    then have e: "g = \<lparr>gc_key = key, gc_format = format, gc_hash = sha x, gc_bytes = length x, gc_items = n,
        gc_path = ?path, gc_created = \<not> reused\<rparr>" "fs' = fs1"
      using assms(1) c by (auto simp: finishChunkWriters_def Let_def split: if_splits)
    obtain y where y: "fs1 ?path = Some y" using cp(3) by blast
    then have "sha y = sha x"
      using cp(1) ph by (metis hashes_ok_def hd_chunk_path)
    with y have "chunk_ok fid sha fs' b p g" using e assms(3-6) by (simp add: chunk_ok_def)
    moreover have "gc_created g \<longrightarrow> unused db (gc_path g)"
      using e cp(4) absent_unused [OF assms(2)] by simp
    ultimately show "chunk_ok fid sha fs' b p g \<and> gc_name g = (format, key) \<and> (gc_created g \<longrightarrow> unused db (gc_path g))"
      using e by simp
  qed
qed

section \<open>The transaction of a build\<close>

lemma upsertChunkRow_ok:
  assumes "upsertChunkRow b p c db = Inr (i, db')" "rows_ok fid sha fs db" "chunk_ok fid sha fs b p c"
  shows "\<exists>new. db' = db\<lparr>chunk_rows := chunk_rows db @ new, next_chunk_id := Suc (next_chunk_id db)\<rparr>
     \<and> rows_ok fid sha fs db' \<and> i \<in> cr_id ` set (chunk_rows db')
     \<and> (\<forall>r \<in> set new. cr_id r = i \<and> cr_created r = b_now b)"
proof (cases "find (same_content b p c) (chunk_rows db)")
  case (Some r)
  then have r: "r \<in> set (chunk_rows db)" "same_content b p c r"
    by (auto simp: find_Some_iff)
  have "cr_path r = gc_path c"
    using r assms(2,3) by (auto simp: rows_ok_def row_ok_def chunk_ok_def same_content_def)
  moreover have "q = r" if "q \<in> set (chunk_rows db)" "cr_id q = cr_id r" for q
    using assms(2) that r(1) by (auto simp: rows_ok_def distinct_map inj_on_def)
  moreover have "r\<lparr>cr_path := cr_path r\<rparr> = r" by simp
  ultimately have "map (\<lambda>q. if cr_id q = cr_id r then q\<lparr>cr_path := gc_path c\<rparr> else q) (chunk_rows db) = chunk_rows db"
    by (intro map_idI) (split if_split, metis)
  with Some assms(1) have "db' = db\<lparr>chunk_rows := chunk_rows db @ [], next_chunk_id := Suc (next_chunk_id db)\<rparr>" "i = cr_id r"
    by (auto simp: upsertChunkRow_def Let_def split: if_splits)
  then show ?thesis
    using assms(2) r(1) by (intro exI [of _ "[]"]) (auto simp: rows_ok_def less_SucI)
next
  case None
  define new where "new = \<lparr>cr_id = next_chunk_id db, cr_window = fst (b_slot b), cr_count = p_count p, cr_key = gc_key c,
      cr_format = gc_format c, cr_version = b_version b (gc_format c), cr_hash = gc_hash c,
      cr_bytes = gc_bytes c, cr_items = gc_items c, cr_path = gc_path c, cr_created = b_now b\<rparr>"
  have d: "db' = db\<lparr>chunk_rows := chunk_rows db @ [new], next_chunk_id := Suc (next_chunk_id db)\<rparr>" "i = next_chunk_id db"
    "gc_path c \<notin> cr_path ` set (chunk_rows db)"
    using None assms(1) by (auto simp: upsertChunkRow_def Let_def new_def list_ex_iff split: if_splits)
  have "row_ok fid sha fs new" using assms(3) by (auto simp: row_ok_def chunk_ok_def new_def)
  moreover have "cr_id new \<notin> cr_id ` set (chunk_rows db)"
    using assms(2) by (auto simp: rows_ok_def new_def)
  ultimately have "rows_ok fid sha fs db'"
    using assms(2) d by (auto simp: rows_ok_def less_SucI) (auto simp: new_def)
  with d show ?thesis by (intro exI [of _ "[new]"]) (simp add: new_def)
qed

lemma upsertChunkRows_ok:
  assumes "upsertChunkRows b p cs db = Inr (ids, db')" "rows_ok fid sha fs db" "\<forall>c \<in> set cs. chunk_ok fid sha fs b p c"
  shows "\<exists>new n. db' = db\<lparr>chunk_rows := chunk_rows db @ new, next_chunk_id := n\<rparr> \<and> rows_ok fid sha fs db'
     \<and> map fst ids = rev (map gc_name cs) \<and> snd ` set ids \<subseteq> cr_id ` set (chunk_rows db')
     \<and> (\<forall>r \<in> set new. cr_id r \<in> snd ` set ids \<and> cr_created r = b_now b)"
  using assms
proof (induction cs arbitrary: db ids)
  case Nil
  then show ?case by (intro exI [of _ "[]"] exI [of _ "next_chunk_id db"]) auto
next
  case (Cons c cs)
  obtain i db1 ids1 where u: "upsertChunkRow b p c db = Inr (i, db1)" "upsertChunkRows b p cs db1 = Inr (ids1, db')"
    "ids = ids1 @ [(gc_name c, i)]"
    using Cons.prems(1) by (auto split: sum.splits)
  obtain new where n: "db1 = db\<lparr>chunk_rows := chunk_rows db @ new, next_chunk_id := Suc (next_chunk_id db)\<rparr>"
    "rows_ok fid sha fs db1" "i \<in> cr_id ` set (chunk_rows db1)" "\<forall>r \<in> set new. cr_id r = i \<and> cr_created r = b_now b"
    using upsertChunkRow_ok [OF u(1) Cons.prems(2)] Cons.prems(3) by auto
  obtain new1 k where k: "db' = db1\<lparr>chunk_rows := chunk_rows db1 @ new1, next_chunk_id := k\<rparr>" "rows_ok fid sha fs db'"
    "map fst ids1 = rev (map gc_name cs)" "snd ` set ids1 \<subseteq> cr_id ` set (chunk_rows db')"
    "\<forall>r \<in> set new1. cr_id r \<in> snd ` set ids1 \<and> cr_created r = b_now b"
    using Cons.IH [OF u(2) n(2)] Cons.prems(3) by auto
  show ?case
    using n k u(3) by (intro exI [of _ "new @ new1"] exI [of _ k]) auto
qed

lemma addFormatRows_ok:
  assumes "addFormatRows sha b p head fmts db = Inr db'"
  shows "\<exists>new. db' = db\<lparr>format_rows := format_rows db @ new\<rparr>
     \<and> (\<forall>f \<in> set new. fr_gen f = b_id b \<and> (fr_head f = None \<or> fr_head f = head))"
  using assms
proof (induction fmts arbitrary: db)
  case (Cons f fmts)
  obtain row db1 where r: "addFormatRows sha b p head fmts db1 = Inr db'" "db1 = db\<lparr>format_rows := format_rows db @ [row]\<rparr>"
    "fr_gen row = b_id b" "fr_head row = None \<or> fr_head row = head"
    using Cons.prems by (auto simp: Let_def split: if_splits prod.splits)
  obtain new where "db' = db1\<lparr>format_rows := format_rows db1 @ new\<rparr>"
    "\<forall>f \<in> set new. fr_gen f = b_id b \<and> (fr_head f = None \<or> fr_head f = head)"
    using Cons.IH [OF r(1)] by blast
  with r show ?case by (intro exI [of _ "row # new"]) auto
qed (rule exI [of _ "[]"], simp)

text \<open>What an activation does to a generation.\<close>

definition act_gen :: "build_spec \<Rightarrow> build_plan \<Rightarrow> gen_row \<Rightarrow> gen_row" where
  "act_gen b p g =
     (if gr_id g = b_id b then g\<lparr>gr_state := G_active\<rparr>
      else if gr_state g = G_active \<and> (case p_parent p of None \<Rightarrow> False | Some q \<Rightarrow> gr_id g = gr_id q)
           then g\<lparr>gr_state := G_superseded, gr_superseded := Some (b_now b)\<rparr> else g)"

lemma act_gen_keeps [simp]: "gr_id (act_gen b p g) = gr_id g" "gr_slot (act_gen b p g) = gr_slot g"
  by (simp_all add: act_gen_def)

lemma activate_ok:
  assumes "activate b p db = Inr db'"
  shows "db' = db\<lparr>gens := map (act_gen b p) (gens db), active_gens := point_to (b_slot b) (b_id b) (active_gens db)\<rparr>"
    "\<And>g. \<lbrakk>g \<in> set (gens db'); gr_slot g = b_slot b; gr_state g = G_active\<rbrakk> \<Longrightarrow> gr_id g = b_id b"
proof -
  let ?gs = "set_gen_state G_ready (b_id b) (gens db)"
  let ?gs1 = "case p_parent p of None \<Rightarrow> ?gs | Some g \<Rightarrow> supersede b (gr_id g) ?gs"
  have e: "set_gen_state G_active (b_id b) ?gs1 = map (act_gen b p) (gens db)"
    by (cases "p_parent p") (auto simp: set_gen_state_def supersede_def act_gen_def)
  then show "db' = db\<lparr>gens := map (act_gen b p) (gens db), active_gens := point_to (b_slot b) (b_id b) (active_gens db)\<rparr>"
    using assms by (auto simp: activate_def Let_def split: if_splits)
  have n: "\<And>g. \<lbrakk>g \<in> set ?gs1; gr_slot g = b_slot b; gr_id g \<noteq> b_id b\<rbrakk> \<Longrightarrow> gr_state g \<noteq> G_active"
    and d: "gens db' = set_gen_state G_active (b_id b) ?gs1"
    using assms by (auto simp: activate_def Let_def list_ex_iff split: if_splits)
  show "gr_id g = b_id b" if "g \<in> set (gens db')" "gr_slot g = b_slot b" "gr_state g = G_active" for g
    using that n unfolding d set_gen_state_def by (auto split: if_splits)
qed

text \<open>The committed database, in terms of the old one.\<close>

lemma buildTxn_shape:
  assumes "buildTxn sha b p cs head db = Inr db'" "data_ok fid sha fs db" "\<forall>c \<in> set cs. chunk_ok fid sha fs b p c"
  obtains rows ids n fmts where
    "db' = db\<lparr>gens := map (act_gen b p) (gens db @ [new_gen b p]), chunk_rows := chunk_rows db @ rows,
        links := links db @ inherited_links b p db @ new_links b p ids, format_rows := format_rows db @ fmts,
        active_gens := point_to (b_slot b) (b_id b) (active_gens db), next_chunk_id := n\<rparr>"
    "rows_ok fid sha fs db'" "map fst ids = rev (map gc_name cs)"
    "snd ` set ids \<subseteq> cr_id ` set (chunk_rows db')"
    "\<forall>r \<in> set rows. cr_id r \<in> snd ` set ids \<and> cr_created r = b_now b"
    "\<forall>f \<in> set fmts. fr_gen f = b_id b \<and> (fr_head f = None \<or> fr_head f = head)"
    "\<And>g. \<lbrakk>g \<in> set (gens db'); gr_slot g = b_slot b; gr_state g = G_active\<rbrakk> \<Longrightarrow> gr_id g = b_id b"
proof -
  define db0 where "db0 = db\<lparr>gens := gens db @ [new_gen b p]\<rparr>"
  obtain ids db1 where u: "upsertChunkRows b p cs db0 = Inr (ids, db1)"
    using assms(1) unfolding buildTxn_def db0_def by (auto split: if_splits sum.splits)
  define db2 where "db2 = db1\<lparr>links := links db1 @ inherited_links b p db1 @ new_links b p ids\<rparr>"
  obtain db3 where f: "addFormatRows sha b p head (b_formats b) db2 = Inr db3" and a: "activate b p db3 = Inr db'"
    using assms(1) u unfolding buildTxn_def db0_def db2_def by (auto split: if_splits sum.splits)
  have "rows_ok fid sha fs db0" using assms(2) by (simp add: data_ok_def rows_ok_def db0_def)
  from upsertChunkRows_ok [OF u this assms(3)]
  obtain rows n where r: "db1 = db0\<lparr>chunk_rows := chunk_rows db0 @ rows, next_chunk_id := n\<rparr>" "rows_ok fid sha fs db1"
    "map fst ids = rev (map gc_name cs)" "snd ` set ids \<subseteq> cr_id ` set (chunk_rows db1)"
    "\<forall>r \<in> set rows. cr_id r \<in> snd ` set ids \<and> cr_created r = b_now b" by blast
  obtain fmts where m: "db3 = db2\<lparr>format_rows := format_rows db2 @ fmts\<rparr>"
    "\<forall>f \<in> set fmts. fr_gen f = b_id b \<and> (fr_head f = None \<or> fr_head f = head)"
    using addFormatRows_ok [OF f] by blast
  have i: "inherited_links b p db1 = inherited_links b p db"
    by (simp add: inherited_links_def r(1) db0_def split: option.split)
  have e: "db' = db\<lparr>gens := map (act_gen b p) (gens db @ [new_gen b p]), chunk_rows := chunk_rows db @ rows,
        links := links db @ inherited_links b p db @ new_links b p ids, format_rows := format_rows db @ fmts,
        active_gens := point_to (b_slot b) (b_id b) (active_gens db), next_chunk_id := n\<rparr>"
    using activate_ok(1) [OF a] m(1) r(1) i by (simp add: db2_def db0_def)
  have c: "chunk_rows db1 = chunk_rows db'" "next_chunk_id db1 = next_chunk_id db'"
    by (simp_all add: e r(1) db0_def)
  have "rows_ok fid sha fs db'" using r(2) c by (simp add: rows_ok_def)
  from that [OF e this r(3) r(4) [unfolded c] r(5) m(2) activate_ok(2) [OF a]] show ?thesis .
qed

lemma inherited_linkD:
  assumes "l \<in> set (inherited_links b p db)"
  shows "lk_gen l = b_id b" "\<exists>l' \<in> set (links db). lk_chunk l' = lk_chunk l"
  using assms by (auto simp: inherited_links_def split: option.splits)

lemma new_linkD:
  assumes "l \<in> set (new_links b p ids)"
  shows "lk_gen l = b_id b" "lk_chunk l \<in> snd ` set ids"
  using assms by (auto simp: new_links_def split: option.splits) (metis map_of_SomeD snd_conv image_eqI)

lemma new_link_of:
  assumes "map fst ids = rev (map gc_name cs)" "distinct (map gc_name cs)" "\<forall>c \<in> set cs. chunk_ok fid sha fs b p c" "i \<in> snd ` set ids"
  shows "\<exists>l \<in> set (new_links b p ids). lk_chunk l = i"
proof -
  obtain f k where m: "((f, k), i) \<in> set ids" using assms(4) by auto
  then have "(f, k) \<in> fst ` set ids" by force
  then have "(f, k) \<in> gc_name ` set cs" using assms(1) by (metis list.set_map set_rev)
  then have fk: "f \<in> set (b_formats b)" "k \<in> set (p_affected p)" using assms(3) by (auto simp: chunk_ok_def)
  have "distinct (map fst ids)" using assms(1,2) by simp
  with m have "map_of ids (f, k) = Some i" by simp
  with fk show ?thesis by (auto simp: new_links_def intro!: bexI [of _ f] bexI [of _ k])
qed

lemma buildTxn_ok:
  assumes "buildTxn sha b p cs head db = Inr db'" "data_ok fid sha fs db" "\<forall>c \<in> set cs. chunk_ok fid sha fs b p c"
    and fresh: "is_generation_id (b_id b)" "b_id b \<notin> gr_id ` set (gens db)" "b_id b \<notin> set retiring"
    and parent: "parent_ok b p db" and created: "created_by (b_now b) db" and names: "distinct (map gc_name cs)"
    and head: "head = None \<or> head = Some (head_path fid (b_id b)) \<and> fs (head_path fid (b_id b)) \<noteq> None"
    and ptr: "pointers_ok retiring db"
  shows "data_ok fid sha fs db'" "pointers_ok retiring db'" "created_by (b_now b) db'"
proof -
  obtain rows ids n fmts where
    e: "db' = db\<lparr>gens := map (act_gen b p) (gens db @ [new_gen b p]), chunk_rows := chunk_rows db @ rows,
        links := links db @ inherited_links b p db @ new_links b p ids, format_rows := format_rows db @ fmts,
        active_gens := point_to (b_slot b) (b_id b) (active_gens db), next_chunk_id := n\<rparr>"
    and rows: "rows_ok fid sha fs db'" and ids: "map fst ids = rev (map gc_name cs)"
      "snd ` set ids \<subseteq> cr_id ` set (chunk_rows db')" "\<forall>r \<in> set rows. cr_id r \<in> snd ` set ids \<and> cr_created r = b_now b"
    and fmts: "\<forall>f \<in> set fmts. fr_gen f = b_id b \<and> (fr_head f = None \<or> fr_head f = head)"
    and one: "\<And>g. \<lbrakk>g \<in> set (gens db'); gr_slot g = b_slot b; gr_state g = G_active\<rbrakk> \<Longrightarrow> gr_id g = b_id b"
    by (rule buildTxn_shape [OF assms(1-3)]) (rule that; assumption)
  have old: "ids_ok db" "states_ok db" "heads_ok fid fs db" "hashes_ok sha fs" "all_linked db" "times_ok db" "rows_ok fid sha fs db"
    using assms(2) by (simp_all add: data_ok_def)
  have gn: "gr_id (new_gen b p) = b_id b" by (simp add: new_gen_def)
  have ne: "x \<in> set (gens db) \<Longrightarrow> gr_id x \<noteq> b_id b" for x using fresh(2) by (metis imageI)
  have gi: "map gr_id (gens db') = map gr_id (gens db) @ [b_id b]" by (simp add: e gn comp_def)
  show cb: "created_by (b_now b) db'" using created ids(3) by (auto simp: created_by_def e)
  have "ids_ok db'"
    unfolding ids_ok_def
  proof (intro conjI)
    show "distinct (map gr_id (gens db'))" using old(1) fresh(2) by (simp add: gi ids_ok_def)
    show "\<forall>g \<in> set (gens db'). is_generation_id (gr_id g)"
      using old(1) fresh(1) by (auto simp: e ids_ok_def gn)
    have g: "gr_id ` set (gens db') = insert (b_id b) (gr_id ` set (gens db))"
      by (simp add: e gn image_image)
    have "lk_gen l \<in> insert (b_id b) (gr_id ` set (gens db))" if "l \<in> set (links db')" for l
      using that old(1) inherited_linkD(1) [of l b p db] new_linkD(1) [of l b p ids] by (auto simp: e ids_ok_def)
    moreover have "lk_chunk l \<in> cr_id ` set (chunk_rows db')" if "l \<in> set (links db')" for l
    proof -
      have "cr_id ` set (chunk_rows db) \<subseteq> cr_id ` set (chunk_rows db')" by (auto simp: e)
      moreover have "l' \<in> set (links db) \<Longrightarrow> lk_chunk l' \<in> cr_id ` set (chunk_rows db)" for l'
        using old(1) by (simp add: ids_ok_def)
      moreover consider "l \<in> set (links db)" | "l \<in> set (inherited_links b p db)" | "l \<in> set (new_links b p ids)"
        using \<open>l \<in> set (links db')\<close> by (auto simp: e)
      ultimately show ?thesis
        using inherited_linkD(2) [of l b p db] new_linkD(2) [of l b p ids] ids(2) by cases (metis subsetD)+
    qed
    ultimately show "\<forall>l \<in> set (links db'). lk_gen l \<in> gr_id ` set (gens db') \<and> lk_chunk l \<in> cr_id ` set (chunk_rows db')"
      unfolding g by blast
    show "\<forall>f \<in> set (format_rows db'). fr_gen f \<in> gr_id ` set (gens db')"
      unfolding g using old(1) fmts by (auto simp: ids_ok_def e)
  qed
  moreover have "states_ok db'"
  proof -
    have st: "g \<in> set (gens db') \<Longrightarrow> gr_state g = G_active \<and> gr_superseded g = None
        \<or> gr_state g = G_superseded \<and> gr_superseded g \<noteq> None" for g
      using old(2) gn ne by (auto simp: e states_ok_def act_gen_def new_gen_def)
    have "g = g'" if g: "g \<in> set (gens db')" "g' \<in> set (gens db')" "gr_state g = G_active" "gr_state g' = G_active"
      "gr_slot g = gr_slot g'" for g g'
    proof (cases "gr_slot g = b_slot b")
      case True
      then have "gr_id g = gr_id g'" using one g by metis
      moreover have "distinct (map gr_id (gens db'))" using \<open>ids_ok db'\<close> by (simp add: ids_ok_def)
      ultimately show ?thesis using g(1,2) by (auto simp: distinct_map inj_on_def)
    next
      case False
      have "q \<in> set (gens db) \<and> gr_state q = G_active" if "q \<in> set (gens db')" "gr_slot q \<noteq> b_slot b" "gr_state q = G_active" for q
        using that by (auto simp: e act_gen_def new_gen_def ne split: if_splits)
      with False g show ?thesis using old(2) unfolding states_ok_def by metis
    qed
    with st show ?thesis unfolding states_ok_def by blast
  qed
  moreover have "heads_ok fid fs db'" using old(3) fmts head by (auto simp: heads_ok_def e)
  moreover have "all_linked db'"
    using old(5) ids(3) new_link_of [OF ids(1) names assms(3)] by (fastforce simp: all_linked_def e)
  moreover have "times_ok db'"
  proof -
    have "case gr_superseded g of None \<Rightarrow> True | Some t \<Rightarrow> cr_created r \<le> t"
      if g: "g \<in> set (gens db')" "l \<in> set (links db')" "r \<in> set (chunk_rows db')" "lk_gen l = gr_id g" "lk_chunk l = cr_id r" for g l r
    proof -
      obtain g0 where g0: "g0 \<in> set (gens db) \<or> g0 = new_gen b p" "g = act_gen b p g0" using g(1) by (auto simp: e)
      consider "gr_superseded g = Some (b_now b)" | "gr_superseded g = gr_superseded g0"
        by (cases "gr_superseded (act_gen b p g0) = gr_superseded g0") (auto simp: g0(2) act_gen_def split: if_splits)
      then show ?thesis
      proof cases
        case 1
        then show ?thesis using cb g(3) by (simp add: created_by_def)
      next
        case 2
        show ?thesis
        proof (cases "g0 = new_gen b p")
          case True
          with 2 show ?thesis by (simp add: new_gen_def)
        next
          case False
          with g0 have g1: "g0 \<in> set (gens db)" "gr_id g0 = lk_gen l" using g(4) by auto
          then have l: "l \<in> set (links db)"
            using g(2) ne [OF g1(1)] inherited_linkD(1) [of l b p db] new_linkD(1) [of l b p ids] by (auto simp: e)
          then obtain r0 where r0: "r0 \<in> set (chunk_rows db)" "cr_id r0 = lk_chunk l"
            using old(1) unfolding ids_ok_def by (metis imageE)
          have "r0 \<in> set (chunk_rows db')" using r0(1) by (simp add: e)
          moreover have "inj_on cr_id (set (chunk_rows db'))" using rows by (simp add: rows_ok_def distinct_map)
          ultimately have "r = r0" using g(3,5) r0(2) by (metis inj_onD)
          then have "r \<in> set (chunk_rows db)" using r0(1) by simp
          then show ?thesis using old(6) g1 l g(5) 2 by (auto simp: times_ok_def)
        qed
      qed
    qed
    then show ?thesis unfolding times_ok_def by blast
  qed
  ultimately show "data_ok fid sha fs db'" using rows old(4) by (simp add: data_ok_def)
  show "pointers_ok retiring db'"
  proof -
    have "\<exists>g \<in> set (gens db'). gr_id g = snd q \<and> gr_slot g = fst q \<and> gr_state g = G_active"
      if q: "q \<in> set (active_gens db)" "fst q \<noteq> b_slot b" for q
    proof -
      obtain g where g: "g \<in> set (gens db)" "gr_id g = snd q" "gr_slot g = fst q" "gr_state g = G_active"
        using ptr q(1) by (auto simp: pointers_ok_def)
      have "gr_id g \<noteq> b_id b" by (rule ne [OF g(1)])
      moreover have "\<not> (case p_parent p of None \<Rightarrow> False | Some h \<Rightarrow> gr_id g = gr_id h)"
        using parent g(1,3) q(2) by (auto simp: parent_ok_def split: option.splits)
      ultimately have "act_gen b p g = g" by (simp add: act_gen_def)
      then have "g \<in> set (gens db')" using g(1) by (auto simp: e image_iff intro!: bexI [of _ g])
      with g show ?thesis by blast
    qed
    moreover have "\<exists>g \<in> set (gens db'). gr_id g = b_id b \<and> gr_slot g = b_slot b \<and> gr_state g = G_active"
      by (rule bexI [of _ "act_gen b p (new_gen b p)"]) (simp_all add: e act_gen_def new_gen_def)
    moreover have "active_gens db' = point_to (b_slot b) (b_id b) (active_gens db)" by (simp add: e)
    ultimately have all: "\<exists>g \<in> set (gens db'). gr_id g = snd q \<and> gr_slot g = fst q \<and> gr_state g = G_active"
      if "q \<in> set (active_gens db')" for q
      using that by (cases q) (auto simp: point_to_def)
    have "snd q \<notin> set retiring" if "q \<in> set (active_gens db')" for q
      using that ptr fresh(3) by (auto simp: e point_to_def pointers_ok_def)
    moreover have "distinct (map fst (active_gens db'))"
      using ptr by (auto simp: e point_to_def pointers_ok_def distinct_map_filter)
    ultimately show ?thesis using all by (simp add: pointers_ok_def)
  qed
qed

section \<open>Retention\<close>

lemma purge_nothing: "all_linked db \<Longrightarrow> purge_txn now retention db = (db, [])"
  by (auto simp: purge_txn_def all_linked_def unreachable_def list_ex_iff filter_id_conv)

lemma inj_onI_distinct: "distinct (map f xs) \<Longrightarrow> x \<in> set xs \<Longrightarrow> y \<in> set xs \<Longrightarrow> f x = f y \<Longrightarrow> x = y"
  by (auto simp: distinct_map inj_on_def)

text \<open>A change of the generations alone that keeps ids and slots.\<close>

lemma regen_keeps:
  assumes "\<And>g. gr_id (f g) = gr_id g" "\<And>g. gr_slot (f g) = gr_slot g"
  shows "ids_ok (db\<lparr>gens := map f (gens db)\<rparr>) = ids_ok db"
    "parent_ok b p (db\<lparr>gens := map f (gens db)\<rparr>) = parent_ok b p db"
  using assms by (auto simp: ids_ok_def parent_ok_def image_image comp_def split: option.splits)

lemma row_not_head:
  assumes "rows_ok fid sha fs db" "heads_ok fid fs db" "r \<in> set (chunk_rows db)" "f \<in> set (format_rows db)"
  shows "fr_head f \<noteq> Some (cr_path r)"
proof
  assume "fr_head f = Some (cr_path r)"
  then have "cr_path r = head_path fid (fr_gen f)" using assms(2,4) by (simp add: heads_ok_def)
  moreover have "hd (cr_path r) = CHR ''c''" using assms(1,3) by (auto simp: rows_ok_def row_ok_def)
  ultimately show False by simp
qed

lemma cleanup_txn_ok:
  assumes c: "cleanup_txn now retention gid db = Some (db', paths)" and d: "data_ok fid sha fs db"
    and ex: "\<forall>g \<in> set (gens db). gr_id g = gid \<longrightarrow> expired now retention g" and ptr: "pointers_ok retiring db"
  shows "data_ok fid sha fs db'" "pointers_ok retiring db'" "\<forall>p \<in> set paths. unused db' p"
    "set (chunk_rows db') \<subseteq> set (chunk_rows db)"
proof -
  let ?D = "drop_gen gid db"
  let ?f = "\<lambda>g. if gr_parent g = Some gid then g\<lparr>gr_parent := None\<rparr> else g"
  have e: "db' = ?D\<lparr>chunk_rows := filter (\<lambda>r. \<not> unreachable now retention ?D r) (chunk_rows db)\<rparr>"
    "paths = map cr_path (filter (unreachable now retention ?D) (chunk_rows db)) @ head_paths db gid"
    and g: "\<exists>g \<in> set (gens db). gr_id g = gid" and np: "\<forall>q \<in> set (active_gens db). snd q \<noteq> gid"
    using c by (auto simp: cleanup_txn_def Let_def list_ex_iff purge_txn_def drop_gen_def split: if_splits)
  have old: "ids_ok db" "states_ok db" "rows_ok fid sha fs db" "heads_ok fid fs db" "hashes_ok sha fs" "all_linked db" "times_ok db"
    using d by (simp_all add: data_ok_def)
  have sub: "set (links db') \<subseteq> set (links db)" "set (chunk_rows db') \<subseteq> set (chunk_rows db)"
    "set (format_rows db') \<subseteq> set (format_rows db)"
    and gs: "gens db' = map ?f (filter (\<lambda>g. gr_id g \<noteq> gid) (gens db))"
    and le: "\<And>l. l \<in> set (links db') \<longleftrightarrow> l \<in> set (links db) \<and> lk_gen l \<noteq> gid"
    and fe: "\<And>f. f \<in> set (format_rows db') \<longleftrightarrow> f \<in> set (format_rows db) \<and> fr_gen f \<noteq> gid"
    by (auto simp: e drop_gen_def)
  have gl: "links ?D = links db'" by (simp add: e)
  show "set (chunk_rows db') \<subseteq> set (chunk_rows db)" by (rule sub(2))
  have gm: "map gr_id (gens db') = map gr_id (filter (\<lambda>g. gr_id g \<noteq> gid) (gens db))"
    by (simp add: gs comp_def if_distrib [of gr_id] cong: if_cong)
  have gid: "gr_id ` set (gens db') = gr_id ` set (gens db) - {gid}"
    using arg_cong [OF gm, of set] by auto
  have keep: "r \<in> set (chunk_rows db')" if "r \<in> set (chunk_rows db)" "l \<in> set (links db')" "lk_chunk l = cr_id r" for r l
    using that by (auto simp: e unreachable_def list_ex_iff drop_gen_def)
  have "all_linked db'"
  proof (unfold all_linked_def, intro ballI)
    fix r
    assume r: "r \<in> set (chunk_rows db')"
    show "\<exists>l \<in> set (links db'). lk_chunk l = cr_id r"
    proof (rule ccontr)
      assume no: "\<not> (\<exists>l \<in> set (links db'). lk_chunk l = cr_id r)"
      obtain l where l: "l \<in> set (links db)" "lk_chunk l = cr_id r"
        using old(6) r sub(2) by (auto simp: all_linked_def)
      then have lg: "lk_gen l = gid" using no le by blast
      obtain q where q: "q \<in> set (gens db)" "gr_id q = gid" using g by blast
      then have "expired now retention q" using ex by blast
      moreover have "gr_state q \<noteq> G_failed" using old(2) q(1) by (auto simp: states_ok_def)
      ultimately obtain t where t: "gr_superseded q = Some t" "t < now - retention"
        using old(2) q(1) by (auto simp: states_ok_def expired_def)
      have "cr_created r \<le> t"
        using old(7) q l lg t(1) r sub(2) unfolding times_ok_def by fastforce
      with t(2) have "unreachable now retention ?D r"
        using no by (auto simp: unreachable_def list_ex_iff gl)
      with r show False by (simp add: e)
    qed
  qed
  moreover have "ids_ok db'"
    unfolding ids_ok_def
  proof (intro conjI ballI)
    show "distinct (map gr_id (gens db'))"
      using old(1) by (simp add: gm ids_ok_def distinct_map_filter)
    show "is_generation_id (gr_id g)" if "g \<in> set (gens db')" for g
      using that old(1) by (auto simp: gs ids_ok_def)
    show "lk_gen l \<in> gr_id ` set (gens db')" if "l \<in> set (links db')" for l
      using that old(1) le by (auto simp: gid ids_ok_def)
    show "lk_chunk l \<in> cr_id ` set (chunk_rows db')" if "l \<in> set (links db')" for l
    proof -
      have "l \<in> set (links db)" using that le by blast
      then have "lk_chunk l \<in> cr_id ` set (chunk_rows db)" using old(1) by (simp add: ids_ok_def)
      then obtain r where "lk_chunk l = cr_id r" "r \<in> set (chunk_rows db)" by (rule imageE)
      with keep [OF this(2) that this(1)] show ?thesis by simp
    qed
    show "fr_gen f \<in> gr_id ` set (gens db')" if "f \<in> set (format_rows db')" for f
      using that old(1) fe by (auto simp: gid ids_ok_def)
  qed
  moreover have "states_ok db'"
    unfolding states_ok_def
  proof (intro conjI ballI impI)
    show "gr_state q = G_active \<and> gr_superseded q = None \<or> gr_state q = G_superseded \<and> gr_superseded q \<noteq> None"
      if "q \<in> set (gens db')" for q using that old(2) by (auto simp: gs states_ok_def)
    show "q = q'" if q: "q \<in> set (gens db')" "q' \<in> set (gens db')"
      "gr_state q = G_active \<and> gr_state q' = G_active \<and> gr_slot q = gr_slot q'" for q q'
    proof -
      obtain h h' where h: "h \<in> set (gens db)" "h' \<in> set (gens db)" "q = ?f h" "q' = ?f h'" using q(1,2) by (auto simp: gs)
      then have "gr_state h = gr_state q \<and> gr_slot h = gr_slot q" "gr_state h' = gr_state q' \<and> gr_slot h' = gr_slot q'"
        by simp_all
      then have "h = h'" using q(3) h(1,2) old(2) unfolding states_ok_def by (metis (no_types))
      with h show ?thesis by simp
    qed
  qed
  moreover have "rows_ok fid sha fs db'"
    using old(3) by (auto simp: rows_ok_def e drop_gen_def distinct_map_filter)
  moreover have "heads_ok fid fs db'" using old(4) sub(3) by (auto simp: heads_ok_def)
  moreover have "times_ok db'"
    unfolding times_ok_def
  proof (intro ballI impI)
    fix q l r
    assume a: "q \<in> set (gens db')" "l \<in> set (links db')" "r \<in> set (chunk_rows db')" "lk_gen l = gr_id q \<and> lk_chunk l = cr_id r"
    obtain h where h: "h \<in> set (gens db)" "q = ?f h" using a(1) by (auto simp: gs)
    then have "gr_id q = gr_id h" "gr_superseded q = gr_superseded h" by simp_all
    then show "case gr_superseded q of None \<Rightarrow> True | Some t \<Rightarrow> cr_created r \<le> t"
      using old(7) h(1) a(4) subsetD [OF sub(1) a(2)] subsetD [OF sub(2) a(3)] by (auto simp: times_ok_def)
  qed
  ultimately show "data_ok fid sha fs db'" using old(5) by (simp add: data_ok_def)
  show "pointers_ok retiring db'"
    unfolding pointers_ok_def
  proof (intro conjI ballI)
    show "distinct (map fst (active_gens db'))" using ptr by (simp add: e drop_gen_def pointers_ok_def)
    fix q
    assume q: "q \<in> set (active_gens db')"
    then have q': "q \<in> set (active_gens db)" by (simp add: e drop_gen_def)
    show "snd q \<notin> set retiring" using ptr q' by (simp add: pointers_ok_def)
    obtain h where h: "h \<in> set (gens db)" "gr_id h = snd q" "gr_slot h = fst q" "gr_state h = G_active"
      using ptr q' by (auto simp: pointers_ok_def)
    then have "?f h \<in> set (gens db')" using np q' by (auto simp: gs)
    with h show "\<exists>g \<in> set (gens db'). gr_id g = snd q \<and> gr_slot g = fst q \<and> gr_state g = G_active"
      by (intro bexI [of _ "?f h"]) simp_all
  qed
  show "\<forall>p \<in> set paths. unused db' p"
  proof
    fix p
    assume "p \<in> set paths"
    then consider r where "r \<in> set (chunk_rows db)" "unreachable now retention ?D r" "p = cr_path r"
      | f where "f \<in> set (format_rows db)" "fr_gen f = gid" "fr_head f = Some p"
      by (auto simp: e head_paths_def split: if_splits option.splits)
    then show "unused db' p"
    proof cases
      case 1
      have "cr_path r' \<noteq> p" if "r' \<in> set (chunk_rows db')" for r'
        using that 1 old(3) inj_onI_distinct [of cr_path "chunk_rows db" r r'] by (auto simp: rows_ok_def e)
      moreover have "fr_head f \<noteq> Some p" if "f \<in> set (format_rows db')" for f
        using row_not_head [OF old(3,4) 1(1)] that sub(3) 1(3) by blast
      ultimately show ?thesis by (auto simp: unused_def)
    next
      case 2
      then have p: "p = head_path fid gid" using old(4) by (auto simp: heads_ok_def)
      have "cr_path r \<noteq> p" if "r \<in> set (chunk_rows db')" for r
        using row_not_head [OF old(3,4) _ 2(1)] that sub(2) 2(3) by blast
      moreover have "fr_head f' \<noteq> Some p" if "f' \<in> set (format_rows db')" for f'
        using that fe p old(4) by (auto simp: heads_ok_def)
      ultimately show ?thesis by (auto simp: unused_def)
    qed
  qed
qed

definition mark_gen :: "int \<Rightarrow> string \<Rightarrow> gen_row \<Rightarrow> gen_row" where
  "mark_gen now gid g = (if gr_id g = gid \<and> gr_state g \<in> {G_active, G_ready, G_building}
     then g\<lparr>gr_state := G_superseded,
            gr_superseded := Some (case gr_superseded g of None \<Rightarrow> now | Some t \<Rightarrow> t)\<rparr> else g)"

lemma mark_gen_keeps [simp]: "gr_id (mark_gen now gid g) = gr_id g" "gr_slot (mark_gen now gid g) = gr_slot g"
  by (simp_all add: mark_gen_def)

lemma retire_mark_eq: "retire_mark now gid db = db\<lparr>gens := map (mark_gen now gid) (gens db)\<rparr>"
  by (simp add: retire_mark_def mark_gen_def [abs_def])

lemma pointerD:
  assumes "pointers_ok retiring db" "q \<in> set (active_gens db)"
  obtains g where "g \<in> set (gens db)" "gr_id g = snd q" "gr_slot g = fst q" "gr_state g = G_active"
  using assms unfolding pointers_ok_def by blast

lemma retire_mark_ok:
  assumes d: "data_ok fid sha fs db" and ptr: "pointers_ok (gid # ids) db" and cb: "created_by now db"
  shows "data_ok fid sha fs (retire_mark now gid db)" "pointers_ok ids (retire_mark now gid db)"
proof -
  let ?db = "retire_mark now gid db"
  have old: "ids_ok db" "states_ok db" "rows_ok fid sha fs db" "heads_ok fid fs db" "hashes_ok sha fs" "all_linked db" "times_ok db"
    using d by (simp_all add: data_ok_def)
  have "ids_ok ?db" unfolding retire_mark_eq using old(1) by (subst regen_keeps(1)) simp_all
  moreover have "states_ok ?db"
    unfolding states_ok_def
  proof (intro conjI ballI impI)
    show "gr_state q = G_active \<and> gr_superseded q = None \<or> gr_state q = G_superseded \<and> gr_superseded q \<noteq> None"
      if "q \<in> set (gens ?db)" for q
      using that old(2) by (auto simp: retire_mark_eq states_ok_def mark_gen_def)
    fix q q'
    assume q: "q \<in> set (gens ?db)" "q' \<in> set (gens ?db)" "gr_state q = G_active \<and> gr_state q' = G_active \<and> gr_slot q = gr_slot q'"
    have "q \<in> set (gens db)" if "q \<in> set (gens ?db)" "gr_state q = G_active" for q
      using that by (auto simp: retire_mark_eq mark_gen_def split: if_splits)
    with q old(2) show "q = q'" unfolding states_ok_def by (metis (no_types))
  qed
  moreover have "times_ok ?db"
    using old(7) cb by (fastforce simp: times_ok_def retire_mark_eq mark_gen_def created_by_def split: option.splits)
  ultimately show "data_ok fid sha fs ?db"
    using old by (simp add: data_ok_def rows_ok_def heads_ok_def all_linked_def retire_mark_eq)
  have "\<exists>g \<in> set (gens ?db). gr_id g = snd q \<and> gr_slot g = fst q \<and> gr_state g = G_active" if q: "q \<in> set (active_gens db)" for q
  proof -
    obtain g where g: "g \<in> set (gens db)" "gr_id g = snd q" "gr_slot g = fst q" "gr_state g = G_active"
      using pointerD [OF ptr q] by blast
    moreover have "snd q \<noteq> gid" using ptr q by (simp add: pointers_ok_def)
    ultimately have "mark_gen now gid g = g" by (simp add: mark_gen_def)
    then have "g \<in> set (gens ?db)" using g(1) unfolding retire_mark_eq by (simp add: rev_image_eqI)
    with g show ?thesis by blast
  qed
  with ptr show "pointers_ok ids ?db" by (simp add: pointers_ok_def retire_mark_eq)
qed

lemma retire_pointers_ok:
  assumes r: "retire_pointers keep db = (db', ids)" and ptr: "pointers_ok retiring db" and d: "data_ok fid sha fs db"
  shows "data_ok fid sha fs db'" "pointers_ok (retiring @ ids) db'" "set ids \<subseteq> gr_id ` set (gens db)"
    "gens db' = gens db" "chunk_rows db' = chunk_rows db" "format_rows db' = format_rows db"
proof -
  have e: "db' = db\<lparr>active_gens := filter (\<lambda>q. fst (fst q) = keep) (active_gens db)\<rparr>"
    "ids = map snd (filter (\<lambda>q. fst (fst q) \<noteq> keep) (active_gens db))"
    using r by (simp_all add: retire_pointers_def)
  show "gens db' = gens db" "chunk_rows db' = chunk_rows db" "format_rows db' = format_rows db" by (simp_all add: e)
  show "data_ok fid sha fs db'"
    using d by (simp add: e data_ok_def ids_ok_def states_ok_def rows_ok_def heads_ok_def all_linked_def times_ok_def)
  show "set ids \<subseteq> gr_id ` set (gens db)"
  proof
    fix x
    assume "x \<in> set ids"
    then obtain q where q: "q \<in> set (active_gens db)" "x = snd q" by (auto simp: e)
    from pointerD [OF ptr q(1)] q(2) show "x \<in> gr_id ` set (gens db)" by (metis imageI)
  qed
  have "q = q'" if q: "q \<in> set (active_gens db)" "q' \<in> set (active_gens db)" "snd q = snd q'" for q q'
  proof -
    obtain g g' where g: "g \<in> set (gens db)" "gr_id g = snd q" "gr_slot g = fst q" "g' \<in> set (gens db)" "gr_id g' = snd q'" "gr_slot g' = fst q'"
      using pointerD [OF ptr q(1)] pointerD [OF ptr q(2)] by metis
    then have "g = g'" using d q(3) inj_onI_distinct [of gr_id "gens db" g g'] by (simp add: data_ok_def ids_ok_def)
    with g q(3) show ?thesis by (simp add: prod_eq_iff)
  qed
  then have u: "\<And>q q'. \<lbrakk>q \<in> set (active_gens db); q' \<in> set (active_gens db); snd q = snd q'\<rbrakk> \<Longrightarrow> q = q'" .
  have "snd q \<notin> set ids" if q: "q \<in> set (active_gens db')" for q
  proof
    assume "snd q \<in> set ids"
    then obtain q' where "q' \<in> set (active_gens db)" "fst (fst q') \<noteq> keep" "snd q' = snd q" by (auto simp: e)
    moreover have "q \<in> set (active_gens db)" "fst (fst q) = keep" using q by (simp_all add: e)
    ultimately show False using u by metis
  qed
  then show "pointers_ok (retiring @ ids) db'"
    using ptr by (auto simp: pointers_ok_def e distinct_map_filter)
qed

lemma getActive_slot:
  assumes "getActiveChunkGeneration db slot = Some g" "pointers_ok retiring db" "ids_ok db"
  shows "\<forall>g' \<in> set (gens db). gr_id g' = gr_id g \<longrightarrow> gr_slot g' = slot"
proof (intro ballI impI)
  fix g'
  assume g': "g' \<in> set (gens db)" "gr_id g' = gr_id g"
  obtain gid where "map_of (active_gens db) slot = Some gid" and i: "gr_id g = gid"
    using assms(1) by (auto simp: getActiveChunkGeneration_def find_Some_iff split: option.splits)
  then have "(slot, gid) \<in> set (active_gens db)" by (simp add: map_of_SomeD)
  from pointerD [OF assms(2) this] obtain h where h: "h \<in> set (gens db)" "gr_id h = gid" "gr_slot h = slot"
    by (metis fst_conv snd_conv)
  then have "g' = h" using g' i assms(3) inj_onI_distinct [of gr_id "gens db" g' h] by (simp add: ids_ok_def)
  with h show "gr_slot g' = slot" by simp
qed

section \<open>Every step keeps the invariant\<close>

lemma phase_ok_cong:
  assumes "s_db s' = s_db s" "s_files s' = s_files s" "s_now s' = s_now s" "s_retiring s' = s_retiring s"
  shows "phase_ok fid sha s' ph = phase_ok fid sha s ph"
  using assms by (cases ph) simp_all

lemma expired_mono: "\<lbrakk>expired now retention g; now \<le> t\<rbrakk> \<Longrightarrow> expired t retention g"
  by (auto simp: expired_def split: option.splits)

lemma created_by_mono: "\<lbrakk>created_by t db; t \<le> t'\<rbrakk> \<Longrightarrow> created_by t' db"
  by (auto simp: created_by_def)

lemma data_okD:
  assumes "data_ok fid sha fs db"
  shows "ids_ok db" "states_ok db" "rows_ok fid sha fs db" "heads_ok fid fs db" "hashes_ok sha fs" "all_linked db" "times_ok db"
  using assms by (simp_all add: data_ok_def)

lemma unused_iff: "unused db p \<longleftrightarrow> (\<forall>r \<in> set (chunk_rows db). cr_path r \<noteq> p) \<and> (\<forall>f \<in> set (format_rows db). fr_head f \<noteq> Some p)"
  by (auto simp: unused_def image_iff)

lemma format_gen:
  assumes "ids_ok db" "f \<in> set (format_rows db)"
  obtains g where "g \<in> set (gens db)" "gr_id g = fr_gen f"
proof -
  have "fr_gen f \<in> gr_id ` set (gens db)" using assms by (simp add: ids_ok_def)
  then show ?thesis using that by (metis imageE)
qed

lemma head_unused:
  assumes "data_ok fid sha fs db" "gid \<notin> gr_id ` set (gens db)"
  shows "unused db (head_path fid gid)"
proof -
  note d = data_okD [OF assms(1)]
  have "cr_path r \<noteq> head_path fid gid" if "r \<in> set (chunk_rows db)" for r
  proof
    assume "cr_path r = head_path fid gid"
    moreover have "hd (cr_path r) = CHR ''c''" using that d(3) by (auto simp: rows_ok_def row_ok_def)
    ultimately show False by simp
  qed
  moreover have "fr_head f \<noteq> Some (head_path fid gid)" if "f \<in> set (format_rows db)" for f
  proof
    assume "fr_head f = Some (head_path fid gid)"
    then have "fr_gen f = gid" using d(4) that by (auto simp: heads_ok_def)
    then show False using assms(2) d(1) that unfolding ids_ok_def by metis
  qed
  ultimately show ?thesis by (simp add: unused_iff)
qed

lemma start_ok:
  assumes "sys_ok fid sha s" "plan_build b reusable (s_db s) = Inr p" "b_now b = s_now s" "is_generation_id (b_id b)"
    "b_id b \<notin> gr_id ` set (gens (s_db s))" "b_id b \<notin> set (s_retiring s)"
  shows "phase_ok fid sha s (Building b p [] None)"
proof -
  have "p_parent p = getActiveChunkGeneration (s_db s) (b_slot b)"
    using assms(2) by (auto simp: plan_build_def Let_def split: if_splits)
  moreover have "pointers_ok (s_retiring s) (s_db s)" "ids_ok (s_db s)"
    using assms(1) by (simp_all add: sys_ok_def data_ok_def)
  ultimately have "parent_ok b p (s_db s)"
    using getActive_slot by (simp add: parent_ok_def split: option.split)
  with assms show ?thesis by (simp add: sys_ok_def created_paths_def)
qed

lemma write_chunk_ok:
  assumes s: "sys_ok fid sha s" "s_phase s = Building b p cs None" and sha: "\<And>x. is_content_hash (sha x)"
    and g: "fst (b_slot b) \<in> set SNAPSHOT_WINDOWS" "key \<in> set (p_affected p)" "format \<in> set (b_formats b)"
      "(format, key) \<notin> set (map gc_name cs)"
  shows "sys_ok fid sha (write_chunk fid sha b p cs key format x n s)"
proof -
  obtain new fs where f: "finishChunkWriters fid sha (fst (b_slot b)) (p_count p) key format x n (s_files s) = (new, fs)"
    by (cases "finishChunkWriters fid sha (fst (b_slot b)) (p_count p) key format x n (s_files s)")
  have d: "data_ok fid sha (s_files s) (s_db s)" using s(1) by (simp add: sys_ok_def)
  note w = finishChunkWriters_ok [OF f d sha g(1,3,2)]
  have ph: "phase_ok fid sha s (Building b p cs None)" using s by (simp add: sys_ok_def)
  have "\<forall>c \<in> set (cs @ new). chunk_ok fid sha fs b p c"
    using ph w(3) chunk_ok_extend [of fid sha "s_files s" b p _ fs, OF _ w(2)] by auto
  moreover have "distinct (map gc_name (cs @ new))"
    using ph w(3,4) g(4) by auto
  moreover have "\<forall>q \<in> set (created_paths (cs @ new) None). unused (s_db s) q"
    using ph w(3) by (auto simp: created_paths_def)
  moreover have "data_ok fid sha fs (s_db s)" by (rule data_ok_extend [OF d w(1,2)])
  ultimately show ?thesis
    using s(1) ph by (simp add: sys_ok_def write_chunk_def f)
qed

lemma write_head_ok:
  assumes s: "sys_ok fid sha s" "s_phase s = Building b p cs None"
  shows "sys_ok fid sha (s\<lparr>s_files := (s_files s)(head_path fid (b_id b) := Some x),
     s_phase := Building b p cs (Some (head_path fid (b_id b)))\<rparr>)"
proof -
  let ?h = "head_path fid (b_id b)" and ?fs = "(s_files s)(head_path fid (b_id b) := Some x)"
  have d: "data_ok fid sha (s_files s) (s_db s)" using s(1) by (simp add: sys_ok_def)
  have ph: "phase_ok fid sha s (Building b p cs None)" using s by (simp add: sys_ok_def)
  then have u: "unused (s_db s) ?h" by (intro head_unused [OF d]) simp
  have "data_ok fid sha ?fs (s_db s)"
    by (rule data_ok_files [OF d]) (use d u in \<open>auto simp: data_ok_def hashes_ok_def heads_ok_def unused_iff\<close>)
  moreover have "\<forall>c \<in> set cs. chunk_ok fid sha ?fs b p c"
    using ph by (auto simp: chunk_ok_def)
  moreover have "\<forall>q \<in> set (created_paths cs (Some ?h)). unused (s_db s) q"
    using ph u by (auto simp: created_paths_def)
  ultimately show ?thesis using s(1) ph by (simp add: sys_ok_def)
qed

lemma finish_ok:
  assumes s: "sys_ok fid sha s" "s_phase s = Building b p cs head"
  shows "sys_ok fid sha (finish_build sha b p cs head s)"
proof -
  have ph: "phase_ok fid sha s (Building b p cs head)" using s by (simp add: sys_ok_def)
  show ?thesis
  proof (cases "buildTxn sha b p cs head (s_db s)")
    case (Inl e)
    then show ?thesis using s(1) ph by (simp add: finish_build_def sys_ok_def)
  next
    case (Inr db)
    have "data_ok fid sha (s_files s) db" "pointers_ok (s_retiring s) db" "created_by (b_now b) db"
      using buildTxn_ok [OF Inr, of fid "s_files s" "s_retiring s"] s(1) ph by (simp_all add: sys_ok_def)
    moreover have "b_now b \<le> s_now s" using ph by simp
    ultimately show ?thesis
      using s(1) Inr by (auto simp: finish_build_def sys_ok_def intro: created_by_mono)
  qed
qed

lemma cleanup_ok:
  assumes s: "sys_ok fid sha s" "s_phase s = Cleaning gid retention"
    and c: "cleanup_txn (s_now s) retention gid (s_db s) = Some (db, paths)"
  shows "sys_ok fid sha (s\<lparr>s_db := db, s_phase := Unlinking paths\<rparr>)"
proof -
  have "data_ok fid sha (s_files s) (s_db s)" "pointers_ok (s_retiring s) (s_db s)"
    "\<forall>g \<in> set (gens (s_db s)). gr_id g = gid \<longrightarrow> expired (s_now s) retention g"
    using s by (simp_all add: sys_ok_def)
  from cleanup_txn_ok [OF c this(1,3,2)] s(1) show ?thesis
    by (auto simp: sys_ok_def created_by_def)
qed

lemma unlink_ok:
  assumes "sys_ok fid sha s" "unused (s_db s) p" "\<And>b pl cs head. ph' \<noteq> Building b pl cs head"
    "phase_ok fid sha s ph'"
  shows "sys_ok fid sha (s\<lparr>s_files := removeFileQuiet p (s_files s), s_phase := ph'\<rparr>)"
proof -
  have "phase_ok fid sha (s\<lparr>s_files := removeFileQuiet p (s_files s), s_phase := ph'\<rparr>) ph'"
    using assms(3,4) by (cases ph') simp_all
  then show ?thesis using assms(1,2) data_ok_remove by (simp add: sys_ok_def)
qed

text \<open>What the orphan collector may delete is unused.\<close>

lemma gc_refs_heads:
  assumes "f \<in> set (format_rows db)" "fr_head f = Some p"
  shows "norm_stored p \<in> set (ref_paths (gc_refs db))"
proof -
  have "p \<in> set (case fr_head f of None \<Rightarrow> [] | Some p \<Rightarrow> [p])" by (simp add: assms(2))
  with assms(1) show ?thesis by (auto simp: gc_refs_def loadFeedReferences_def)
qed

lemma gc_refs_ok:
  assumes "data_ok fid sha fs db"
  shows "\<forall>r \<in> set (chunk_rows db). cr_path r \<in> set (ref_paths (gc_refs db))"
    "\<forall>f \<in> set (format_rows db). \<forall>p. fr_head f = Some p \<longrightarrow> p \<in> set (ref_paths (gc_refs db))"
proof -
  note d = data_okD [OF assms]
  have "norm_stored (cr_path r) = cr_path r" if "r \<in> set (chunk_rows db)" for r
    using that d(3) norm_chunk_path unfolding rows_ok_def row_ok_def by metis
  then show "\<forall>r \<in> set (chunk_rows db). cr_path r \<in> set (ref_paths (gc_refs db))"
    by (force simp: gc_refs_def loadFeedReferences_def)
  have "norm_stored p = p" if f: "f \<in> set (format_rows db)" "fr_head f = Some p" for f p
  proof -
    have p: "p = head_path fid (fr_gen f)" using f d(4) by (simp add: heads_ok_def)
    obtain g where "g \<in> set (gens db)" "gr_id g = fr_gen f" by (rule format_gen [OF d(1) f(1)])
    then have "is_generation_id (fr_gen f)" using d(1) unfolding ids_ok_def by metis
    with p show ?thesis by simp
  qed
  then show "\<forall>f \<in> set (format_rows db). \<forall>p. fr_head f = Some p \<longrightarrow> p \<in> set (ref_paths (gc_refs db))"
    using gc_refs_heads [of _ db] by metis
qed

lemma gc_delete_unused:
  assumes "phase_ok fid sha s (Collecting refs)"
    "classify_file (\<lambda>_. True) (\<lambda>n. n = fid) (\<lambda>_. refs) cutoff f = DELETE_ELIGIBLE"
  shows "unused (s_db s) (sf_rel f)"
proof -
  have "sf_rel f \<notin> set (ref_paths refs)"
    using assms(2) by (auto simp: classify_file_def is_referenced_def split: if_splits option.splits)
  then show ?thesis using assms(1) by (auto simp: unused_iff)
qed

lemma cleaning_mark:
  assumes "\<forall>g \<in> set (gens db). gr_id g = gid \<longrightarrow> expired now retention g"
  shows "\<forall>g \<in> set (gens (retire_mark now' gid' db)). gr_id g = gid \<longrightarrow> expired now retention g"
proof (intro ballI impI)
  fix g
  assume g: "g \<in> set (gens (retire_mark now' gid' db))" "gr_id g = gid"
  then obtain h where h: "h \<in> set (gens db)" "g = mark_gen now' gid' h" by (auto simp: retire_mark_eq)
  then have "expired now retention h" using assms g(2) by simp
  moreover then have "mark_gen now' gid' h = h" by (auto simp: mark_gen_def expired_def)
  ultimately show "expired now retention g" using h(2) by simp
qed

lemma retire_mark_phase:
  assumes "phase_ok fid sha s ph" "s_retiring s = gid # ids"
  shows "phase_ok fid sha (s\<lparr>s_db := retire_mark now gid (s_db s), s_retiring := ids\<rparr>) ph"
proof (cases ph)
  case (Building b p cs head)
  have "parent_ok b p (retire_mark now gid (s_db s)) = parent_ok b p (s_db s)"
    unfolding retire_mark_eq by (rule regen_keeps(2)) simp_all
  then show ?thesis
    using assms Building by (simp add: retire_mark_eq image_image unused_iff created_by_def)
next
  case (Cleaning gid' retention)
  then show ?thesis using assms(1) cleaning_mark by simp
qed (use assms(1) in \<open>simp_all add: retire_mark_eq unused_iff\<close>)

lemma retire_pointers_phase:
  assumes "phase_ok fid sha s ph" "retire_pointers keep (s_db s) = (db, ids)" "set ids \<subseteq> gr_id ` set (gens (s_db s))"
    "gens db = gens (s_db s)" "chunk_rows db = chunk_rows (s_db s)" "format_rows db = format_rows (s_db s)"
  shows "phase_ok fid sha (s\<lparr>s_db := db, s_retiring := s_retiring s @ ids\<rparr>) ph"
proof (cases ph)
  case (Building b p cs head)
  have "parent_ok b p db = parent_ok b p (s_db s)" unfolding parent_ok_def assms(4) ..
  with Building show ?thesis using assms by (auto simp: unused_iff created_by_def)
qed (use assms in \<open>simp_all add: unused_iff\<close>)

lemma sys_ok_other:
  assumes "sys_ok fid sha s" "s_db s' = s_db s" "s_files s' = s_files s" "s_now s' = s_now s" "s_retiring s' = s_retiring s"
    "s_purging s' = s_purging s" "s_phase s' = ph" "phase_ok fid sha s ph"
  shows "sys_ok fid sha s'"
  using assms phase_ok_cong [of s' s fid sha ph] by (simp add: sys_ok_def)

lemma sys_ok_phase: "\<lbrakk>sys_ok fid sha s; phase_ok fid sha s ph\<rbrakk> \<Longrightarrow> sys_ok fid sha (s\<lparr>s_phase := ph\<rparr>)"
  by (rule sys_ok_other [where ph = ph]) simp_all

lemma tick_ok:
  assumes "sys_ok fid sha s" "s_now s \<le> t"
  shows "sys_ok fid sha (s\<lparr>s_now := t\<rparr>)"
proof -
  have "phase_ok fid sha (s\<lparr>s_now := t\<rparr>) (s_phase s)"
    using assms by (cases "s_phase s") (auto simp: sys_ok_def intro: expired_mono)
  then show ?thesis using assms by (auto simp: sys_ok_def intro: created_by_mono)
qed

theorem act_keeps:
  assumes "sys_ok fid sha s" "act fid sha a s = Some s'" "\<And>x. is_content_hash (sha x)"
  shows "sys_ok fid sha s'"
proof (cases a)
  case (StartBuild b reusable)
  then obtain p where p: "plan_build b reusable (s_db s) = Inr p" "s' = s\<lparr>s_phase := Building b p [] None\<rparr>"
    "b_now b = s_now s" "is_generation_id (b_id b)" "\<forall>g \<in> set (gens (s_db s)). gr_id g \<noteq> b_id b" "b_id b \<notin> set (s_retiring s)"
    using assms(2) by (auto simp: list_ex_iff split: sum.splits if_splits)
  have "b_id b \<notin> gr_id ` set (gens (s_db s))" using p(5) by auto
  note st = start_ok [OF assms(1) p(1,3,4) this p(6)]
  show ?thesis unfolding p(2) by (rule sys_ok_phase [OF assms(1) st])
next
  case (WriteChunk key format x n)
  then obtain b p cs where "s_phase s = Building b p cs None" "s' = write_chunk fid sha b p cs key format x n s"
    "fst (b_slot b) \<in> set SNAPSHOT_WINDOWS" "key \<in> set (p_affected p)" "format \<in> set (b_formats b)"
    "(format, key) \<notin> set (map gc_name cs)"
    using assms(2) by (auto split: phase.splits option.splits if_splits)
  then show ?thesis using write_chunk_ok [OF assms(1) _ assms(3)] by simp
next
  case (WriteHead x)
  then show ?thesis
    using assms(2) write_head_ok [OF assms(1)] by (auto split: phase.splits option.splits if_splits)
next
  case FinishBuild
  then show ?thesis
    using assms(2) finish_ok [OF assms(1)] by (auto split: phase.splits if_splits)
next
  case FailBuild
  then obtain b p cs head where e: "s_phase s = Building b p cs head" "s' = s\<lparr>s_phase := Discarding (created_paths cs head)\<rparr>"
    using assms(2) by (auto split: phase.splits)
  then have "phase_ok fid sha s (Building b p cs head)" using assms(1) by (simp add: sys_ok_def)
  then have "phase_ok fid sha s (Discarding (created_paths cs head))" by simp
  then show ?thesis unfolding e(2) by (rule sys_ok_phase [OF assms(1)])
next
  case (LockCleanup gid retention)
  then have e: "\<exists>g \<in> set (gens (s_db s)). gr_id g = gid \<and> expired (s_now s) retention g" "s' = s\<lparr>s_phase := Cleaning gid retention\<rparr>"
    using assms(2) by (auto simp: list_ex_iff split: if_splits)
  have "distinct (map gr_id (gens (s_db s)))" using assms(1) by (simp add: sys_ok_def data_ok_def ids_ok_def)
  then have "phase_ok fid sha s (Cleaning gid retention)"
    using e(1) inj_onI_distinct [of gr_id "gens (s_db s)"] by auto
  then show ?thesis unfolding e(2) by (rule sys_ok_phase [OF assms(1)])
next
  case CleanupTxn
  then obtain gid retention where "s_phase s = Cleaning gid retention" using assms(2) by (auto split: phase.splits)
  with CleanupTxn show ?thesis
    using assms(2) cleanup_ok [OF assms(1)] sys_ok_phase [OF assms(1), of Idle]
    by (auto split: option.splits)
next
  case Unlink
  then consider p ps where "s_phase s = Discarding (p # ps)" "s' = s\<lparr>s_files := removeFileQuiet p (s_files s), s_phase := Discarding ps\<rparr>"
    | p ps where "s_phase s = Unlinking (p # ps)" "s' = s\<lparr>s_files := removeFileQuiet p (s_files s), s_phase := Unlinking ps\<rparr>"
    using assms(2) by (auto split: phase.splits list.splits)
  then show ?thesis
  proof cases
    case 1
    moreover have "phase_ok fid sha s (Discarding (p # ps))" using assms(1) 1(1) by (simp add: sys_ok_def)
    ultimately show ?thesis using unlink_ok [OF assms(1), of p "Discarding ps"] by simp
  next
    case 2
    moreover have "phase_ok fid sha s (Unlinking (p # ps))" using assms(1) 2(1) by (simp add: sys_ok_def)
    ultimately show ?thesis using unlink_ok [OF assms(1), of p "Unlinking ps"] by simp
  qed
next
  case StartGc
  then have "s' = s\<lparr>s_phase := Collecting (gc_refs (s_db s))\<rparr>" using assms(2) by (auto split: if_splits)
  moreover have "phase_ok fid sha s (Collecting (gc_refs (s_db s)))"
    using gc_refs_ok [of fid sha "s_files s" "s_db s"] assms(1) by (simp add: sys_ok_def)
  ultimately show ?thesis using sys_ok_phase [OF assms(1)] by simp
next
  case (GcDelete f cutoff)
  then obtain refs where e: "s_phase s = Collecting refs" "s' = s\<lparr>s_files := removeFileQuiet (sf_rel f) (s_files s)\<rparr>"
    "classify_file (\<lambda>_. True) (\<lambda>n. n = fid) (\<lambda>_. refs) cutoff f = DELETE_ELIGIBLE"
    using assms(2) by (auto split: phase.splits if_splits)
  have ph: "phase_ok fid sha s (Collecting refs)" using assms(1) e(1) by (simp add: sys_ok_def)
  have "s' = s\<lparr>s_files := removeFileQuiet (sf_rel f) (s_files s), s_phase := Collecting refs\<rparr>" using e(1,2) by simp
  then show ?thesis using unlink_ok [OF assms(1) gc_delete_unused [OF ph e(3)] _ ph] by simp
next
  case Done
  then have "s' = s\<lparr>s_phase := Idle\<rparr>" using assms(2) by (auto split: phase.splits list.splits)
  then show ?thesis using sys_ok_phase [OF assms(1), of Idle] by simp
next
  case Crash
  then have "s' = s\<lparr>s_phase := Idle, s_pins := (\<lambda>_. 0)\<rparr>" using assms(2) by simp
  then show ?thesis by (intro sys_ok_other [OF assms(1), where ph = Idle]) simp_all
next
  case (PurgeTxn retention)
  have "purge_txn (s_now s) retention (s_db s) = (s_db s, [])"
    using assms(1) by (intro purge_nothing) (simp add: sys_ok_def data_ok_def)
  then have "s' = s" using assms(2) PurgeTxn by simp
  then show ?thesis using assms(1) by simp
next
  case PurgeUnlink
  then show ?thesis using assms(1,2) by (auto simp: sys_ok_def)
next
  case (RetirePointers keep)
  obtain db ids where r: "retire_pointers keep (s_db s) = (db, ids)" by (cases "retire_pointers keep (s_db s)")
  have "pointers_ok (s_retiring s) (s_db s)" "data_ok fid sha (s_files s) (s_db s)" "phase_ok fid sha s (s_phase s)"
    using assms(1) by (simp_all add: sys_ok_def)
  note k = retire_pointers_ok [OF r this(1,2)] and q = retire_pointers_phase [OF this(3) r]
  have "created_by (s_now s) db" using assms(1) k(5) by (simp add: sys_ok_def created_by_def)
  then show ?thesis using assms(1,2) RetirePointers r k q by (auto simp: sys_ok_def)
next
  case RetireMark
  then obtain gid ids where r: "s_retiring s = gid # ids" "s' = s\<lparr>s_db := retire_mark (s_now s) gid (s_db s), s_retiring := ids\<rparr>"
    using assms(2) by (auto split: list.splits)
  have "pointers_ok (gid # ids) (s_db s)" "data_ok fid sha (s_files s) (s_db s)" "phase_ok fid sha s (s_phase s)"
    "created_by (s_now s) (s_db s)"
    using assms(1) r(1) by (simp_all add: sys_ok_def)
  note k = retire_mark_ok [OF this(2,1,4)] and q = retire_mark_phase [OF this(3) r(1)]
  have "created_by (s_now s) (retire_mark (s_now s) gid (s_db s))"
    using assms(1) by (simp add: sys_ok_def created_by_def retire_mark_eq)
  then show ?thesis using assms(1) r(2) k q by (simp add: sys_ok_def)
next
  case RetireLost
  have "phase_ok fid sha (s\<lparr>s_retiring := []\<rparr>) (s_phase s)"
    using assms(1) by (cases "s_phase s") (simp_all add: sys_ok_def)
  moreover have "pointers_ok [] (s_db s)" using assms(1) by (simp add: sys_ok_def pointers_ok_def)
  moreover have "s' = s\<lparr>s_retiring := []\<rparr>" using assms(2) RetireLost by simp
  ultimately show ?thesis using assms(1) by (simp add: sys_ok_def)
next
  case (Pin gid)
  then show ?thesis using assms(1,2) by (intro sys_ok_other [OF assms(1), where ph = "s_phase s"]) (auto simp: sys_ok_def)
next
  case (Unpin gid)
  then show ?thesis using assms(1,2) by (intro sys_ok_other [OF assms(1), where ph = "s_phase s"]) (auto simp: sys_ok_def)
next
  case (Tick t)
  then show ?thesis using assms(2) tick_ok [OF assms(1)] by (auto split: if_splits)
qed

section \<open>Reachable states\<close>

lemma init_ok: "sys_ok fid sha init_sys"
  by (simp add: sys_ok_def init_sys_def empty_db_def data_ok_def ids_ok_def states_ok_def pointers_ok_def rows_ok_def
      heads_ok_def hashes_ok_def all_linked_def times_ok_def created_by_def)

lemma reachable_ok:
  assumes "reachable fid sha s" "\<And>x. is_content_hash (sha x)"
  shows "sys_ok fid sha s"
  using assms(1)
proof (induction rule: reachable.induct)
  case reach_init
  show ?case by (rule init_ok)
next
  case (reach_step s a s')
  then show ?case using act_keeps assms(2) by blast
qed

lemma run_reachable: "\<lbrakk>run_actions fid sha as s = Some s'; reachable fid sha s\<rbrakk> \<Longrightarrow> reachable fid sha s'"
  by (induction "as" arbitrary: s) (auto split: option.splits intro: reach_step)

lemma manifest_rows:
  assumes "data_ok fid sha fs db" "r \<in> set (getChunkGenerationFiles db gid format)"
  shows "row_ok fid sha fs r"
  using assms by (auto simp: getChunkGenerationFiles_def data_ok_def rows_ok_def)

lemma row_file: "row_ok fid sha fs r \<Longrightarrow> \<exists>bytes. fs (cr_path r) = Some bytes \<and> sha bytes = cr_hash r"
  unfolding row_ok_def by blast

text \<open>Each link of a manifest gives exactly one file.\<close>

lemma manifest_length:
  assumes "data_ok fid sha fs db"
  shows "length (getChunkGenerationFiles db gid format) = length (filter (\<lambda>l. lk_gen l = gid \<and> lk_format l = format) (links db))"
proof -
  note d = data_okD [OF assms]
  have one: "length (filter (\<lambda>c. cr_id c = lk_chunk l) (chunk_rows db)) = 1" if "l \<in> set (links db)" for l
  proof -
    have "lk_chunk l \<in> cr_id ` set (chunk_rows db)" using d(1) that by (simp add: ids_ok_def)
    then obtain r where r: "lk_chunk l = cr_id r" "r \<in> set (chunk_rows db)" by (rule imageE)
    have dist: "distinct (map cr_id (chunk_rows db))" using d(3) by (simp add: rows_ok_def)
    have "{c. cr_id c = lk_chunk l} \<inter> set (chunk_rows db) = {r}"
      using r inj_onI_distinct [OF dist _ r(2)] by auto
    with dist show ?thesis by (simp add: distinct_length_filter distinct_map)
  qed
  have "length (concat (map (\<lambda>l. filter (\<lambda>c. cr_id c = lk_chunk l) (chunk_rows db)) ls)) = length ls"
    if "set ls \<subseteq> set (links db)" for ls
    using that one by (induction ls) auto
  then show ?thesis by (simp add: getChunkGenerationFiles_def subset_iff)
qed

text \<open>C15: Whatever the builds, the retention cleanup, the orphan collector, the purge of unreachable chunks,
  the retirement of windows and crashes do in whatever order, every generation that the database
  holds can be served in full: each link of its manifest has exactly one chunk row, and that row's file exists
  and holds bytes with the recorded hash.\<close>

theorem generations_stay_servable:
  assumes "reachable fid sha s" "\<And>x. is_content_hash (sha x)"
  shows "length (getChunkGenerationFiles (s_db s) gid format)
       = length (filter (\<lambda>l. lk_gen l = gid \<and> lk_format l = format) (links (s_db s)))
     \<and> (\<forall>r \<in> set (getChunkGenerationFiles (s_db s) gid format).
          \<exists>bytes. s_files s (cr_path r) = Some bytes \<and> sha bytes = cr_hash r)"
proof -
  have d: "data_ok fid sha (s_files s) (s_db s)" using reachable_ok [OF assms] by (simp add: sys_ok_def)
  then show ?thesis using manifest_length [OF d] row_file [OF manifest_rows [OF d]] by blast
qed

text \<open>The purge of unreachable chunks, which runs without the feed's lock and could race a build that
  reuses a file, never has anything to delete: in every reachable state its statement returns no
  row, because the locked cleanup deletes the rows it makes unreachable in the same transaction.\<close>

theorem purge_finds_nothing:
  assumes "reachable fid sha s" "\<And>x. is_content_hash (sha x)"
  shows "purge_txn (s_now s) retention (s_db s) = (s_db s, []) \<and> s_purging s = []"
  using reachable_ok [OF assms] purge_nothing by (simp add: sys_ok_def data_ok_def)

text \<open>C16: A slot (window and IOC types) has at most one active generation, every pointer leads to an active
  generation of its own slot, and a build that is refused or fails leaves the database as it was.\<close>

theorem one_active_generation:
  assumes "reachable fid sha s" "\<And>x. is_content_hash (sha x)"
  shows "(\<forall>g \<in> set (gens (s_db s)). \<forall>g' \<in> set (gens (s_db s)).
            gr_state g = G_active \<and> gr_state g' = G_active \<and> gr_slot g = gr_slot g' \<longrightarrow> g = g')
     \<and> (\<forall>(slot, gid) \<in> set (active_gens (s_db s)).
            \<exists>g \<in> set (gens (s_db s)). gr_id g = gid \<and> gr_slot g = slot \<and> gr_state g = G_active)
     \<and> (\<forall>b p cs head e. buildTxn sha b p cs head (s_db s) = Inl e \<longrightarrow> s_db (finish_build sha b p cs head s) = s_db s)"
proof -
  have ok: "states_ok (s_db s)" "pointers_ok (s_retiring s) (s_db s)"
    using reachable_ok [OF assms] by (simp_all add: sys_ok_def data_ok_def)
  have "\<forall>(slot, gid) \<in> set (active_gens (s_db s)).
      \<exists>g \<in> set (gens (s_db s)). gr_id g = gid \<and> gr_slot g = slot \<and> gr_state g = G_active"
  proof (clarify)
    fix a c gid
    assume "((a, c), gid) \<in> set (active_gens (s_db s))"
    from pointerD [OF ok(2) this] show "\<exists>g \<in> set (gens (s_db s)). gr_id g = gid \<and> gr_slot g = (a, c) \<and> gr_state g = G_active"
      by (metis fst_conv snd_conv)
  qed
  with ok(1) show ?thesis by (simp add: states_ok_def finish_build_def)
qed

section \<open>Failures\<close>

fun is_write :: "action \<Rightarrow> bool" where
  "is_write (WriteChunk _ _ _ _) = True"
| "is_write (WriteHead _) = True"
| "is_write _ = False"

text \<open>While it writes, a build has changed only the files it lists as created, and none of them existed.\<close>

definition only_created :: "files \<Rightarrow> files \<Rightarrow> string list \<Rightarrow> bool" where
  "only_created fs0 fs ps \<longleftrightarrow> (\<forall>q. if q \<in> set ps then fs0 q = None else fs q = fs0 q)"

lemma write_only_created:
  assumes "act fid sha a s = Some s'" "is_write a" "s_phase s = Building b p cs head"
    "only_created fs0 (s_files s) (created_paths cs head)" "fs0 (head_path fid (b_id b)) = None"
  shows "\<exists>cs' head'. s_phase s' = Building b p cs' head' \<and> only_created fs0 (s_files s') (created_paths cs' head') \<and> s_db s' = s_db s"
proof (cases a)
  case (WriteChunk key format x n)
  then have h: "head = None" and e: "s' = write_chunk fid sha b p cs key format x n s"
    using assms(1,3) by (auto split: option.splits if_splits)
  let ?path = "chunk_path fid (fst (b_slot b)) (p_count p) key format (sha x)"
  obtain new fs where f: "finishChunkWriters fid sha (fst (b_slot b)) (p_count p) key format x n (s_files s) = (new, fs)"
    by (cases "finishChunkWriters fid sha (fst (b_slot b)) (p_count p) key format x n (s_files s)")
  consider "fs = s_files s" "filter gc_created new = []"
    | c where "s_files s ?path = None" "fs = (s_files s)(?path := Some x)" "filter gc_created new = [c]" "gc_path c = ?path"
  proof (cases "x = [] \<or> s_files s ?path \<noteq> None")
    case True
    then have "fs = s_files s \<and> filter gc_created new = []"
      using f by (cases "x = []") (auto simp: finishChunkWriters_def commitContentAddressedPart_def Let_def)
    with that(1) show thesis by blast
  next
    case False
    with f have "fs = (s_files s)(?path := Some x)" "\<exists>c. filter gc_created new = [c] \<and> gc_path c = ?path"
      by (auto simp: finishChunkWriters_def commitContentAddressedPart_def Let_def)
    with False that(2) show thesis by blast
  qed
  then have "only_created fs0 fs (created_paths (cs @ new) None)"
  proof cases
    case 1
    then show ?thesis using assms(4) by (simp add: h created_paths_def)
  next
    case 2
    have "fs0 ?path = None"
      using assms(4) 2(1) unfolding only_created_def by metis
    with 2 assms(4) show ?thesis by (simp add: h created_paths_def only_created_def)
  qed
  then show ?thesis by (simp add: e write_chunk_def f)
next
  case (WriteHead x)
  then have "head = None" and "s' = s\<lparr>s_files := (s_files s)(head_path fid (b_id b) := Some x),
      s_phase := Building b p cs (Some (head_path fid (b_id b)))\<rparr>"
    using assms(1,3) by (auto split: option.splits if_splits)
  then show ?thesis using assms(4,5) by (auto simp: only_created_def created_paths_def)
qed (use assms(2) in simp_all)

lemma writes_only_created:
  assumes "run_actions fid sha as s = Some s'" "list_all is_write as" "s_phase s = Building b p cs head"
    "only_created fs0 (s_files s) (created_paths cs head)" "fs0 (head_path fid (b_id b)) = None"
  shows "\<exists>cs' head'. s_phase s' = Building b p cs' head' \<and> only_created fs0 (s_files s') (created_paths cs' head') \<and> s_db s' = s_db s"
  using assms
proof (induction "as" arbitrary: s cs head)
  case (Cons a as)
  obtain s1 where s1: "act fid sha a s = Some s1" "run_actions fid sha as s1 = Some s'"
    using Cons.prems(1) by (auto split: option.splits)
  obtain cs1 head1 where "s_phase s1 = Building b p cs1 head1" "only_created fs0 (s_files s1) (created_paths cs1 head1)"
    "s_db s1 = s_db s"
    using write_only_created [OF s1(1) _ Cons.prems(3-5)] Cons.prems(2) by auto
  with Cons.IH [OF s1(2) _ this(1,2) Cons.prems(5)] Cons.prems(2) show ?case by simp
qed auto

lemma unlink_all:
  assumes "run_actions fid sha (replicate n Unlink @ [Done]) s = Some s'" "s_phase s = Discarding ps"
  shows "s_files s' = (\<lambda>q. if q \<in> set ps then None else s_files s q)" "s_db s' = s_db s" "s_phase s' = Idle"
  using assms
proof (induction n arbitrary: s ps)
  case 0
  { case 1 then show ?case by (auto split: list.splits) }
  { case 2 then show ?case by (auto split: list.splits) }
  { case 3 then show ?case by (auto split: list.splits) }
next
  case (Suc n)
  have step: "\<exists>p qs. ps = p # qs \<and> run_actions fid sha (replicate n Unlink @ [Done])
      (s\<lparr>s_files := removeFileQuiet p (s_files s), s_phase := Discarding qs\<rparr>) = Some s'"
    if "run_actions fid sha (replicate (Suc n) Unlink @ [Done]) s = Some s'" "s_phase s = Discarding ps" for s ps
    using that by (auto split: list.splits)
  { case 1
    from step [OF this] obtain p qs where "ps = p # qs" "run_actions fid sha (replicate n Unlink @ [Done])
      (s\<lparr>s_files := removeFileQuiet p (s_files s), s_phase := Discarding qs\<rparr>) = Some s'" by blast
    from this(1) Suc.IH(1) [OF this(2)] show ?case by (auto simp: removeFileQuiet_def) }
  { case 2
    from step [OF this] obtain p qs where "run_actions fid sha (replicate n Unlink @ [Done])
      (s\<lparr>s_files := removeFileQuiet p (s_files s), s_phase := Discarding qs\<rparr>) = Some s'" by blast
    from Suc.IH(2) [OF this] show ?case by simp }
  { case 3
    from step [OF this] obtain p qs where "run_actions fid sha (replicate n Unlink @ [Done])
      (s\<lparr>s_files := removeFileQuiet p (s_files s), s_phase := Discarding qs\<rparr>) = Some s'" by blast
    from Suc.IH(3) [OF this] show ?case by simp }
qed

lemma run_append:
  "run_actions fid sha (as @ bs) s = (case run_actions fid sha as s of None \<Rightarrow> None | Some s' \<Rightarrow> run_actions fid sha bs s')"
  by (induction "as" arbitrary: s) (auto split: option.splits)


lemma upsertChunkRow_gens: "upsertChunkRow b p c db = Inr (i, db') \<Longrightarrow> gens db' = gens db"
  by (auto simp: upsertChunkRow_def Let_def split: option.splits if_splits)

lemma upsertChunkRows_gens: "upsertChunkRows b p cs db = Inr (ids, db') \<Longrightarrow> gens db' = gens db"
  by (induction cs arbitrary: db ids) (auto split: sum.splits dest!: upsertChunkRow_gens)

text \<open>A generation that is active without a pointer (the retirement of its window was interrupted between its
  two statements) blocks its slot: every later build of the slot is refused by the unique index
  on active generations, whatever it wrote.\<close>

theorem orphaned_active_blocks_slot:
  assumes "g \<in> set (gens (s_db s))" "gr_state g = G_active" "gr_slot g = b_slot b" "gr_id g \<noteq> b_id b"
    "map_of (active_gens (s_db s)) (b_slot b) = None" "plan_build b reusable (s_db s) = Inr p"
  shows "\<exists>e. buildTxn sha b p cs head (s_db s) = Inl e"
proof (cases "buildTxn sha b p cs head (s_db s)")
  case (Inr db')
  let ?db0 = "(s_db s)\<lparr>gens := gens (s_db s) @ [new_gen b p]\<rparr>"
  obtain ids db1 db3 where u: "upsertChunkRows b p cs ?db0 = Inr (ids, db1)"
    and f: "addFormatRows sha b p head (b_formats b)
        (db1\<lparr>links := links db1 @ inherited_links b p db1 @ new_links b p ids\<rparr>) = Inr db3"
    and a: "activate b p db3 = Inr db'"
    using Inr unfolding buildTxn_def by (auto split: if_splits sum.splits)
  have "gens db1 = gens (s_db s) @ [new_gen b p]" using upsertChunkRows_gens [OF u] by simp
  moreover have "gens db3 = gens db1" using addFormatRows_ok [OF f] by auto
  ultimately have "g \<in> set (gens db3)" using assms(1) by simp
  moreover have "p_parent p = None"
    using assms(5,6) by (auto simp: plan_build_def getActiveChunkGeneration_def Let_def split: if_splits)
  then have "act_gen b p g = g" using assms(4) by (simp add: act_gen_def)
  ultimately have "g \<in> set (gens db')" using activate_ok(1) [OF a] by (auto simp: rev_image_eqI)
  then show ?thesis using activate_ok(2) [OF a _ assms(3,2)] assms(4) by blast
qed auto

lemma upsert_conflict:
  assumes "rows_ok fid sha fs db" "r \<in> set (chunk_rows db)" "cr_path r = gc_path c" "cr_version r \<noteq> b_version b (gc_format c)"
    "chunk_ok fid sha fs b p c"
  shows "upsertChunkRow b p c db = Inl DuplicateKey"
proof -
  have "find (same_content b p c) (chunk_rows db) = None"
  proof (rule ccontr)
    assume "find (same_content b p c) (chunk_rows db) \<noteq> None"
    then obtain q where q: "q \<in> set (chunk_rows db)" "same_content b p c q" by (auto simp: find_None_iff)
    have "cr_path q = gc_path c" using q assms(1,5) by (auto simp: rows_ok_def row_ok_def chunk_ok_def same_content_def)
    then have "q = r" using assms(1-3) q(1) inj_onI_distinct [of cr_path "chunk_rows db"] by (simp add: rows_ok_def)
    with q(2) assms(4) show False by (simp add: same_content_def)
  qed
  then show ?thesis using assms(2,3) by (auto simp: upsertChunkRow_def Let_def list_ex_iff)
qed

lemma upserts_conflict:
  assumes "rows_ok fid sha fs db" "r \<in> set (chunk_rows db)" "c \<in> set cs" "cr_path r = gc_path c"
    "cr_version r \<noteq> b_version b (gc_format c)" "\<forall>c \<in> set cs. chunk_ok fid sha fs b p c"
  shows "\<exists>e. upsertChunkRows b p cs db = Inl e"
  using assms
proof (induction cs arbitrary: db)
  case (Cons d cs)
  show ?case
  proof (cases "upsertChunkRow b p d db")
    case (Inr x)
    obtain i db1 where x: "x = (i, db1)" by (cases x)
    have d: "d \<noteq> c" using upsert_conflict [OF Cons.prems(1,2,4,5)] Cons.prems(3,6) Inr by auto
    obtain new where "db1 = db\<lparr>chunk_rows := chunk_rows db @ new, next_chunk_id := Suc (next_chunk_id db)\<rparr>"
      "rows_ok fid sha fs db1"
      using upsertChunkRow_ok [OF Inr [unfolded x] Cons.prems(1)] Cons.prems(6) by auto
    then have "\<exists>e. upsertChunkRows b p cs db1 = Inl e"
      using Cons.IH [of db1] Cons.prems(2-6) d by auto
    then show ?thesis using Inr x by auto
  qed simp
qed simp

text \<open>The content key of a chunk row holds the serializer version, its path does not.  So after a release
  with a new serializer version, a build that meets a chunk whose bytes have not changed is refused: its
  insert violates the unique storage path.\<close>

theorem serializer_bump_refused:
  assumes "reachable fid sha s" "\<And>x. is_content_hash (sha x)" "s_phase s = Building b p cs head"
    "r \<in> set (chunk_rows (s_db s))" "c \<in> set cs" "cr_path r = gc_path c" "cr_version r \<noteq> b_version b (gc_format c)"
  shows "\<exists>e. buildTxn sha b p cs head (s_db s) = Inl e"
proof -
  have ok: "data_ok fid sha (s_files s) (s_db s)" "phase_ok fid sha s (Building b p cs head)"
    using reachable_ok [OF assms(1,2)] assms(3) by (simp_all add: sys_ok_def)
  then have "rows_ok fid sha (s_files s) ((s_db s)\<lparr>gens := gens (s_db s) @ [new_gen b p]\<rparr>)"
    by (simp add: data_ok_def rows_ok_def)
  moreover have "\<forall>c \<in> set cs. chunk_ok fid sha (s_files s) b p c" using ok(2) by simp
  ultimately obtain e where "upsertChunkRows b p cs ((s_db s)\<lparr>gens := gens (s_db s) @ [new_gen b p]\<rparr>) = Inl e"
    using upserts_conflict [of fid sha "s_files s" _ r c cs b p] assms(4-7) by fastforce
  then show ?thesis by (simp add: buildTxn_def)
qed

section \<open>A run\<close>

text \<open>A digest of 64 hex digits that tells the lengths apart, for the examples.\<close>

definition example_sha :: "string \<Rightarrow> string" where
  "example_sha x = replicate 63 (CHR ''a'') @ [hex_digit (length x mod 16)]"

lemma example_sha_hash: "is_content_hash (example_sha x)"
proof -
  have "is_hex_lower (hex_digit d)" if "d < 16" for d
    using that by (auto simp: hex_digit_def is_hex_lower_def)
  moreover have "list_all is_hex_lower (replicate 63 (CHR ''a''))" by code_simp
  ultimately show ?thesis by (simp add: is_content_hash_def example_sha_def)
qed

definition example_spec :: "string \<Rightarrow> int \<Rightarrow> nat \<Rightarrow> build_spec" where
  "example_spec gid now version = \<lparr>b_slot = (''all'', ''domain''), b_ready = True, b_algo = 1, b_count = 2, b_formats = [''json''],
     b_affected = None, b_expected = Some 1, b_id = gid, b_now = now, b_version = (\<lambda>_. version),
     b_envelope = (\<lambda>_ _. ([], [], []))\<rparr>"

definition first_build :: "action list" where
  "first_build = [StartBuild (example_spec ''a-1'' 0 1) False, WriteChunk 0 ''json'' ''x'' 1, FinishBuild]"

definition second_build :: "action list" where
  "second_build = first_build @ [Tick 10, StartBuild (example_spec ''b-2'' 10 1) False, WriteChunk 1 ''json'' ''xy'' 1, FinishBuild,
     Tick 100, LockCleanup ''a-1'' 50, CleanupTxn, Unlink, Done]"

abbreviation example_run :: "action list \<Rightarrow> feed_sys option" where
  "example_run as \<equiv> run_actions 7 example_sha as init_sys"

lemma example_reachable: "example_run as = Some s \<Longrightarrow> reachable 7 example_sha s"
  by (rule run_reachable [OF _ reach_init])

text \<open>Facts about the end of a run, from an evaluation.\<close>

lemma example_end:
  assumes "case example_run as of None \<Rightarrow> False | Some s \<Rightarrow> P s"
  shows "\<exists>s. example_run as = Some s \<and> P s \<and> reachable 7 example_sha s"
  using assms example_reachable by (auto split: option.splits)

lemma second_build_runs: "case example_run second_build of None \<Rightarrow> False | Some s \<Rightarrow> length (gens (s_db s)) = 1"
  by code_simp

theorem generations_stay_servable_witness:
  "case example_run second_build of None \<Rightarrow> False
   | Some s \<Rightarrow> list_all (\<lambda>r. case s_files s (cr_path r) of None \<Rightarrow> False | Some bytes \<Rightarrow> example_sha bytes = cr_hash r)
       (getChunkGenerationFiles (s_db s) ''b-2'' ''json'')"
proof -
  obtain s where s: "example_run second_build = Some s" "reachable 7 example_sha s"
    using example_end [OF second_build_runs] by metis
  show ?thesis
    unfolding s(1) using generations_stay_servable [OF s(2) example_sha_hash, of "''b-2''" "''json''"]
    by (auto simp: list_all_iff split: option.split)
qed

theorem purge_finds_nothing_witness:
  "case example_run second_build of None \<Rightarrow> False | Some s \<Rightarrow> purge_txn (s_now s) 0 (s_db s) = (s_db s, [])"
proof -
  obtain s where s: "example_run second_build = Some s" "reachable 7 example_sha s"
    using example_end [OF second_build_runs] by metis
  show ?thesis unfolding s(1) using purge_finds_nothing [OF s(2) example_sha_hash, of 0] by simp
qed

theorem one_active_generation_witness:
  "case example_run second_build of None \<Rightarrow> False
   | Some s \<Rightarrow> list_all (\<lambda>(slot, gid). list_ex (\<lambda>g. gr_id g = gid \<and> gr_slot g = slot \<and> gr_state g = G_active) (gens (s_db s)))
       (active_gens (s_db s))"
proof -
  obtain s where s: "example_run second_build = Some s" "reachable 7 example_sha s"
    using example_end [OF second_build_runs] by metis
  show ?thesis
    unfolding s(1) using one_active_generation [OF s(2) example_sha_hash]
    by (simp add: list_all_iff list_ex_iff)
qed

definition failing_build :: "action list" where
  "failing_build = StartBuild (example_spec ''c-3'' 100 1) False
     # [WriteChunk 0 ''json'' ''xyz'' 1, WriteChunk 1 ''json'' ''xy'' 1] @ FailBuild # replicate 1 Unlink @ [Done]"


theorem orphaned_active_blocks_slot_witness:
  "\<exists>s p e. example_run (first_build @ [RetirePointers ''7d'', RetireLost]) = Some s
     \<and> plan_build (example_spec ''b-2'' 0 1) False (s_db s) = Inr p
     \<and> buildTxn example_sha (example_spec ''b-2'' 0 1) p [] None (s_db s) = Inl e"
proof -
  have "case example_run (first_build @ [RetirePointers ''7d'', RetireLost]) of None \<Rightarrow> False
    | Some s \<Rightarrow> list_ex (\<lambda>g. gr_state g = G_active \<and> gr_slot g = (''all'', ''domain'') \<and> gr_id g \<noteq> ''b-2'') (gens (s_db s))
        \<and> map_of (active_gens (s_db s)) (''all'', ''domain'') = None
        \<and> (case plan_build (example_spec ''b-2'' 0 1) False (s_db s) of Inl _ \<Rightarrow> False | Inr _ \<Rightarrow> True)"
    (is "case _ of None \<Rightarrow> _ | Some s \<Rightarrow> ?P s")
    by code_simp
  from example_end [OF this] obtain s where s: "example_run (first_build @ [RetirePointers ''7d'', RetireLost]) = Some s" and P: "?P s"
    by blast
  obtain g where g: "g \<in> set (gens (s_db s))" "gr_state g = G_active" "gr_slot g = (''all'', ''domain'')" "gr_id g \<noteq> ''b-2''"
    using P by (auto simp: list_ex_iff)
  have m: "map_of (active_gens (s_db s)) (''all'', ''domain'') = None" using P by blast
  obtain p where p: "plan_build (example_spec ''b-2'' 0 1) False (s_db s) = Inr p"
    using P by (cases "plan_build (example_spec ''b-2'' 0 1) False (s_db s)") simp_all
  have "\<exists>e. buildTxn example_sha (example_spec ''b-2'' 0 1) p [] None (s_db s) = Inl e"
    by (rule orphaned_active_blocks_slot [OF g(1,2) _ _ _ p]) (use g m in \<open>simp_all add: example_spec_def\<close>)
  with s p show ?thesis by blast
qed

definition bumped_build :: "action list" where
  "bumped_build = first_build @ [Tick 10, StartBuild (example_spec ''b-2'' 10 2) False, WriteChunk 0 ''json'' ''x'' 1]"

theorem serializer_bump_refused_witness:
  "\<exists>s b p cs head e. example_run bumped_build = Some s \<and> s_phase s = Building b p cs head
     \<and> buildTxn example_sha b p cs head (s_db s) = Inl e"
proof -
  have "case example_run bumped_build of None \<Rightarrow> False
    | Some s \<Rightarrow> (case s_phase s of Building b p cs head \<Rightarrow>
        list_ex (\<lambda>c. list_ex (\<lambda>r. cr_path r = gc_path c \<and> cr_version r \<noteq> b_version b (gc_format c)) (chunk_rows (s_db s))) cs
      | _ \<Rightarrow> False)"
    (is "case _ of None \<Rightarrow> _ | Some s \<Rightarrow> ?P s")
    by code_simp
  from example_end [OF this] obtain s where s: "example_run bumped_build = Some s" "reachable 7 example_sha s" and P: "?P s"
    by blast
  obtain b p cs head where ph: "s_phase s = Building b p cs head" using P by (cases "s_phase s") simp_all
  then obtain c r where c: "c \<in> set cs" and r: "r \<in> set (chunk_rows (s_db s))"
    and v: "cr_path r = gc_path c" "cr_version r \<noteq> b_version b (gc_format c)"
    using P by (auto simp: list_ex_iff)
  from serializer_bump_refused [OF s(2) example_sha_hash ph r c v] s(1) ph show ?thesis by blast
qed

end
