(* ===== verification/Suppression.thy ===== *)
theory Suppression
  imports TH_Prelude
begin

text \<open>
  Suppressed indicators (\<open>lib/ioc-suppression.js\<close>, \<open>lib/iocSuppressionFileScope.js\<close>, and the loaders of
  \<open>lib/importOptimizationContext.js\<close> and \<open>lib/iocExpiration.js\<close> that use them).  A suppression names a
  value and a type, or a whole file: then it covers every proven hash of that file.  The database
  decides with one query; an import loads an index once and decides in memory.  Timestamps are
  milliseconds; the tables of file artifacts are present.
\<close>

section \<open>Tables\<close>

record suppression =
  s_value :: string
  s_type :: string
  s_source :: "string option"
  s_artifact :: "string option"
  s_active :: bool
  s_deleted :: bool
  s_expires :: "int option"

record artifact =
  a_id :: string
  a_merged :: bool
  a_into :: "string option"

record artifact_hash =
  h_artifact :: string
  h_type :: string
  h_value :: string

record suppression_db =
  suppressions :: "suppression list"
  artifacts :: "artifact list"
  artifact_hashes :: "artifact_hash list"

definition survivor :: "artifact \<Rightarrow> string" where
  "survivor fa = (if a_merged fa then case a_into fa of Some i \<Rightarrow> i | None \<Rightarrow> a_id fa else a_id fa)"

definition in_force :: "int \<Rightarrow> suppression \<Rightarrow> bool" where
  "in_force now s \<longleftrightarrow> s_active s \<and> \<not> s_deleted s \<and> (case s_expires s of None \<Rightarrow> True | Some e \<Rightarrow> now < e)"

definition FILE_HASH_TYPES :: "string list" where
  "FILE_HASH_TYPES = [''md5'', ''sha1'', ''sha256'']"

section \<open>The query\<close>

definition file_scoped_match :: "suppression_db \<Rightarrow> string \<Rightarrow> string \<Rightarrow> suppression \<Rightarrow> bool" where
  "file_scoped_match db v t s =
     (case s_artifact s of
        None \<Rightarrow> False
      | Some art \<Rightarrow> js_lower t \<in> set FILE_HASH_TYPES
          \<and> list_ex (\<lambda>h. h_type h = js_lower t \<and> h_value h = js_lower v
               \<and> list_ex (\<lambda>fa. a_id fa = h_artifact h
                    \<and> list_ex (\<lambda>sfa. a_id sfa = art \<and> survivor fa = survivor sfa) (artifacts db)) (artifacts db))
             (artifact_hashes db))"

definition queryIocSuppressedFromDb :: "int \<Rightarrow> suppression_db \<Rightarrow> string \<Rightarrow> string \<Rightarrow> bool" where
  "queryIocSuppressedFromDb now db v t =
     list_ex (\<lambda>s. in_force now s
        \<and> ((js_lower (s_value s) = js_lower v \<and> js_lower (s_type s) = js_lower t) \<or> file_scoped_match db v t s))
       (suppressions db)"

section \<open>The index of an import\<close>

record index_entry =
  e_global :: bool
  e_sources :: "string list"

type_synonym suppression_index = "string \<rightharpoonup> index_entry"

definition TAB :: char where "TAB = CHR 0x09"

definition makeSuppressionKey :: "string \<Rightarrow> string \<Rightarrow> string" where
  "makeSuppressionKey v t =
     (let value = js_lower (js_trim v); ty = js_lower (js_trim t)
      in if value = [] \<or> ty = [] then [] else ty @ TAB # value)"

definition index_entry_of :: "suppression_index \<Rightarrow> string \<Rightarrow> index_entry" where
  "index_entry_of idx key = (case idx key of Some e \<Rightarrow> e | None \<Rightarrow> \<lparr>e_global = False, e_sources = []\<rparr>)"

definition add_global :: "string option \<Rightarrow> string \<Rightarrow> suppression_index \<Rightarrow> suppression_index" where
  "add_global src key idx =
     (if key = [] then idx
      else let e = index_entry_of idx key; s = (case src of None \<Rightarrow> [] | Some x \<Rightarrow> js_lower (js_trim x))
           in idx(key \<mapsto> e\<lparr>e_global := True, e_sources := (if s = [] then e_sources e else List.insert s (e_sources e))\<rparr>))"

definition buildSuppressionIndex :: "suppression list \<Rightarrow> suppression_index" where
  "buildSuppressionIndex rows = fold (\<lambda>r. add_global (s_source r) (makeSuppressionKey (s_value r) (s_type r))) rows Map.empty"

text \<open>The hashes of every file whose survivor is the survivor of a suppressed file.\<close>

definition suppressed_survivors :: "suppression_db \<Rightarrow> suppression list \<Rightarrow> string list" where
  "suppressed_survivors db rows =
     map survivor (filter (\<lambda>sfa. a_id sfa \<in> set (List.map_filter s_artifact rows)) (artifacts db))"

definition covered_hashes :: "suppression_db \<Rightarrow> suppression list \<Rightarrow> artifact_hash list" where
  "covered_hashes db rows =
     filter (\<lambda>h. list_ex (\<lambda>fa. a_id fa = h_artifact h \<and> survivor fa \<in> set (suppressed_survivors db rows)) (artifacts db))
       (artifact_hashes db)"

definition buildSuppressionIndexWithFileScope :: "suppression_db \<Rightarrow> suppression list \<Rightarrow> suppression_index" where
  "buildSuppressionIndexWithFileScope db rows =
     fold (\<lambda>h. add_global None (makeSuppressionKey (h_value h) (h_type h))) (covered_hashes db rows)
       (buildSuppressionIndex rows)"

definition loadActiveSuppressionIndex :: "int \<Rightarrow> suppression_db \<Rightarrow> suppression_index" where
  "loadActiveSuppressionIndex now db =
     buildSuppressionIndexWithFileScope db
       (map (\<lambda>s. s\<lparr>s_value := js_lower (s_value s), s_type := js_lower (s_type s), s_source := map_option js_lower (s_source s)\<rparr>)
         (filter (in_force now) (suppressions db)))"

definition isPairSuppressed :: "suppression_index \<Rightarrow> string \<Rightarrow> string \<Rightarrow> string option \<Rightarrow> bool" where
  "isPairSuppressed idx v t src =
     (let key = makeSuppressionKey v t
      in key \<noteq> [] \<and> (case idx key of
           None \<Rightarrow> False
         | Some e \<Rightarrow> e_global e
             \<or> (let s = (case src of None \<Rightarrow> [] | Some x \<Rightarrow> js_lower (js_trim x)) in s \<noteq> [] \<and> s \<in> set (e_sources e))))"

definition isIocSuppressedFromIndex :: "suppression_index \<Rightarrow> string \<Rightarrow> string \<Rightarrow> bool" where
  "isIocSuppressedFromIndex idx v t = isPairSuppressed idx v t None"

section \<open>The index decides as the query does\<close>

lemma key_plain:
  "\<lbrakk>trimmed v; trimmed t; v \<noteq> []; t \<noteq> []\<rbrakk> \<Longrightarrow> makeSuppressionKey v t = js_lower t @ TAB # js_lower v"
  by (simp add: makeSuppressionKey_def)

lemma tab_lower_char: "js_lower_char c = TAB \<Longrightarrow> c = TAB"
proof -
  assume "js_lower_char c = TAB"
  then have "code_unit (js_lower_char c) = 9" by (simp add: TAB_def)
  then have "\<not> is_capital c" unfolding code_unit_lower by (simp split: if_splits)
  then have "js_lower_char c = c" by (simp add: js_lower_char_def)
  with \<open>js_lower_char c = TAB\<close> show "c = TAB" by simp
qed

lemma tab_lower: "TAB \<notin> set t \<Longrightarrow> TAB \<notin> set (js_lower t)"
  unfolding js_lower_def by (auto dest!: tab_lower_char [OF sym])

lemma key_inj:
  assumes "TAB \<notin> set t" "TAB \<notin> set t'"
  shows "js_lower t @ TAB # v = js_lower t' @ TAB # v' \<longleftrightarrow> js_lower t = js_lower t' \<and> v = v'"
proof
  assume e: "js_lower t @ TAB # v = js_lower t' @ TAB # v'"
  have "takeWhile (\<lambda>c. c \<noteq> TAB) (js_lower u @ TAB # w) = js_lower u" if "TAB \<notin> set u" for u w
    using tab_lower [OF that] by (subst takeWhile_append2) auto
  then have "js_lower t = js_lower t'" using e assms by metis
  then show "js_lower t = js_lower t' \<and> v = v'" using e by simp
qed simp

text \<open>The keys an index has, whatever the order and the repetitions of the rows.\<close>

lemma dom_add_global: "dom (add_global src key idx) = dom idx \<union> ({key} - {[]})"
  by (auto simp: add_global_def Let_def)

definition all_global :: "suppression_index \<Rightarrow> bool" where
  "all_global idx \<longleftrightarrow> (\<forall>e \<in> ran idx. e_global e)"

lemma all_global_add: "all_global idx \<Longrightarrow> all_global (add_global src key idx)"
  by (auto simp: all_global_def add_global_def Let_def ran_def split: if_splits)

lemma fold_add_global:
  "dom (fold (\<lambda>r. add_global (g r) (f r)) rows idx) = dom idx \<union> (f ` set rows - {[]})
   \<and> (all_global idx \<longrightarrow> all_global (fold (\<lambda>r. add_global (g r) (f r)) rows idx))"
  by (induction rows arbitrary: idx) (auto simp: dom_add_global all_global_add)

lemma index_keys:
  "dom (buildSuppressionIndexWithFileScope db rows)
     = ((\<lambda>r. makeSuppressionKey (s_value r) (s_type r)) ` set rows
        \<union> (\<lambda>h. makeSuppressionKey (h_value h) (h_type h)) ` set (covered_hashes db rows)) - {[]}"
  "all_global (buildSuppressionIndexWithFileScope db rows)"
  unfolding buildSuppressionIndexWithFileScope_def buildSuppressionIndex_def
  using fold_add_global [of "\<lambda>r. s_source r" "\<lambda>r. makeSuppressionKey (s_value r) (s_type r)" rows Map.empty]
    fold_add_global [of "\<lambda>h. None" "\<lambda>h. makeSuppressionKey (h_value h) (h_type h)" "covered_hashes db rows"]
  by (auto simp: all_global_def)

lemma in_index_iff:
  "all_global idx \<Longrightarrow> isIocSuppressedFromIndex idx v t \<longleftrightarrow> makeSuppressionKey v t \<in> dom idx - {[]}"
  by (auto simp: isIocSuppressedFromIndex_def isPairSuppressed_def Let_def all_global_def ran_def split: option.splits)

text \<open>What the tables hold: the check constraints of the hash table, and suppressions as the forms write them.\<close>

definition plain :: "string \<Rightarrow> bool" where
  "plain x \<longleftrightarrow> x \<noteq> [] \<and> trimmed x"

definition suppression_db_ok :: "suppression_db \<Rightarrow> bool" where
  "suppression_db_ok db \<longleftrightarrow>
     list_all (\<lambda>s. plain (s_value s) \<and> plain (s_type s) \<and> TAB \<notin> set (s_type s)) (suppressions db)
     \<and> list_all (\<lambda>h. h_type h \<in> set FILE_HASH_TYPES \<and> h_value h \<noteq> [] \<and> list_all is_hex_lower (h_value h)) (artifact_hashes db)"

lemma hash_row_plain:
  assumes "suppression_db_ok db" "h \<in> set (artifact_hashes db)"
  shows "trimmed (h_value h)" "h_value h \<noteq> []" "js_lower (h_value h) = h_value h"
    "h_type h \<in> set FILE_HASH_TYPES" "trimmed (h_type h)" "h_type h \<noteq> []" "js_lower (h_type h) = h_type h" "TAB \<notin> set (h_type h)"
proof -
  have h: "list_all is_hex_lower (h_value h)" "h_value h \<noteq> []" "h_type h \<in> set FILE_HASH_TYPES"
    using assms by (auto simp: suppression_db_ok_def list_all_iff)
  then show "trimmed (h_value h)" "h_value h \<noteq> []" "js_lower (h_value h) = h_value h" "h_type h \<in> set FILE_HASH_TYPES"
    by (auto intro!: trimmed_no_ws js_lower_hex simp: list_all_iff is_hex_lower_not_ws)
  show "trimmed (h_type h)" "h_type h \<noteq> []" "js_lower (h_type h) = h_type h" "TAB \<notin> set (h_type h)"
    using h(3) by (auto simp: FILE_HASH_TYPES_def trimmed_def js_ws_def TAB_def js_lower_char_def is_upper_def is_capital_def)
qed

text \<open>
  C26: An import may decide suppression in memory.  With the tables as their constraints and forms
  leave them, and for an indicator without surrounding blanks, the index loaded from the active
  suppressions, files and merged files included, gives the answer of the database query for every
  value and type.
\<close>

theorem suppression_index_exact:
  assumes ok: "suppression_db_ok db" and v: "plain v" and t: "plain t" "TAB \<notin> set t"
  shows "isIocSuppressedFromIndex (loadActiveSuppressionIndex now db) v t \<longleftrightarrow> queryIocSuppressedFromDb now db v t"
proof -
  let ?low = "\<lambda>s. s\<lparr>s_value := js_lower (s_value s), s_type := js_lower (s_type s), s_source := map_option js_lower (s_source s)\<rparr>"
  let ?rows = "map ?low (filter (in_force now) (suppressions db))"
  let ?key = "js_lower t @ TAB # js_lower v"
  have key: "makeSuppressionKey v t = ?key" "?key \<noteq> []"
    using v t by (auto simp: plain_def intro: key_plain)
  have row: "?key = makeSuppressionKey (s_value (?low s)) (s_type (?low s))
      \<longleftrightarrow> js_lower (s_value s) = js_lower v \<and> js_lower (s_type s) = js_lower t"
    if "s \<in> set (suppressions db)" for s
  proof -
    have s: "plain (s_value s)" "plain (s_type s)" "TAB \<notin> set (s_type s)"
      using ok that by (auto simp: suppression_db_ok_def list_all_iff)
    then have "makeSuppressionKey (s_value (?low s)) (s_type (?low s)) = js_lower (s_type s) @ TAB # js_lower (s_value s)"
      by (simp add: key_plain plain_def)
    then show ?thesis using key_inj [OF t(2) s(3)] by auto
  qed
  have hash: "?key = makeSuppressionKey (h_value h) (h_type h) \<longleftrightarrow> h_type h = js_lower t \<and> h_value h = js_lower v"
    if "h \<in> set (artifact_hashes db)" for h
  proof -
    note h = hash_row_plain [OF ok that]
    have "makeSuppressionKey (h_value h) (h_type h) = js_lower (h_type h) @ TAB # js_lower (h_value h)"
      using h by (intro key_plain)
    then show ?thesis using key_inj [OF t(2) h(8)] h by auto
  qed
  have arts: "set (List.map_filter s_artifact ?rows) = {art. \<exists>s \<in> set (suppressions db). in_force now s \<and> s_artifact s = Some art}"
    by (force simp: List.map_filter_def)
  have covered: "h \<in> set (covered_hashes db ?rows) \<longleftrightarrow> h \<in> set (artifact_hashes db)
      \<and> (\<exists>s \<in> set (suppressions db). \<exists>art. in_force now s \<and> s_artifact s = Some art
          \<and> (\<exists>fa \<in> set (artifacts db). a_id fa = h_artifact h
               \<and> (\<exists>sfa \<in> set (artifacts db). a_id sfa = art \<and> survivor fa = survivor sfa)))" for h
    unfolding covered_hashes_def suppressed_survivors_def arts by (auto simp: list_ex_iff)
  have "isIocSuppressedFromIndex (loadActiveSuppressionIndex now db) v t
      \<longleftrightarrow> (\<exists>r \<in> set ?rows. ?key = makeSuppressionKey (s_value r) (s_type r))
        \<or> (\<exists>h \<in> set (covered_hashes db ?rows). ?key = makeSuppressionKey (h_value h) (h_type h))"
    unfolding loadActiveSuppressionIndex_def in_index_iff [OF index_keys(2)] index_keys(1) key(1) using key(2)
    by (simp only: image_iff Diff_iff Un_iff singleton_iff) blast
  also have "(\<exists>r \<in> set ?rows. ?key = makeSuppressionKey (s_value r) (s_type r))
      \<longleftrightarrow> (\<exists>s \<in> set (suppressions db). in_force now s \<and> js_lower (s_value s) = js_lower v \<and> js_lower (s_type s) = js_lower t)"
    using row by auto
  also have "(\<exists>h \<in> set (covered_hashes db ?rows). ?key = makeSuppressionKey (h_value h) (h_type h))
      \<longleftrightarrow> (\<exists>s \<in> set (suppressions db). in_force now s \<and> file_scoped_match db v t s)"
  proof
    assume "\<exists>h \<in> set (covered_hashes db ?rows). ?key = makeSuppressionKey (h_value h) (h_type h)"
    then obtain h where h: "h \<in> set (covered_hashes db ?rows)" "?key = makeSuppressionKey (h_value h) (h_type h)" by blast
    then obtain s art where s: "h \<in> set (artifact_hashes db)" "s \<in> set (suppressions db)" "in_force now s" "s_artifact s = Some art"
      "\<exists>fa \<in> set (artifacts db). a_id fa = h_artifact h \<and> (\<exists>sfa \<in> set (artifacts db). a_id sfa = art \<and> survivor fa = survivor sfa)"
      unfolding covered by blast
    have e: "h_type h = js_lower t" "h_value h = js_lower v" using hash [OF s(1)] h(2) by auto
    have "h_type h \<in> set FILE_HASH_TYPES" by (rule hash_row_plain [OF ok s(1)])
    then have "file_scoped_match db v t s"
      unfolding file_scoped_match_def list_ex_iff s(4) option.case e(1) [symmetric] using s(1,5) e by blast
    then show "\<exists>s \<in> set (suppressions db). in_force now s \<and> file_scoped_match db v t s" using s(2,3) by blast
  next
    assume "\<exists>s \<in> set (suppressions db). in_force now s \<and> file_scoped_match db v t s"
    then obtain s where s: "s \<in> set (suppressions db)" "in_force now s" "file_scoped_match db v t s" by blast
    then obtain art h where h: "s_artifact s = Some art" "h \<in> set (artifact_hashes db)" "h_type h = js_lower t" "h_value h = js_lower v"
      "\<exists>fa \<in> set (artifacts db). a_id fa = h_artifact h \<and> (\<exists>sfa \<in> set (artifacts db). a_id sfa = art \<and> survivor fa = survivor sfa)"
      by (auto simp: file_scoped_match_def list_ex_iff split: option.splits)
    then have "h \<in> set (covered_hashes db ?rows)" unfolding covered using s by blast
    then show "\<exists>h \<in> set (covered_hashes db ?rows). ?key = makeSuppressionKey (h_value h) (h_type h)"
      using hash [OF h(2)] h(3,4) by blast
  qed
  finally show ?thesis unfolding queryIocSuppressedFromDb_def list_ex_iff by blast
qed

text \<open>A file is suppressed through one of its hashes and was merged into another file.\<close>

definition sample_suppressions :: suppression_db where
  "sample_suppressions =
     \<lparr>suppressions =
        [\<lparr>s_value = ''Evil.test'', s_type = ''domain'', s_source = None, s_artifact = None, s_active = True, s_deleted = False, s_expires = None\<rparr>,
         \<lparr>s_value = ''aa'', s_type = ''md5'', s_source = None, s_artifact = Some ''f1'', s_active = True, s_deleted = False, s_expires = Some 50\<rparr>],
      artifacts = [\<lparr>a_id = ''f1'', a_merged = True, a_into = Some ''f2''\<rparr>, \<lparr>a_id = ''f2'', a_merged = False, a_into = None\<rparr>],
      artifact_hashes = [\<lparr>h_artifact = ''f2'', h_type = ''sha1'', h_value = ''bb''\<rparr>]\<rparr>"

theorem suppression_index_exact_witness:
  "isIocSuppressedFromIndex (loadActiveSuppressionIndex 10 sample_suppressions) ''bb'' ''SHA1''
    \<and> \<not> isIocSuppressedFromIndex (loadActiveSuppressionIndex 60 sample_suppressions) ''bb'' ''sha1''"
proof (rule conjI)
  have ok: "suppression_db_ok sample_suppressions" "plain ''bb''" "plain ''SHA1''" "plain ''sha1''"
    "TAB \<notin> set ''SHA1''" "TAB \<notin> set ''sha1''"
    by code_simp+
  show "isIocSuppressedFromIndex (loadActiveSuppressionIndex 10 sample_suppressions) ''bb'' ''SHA1''"
    unfolding suppression_index_exact [OF ok(1,2,3,5)] by code_simp
  show "\<not> isIocSuppressedFromIndex (loadActiveSuppressionIndex 60 sample_suppressions) ''bb'' ''sha1''"
    unfolding suppression_index_exact [OF ok(1,2,4,6)] by code_simp
qed

end
