(* ===== verification/IocPolicy.thy ===== *)
theory IocPolicy
  imports TH_Prelude
begin

text \<open>
  Expiration policies of feeds (\<open>lib/feedExpirationPolicy.js\<close>, the policy functions of
  \<open>lib/iocExpiration.js\<close>, \<open>pickFeedPolicyFromRows\<close> and \<open>pickTypePolicyFromRows\<close> of
  \<open>lib/importOptimizationContext.js\<close>, and the policy route of \<open>routes/iocExpiration.js\<close>): what a
  form may store, which policy a feed has for a type of indicator, and when a membership expires
  under it.  Times are milliseconds; results of date arithmetic stay in the range of \<open>Date\<close>.
\<close>

type_synonym time = int

definition DAY_MS :: int where "DAY_MS = 86400000"

section \<open>Rows\<close>

record policy =
  p_feed :: string
  p_type :: string
  p_enabled :: bool
  p_mode :: string
  p_ttl :: "int option"
  p_grace :: "int option"

record type_policy =
  o_feed :: string
  o_type :: string
  o_mode :: string
  o_ttl :: "int option"

definition NEVER :: string where "NEVER = ''never''"
definition FIXED_TTL :: string where "FIXED_TTL = ''fixed_ttl''"
definition MISSING_TTL :: string where "MISSING_TTL = ''missing_from_feed_ttl''"
definition NO_EXPIRE :: string where "NO_EXPIRE = ''no_expire''"
definition INHERIT :: string where "INHERIT = ''inherit''"
definition ALL_TYPES :: string where "ALL_TYPES = ''all''"
definition LEGACY_EXPIRATION_MODE_LAST_SEEN_TTL :: string where
  "LEGACY_EXPIRATION_MODE_LAST_SEEN_TTL = ''last_seen_ttl''"

lemmas mode_defs = NEVER_def FIXED_TTL_def MISSING_TTL_def NO_EXPIRE_def INHERIT_def ALL_TYPES_def
  LEGACY_EXPIRATION_MODE_LAST_SEEN_TTL_def

definition EXPIRATION_MODES :: "string list" where
  "EXPIRATION_MODES = [NEVER, FIXED_TTL, MISSING_TTL]"

definition canonicalExpirationMode :: "string \<Rightarrow> string" where
  "canonicalExpirationMode mode =
     (let m = js_trim (if mode = [] then NEVER else mode)
      in if m = LEGACY_EXPIRATION_MODE_LAST_SEEN_TTL then FIXED_TTL else if m = [] then NEVER else m)"

definition withCanonicalExpirationMode :: "policy option \<Rightarrow> policy option" where
  "withCanonicalExpirationMode pol = map_option (\<lambda>p. p\<lparr>p_mode := canonicalExpirationMode (p_mode p)\<rparr>) pol"

section \<open>Types of indicators\<close>

definition POLICY_IOC_TYPES :: "string list" where
  "POLICY_IOC_TYPES = [''domain'', ''ip'', ''url'', ''file_hash'']"

definition TYPE_POLICY_MODES :: "string list" where
  "TYPE_POLICY_MODES = [INHERIT, NO_EXPIRE, FIXED_TTL]"

definition HASH_OBSERVABLE_TYPES :: "string list" where
  "HASH_OBSERVABLE_TYPES = [''hash'', ''md5'', ''sha1'', ''sha256'', ''ssdeep'', ''imphash'', ''tlsh'']"

definition normalizeIocTypeForPolicy :: "string \<Rightarrow> string option" where
  "normalizeIocTypeForPolicy observableType =
     (let t = js_lower (js_trim observableType)
      in if t = [] then None
         else if t = ''domain'' \<or> t = ''url'' then Some t
         else if t \<in> {''ip'', ''ip6'', ''ipv4'', ''ipv6''} then Some ''ip''
         else if t = ''file_hash'' then Some ''file_hash''
         else if t \<in> set HASH_OBSERVABLE_TYPES then Some ''file_hash''
         else None)"

section \<open>The policy of a feed for a type\<close>

text \<open>\<open>source\<close> is \<open>type_override\<close> or \<open>feed_default\<close>.\<close>

record resolved_policy =
  r_enabled :: bool
  r_ttl :: "int option"
  r_override :: bool

definition feed_default :: "bool \<Rightarrow> int option \<Rightarrow> resolved_policy" where
  "feed_default enabled ttl = \<lparr>r_enabled = enabled, r_ttl = ttl, r_override = False\<rparr>"

definition resolveExpirationPolicy :: "bool \<Rightarrow> int option \<Rightarrow> type_policy option \<Rightarrow> resolved_policy" where
  "resolveExpirationPolicy enabled ttl override =
     (case override of
        None \<Rightarrow> feed_default enabled ttl
      | Some o' \<Rightarrow>
          if o_mode o' = NO_EXPIRE then \<lparr>r_enabled = False, r_ttl = None, r_override = True\<rparr>
          else if o_mode o' = FIXED_TTL then
            (case o_ttl o' of
               Some n \<Rightarrow> if 0 < n then \<lparr>r_enabled = True, r_ttl = Some n, r_override = True\<rparr> else feed_default enabled ttl
             | None \<Rightarrow> feed_default enabled ttl)
          else feed_default enabled ttl)"

text \<open>The object \<open>{}\<close> that stands in for an absent feed policy.\<close>

definition empty_policy :: policy where
  "empty_policy = \<lparr>p_feed = [], p_type = [], p_enabled = False, p_mode = [], p_ttl = None, p_grace = None\<rparr>"

definition applyTypeOverrideToFeedPolicy :: "policy option \<Rightarrow> type_policy option \<Rightarrow> policy option" where
  "applyTypeOverrideToFeedPolicy base override =
     (case override of
        None \<Rightarrow> base
      | Some o' \<Rightarrow>
          if o_mode o' = INHERIT then base
          else
            let b = (case base of Some p \<Rightarrow> p | None \<Rightarrow> empty_policy);
                resolved = resolveExpirationPolicy (p_enabled b) (p_ttl b) override
            in if \<not> r_override resolved then base
               else if \<not> r_enabled resolved then Some (b\<lparr>p_enabled := False, p_mode := NEVER, p_ttl := None\<rparr>)
               else Some (b\<lparr>p_enabled := True, p_mode := FIXED_TTL, p_ttl := r_ttl resolved\<rparr>))"

text \<open>The cached rows are filtered and sorted, the query orders and takes the first row.\<close>

definition pickFeedPolicyFromRows :: "policy list \<Rightarrow> string \<Rightarrow> string \<Rightarrow> policy option" where
  "pickFeedPolicyFromRows rows feedId type =
     (case sort_key (\<lambda>p. if p_type p = type then 0 else 1 :: nat)
             (filter (\<lambda>p. p_feed p = feedId \<and> (p_type p = type \<or> p_type p = ALL_TYPES)) rows) of
        [] \<Rightarrow> None
      | p # _ \<Rightarrow> Some p)"

definition pickTypePolicyFromRows :: "type_policy list \<Rightarrow> string \<Rightarrow> string \<Rightarrow> type_policy option" where
  "pickTypePolicyFromRows rows feedId policyType = find (\<lambda>r. o_feed r = feedId \<and> o_type r = policyType) rows"

definition loadTypeOverrideRow :: "type_policy list \<Rightarrow> string \<Rightarrow> string \<Rightarrow> type_policy option" where
  "loadTypeOverrideRow rows feedId observableType =
     (case normalizeIocTypeForPolicy observableType of
        None \<Rightarrow> None
      | Some k \<Rightarrow> pickTypePolicyFromRows rows feedId k)"

definition getFeedPolicy :: "policy list \<Rightarrow> type_policy list \<Rightarrow> string \<Rightarrow> string \<Rightarrow> policy option" where
  "getFeedPolicy policies overrides feedId observableType =
     (let base = pickFeedPolicyFromRows policies feedId observableType
      in if observableType = [] \<or> observableType = ALL_TYPES then withCanonicalExpirationMode base
         else withCanonicalExpirationMode
                (applyTypeOverrideToFeedPolicy base (loadTypeOverrideRow overrides feedId observableType)))"

section \<open>When a membership expires under a policy\<close>

definition addDays :: "time \<Rightarrow> int \<Rightarrow> time" where
  "addDays base days = base + days * DAY_MS"

text \<open>\<open>Number(null)\<close> is 0.\<close>

definition number_of :: "int option \<Rightarrow> int" where
  "number_of x = (case x of Some n \<Rightarrow> n | None \<Rightarrow> 0)"

definition grace_of :: "policy \<Rightarrow> int" where
  "grace_of p = number_of (case p_grace p of Some g \<Rightarrow> Some g | None \<Rightarrow> p_ttl p)"

definition computePolicyExpiresAt :: "policy option \<Rightarrow> time option \<Rightarrow> time option \<Rightarrow> time option \<Rightarrow> time option" where
  "computePolicyExpiresAt pol firstSeen lastSeen missingSince =
     (case pol of
        None \<Rightarrow> None
      | Some p \<Rightarrow>
          let mode = canonicalExpirationMode (p_mode p); ttl = number_of (p_ttl p); grace = grace_of p;
              ttlBase = (case lastSeen of Some l \<Rightarrow> Some l | None \<Rightarrow> firstSeen)
          in if \<not> p_enabled p \<or> mode = NEVER then None
             else if mode = FIXED_TTL \<and> 0 < ttl \<and> ttlBase \<noteq> None then Some (addDays (the ttlBase) ttl)
             else if mode = MISSING_TTL \<and> missingSince \<noteq> None \<and> 0 < grace then Some (addDays (the missingSince) grace)
             else None)"

definition computeMatchReactivationExpiresAt :: "policy option \<Rightarrow> time \<Rightarrow> time option" where
  "computeMatchReactivationExpiresAt pol now =
     (case pol of
        None \<Rightarrow> None
      | Some p \<Rightarrow>
          let mode = canonicalExpirationMode (p_mode p); ttl = number_of (p_ttl p); grace = grace_of p
          in if \<not> p_enabled p \<or> mode = NEVER then None
             else if mode = MISSING_TTL then (if grace \<le> 0 then None else Some (addDays now grace))
             else if mode = FIXED_TTL then (if ttl \<le> 0 then None else Some (addDays now ttl))
             else None)"

section \<open>What the forms accept\<close>

text \<open>A field that is absent, null or the empty text is \<open>None\<close>; \<open>Number\<close> of anything else may be no finite number.\<close>

datatype js_number = Finite rat | NotFinite

definition positive_integer :: "js_number \<Rightarrow> bool" where
  "positive_integer n = (case n of Finite r \<Rightarrow> r = of_int \<lfloor>r\<rfloor> \<and> 0 < r | NotFinite \<Rightarrow> False)"

definition stored_number :: "js_number \<Rightarrow> int" where
  "stored_number n = (case n of Finite r \<Rightarrow> \<lfloor>r\<rfloor> | NotFinite \<Rightarrow> 0)"

datatype policy_error =
  ModeRemoved | ModeUnknown | TtlRequired | GraceRequired | SnapshotOnly | TtlNotPositive | GraceNotPositive

record policy_input =
  in_type :: string
  in_enabled :: bool
  in_mode :: string
  in_ttl :: "js_number option"
  in_grace :: "js_number option"

definition validateExpirationPolicyInput :: "policy_input \<Rightarrow> string \<Rightarrow> policy_error list \<times> policy_input" where
  "validateExpirationPolicyInput body feedUpdateMode =
     (let rawMode = js_trim (if in_mode body = [] then NEVER else in_mode body);
          mode = canonicalExpirationMode rawMode;
          ttl = in_ttl body; grace = in_grace body;
          ok = (\<lambda>x. case x of Some n \<Rightarrow> positive_integer n | None \<Rightarrow> False);
          g = (case grace of Some n \<Rightarrow> Some n | None \<Rightarrow> ttl);
          t = js_trim (if in_type body = [] then ALL_TYPES else in_type body);
          errors =
            (if rawMode = LEGACY_EXPIRATION_MODE_LAST_SEEN_TTL then [ModeRemoved]
             else if rawMode \<notin> set EXPIRATION_MODES then [ModeUnknown] else [])
            @ (if in_enabled body \<and> mode = FIXED_TTL \<and> \<not> ok ttl then [TtlRequired] else [])
            @ (if in_enabled body \<and> mode = MISSING_TTL
               then (if \<not> ok g then [GraceRequired] else []) @ (if feedUpdateMode \<noteq> ''snapshot'' then [SnapshotOnly] else [])
               else [])
            @ (if ttl \<noteq> None \<and> \<not> ok ttl then [TtlNotPositive] else [])
            @ (if grace \<noteq> None \<and> \<not> ok grace then [GraceNotPositive] else [])
      in (errors, \<lparr>in_type = (if t = [] then ALL_TYPES else t), in_enabled = in_enabled body, in_mode = mode,
                   in_ttl = ttl, in_grace = grace\<rparr>))"

datatype type_policy_error = TypeUnknown | TypeDuplicate string | OverrideModeUnknown string | OverrideTtlRequired string

record type_policy_input =
  e_type :: string
  e_mode :: string
  e_ttl :: "js_number option"

fun validate_entries :: "string list \<Rightarrow> type_policy_input list \<Rightarrow> type_policy_error list \<times> type_policy_input list" where
  "validate_entries seen [] = ([], [])"
| "validate_entries seen (raw # rest) =
     (let iocType = js_lower (js_trim (e_type raw)); mode = js_trim (e_mode raw);
          bad = (\<lambda>err seen'. let (es, ns) = validate_entries seen' rest in (err # es, ns))
      in if iocType \<notin> set POLICY_IOC_TYPES then bad TypeUnknown seen
         else if iocType \<in> set seen then bad (TypeDuplicate iocType) seen
         else if mode \<notin> set TYPE_POLICY_MODES then bad (OverrideModeUnknown iocType) (iocType # seen)
         else if mode = FIXED_TTL \<and> \<not> (case e_ttl raw of Some n \<Rightarrow> positive_integer n | None \<Rightarrow> False)
         then bad (OverrideTtlRequired iocType) (iocType # seen)
         else let (es, ns) = validate_entries (iocType # seen) rest
              in (es, \<lparr>e_type = iocType, e_mode = mode, e_ttl = (if mode = FIXED_TTL then e_ttl raw else None)\<rparr> # ns))"

definition validateExpirationTypePolicies ::
  "type_policy_input list option \<Rightarrow> type_policy_error list \<times> type_policy_input list" where
  "validateExpirationTypePolicies entries = (case entries of None \<Rightarrow> ([], []) | Some es \<Rightarrow> validate_entries [] es)"

section \<open>The policy route\<close>

text \<open>\<open>INSERT \<dots> ON CONFLICT \<dots> DO UPDATE\<close> of both tables, and the route's transaction.\<close>

definition upsert_policy :: "string \<Rightarrow> policy_input \<Rightarrow> policy list \<Rightarrow> policy list" where
  "upsert_policy feedId n rows =
     (let put = (\<lambda>p. p\<lparr>p_enabled := in_enabled n, p_mode := in_mode n,
                 p_ttl := map_option stored_number (in_ttl n), p_grace := map_option stored_number (in_grace n)\<rparr>);
          same = (\<lambda>p. p_feed p = feedId \<and> p_type p = in_type n)
      in if list_ex same rows then map (\<lambda>p. if same p then put p else p) rows
         else rows @ [put \<lparr>p_feed = feedId, p_type = in_type n, p_enabled = False, p_mode = [], p_ttl = None, p_grace = None\<rparr>])"

definition apply_type_policy :: "string \<Rightarrow> type_policy_input \<Rightarrow> type_policy list \<Rightarrow> type_policy list" where
  "apply_type_policy feedId entry rows =
     (let same = (\<lambda>r. o_feed r = feedId \<and> o_type r = e_type entry);
          put = (\<lambda>r. r\<lparr>o_mode := e_mode entry, o_ttl := map_option stored_number (e_ttl entry)\<rparr>)
      in if e_mode entry = INHERIT then filter (\<lambda>r. \<not> same r) rows
         else if list_ex same rows then map (\<lambda>r. if same r then put r else r) rows
         else rows @ [put \<lparr>o_feed = feedId, o_type = e_type entry, o_mode = [], o_ttl = None\<rparr>])"

definition applyExpirationTypePolicies :: "string \<Rightarrow> type_policy_input list \<Rightarrow> type_policy list \<Rightarrow> type_policy list" where
  "applyExpirationTypePolicies feedId entries rows = fold (apply_type_policy feedId) entries rows"

text \<open>\<open>PATCH /api/threat-feeds/:feedKey/expiration-policy\<close>: the tables change only when every part is accepted.\<close>

definition patch_expiration_policy ::
  "string \<Rightarrow> string \<Rightarrow> policy_input \<Rightarrow> type_policy_input list option \<Rightarrow> policy list \<times> type_policy list
     \<Rightarrow> (policy_error list + type_policy_error list) + policy list \<times> type_policy list" where
  "patch_expiration_policy feedId feedUpdateMode body entries tabs =
     (let (errors, n) = validateExpirationPolicyInput body feedUpdateMode;
          (terrors, ns) = validateExpirationTypePolicies entries
      in if errors \<noteq> [] then Inl (Inl errors)
         else if terrors \<noteq> [] then Inl (Inr terrors)
         else Inr (upsert_policy feedId n (fst tabs),
                   if entries = None then snd tabs else applyExpirationTypePolicies feedId ns (snd tabs)))"

section \<open>A stored override is the policy of its type\<close>

definition norm_entry :: "type_policy_input \<Rightarrow> type_policy_input" where
  "norm_entry raw = \<lparr>e_type = js_lower (js_trim (e_type raw)), e_mode = js_trim (e_mode raw),
     e_ttl = (if js_trim (e_mode raw) = FIXED_TTL then e_ttl raw else None)\<rparr>"

definition entry_ok :: "type_policy_input \<Rightarrow> bool" where
  "entry_ok e \<longleftrightarrow> e_type e \<in> set POLICY_IOC_TYPES \<and> e_mode e \<in> set TYPE_POLICY_MODES
     \<and> (e_mode e = FIXED_TTL \<longrightarrow> (case e_ttl e of Some n \<Rightarrow> positive_integer n | None \<Rightarrow> False))"

lemma validate_entries_ok:
  "validate_entries seen es = ([], ns) \<Longrightarrow> ns = map norm_entry es \<and> distinct (map e_type ns)
     \<and> set (map e_type ns) \<inter> set seen = {} \<and> list_all entry_ok ns"
proof (induction es arbitrary: seen ns)
  case (Cons raw rest)
  let ?ty = "js_lower (js_trim (e_type raw))"
  have fine: "?ty \<in> set POLICY_IOC_TYPES" "?ty \<notin> set seen" "js_trim (e_mode raw) \<in> set TYPE_POLICY_MODES"
    "js_trim (e_mode raw) = FIXED_TTL \<Longrightarrow> (case e_ttl raw of Some n \<Rightarrow> positive_integer n | None \<Rightarrow> False)"
    using Cons.prems by (auto simp: Let_def case_prod_beta split: if_splits)
  obtain ns' where n: "validate_entries (?ty # seen) rest = ([], ns')" "ns = norm_entry raw # ns'"
    using Cons.prems fine by (cases "validate_entries (?ty # seen) rest") (auto simp: Let_def norm_entry_def split: if_splits)
  have e: "e_type (norm_entry raw) = ?ty" "entry_ok (norm_entry raw)" using fine by (auto simp: norm_entry_def entry_ok_def)
  note ih = Cons.IH [OF n(1)]
  have split: "x \<notin> A \<and> A \<inter> set xs = {}" if "A \<inter> set (x # xs) = {}" for x :: string and A xs using that by auto
  have "?ty \<notin> set (map e_type ns') \<and> set (map e_type ns') \<inter> set seen = {}" by (rule split) (use ih in blast)
  moreover obtain "ns' = map norm_entry rest" "distinct (map e_type ns')" "list_all entry_ok ns'" using ih by blast
  ultimately show ?case using fine(2) unfolding n(2) by (intro conjI; simp add: e)
qed simp

definition shown :: "type_policy option \<Rightarrow> (string \<times> int option) option" where
  "shown r = map_option (\<lambda>r. (o_mode r, o_ttl r)) r"

definition stored_entry :: "type_policy_input \<Rightarrow> (string \<times> int option) option" where
  "stored_entry e = (if e_mode e = INHERIT then None else Some (e_mode e, map_option stored_number (e_ttl e)))"

lemma pick_map:
  assumes "\<And>r. o_feed (f r) = o_feed r \<and> o_type (f r) = o_type r"
  shows "pickTypePolicyFromRows (map f rows) feedId k = map_option f (pickTypePolicyFromRows rows feedId k)"
  using assms by (induction rows) (auto simp: pickTypePolicyFromRows_def)

lemma pick_append:
  "pickTypePolicyFromRows (rows @ [r]) feedId k
     = (case pickTypePolicyFromRows rows feedId k of Some x \<Rightarrow> Some x
        | None \<Rightarrow> if o_feed r = feedId \<and> o_type r = k then Some r else None)"
  by (induction rows) (auto simp: pickTypePolicyFromRows_def)

lemma pick_filter:
  "pickTypePolicyFromRows (filter (\<lambda>r. \<not> (o_feed r = feedId \<and> o_type r = t)) rows) feedId k
     = (if t = k then None else pickTypePolicyFromRows rows feedId k)"
  by (induction rows) (auto simp: pickTypePolicyFromRows_def)

lemma pick_None: "pickTypePolicyFromRows rows feedId k = None \<longleftrightarrow> \<not> list_ex (\<lambda>r. o_feed r = feedId \<and> o_type r = k) rows"
  by (auto simp: pickTypePolicyFromRows_def find_None_iff list_ex_iff)

lemma pickD: "pickTypePolicyFromRows rows feedId k = Some r \<Longrightarrow> o_feed r = feedId \<and> o_type r = k"
  by (auto simp: pickTypePolicyFromRows_def find_Some_iff)

lemma pick_apply:
  "shown (pickTypePolicyFromRows (apply_type_policy feedId e rows) feedId k)
     = (if e_type e = k then stored_entry e else shown (pickTypePolicyFromRows rows feedId k))"
proof (cases "e_mode e = INHERIT")
  case True
  have "apply_type_policy feedId e rows = filter (\<lambda>r. \<not> (o_feed r = feedId \<and> o_type r = e_type e)) rows"
    unfolding apply_type_policy_def Let_def using True by (rule if_P)
  then show ?thesis by (simp only: pick_filter) (simp add: stored_entry_def shown_def True)
next
  case False
  let ?same = "\<lambda>r. o_feed r = feedId \<and> o_type r = e_type e"
  let ?put = "\<lambda>r. r\<lparr>o_mode := e_mode e, o_ttl := map_option stored_number (e_ttl e)\<rparr>"
  show ?thesis
  proof (cases "list_ex ?same rows")
    case True
    have "pickTypePolicyFromRows (map (\<lambda>r. if ?same r then ?put r else r) rows) feedId k
        = map_option (\<lambda>r. if ?same r then ?put r else r) (pickTypePolicyFromRows rows feedId k)"
      by (rule pick_map) simp
    then have e: "pickTypePolicyFromRows (apply_type_policy feedId e rows) feedId k
        = map_option (\<lambda>r. if ?same r then ?put r else r) (pickTypePolicyFromRows rows feedId k)"
      using False True unfolding apply_type_policy_def Let_def by (simp only: if_False if_True)
    show ?thesis
    proof (cases "pickTypePolicyFromRows rows feedId k")
      case None
      then have "e_type e \<noteq> k" using True by (auto simp: pick_None)
      then show ?thesis unfolding e None by (simp add: shown_def)
    next
      case (Some r)
      note pickD [OF Some]
      then show ?thesis unfolding e Some using False by (simp add: shown_def stored_entry_def)
    qed
  next
    case none: False
    then have "pickTypePolicyFromRows rows feedId (e_type e) = None" by (simp add: pick_None)
    then show ?thesis using False none
      by (auto simp: apply_type_policy_def Let_def pick_append shown_def stored_entry_def split: option.splits)
  qed
qed

lemma pick_fold_other:
  "k \<notin> e_type ` set es \<Longrightarrow> shown (pickTypePolicyFromRows (fold (apply_type_policy feedId) es rows) feedId k)
     = shown (pickTypePolicyFromRows rows feedId k)"
  by (induction es arbitrary: rows) (auto simp: pick_apply)

lemma pick_fold:
  "\<lbrakk>distinct (map e_type es); e \<in> set es\<rbrakk>
     \<Longrightarrow> shown (pickTypePolicyFromRows (fold (apply_type_policy feedId) es rows) feedId (e_type e)) = stored_entry e"
  by (induction es arbitrary: rows) (auto simp: pick_apply pick_fold_other)

lemma policy_of_override:
  assumes "normalizeIocTypeForPolicy ty = Some k" "shown (pickTypePolicyFromRows os feedId k) = row"
  shows "getFeedPolicy ps os feedId ty
    = withCanonicalExpirationMode (applyTypeOverrideToFeedPolicy (pickFeedPolicyFromRows ps feedId ty) (pickTypePolicyFromRows os feedId k))"
proof -
  have "normalizeIocTypeForPolicy ALL_TYPES = None" "normalizeIocTypeForPolicy [] = None" by code_simp+
  then have "ty \<noteq> []" "ty \<noteq> ALL_TYPES" using assms(1) by auto
  then show ?thesis using assms(1) by (simp add: getFeedPolicy_def Let_def loadTypeOverrideRow_def)
qed

text \<open>
  C27: A policy form that is accepted takes effect.  For every type the form names, and every stored type
  of that kind (\<open>ipv6\<close> for \<open>ip\<close>, \<open>sha256\<close> for \<open>file_hash\<close>): "no expiration" means that nothing of this
  type ever expires, a number of days that everything expires so many days after it was last seen, and
  "inherit" that the policy of the feed applies, whatever was stored before.
\<close>

theorem saved_override_takes_effect:
  assumes saved: "patch_expiration_policy feedId updateMode body (Some entries) tabs = Inr (ps, os)"
    and raw: "raw \<in> set entries" and ty: "normalizeIocTypeForPolicy ty = Some (js_lower (js_trim (e_type raw)))"
  shows "(js_trim (e_mode raw) = NO_EXPIRE \<longrightarrow> computePolicyExpiresAt (getFeedPolicy ps os feedId ty) firstSeen lastSeen missing = None)
    \<and> (js_trim (e_mode raw) = FIXED_TTL \<longrightarrow> (\<exists>n. e_ttl raw = Some (Finite (of_int n)) \<and> 0 < n
       \<and> computePolicyExpiresAt (getFeedPolicy ps os feedId ty) firstSeen (Some l) missing = Some (addDays l n)))
    \<and> (js_trim (e_mode raw) = INHERIT \<longrightarrow> getFeedPolicy ps os feedId ty = withCanonicalExpirationMode (pickFeedPolicyFromRows ps feedId ty))"
proof -
  obtain ns where ns: "validate_entries [] entries = ([], ns)" "os = fold (apply_type_policy feedId) ns (snd tabs)"
    using saved by (auto simp: patch_expiration_policy_def validateExpirationTypePolicies_def applyExpirationTypePolicies_def
        case_prod_beta prod_eq_iff Let_def split: if_splits)
  let ?e = "norm_entry raw"
  note v = validate_entries_ok [OF ns(1)]
  have e: "?e \<in> set ns" "entry_ok ?e" using v raw by (auto simp: list_all_iff)
  have k: "normalizeIocTypeForPolicy ty = Some (e_type ?e)" using ty by (simp add: norm_entry_def)
  have row: "shown (pickTypePolicyFromRows os feedId (e_type ?e)) = stored_entry ?e"
    unfolding ns(2) using v e(1) by (intro pick_fold) auto
  note pol = policy_of_override [OF k row]
  have mode: "e_mode ?e = js_trim (e_mode raw)" by (simp add: norm_entry_def)
  have never: "computePolicyExpiresAt (getFeedPolicy ps os feedId ty) firstSeen lastSeen missing = None" if m: "js_trim (e_mode raw) = NO_EXPIRE"
  proof -
    obtain r where "pickTypePolicyFromRows os feedId (e_type ?e) = Some r" "o_mode r = NO_EXPIRE"
      using row m mode by (auto simp: shown_def stored_entry_def mode_defs)
    then show ?thesis unfolding pol
      by (simp add: applyTypeOverrideToFeedPolicy_def resolveExpirationPolicy_def Let_def withCanonicalExpirationMode_def
          computePolicyExpiresAt_def mode_defs)
  qed
  have fixed: "\<exists>n. e_ttl raw = Some (Finite (of_int n)) \<and> 0 < n
       \<and> computePolicyExpiresAt (getFeedPolicy ps os feedId ty) firstSeen (Some l) missing = Some (addDays l n)"
    if m: "js_trim (e_mode raw) = FIXED_TTL"
  proof -
    have ttl: "e_ttl ?e = e_ttl raw" using m by (simp add: norm_entry_def)
    obtain q where "e_ttl raw = Some q" "positive_integer q"
      using e(2) m mode ttl by (auto simp: entry_ok_def split: option.splits)
    then obtain n where n: "e_ttl raw = Some (Finite (of_int n))" "0 < n"
    proof (cases q)
      case (Finite x)
      then have x: "x = of_int \<lfloor>x\<rfloor>" "0 < x" using \<open>positive_integer q\<close> by (simp_all add: positive_integer_def)
      then have "0 < \<lfloor>x\<rfloor>" by (metis of_int_0_less_iff)
      then show ?thesis using that [of "\<lfloor>x\<rfloor>"] Finite x(1) \<open>e_ttl raw = Some q\<close> by simp
    qed (simp add: positive_integer_def)
    obtain r where r: "pickTypePolicyFromRows os feedId (e_type ?e) = Some r" "o_mode r = FIXED_TTL" "o_ttl r = Some n"
      using row m mode ttl n(1) by (auto simp: shown_def stored_entry_def stored_number_def mode_defs)
    have "canonicalExpirationMode FIXED_TTL = FIXED_TTL" by code_simp
    then have "computePolicyExpiresAt (getFeedPolicy ps os feedId ty) firstSeen (Some l) missing = Some (addDays l n)"
      unfolding pol r(1) using r(2,3) n(2)
      by (simp add: applyTypeOverrideToFeedPolicy_def resolveExpirationPolicy_def Let_def withCanonicalExpirationMode_def
          computePolicyExpiresAt_def number_of_def) (simp add: mode_defs)
    then show ?thesis using n by blast
  qed
  have inherit: "getFeedPolicy ps os feedId ty = withCanonicalExpirationMode (pickFeedPolicyFromRows ps feedId ty)"
    if m: "js_trim (e_mode raw) = INHERIT"
  proof -
    have "pickTypePolicyFromRows os feedId (e_type ?e) = None" using row m mode by (simp add: shown_def stored_entry_def)
    then show ?thesis unfolding pol by (simp add: applyTypeOverrideToFeedPolicy_def)
  qed
  show ?thesis using never fixed inherit by blast
qed

text \<open>The feed's default is 30 days; hashes are kept for 7, where they were never to expire.\<close>

theorem saved_override_takes_effect_witness:
  "\<exists>ps os. patch_expiration_policy ''B'' ''incremental''
      \<lparr>in_type = [], in_enabled = True, in_mode = ''fixed_ttl'', in_ttl = Some (Finite 30), in_grace = None\<rparr>
      (Some [\<lparr>e_type = ''File_Hash'', e_mode = ''fixed_ttl'', e_ttl = Some (Finite 7)\<rparr>])
      ([], [\<lparr>o_feed = ''B'', o_type = ''file_hash'', o_mode = ''no_expire'', o_ttl = None\<rparr>]) = Inr (ps, os)
    \<and> computePolicyExpiresAt (getFeedPolicy ps os ''B'' ''sha256'') None (Some 100) None = Some (100 + 7 * DAY_MS)"
proof -
  let ?raw = "\<lparr>e_type = ''File_Hash'', e_mode = ''fixed_ttl'', e_ttl = Some (Finite 7)\<rparr>"
  let ?patch = "patch_expiration_policy ''B'' ''incremental''
      \<lparr>in_type = [], in_enabled = True, in_mode = ''fixed_ttl'', in_ttl = Some (Finite 30), in_grace = None\<rparr>
      (Some [?raw]) ([], [\<lparr>o_feed = ''B'', o_type = ''file_hash'', o_mode = ''no_expire'', o_ttl = None\<rparr>])"
  have "isl ?patch = False" by code_simp
  then obtain ps os where saved: "?patch = Inr (ps, os)" by (cases ?patch) auto
  have "normalizeIocTypeForPolicy ''sha256'' = Some (js_lower (js_trim (e_type ?raw)))" "js_trim (e_mode ?raw) = FIXED_TTL" by code_simp+
  with saved_override_takes_effect [OF saved _ this(1), where l = 100 and firstSeen = None and missing = None]
  obtain n where "e_ttl ?raw = Some (Finite (of_int n))" "computePolicyExpiresAt (getFeedPolicy ps os ''B'' ''sha256'') None (Some 100) None = Some (addDays 100 n)"
    by auto
  moreover from this(1) have "of_int n = (of_int 7 :: rat)" by simp
  then have "n = 7" unfolding of_int_eq_iff .
  ultimately show ?thesis using saved by (intro exI [of _ ps] exI [of _ os]) (simp add: addDays_def)
qed

end
