(* ===== verification/IocLifecycle.thy ===== *)
theory IocLifecycle
  imports Suppression IocPolicy
begin

text \<open>
  The life cycle of indicators (\<open>lib/iocExpiration.js\<close>, \<open>lib/feedLifecycle.js\<close>,
  \<open>lib/importOptimizationContext.js\<close>, \<open>lib/customThreatFeedSync.js\<close> and the override routes of
  \<open>routes/iocExpiration.js\<close>).  An indicator is a row of \<open>ioc_items\<close>; every feed that lists it has a
  membership row with its own times, expiration and overrides; the status of the indicator is derived
  from its memberships.  Imports, the expiration worker, purges, correlation matches and analysts
  change the rows.  A table is the list of its rows; a statement is a function on it; the argument
  \<open>clock\<close> is the time at which an operation runs.  Columns that only the audit log reads are left out.
\<close>

section \<open>Rows\<close>

datatype m_status = MActive | MExpired | MPurged

record membership =
  m_id :: nat
  m_item :: nat
  m_otype :: string
  m_feed :: string
  m_first :: time
  m_last :: time
  m_changed :: "time option"
  m_missing :: "time option"
  m_policy_expires :: "time option"
  m_expires :: "time option"
  m_expired :: "time option"
  m_status :: m_status
  m_reason :: "string option"
  m_override :: bool
  m_override_status :: "m_status option"
  m_override_expires :: "time option"
  m_purged :: "time option"
  m_purged_by :: "string option"
  m_purge_reason :: "string option"
  m_fingerprint :: "string option"
  m_confidence :: "string option"
  m_updated :: time

datatype i_status = IActive | IExpired | IDisabled | ISuppressed

record ioc =
  i_id :: nat
  i_observable :: string
  i_otype :: string
  i_created :: time
  i_status :: i_status
  i_expires :: "time option"
  i_expired :: "time option"
  i_reason :: "string option"
  i_manual :: bool
  i_manual_status :: "m_status option"
  i_manual_expires :: "time option"
  i_manual_reason :: "string option"
  i_matched :: "time option"

record feed_meta =
  fm_key :: string
  fm_id :: string
  fm_mode :: string
  fm_name :: string
  fm_kind :: string

record lifecycle_db =
  items :: "ioc list"
  members :: "membership list"
  policies :: "policy list"
  overrides :: "type_policy list"
  supp :: suppression_db
  feeds :: "feed_meta list"

section \<open>The computed columns of a membership\<close>

definition resolveEffectiveExpiresAt :: "membership \<Rightarrow> time option" where
  "resolveEffectiveExpiresAt m =
     (if m_override m then
        (case m_override_expires m of
           Some e \<Rightarrow> Some e
         | None \<Rightarrow> if m_override_status m = Some MExpired then Some 0
                   else if m_override_status m = Some MActive then None
                   else m_policy_expires m)
      else m_policy_expires m)"

definition resolveMembershipStatus :: "membership \<Rightarrow> time \<Rightarrow> m_status" where
  "resolveMembershipStatus m now =
     (case (m_override m, m_override_status m) of
        (True, Some s) \<Rightarrow> s
      | _ \<Rightarrow> (case resolveEffectiveExpiresAt m of
               Some e \<Rightarrow> if e \<le> now then MExpired else MActive
             | None \<Rightarrow> MActive))"

record field_patch =
  cp_policy_expires :: "time option"
  cp_expires :: "time option"
  cp_status :: m_status
  cp_expired :: "time option"
  cp_reason :: "string option"
  cp_missing :: "time option"

definition policy_expiry :: "policy option \<Rightarrow> membership \<Rightarrow> time option" where
  "policy_expiry pol m = computePolicyExpiresAt pol (Some (m_first m)) (Some (m_last m)) (m_missing m)"

definition computeMembershipFieldPatch :: "membership \<Rightarrow> policy option \<Rightarrow> time \<Rightarrow> field_patch" where
  "computeMembershipFieldPatch m pol now =
     (let policyExpiresAt = policy_expiry pol m;
          expiresAt =
            (if m_override m then
               (case m_override_expires m of
                  Some e \<Rightarrow> Some e
                | None \<Rightarrow> if m_override_status m = Some MActive then None
                          else if m_override_status m = Some MExpired then Some 0
                          else policyExpiresAt)
             else policyExpiresAt);
          status = resolveMembershipStatus (m\<lparr>m_policy_expires := policyExpiresAt, m_expires := expiresAt\<rparr>) now
      in \<lparr>cp_policy_expires = policyExpiresAt, cp_expires = expiresAt, cp_status = status,
          cp_expired = (if status = MExpired then (case m_expired m of Some e \<Rightarrow> Some e | None \<Rightarrow> Some now) else None),
          cp_reason =
            (if status = MExpired then
               (if m_override m \<and> m_override_status m = Some MExpired then Some ''manual_override''
                else Some (case pol of Some p \<Rightarrow> if p_mode p = [] then ''policy'' else p_mode p | None \<Rightarrow> ''policy''))
             else None),
          cp_missing = m_missing m\<rparr>)"

text \<open>\<open>String(date)\<close> has a resolution of one second.\<close>

definition same_date_text :: "time option \<Rightarrow> time option \<Rightarrow> bool" where
  "same_date_text a b = (map_option (\<lambda>t. t div 1000) a = map_option (\<lambda>t. t div 1000) b)"

definition text_or_empty :: "string option \<Rightarrow> string" where
  "text_or_empty x = (case x of Some s \<Rightarrow> s | None \<Rightarrow> [])"

definition membershipComputedFieldsUnchanged :: "membership \<Rightarrow> field_patch \<Rightarrow> bool" where
  "membershipComputedFieldsUnchanged m p \<longleftrightarrow>
     same_date_text (m_policy_expires m) (cp_policy_expires p) \<and> same_date_text (m_expires m) (cp_expires p)
     \<and> m_status m = cp_status p \<and> same_date_text (m_expired m) (cp_expired p)
     \<and> text_or_empty (m_reason m) = text_or_empty (cp_reason p) \<and> same_date_text (m_missing m) (cp_missing p)"

text \<open>The update writes only when a column is distinct; the flag says whether a row was written.\<close>

definition applyMembershipComputedFields :: "time \<Rightarrow> policy option \<Rightarrow> time \<Rightarrow> membership \<Rightarrow> membership \<times> bool" where
  "applyMembershipComputedFields clock pol now m =
     (let p = computeMembershipFieldPatch m pol now;
          m' = m\<lparr>m_policy_expires := cp_policy_expires p, m_expires := cp_expires p, m_status := cp_status p,
                 m_expired := cp_expired p, m_reason := cp_reason p, m_missing := cp_missing p\<rparr>
      in if membershipComputedFieldsUnchanged m p \<or> m' = m then (m, False) else (m'\<lparr>m_updated := clock\<rparr>, True))"

section \<open>A membership when its feed lists the indicator again\<close>

datatype outcome = Created | Changed | Reactivated | Unchanged | Adopted | Reobserved

record import_args =
  im_item :: nat
  im_otype :: string
  im_feed :: string
  im_seen :: time
  im_first :: "time option"
  im_observed :: "time option"
  im_confidence :: "string option"
  im_fingerprint :: "string option"
  im_reactivateOnly :: bool

definition fingerprint_arg :: "import_args \<Rightarrow> string option" where
  "fingerprint_arg a = (case im_fingerprint a of
     None \<Rightarrow> None | Some f \<Rightarrow> if js_trim f = [] then None else Some (js_trim f))"

definition lastSeenWriteAt :: "import_args \<Rightarrow> time" where
  "lastSeenWriteAt a = (case im_observed a of Some t \<Rightarrow> t | None \<Rightarrow> im_seen a)"

definition healthyActive :: "membership \<Rightarrow> bool" where
  "healthyActive m \<longleftrightarrow> m_status m = MActive \<and> m_missing m = None \<and> m_expired m = None \<and> m_purged m = None"

text \<open>An explicit earlier source date lowers \<open>first_seen_in_feed\<close>; the flag says whether it did.\<close>

definition lower_first_seen :: "time \<Rightarrow> policy option \<Rightarrow> import_args \<Rightarrow> membership \<Rightarrow> membership \<times> bool" where
  "lower_first_seen clock pol a m =
     (case im_first a of
        None \<Rightarrow> (m, False)
      | Some f \<Rightarrow>
          if f < m_first m
          then (fst (applyMembershipComputedFields clock pol (im_seen a) (m\<lparr>m_first := f, m_updated := clock\<rparr>)), True)
          else (m, False))"

definition applyMonotonicLastSeenInFeed :: "time \<Rightarrow> time option \<Rightarrow> membership \<Rightarrow> membership \<times> bool" where
  "applyMonotonicLastSeenInFeed clock observed m =
     (case observed of
        None \<Rightarrow> (m, False)
      | Some t \<Rightarrow> if m_last m < t then (m\<lparr>m_last := max (m_last m) t, m_updated := clock\<rparr>, True) else (m, False))"

text \<open>\<open>ir_noop\<close>: the row was healthy and the call ended in \<open>finishHealthyNoop\<close>.\<close>

record import_result =
  ir_row :: membership
  ir_outcome :: outcome
  ir_touched :: bool
  ir_reactivated :: bool
  ir_noop :: bool

definition finishHealthyNoop :: "time \<Rightarrow> policy option \<Rightarrow> import_args \<Rightarrow> membership \<Rightarrow> bool \<Rightarrow> outcome \<Rightarrow> import_result" where
  "finishHealthyNoop clock pol a m touched out =
     \<lparr>ir_row = (if touched then fst (applyMembershipComputedFields clock pol (im_seen a) m) else m),
      ir_outcome = out, ir_touched = touched, ir_reactivated = False, ir_noop = True\<rparr>"

text \<open>The statement for a row with an override keeps its status; the other one makes it active again.\<close>

definition reimport_overridden :: "time \<Rightarrow> import_args \<Rightarrow> membership \<Rightarrow> membership \<times> bool" where
  "reimport_overridden clock a m =
     (let w = lastSeenWriteAt a; fp = fingerprint_arg a
      in if m_last m < w \<or> (fp \<noteq> None \<and> m_fingerprint m \<noteq> fp) \<or> m_missing m \<noteq> None
         then (m\<lparr>m_last := max (m_last m) w, m_changed := (if fp \<noteq> None then Some w else m_changed m),
                 m_fingerprint := (if fp \<noteq> None then fp else m_fingerprint m), m_missing := None, m_updated := clock\<rparr>, True)
         else (m, False))"

definition reimport_plain :: "time \<Rightarrow> import_args \<Rightarrow> membership \<Rightarrow> membership \<times> bool" where
  "reimport_plain clock a m =
     (let w = lastSeenWriteAt a; fp = fingerprint_arg a
      in if m_last m < w \<or> (fp \<noteq> None \<and> m_fingerprint m \<noteq> fp) \<or> m_missing m \<noteq> None \<or> m_status m \<noteq> MActive
            \<or> m_expired m \<noteq> None \<or> m_reason m \<noteq> None \<or> m_purged m \<noteq> None \<or> m_purged_by m \<noteq> None \<or> m_purge_reason m \<noteq> None
         then (m\<lparr>m_last := max (m_last m) w, m_changed := (if fp \<noteq> None then Some w else m_changed m),
                 m_fingerprint := (if fp \<noteq> None then fp else m_fingerprint m), m_missing := None, m_status := MActive,
                 m_expired := None, m_reason := None, m_purged := None, m_purged_by := None, m_purge_reason := None,
                 m_updated := clock\<rparr>, True)
         else (m, False))"

text \<open>The end of the function: computed columns and the confidence the source states.\<close>

definition set_confidence :: "time \<Rightarrow> import_args \<Rightarrow> membership \<Rightarrow> membership \<times> bool" where
  "set_confidence clock a m =
     (let e = js_lower (js_trim (text_or_empty (im_confidence a)))
      in if e \<in> {''low'', ''medium'', ''high''} \<and> m_confidence m \<noteq> Some e
         then (m\<lparr>m_confidence := Some e, m_updated := clock\<rparr>, True) else (m, False))"

definition finish_import :: "time \<Rightarrow> policy option \<Rightarrow> import_args \<Rightarrow> membership \<Rightarrow> bool \<Rightarrow> bool \<Rightarrow> outcome \<Rightarrow> import_result" where
  "finish_import clock pol a m touched reactivated out =
     (let (m1, u1) = applyMembershipComputedFields clock pol (im_seen a) m;
          (m2, u2) = set_confidence clock a m1
      in \<lparr>ir_row = m2, ir_outcome = out, ir_touched = touched \<or> u1 \<or> u2, ir_reactivated = reactivated, ir_noop = False\<rparr>)"

definition import_existing :: "time \<Rightarrow> policy option \<Rightarrow> import_args \<Rightarrow> membership \<Rightarrow> import_result" where
  "import_existing clock pol a m =
     (let healthy = healthyActive m; fp = fingerprint_arg a;
          (m1, lowered) = lower_first_seen clock pol a m;
          (m2, moved) = applyMonotonicLastSeenInFeed clock (im_observed a) m1;
          touched = lowered \<or> moved;
          out = (if moved then Reobserved else Unchanged)
      in if im_reactivateOnly a \<and> healthy then finishHealthyNoop clock pol a m2 touched (if lowered then Changed else out)
         else if fp \<noteq> None \<and> healthy \<and> m_fingerprint m2 = fp then finishHealthyNoop clock pol a m2 touched out
         else if fp \<noteq> None \<and> healthy \<and> m_fingerprint m2 = None
         then finishHealthyNoop clock pol a (m2\<lparr>m_fingerprint := fp\<rparr>) touched Adopted
         else if healthy \<and> fp = None \<and> lastSeenWriteAt a \<le> m_last m2 then finishHealthyNoop clock pol a m2 touched out
         else
           let (m3, written) = (if m_override m2 then reimport_overridden clock a m2 else reimport_plain clock a m2);
               reactivated = (written \<and> \<not> healthy)
           in finish_import clock pol a m3 (touched \<or> written) reactivated
                (if \<not> written then out else if reactivated then Reactivated else Changed))"

definition new_membership :: "time \<Rightarrow> nat \<Rightarrow> import_args \<Rightarrow> membership" where
  "new_membership clock i a =
     \<lparr>m_id = i, m_item = im_item a, m_otype = im_otype a, m_feed = im_feed a,
      m_first = (case im_first a of Some f \<Rightarrow> f | None \<Rightarrow> im_seen a), m_last = lastSeenWriteAt a,
      m_changed = (if fingerprint_arg a \<noteq> None then Some (lastSeenWriteAt a) else None), m_missing = None,
      m_policy_expires = None, m_expires = None, m_expired = None, m_status = MActive, m_reason = None,
      m_override = False, m_override_status = None, m_override_expires = None,
      m_purged = None, m_purged_by = None, m_purge_reason = None,
      m_fingerprint = fingerprint_arg a, m_confidence = None, m_updated = clock\<rparr>"

section \<open>The status of an indicator\<close>

definition update_items :: "(ioc \<Rightarrow> bool) \<Rightarrow> (ioc \<Rightarrow> ioc) \<Rightarrow> lifecycle_db \<Rightarrow> lifecycle_db" where
  "update_items P f db = db\<lparr>items := map (\<lambda>i. if P i then f i else i) (items db)\<rparr>"

definition update_members :: "(membership \<Rightarrow> bool) \<Rightarrow> (membership \<Rightarrow> membership) \<Rightarrow> lifecycle_db \<Rightarrow> lifecycle_db" where
  "update_members P f db = db\<lparr>members := map (\<lambda>m. if P m then f m else m) (members db)\<rparr>"

definition is_item :: "nat \<Rightarrow> string \<Rightarrow> ioc \<Rightarrow> bool" where
  "is_item i ty it \<longleftrightarrow> i_id it = i \<and> i_otype it = ty"

definition find_item :: "nat \<Rightarrow> string \<Rightarrow> lifecycle_db \<Rightarrow> ioc option" where
  "find_item i ty db = find (is_item i ty) (items db)"

text \<open>The memberships of every row with this value and type.\<close>

definition memberships_of :: "string \<Rightarrow> string \<Rightarrow> lifecycle_db \<Rightarrow> membership list" where
  "memberships_of obs ty db =
     filter (\<lambda>m. list_ex (\<lambda>it. is_item (m_item m) (m_otype m) it \<and> i_observable it = obs \<and> i_otype it = ty) (items db)) (members db)"

definition counts :: "membership \<Rightarrow> bool" where
  "counts m \<longleftrightarrow> m_status m = MActive \<and> m_purged m = None"

definition min_option :: "time list \<Rightarrow> time option" where
  "min_option ts = (if ts = [] then None else Some (Min (set ts)))"

text \<open>What the memberships say: the status, and the earliest expiration among those that count.\<close>

definition feed_status :: "membership list \<Rightarrow> i_status" where
  "feed_status ms = (if ms = [] \<or> list_ex counts ms then IActive else IExpired)"

definition feed_expiry :: "membership list \<Rightarrow> time option" where
  "feed_expiry ms = min_option (List.map_filter m_expires (filter counts ms))"

definition set_status :: "i_status \<Rightarrow> time option \<Rightarrow> time option \<Rightarrow> string option \<Rightarrow> ioc \<Rightarrow> ioc" where
  "set_status s e x r it = it\<lparr>i_status := s, i_expires := e, i_expired := x, i_reason := r\<rparr>"

definition recompute_manual :: "time \<Rightarrow> ioc \<Rightarrow> lifecycle_db \<Rightarrow> lifecycle_db \<times> i_status" where
  "recompute_manual clock it db =
     (let base = (if i_manual_status it = Some MExpired then IExpired else IActive);
          status = (case i_manual_expires it of Some e \<Rightarrow> if e \<le> clock then IExpired else base | None \<Rightarrow> base);
          expired = (if status = IExpired then (case i_expired it of Some x \<Rightarrow> Some x | None \<Rightarrow> Some clock) else None)
      in (update_items (is_item (i_id it) (i_otype it)) (set_status status (i_manual_expires it) expired (Some ''manual_override'')) db,
          status))"

definition recompute_from_feeds :: "time \<Rightarrow> ioc \<Rightarrow> lifecycle_db \<Rightarrow> lifecycle_db \<times> i_status" where
  "recompute_from_feeds clock it db =
     (let ms = memberships_of (i_observable it) (i_otype it) db;
          status = feed_status ms; minExpires = feed_expiry ms;
          expired = (if status = IExpired then (case i_expired it of Some x \<Rightarrow> Some x | None \<Rightarrow> Some clock) else None);
          reason = (if status = IExpired then Some ''all_feed_memberships_expired'' else None)
      in if i_status it = status \<and> i_expires it = minExpires \<and> (status = IExpired \<longrightarrow> i_expired it \<noteq> None)
            \<and> text_or_empty (i_reason it) = text_or_empty reason
         then (db, status)
         else (update_items (\<lambda>j. i_observable j = i_observable it \<and> i_otype j = i_otype it)
                 (set_status status minExpires expired reason) db, status))"

text \<open>\<open>suppressed\<close> is the suppression test: the query, or the index of an import.\<close>

definition recomputeIocGlobalStatus ::
  "time \<Rightarrow> (string \<Rightarrow> string \<Rightarrow> bool) \<Rightarrow> nat \<Rightarrow> string \<Rightarrow> lifecycle_db \<Rightarrow> lifecycle_db \<times> i_status option" where
  "recomputeIocGlobalStatus clock suppressed i ty db =
     (case find_item i ty db of
        None \<Rightarrow> (db, None)
      | Some it \<Rightarrow>
          if suppressed (i_observable it) (i_otype it)
          then (update_items (is_item i ty) (\<lambda>j. j\<lparr>i_status := ISuppressed\<rparr>) db, Some ISuppressed)
          else if i_status it = IDisabled then (db, Some IDisabled)
          else if i_manual it then map_prod id Some (recompute_manual clock it db)
          else map_prod id Some (recompute_from_feeds clock it db))"

definition db_suppressed :: "time \<Rightarrow> lifecycle_db \<Rightarrow> string \<Rightarrow> string \<Rightarrow> bool" where
  "db_suppressed clock db v t = queryIocSuppressedFromDb clock (supp db) v t"

definition recompute :: "time \<Rightarrow> nat \<Rightarrow> string \<Rightarrow> lifecycle_db \<Rightarrow> lifecycle_db" where
  "recompute clock i ty db = fst (recomputeIocGlobalStatus clock (db_suppressed clock db) i ty db)"

section \<open>Imports\<close>

text \<open>
  The context of an import: policies and suppressions as they were when it began, and the indicators
  whose status is to be recomputed at its end, in the order in which they were first touched.
\<close>

record import_ctx =
  x_policies :: "policy list"
  x_overrides :: "type_policy list"
  x_index :: suppression_index
  x_deferred :: "(string \<times> nat) list"

definition createImportOptimizationContext :: "time \<Rightarrow> lifecycle_db \<Rightarrow> import_ctx" where
  "createImportOptimizationContext clock db =
     \<lparr>x_policies = policies db, x_overrides = overrides db, x_index = loadActiveSuppressionIndex clock (supp db), x_deferred = []\<rparr>"

definition scheduleDeferredIocRecompute :: "string \<Rightarrow> nat \<Rightarrow> import_ctx \<Rightarrow> import_ctx" where
  "scheduleDeferredIocRecompute ty i x =
     (if (ty, i) \<in> set (x_deferred x) then x else x\<lparr>x_deferred := x_deferred x @ [(ty, i)]\<rparr>)"

definition ctx_suppressed :: "import_ctx \<Rightarrow> string \<Rightarrow> string \<Rightarrow> bool" where
  "ctx_suppressed x v t = isIocSuppressedFromIndex (x_index x) v t"

definition ctx_policy :: "import_ctx \<Rightarrow> string \<Rightarrow> string \<Rightarrow> policy option" where
  "ctx_policy x feedId ty = getFeedPolicy (x_policies x) (x_overrides x) feedId ty"

definition flushDeferredIocRecomputes :: "time \<Rightarrow> import_ctx \<Rightarrow> lifecycle_db \<Rightarrow> lifecycle_db" where
  "flushDeferredIocRecomputes clock x db =
     fold (\<lambda>(ty, i). fst \<circ> recomputeIocGlobalStatus clock (ctx_suppressed x) i ty) (x_deferred x) db"

definition next_member_id :: "lifecycle_db \<Rightarrow> nat" where
  "next_member_id db = Suc (Max (insert 0 (set (map m_id (members db)))))"

definition same_membership :: "import_args \<Rightarrow> membership \<Rightarrow> bool" where
  "same_membership a m \<longleftrightarrow> m_item m = im_item a \<and> m_otype m = im_otype a \<and> m_feed m = im_feed a"

text \<open>The row of the membership after the import, and the table with it.\<close>

definition put_member :: "membership \<Rightarrow> lifecycle_db \<Rightarrow> lifecycle_db" where
  "put_member r db =
     db\<lparr>members := (if list_ex (\<lambda>m. m_id m = m_id r) (members db)
                    then map (\<lambda>m. if m_id m = m_id r then r else m) (members db) else members db @ [r])\<rparr>"

definition import_row :: "time \<Rightarrow> policy option \<Rightarrow> import_args \<Rightarrow> lifecycle_db \<Rightarrow> import_result" where
  "import_row clock pol a db =
     (case find (same_membership a) (members db) of
        Some m \<Rightarrow> import_existing clock pol a m
      | None \<Rightarrow> finish_import clock pol a (new_membership clock (next_member_id db) a) True False Created)"

text \<open>Outside an import the status is recomputed at once, inside one only after a reactivation.\<close>

definition upsertMembershipOnImport ::
  "time \<Rightarrow> import_args \<Rightarrow> import_ctx option \<times> lifecycle_db \<Rightarrow> (import_ctx option \<times> lifecycle_db) \<times> import_result" where
  "upsertMembershipOnImport clock a s =
     (case s of (ctx, db) \<Rightarrow>
        let pol = (case ctx of Some x \<Rightarrow> ctx_policy x (im_feed a) (im_otype a)
                   | None \<Rightarrow> getFeedPolicy (policies db) (overrides db) (im_feed a) (im_otype a));
            res = import_row clock pol a db;
            db1 = put_member (ir_row res) db
        in case ctx of
             None \<Rightarrow>
               ((None, if ir_noop res \<and> \<not> ir_touched res then db1 else recompute clock (im_item a) (im_otype a) db1), res)
           | Some x \<Rightarrow>
               if ir_reactivated res
               then ((ctx, fst (recomputeIocGlobalStatus clock (ctx_suppressed x) (im_item a) (im_otype a) db1)), res)
               else if ir_touched res
               then ((Some (scheduleDeferredIocRecompute (im_otype a) (im_item a) x), db1), res)
               else ((ctx, db1), res))"

text \<open>Built-in feeds are found by rules on the source name, custom feeds by their name.\<close>

datatype source_rule = Exact string | Prefix string | Includes "string list"

definition FEED_SOURCE_RULES :: "(string \<times> source_rule) list" where
  "FEED_SOURCE_RULES =
     [(''usom-trcert'', Exact ''USOM:TR-CERT''),
      (''urlhaus-abusech'', Exact ''URLhaus:abuse.ch''),
      (''threatfox-abusech'', Exact ''ThreatFox:abuse.ch''),
      (''malwarebazaar-abusech'', Exact ''MalwareBazaar:abuse.ch''),
      (''et-blockrules'', Prefix ''EmergingThreats:''),
      (''phishtank-opendnsrr'', Includes [''phishtank'', ''PhishTank'']),
      (''alienvault-otx'', Exact ''AlienVault OTX''),
      (''certpl-warning-list'', Exact ''CERT.PL:CERT-Polska'')]"

definition js_includes :: "string \<Rightarrow> string \<Rightarrow> bool" where
  "js_includes s p = list_ex (\<lambda>k. take (length p) (drop k s) = p) [0..<Suc (length s)]"

definition rule_matches :: "string \<Rightarrow> source_rule \<Rightarrow> bool" where
  "rule_matches sn rule =
     (case rule of Exact e \<Rightarrow> sn = e | Prefix p \<Rightarrow> take (length p) sn = p | Includes ps \<Rightarrow> list_ex (js_includes sn) ps)"

definition sourceNameMatchesFeed :: "string \<Rightarrow> string \<Rightarrow> bool" where
  "sourceNameMatchesFeed sn feedKey =
     (case find (\<lambda>r. fst r = feedKey) FEED_SOURCE_RULES of None \<Rightarrow> False | Some r \<Rightarrow> rule_matches sn (snd r))"

definition feedKeyForSourceName :: "string \<Rightarrow> string option" where
  "feedKeyForSourceName sn = map_option fst (find (\<lambda>r. sourceNameMatchesFeed sn (fst r)) FEED_SOURCE_RULES)"

definition resolveFeedIdBySourceName :: "feed_meta list \<Rightarrow> string \<Rightarrow> string option" where
  "resolveFeedIdBySourceName metas sourceName =
     (case Option.bind (feedKeyForSourceName sourceName) (\<lambda>k. find (\<lambda>f. fm_key f = k) metas) of
        Some f \<Rightarrow> Some (fm_id f)
      | None \<Rightarrow>
          let sn = js_trim sourceName
          in if sn = [] then None
             else map_option fm_id (find (\<lambda>f. fm_kind f = ''custom'' \<and> fm_name f = sn) metas))"

text \<open>A listed indicator of a custom feed; the fingerprint is the SHA-256 of its normalized content.\<close>

record feed_row =
  fr_observable :: string
  fr_otype :: string
  fr_confidence :: "string option"
  fr_fingerprint :: string

definition next_item_id :: "lifecycle_db \<Rightarrow> nat" where
  "next_item_id db = Suc (Max (insert 0 (set (map i_id (items db)))))"

definition new_item :: "time \<Rightarrow> nat \<Rightarrow> string \<Rightarrow> string \<Rightarrow> ioc" where
  "new_item clock i obs ty =
     \<lparr>i_id = i, i_observable = obs, i_otype = ty, i_created = clock, i_status = IActive, i_expires = None, i_expired = None,
      i_reason = None, i_manual = False, i_manual_status = None, i_manual_expires = None, i_manual_reason = None, i_matched = None\<rparr>"

text \<open>\<open>ORDER BY created_at ASC LIMIT 1\<close>.\<close>

definition oldest_item :: "string \<Rightarrow> string \<Rightarrow> lifecycle_db \<Rightarrow> ioc option" where
  "oldest_item obs ty db =
     (case sort_key i_created (filter (\<lambda>i. i_observable i = obs \<and> i_otype i = ty) (items db)) of [] \<Rightarrow> None | i # _ \<Rightarrow> Some i)"

definition upsertIocRow ::
  "time \<Rightarrow> time \<Rightarrow> string \<Rightarrow> feed_row \<Rightarrow> import_ctx \<times> lifecycle_db \<Rightarrow> (import_ctx \<times> lifecycle_db) \<times> nat \<times> outcome" where
  "upsertIocRow clock seenAt feedId r s =
     (case s of (x, db) \<Rightarrow>
        let (i, db1) = (case oldest_item (fr_observable r) (fr_otype r) db of
              Some it \<Rightarrow> (i_id it, db)
            | None \<Rightarrow> let n = next_item_id db in (n, db\<lparr>items := items db @ [new_item clock n (fr_observable r) (fr_otype r)]\<rparr>));
            ((ctx, db2), res) = upsertMembershipOnImport clock
              \<lparr>im_item = i, im_otype = fr_otype r, im_feed = feedId, im_seen = seenAt, im_first = None, im_observed = None,
               im_confidence = fr_confidence r, im_fingerprint = Some (fr_fingerprint r), im_reactivateOnly = False\<rparr> (Some x, db1)
        in ((the ctx, db2), i, ir_outcome res))"

text \<open>The membership of an indicator that an importer has stored; \<open>None\<close> when the source has no feed or the row is not there.\<close>

definition syncMembershipAfterIocImport ::
  "time \<Rightarrow> string \<Rightarrow> string \<Rightarrow> string \<Rightarrow> import_args \<Rightarrow> import_ctx option \<times> lifecycle_db
     \<Rightarrow> (import_ctx option \<times> lifecycle_db) \<times> nat option" where
  "syncMembershipAfterIocImport clock observable observableType sourceName args s =
     (case resolveFeedIdBySourceName (feeds (snd s)) sourceName of
        None \<Rightarrow> (s, None)
      | Some feedId \<Rightarrow>
          (case oldest_item observable observableType (snd s) of
             None \<Rightarrow> (s, None)
           | Some it \<Rightarrow>
               let a = args\<lparr>im_item := i_id it, im_otype := i_otype it, im_feed := feedId\<rparr>;
                   (s', res) = upsertMembershipOnImport clock a s
               in (s', Some (m_id (ir_row res)))))"

text \<open>A snapshot feed has listed everything it still stands for: active memberships it did not list go missing.\<close>

definition mark_missing :: "time \<Rightarrow> membership \<Rightarrow> membership" where
  "mark_missing now m = (if m_missing m = None then m\<lparr>m_missing := Some now, m_updated := now\<rparr> else m)"

definition finalizeSnapshotFeedRun ::
  "time \<Rightarrow> string \<Rightarrow> (string \<times> nat) set \<Rightarrow> import_ctx \<times> lifecycle_db \<Rightarrow> (import_ctx \<times> lifecycle_db) \<times> nat" where
  "finalizeSnapshotFeedRun now feedId seenKeys s =
     (case s of (x, db) \<Rightarrow>
        let pol = ctx_policy x feedId ALL_TYPES;
            missing = (\<lambda>m. m_feed m = feedId \<and> m_status m = MActive \<and> (m_otype m, m_item m) \<notin> seenKeys)
        in if (case find (\<lambda>f. fm_id f = feedId) (feeds db) of None \<Rightarrow> True | Some f \<Rightarrow> fm_mode f \<noteq> ''snapshot'') then ((x, db), 0)
           else if (case pol of None \<Rightarrow> True | Some p \<Rightarrow> \<not> p_enabled p \<or> p_mode p \<noteq> MISSING_TTL) then ((x, db), 0)
           else if seenKeys = {} then ((x, db), 0)
           else ((fold (\<lambda>m. scheduleDeferredIocRecompute (m_otype m) (m_item m)) (filter missing (members db)) x,
                  update_members missing (\<lambda>m. fst (applyMembershipComputedFields now pol now (mark_missing now m))) db),
                 length (filter missing (members db))))"

text \<open>
  \<open>runCustomThreatFeedSync\<close> after the download: rows the feed repeats are skipped, the others are
  upserted, the snapshot is finalized, and the deferred recomputations run.  When the job is aborted
  before a row, the context is dropped with what it has deferred; the statements already run stay.
\<close>

fun sync_rows ::
  "time \<Rightarrow> time \<Rightarrow> string \<Rightarrow> feed_row list \<Rightarrow> (string \<times> string) set \<Rightarrow> (string \<times> nat) set \<Rightarrow> import_ctx \<times> lifecycle_db
     \<Rightarrow> (import_ctx \<times> lifecycle_db) \<times> (string \<times> nat) set" where
  "sync_rows clock seenAt feedId [] seenObservables seenKeys s = (s, seenKeys)"
| "sync_rows clock seenAt feedId (r # rs) seenObservables seenKeys s =
     (if (fr_otype r, fr_observable r) \<in> seenObservables then sync_rows clock seenAt feedId rs seenObservables seenKeys s
      else case upsertIocRow clock seenAt feedId r s of (s', i, out) \<Rightarrow>
        sync_rows clock seenAt feedId rs (insert (fr_otype r, fr_observable r) seenObservables)
          (insert (fr_otype r, i) seenKeys) s')"

definition runCustomThreatFeedSync :: "time \<Rightarrow> string \<Rightarrow> feed_row list \<Rightarrow> nat option \<Rightarrow> lifecycle_db \<Rightarrow> lifecycle_db" where
  "runCustomThreatFeedSync clock feedId rows abortBefore db =
     (let start = (createImportOptimizationContext clock db, db)
      in case abortBefore of
           Some n \<Rightarrow>
             if n < length rows then snd (fst (sync_rows clock clock feedId (take n rows) {} {} start))
             else let (s, seenKeys) = sync_rows clock clock feedId rows {} {} start;
                      ((x, db'), marked) = finalizeSnapshotFeedRun clock feedId seenKeys s
                  in flushDeferredIocRecomputes clock x db'
         | None \<Rightarrow>
             let (s, seenKeys) = sync_rows clock clock feedId rows {} {} start;
                 ((x, db'), marked) = finalizeSnapshotFeedRun clock feedId seenKeys s
             in flushDeferredIocRecomputes clock x db')"

section \<open>The expiration worker\<close>

text \<open>
  The select runs outside a transaction, so its row locks end with it; then every selected row is
  updated by its id if it is still active, and the indicators touched are recomputed in order.
\<close>

definition due :: "time \<Rightarrow> membership \<Rightarrow> bool" where
  "due clock m \<longleftrightarrow> m_status m = MActive \<and> (case m_expires m of Some e \<Rightarrow> e \<le> clock | None \<Rightarrow> False)"

definition select_due :: "time \<Rightarrow> nat \<Rightarrow> lifecycle_db \<Rightarrow> membership list" where
  "select_due clock batchSize db =
     filter (\<lambda>m. find_item (m_item m) (m_otype m) db \<noteq> None)
       (take batchSize (sort_key (\<lambda>m. the (m_expires m)) (filter (due clock) (members db))))"

definition expire_selected :: "time \<Rightarrow> membership \<Rightarrow> lifecycle_db \<Rightarrow> lifecycle_db" where
  "expire_selected clock row db =
     update_members (\<lambda>m. m_id m = m_id row \<and> m_status m = MActive)
       (\<lambda>m. m\<lparr>m_status := MExpired, m_expired := (case m_expired m of Some x \<Rightarrow> Some x | None \<Rightarrow> Some clock),
            m_reason := (case m_reason m of Some r \<Rightarrow> Some r
                         | None \<Rightarrow> Some (if text_or_empty (m_reason row) = [] then ''policy_ttl'' else text_or_empty (m_reason row))),
            m_updated := clock\<rparr>) db"

fun first_occurrences :: "'a list \<Rightarrow> 'a list" where
  "first_occurrences [] = []"
| "first_occurrences (x # xs) = x # first_occurrences (filter (\<lambda>y. y \<noteq> x) xs)"

definition recompute_all :: "time \<Rightarrow> (string \<times> nat) list \<Rightarrow> lifecycle_db \<Rightarrow> lifecycle_db" where
  "recompute_all clock keys db = fold (\<lambda>(ty, i). recompute clock i ty) keys db"

definition worker_finish :: "time \<Rightarrow> membership list \<Rightarrow> lifecycle_db \<Rightarrow> lifecycle_db" where
  "worker_finish clock rows db =
     recompute_all clock (first_occurrences (map (\<lambda>m. (m_otype m, m_item m)) rows)) (fold (expire_selected clock) rows db)"

definition runExpirationWorkerBatch :: "time \<Rightarrow> nat \<Rightarrow> lifecycle_db \<Rightarrow> lifecycle_db \<times> nat" where
  "runExpirationWorkerBatch clock batchSize db =
     (let rows = select_due clock (max batchSize 1) db in (worker_finish clock rows db, length rows))"

section \<open>Purging a feed\<close>

record actor =
  ac_user :: "string option"
  ac_reason :: string

definition purge_candidates :: "string \<Rightarrow> nat \<Rightarrow> lifecycle_db \<Rightarrow> membership list" where
  "purge_candidates feedId batchSize db =
     take batchSize (sort_key m_id (filter (\<lambda>m. m_feed m = feedId \<and> counts m) (members db)))"

definition purge_row :: "time \<Rightarrow> actor \<Rightarrow> membership \<Rightarrow> membership" where
  "purge_row clock ac m =
     m\<lparr>m_status := MPurged, m_purged := Some clock, m_purged_by := ac_user ac, m_purge_reason := Some (ac_reason ac),
       m_missing := None, m_expires := None, m_expired := None, m_reason := Some (ac_reason ac), m_updated := clock\<rparr>"

text \<open>One batch is one transaction; the indicators touched are recomputed inside it.\<close>

definition purge_batch :: "time \<Rightarrow> actor \<Rightarrow> membership list \<Rightarrow> lifecycle_db \<Rightarrow> lifecycle_db" where
  "purge_batch clock ac rows db =
     (let ids = map m_id rows;
          touched = filter (\<lambda>m. m_id m \<in> set ids) (members db)
      in recompute_all clock (first_occurrences (map (\<lambda>m. (m_otype m, m_item m)) touched))
           (update_members (\<lambda>m. m_id m \<in> set ids) (purge_row clock ac) db))"

text \<open>\<open>aborted n\<close>: the job is aborted during batch \<open>n\<close>, which is rolled back; the batches before it stay.\<close>

lemma recompute_members [simp]: "members (fst (recomputeIocGlobalStatus clock p i ty db)) = members db"
  by (auto simp: recomputeIocGlobalStatus_def recompute_manual_def recompute_from_feeds_def Let_def update_items_def
      split: option.splits)

lemma recompute_members' [simp]: "members (recompute clock i ty db) = members db"
  by (simp add: recompute_def)

lemma recompute_all_members [simp]: "members (recompute_all clock keys db) = members db"
  unfolding recompute_all_def by (induction keys arbitrary: db) (auto simp: case_prod_beta)

lemma purge_batch_members:
  "members (purge_batch clock ac rows db) = map (\<lambda>m. if m_id m \<in> m_id ` set rows then purge_row clock ac m else m) (members db)"
  by (simp add: purge_batch_def Let_def update_members_def)

lemma purge_candidates_mem: "m \<in> set (purge_candidates feedId n db) \<Longrightarrow> m \<in> set (members db) \<and> m_feed m = feedId \<and> counts m"
  using set_take_subset [of n "sort_key m_id (filter (\<lambda>m. m_feed m = feedId \<and> counts m) (members db))"]
  by (auto simp: purge_candidates_def)

lemma length_filter_map_less:
  assumes "\<And>x. x \<in> set xs \<Longrightarrow> P (f x) \<Longrightarrow> P x" "x \<in> set xs" "P x" "\<not> P (f x)"
  shows "length (filter P (map f xs)) < length (filter P xs)"
  using assms
proof (induction xs)
  case (Cons a xs)
  have le: "length (filter P (map f xs)) \<le> length (filter P xs)"
    by (rule length_filter_map_le) (use Cons.prems(1) in auto)
  show ?case
  proof (cases "x = a")
    case True
    then show ?thesis using Cons.prems(3,4) le by simp
  next
    case False
    then have "length (filter P (map f xs)) < length (filter P xs)" using Cons by auto
    then show ?thesis using Cons.prems(1) by auto
  qed
qed simp

lemma purge_batch_progress:
  assumes "purge_candidates feedId n db \<noteq> []"
  shows "length (filter (\<lambda>m. m_feed m = feedId \<and> counts m) (members (purge_batch clock ac (purge_candidates feedId n db) db)))
    < length (filter (\<lambda>m. m_feed m = feedId \<and> counts m) (members db))"
proof -
  let ?c = "purge_candidates feedId n db"
  have h: "hd ?c \<in> set ?c" using assms by simp
  show ?thesis unfolding purge_batch_members
    by (rule length_filter_map_less [where x = "hd ?c"])
      (use purge_candidates_mem [OF h] h in \<open>auto simp: counts_def purge_row_def split: if_splits\<close>)
qed

function purge_loop ::
  "time \<Rightarrow> actor \<Rightarrow> string \<Rightarrow> nat \<Rightarrow> (nat \<Rightarrow> bool) \<Rightarrow> nat \<Rightarrow> lifecycle_db \<Rightarrow> bool \<times> lifecycle_db" where
  "purge_loop clock ac feedId batchSize aborted k db =
     (let rows = purge_candidates feedId batchSize db
      in if aborted k then (False, db)
         else if rows = [] then (True, db)
         else purge_loop clock ac feedId batchSize aborted (Suc k) (purge_batch clock ac rows db))"
  by pat_completeness auto
termination
  by (relation "measure (\<lambda>(clock, ac, feedId, batchSize, aborted, k, db).
        length (filter (\<lambda>m. m_feed m = feedId \<and> counts m) (members db)))")
    (auto intro: purge_batch_progress)

declare purge_loop.simps [simp del]

text \<open>The batch size is at least 100; the flag says whether the job ran to its end.\<close>

definition purgeFeedDataInBatches ::
  "time \<Rightarrow> actor \<Rightarrow> string \<Rightarrow> nat \<Rightarrow> (nat \<Rightarrow> bool) \<Rightarrow> lifecycle_db \<Rightarrow> bool \<times> lifecycle_db" where
  "purgeFeedDataInBatches clock ac feedId batchSize aborted db =
     purge_loop clock ac feedId (max (if batchSize = 0 then 1000 else batchSize) 100) aborted 0 db"

section \<open>A correlation match of an expired indicator\<close>

definition match_row :: "time \<Rightarrow> time \<Rightarrow> policy option \<Rightarrow> membership \<Rightarrow> membership" where
  "match_row clock matchAt pol m =
     (if m_override m then
        (if m_override_status m = Some MExpired then m
         else fst (applyMembershipComputedFields clock pol matchAt
                (m\<lparr>m_last := max (m_last m) matchAt, m_missing := None, m_updated := clock\<rparr>)))
      else let e = computeMatchReactivationExpiresAt pol matchAt
           in m\<lparr>m_status := MActive, m_expired := None, m_reason := None, m_last := max (m_last m) matchAt, m_missing := None,
                m_policy_expires := e, m_expires := e, m_updated := clock\<rparr>)"

definition match_targets :: "ioc \<Rightarrow> string option \<Rightarrow> lifecycle_db \<Rightarrow> nat list" where
  "match_targets it feedId db =
     (let open_rows = filter (\<lambda>m. m_item m = i_id it \<and> m_otype m = i_otype it \<and> m_status m = MExpired
            \<and> \<not> (m_override m \<and> m_override_status m = Some MExpired)) (members db);
          mine = filter (\<lambda>m. case feedId of Some f \<Rightarrow> m_feed m = f | None \<Rightarrow> True) open_rows
      in map m_id (if mine \<noteq> [] then mine else open_rows))"

text \<open>The oldest row whose value and type match up to case; the stored type of an IPv4 address is \<open>ip\<close>.\<close>

definition match_item :: "string \<Rightarrow> string \<Rightarrow> lifecycle_db \<Rightarrow> ioc option" where
  "match_item observable observableType db =
     (let v = js_trim observable; t = js_lower (js_trim observableType); ty = (if t = ''ipv4'' then ''ip'' else t)
      in if v = [] \<or> ty = [] then None
         else case sort_key i_created (filter (\<lambda>i. js_lower (i_observable i) = js_lower v \<and> js_lower (i_otype i) = js_lower ty) (items db)) of
                [] \<Rightarrow> None | i # _ \<Rightarrow> Some i)"

definition reactivateIocOnCorrelationMatch ::
  "time \<Rightarrow> time \<Rightarrow> string \<Rightarrow> string \<Rightarrow> string option \<Rightarrow> lifecycle_db \<Rightarrow> lifecycle_db \<times> bool" where
  "reactivateIocOnCorrelationMatch clock matchAt observable observableType feedId db =
     (case match_item observable observableType db of
        None \<Rightarrow> (db, False)
      | Some it \<Rightarrow>
          let targets = match_targets it feedId db;
              db1 = update_members (\<lambda>m. m_id m \<in> set targets)
                      (\<lambda>m. match_row clock matchAt (getFeedPolicy (policies db) (overrides db) (m_feed m) (i_otype it)) m) db
          in if i_status it \<noteq> IExpired then (db, False)
             else if i_manual it \<and> i_manual_status it = Some MExpired then (db, False)
             else if targets = [] \<and> list_ex (\<lambda>m. m_item m = i_id it \<and> m_otype m = i_otype it) (members db) then (db, False)
             else (recompute clock (i_id it) (i_otype it)
                     (update_items (is_item (i_id it) (i_otype it)) (\<lambda>i. i\<lparr>i_matched := Some matchAt\<rparr>) db1), True))"

section \<open>Overrides by an analyst\<close>

text \<open>\<open>PATCH /api/ioc/:id/status-override\<close>, after its checks: set or clear the override, then recompute.\<close>

definition set_status_override ::
  "time \<Rightarrow> nat \<Rightarrow> string \<Rightarrow> m_status \<Rightarrow> time option \<Rightarrow> string \<Rightarrow> lifecycle_db \<Rightarrow> lifecycle_db" where
  "set_status_override clock i ty status until reason db =
     recompute clock i ty (update_items (is_item i ty)
       (\<lambda>j. j\<lparr>i_manual := True, i_manual_status := Some status, i_manual_expires := until, i_manual_reason := Some reason\<rparr>) db)"

definition clear_status_override :: "time \<Rightarrow> nat \<Rightarrow> string \<Rightarrow> string option \<Rightarrow> lifecycle_db \<Rightarrow> lifecycle_db" where
  "clear_status_override clock i ty reason db =
     recompute clock i ty (update_items (is_item i ty)
       (\<lambda>j. j\<lparr>i_manual := False, i_manual_status := None, i_manual_expires := None, i_manual_reason := reason\<rparr>) db)"

text \<open>\<open>PATCH /api/ioc/:id/feed-memberships/:membershipId/expiration-override\<close>.\<close>

definition override_row :: "time \<Rightarrow> bool \<Rightarrow> m_status option \<Rightarrow> time option \<Rightarrow> membership \<Rightarrow> membership" where
  "override_row clock enabled status until m =
     (let e = (if status = Some MExpired \<and> until = None then Some clock else until)
      in m\<lparr>m_override := enabled, m_override_status := status, m_override_expires := e, m_expires := e,
           m_status := (case status of Some s \<Rightarrow> s | None \<Rightarrow> m_status m),
           m_expired := (if status = Some MExpired then (case m_expired m of Some x \<Rightarrow> Some x | None \<Rightarrow> Some clock) else None),
           m_updated := clock\<rparr>)"

definition clear_override_row :: "time \<Rightarrow> policy option \<Rightarrow> membership \<Rightarrow> membership" where
  "clear_override_row clock pol m =
     (let e = policy_expiry pol m
      in m\<lparr>m_override := False, m_override_status := None, m_override_expires := None, m_policy_expires := e, m_expires := e,
           m_status := resolveMembershipStatus (m\<lparr>m_override := False, m_policy_expires := e\<rparr>) clock, m_updated := clock\<rparr>)"

definition set_membership_override ::
  "time \<Rightarrow> membership \<Rightarrow> bool \<Rightarrow> m_status option \<Rightarrow> time option \<Rightarrow> lifecycle_db \<Rightarrow> lifecycle_db" where
  "set_membership_override clock m enabled status until db =
     recompute clock (m_item m) (m_otype m) (update_members (\<lambda>x. m_id x = m_id m) (override_row clock enabled status until) db)"

definition clear_membership_override :: "time \<Rightarrow> membership \<Rightarrow> lifecycle_db \<Rightarrow> lifecycle_db" where
  "clear_membership_override clock m db =
     recompute clock (m_item m) (m_otype m)
       (update_members (\<lambda>x. m_id x = m_id m)
         (clear_override_row clock (getFeedPolicy (policies db) (overrides db) (m_feed m) ALL_TYPES)) db)"

end
