(* ===== verification/IocLifecycleFacts.thy ===== *)
theory IocLifecycleFacts
  imports IocLifecycle
begin

text \<open>
  Facts about the life cycle of indicators: which rows an operation touches, that source times only
  move outwards, that the status of an indicator is what its memberships say after every operation
  that runs to its end, what a batch of the worker and a purge do, and where the code departs from
  its own rules.
\<close>

section \<open>Shape of the operations on a row\<close>

text \<open>What no operation changes on a membership, and how its times move.\<close>

definition same_key :: "membership \<Rightarrow> membership \<Rightarrow> bool" where
  "same_key m m' \<longleftrightarrow> m_id m' = m_id m \<and> m_item m' = m_item m \<and> m_otype m' = m_otype m \<and> m_feed m' = m_feed m"

definition widens :: "membership \<Rightarrow> membership \<Rightarrow> bool" where
  "widens m m' \<longleftrightarrow> same_key m m' \<and> m_first m' \<le> m_first m \<and> m_last m \<le> m_last m'"

lemma widens_refl [simp]: "widens m m"
  by (simp add: widens_def same_key_def)

lemma widens_trans: "widens a b \<Longrightarrow> widens b c \<Longrightarrow> widens a c"
  by (auto simp: widens_def same_key_def)

lemma fst_if: "fst (if c then a else b) = (if c then fst a else fst b)"
  by simp

lemma widens_if: "widens m a \<Longrightarrow> widens m b \<Longrightarrow> widens m (if c then a else b)"
  by simp

lemma widens_update:
  "\<lbrakk>m_id m' = m_id m; m_item m' = m_item m; m_otype m' = m_otype m; m_feed m' = m_feed m;
    m_first m' \<le> m_first m; m_last m \<le> m_last m'\<rbrakk> \<Longrightarrow> widens m m'"
  by (simp add: widens_def same_key_def)

lemma apply_cases:
  obtains (kept) "applyMembershipComputedFields clock pol now m = (m, False)"
      "m_status m = cp_status (computeMembershipFieldPatch m pol now)"
  | (wrote) m' where "applyMembershipComputedFields clock pol now m = (m', True)"
      "widens m m'" "m_purged m' = m_purged m" "m_status m' = cp_status (computeMembershipFieldPatch m pol now)"
      "m_override m' = m_override m" "m_override_status m' = m_override_status m" "m_fingerprint m' = m_fingerprint m"
proof -
  define p where "p = computeMembershipFieldPatch m pol now"
  define m' where "m' = m\<lparr>m_policy_expires := cp_policy_expires p, m_expires := cp_expires p, m_status := cp_status p,
                 m_expired := cp_expired p, m_reason := cp_reason p, m_missing := cp_missing p\<rparr>"
  have e: "applyMembershipComputedFields clock pol now m
      = (if membershipComputedFieldsUnchanged m p \<or> m' = m then (m, False) else (m'\<lparr>m_updated := clock\<rparr>, True))"
    unfolding applyMembershipComputedFields_def Let_def m'_def p_def by (rule refl)
  have st: "m_status m' = cp_status p" by (simp add: m'_def)
  show ?thesis
  proof (cases "membershipComputedFieldsUnchanged m p \<or> m' = m")
    case True
    then have "m_status m = cp_status p" using st by (elim disjE) (simp_all add: membershipComputedFieldsUnchanged_def)
    then show ?thesis using kept True e p_def by (simp only: if_True)
  next
    case False
    have "widens m (m'\<lparr>m_updated := clock\<rparr>)" by (rule widens_update) (simp_all add: m'_def)
    moreover have "m_purged (m'\<lparr>m_updated := clock\<rparr>) = m_purged m" "m_status (m'\<lparr>m_updated := clock\<rparr>) = cp_status p"
      "m_override (m'\<lparr>m_updated := clock\<rparr>) = m_override m" "m_override_status (m'\<lparr>m_updated := clock\<rparr>) = m_override_status m"
      "m_fingerprint (m'\<lparr>m_updated := clock\<rparr>) = m_fingerprint m"
      by (simp_all add: m'_def)
    ultimately show ?thesis using wrote False e p_def by (simp only: if_False)
  qed
qed

lemma widens_apply [simp]: "widens m (fst (applyMembershipComputedFields clock pol now m))"
  by (rule apply_cases [of clock pol now m]) simp_all

lemma apply_status: "m_status (fst (applyMembershipComputedFields clock pol now m)) = cp_status (computeMembershipFieldPatch m pol now)"
  by (rule apply_cases [of clock pol now m]) simp_all

lemma apply_purged [simp]: "m_purged (fst (applyMembershipComputedFields clock pol now m)) = m_purged m"
  by (rule apply_cases [of clock pol now m]) simp_all

lemma apply_untouched: "\<not> snd (applyMembershipComputedFields clock pol now m) \<Longrightarrow> fst (applyMembershipComputedFields clock pol now m) = m"
  by (rule apply_cases [of clock pol now m]) simp_all

lemma widens_lower [simp]: "widens m (fst (lower_first_seen clock pol a m))"
  by (auto simp: lower_first_seen_def split: option.splits intro!: widens_trans [OF widens_update widens_apply])

lemma widens_observe [simp]: "widens m (fst (applyMonotonicLastSeenInFeed clock t m))"
  by (auto simp: applyMonotonicLastSeenInFeed_def split: option.splits intro!: widens_update)

lemma widens_overridden [simp]: "widens m (fst (reimport_overridden clock a m))"
  unfolding reimport_overridden_def Let_def fst_if by (rule widens_if) (simp_all add: widens_def same_key_def)

lemma widens_plain [simp]: "widens m (fst (reimport_plain clock a m))"
  unfolding reimport_plain_def Let_def fst_if by (rule widens_if) (simp_all add: widens_def same_key_def)

lemma widens_confidence [simp]: "widens m (fst (set_confidence clock a m))"
  unfolding set_confidence_def Let_def fst_if by (rule widens_if) (simp_all add: widens_def same_key_def)

lemma widens_noop: "widens m (ir_row (finishHealthyNoop clock pol a m touched out))"
  by (simp add: finishHealthyNoop_def)

lemma widens_finish: "widens m (ir_row (finish_import clock pol a m touched re out))"
  by (simp add: finish_import_def Let_def case_prod_beta widens_trans [OF widens_apply widens_confidence])

text \<open>The paths through an import of an existing row.\<close>

lemma import_cases:
  fixes clock pol a m
  defines "m1 \<equiv> fst (lower_first_seen clock pol a m)"
  defines "lowered \<equiv> snd (lower_first_seen clock pol a m)"
  defines "m2 \<equiv> fst (applyMonotonicLastSeenInFeed clock (im_observed a) m1)"
  defines "moved \<equiv> snd (applyMonotonicLastSeenInFeed clock (im_observed a) m1)"
  obtains (noop) out where "import_existing clock pol a m = finishHealthyNoop clock pol a m2 (lowered \<or> moved) out" "healthyActive m"
  | (adopt) out where "import_existing clock pol a m
      = finishHealthyNoop clock pol a (m2\<lparr>m_fingerprint := fingerprint_arg a\<rparr>) (lowered \<or> moved) out" "healthyActive m"
  | (overridden) out where "import_existing clock pol a m
      = finish_import clock pol a (fst (reimport_overridden clock a m2)) ((lowered \<or> moved) \<or> snd (reimport_overridden clock a m2))
          (snd (reimport_overridden clock a m2) \<and> \<not> healthyActive m) out" "m_override m2"
  | (plain) out where "import_existing clock pol a m
      = finish_import clock pol a (fst (reimport_plain clock a m2)) ((lowered \<or> moved) \<or> snd (reimport_plain clock a m2))
          (snd (reimport_plain clock a m2) \<and> \<not> healthyActive m) out" "\<not> m_override m2"
proof -
  note e = import_existing_def [of clock pol a m, unfolded Let_def case_prod_beta, folded m1_def lowered_def, folded m2_def moved_def]
  consider "im_reactivateOnly a \<and> healthyActive m"
    | "\<not> (im_reactivateOnly a \<and> healthyActive m)" "fingerprint_arg a \<noteq> None \<and> healthyActive m \<and> m_fingerprint m2 = fingerprint_arg a"
    | "\<not> (im_reactivateOnly a \<and> healthyActive m)" "\<not> (fingerprint_arg a \<noteq> None \<and> healthyActive m \<and> m_fingerprint m2 = fingerprint_arg a)"
      "fingerprint_arg a \<noteq> None \<and> healthyActive m \<and> m_fingerprint m2 = None"
    | "\<not> (im_reactivateOnly a \<and> healthyActive m)" "\<not> (fingerprint_arg a \<noteq> None \<and> healthyActive m \<and> m_fingerprint m2 = fingerprint_arg a)"
      "\<not> (fingerprint_arg a \<noteq> None \<and> healthyActive m \<and> m_fingerprint m2 = None)"
      "healthyActive m \<and> fingerprint_arg a = None \<and> lastSeenWriteAt a \<le> m_last m2"
    | "\<not> (im_reactivateOnly a \<and> healthyActive m)" "\<not> (fingerprint_arg a \<noteq> None \<and> healthyActive m \<and> m_fingerprint m2 = fingerprint_arg a)"
      "\<not> (fingerprint_arg a \<noteq> None \<and> healthyActive m \<and> m_fingerprint m2 = None)"
      "\<not> (healthyActive m \<and> fingerprint_arg a = None \<and> lastSeenWriteAt a \<le> m_last m2)" "m_override m2"
    | "\<not> (im_reactivateOnly a \<and> healthyActive m)" "\<not> (fingerprint_arg a \<noteq> None \<and> healthyActive m \<and> m_fingerprint m2 = fingerprint_arg a)"
      "\<not> (fingerprint_arg a \<noteq> None \<and> healthyActive m \<and> m_fingerprint m2 = None)"
      "\<not> (healthyActive m \<and> fingerprint_arg a = None \<and> lastSeenWriteAt a \<le> m_last m2)" "\<not> m_override m2"
    by blast
  then show ?thesis
  proof cases
    case 1
    from e [unfolded if_P [OF 1]] show ?thesis by (rule noop) (use 1 in blast)
  next
    case 2
    from e [unfolded if_not_P [OF 2(1)] if_P [OF 2(2)]] show ?thesis by (rule noop) (use 2 in blast)
  next
    case 3
    from e [unfolded if_not_P [OF 3(1)] if_not_P [OF 3(2)] if_P [OF 3(3)]] show ?thesis by (rule adopt) (use 3 in blast)
  next
    case 4
    from e [unfolded if_not_P [OF 4(1)] if_not_P [OF 4(2)] if_not_P [OF 4(3)] if_P [OF 4(4)]] show ?thesis
      by (rule noop) (use 4 in blast)
  next
    case 5
    from e [unfolded if_not_P [OF 5(1)] if_not_P [OF 5(2)] if_not_P [OF 5(3)] if_not_P [OF 5(4)] if_P [OF 5(5)]] show ?thesis
      by (rule overridden) (rule 5(5))
  next
    case 6
    from e [unfolded if_not_P [OF 6(1)] if_not_P [OF 6(2)] if_not_P [OF 6(3)] if_not_P [OF 6(4)] if_not_P [OF 6(5)]] show ?thesis
      by (rule plain) (rule 6(5))
  qed
qed

lemma widens_import: "widens m (ir_row (import_existing clock pol a m))"
proof -
  let ?m2 = "fst (applyMonotonicLastSeenInFeed clock (im_observed a) (fst (lower_first_seen clock pol a m)))"
  have m2: "widens m ?m2" by (rule widens_trans [OF widens_lower widens_observe])
  have fp: "widens m (?m2\<lparr>m_fingerprint := fp\<rparr>)" for fp
    by (rule widens_trans [OF m2 widens_update]) simp_all
  show ?thesis
    by (rule import_cases [of clock pol a m])
      (auto simp del: widens_overridden widens_plain intro: widens_trans [OF m2] widens_trans [OF fp] widens_noop widens_finish
        widens_trans [OF widens_trans [OF m2 widens_overridden] widens_finish]
        widens_trans [OF widens_trans [OF m2 widens_plain] widens_finish])
qed

text \<open>A call that reports the row untouched and not reactivated changed at most the stored fingerprint.\<close>

lemma lower_untouched: "\<not> snd (lower_first_seen clock pol a m) \<Longrightarrow> fst (lower_first_seen clock pol a m) = m"
  by (auto simp: lower_first_seen_def split: option.splits if_splits)

lemma if_pair_untouched: "\<not> snd (if c then (x, True) else (y, False)) \<Longrightarrow> fst (if c then (x, True) else (y, False)) = y"
  by (cases c) simp_all

lemma observe_untouched: "\<not> snd (applyMonotonicLastSeenInFeed clock t m) \<Longrightarrow> fst (applyMonotonicLastSeenInFeed clock t m) = m"
  unfolding applyMonotonicLastSeenInFeed_def
  by (cases t, simp, simp only: option.case, rule if_pair_untouched)

lemma reimport_untouched:
  "\<not> snd (reimport_overridden clock a m) \<Longrightarrow> fst (reimport_overridden clock a m) = m"
  "\<not> snd (reimport_plain clock a m) \<Longrightarrow> fst (reimport_plain clock a m) = m"
  unfolding reimport_overridden_def reimport_plain_def Let_def by (rule if_pair_untouched, assumption)+

lemma confidence_untouched: "\<not> snd (set_confidence clock a m) \<Longrightarrow> fst (set_confidence clock a m) = m"
  unfolding set_confidence_def Let_def by (rule if_pair_untouched)

lemma finish_untouched:
  "\<not> ir_touched (finish_import clock pol a m touched re out) \<Longrightarrow> ir_row (finish_import clock pol a m touched re out) = m \<and> \<not> touched"
  by (auto simp: finish_import_def Let_def case_prod_beta apply_untouched confidence_untouched)

lemma noop_untouched:
  "\<not> ir_touched (finishHealthyNoop clock pol a m touched out) \<Longrightarrow> ir_row (finishHealthyNoop clock pol a m touched out) = m \<and> \<not> touched"
  by (simp add: finishHealthyNoop_def)

lemma import_untouched:
  assumes "\<not> ir_touched (import_existing clock pol a m)"
  shows "\<exists>fp. ir_row (import_existing clock pol a m) = m\<lparr>m_fingerprint := fp\<rparr>"
proof -
  let ?l = "lower_first_seen clock pol a m"
  let ?o = "applyMonotonicLastSeenInFeed clock (im_observed a) (fst ?l)"
  have keep: "\<exists>fp. m = m\<lparr>m_fingerprint := fp\<rparr>" by (rule exI [of _ "m_fingerprint m"]) simp
  have quiet: "fst ?o = m" if "\<not> snd ?l" "\<not> snd ?o"
    using lower_untouched [OF that(1)] observe_untouched [OF that(2)] by simp
  show ?thesis
  proof (rule import_cases [of clock pol a m])
    fix out
    assume e: "import_existing clock pol a m = finishHealthyNoop clock pol a (fst ?o) (snd ?l \<or> snd ?o) out"
    from noop_untouched [OF assms [unfolded e]] have r: "ir_row (import_existing clock pol a m) = fst ?o" "\<not> snd ?l" "\<not> snd ?o"
      unfolding e by blast+
    show ?thesis unfolding r(1) quiet [OF r(2,3)] by (rule keep)
  next
    fix out
    assume e: "import_existing clock pol a m
      = finishHealthyNoop clock pol a (fst ?o\<lparr>m_fingerprint := fingerprint_arg a\<rparr>) (snd ?l \<or> snd ?o) out"
    from noop_untouched [OF assms [unfolded e]]
    have r: "ir_row (import_existing clock pol a m) = fst ?o\<lparr>m_fingerprint := fingerprint_arg a\<rparr>" "\<not> snd ?l" "\<not> snd ?o"
      unfolding e by blast+
    show ?thesis unfolding r(1) quiet [OF r(2,3)] by blast
  next
    fix out
    assume e: "import_existing clock pol a m
      = finish_import clock pol a (fst (reimport_overridden clock a (fst ?o))) ((snd ?l \<or> snd ?o) \<or> snd (reimport_overridden clock a (fst ?o)))
          (snd (reimport_overridden clock a (fst ?o)) \<and> \<not> healthyActive m) out"
    from finish_untouched [OF assms [unfolded e]]
    have r: "ir_row (import_existing clock pol a m) = fst (reimport_overridden clock a (fst ?o))" "\<not> snd ?l" "\<not> snd ?o"
      "\<not> snd (reimport_overridden clock a (fst ?o))"
      unfolding e by blast+
    show ?thesis unfolding r(1) reimport_untouched(1) [OF r(4)] unfolding quiet [OF r(2,3)] by (rule keep)
  next
    fix out
    assume e: "import_existing clock pol a m
      = finish_import clock pol a (fst (reimport_plain clock a (fst ?o))) ((snd ?l \<or> snd ?o) \<or> snd (reimport_plain clock a (fst ?o)))
          (snd (reimport_plain clock a (fst ?o)) \<and> \<not> healthyActive m) out"
    from finish_untouched [OF assms [unfolded e]]
    have r: "ir_row (import_existing clock pol a m) = fst (reimport_plain clock a (fst ?o))" "\<not> snd ?l" "\<not> snd ?o"
      "\<not> snd (reimport_plain clock a (fst ?o))"
      unfolding e by blast+
    show ?thesis unfolding r(1) reimport_untouched(2) [OF r(4)] unfolding quiet [OF r(2,3)] by (rule keep)
  qed
qed

section \<open>Keys, and the memberships of an indicator\<close>

definition key_of :: "membership \<Rightarrow> string \<times> nat" where
  "key_of m = (m_otype m, m_item m)"

definition ikey :: "ioc \<Rightarrow> string \<times> nat" where
  "ikey it = (i_otype it, i_id it)"

definition iname :: "ioc \<Rightarrow> string \<times> string" where
  "iname it = (i_observable it, i_otype it)"

text \<open>The primary keys, one row for a value and type, one membership for an indicator and feed, no dangling membership.\<close>

definition db_wf :: "lifecycle_db \<Rightarrow> bool" where
  "db_wf db \<longleftrightarrow> distinct (map ikey (items db)) \<and> distinct (map iname (items db)) \<and> distinct (map m_id (members db))
     \<and> list_all (\<lambda>m. key_of m \<in> set (map ikey (items db))) (members db)"

definition listed :: "lifecycle_db \<Rightarrow> string \<times> nat \<Rightarrow> membership list" where
  "listed db k = filter (\<lambda>m. key_of m = k) (members db)"

lemma is_item_ikey: "is_item i ty it \<longleftrightarrow> ikey it = (ty, i)"
  by (auto simp: is_item_def ikey_def)

lemma same_name: "\<lbrakk>db_wf db; it \<in> set (items db); jt \<in> set (items db); iname it = iname jt\<rbrakk> \<Longrightarrow> it = jt"
  unfolding db_wf_def distinct_map inj_on_def by blast

lemma same_ikey: "\<lbrakk>db_wf db; it \<in> set (items db); jt \<in> set (items db); ikey it = ikey jt\<rbrakk> \<Longrightarrow> it = jt"
  unfolding db_wf_def distinct_map inj_on_def by blast

lemma same_mid: "\<lbrakk>db_wf db; m \<in> set (members db); n \<in> set (members db); m_id m = m_id n\<rbrakk> \<Longrightarrow> m = n"
  unfolding db_wf_def distinct_map inj_on_def by blast

lemma memberships_of_item:
  assumes "db_wf db" "it \<in> set (items db)"
  shows "memberships_of (i_observable it) (i_otype it) db = listed db (ikey it)"
proof -
  have "list_ex (\<lambda>jt. is_item (m_item m) (m_otype m) jt \<and> i_observable jt = i_observable it \<and> i_otype jt = i_otype it) (items db)
      \<longleftrightarrow> key_of m = ikey it" for m
  proof
    assume "list_ex (\<lambda>jt. is_item (m_item m) (m_otype m) jt \<and> i_observable jt = i_observable it \<and> i_otype jt = i_otype it) (items db)"
    then obtain jt where "jt \<in> set (items db)" "is_item (m_item m) (m_otype m) jt" "iname jt = iname it"
      by (auto simp: list_ex_iff iname_def)
    moreover from this have "jt = it" using same_name [OF assms(1) _ assms(2)] by blast
    ultimately show "key_of m = ikey it" by (simp add: is_item_ikey key_of_def)
  next
    assume "key_of m = ikey it"
    then show "list_ex (\<lambda>jt. is_item (m_item m) (m_otype m) jt \<and> i_observable jt = i_observable it \<and> i_otype jt = i_otype it) (items db)"
      using assms(2) by (auto simp: list_ex_iff is_item_def key_of_def ikey_def)
  qed
  then show ?thesis unfolding memberships_of_def listed_def by (intro filter_cong refl)
qed

lemma find_item_eq:
  assumes "db_wf db" "it \<in> set (items db)" "ikey it = (ty, i)"
  shows "find_item i ty db = Some it"
proof -
  obtain jt where j: "find_item i ty db = Some jt" unfolding find_item_def
    using assms(2,3) by (cases "find (is_item i ty) (items db)") (auto simp: find_None_iff is_item_ikey)
  then have "jt \<in> set (items db)" "ikey jt = (ty, i)" by (auto simp: find_item_def find_Some_iff is_item_ikey)
  then show ?thesis using same_ikey [OF assms(1)] assms(2,3) j by metis
qed

lemma find_itemD: "find_item i ty db = Some it \<Longrightarrow> it \<in> set (items db) \<and> ikey it = (ty, i)"
  by (auto simp: find_item_def find_Some_iff is_item_ikey)

section \<open>An indicator that agrees with its memberships\<close>

definition item_ok :: "lifecycle_db \<Rightarrow> ioc \<Rightarrow> bool" where
  "item_ok db it \<longleftrightarrow> i_manual it \<or> i_status it = IDisabled \<or> i_status it = ISuppressed
     \<or> i_status it = feed_status (memberships_of (i_observable it) (i_otype it) db)"

text \<open>All indicators but those of the set \<open>D\<close> agree.\<close>

definition agree_but :: "(string \<times> nat) set \<Rightarrow> lifecycle_db \<Rightarrow> bool" where
  "agree_but D db \<longleftrightarrow> (\<forall>it \<in> set (items db). ikey it \<in> D \<or> item_ok db it)"

lemma agree_mono: "agree_but D db \<Longrightarrow> D \<subseteq> E \<Longrightarrow> agree_but E db"
  by (auto simp: agree_but_def)

lemma item_ok_listed: "\<lbrakk>db_wf db; it \<in> set (items db)\<rbrakk> \<Longrightarrow> item_ok db it \<longleftrightarrow> i_manual it \<or> i_status it = IDisabled
    \<or> i_status it = ISuppressed \<or> i_status it = feed_status (listed db (ikey it))"
  by (simp add: item_ok_def memberships_of_item)

lemma feed_status_cong: "map counts ms = map counts ns \<Longrightarrow> feed_status ms = feed_status ns"
proof -
  assume "map counts ms = map counts ns"
  then have "ms = [] \<longleftrightarrow> ns = []" "True \<in> set (map counts ms) \<longleftrightarrow> True \<in> set (map counts ns)" by (auto dest: map_eq_imp_length_eq)
  moreover have "list_ex counts xs \<longleftrightarrow> True \<in> set (map counts xs)" for xs by (auto simp: list_ex_iff)
  ultimately show ?thesis by (simp add: feed_status_def)
qed

section \<open>A recomputation\<close>

text \<open>It rewrites rows of the table in place, and only the row it is asked for.\<close>

definition keeps_names :: "(ioc \<Rightarrow> ioc) \<Rightarrow> bool" where
  "keeps_names f \<longleftrightarrow> (\<forall>it. i_id (f it) = i_id it \<and> i_observable (f it) = i_observable it \<and> i_otype (f it) = i_otype it)"

lemma wf_map_items:
  assumes "keeps_names f" "items db' = map f (items db)" "members db' = members db"
  shows "db_wf db' \<longleftrightarrow> db_wf db"
proof -
  have "map ikey (items db') = map ikey (items db)" "map iname (items db') = map iname (items db)"
    using assms(1,2) by (auto simp: ikey_def iname_def keeps_names_def)
  then show ?thesis unfolding db_wf_def assms(3) by (simp only:)
qed

lemma set_status_sel [simp]:
  "i_id (set_status s e x r it) = i_id it" "i_observable (set_status s e x r it) = i_observable it"
  "i_otype (set_status s e x r it) = i_otype it" "i_manual (set_status s e x r it) = i_manual it"
  "i_status (set_status s e x r it) = s"
  by (simp_all add: set_status_def)

lemma recompute_shape:
  fixes clock p i ty
  assumes wf: "db_wf db"
  defines "db' \<equiv> fst (recomputeIocGlobalStatus clock p i ty db)"
  shows "\<exists>f. keeps_names f \<and> items db' = map f (items db)
    \<and> (\<forall>it \<in> set (items db). ikey it \<noteq> (ty, i) \<longrightarrow> f it = it)
    \<and> (\<forall>it \<in> set (items db). ikey it = (ty, i) \<longrightarrow> i_manual (f it) = i_manual it
         \<and> (i_manual it \<or> i_status (f it) = IDisabled \<or> i_status (f it) = ISuppressed
            \<or> i_status (f it) = feed_status (listed db (ikey it))))"
proof (cases "find_item i ty db")
  case None
  then have "\<forall>it \<in> set (items db). ikey it \<noteq> (ty, i)" by (auto simp: find_item_def find_None_iff is_item_ikey)
  then show ?thesis using None by (intro exI [of _ id]) (auto simp: db'_def recomputeIocGlobalStatus_def keeps_names_def)
next
  case (Some it)
  note it = find_itemD [OF Some]
  have only: "jt = it" if "jt \<in> set (items db)" "ikey jt = (ty, i)" for jt using same_ikey [OF wf that(1)] it that(2) by metis
  have named: "jt = it" if "jt \<in> set (items db)" "i_observable jt = i_observable it" "i_otype jt = i_otype it" for jt
    using same_name [OF wf that(1)] it that(2,3) by (auto simp: iname_def)
  consider (sup) "p (i_observable it) (i_otype it)" | (dis) "\<not> p (i_observable it) (i_otype it)" "i_status it = IDisabled"
    | (man) "\<not> p (i_observable it) (i_otype it)" "i_status it \<noteq> IDisabled" "i_manual it"
    | (feeds) "\<not> p (i_observable it) (i_otype it)" "i_status it \<noteq> IDisabled" "\<not> i_manual it" by blast
  then show ?thesis
  proof cases
    case sup
    then show ?thesis using Some only
      by (intro exI [of _ "\<lambda>j. if is_item i ty j then j\<lparr>i_status := ISuppressed\<rparr> else j"])
        (auto simp: db'_def recomputeIocGlobalStatus_def update_items_def keeps_names_def is_item_ikey)
  next
    case dis
    then show ?thesis using Some only
      by (intro exI [of _ id]) (auto simp: db'_def recomputeIocGlobalStatus_def keeps_names_def)
  next
    case man
    obtain s where "db' = update_items (is_item (i_id it) (i_otype it)) s db" "keeps_names s" "\<And>j. i_manual (s j) = i_manual j"
      using Some man by (auto simp: db'_def recomputeIocGlobalStatus_def recompute_manual_def Let_def keeps_names_def)
    then show ?thesis using it man(3) only
      by (intro exI [of _ "\<lambda>j. if is_item (i_id it) (i_otype it) j then s j else j"])
        (auto simp: update_items_def keeps_names_def is_item_ikey ikey_def)
  next
    case feeds
    let ?s = "feed_status (listed db (ikey it))"
    have e: "db' = fst (recompute_from_feeds clock it db)"
      using Some feeds by (simp add: db'_def recomputeIocGlobalStatus_def)
    note ms = memberships_of_item [OF wf conjunct1 [OF it]]
    show ?thesis
    proof (cases "db' = db \<and> i_status it = ?s")
      case True
      then show ?thesis using only by (intro exI [of _ id]) (auto simp: keeps_names_def)
    next
      case False
      then obtain e' x r where "db' = update_items (\<lambda>j. i_observable j = i_observable it \<and> i_otype j = i_otype it) (set_status ?s e' x r) db"
        using e by (auto simp: recompute_from_feeds_def Let_def ms split: if_splits)
      then show ?thesis using named only it
        by (intro exI [of _ "\<lambda>j. if i_observable j = i_observable it \<and> i_otype j = i_otype it then set_status ?s e' x r j else j"])
          (auto simp: update_items_def keeps_names_def)
    qed
  qed
qed

lemma recompute_others [simp]:
  "policies (fst (recomputeIocGlobalStatus clock p i ty db)) = policies db"
  "overrides (fst (recomputeIocGlobalStatus clock p i ty db)) = overrides db"
  "feeds (fst (recomputeIocGlobalStatus clock p i ty db)) = feeds db"
  "supp (fst (recomputeIocGlobalStatus clock p i ty db)) = supp db"
  by (auto simp: recomputeIocGlobalStatus_def recompute_manual_def recompute_from_feeds_def Let_def update_items_def split: option.splits)

lemma listed_members: "members db' = members db \<Longrightarrow> listed db' k = listed db k"
  by (simp add: listed_def)

lemma recompute_agrees:
  fixes clock p i ty
  assumes wf: "db_wf db" and ag: "agree_but D db"
  defines "db' \<equiv> fst (recomputeIocGlobalStatus clock p i ty db)"
  shows "db_wf db'" "agree_but (D - {(ty, i)}) db'"
proof -
  obtain f where f: "keeps_names f" "items db' = map f (items db)"
    "\<And>it. it \<in> set (items db) \<Longrightarrow> ikey it \<noteq> (ty, i) \<Longrightarrow> f it = it"
    "\<And>it. it \<in> set (items db) \<Longrightarrow> ikey it = (ty, i) \<Longrightarrow> i_manual (f it) = i_manual it
         \<and> (i_manual it \<or> i_status (f it) = IDisabled \<or> i_status (f it) = ISuppressed
            \<or> i_status (f it) = feed_status (listed db (ikey it)))"
    using recompute_shape [OF wf, of clock p i ty] unfolding db'_def by blast
  have ms: "members db' = members db" by (simp add: db'_def)
  show wf': "db_wf db'" using wf_map_items [OF f(1,2) ms] wf by simp
  have key: "ikey (f it) = ikey it" for it using f(1) by (simp add: ikey_def keeps_names_def)
  show "agree_but (D - {(ty, i)}) db'" unfolding agree_but_def
  proof
    fix jt assume "jt \<in> set (items db')"
    then obtain it where it: "it \<in> set (items db)" "jt = f it" using f(2) by auto
    have "item_ok db' jt \<longleftrightarrow> i_manual jt \<or> i_status jt = IDisabled \<or> i_status jt = ISuppressed
        \<or> i_status jt = feed_status (listed db (ikey it))"
      using item_ok_listed [OF wf' \<open>jt \<in> set (items db')\<close>] listed_members [OF ms] it(2) key by simp
    then show "ikey jt \<in> D - {(ty, i)} \<or> item_ok db' jt"
      using f(3,4) [OF it(1)] ag it key item_ok_listed [OF wf it(1)] by (cases "ikey it = (ty, i)") (auto simp: agree_but_def)
  qed
qed

lemma recompute_agrees':
  "\<lbrakk>db_wf db; agree_but D db\<rbrakk> \<Longrightarrow> db_wf (recompute clock i ty db) \<and> agree_but (D - {(ty, i)}) (recompute clock i ty db)"
  unfolding recompute_def by (blast intro: recompute_agrees)

lemma recompute_all_agrees:
  "\<lbrakk>db_wf db; agree_but (D \<union> set keys) db\<rbrakk> \<Longrightarrow> db_wf (recompute_all clock keys db) \<and> agree_but D (recompute_all clock keys db)"
proof (induction keys arbitrary: db)
  case (Cons k ks)
  obtain ty i where k: "k = (ty, i)" by force
  have step: "db_wf (recompute clock i ty db)" "agree_but (D \<union> set ks) (recompute clock i ty db)"
    using recompute_agrees' [OF Cons.prems, where clock = clock and i = i and ty = ty] k by (auto elim: agree_mono)
  from Cons.IH [OF step] show ?case by (simp add: recompute_all_def k)
qed (simp add: recompute_all_def)

lemma flush_agrees:
  "\<lbrakk>db_wf db; agree_but (E \<union> set (x_deferred x)) db\<rbrakk>
     \<Longrightarrow> db_wf (flushDeferredIocRecomputes clock x db) \<and> agree_but E (flushDeferredIocRecomputes clock x db)"
proof -
  have "\<lbrakk>db_wf db; agree_but (E \<union> set ks) db\<rbrakk>
      \<Longrightarrow> db_wf (fold (\<lambda>(ty, i). fst \<circ> recomputeIocGlobalStatus clock p i ty) ks db)
        \<and> agree_but E (fold (\<lambda>(ty, i). fst \<circ> recomputeIocGlobalStatus clock p i ty) ks db)" for ks p db
  proof (induction ks arbitrary: db)
    case (Cons k ks)
    obtain ty i where k: "k = (ty, i)" by force
    have step: "db_wf (fst (recomputeIocGlobalStatus clock p i ty db))"
      "agree_but (E \<union> set ks) (fst (recomputeIocGlobalStatus clock p i ty db))"
      using recompute_agrees [OF Cons.prems, where clock = clock and p = p and i = i and ty = ty] k by (auto elim: agree_mono)
    from Cons.IH [OF step] show ?case by (simp add: k)
  qed simp
  then show "\<lbrakk>db_wf db; agree_but (E \<union> set (x_deferred x)) db\<rbrakk>
     \<Longrightarrow> db_wf (flushDeferredIocRecomputes clock x db) \<and> agree_but E (flushDeferredIocRecomputes clock x db)"
    unfolding flushDeferredIocRecomputes_def by blast
qed

section \<open>Changing memberships\<close>

definition evolves :: "lifecycle_db \<Rightarrow> lifecycle_db \<Rightarrow> bool" where
  "evolves db db' \<longleftrightarrow> (\<forall>m \<in> set (members db). \<exists>m' \<in> set (members db'). widens m m')"

lemma evolves_refl: "members db' = members db \<Longrightarrow> evolves db db'"
  unfolding evolves_def by (metis widens_refl)

lemma evolves_trans: "evolves a b \<Longrightarrow> evolves b c \<Longrightarrow> evolves a c"
  unfolding evolves_def by (meson widens_trans)

text \<open>What an operation leaves behind: a well-formed table, all indicators in agreement but those in \<open>D\<close>, times that widened.\<close>

definition good :: "(string \<times> nat) set \<Rightarrow> lifecycle_db \<Rightarrow> bool" where
  "good D db \<longleftrightarrow> db_wf db \<and> agree_but D db"

lemma widens_key: "widens m m' \<Longrightarrow> key_of m' = key_of m \<and> m_id m' = m_id m"
  by (simp add: widens_def same_key_def key_of_def)

lemma agree_transfer:
  assumes g: "good D db" and wf: "db_wf db'" and it: "items db' = items db"
    and same: "\<And>k. k \<notin> K \<Longrightarrow> map counts (listed db' k) = map counts (listed db k)"
  shows "agree_but (D \<union> K) db'"
  unfolding agree_but_def
proof
  fix x assume x: "x \<in> set (items db')"
  then have y: "x \<in> set (items db)" using it by simp
  have wf0: "db_wf db" and ag: "ikey x \<in> D \<or> item_ok db x" using g y by (auto simp: good_def agree_but_def)
  show "ikey x \<in> D \<union> K \<or> item_ok db' x"
  proof (cases "ikey x \<in> K")
    case False
    then have "feed_status (listed db' (ikey x)) = feed_status (listed db (ikey x))" by (intro feed_status_cong same)
    then show ?thesis using ag item_ok_listed [OF wf x] item_ok_listed [OF wf0 y] by auto
  qed simp
qed

lemma map_members:
  assumes g: "good D db" and it: "items db' = items db" and ms: "members db' = map f (members db)"
    and w: "\<And>m. m \<in> set (members db) \<Longrightarrow> widens m (f m)"
    and K: "\<And>m. m \<in> set (members db) \<Longrightarrow> key_of m \<notin> K \<Longrightarrow> counts (f m) = counts m"
  shows "good (D \<union> K) db'" "evolves db db'"
proof -
  have key: "key_of (f m) = key_of m" "m_id (f m) = m_id m" if "m \<in> set (members db)" for m
    using widens_key [OF w [OF that]] by simp_all
  have keys: "map key_of (members db') = map key_of (members db)" "map m_id (members db') = map m_id (members db)"
    unfolding ms using key by auto
  have "db_wf db" using g by (simp add: good_def)
  moreover have "list_all (\<lambda>m. key_of m \<in> S) (members db') \<longleftrightarrow> list_all (\<lambda>m. key_of m \<in> S) (members db)" for S
    using arg_cong [OF keys(1), of "\<lambda>ks. list_all (\<lambda>k. k \<in> S) ks"] by (simp add: list.pred_map comp_def)
  ultimately have wf: "db_wf db'" unfolding db_wf_def it keys(2) by simp
  have "map counts (listed db' k) = map counts (listed db k)" if "k \<notin> K" for k
  proof -
    have "listed db' k = map f (listed db k)"
      unfolding listed_def ms filter_map by (intro arg_cong [where f = "map f"] filter_cong) (use key in auto)
    then show ?thesis using K that by (auto simp: listed_def)
  qed
  then have "agree_but (D \<union> K) db'" by (intro agree_transfer [OF g wf it]) auto
  then show "good (D \<union> K) db'" using wf by (simp add: good_def)
  show "evolves db db'" using w unfolding evolves_def ms by auto
qed

lemma update_members_good:
  assumes "good D db" "\<And>m. m \<in> set (members db) \<Longrightarrow> P m \<Longrightarrow> widens m (f m)"
    "\<And>m. m \<in> set (members db) \<Longrightarrow> P m \<Longrightarrow> counts (f m) \<noteq> counts m \<Longrightarrow> key_of m \<in> K"
  shows "good (D \<union> K) (update_members P f db)" "evolves db (update_members P f db)"
proof -
  note r = map_members [OF assms(1), of "update_members P f db" "\<lambda>m. if P m then f m else m" K]
  have "items (update_members P f db) = items db" "members (update_members P f db) = map (\<lambda>m. if P m then f m else m) (members db)"
    by (simp_all add: update_members_def)
  moreover have "widens m (if P m then f m else m)" if "m \<in> set (members db)" for m using assms(2) [OF that] by simp
  moreover have "counts (if P m then f m else m) = counts m" if "m \<in> set (members db)" "key_of m \<notin> K" for m
    using assms(3) [OF that(1)] that(2) by auto
  ultimately show "good (D \<union> K) (update_members P f db)" "evolves db (update_members P f db)"
    using r by blast+
qed

lemma recompute_good: "good D db \<Longrightarrow> good (D - {(ty, i)}) (fst (recomputeIocGlobalStatus clock p i ty db))"
  unfolding good_def using recompute_agrees [of db D] by blast

lemma recompute_good': "good D db \<Longrightarrow> good (D - {(ty, i)}) (recompute clock i ty db)"
  unfolding recompute_def by (rule recompute_good)

lemma good_mono: "good D db \<Longrightarrow> D \<subseteq> E \<Longrightarrow> good E db"
  unfolding good_def using agree_mono by blast

text \<open>A change of columns of an indicator that a recomputation of it repairs.\<close>

lemma update_items_good:
  assumes g: "good D db" and f: "keeps_names f"
  shows "good (insert (ty, i) D) (update_items (is_item i ty) f db)"
proof -
  let ?db = "update_items (is_item i ty) f db"
  let ?f = "\<lambda>it. if is_item i ty it then f it else it"
  have k: "keeps_names ?f" using f by (simp add: keeps_names_def)
  have e: "items ?db = map ?f (items db)" "members ?db = members db" by (simp_all add: update_items_def)
  have wf: "db_wf ?db" using wf_map_items [OF k e] g by (simp add: good_def)
  have "ikey jt \<in> insert (ty, i) D \<or> item_ok ?db jt" if jt: "jt \<in> set (items ?db)" for jt
  proof (cases "ikey jt = (ty, i)")
    case False
    obtain it where "it \<in> set (items db)" "jt = ?f it" using jt e(1) by auto
    with False k have "jt = it" by (auto simp: is_item_ikey keeps_names_def ikey_def split: if_splits)
    then show ?thesis
      using g \<open>it \<in> set (items db)\<close> item_ok_listed [OF wf jt] item_ok_listed [of db it] listed_members [OF e(2)]
      by (auto simp: good_def agree_but_def)
  qed simp
  then show ?thesis using wf by (simp add: good_def agree_but_def)
qed

lemma update_items_evolves [simp]: "evolves db (update_items P f db)"
  by (rule evolves_refl) (simp add: update_items_def)

section \<open>Imports keep the agreement\<close>

lemma next_member_id_fresh: "m \<in> set (members db) \<Longrightarrow> m_id m < next_member_id db"
  unfolding next_member_id_def by (simp add: less_Suc_eq_le Max_ge)

lemma next_item_id_fresh: "it \<in> set (items db) \<Longrightarrow> i_id it < next_item_id db"
  unfolding next_item_id_def by (simp add: less_Suc_eq_le Max_ge)

definition new_row_of :: "import_args \<Rightarrow> lifecycle_db \<Rightarrow> membership \<Rightarrow> bool" where
  "new_row_of a db r \<longleftrightarrow> m_id r = next_member_id db \<and> key_of r = (im_otype a, im_item a)"

lemma import_row_cases:
  obtains (old) m where "find (same_membership a) (members db) = Some m" "m \<in> set (members db)" "key_of m = (im_otype a, im_item a)"
      "widens m (ir_row (import_row clock pol a db))"
      "\<not> ir_touched (import_row clock pol a db) \<Longrightarrow> counts (ir_row (import_row clock pol a db)) = counts m"
  | (new) "find (same_membership a) (members db) = None" "new_row_of a db (ir_row (import_row clock pol a db))"
      "ir_touched (import_row clock pol a db)"
proof (cases "find (same_membership a) (members db)")
  case None
  have "widens (new_membership clock (next_member_id db) a) (ir_row (import_row clock pol a db))"
    unfolding import_row_def None option.case by (rule widens_finish)
  then have "new_row_of a db (ir_row (import_row clock pol a db))"
    by (auto simp: new_row_of_def new_membership_def dest!: widens_key) (simp_all add: key_of_def)
  then show ?thesis using new None by (simp add: import_row_def finish_import_def Let_def case_prod_beta)
next
  case (Some m)
  then have "m \<in> set (members db)" "key_of m = (im_otype a, im_item a)"
    by (auto simp: find_Some_iff same_membership_def key_of_def)
  moreover have "widens m (ir_row (import_row clock pol a db))" unfolding import_row_def Some option.case by (rule widens_import)
  moreover have "counts (ir_row (import_row clock pol a db)) = counts m" if "\<not> ir_touched (import_row clock pol a db)"
    using import_untouched [of clock pol a m] that unfolding import_row_def Some option.case counts_def by fastforce
  ultimately show ?thesis using old Some by blast
qed

lemma put_member_good:
  fixes clock pol
  assumes g: "good D db" and a: "(im_otype a, im_item a) \<in> ikey ` set (items db)"
  defines "r \<equiv> import_row clock pol a db"
  shows "good (if ir_touched r then insert (im_otype a, im_item a) D else D) (put_member (ir_row r) db)"
    "evolves db (put_member (ir_row r) db)"
proof -
  let ?k = "(im_otype a, im_item a)"
  have "good (if ir_touched r then insert ?k D else D) (put_member (ir_row r) db) \<and> evolves db (put_member (ir_row r) db)"
  proof (rule import_row_cases [of a db clock pol])
    fix m assume m: "m \<in> set (members db)" "key_of m = ?k" "widens m (ir_row (import_row clock pol a db))"
      "\<not> ir_touched (import_row clock pol a db) \<Longrightarrow> counts (ir_row (import_row clock pol a db)) = counts m"
    have id: "m_id (ir_row r) = m_id m" using widens_key [OF m(3)] r_def by simp
    have e: "put_member (ir_row r) db = update_members (\<lambda>x. m_id x = m_id m) (\<lambda>x. ir_row r) db"
      unfolding put_member_def update_members_def id using m(1) by (auto simp: list_ex_iff)
    have only: "x = m" if "x \<in> set (members db)" "m_id x = m_id m" for x
      using same_mid [of db x m] g m(1) that by (simp add: good_def)
    have w: "widens x (ir_row r)" if "x \<in> set (members db)" "m_id x = m_id m" for x
      using only [OF that] m(3) by (simp add: r_def)
    have c: "key_of x \<in> (if ir_touched r then {?k} else {})"
      if "x \<in> set (members db)" "m_id x = m_id m" "counts (ir_row r) \<noteq> counts x" for x
      using only [OF that(1,2)] that(3) m(2,4) by (auto simp: r_def)
    from update_members_good [OF g, where P = "\<lambda>x. m_id x = m_id m" and f = "\<lambda>x. ir_row r", OF w c]
    have "good (D \<union> (if ir_touched r then {?k} else {})) (put_member (ir_row r) db)" "evolves db (put_member (ir_row r) db)"
      unfolding e by blast+
    then show ?thesis by (cases "ir_touched r") simp_all
  next
    assume n: "new_row_of a db (ir_row (import_row clock pol a db))" "ir_touched (import_row clock pol a db)"
    have fresh: "m_id m \<noteq> m_id (ir_row r)" if "m \<in> set (members db)" for m
      using next_member_id_fresh [OF that] n(1) by (simp add: new_row_of_def r_def)
    then have e: "put_member (ir_row r) db = db\<lparr>members := members db @ [ir_row r]\<rparr>" by (auto simp: put_member_def list_ex_iff)
    have k: "key_of (ir_row r) = ?k" using n(1) by (simp add: new_row_of_def r_def)
    have wf: "db_wf (put_member (ir_row r) db)"
      using g a k fresh unfolding e by (force simp: good_def db_wf_def)
    have "agree_but (D \<union> {?k}) (put_member (ir_row r) db)"
      by (rule agree_transfer [OF g wf]) (use k in \<open>auto simp: e listed_def\<close>)
    then have "agree_but (insert ?k D) (put_member (ir_row r) db)" by simp
    moreover have "evolves db (put_member (ir_row r) db)" unfolding e evolves_def by (intro ballI, rule bexI, rule widens_refl) simp
    ultimately show ?thesis using wf n(2) by (simp add: good_def r_def)
  qed
  then show "good (if ir_touched r then insert ?k D else D) (put_member (ir_row r) db)" "evolves db (put_member (ir_row r) db)"
    by blast+
qed

lemma put_member_items [simp]: "items (put_member r db) = items db"
  by (simp add: put_member_def)

lemma set_schedule [simp]: "set (x_deferred (scheduleDeferredIocRecompute ty i x)) = insert (ty, i) (set (x_deferred x))"
  by (auto simp: scheduleDeferredIocRecompute_def)

lemma reactivated_touched: "ir_reactivated (import_existing clock pol a m) \<Longrightarrow> ir_touched (import_existing clock pol a m)"
  by (rule import_cases [of clock pol a m]) (auto simp: finishHealthyNoop_def finish_import_def Let_def case_prod_beta)

text \<open>Outside an import nothing is deferred; inside one the deferred indicators are the ones that may disagree.\<close>

definition deferred_of :: "import_ctx option \<Rightarrow> (string \<times> nat) set" where
  "deferred_of ctx = (case ctx of None \<Rightarrow> {} | Some x \<Rightarrow> set (x_deferred x))"

lemma upsert_good:
  assumes g: "good (E \<union> deferred_of ctx) db" and a: "(im_otype a, im_item a) \<in> ikey ` set (items db)"
    and u: "upsertMembershipOnImport clock a (ctx, db) = ((ctx', db'), res)"
  shows "good (E \<union> deferred_of ctx') db'" "evolves db db'" "ikey ` set (items db') = ikey ` set (items db)" "ctx = None \<longleftrightarrow> ctx' = None"
proof -
  define pol where "pol = (case ctx of Some x \<Rightarrow> ctx_policy x (im_feed a) (im_otype a)
                   | None \<Rightarrow> getFeedPolicy (policies db) (overrides db) (im_feed a) (im_otype a))"
  define r where "r = import_row clock pol a db"
  let ?k = "(im_otype a, im_item a)"
  let ?db1 = "put_member (ir_row r) db"
  note p = put_member_good [OF g a, of clock pol, folded r_def]
  have nt: "\<not> ir_touched r \<Longrightarrow> good (E \<union> deferred_of ctx) ?db1" using p(1) by simp
  have t: "good (insert ?k (E \<union> deferred_of ctx)) ?db1" by (rule good_mono [OF p(1)]) auto
  have keys: "ikey ` set (items (fst (recomputeIocGlobalStatus clock q i ty d))) = ikey ` set (items d)" if "db_wf d" for q i ty d
    using recompute_shape [OF that, of clock q i ty] by (auto simp: keeps_names_def ikey_def image_image)
  have ev: "evolves db (fst (recomputeIocGlobalStatus clock q i ty ?db1))" for q i ty
    by (rule evolves_trans [OF p(2) evolves_refl]) simp
  have wf1: "db_wf ?db1" using t by (simp add: good_def)
  show "good (E \<union> deferred_of ctx') db'" "evolves db db'" "ikey ` set (items db') = ikey ` set (items db)" "ctx = None \<longleftrightarrow> ctx' = None"
  proof -
    have "good (E \<union> deferred_of ctx') db' \<and> evolves db db' \<and> ikey ` set (items db') = ikey ` set (items db) \<and> (ctx = None \<longleftrightarrow> ctx' = None)"
    proof (cases ctx)
      case None
      have "((None, if ir_noop r \<and> \<not> ir_touched r then ?db1 else recompute clock (im_item a) (im_otype a) ?db1), r) = ((ctx', db'), res)"
        using u unfolding upsertMembershipOnImport_def Let_def None prod.case option.case r_def pol_def .
      then have e: "ctx' = None" "db' = (if ir_noop r \<and> \<not> ir_touched r then ?db1 else recompute clock (im_item a) (im_otype a) ?db1)"
        unfolding prod.inject by (blast dest: sym)+
      have t0: "good (insert ?k E) ?db1" and nt0: "\<not> ir_touched r \<Longrightarrow> good E ?db1"
        using t nt None by (simp_all add: deferred_of_def)
      have rc: "good E (recompute clock (im_item a) (im_otype a) ?db1)"
        by (rule good_mono [OF recompute_good' [OF t0]]) blast
      show ?thesis
      proof (cases "ir_noop r \<and> \<not> ir_touched r")
        case True
        then show ?thesis using e nt0 None p(2) by (simp add: deferred_of_def)
      next
        case False
        have d: "db' = recompute clock (im_item a) (im_otype a) ?db1" using e(2) unfolding if_not_P [OF False] .
        show ?thesis unfolding d e(1) None using rc ev keys [OF wf1] by (simp add: deferred_of_def recompute_def)
      qed
    next
      case (Some x)
      have "good (insert ?k (E \<union> set (x_deferred x))) ?db1" using t Some by (simp add: deferred_of_def)
      from recompute_good [OF this, where clock = clock and p = "ctx_suppressed x" and i = "im_item a" and ty = "im_otype a"]
      have c: "good (insert ?k (E \<union> set (x_deferred x)) - {?k}) (fst (recomputeIocGlobalStatus clock (ctx_suppressed x) (im_item a) (im_otype a) ?db1))" .
      define db2 where "db2 = fst (recomputeIocGlobalStatus clock (ctx_suppressed x) (im_item a) (im_otype a) ?db1)"
      have d2: "good (E \<union> set (x_deferred x)) db2" unfolding db2_def by (rule good_mono [OF c]) blast
      have k2: "ikey ` set (items db2) = ikey ` set (items db)" "evolves db db2" using keys [OF wf1] ev by (simp_all add: db2_def)
      have e: "(if ir_reactivated r then ((ctx, db2), r)
          else if ir_touched r then ((Some (scheduleDeferredIocRecompute (im_otype a) (im_item a) x), ?db1), r)
          else ((ctx, ?db1), r)) = ((ctx', db'), res)"
        using u unfolding upsertMembershipOnImport_def Let_def Some prod.case option.case r_def pol_def db2_def .
      consider "ctx' = ctx" "db' = db2" | "ctx' = Some (scheduleDeferredIocRecompute (im_otype a) (im_item a) x)" "db' = ?db1"
        | "ctx' = ctx" "db' = ?db1" "\<not> ir_touched r"
        using e by (auto simp only: prod.inject split: if_splits)
      then show ?thesis
        by cases (use d2 k2 t nt p(2) Some in \<open>simp_all add: deferred_of_def\<close>)
    qed
    then show "good (E \<union> deferred_of ctx') db'" "evolves db db'" "ikey ` set (items db') = ikey ` set (items db)" "ctx = None \<longleftrightarrow> ctx' = None"
      by blast+
  qed
qed

lemma oldest_set:
  "set (sort_key i_created (filter (\<lambda>i. i_observable i = obs \<and> i_otype i = ty) (items db)))
     = {i \<in> set (items db). i_observable i = obs \<and> i_otype i = ty}"
  by simp

lemma oldest_itemD: "oldest_item obs ty db = Some it \<Longrightarrow> it \<in> set (items db) \<and> i_otype it = ty \<and> i_observable it = obs"
  using oldest_set [of obs ty db] unfolding oldest_item_def by (auto simp del: set_sort set_filter split: list.splits)

lemma oldest_item_None: "oldest_item obs ty db = None \<Longrightarrow> it \<in> set (items db) \<Longrightarrow> iname it \<noteq> (obs, ty)"
  using oldest_set [of obs ty db] unfolding oldest_item_def iname_def by (auto simp del: set_sort set_filter split: list.splits)

text \<open>A new indicator has no memberships, and is active.\<close>

lemma add_item_good:
  fixes clock
  assumes g: "good D db" and none: "oldest_item obs ty db = None"
  defines "db' \<equiv> db\<lparr>items := items db @ [new_item clock (next_item_id db) obs ty]\<rparr>"
  shows "good D db'" "evolves db db'"
proof -
  have fresh: "\<forall>it \<in> set (items db). ikey it \<noteq> (ty, next_item_id db) \<and> iname it \<noteq> (obs, ty)"
  proof
    fix it assume it: "it \<in> set (items db)"
    from oldest_item_None [OF none it] show "ikey it \<noteq> (ty, next_item_id db) \<and> iname it \<noteq> (obs, ty)"
      using next_item_id_fresh [OF it] by (auto simp: ikey_def)
  qed
  have wf0: "db_wf db" using g by (simp add: good_def)
  have new: "ikey (new_item clock (next_item_id db) obs ty) = (ty, next_item_id db)"
    "iname (new_item clock (next_item_id db) obs ty) = (obs, ty)" by (simp_all add: ikey_def iname_def new_item_def)
  have dist: "distinct (map f (xs @ [x]))" if "distinct (map f xs)" "\<forall>y \<in> set xs. f y \<noteq> f x" for f :: "ioc \<Rightarrow> 'b \<times> 'c" and xs x
    using that by auto
  have wf: "db_wf db'"
    using wf0 fresh new unfolding db_wf_def db'_def
    by (auto simp del: map_append intro!: dist simp: list_all_iff)
  have l: "listed db' k = listed db k" for k by (simp add: listed_def db'_def)
  have empty: "listed db (ty, next_item_id db) = []"
    using wf0 fresh by (force simp: listed_def filter_empty_conv db_wf_def list_all_iff)
  have "agree_but D db'" unfolding agree_but_def
  proof
    fix it assume it: "it \<in> set (items db')"
    then consider "it \<in> set (items db)" | "it = new_item clock (next_item_id db) obs ty" by (auto simp: db'_def)
    then show "ikey it \<in> D \<or> item_ok db' it"
    proof cases
      case 1
      then show ?thesis using g item_ok_listed [OF wf it] item_ok_listed [OF wf0 1] by (auto simp: good_def agree_but_def l)
    next
      case 2
      then show ?thesis using item_ok_listed [OF wf it] new(1) empty by (simp add: l feed_status_def new_item_def)
    qed
  qed
  then show "good D db'" using wf by (simp add: good_def)
  show "evolves db db'" by (rule evolves_refl) (simp add: db'_def)
qed

lemma upsertIocRow_good:
  assumes g: "good (E \<union> set (x_deferred x)) db" and u: "upsertIocRow clock seenAt feedId r (x, db) = ((x', db'), i, out)"
  shows "good (E \<union> set (x_deferred x')) db'" "evolves db db'"
proof -
  define args where "args i = \<lparr>im_item = i, im_otype = fr_otype r, im_feed = feedId, im_seen = seenAt, im_first = None,
      im_observed = None, im_confidence = fr_confidence r, im_fingerprint = Some (fr_fingerprint r), im_reactivateOnly = False\<rparr>" for i
  have step: "good (E \<union> set (x_deferred (the ctx))) d2 \<and> evolves d d2"
    if d: "good (E \<union> set (x_deferred x)) d" "(fr_otype r, j) \<in> ikey ` set (items d)"
      "upsertMembershipOnImport clock (args j) (Some x, d) = ((ctx, d2), res)" for d j ctx d2 res
  proof -
    have k: "(im_otype (args j), im_item (args j)) \<in> ikey ` set (items d)" using d(2) by (simp add: args_def)
    have g1: "good (E \<union> deferred_of (Some x)) d" using d(1) by (simp add: deferred_of_def)
    note p = upsert_good [OF g1 k d(3)]
    obtain z where "ctx = Some z" using p(4) by auto
    then show ?thesis using p(1,2) by (simp add: deferred_of_def)
  qed
  have "good (E \<union> set (x_deferred x')) db' \<and> evolves db db'"
  proof (cases "oldest_item (fr_observable r) (fr_otype r) db")
    case None
    define d where "d = db\<lparr>items := items db @ [new_item clock (next_item_id db) (fr_observable r) (fr_otype r)]\<rparr>"
    note a = add_item_good [OF g None, of clock, folded d_def]
    obtain ctx d2 res where up: "upsertMembershipOnImport clock (args (next_item_id db)) (Some x, d) = ((ctx, d2), res)"
      by (metis prod.exhaust)
    have "x' = the ctx" "db' = d2"
      using u unfolding upsertIocRow_def prod.case None option.case Let_def up [unfolded args_def d_def] by simp_all
    moreover have "(fr_otype r, next_item_id db) \<in> ikey ` set (items d)" by (simp add: d_def new_item_def ikey_def)
    ultimately show ?thesis using step [OF a(1) _ up] evolves_trans [OF a(2)] by blast
  next
    case (Some it)
    note it = oldest_itemD [OF Some]
    obtain ctx d2 res where up: "upsertMembershipOnImport clock (args (i_id it)) (Some x, db) = ((ctx, d2), res)" by (metis prod.exhaust)
    have "x' = the ctx" "db' = d2"
      using u unfolding upsertIocRow_def prod.case Some option.case Let_def up [unfolded args_def] by simp_all
    moreover have "(fr_otype r, i_id it) \<in> ikey ` set (items db)" using it by (auto simp: ikey_def intro!: image_eqI [of _ _ it])
    ultimately show ?thesis using step [OF g _ up] by blast
  qed
  then show "good (E \<union> set (x_deferred x')) db'" "evolves db db'" by blast+
qed

lemma sync_rows_good:
  assumes "sync_rows clock seenAt feedId rows so sk s = ((x', db'), keys)" "good (E \<union> set (x_deferred (fst s))) (snd s)"
  shows "good (E \<union> set (x_deferred x')) db' \<and> evolves (snd s) db'"
  using assms
proof (induction clock seenAt feedId rows so sk s rule: sync_rows.induct)
  case (1 clock seenAt feedId so sk s)
  then show ?case by (auto intro: evolves_refl)
next
  case (2 clock seenAt feedId r rs so sk s)
  show ?case
  proof (cases "(fr_otype r, fr_observable r) \<in> so")
    case True
    then show ?thesis using 2 by simp
  next
    case False
    obtain x1 db1 i out where u: "upsertIocRow clock seenAt feedId r s = ((x1, db1), i, out)" by (metis prod.exhaust)
    note p = upsertIocRow_good [of E "fst s" "snd s", unfolded prod.collapse, OF 2(4) u]
    have "sync_rows clock seenAt feedId rs (insert (fr_otype r, fr_observable r) so) (insert (fr_otype r, i) sk) (x1, db1) = ((x', db'), keys)"
      using 2(3) False u by simp
    then have "good (E \<union> set (x_deferred x')) db' \<and> evolves db1 db'"
      using 2(2) [OF False u [symmetric] refl] p(1) by simp
    then show ?thesis using p(2) evolves_trans by blast
  qed
qed

lemma widens_mark [simp]: "widens m (fst (applyMembershipComputedFields clock pol now (mark_missing now m)))"
  by (rule widens_trans [OF _ widens_apply]) (simp add: mark_missing_def widens_update)

lemma set_fold_schedule:
  "set (x_deferred (fold (\<lambda>m. scheduleDeferredIocRecompute (m_otype m) (m_item m)) ms x)) = set (x_deferred x) \<union> key_of ` set ms"
  by (induction ms arbitrary: x) (auto simp: key_of_def)

lemma if3: "(if a then x else if b then x else if c then x else y) = r \<Longrightarrow> r = x \<or> r = y"
  by (auto split: if_splits)

lemma finalize_good:
  assumes "good (E \<union> set (x_deferred x)) db" "finalizeSnapshotFeedRun now feedId keys (x, db) = ((x', db'), n)"
  shows "good (E \<union> set (x_deferred x')) db'" "evolves db db'"
proof -
  let ?P = "\<lambda>m. m_feed m = feedId \<and> m_status m = MActive \<and> (m_otype m, m_item m) \<notin> keys"
  let ?f = "\<lambda>m. fst (applyMembershipComputedFields now (ctx_policy x feedId ALL_TYPES) now (mark_missing now m))"
  have "((x', db'), n) = ((x, db), 0) \<or> ((x', db'), n) = ((fold (\<lambda>m. scheduleDeferredIocRecompute (m_otype m) (m_item m)) (filter ?P (members db)) x,
      update_members ?P ?f db), length (filter ?P (members db)))"
    using assms(2) unfolding finalizeSnapshotFeedRun_def Let_def prod.case by (rule if3)
  then consider "x' = x" "db' = db"
    | "x' = fold (\<lambda>m. scheduleDeferredIocRecompute (m_otype m) (m_item m)) (filter ?P (members db)) x" "db' = update_members ?P ?f db"
    unfolding prod.inject by blast
  then have "good (E \<union> set (x_deferred x')) db' \<and> evolves db db'"
  proof cases
    case 1
    then show ?thesis using assms(1) by (simp add: evolves_refl)
  next
    case 2
    have "good (E \<union> set (x_deferred x) \<union> key_of ` set (filter ?P (members db))) (update_members ?P ?f db)" "evolves db (update_members ?P ?f db)"
      by (rule update_members_good [OF assms(1), where K = "key_of ` set (filter ?P (members db))"]; simp)+
    then show ?thesis unfolding 2 set_fold_schedule Un_assoc by blast
  qed
  then show "good (E \<union> set (x_deferred x')) db'" "evolves db db'" by blast+
qed

lemma recompute_evolves [simp]: "evolves db (recompute clock i ty db)" "evolves db (recompute_all clock keys db)"
  by (rule evolves_refl, simp)+

lemma flush_members [simp]: "members (flushDeferredIocRecomputes clock x db) = members db"
proof -
  have "members (fold (\<lambda>(ty, i). fst \<circ> recomputeIocGlobalStatus clock p i ty) ks db) = members db" for p ks
    by (induction ks arbitrary: db) (auto simp: case_prod_beta)
  then show ?thesis by (simp add: flushDeferredIocRecomputes_def)
qed

definition complete_run :: "nat option \<Rightarrow> feed_row list \<Rightarrow> bool" where
  "complete_run abortBefore rows = (case abortBefore of None \<Rightarrow> True | Some n \<Rightarrow> length rows \<le> n)"

lemma sync_good:
  assumes "good E db"
  shows "complete_run abortBefore rows \<Longrightarrow> good E (runCustomThreatFeedSync clock feedId rows abortBefore db)"
    "evolves db (runCustomThreatFeedSync clock feedId rows abortBefore db)"
    "db_wf (runCustomThreatFeedSync clock feedId rows abortBefore db)"
proof -
  let ?start = "(createImportOptimizationContext clock db, db)"
  have start: "good (E \<union> set (x_deferred (fst ?start))) (snd ?start)" using assms by (simp add: createImportOptimizationContext_def)
  have full: "good E (flushDeferredIocRecomputes clock x2 db2) \<and> evolves db (flushDeferredIocRecomputes clock x2 db2)"
    if "sync_rows clock clock feedId rows {} {} ?start = ((x1, db1), keys)"
      "finalizeSnapshotFeedRun clock feedId keys (x1, db1) = ((x2, db2), n)" for x1 db1 keys x2 db2 n
  proof -
    note a = sync_rows_good [OF that(1) start]
    note b = finalize_good [OF conjunct1 [OF a] that(2)]
    have "good E (flushDeferredIocRecomputes clock x2 db2)" using flush_agrees [of db2 E x2 clock] b(1) by (simp add: good_def)
    moreover have "evolves db2 (flushDeferredIocRecomputes clock x2 db2)" by (rule evolves_refl) simp
    ultimately show ?thesis using a b(2) evolves_trans by auto
  qed
  obtain x1 db1 keys where s: "sync_rows clock clock feedId rows {} {} ?start = ((x1, db1), keys)" by (metis prod.exhaust)
  obtain x2 db2 n where f: "finalizeSnapshotFeedRun clock feedId keys (x1, db1) = ((x2, db2), n)" by (metis prod.exhaust)
  have fin: "runCustomThreatFeedSync clock feedId rows abortBefore db = flushDeferredIocRecomputes clock x2 db2"
    if "complete_run abortBefore rows"
    using that s f by (auto simp: runCustomThreatFeedSync_def complete_run_def split: option.splits)
  show "complete_run abortBefore rows \<Longrightarrow> good E (runCustomThreatFeedSync clock feedId rows abortBefore db)"
    using fin full [OF s f] by simp
  have "evolves db (runCustomThreatFeedSync clock feedId rows abortBefore db) \<and> db_wf (runCustomThreatFeedSync clock feedId rows abortBefore db)"
  proof (cases "complete_run abortBefore rows")
    case True
    then show ?thesis using fin full [OF s f] by (simp add: good_def)
  next
    case False
    then obtain n where n: "abortBefore = Some n" "n < length rows" by (auto simp: complete_run_def split: option.splits)
    obtain x3 db3 keys3 where t: "sync_rows clock clock feedId (take n rows) {} {} ?start = ((x3, db3), keys3)" by (metis prod.exhaust)
    have "runCustomThreatFeedSync clock feedId rows abortBefore db = db3"
      using n t by (simp add: runCustomThreatFeedSync_def Let_def)
    then show ?thesis using sync_rows_good [OF t start] by (simp add: good_def)
  qed
  then show "evolves db (runCustomThreatFeedSync clock feedId rows abortBefore db)"
    "db_wf (runCustomThreatFeedSync clock feedId rows abortBefore db)" by blast+
qed

lemma sync_one_good:
  assumes g: "good E db"
  shows "good E (snd (fst (syncMembershipAfterIocImport clock obs ty src a (None, db))))"
    "evolves db (snd (fst (syncMembershipAfterIocImport clock obs ty src a (None, db))))"
proof -
  let ?r = "snd (fst (syncMembershipAfterIocImport clock obs ty src a (None, db)))"
  have "?r = db \<or> good E ?r \<and> evolves db ?r"
  proof (cases "resolveFeedIdBySourceName (feeds db) src")
    case (Some f)
    show ?thesis
    proof (cases "oldest_item obs ty db")
      case (Some it)
      let ?a = "a\<lparr>im_item := i_id it, im_otype := i_otype it, im_feed := f\<rparr>"
      obtain ctx' db' res where u: "upsertMembershipOnImport clock ?a (None, db) = ((ctx', db'), res)" by (metis prod.exhaust)
      have "(im_otype ?a, im_item ?a) \<in> ikey ` set (items db)"
        using oldest_itemD [OF Some] by (auto simp: ikey_def intro!: image_eqI [of _ _ it])
      from upsert_good [OF _ this u] g have "good (E \<union> deferred_of ctx') db'" "evolves db db'" "ctx' = None"
        by (simp_all add: deferred_of_def)
      moreover have "?r = db'" using u Some \<open>resolveFeedIdBySourceName (feeds db) src = Some f\<close>
        by (simp add: syncMembershipAfterIocImport_def Let_def)
      ultimately show ?thesis by (simp add: deferred_of_def)
    qed (simp add: syncMembershipAfterIocImport_def Some)
  qed (simp add: syncMembershipAfterIocImport_def)
  then show "good E ?r" "evolves db ?r" using g evolves_refl by auto
qed

end
