(* ===== verification/IocLifecycleSystem.thy ===== *)
theory IocLifecycleSystem
  imports IocLifecycleFacts
begin

text \<open>
  The life cycle as a system: any sequence of imports, worker batches, purges, correlation matches and
  analyst decisions, with policies and suppressions changing in between.  The section on the rules
  states what holds after every such history; the last section shows, on concrete tables, where the
  code departs from its own rules.
\<close>

section \<open>The worker, purges, matches and overrides keep the agreement\<close>

lemma widens_expire [simp]:
  "widens m (m\<lparr>m_status := s, m_expired := x, m_reason := r, m_updated := clock\<rparr>)"
  by (rule widens_update) simp_all

text \<open>Only the rows selected change, so only their indicators may disagree.\<close>

lemma expire_rows_good:
  assumes "good D db" "\<And>r. r \<in> set rows \<Longrightarrow> \<exists>m \<in> set (members db). m_id m = m_id r \<and> key_of m = key_of r"
  shows "good (D \<union> key_of ` set rows) (fold (expire_selected clock) rows db)
    \<and> evolves db (fold (expire_selected clock) rows db)"
  using assms
proof (induction rows arbitrary: D db)
  case Nil
  then show ?case by (simp add: evolves_refl)
next
  case (Cons r rs)
  let ?db = "expire_selected clock r db"
  obtain n where n: "n \<in> set (members db)" "m_id n = m_id r" "key_of n = key_of r" using Cons.prems(2) [of r] by auto
  have one: "key_of m = key_of r" if "m \<in> set (members db)" "m_id m = m_id r" for m
    using same_mid [of db m n] Cons.prems(1) n that by (simp add: good_def)
  have g: "good (D \<union> {key_of r}) ?db" and e: "evolves db ?db"
    unfolding expire_selected_def
    by (rule update_members_good [OF Cons.prems(1), where K = "{key_of r}"]; use one in simp)+
  have keep: "\<exists>m' \<in> set (members ?db). m_id m' = m_id m \<and> key_of m' = key_of m" if "m \<in> set (members db)" for m
    using e that widens_key unfolding evolves_def by blast
  have "\<exists>m \<in> set (members ?db). m_id m = m_id s \<and> key_of m = key_of s" if "s \<in> set rs" for s
    using Cons.prems(2) [of s] that keep by fastforce
  from Cons.IH [OF g this] show ?case using evolves_trans [OF e] by (simp add: Un_insert_right insert_is_Un [symmetric])
qed

lemma set_first_occurrences [simp]: "set (first_occurrences xs) = set xs"
  by (induction xs rule: first_occurrences.induct) auto

lemma key_of_pair: "(\<lambda>m. (m_otype m, m_item m)) = key_of"
  by (simp add: fun_eq_iff key_of_def)

lemma worker_finish_good:
  assumes "good E db" "\<And>r. r \<in> set rows \<Longrightarrow> \<exists>m \<in> set (members db). m_id m = m_id r \<and> key_of m = key_of r"
  shows "good E (worker_finish clock rows db)" "evolves db (worker_finish clock rows db)"
proof -
  note e = expire_rows_good [OF assms, where clock = clock]
  have "good (E \<union> set (first_occurrences (map key_of rows))) (fold (expire_selected clock) rows db)" using e by simp
  then show "good E (worker_finish clock rows db)"
    unfolding worker_finish_def key_of_pair good_def using recompute_all_agrees by blast
  show "evolves db (worker_finish clock rows db)"
    unfolding worker_finish_def using e evolves_trans recompute_evolves(2) by blast
qed

lemma select_due_rows: "r \<in> set (select_due clock n db) \<Longrightarrow> r \<in> set (members db) \<and> due clock r"
  unfolding select_due_def by (auto dest: in_set_takeD)

lemma worker_good:
  assumes "good E db"
  shows "good E (fst (runExpirationWorkerBatch clock n db))" "evolves db (fst (runExpirationWorkerBatch clock n db))"
proof -
  have r: "\<exists>m \<in> set (members db). m_id m = m_id r \<and> key_of m = key_of r" if "r \<in> set (select_due clock (max n 1) db)" for r
    using select_due_rows [OF that] by blast
  show "good E (fst (runExpirationWorkerBatch clock n db))" "evolves db (fst (runExpirationWorkerBatch clock n db))"
    unfolding runExpirationWorkerBatch_def Let_def fst_conv using worker_finish_good [OF assms r] by blast+
qed

lemma widens_purge [simp]: "widens m (purge_row clock ac m)"
  unfolding purge_row_def by (rule widens_update) simp_all

lemma purge_batch_good:
  assumes "good E db"
  shows "good E (purge_batch clock ac rows db)" "evolves db (purge_batch clock ac rows db)"
proof -
  let ?u = "update_members (\<lambda>m. m_id m \<in> set (map m_id rows)) (purge_row clock ac) db"
  let ?K = "key_of ` {m \<in> set (members db). m_id m \<in> set (map m_id rows)}"
  have u: "good (E \<union> ?K) ?u" "evolves db ?u" by (rule update_members_good [OF assms, where K = ?K]; auto)+
  then have "good (E \<union> set (first_occurrences (map key_of (filter (\<lambda>m. m_id m \<in> set (map m_id rows)) (members db))))) ?u" by simp
  then show "good E (purge_batch clock ac rows db)"
    unfolding purge_batch_def Let_def key_of_pair good_def using recompute_all_agrees by blast
  show "evolves db (purge_batch clock ac rows db)"
    unfolding purge_batch_def Let_def using u(2) evolves_trans recompute_evolves(2) by blast
qed

lemma purge_loop_good:
  "good E db \<Longrightarrow> good E (snd (purge_loop clock ac f n ab k db)) \<and> evolves db (snd (purge_loop clock ac f n ab k db))"
proof (induction clock ac f n ab k db rule: purge_loop.induct)
  case (1 clock ac f n ab k db)
  show ?case
  proof (cases "ab k \<or> purge_candidates f n db = []")
    case True
    then show ?thesis using 1(2) by (subst (1 2) purge_loop.simps) (auto simp: Let_def evolves_refl)
  next
    case False
    note b = purge_batch_good [OF 1(2), of clock ac "purge_candidates f n db"]
    have e: "purge_loop clock ac f n ab k db = purge_loop clock ac f n ab (Suc k) (purge_batch clock ac (purge_candidates f n db) db)"
      using False by (subst purge_loop.simps) (simp add: Let_def)
    show ?thesis unfolding e using 1(1) [OF refl _ _ b(1)] False evolves_trans [OF b(2)] by blast
  qed
qed

lemma widens_match [simp]: "widens m (match_row clock matchAt pol m)"
  by (auto simp: match_row_def Let_def intro!: widens_update widens_trans [OF widens_update widens_apply])

lemma match_targets_key:
  "i \<in> set (match_targets it f db) \<Longrightarrow> \<exists>m \<in> set (members db). m_id m = i \<and> key_of m = ikey it"
  by (auto simp: match_targets_def Let_def key_of_def ikey_def split: if_splits)

lemma match_good:
  assumes g: "good E db"
  shows "good E (fst (reactivateIocOnCorrelationMatch clock matchAt obs ty f db))"
    "evolves db (fst (reactivateIocOnCorrelationMatch clock matchAt obs ty f db))"
proof -
  let ?r = "fst (reactivateIocOnCorrelationMatch clock matchAt obs ty f db)"
  have "good E ?r \<and> evolves db ?r"
  proof (cases "match_item obs ty db")
    case None
    then show ?thesis using g by (simp add: reactivateIocOnCorrelationMatch_def evolves_refl)
  next
    case (Some it)
    define u where "u = update_members (\<lambda>m. m_id m \<in> set (match_targets it f db))
       (\<lambda>m. match_row clock matchAt (getFeedPolicy (policies db) (overrides db) (m_feed m) (i_otype it)) m) db"
    define v where "v = update_items (is_item (i_id it) (i_otype it)) (\<lambda>i. i\<lparr>i_matched := Some matchAt\<rparr>) u"
    have one: "key_of m = ikey it" if m: "m \<in> set (members db)" "m_id m \<in> set (match_targets it f db)" for m
    proof -
      obtain n where "n \<in> set (members db)" "m_id n = m_id m" "key_of n = ikey it" using match_targets_key [OF m(2)] by blast
      then show ?thesis using same_mid [of db n m] g m(1) by (simp add: good_def)
    qed
    have u: "good (E \<union> {ikey it}) u" "evolves db u" unfolding u_def
      by (rule update_members_good [OF g, where K = "{ikey it}"]; use one in simp)+
    have gv: "good (insert (ikey it) (E \<union> {ikey it})) v" unfolding v_def ikey_def
      by (rule update_items_good [OF u(1) [unfolded ikey_def]]) (simp add: keeps_names_def)
    have w: "good E (recompute clock (i_id it) (i_otype it) v)"
      by (rule good_mono [OF recompute_good' [OF gv]]) (auto simp: ikey_def)
    have ew: "evolves db (recompute clock (i_id it) (i_otype it) v)"
      using evolves_trans [OF u(2)] update_items_evolves recompute_evolves(1) evolves_trans unfolding v_def by blast
    have "?r = db \<or> ?r = recompute clock (i_id it) (i_otype it) v"
      by (simp add: reactivateIocOnCorrelationMatch_def Some Let_def u_def v_def)
    then show ?thesis using g w ew evolves_refl by auto
  qed
  then show "good E ?r" "evolves db ?r" by blast+
qed

lemma status_override_good:
  assumes "good E db" "keeps_names f"
  shows "good E (recompute clock i ty (update_items (is_item i ty) f db))"
    "evolves db (recompute clock i ty (update_items (is_item i ty) f db))"
proof -
  show "good E (recompute clock i ty (update_items (is_item i ty) f db))"
    by (rule good_mono [OF recompute_good' [OF update_items_good [OF assms, of ty i]]]) blast
  show "evolves db (recompute clock i ty (update_items (is_item i ty) f db))"
    using evolves_trans update_items_evolves recompute_evolves(1) by blast
qed

lemma member_override_good:
  assumes g: "good E db" and m: "m \<in> set (members db)" and f: "\<And>x. widens x (f x)"
  shows "good E (recompute clock (m_item m) (m_otype m) (update_members (\<lambda>x. m_id x = m_id m) f db))"
    "evolves db (recompute clock (m_item m) (m_otype m) (update_members (\<lambda>x. m_id x = m_id m) f db))"
proof -
  have one: "x = m" if "x \<in> set (members db)" "m_id x = m_id m" for x using same_mid [of db x m] g m that by (simp add: good_def)
  have u: "good (E \<union> {key_of m}) (update_members (\<lambda>x. m_id x = m_id m) f db)" "evolves db (update_members (\<lambda>x. m_id x = m_id m) f db)"
    by (rule update_members_good [OF g, where K = "{key_of m}"]; use one f in auto)+
  show "good E (recompute clock (m_item m) (m_otype m) (update_members (\<lambda>x. m_id x = m_id m) f db))"
    by (rule good_mono [OF recompute_good' [OF u(1)]]) (auto simp: key_of_def)
  show "evolves db (recompute clock (m_item m) (m_otype m) (update_members (\<lambda>x. m_id x = m_id m) f db))"
    using u(2) evolves_trans recompute_evolves(1) by blast
qed

lemma widens_overrides [simp]: "widens x (override_row clock en st u x)" "widens x (clear_override_row clock pol x)"
  by (simp_all add: override_row_def clear_override_row_def Let_def widens_def same_key_def)

section \<open>Histories\<close>

text \<open>The operations, with the arguments their callers pass; a membership is named by its id.\<close>

datatype lifecycle_op =
  FeedSync time string "feed_row list" "nat option"
| ImporterSync time string string string import_args
| ExpirationBatch time nat
| PurgeFeed time actor string nat "nat \<Rightarrow> bool"
| CorrelationMatch time time string string "string option"
| OverrideStatus time nat string m_status "time option" string
| ClearStatus time nat string "string option"
| OverrideMembership time nat bool "m_status option" "time option"
| ClearMembership time nat
| PolicyChange "policy list" "type_policy list"
| SuppressionChange suppression_db

definition on_member :: "nat \<Rightarrow> (membership \<Rightarrow> lifecycle_db \<Rightarrow> lifecycle_db) \<Rightarrow> lifecycle_db \<Rightarrow> lifecycle_db" where
  "on_member i f db = (case find (\<lambda>m. m_id m = i) (members db) of None \<Rightarrow> db | Some m \<Rightarrow> f m db)"

fun apply_life :: "lifecycle_op \<Rightarrow> lifecycle_db \<Rightarrow> lifecycle_db" where
  "apply_life (FeedSync clock feedId rows abortBefore) db = runCustomThreatFeedSync clock feedId rows abortBefore db"
| "apply_life (ImporterSync clock obs ty src a) db = snd (fst (syncMembershipAfterIocImport clock obs ty src a (None, db)))"
| "apply_life (ExpirationBatch clock n) db = fst (runExpirationWorkerBatch clock n db)"
| "apply_life (PurgeFeed clock ac feedId n aborted) db = snd (purgeFeedDataInBatches clock ac feedId n aborted db)"
| "apply_life (CorrelationMatch clock matchAt obs ty feedId) db = fst (reactivateIocOnCorrelationMatch clock matchAt obs ty feedId db)"
| "apply_life (OverrideStatus clock i ty status until reason) db = set_status_override clock i ty status until reason db"
| "apply_life (ClearStatus clock i ty reason) db = clear_status_override clock i ty reason db"
| "apply_life (OverrideMembership clock i enabled status until) db =
     on_member i (\<lambda>m. set_membership_override clock m enabled status until) db"
| "apply_life (ClearMembership clock i) db = on_member i (clear_membership_override clock) db"
| "apply_life (PolicyChange ps os) db = db\<lparr>policies := ps, overrides := os\<rparr>"
| "apply_life (SuppressionChange s) db = db\<lparr>supp := s\<rparr>"

definition run_life :: "lifecycle_op list \<Rightarrow> lifecycle_db \<Rightarrow> lifecycle_db" where
  "run_life ops db = fold apply_life ops db"

text \<open>Every operation but an import that is aborted half-way.\<close>

fun completes :: "lifecycle_op \<Rightarrow> bool" where
  "completes (FeedSync clock feedId rows abortBefore) = complete_run abortBefore rows"
| "completes _ = True"

lemma good_other_tables: "items db' = items db \<Longrightarrow> members db' = members db \<Longrightarrow> good D db' = good D db"
  by (simp add: good_def db_wf_def agree_but_def item_ok_def memberships_of_def)

lemma on_member_good:
  assumes "good E db" "\<And>m. m \<in> set (members db) \<Longrightarrow> good E (f m db) \<and> evolves db (f m db)"
  shows "good E (on_member i f db) \<and> evolves db (on_member i f db)"
proof (cases "find (\<lambda>m. m_id m = i) (members db)")
  case None
  then show ?thesis using assms(1) by (simp add: on_member_def evolves_refl)
next
  case (Some m)
  then have "m \<in> set (members db)" by (auto simp: find_Some_iff)
  then show ?thesis unfolding on_member_def Some option.case by (rule assms(2))
qed

lemma apply_life_good: "good E db \<Longrightarrow> completes op \<Longrightarrow> good E (apply_life op db)"
proof (cases op)
  case (OverrideMembership clock i enabled status until)
  assume g: "good E db"
  have mem: "good E (set_membership_override clock m enabled status until db)
      \<and> evolves db (set_membership_override clock m enabled status until db)" if "m \<in> set (members db)" for m
    unfolding set_membership_override_def using member_override_good [OF g that] by simp
  then show ?thesis unfolding OverrideMembership apply_life.simps
    using on_member_good [OF g, where f = "\<lambda>m. set_membership_override clock m enabled status until"] by blast
next
  case (ClearMembership clock i)
  assume g: "good E db"
  have mem: "good E (clear_membership_override clock m db) \<and> evolves db (clear_membership_override clock m db)"
    if "m \<in> set (members db)" for m
    unfolding clear_membership_override_def using member_override_good [OF g that] by simp
  then show ?thesis unfolding ClearMembership apply_life.simps
    using on_member_good [OF g, where f = "clear_membership_override clock"] by blast
next
  case (PolicyChange ps os)
  then show "good E db \<Longrightarrow> ?thesis" using good_other_tables [of "db\<lparr>policies := ps, overrides := os\<rparr>" db] by simp
next
  case (SuppressionChange s)
  then show "good E db \<Longrightarrow> ?thesis" using good_other_tables [of "db\<lparr>supp := s\<rparr>" db] by simp
qed (simp_all add: sync_good sync_one_good worker_good purgeFeedDataInBatches_def purge_loop_good match_good
    set_status_override_def clear_status_override_def status_override_good keeps_names_def)

lemma apply_life_evolves: "good E db \<Longrightarrow> evolves db (apply_life op db)"
proof (cases op)
  case (OverrideMembership clock i enabled status until)
  assume g: "good E db"
  have "good E (set_membership_override clock m enabled status until db)
      \<and> evolves db (set_membership_override clock m enabled status until db)" if "m \<in> set (members db)" for m
    unfolding set_membership_override_def using member_override_good [OF g that] by simp
  then show ?thesis unfolding OverrideMembership apply_life.simps
    using on_member_good [OF g, where f = "\<lambda>m. set_membership_override clock m enabled status until"] by blast
next
  case (ClearMembership clock i)
  assume g: "good E db"
  have "good E (clear_membership_override clock m db) \<and> evolves db (clear_membership_override clock m db)"
    if "m \<in> set (members db)" for m
    unfolding clear_membership_override_def using member_override_good [OF g that] by simp
  then show ?thesis unfolding ClearMembership apply_life.simps
    using on_member_good [OF g, where f = "clear_membership_override clock"] by blast
qed (auto simp: sync_good sync_one_good worker_good purgeFeedDataInBatches_def purge_loop_good match_good
    set_status_override_def clear_status_override_def status_override_good keeps_names_def intro: evolves_refl)

lemma apply_life_wf: "db_wf db \<Longrightarrow> db_wf (apply_life op db)"
proof -
  assume "db_wf db"
  then have g: "good UNIV db" by (simp add: good_def agree_but_def)
  show ?thesis
  proof (cases "completes op")
    case True
    from apply_life_good [OF g True] show ?thesis by (simp add: good_def)
  next
    case False
    then show ?thesis using sync_good(3) [OF g] by (cases op) simp_all
  qed
qed

interpretation life: invariant_system "good {}" "\<lambda>db db'. \<exists>op. completes op \<and> db' = apply_life op db" "good {}"
  by unfold_locales (auto intro: apply_life_good)

interpretation rows: invariant_system db_wf "\<lambda>db db'. \<exists>op. db' = apply_life op db" db_wf
  by unfold_locales (auto intro: apply_life_wf)

lemma run_life_steps:
  "list_all P ops \<Longrightarrow> (\<lambda>db db'. \<exists>op. P op \<and> db' = apply_life op db)\<^sup>*\<^sup>* db (run_life ops db)"
proof (induction ops arbitrary: db)
  case (Cons op ops)
  then have "(\<lambda>db db'. \<exists>op. P op \<and> db' = apply_life op db)\<^sup>*\<^sup>* (apply_life op db) (run_life (op # ops) db)"
    by (simp add: run_life_def)
  then show ?case using Cons.prems by (auto intro: converse_rtranclp_into_rtranclp)
qed (simp add: run_life_def)

section \<open>The rules of the life cycle\<close>

text \<open>
  C11: After any sequence of imports that run to their end, worker batches, purges (aborted ones too),
  correlation matches, overrides set and cleared, and changes of policies and suppressions, every
  indicator that is not disabled, suppressed or overridden has the status its memberships give:
  active when it has none or one of them is active and not purged, expired otherwise.  It is supposed
  that the tables agree at the start and hold one row for a value and type.
\<close>

theorem indicator_status_agrees:
  assumes "db_wf db" "list_all (item_ok db) (items db)" "list_all completes ops"
  shows "list_all (item_ok (run_life ops db)) (items (run_life ops db))"
proof -
  have "good {} db" using assms(1,2) by (simp add: good_def agree_but_def list_all_iff)
  from life.steps_inv [OF run_life_steps [OF assms(3)] this] show ?thesis by (simp add: good_def agree_but_def list_all_iff)
qed

text \<open>
  C13: The source times of a membership only move outwards.  Whatever operations run, aborted imports
  included, no membership disappears or changes its indicator or feed, its first sighting never gets
  later and its last sighting never earlier.
\<close>

theorem source_times_only_widen:
  assumes "db_wf db" "m \<in> set (members db)"
  shows "\<exists>m' \<in> set (members (run_life ops db)). m_id m' = m_id m \<and> m_item m' = m_item m \<and> m_otype m' = m_otype m
    \<and> m_feed m' = m_feed m \<and> m_first m' \<le> m_first m \<and> m_last m \<le> m_last m'"
proof -
  have "evolves db (run_life ops db)" using assms(1)
  proof (induction ops arbitrary: db)
    case (Cons op ops)
    have "good UNIV db" using Cons.prems by (simp add: good_def agree_but_def)
    then have "evolves db (apply_life op db)" by (rule apply_life_evolves)
    moreover have "evolves (apply_life op db) (run_life ops (apply_life op db))" by (rule Cons.IH [OF apply_life_wf [OF Cons.prems]])
    ultimately show ?case using evolves_trans by (simp add: run_life_def)
  qed (simp add: run_life_def evolves_refl)
  then show ?thesis using assms(2) by (auto simp: evolves_def widens_def same_key_def)
qed

end
