(* ===== verification/IocLifecycleRules.thy ===== *)
theory IocLifecycleRules
  imports IocLifecycleSystem
begin

text \<open>
  What single operations of the life cycle do: an unchanged poll of a feed, batches of the expiration
  worker, a purge; and, on concrete tables, where the code departs from its own rules.
\<close>

section \<open>A poll that brings nothing new\<close>

lemma put_member_same:
  assumes "db_wf db" "m \<in> set (members db)"
  shows "put_member m db = db"
proof -
  have "map (\<lambda>x. if m_id x = m_id m then m else x) (members db) = members db"
    using same_mid [OF assms(1) _ assms(2)] by (intro map_idI) auto
  then show ?thesis using assms(2) by (auto simp: put_member_def list_ex_iff)
qed

text \<open>
  A snapshot feed that lists an indicator again with the content it had writes nothing: no column of
  the membership changes, no time stamp, the indicator is not recomputed, and nothing is scheduled
  in an import.
\<close>

theorem unchanged_poll_writes_nothing:
  assumes wf: "db_wf db" and m: "find (same_membership a) (members db) = Some m" and healthy: "healthyActive m"
    and fp: "fingerprint_arg a = Some f" "m_fingerprint m = Some f"
    and plain: "im_observed a = None" "im_first a = None \<or> m_first m \<le> the (im_first a)"
  shows "fst (upsertMembershipOnImport clock a (ctx, db)) = (ctx, db)
    \<and> ir_outcome (snd (upsertMembershipOnImport clock a (ctx, db))) = Unchanged"
proof -
  have "m \<in> set (members db)" using m by (auto simp: find_Some_iff)
  have low: "lower_first_seen clock pol a m = (m, False)" for pol
    using plain(2) by (auto simp: lower_first_seen_def split: option.splits)
  have obs: "applyMonotonicLastSeenInFeed clock (im_observed a) m = (m, False)"
    using plain(1) by (simp add: applyMonotonicLastSeenInFeed_def)
  have "import_existing clock pol a m = \<lparr>ir_row = m, ir_outcome = Unchanged, ir_touched = False, ir_reactivated = False, ir_noop = True\<rparr>" for pol
    unfolding import_existing_def low Let_def prod.case obs using healthy fp by (simp add: finishHealthyNoop_def)
  then have "import_row clock pol a db
      = \<lparr>ir_row = m, ir_outcome = Unchanged, ir_touched = False, ir_reactivated = False, ir_noop = True\<rparr>" for pol
    by (simp add: import_row_def m)
  then show ?thesis
    using put_member_same [OF wf \<open>m \<in> set (members db)\<close>] by (auto simp: upsertMembershipOnImport_def Let_def split: option.splits)
qed

section \<open>Purging\<close>

definition purged_table :: "time \<Rightarrow> actor \<Rightarrow> string \<Rightarrow> membership list \<Rightarrow> membership list" where
  "purged_table clock ac feedId ms = map (\<lambda>m. if m_feed m = feedId \<and> counts m then purge_row clock ac m else m) ms"

lemma purge_row_sel [simp]: "m_id (purge_row clock ac m) = m_id m" "m_feed (purge_row clock ac m) = m_feed m" "\<not> counts (purge_row clock ac m)"
  by (simp_all add: purge_row_def counts_def)

lemma purge_loop_table:
  "\<lbrakk>distinct (map m_id (members db)); \<And>k. \<not> aborted k; 0 < n\<rbrakk>
     \<Longrightarrow> fst (purge_loop clock ac f n aborted k db)
       \<and> members (snd (purge_loop clock ac f n aborted k db)) = purged_table clock ac f (members db)"
proof (induction clock ac f n aborted k db rule: purge_loop.induct)
  case (1 clock ac f n aborted k db)
  let ?c = "purge_candidates f n db"
  show ?case
  proof (cases "?c = []")
    case True
    then have "filter (\<lambda>m. m_feed m = f \<and> counts m) (members db) = []"
      using 1(4) by (auto simp: purge_candidates_def dest: arg_cong [where f = length])
    then have "purged_table clock ac f (members db) = members db"
      by (auto simp: purged_table_def filter_empty_conv intro!: map_idI)
    then show ?thesis using True 1(3) by (subst (1 2) purge_loop.simps) (simp add: Let_def)
  next
    case False
    let ?db = "purge_batch clock ac ?c db"
    have e: "purge_loop clock ac f n aborted k db = purge_loop clock ac f n aborted (Suc k) ?db"
      using False 1(3) by (subst purge_loop.simps) (simp add: Let_def)
    have ms: "members ?db = map (\<lambda>m. if m_id m \<in> m_id ` set ?c then purge_row clock ac m else m) (members db)"
      by (rule purge_batch_members)
    have d: "distinct (map m_id (members ?db))" using 1(2) unfolding ms by (simp add: comp_def if_distrib cong: if_cong)
    have sel: "m_feed m = f \<and> counts m" if m: "m \<in> set (members db)" "m_id m \<in> m_id ` set ?c" for m
    proof -
      obtain x where x: "x \<in> set ?c" "m_id x = m_id m" using m(2) by auto
      then have "x = m" using purge_candidates_mem [OF x(1)] 1(2) m(1) by (auto simp: distinct_map dest: inj_onD)
      then show ?thesis using purge_candidates_mem [OF x(1)] by simp
    qed
    have "purged_table clock ac f (members ?db) = purged_table clock ac f (members db)"
      unfolding ms purged_table_def using sel by (auto simp: comp_def)
    then show ?thesis unfolding e using 1(1) [OF refl 1(3) False d 1(3,4)] by simp
  qed
qed

text \<open>
  C28: A purge that is not aborted ends, and whatever the batch size it leaves the table that one update
  of all counting memberships of the feed would leave: every one of them is purged and every other
  membership, of this feed or another, is as it was.
\<close>

theorem purge_is_one_update:
  assumes "db_wf db" "\<And>k. \<not> aborted k"
  shows "fst (purgeFeedDataInBatches clock ac feedId batchSize aborted db)
    \<and> members (snd (purgeFeedDataInBatches clock ac feedId batchSize aborted db))
       = map (\<lambda>m. if m_feed m = feedId \<and> counts m then purge_row clock ac m else m) (members db)"
  using purge_loop_table [of db aborted "max (if batchSize = 0 then 1000 else batchSize) 100" clock ac feedId 0] assms
  by (simp add: purgeFeedDataInBatches_def db_wf_def purged_table_def)

section \<open>The expiration worker\<close>

definition expired_row :: "time \<Rightarrow> membership \<Rightarrow> membership" where
  "expired_row clock m =
     m\<lparr>m_status := MExpired, m_expired := (case m_expired m of Some x \<Rightarrow> Some x | None \<Rightarrow> Some clock),
       m_reason := (case m_reason m of Some r \<Rightarrow> Some r | None \<Rightarrow> Some ''policy_ttl''), m_updated := clock\<rparr>"

lemma expired_row_sel [simp]: "m_id (expired_row clock m) = m_id m" "m_status (expired_row clock m) = MExpired"
  "key_of (expired_row clock m) = key_of m" "\<not> due c (expired_row clock m)"
  by (simp_all add: expired_row_def due_def key_of_def)

lemma expire_rows_table:
  assumes "distinct (map m_id (members db))" "distinct (map m_id rows)" "set rows \<subseteq> {m \<in> set (members db). m_status m = MActive}"
  shows "members (fold (expire_selected clock) rows db)
    = map (\<lambda>m. if m_id m \<in> m_id ` set rows then expired_row clock m else m) (members db)"
  using assms
proof (induction rows arbitrary: db)
  case (Cons r rs)
  let ?db = "expire_selected clock r db"
  have only: "m = r" if "m \<in> set (members db)" "m_id m = m_id r" for m
    using Cons.prems(1,3) that by (auto simp: distinct_map dest: inj_onD)
  have ms: "members ?db = map (\<lambda>m. if m_id m = m_id r then expired_row clock m else m) (members db)"
  proof -
    have act: "m_status r = MActive" using Cons.prems(3) by simp
    have "(if m_id m = m_id r \<and> m_status m = MActive
           then m\<lparr>m_status := MExpired, m_expired := (case m_expired m of Some x \<Rightarrow> Some x | None \<Rightarrow> Some clock),
             m_reason := (case m_reason m of Some q \<Rightarrow> Some q
               | None \<Rightarrow> Some (if text_or_empty (m_reason r) = [] then ''policy_ttl'' else text_or_empty (m_reason r))),
             m_updated := clock\<rparr> else m) = (if m_id m = m_id r then expired_row clock m else m)" if "m \<in> set (members db)" for m
    proof (cases "m_id m = m_id r")
      case True
      then have "m = r" by (rule only [OF that])
      then show ?thesis using act by (cases "m_reason r") (simp_all add: expired_row_def text_or_empty_def)
    qed simp
    then show ?thesis unfolding expire_selected_def update_members_def by simp
  qed
  have d: "distinct (map m_id (members ?db))" using Cons.prems(1) unfolding ms by (simp add: comp_def if_distrib cong: if_cong)
  have sub: "set rs \<subseteq> {m \<in> set (members ?db). m_status m = MActive}"
  proof
    fix x assume x: "x \<in> set rs"
    then have "m_id x \<noteq> m_id r" using Cons.prems(2) by (auto simp: image_iff)
    then show "x \<in> {m \<in> set (members ?db). m_status m = MActive}" using x Cons.prems(3) unfolding ms by force
  qed
  have "members (fold (expire_selected clock) rs ?db)
      = map (\<lambda>m. if m_id m \<in> m_id ` set rs then expired_row clock m else m) (members ?db)"
    using Cons.prems(2) by (intro Cons.IH d sub) simp
  also have "\<dots> = map (\<lambda>m. if m_id m \<in> m_id ` set (r # rs) then expired_row clock m else m) (members db)"
    unfolding ms using Cons.prems(2) by auto
  finally show ?case by simp
qed (auto intro!: map_idI [symmetric])

text \<open>The rows a batch takes: the earliest, at most the batch size.\<close>

lemma select_due_wf:
  assumes "db_wf db"
  shows "select_due clock n db = take n (sort_key (\<lambda>m. the (m_expires m)) (filter (due clock) (members db)))"
proof -
  have "find_item (m_item m) (m_otype m) db \<noteq> None" if "m \<in> set (members db)" for m
  proof -
    have "key_of m \<in> set (map ikey (items db))" using assms that by (auto simp: db_wf_def list_all_iff)
    then obtain it where "it \<in> set (items db)" "ikey it = (m_otype m, m_item m)" by (auto simp: key_of_def)
    from find_item_eq [OF assms this] show ?thesis by simp
  qed
  then show ?thesis unfolding select_due_def by (auto simp: filter_id_conv dest!: in_set_takeD)
qed

lemma batch_table:
  fixes clock n
  assumes wf: "db_wf db"
  defines "rows \<equiv> select_due clock (max n 1) db"
  shows "members (fst (runExpirationWorkerBatch clock n db))
      = map (\<lambda>m. if m_id m \<in> m_id ` set rows then expired_row clock m else m) (members db)"
    "length rows = min (max n 1) (length (filter (due clock) (members db)))" "distinct (map m_id rows)"
    "set rows \<subseteq> {m \<in> set (members db). due clock m}"
proof -
  let ?s = "sort_key (\<lambda>m. the (m_expires m)) (filter (due clock) (members db))"
  have d: "distinct (map m_id (members db))" using wf by (simp add: db_wf_def)
  have r: "rows = take (max n 1) ?s" unfolding rows_def by (rule select_due_wf [OF wf])
  have "distinct ?s" using d by (simp add: distinct_map)
  moreover have "inj_on m_id (set ?s)" using d by (auto simp: distinct_map inj_on_def)
  ultimately show dr: "distinct (map m_id rows)" unfolding r distinct_map
    by (intro conjI distinct_take inj_on_subset [OF _ set_take_subset])
  show sub: "set rows \<subseteq> {m \<in> set (members db). due clock m}" using select_due_rows rows_def by blast
  then have act: "set rows \<subseteq> {m \<in> set (members db). m_status m = MActive}" by (auto simp: due_def)
  show "length rows = min (max n 1) (length (filter (due clock) (members db)))" by (simp add: r)
  show "members (fst (runExpirationWorkerBatch clock n db))
      = map (\<lambda>m. if m_id m \<in> m_id ` set rows then expired_row clock m else m) (members db)"
    unfolding runExpirationWorkerBatch_def Let_def fst_conv worker_finish_def recompute_all_members rows_def [symmetric]
    by (rule expire_rows_table [OF d dr act])
qed

lemma batch_leaves:
  assumes wf: "db_wf db"
  shows "length (filter (due clock) (members (fst (runExpirationWorkerBatch clock n db))))
    = length (filter (due clock) (members db)) - max n 1"
proof -
  let ?rows = "select_due clock (max n 1) db"
  let ?in = "\<lambda>m. m_id m \<in> m_id ` set ?rows"
  note b = batch_table [OF wf, where clock = clock and n = n]
  have d: "distinct (map m_id (members db))" using wf by (simp add: db_wf_def)
  have mem: "m \<in> set ?rows" if m: "m \<in> set (members db)" "?in m" for m
  proof -
    obtain r where r: "r \<in> set ?rows" "m_id r = m_id m" using m(2) by auto
    then have "r = m" using b(4) same_mid [OF wf _ m(1)] by auto
    then show ?thesis using r(1) by simp
  qed
  have "set (filter ?in (members db)) = set ?rows" using mem b(4) by auto
  moreover have "distinct (filter ?in (members db))" "distinct ?rows" using d b(3) by (simp_all add: distinct_map)
  ultimately have n: "length (filter ?in (members db)) = length ?rows" by (metis distinct_card)
  have due: "due clock m" if "m \<in> set (members db)" "?in m" for m using mem [OF that] b(4) by auto
  have "filter (due clock) (map (\<lambda>m. if ?in m then expired_row clock m else m) ms) = filter (\<lambda>m. due clock m \<and> \<not> ?in m) ms" for ms
    by (induction ms) auto
  then have left: "length (filter (due clock) (members (fst (runExpirationWorkerBatch clock n db))))
      = length (filter (\<lambda>m. due clock m \<and> \<not> ?in m) (members db))" unfolding b(1) by simp
  have "(\<And>m. m \<in> set ms \<Longrightarrow> ?in m \<Longrightarrow> due clock m)
      \<Longrightarrow> length (filter (due clock) ms) = length (filter (\<lambda>m. due clock m \<and> \<not> ?in m) ms) + length (filter ?in ms)" for ms
    by (induction ms) auto
  then have "length (filter (due clock) (members db)) = length (filter (\<lambda>m. due clock m \<and> \<not> ?in m) (members db)) + length ?rows"
    using due unfolding n [symmetric] by blast
  then show ?thesis unfolding left b(2) by linarith
qed

text \<open>
  C12: The worker drains what is due.  Run often enough, with any batch size, it expires every active
  membership whose time has come, stamps it once, and touches no other membership.
\<close>

theorem worker_drains:
  assumes "db_wf db" "length (filter (due clock) (members db)) \<le> k * max n 1"
  shows "members (((\<lambda>d. fst (runExpirationWorkerBatch clock n d)) ^^ k) db)
    = map (\<lambda>m. if due clock m then expired_row clock m else m) (members db)"
  using assms
proof (induction k arbitrary: db)
  case 0
  then show ?case by (auto simp: filter_empty_conv intro!: map_idI [symmetric])
next
  case (Suc k)
  let ?db = "fst (runExpirationWorkerBatch clock n db)"
  note b = batch_table [OF Suc.prems(1), where clock = clock and n = n]
  have wf: "db_wf ?db" using apply_life_wf [OF Suc.prems(1), of "ExpirationBatch clock n"] by simp
  have "length (filter (due clock) (members ?db)) \<le> k * max n 1"
    unfolding batch_leaves [OF Suc.prems(1)] using Suc.prems(2) by simp
  from Suc.IH [OF wf this]
  have "members (((\<lambda>d. fst (runExpirationWorkerBatch clock n d)) ^^ Suc k) db)
      = map (\<lambda>m. if due clock m then expired_row clock m else m) (members ?db)"
    by (simp add: funpow_Suc_right del: funpow.simps)
  also have "\<dots> = map (\<lambda>m. if due clock m then expired_row clock m else m) (members db)"
  proof -
    have "due clock m" if m: "m \<in> set (members db)" "m_id m \<in> m_id ` set (select_due clock (max n 1) db)" for m
    proof -
      obtain r where r: "r \<in> set (select_due clock (max n 1) db)" "m_id r = m_id m" using m(2) by auto
      then have "r = m" using b(4) same_mid [OF Suc.prems(1) _ m(1)] by auto
      then show ?thesis using r(1) b(4) by auto
    qed
    then show ?thesis unfolding b(1) by auto
  qed
  finally show ?case .
qed

section \<open>Where the code departs from its rules\<close>

lemma canonical_modes [simp]:
  "canonicalExpirationMode MISSING_TTL = MISSING_TTL" "canonicalExpirationMode NEVER = NEVER" "canonicalExpirationMode FIXED_TTL = FIXED_TTL"
  by code_simp+

lemma updated_rows:
  "m \<in> set (members db) \<Longrightarrow> P m \<Longrightarrow> f m \<in> set (members (update_members P f db))"
  "it \<in> set (items db) \<Longrightarrow> Q it \<Longrightarrow> g it \<in> set (items (update_items Q g db))"
  by (force simp: update_members_def update_items_def)+

lemma override_never_expires:
  assumes "loadTypeOverrideRow os feedId ty = Some ov" "o_mode ov = NO_EXPIRE" "ty \<noteq> []" "ty \<noteq> ALL_TYPES"
  shows "computePolicyExpiresAt (getFeedPolicy ps os feedId ty) f l mi = None"
  using assms by (auto simp: getFeedPolicy_def Let_def applyTypeOverrideToFeedPolicy_def resolveExpirationPolicy_def
      withCanonicalExpirationMode_def computePolicyExpiresAt_def mode_defs)

text \<open>
  A type override that says "never expire" is not obeyed when a snapshot feed stops listing an
  indicator.  The finalization of the run loads the policy of the feed without its type overrides:
  the membership, which by the policy of its type never expires, is given an expiration a grace
  period from now.
\<close>

theorem snapshot_ignores_type_override:
  assumes feed: "find (\<lambda>f. fm_id f = feedId) (feeds db) = Some meta" "fm_mode meta = ''snapshot''"
    and base: "getFeedPolicy (policies db) (overrides db) feedId ALL_TYPES = Some p" "p_enabled p" "p_mode p = MISSING_TTL" "0 < grace_of p"
    and ov: "loadTypeOverrideRow (overrides db) feedId (m_otype m) = Some ov" "o_mode ov = NO_EXPIRE" "m_otype m \<notin> {[], ALL_TYPES}"
    and m: "m \<in> set (members db)" "m_feed m = feedId" "m_status m = MActive" "m_missing m = None" "\<not> m_override m" "m_policy_expires m = None"
    and keys: "keys \<noteq> {}" "(m_otype m, m_item m) \<notin> keys"
  shows "computePolicyExpiresAt (getFeedPolicy (policies db) (overrides db) feedId (m_otype m)) (Some (m_first m)) (Some (m_last m)) mi = None
    \<and> (\<exists>m' \<in> set (members (snd (fst (finalizeSnapshotFeedRun now feedId keys (createImportOptimizationContext now db, db))))).
       m_id m' = m_id m \<and> m_expires m' = Some (addDays now (grace_of p)))"
proof -
  have never: "computePolicyExpiresAt (getFeedPolicy (policies db) (overrides db) feedId (m_otype m)) (Some (m_first m)) (Some (m_last m)) mi = None"
    using override_never_expires [OF ov(1,2)] ov(3) by simp
  let ?e = "addDays now (grace_of p)"
  let ?n = "mark_missing now m"
  have n: "m_missing ?n = Some now" "\<not> m_override ?n" "m_policy_expires ?n = None" "m_id ?n = m_id m"
    using m by (simp_all add: mark_missing_def)
  have pe: "policy_expiry (Some p) ?n = Some ?e"
    using base n(1) by (simp add: policy_expiry_def computePolicyExpiresAt_def Let_def mode_defs canonicalExpirationMode_def js_trim_def js_ws_def)
  define c where "c = computeMembershipFieldPatch ?n (Some p) now"
  have c: "cp_policy_expires c = Some ?e" "cp_expires c = Some ?e"
    using n(2) by (simp_all add: c_def computeMembershipFieldPatch_def Let_def pe)
  define z where "z = ?n\<lparr>m_policy_expires := cp_policy_expires c, m_expires := cp_expires c, m_status := cp_status c,
      m_expired := cp_expired c, m_reason := cp_reason c, m_missing := cp_missing c\<rparr>"
  have z: "m_expires z = Some ?e" "m_id z = m_id m" "m_policy_expires z = Some ?e" by (simp_all add: z_def c n(4))
  have "z \<noteq> ?n" using z(3) n(3) by auto
  moreover have "\<not> membershipComputedFieldsUnchanged ?n c"
    by (simp add: membershipComputedFieldsUnchanged_def same_date_text_def c n(3))
  ultimately have ap: "fst (applyMembershipComputedFields now (Some p) now ?n) = z\<lparr>m_updated := now\<rparr>"
    unfolding applyMembershipComputedFields_def Let_def c_def [symmetric] z_def [symmetric] by simp
  have pol: "ctx_policy (createImportOptimizationContext now db) feedId ALL_TYPES = Some p"
    using base(1) by (simp add: ctx_policy_def createImportOptimizationContext_def)
  have e: "snd (fst (finalizeSnapshotFeedRun now feedId keys (createImportOptimizationContext now db, db)))
      = update_members (\<lambda>m. m_feed m = feedId \<and> m_status m = MActive \<and> (m_otype m, m_item m) \<notin> keys)
          (\<lambda>m. fst (applyMembershipComputedFields now (Some p) now (mark_missing now m))) db"
    using feed base(2,3) keys(1) by (simp add: finalizeSnapshotFeedRun_def Let_def pol)
  have "z\<lparr>m_updated := now\<rparr> \<in> set (members (update_members (\<lambda>m. m_feed m = feedId \<and> m_status m = MActive \<and> (m_otype m, m_item m) \<notin> keys)
          (\<lambda>m. fst (applyMembershipComputedFields now (Some p) now (mark_missing now m))) db))"
    unfolding ap [symmetric] by (rule updated_rows(1) [OF m(1)]) (use m keys(2) in simp)
  then have "\<exists>m' \<in> set (members (snd (fst (finalizeSnapshotFeedRun now feedId keys (createImportOptimizationContext now db, db))))).
       m_id m' = m_id m \<and> m_expires m' = Some ?e"
    unfolding e by (rule rev_bexI) (simp add: z)
  with never show ?thesis by (rule conjI)
qed

lemma keeps_override:
  "m_purged (fst (lower_first_seen clock pol a m)) = m_purged m" "m_override (fst (lower_first_seen clock pol a m)) = m_override m"
  "m_override_status (fst (lower_first_seen clock pol a m)) = m_override_status m"
  "m_purged (fst (applyMonotonicLastSeenInFeed clock t m)) = m_purged m" "m_override (fst (applyMonotonicLastSeenInFeed clock t m)) = m_override m"
  "m_override_status (fst (applyMonotonicLastSeenInFeed clock t m)) = m_override_status m"
proof -
  have "m_purged (fst (applyMembershipComputedFields clock p now x)) = m_purged x \<and> m_override (fst (applyMembershipComputedFields clock p now x)) = m_override x
      \<and> m_override_status (fst (applyMembershipComputedFields clock p now x)) = m_override_status x" for p now x
    by (rule apply_cases [of clock p now x]) simp_all
  then show "m_purged (fst (lower_first_seen clock pol a m)) = m_purged m" "m_override (fst (lower_first_seen clock pol a m)) = m_override m"
    "m_override_status (fst (lower_first_seen clock pol a m)) = m_override_status m"
    by (simp_all add: lower_first_seen_def split: option.split)
  show "m_purged (fst (applyMonotonicLastSeenInFeed clock t m)) = m_purged m" "m_override (fst (applyMonotonicLastSeenInFeed clock t m)) = m_override m"
    "m_override_status (fst (applyMonotonicLastSeenInFeed clock t m)) = m_override_status m"
    by (simp_all add: applyMonotonicLastSeenInFeed_def split: option.split)
qed

lemma overridden_sel [simp]:
  "m_purged (fst (reimport_overridden clock a m)) = m_purged m" "m_override (fst (reimport_overridden clock a m)) = m_override m"
  "m_override_status (fst (reimport_overridden clock a m)) = m_override_status m"
  unfolding reimport_overridden_def Let_def fst_if by simp_all

lemma confidence_sel [simp]:
  "m_purged (fst (set_confidence clock a m)) = m_purged m" "m_status (fst (set_confidence clock a m)) = m_status m"
  unfolding set_confidence_def Let_def fst_if by simp_all

text \<open>
  A purge is undone when the feed lists the indicator again, except where an analyst had set an
  override: an overridden membership that was purged becomes "active" again but keeps its purge mark,
  so it never counts for its indicator, however often and with whatever content the feed lists it.
\<close>

theorem purged_override_never_counts:
  assumes "m_purged m \<noteq> None" "m_override m" "m_override_status m = Some MActive"
  shows "m_status (ir_row (import_existing clock pol a m)) = MActive \<and> m_purged (ir_row (import_existing clock pol a m)) = m_purged m
    \<and> \<not> counts (ir_row (import_existing clock pol a m))"
proof -
  let ?m2 = "fst (applyMonotonicLastSeenInFeed clock (im_observed a) (fst (lower_first_seen clock pol a m)))"
  let ?m3 = "fst (reimport_overridden clock a ?m2)"
  have nh: "\<not> healthyActive m" using assms(1) by (simp add: healthyActive_def)
  have m2: "m_override ?m2" "m_override_status ?m2 = Some MActive" "m_purged ?m2 = m_purged m"
    using assms keeps_override by simp_all
  obtain t re out where e: "import_existing clock pol a m = finish_import clock pol a ?m3 t re out"
    by (rule import_cases [of clock pol a m]) (use nh m2(1) in auto)
  let ?ap = "fst (applyMembershipComputedFields clock pol (im_seen a) ?m3)"
  have row: "ir_row (import_existing clock pol a m) = fst (set_confidence clock a ?ap)"
    unfolding e by (simp add: finish_import_def Let_def case_prod_beta)
  have "m_status ?ap = MActive"
    unfolding apply_status using m2 by (simp add: computeMembershipFieldPatch_def Let_def resolveMembershipStatus_def)
  then have st: "m_status (ir_row (import_existing clock pol a m)) = MActive" unfolding row by simp
  have pu: "m_purged (ir_row (import_existing clock pol a m)) = m_purged m" unfolding row using m2(3) by simp
  show ?thesis using st pu assms(1) by (simp add: counts_def)
qed

text \<open>
  Recomputing one row of a value rewrites its other rows.  When the memberships of a value have all
  expired and its feed row is recomputed, a second row of the same value, which an analyst or a manual
  source keeps active by an override of its own, is set to expired too.
\<close>

theorem recompute_overwrites_override:
  assumes it: "find_item i ty db = Some it" "i_status it = IActive" "\<not> i_manual it" "\<not> suppressed (i_observable it) (i_otype it)"
    and gone: "feed_status (memberships_of (i_observable it) (i_otype it) db) = IExpired"
    and jt: "jt \<in> set (items db)" "i_observable jt = i_observable it" "i_otype jt = i_otype it"
      "i_manual jt" "i_manual_status jt = Some MActive" "i_manual_expires jt = None"
  shows "\<exists>j \<in> set (items (fst (recomputeIocGlobalStatus clock suppressed i ty db))).
    i_id j = i_id jt \<and> i_manual j \<and> i_manual_status j = Some MActive \<and> i_manual_expires j = None \<and> i_status j = IExpired"
proof -
  obtain e x r where "fst (recomputeIocGlobalStatus clock suppressed i ty db)
      = update_items (\<lambda>j. i_observable j = i_observable it \<and> i_otype j = i_otype it) (set_status IExpired e x r) db"
    using it gone by (auto simp: recomputeIocGlobalStatus_def recompute_from_feeds_def Let_def)
  moreover have "set_status IExpired e x r jt
      \<in> set (items (update_items (\<lambda>j. i_observable j = i_observable it \<and> i_otype j = i_otype it) (set_status IExpired e x r) db))"
    by (rule updated_rows(2) [OF jt(1)]) (use jt(2,3) in simp)
  ultimately show ?thesis using jt by (intro bexI [of _ "set_status IExpired e x r jt"]) (simp_all add: set_status_def)
qed

section \<open>Samples\<close>

definition no_suppressions :: suppression_db where
  "no_suppressions = \<lparr>suppressions = [], artifacts = [], artifact_hashes = []\<rparr>"

definition list_args :: "nat \<Rightarrow> string \<Rightarrow> time \<Rightarrow> string option \<Rightarrow> import_args" where
  "list_args i feedId seen fp =
     \<lparr>im_item = i, im_otype = ''domain'', im_feed = feedId, im_seen = seen, im_first = None, im_observed = None,
      im_confidence = None, im_fingerprint = fp, im_reactivateOnly = False\<rparr>"

definition sample_policy :: "string \<Rightarrow> string \<Rightarrow> int \<Rightarrow> policy" where
  "sample_policy feedId mode days =
     \<lparr>p_feed = feedId, p_type = ALL_TYPES, p_enabled = True, p_mode = mode, p_ttl = Some days, p_grace = None\<rparr>"

text \<open>The domain \<open>evil.test\<close> was listed by feed A, whose membership has expired; feed B is a custom snapshot feed.\<close>

definition old_listing :: membership where
  "old_listing = (new_membership 0 1 (list_args 1 ''A'' 0 None))
     \<lparr>m_expires := Some 5, m_status := MExpired, m_expired := Some 5, m_reason := Some ''fixed_ttl''\<rparr>"

definition expired_item :: ioc where
  "expired_item = set_status IExpired None (Some 5) (Some ''all_feed_memberships_expired'') (new_item 0 1 ''evil.test'' ''domain'')"

definition sample_life :: lifecycle_db where
  "sample_life =
     \<lparr>items = [expired_item], members = [old_listing],
      policies = [sample_policy ''A'' FIXED_TTL 1, sample_policy ''B'' MISSING_TTL 2], overrides = [], supp = no_suppressions,
      feeds = [\<lparr>fm_key = ''b'', fm_id = ''B'', fm_mode = ''snapshot'', fm_name = ''B list'', fm_kind = ''custom''\<rparr>]\<rparr>"

definition domain_row :: "string \<Rightarrow> feed_row" where
  "domain_row d = \<lparr>fr_observable = d, fr_otype = ''domain'', fr_confidence = None, fr_fingerprint = ''f1''\<rparr>"

definition sample_rows :: "feed_row list" where
  "sample_rows = [domain_row ''evil.test'', domain_row ''bad.test'']"

definition sample_actor :: actor where "sample_actor = \<lparr>ac_user = None, ac_reason = ''feed_data_purge''\<rparr>"

definition sample_history :: "lifecycle_op list" where
  "sample_history = [FeedSync 1000 ''B'' sample_rows None, ExpirationBatch 2000 10, PurgeFeed 3000 sample_actor ''B'' 0 (\<lambda>_. False)]"

lemma sample_life_wf: "db_wf sample_life"
  by code_simp

theorem indicator_status_agrees_witness:
  "list_all (item_ok (run_life sample_history sample_life)) (items (run_life sample_history sample_life))"
proof -
  have "list_all (item_ok sample_life) (items sample_life)" "list_all completes sample_history" by code_simp+
  from indicator_status_agrees [OF sample_life_wf this] show ?thesis .
qed

theorem source_times_only_widen_witness:
  "\<exists>m' \<in> set (members (run_life sample_history sample_life)). m_id m' = 1 \<and> m_feed m' = ''A'' \<and> m_first m' \<le> 0 \<and> 0 \<le> m_last m'"
proof -
  have "old_listing \<in> set (members sample_life)" "m_id old_listing = 1" "m_feed old_listing = ''A''" "m_first old_listing = 0" "m_last old_listing = 0"
    by code_simp+
  from source_times_only_widen [OF sample_life_wf this(1), of sample_history] this(2-) show ?thesis by metis
qed

text \<open>Feed B has listed the domain with the content \<open>f1\<close>, and lists it again.\<close>

definition listed_life :: lifecycle_db where
  "listed_life = sample_life\<lparr>members := [new_membership 10 1 (list_args 1 ''B'' 10 (Some ''f1''))]\<rparr>"

theorem unchanged_poll_writes_nothing_witness:
  "fst (upsertMembershipOnImport 99 (list_args 1 ''B'' 99 (Some ''f1'')) (None, listed_life)) = (None, listed_life)"
proof -
  let ?a = "list_args 1 ''B'' 99 (Some ''f1'')"
  let ?m = "new_membership 10 1 (list_args 1 ''B'' 10 (Some ''f1''))"
  have f: "js_trim ''f1'' = ''f1''" by code_simp
  have wf: "db_wf listed_life" by code_simp
  have m: "find (same_membership ?a) (members listed_life) = Some ?m"
    by (simp add: listed_life_def same_membership_def list_args_def new_membership_def)
  have h: "healthyActive ?m" "fingerprint_arg ?a = Some ''f1''" "m_fingerprint ?m = Some ''f1''" "im_observed ?a = None"
    "im_first ?a = None \<or> m_first ?m \<le> the (im_first ?a)"
    by (simp_all add: healthyActive_def new_membership_def list_args_def fingerprint_arg_def f)
  show ?thesis by (rule unchanged_poll_writes_nothing [OF wf m h, THEN conjunct1])
qed

theorem purge_is_one_update_witness:
  "members (snd (purgeFeedDataInBatches 99 sample_actor ''B'' 0 (\<lambda>_. False) listed_life))
     = [purge_row 99 sample_actor (new_membership 10 1 (list_args 1 ''B'' 10 (Some ''f1'')))]"
proof -
  have "db_wf listed_life" by code_simp
  from purge_is_one_update [OF this, of "\<lambda>_. False" 99 sample_actor "''B''" 0] show ?thesis
    by (simp add: listed_life_def counts_def new_membership_def list_args_def)
qed

text \<open>Two memberships of the domain are due at 20, one is not.\<close>

definition due_life :: lifecycle_db where
  "due_life = sample_life\<lparr>members := [(new_membership 0 1 (list_args 1 ''A'' 0 None))\<lparr>m_expires := Some 20\<rparr>,
     (new_membership 0 2 (list_args 1 ''B'' 0 None))\<lparr>m_expires := Some 10\<rparr>,
     (new_membership 0 3 (list_args 1 ''C'' 0 None))\<lparr>m_expires := Some 30\<rparr>]\<rparr>"

theorem worker_drains_witness:
  "map m_status (members (((\<lambda>d. fst (runExpirationWorkerBatch 20 1 d)) ^^ 2) due_life)) = [MExpired, MExpired, MActive]"
proof -
  have "db_wf due_life" "length (filter (due 20) (members due_life)) \<le> 2 * max 1 1" by code_simp+
  from worker_drains [OF this] show ?thesis by simp code_simp
qed

text \<open>Domains never expire by an override of snapshot feed B, whose other indicators leave two days after they go missing.\<close>

definition never_domains :: type_policy where
  "never_domains = \<lparr>o_feed = ''B'', o_type = ''domain'', o_mode = NO_EXPIRE, o_ttl = None\<rparr>"

theorem snapshot_ignores_type_override_witness:
  "\<exists>m \<in> set (members (snd (fst (finalizeSnapshotFeedRun 100 ''B'' {(''domain'', 2)}
     (createImportOptimizationContext 100 (listed_life\<lparr>overrides := [never_domains]\<rparr>), listed_life\<lparr>overrides := [never_domains]\<rparr>))))).
     m_id m = 1 \<and> m_expires m = Some (100 + 2 * DAY_MS)"
proof -
  let ?db = "listed_life\<lparr>overrides := [never_domains]\<rparr>"
  let ?m = "new_membership 10 1 (list_args 1 ''B'' 10 (Some ''f1''))"
  let ?p = "sample_policy ''B'' MISSING_TTL 2"
  have "find (\<lambda>f. fm_id f = ''B'') (feeds ?db) = Some (hd (feeds sample_life))" "fm_mode (hd (feeds sample_life)) = ''snapshot''"
    by (simp_all add: listed_life_def sample_life_def)
  moreover have "getFeedPolicy (policies ?db) (overrides ?db) ''B'' ALL_TYPES = Some ?p" "p_enabled ?p" "p_mode ?p = MISSING_TTL" "0 < grace_of ?p"
    by code_simp+
  moreover have "loadTypeOverrideRow (overrides ?db) ''B'' (m_otype ?m) = Some never_domains" "o_mode never_domains = NO_EXPIRE"
    "m_otype ?m \<notin> {[], ALL_TYPES}"
    by code_simp+
  moreover have "?m \<in> set (members ?db)" "m_feed ?m = ''B''" "m_status ?m = MActive" "m_missing ?m = None" "\<not> m_override ?m"
    "m_policy_expires ?m = None" "(m_otype ?m, m_item ?m) \<notin> {(''domain'', 2)}"
    by (simp_all add: listed_life_def new_membership_def list_args_def)
  moreover have "addDays 100 (grace_of ?p) = 100 + 2 * DAY_MS" "m_id ?m = 1"
    by (simp_all add: addDays_def grace_of_def sample_policy_def number_of_def new_membership_def)
  ultimately show ?thesis
    using snapshot_ignores_type_override [of "''B''" ?db "hd (feeds sample_life)" ?p ?m never_domains "{(''domain'', 2)}" None 100] by simp
qed

theorem purged_override_never_counts_witness:
  "\<not> counts (ir_row (import_existing 99 None (list_args 1 ''A'' 99 (Some ''f2''))
     (old_listing\<lparr>m_status := MPurged, m_purged := Some 50, m_override := True, m_override_status := Some MActive\<rparr>)))"
  by (rule purged_override_never_counts [THEN conjunct2, THEN conjunct2]) simp_all

text \<open>An analyst keeps the manual row of the domain active.\<close>

theorem recompute_overwrites_override_witness:
  "\<exists>j \<in> set (items (fst (recomputeIocGlobalStatus 99 (\<lambda>v t. False) 1 ''domain''
     (sample_life\<lparr>items := [new_item 0 1 ''evil.test'' ''domain'',
        (new_item 0 2 ''evil.test'' ''domain'')\<lparr>i_manual := True, i_manual_status := Some MActive\<rparr>]\<rparr>)))).
     i_id j = 2 \<and> i_manual j \<and> i_manual_status j = Some MActive \<and> i_manual_expires j = None \<and> i_status j = IExpired"
proof -
  let ?it = "new_item 0 1 ''evil.test'' ''domain''"
  let ?jt = "(new_item 0 2 ''evil.test'' ''domain'')\<lparr>i_manual := True, i_manual_status := Some MActive\<rparr>"
  let ?db = "sample_life\<lparr>items := [?it, ?jt]\<rparr>"
  have "find_item 1 ''domain'' ?db = Some ?it" by (simp add: find_item_def is_item_def new_item_def)
  moreover have "feed_status (memberships_of (i_observable ?it) (i_otype ?it) ?db) = IExpired" by code_simp
  ultimately show ?thesis
    using recompute_overwrites_override [of 1 "''domain''" ?db ?it "\<lambda>v t. False" ?jt 99] by (simp add: new_item_def)
qed

section \<open>Two histories\<close>

text \<open>
  An import aborted after it has listed an expired indicator again drops the recomputation it had
  deferred.  The next import of the same feed, which runs to its end, finds the membership unchanged
  and recomputes nothing: the indicator stays expired although a feed lists it, and will as long as
  the feed does not change its content.
\<close>

theorem aborted_import_hides_indicator:
  "let db = run_life [FeedSync 1000 ''B'' sample_rows (Some 1), FeedSync 2000 ''B'' sample_rows None] sample_life
   in map (\<lambda>i. (i_observable i, i_status i)) (items db) = [(''evil.test'', IExpired), (''bad.test'', IActive)]
      \<and> map (\<lambda>m. (m_item m, m_feed m, counts m)) (members db) = [(1, ''A'', False), (1, ''B'', True), (2, ''B'', True)]
      \<and> list_all (item_ok sample_life) (items sample_life) \<and> \<not> list_all (item_ok db) (items db)"
  by code_simp

text \<open>
  The worker's row locks end with its select.  A membership that is due when the worker selects it,
  and which a feed lists again before the worker gets to it, is expired although it now expires a day
  later, and its indicator with it.
\<close>

definition renewed_life :: lifecycle_db where
  "renewed_life = sample_life\<lparr>items := [new_item 0 1 ''evil.test'' ''domain''],
     members := [(new_membership 0 1 (list_args 1 ''B'' 0 None))\<lparr>m_policy_expires := Some 10, m_expires := Some 10\<rparr>],
     policies := [sample_policy ''B'' FIXED_TTL 1]\<rparr>"

theorem worker_expires_renewed_membership:
  "let selected = select_due 10 500 renewed_life;
       renewed = apply_life (ImporterSync 11 ''evil.test'' ''domain'' ''B list'' (list_args 0 [] 11 None)) renewed_life;
       final = worker_finish 12 selected renewed
   in map (\<lambda>m. (m_status m, m_expires m)) (members renewed) = [(MActive, Some (11 + DAY_MS))]
      \<and> map (\<lambda>m. (m_status m, m_expires m)) (members final) = [(MExpired, Some (11 + DAY_MS))]
      \<and> map i_status (items renewed) = [IActive] \<and> map i_status (items final) = [IExpired]"
  by code_simp

end
