(* ===== verification/ReleaseVersion.thy ===== *)
theory ReleaseVersion
  imports TH_Prelude "HOL-Library.Char_ord" "HOL-Library.List_Lexorder" "HOL-Library.Product_Lexorder" "HOL-Library.Log_Nat"
begin

text \<open>
  Versions of releases (\<open>releaseSemver.js\<close>): the grammar of SemVer 2.0, the comparison that decides
  whether an update is newer, channels and release tags.  The comparison is shown to be a linear order
  on what SemVer calls the precedence of a version.
\<close>

section \<open>Reading a version\<close>

text \<open>\<open>Number\<close> of a text of digits: the nearest double, ties to even; \<open>2 ^ 1024\<close> stands for \<open>Infinity\<close>.\<close>

definition to_double :: "nat \<Rightarrow> nat" where
  "to_double n =
     (if n < 2 ^ 53 then n
      else let e = floorlog 2 n - 53; q = n div 2 ^ e; r = n mod 2 ^ e;
               q' = (if 2 ^ e < 2 * r \<or> (2 * r = 2 ^ e \<and> odd q) then q + 1 else q)
           in min (q' * 2 ^ e) (2 ^ 1024))"

definition js_number :: "string \<Rightarrow> nat" where
  "js_number s = to_double (digits_val s)"

definition ident_char :: "char \<Rightarrow> bool" where
  "ident_char c \<longleftrightarrow> is_digit c \<or> is_alpha c \<or> c = CHR 0x2D"

definition all_digits :: "string \<Rightarrow> bool" where
  "all_digits s \<longleftrightarrow> s \<noteq> [] \<and> list_all is_digit s"

text \<open>\<open>0|[1-9]\d*\<close>, an identifier of a prerelease and one of a build.\<close>

definition numeric_id :: "string \<Rightarrow> bool" where
  "numeric_id s \<longleftrightarrow> all_digits s \<and> (s = ''0'' \<or> hd s \<noteq> CHR 0x30)"

definition prerelease_id :: "string \<Rightarrow> bool" where
  "prerelease_id s \<longleftrightarrow> numeric_id s \<or> (list_all ident_char s \<and> list_ex (\<lambda>c. \<not> is_digit c) s)"

definition build_id :: "string \<Rightarrow> bool" where
  "build_id s \<longleftrightarrow> s \<noteq> [] \<and> list_all ident_char s"

definition DOT :: char where "DOT = CHR 0x2E"
definition HYPHEN :: char where "HYPHEN = CHR 0x2D"
definition PLUS :: char where "PLUS = CHR 0x2B"

text \<open>The text before the first \<open>c\<close>, and the one after it.\<close>

definition split_first :: "char \<Rightarrow> string \<Rightarrow> string \<times> string option" where
  "split_first c s = (takeWhile (\<lambda>x. x \<noteq> c) s, case dropWhile (\<lambda>x. x \<noteq> c) s of [] \<Rightarrow> None | _ # rest \<Rightarrow> Some rest)"

record semver =
  sv_major :: nat
  sv_minor :: nat
  sv_patch :: nat
  sv_prerelease :: "string option"
  sv_build :: "string option"
  sv_raw :: string

text \<open>
  \<open>SEMVER_RE\<close>: the core holds neither a plus nor a hyphen and the prerelease holds no plus, so the first
  ones split the text.
\<close>

definition parseSemVer :: "string \<Rightarrow> semver option" where
  "parseSemVer version =
     (let raw = js_trim version; (left, build) = split_first PLUS raw; (core, pre) = split_first HYPHEN left;
          ids_ok = (\<lambda>ok part. case part of None \<Rightarrow> True | Some s \<Rightarrow> list_all ok (js_split DOT s))
      in case js_split DOT core of
           [a, b, c] \<Rightarrow>
             if list_all numeric_id [a, b, c] \<and> ids_ok prerelease_id pre \<and> ids_ok build_id build
             then Some \<lparr>sv_major = js_number a, sv_minor = js_number b, sv_patch = js_number c,
                        sv_prerelease = pre, sv_build = build, sv_raw = raw\<rparr>
             else None
         | _ \<Rightarrow> None)"

definition isValidSemVer :: "string \<Rightarrow> bool" where
  "isValidSemVer version \<longleftrightarrow> parseSemVer version \<noteq> None"

section \<open>Comparing versions\<close>

text \<open>The loop over the dot-separated identifiers; the end of the shorter list comes first.\<close>

fun compare_ids :: "string list \<Rightarrow> string list \<Rightarrow> int" where
  "compare_ids [] [] = 0"
| "compare_ids [] (y # ys) = -1"
| "compare_ids (x # xs) [] = 1"
| "compare_ids (x # xs) (y # ys) =
     (let xNum = all_digits x; yNum = all_digits y
      in if xNum \<and> yNum
         then (if js_number x \<noteq> js_number y then (if js_number x < js_number y then -1 else 1) else compare_ids xs ys)
         else if xNum then -1
         else if yNum then 1
         else if x \<noteq> y then (if x < y then -1 else 1)
         else compare_ids xs ys)"

definition compareSemVer :: "string \<Rightarrow> string \<Rightarrow> int option" where
  "compareSemVer a b =
     (case (parseSemVer a, parseSemVer b) of
        (Some pa, Some pb) \<Rightarrow>
          Some (if sv_major pa \<noteq> sv_major pb then (if sv_major pa < sv_major pb then -1 else 1)
                else if sv_minor pa \<noteq> sv_minor pb then (if sv_minor pa < sv_minor pb then -1 else 1)
                else if sv_patch pa \<noteq> sv_patch pb then (if sv_patch pa < sv_patch pb then -1 else 1)
                else case (sv_prerelease pa, sv_prerelease pb) of
                       (None, None) \<Rightarrow> 0
                     | (None, Some _) \<Rightarrow> 1
                     | (Some _, None) \<Rightarrow> -1
                     | (Some x, Some y) \<Rightarrow> compare_ids (js_split DOT x) (js_split DOT y))
      | _ \<Rightarrow> None)"

definition isNewerVersion :: "string \<Rightarrow> string \<Rightarrow> bool" where
  "isNewerVersion candidate current \<longleftrightarrow> compareSemVer candidate current = Some 1"

section \<open>Channels and tags\<close>

definition releaseChannel :: "string \<Rightarrow> string option" where
  "releaseChannel version =
     (case parseSemVer version of
        None \<Rightarrow> None
      | Some p \<Rightarrow>
          (case sv_prerelease p of
             None \<Rightarrow> Some ''stable''
           | Some s \<Rightarrow> let first = hd (js_split DOT s) in Some (if all_digits first then ''prerelease'' else js_lower first)))"

definition isPrereleaseVersion :: "string \<Rightarrow> bool" where
  "isPrereleaseVersion version \<longleftrightarrow> (case parseSemVer version of None \<Rightarrow> False | Some p \<Rightarrow> sv_prerelease p \<noteq> None)"

definition normalizeReleaseTag :: "string \<Rightarrow> string option" where
  "normalizeReleaseTag tag =
     (let value = js_trim tag
      in if take 1 value \<noteq> ''v'' then None else let body = js_trim (drop 1 value) in if body = [] then None else Some body)"

datatype tag_error = TagOrVersionMissing | TagInvalid | VersionInvalid | TagMismatch

text \<open>The result is the tag and the version.\<close>

definition validateReleaseTagMatchesVersion :: "string \<Rightarrow> string \<Rightarrow> tag_error + string \<times> string" where
  "validateReleaseTagMatchesVersion tag version =
     (let canonical = js_trim version
      in case normalizeReleaseTag tag of
           None \<Rightarrow> Inl TagOrVersionMissing
         | Some normalized \<Rightarrow>
             if canonical = [] then Inl TagOrVersionMissing
             else if \<not> isValidSemVer normalized then Inl TagInvalid
             else if \<not> isValidSemVer canonical then Inl VersionInvalid
             else if normalized \<noteq> canonical then Inl TagMismatch
             else Inr (CHR ''v'' # canonical, canonical))"

section \<open>Precedence\<close>

text \<open>
  The reference: numeric identifiers come before others, a shorter list before its extensions, a
  prerelease before its release; builds do not count.
\<close>

datatype ident = Numeric nat | Text string

instantiation ident :: linorder
begin

fun less_eq_ident :: "ident \<Rightarrow> ident \<Rightarrow> bool" where
  "less_eq_ident (Numeric m) (Numeric n) = (m \<le> n)"
| "less_eq_ident (Numeric m) (Text t) = True"
| "less_eq_ident (Text s) (Numeric n) = False"
| "less_eq_ident (Text s) (Text t) = (s \<le> t)"

definition less_ident :: "ident \<Rightarrow> ident \<Rightarrow> bool" where
  "less_ident x y \<longleftrightarrow> x \<le> y \<and> \<not> y \<le> x"

instance
proof
  fix x y z :: ident
  show "x < y \<longleftrightarrow> x \<le> y \<and> \<not> y \<le> x" by (rule less_ident_def)
  show "x \<le> x" by (cases x) simp_all
  show "x \<le> y \<Longrightarrow> y \<le> z \<Longrightarrow> x \<le> z" by (cases x; cases y; cases z) auto
  show "x \<le> y \<Longrightarrow> y \<le> x \<Longrightarrow> x = y" by (cases x; cases y) auto
  show "x \<le> y \<or> y \<le> x" by (cases x; cases y) auto
qed

end

datatype stage = Prerelease "ident list" | Release

instantiation stage :: linorder
begin

fun less_eq_stage :: "stage \<Rightarrow> stage \<Rightarrow> bool" where
  "less_eq_stage (Prerelease xs) (Prerelease ys) = (xs \<le> ys)"
| "less_eq_stage (Prerelease xs) Release = True"
| "less_eq_stage Release (Prerelease ys) = False"
| "less_eq_stage Release Release = True"

definition less_stage :: "stage \<Rightarrow> stage \<Rightarrow> bool" where
  "less_stage x y \<longleftrightarrow> x \<le> y \<and> \<not> y \<le> x"

instance
proof
  fix x y z :: stage
  show "x < y \<longleftrightarrow> x \<le> y \<and> \<not> y \<le> x" by (rule less_stage_def)
  show "x \<le> x" by (cases x) simp_all
  show "x \<le> y \<Longrightarrow> y \<le> z \<Longrightarrow> x \<le> z" by (cases x; cases y; cases z) auto
  show "x \<le> y \<Longrightarrow> y \<le> x \<Longrightarrow> x = y" by (cases x; cases y) auto
  show "x \<le> y \<or> y \<le> x" by (cases x; cases y) auto
qed

end

definition ident_of :: "string \<Rightarrow> ident" where
  "ident_of s = (if all_digits s then Numeric (js_number s) else Text s)"

definition precedence :: "semver \<Rightarrow> nat \<times> nat \<times> nat \<times> stage" where
  "precedence v = (sv_major v, sv_minor v, sv_patch v,
     case sv_prerelease v of None \<Rightarrow> Release | Some s \<Rightarrow> Prerelease (map ident_of (js_split DOT s)))"

text \<open>The sign by which the code reports an order.\<close>

definition sign_of :: "'a::linorder \<Rightarrow> 'a \<Rightarrow> int" where
  "sign_of x y = (if x < y then -1 else if x = y then 0 else 1)"

lemma less_ident_simps [simp]:
  "Numeric m < Numeric n \<longleftrightarrow> m < n" "Numeric m < Text t" "\<not> Text s < Numeric n" "Text s < Text t \<longleftrightarrow> s < t"
  by (auto simp: less_ident_def less_le_not_le)

lemma less_stage_simps [simp]:
  "Prerelease xs < Prerelease ys \<longleftrightarrow> xs < ys" "Prerelease xs < Release" "\<not> Release < s"
  by (cases s; auto simp: less_stage_def less_le_not_le)+

lemma compare_ids_sign: "compare_ids xs ys = sign_of (map ident_of xs) (map ident_of ys)"
  by (induction xs ys rule: compare_ids.induct) (auto simp: sign_of_def ident_of_def Let_def)

lemma compareSemVer_sign:
  assumes "parseSemVer a = Some v" "parseSemVer b = Some w"
  shows "compareSemVer a b = Some (sign_of (precedence v) (precedence w))"
  using assms
  by (auto simp: compareSemVer_def precedence_def sign_of_def compare_ids_sign less_prod_def' split: option.splits)


end
