(* ===== verification/Spec2Isabelle.thy ===== *)
theory Spec2Isabelle
  imports DslSqlFacts DslClassify AccessControl RateLimit AiSchedulerSystem JobQueue JobFence FeedFetch Sessions
    RequestGate PubReconcile PubSchedule PubGenerationFacts IocLifecycleRules ReleaseVersion
begin

text \<open>
  TalonHound is a threat-intelligence platform: a Node.js backend (\<open>src/backend\<close>) over PostgreSQL
  and BullMQ, an importer (\<open>src/integration\<close>) and a browser frontend.  This development models the
  parts of the backend that carry its own logic and proves what makes them correct.  Paths below are
  relative to \<open>src/backend/lib\<close>.

  Parts and theories.
  \<^item> \<open>TH_Prelude\<close>: JavaScript strings, numbers and plain objects, lists, and the locale
    \<open>invariant_system\<close> (an initial condition, a step relation and a preserved invariant), which every
    state machine below interprets.
  \<^item> The IOC search language (\<open>iocSearchDsl/\<close>).  \<open>DslFields\<close> (\<open>fields.js\<close>, \<open>config.js\<close>, \<open>errors.js\<close>),
    \<open>DslLexer\<close> (\<open>tokenizer.js\<close>), \<open>FileHash\<close> (\<open>fileArtifacts/hashNormalize.js\<close>), \<open>DslNormalize\<close>
    (\<open>normalize.js\<close>), \<open>DslParser\<close> and \<open>DslParserFacts\<close> (\<open>parser.js\<close>), \<open>DslRender\<close> (\<open>index.js\<close>): a query
    text becomes tokens, a tree, and a normalized text.  \<open>ThreatClassification\<close>
    (\<open>threatClassification.js\<close>), \<open>SqlFragments\<close>, \<open>ClassificationSql\<close> (\<open>classificationPredicate.js\<close>), \<open>DslSql\<close> and
    \<open>DslSqlFacts\<close> (\<open>queryBuilder.js\<close>): the tree becomes SQL with bound parameters.  \<open>DslClassify\<close>
    (\<open>classifyQuery.js\<close>): the tree is routed to interactive or deep search.
    Shown: accepted trees respect the limits and the field registry, parsing ends, normalized text
    parses back to the same meaning, the SQL text does not depend on the values, every accepted query
    compiles, LIKE patterns match literally, interactive queries are served by indexes.
  \<^item> \<open>AccessControl\<close> (\<open>rbac.js\<close>, \<open>apiKeyProfiles.js\<close>, \<open>mcpPermissions.js\<close>), \<open>RateLimit\<close>
    (\<open>slidingWindowRateLimit.js\<close>) and \<open>Sessions\<close> (\<open>sessionConfig.js\<close>, \<open>authSessions.js\<close>): who may call
    what, how often, and for how long.  A session is a row; logins, heartbeats, refreshes,
    revocations and clean-ups are its operations.  Shown: exact authorization of tools, separation of
    key profiles, limits per window and bounded memory, session lifetimes, dead sessions stay dead,
    replayed refresh tokens end their session.
  \<^item> Accounts and the request gate.  \<open>Accounts\<close> (\<open>firstRunSetup.js\<close>, \<open>setupCode.js\<close>,
    \<open>adminProtection.js\<close>, \<open>defaultAdminBootstrap.js\<close>, \<open>systemAdminBootstrap.js\<close>, \<open>../routes/users.js\<close>,
    \<open>../routes/authPassword.js\<close> and login, logout, refresh and start of \<open>../server.js\<close>): the handlers
    that write accounts and sign tokens, as functions on the tables of accounts, sessions and settings.
    \<open>AccountsFacts\<close> runs them in any order together with the tokens signed so far.  \<open>RequestGate\<close>
    (\<open>auth.js\<close>, \<open>authVersion.js\<close>, \<open>passwordChangeGate.js\<close>, \<open>ingestPrincipal.js\<close>, \<open>systemAdminAuth.js\<close>,
    \<open>apiKeyAuth.js\<close>, \<open>mcpAuth.js\<close> and the setup gate of \<open>../routes/setup.js\<close>): the seven gates in the
    order of the server, on one request, and the two checks of keys.  Shown: what a request that passes
    has shown, ended tokens are refused for good, administrators remain, setup succeeds once, a tool
    call over MCP needs a valid key and an active owner.
  \<^item> \<open>AiScheduler\<close> and \<open>AiSchedulerSystem\<close> (\<open>threatLibrary/ai/inferenceScheduler.js\<close>): slots of an AI
    provider as rows of a lease table, claimed in one transaction each; processes that hold a slot
    renew it, give it up in time, quarantine it or release it.  Shown: refinement of a first-in-
    first-out slot allocator, capacity, fail-closed slots, draining in order, bounded waiting, and
    that the processes that believe they hold a slot stay within the capacity when replies and
    timers meet the margins of the settings.
  \<^item> \<open>JobModes\<close> (\<open>jobModes.js\<close>, \<open>retryState.js\<close>, \<open>ai/timeouts.js\<close>, \<open>autoRetry.js\<close> of \<open>threatLibrary/\<close>),
    \<open>JobQueue\<close> (\<open>analysisConcurrency.js\<close>, \<open>jobOwnership.js\<close>, \<open>store.js\<close>) and \<open>JobFence\<close> (\<open>jobFence.js\<close>):
    analysis jobs as rows, dispatched into a bounded number of slots, owned by one worker, recovered
    after crashes; workers write through a fenced database handle.  Shown: slot limits and order of a
    dispatch, one live pipeline job per report, a live owner is never displaced, recovery frees
    exactly the slots of dead workers, every committed write was made by the owner.
  \<^item> \<open>FeedSsrf\<close>, \<open>FeedAuth\<close>, \<open>FeedFetch\<close> (\<open>customThreatFeedSsrf.js\<close>, \<open>customThreatFeedAuth.js\<close>,
    \<open>customThreatFeedFetch.js\<close>): fetching a custom feed from an address chosen by a user.  Shown: the
    deny list covers exactly the reserved ranges, every connection of a redirect chain is vetted,
    redaction, and what a change of authentication keeps.
  \<^item> The life cycle of indicators.  \<open>Suppression\<close> (\<open>ioc-suppression.js\<close>,
    \<open>iocSuppressionFileScope.js\<close>): which indicators are suppressed, by the query and by the index an
    import builds.  \<open>IocPolicy\<close> (\<open>feedExpirationPolicy.js\<close>, the policy functions of
    \<open>iocExpiration.js\<close> and the policy route of \<open>routes/iocExpiration.js\<close>): the expiration policy of a
    feed and its overrides by type.  \<open>IocLifecycle\<close> (\<open>iocExpiration.js\<close>,
    \<open>importOptimizationContext.js\<close>, \<open>feedLifecycle.js\<close>, the import loop of
    \<open>customThreatFeedSync.js\<close>, the override routes): an indicator is a row, every feed that lists it
    has a membership row, and imports, the expiration worker, purges, correlation matches and analysts
    are functions on the tables.  \<open>IocLifecycleFacts\<close> follows the rows through each operation,
    \<open>IocLifecycleSystem\<close> runs them in any order, \<open>IocLifecycleRules\<close> holds the rules of single
    operations.  Shown: the index decides as the query does, a saved override takes effect, the status
    of every indicator agrees with its memberships after any sequence of operations, source times only
    widen, the worker drains what is due, a purge is one update, an unchanged poll writes nothing.
  \<^item> Published feeds: generated files that clients download.  \<open>PubChunks\<close>
    (\<open>publishedFeedChunks.js\<close>, \<open>publishedFeedArtifact/streamWriter.js\<close>): rows are hashed into chunks,
    each chunk is a file, a response is the chunks between a header and a footer.  \<open>PubProjection\<close>
    (\<open>publishedFeedWindowEligibility.js\<close>, \<open>publishedFeedProjection.js\<close>,
    \<open>publishedFeedIncremental.js\<close>): the rows a feed would publish, kept up to date from what has been
    touched.  \<open>PubTick\<close> (the incremental branch of \<open>feedPublisherService.js\<close> and the choice of chunks
    in \<open>publishedFeedChunkGeneration.js\<close>): one scheduled refresh of a feed and its windows.
    \<open>PubReconcile\<close> (\<open>publishedFeedReconciliation.js\<close>): a tick without changes evaluates a batch of the
    projected rows again, slice by slice, from a durable position.  \<open>PubSchedule\<close> (the scheduler of
    \<open>feedPublisherService.js\<close>): when a feed is due, and the workers that refresh the due feeds.
    \<open>PubStore\<close> (\<open>publishedFeedArtifact/store.js\<close>, \<open>orphanGc.js\<close>): paths of the file store, what the
    orphan collector recognises and deletes.  \<open>PubGeneration\<close> and \<open>PubGenerationFacts\<close>
    (\<open>publishedFeedChunkGeneration.js\<close>): rows and files of generations as a state machine in which
    builds, clean-ups, collectors, purges, retirements, new pins and crashes interleave.  Shown: the
    streamed response is the monolithic one, an incremental tick leaves what a full rebuild would, a lap
    of the reconciliation inspects every row once and repairs what was stale, the scheduler starts every
    due feed with bounded concurrency and backoff, every generation stays servable, a slot has one
    active generation, failed builds leave no trace, the collector deletes exactly unreferenced old
    files.
  \<^item> \<open>ReleaseVersion\<close> (\<open>releaseSemver.js\<close>): versions, channels and tags of releases.  Shown: being
    newer is the linear order of SemVer precedence.

  How state and effects are modelled.  A table is the list of its rows in id order and a statement
  is a function on it; \<open>NOW()\<close> and clocks are integer arguments in milliseconds; a transaction under
  its lock is one step.  Errors are values.  What is outside the repository is an argument: BullMQ
  answers, DNS, HTTP responses, SHA-256, Base64, bcrypt, the check of a token's signature, the time zones, the URL parser, the meaning of a SQL text, the
  evaluation of a published feed over the indicator tables.  Each hypothesis about such an argument
  stands in the theorem that uses it (\<open>recognised\<close> in \<open>JobFence\<close>, \<open>timing_ok\<close> in
  \<open>AiSchedulerSystem\<close>, \<open>is_content_hash (sha x)\<close> in \<open>PubGenerationFacts\<close>: a digest is 64
  hexadecimal digits) and has a witness.  Operations that the code runs as several statements outside
  a transaction are split into their statements where the theorems are about interleavings
  (\<open>PubGeneration\<close>, \<open>JobFence\<close>, the worker's select and update in \<open>IocLifecycle\<close>); elsewhere an
  operation is one step with one clock.

  Bounds and fuel.  The parser's fuel is the number of tokens, shown to be enough in \<open>DslParserFacts\<close>;
  the redirect loop recurses on the remaining redirects; the acquire loop runs over the observations
  of its turns; splitting a text at a secret terminates by its length; the loop of a purge ends because
  every batch purges a membership that counted.  Addresses are 32- and 128-bit
  words; JavaScript numbers are integers or rationals, with the rounding of the code written out.

  Where the code differs from what it states, the theorem says what the code does: credentials are
  sent again after a second redirect inside another site (\<open>FeedFetch\<close>), a redelivered queue entry
  takes a slot beyond the limit and a late heartbeat reply lets two workers count themselves owners
  (\<open>JobQueue\<close>), the same for a late claim reply (\<open>AiSchedulerSystem\<close>), a legacy timeout exceeds its
  ceiling (\<open>JobModes\<close>), the rate limiter's window is fixed (\<open>RateLimit\<close>), parentheses evade the OR
  width limit (\<open>DslClassify\<close>), names of \<open>Object.prototype\<close> throw (\<open>AccessControl\<close>), some legacy
  classification names never match (\<open>ThreatClassification\<close>).  A failed build of a published feed loses
  the change it was to publish (\<open>PubTick\<close>), an interrupted retirement blocks its slot and a new
  serializer version is refused on unchanged chunks (\<open>PubGenerationFacts\<close>), a reconciliation run
  moves past a batch whose repair failed (\<open>PubReconcile\<close>).  The end of a snapshot
  import ignores type overrides, a purged membership with an override never counts again, recomputing
  one row overwrites the overrides of its siblings, an aborted import hides a listed indicator, and the
  worker expires a membership that was renewed after its select (\<open>IocLifecycleRules\<close>).  A new role or
  password set by an administrator leaves the old tokens valid, and paths that spell \<open>/api\<close> in capitals
  pass the gates (\<open>RequestGate\<close>); the start of the server expects a fixed name of the administrator
  (\<open>AccountsFacts\<close>).

  Not modelled.  Strings are sequences of 8-bit characters, so Unicode case folding and white space
  beyond Latin-1 are left out, and an input that folds to a name of \<open>Object.prototype\<close> is outside the
  model of \<open>ThreatClassification\<close>.  Error texts and log lines are left out.  The document extraction
  of the Threat Library, the AI prompts, enrichment providers, the importer, HTTP routes and the
  frontend are not modelled: heuristics, external services, wiring and display.  Of the published feeds
  the bootstrap and monolithic branches of a refresh, which are large queries over the indicator
  tables, and the public routes are left out; of the custom feeds the parsers of their text, CSV and
  JSON formats and the run rows with their counters; of the life cycle the columns that only the audit
  log reads and the one-minute cache of feed settings; of the accounts the cookies, the choice of random
  texts and the audit calls.  Backups and the job tables of exports and deep searches are not modelled.
\<close>

section \<open>Job ownership and the fence\<close>

text \<open>The columns of a job row that the fence of \<open>JobFence\<close> reads.\<close>

definition fence_row_of :: "job \<Rightarrow> fence_row" where
  "fence_row_of j = \<lparr>f_owner = owner_token j, f_running = (job_status j = Running)\<rparr>"

lemma sql_update_first_row:
  assumes "sql_update P f t = (t', rows)" "first_row rows = Some c"
  shows "\<exists>x\<in>set t. P x \<and> c = f x \<and> f x \<in> set t'"
  using assms
  by (cases "filter P t") (auto simp: sql_update_def first_row_def filter_eq_Cons_iff)

lemma claimed_row:
  assumes "claimJobOwnership now staleMs i tok bull t = (t', Some c)"
  shows "c \<in> set t'" "id_of c = i" "owner_token c = Some tok" "job_status c = Running" "last_sign c = now"
proof -
  let ?P = "\<lambda>j. id_of j = i \<and> job_status j \<in> {Queued, Running}
             \<and> (owner_token j = None \<or> owner_token j = Some tok \<or> owner_stale now staleMs j)"
  let ?f = "\<lambda>j. j\<lparr>owner_token := Some tok, heartbeat_at := Some now, job_status := Running,
               job_stage := ''starting'',
               bullmq_job_id := (case bull of None \<Rightarrow> bullmq_job_id j | Some b \<Rightarrow> Some b),
               started_at := (case started_at j of None \<Rightarrow> Some now | Some s \<Rightarrow> Some s)\<rparr>"
  obtain rows where "sql_update ?P ?f t = (t', rows)" "first_row rows = Some c"
    using assms unfolding claimJobOwnership_def by (auto simp: Let_def split: prod.splits)
  from sql_update_first_row [OF this] obtain x where "?P x" "c = ?f x" "?f x \<in> set t'" by blast
  then show "c \<in> set t'" "id_of c = i" "owner_token c = Some tok" "job_status c = Running" "last_sign c = now"
    by (simp_all add: last_sign_def)
qed

lemma queue_inv_claim:
  assumes "claimJobOwnership now staleMs i tok bull t = (t', r)" "queue_inv t"
  shows "queue_inv t'"
proof -
  have "queue_inv (fst (claimJobOwnership now staleMs i tok bull t))"
    using assms(2) by (auto simp: claimJobOwnership_def Let_def split_beta tame_def intro!: queue_inv_update)
  then show ?thesis using assms(1) by simp
qed


text \<open>A queued job is claimed by \<open>w1\<close>; two minutes later another worker and a recovery pass try it.\<close>

definition claimed_jobs :: jobs where
  "claimed_jobs = [(sample_job 1 7 ANALYZE 10)\<lparr>bullmq_job_id := Some ''b1''\<rparr>]"

definition rival_ops :: "(int \<times> job_op) list" where
  "rival_ops = [(121000, Recover running_sample (\<lambda>_. None)), (121000, Claim 1 ''w2'' (Some ''b1'')), (121000, CancelUnclaimed 7)]"

definition claim_outcome :: "jobs \<times> job option" where
  "claim_outcome = claimJobOwnership 1000 JOB_OWNER_STALE_MS 1 ''w1'' None claimed_jobs"

definition rival :: client where
  "rival = \<lparr>ctok = ''w2'', script = [], inTxn = False, txn = False, aborted = False, pending = [], dead = False\<rparr>"


end
